(* ===== verification/Woo_Prelude.thy ===== *)
theory Woo_Prelude
  imports Main "HOL-Library.AList" "HOL-Library.Char_ord" "HOL-Library.List_Lexorder"
    "HOL-Library.Product_Lexorder" "HOL-Library.Multiset"
begin

text \<open>
  Shared vocabulary of the development: JavaScript values, insertion-ordered maps and sets, and
  the generic list and string lemmas the components use.

  A JavaScript string is a \<^typ>\<open>string\<close>, one \<^typ>\<open>char\<close> per UTF-16 code unit (so the model
  covers code units below 256); the order \<open><\<close> on strings is the lexicographic code unit order,
  which is what \<open><\<close> and the default \<open>Array.prototype.sort\<close> compute. A JavaScript number is an
  \<^typ>\<open>int\<close>: the protocol's numbers are sequence numbers, counts and millisecond clocks.
  \<open>undefined\<close> is \<^const>\<open>None\<close> of an option type.
\<close>

named_theorems woo_map "lookup laws of the insertion-ordered maps"

section \<open>Values\<close>

text \<open>A JSON value. An object keeps its properties in enumeration order.\<close>

datatype json =
    JNull
  | JBool bool
  | JNum int
  | JStr string
  | JArr "json list"
  | JObj "(string \<times> json) list"

text \<open>\<open>value?.name\<close>: reading a property of an optional value.\<close>

definition jprop :: "json option \<Rightarrow> string \<Rightarrow> json option" where
  "jprop v name = (case v of Some (JObj kvs) \<Rightarrow> map_of kvs name | _ \<Rightarrow> None)"

text \<open>\<open>typeof x === "string"\<close> and \<open>typeof x === "number"\<close> as partial readings.\<close>

fun jstr :: "json option \<Rightarrow> string option" where
  "jstr (Some (JStr s)) = Some s"
| "jstr _ = None"

fun jnum :: "json option \<Rightarrow> int option" where
  "jnum (Some (JNum n)) = Some n"
| "jnum _ = None"

text \<open>\<open>typeof x === "string" && x.length > 0\<close>.\<close>

definition jstr_nonempty :: "json option \<Rightarrow> string option" where
  "jstr_nonempty v = (case jstr v of Some s \<Rightarrow> if s = [] then None else Some s | None \<Rightarrow> None)"

text \<open>\<open>value && typeof value === "object" && !Array.isArray(value)\<close>.\<close>

fun is_jobj :: "json option \<Rightarrow> bool" where
  "is_jobj (Some (JObj _)) = True"
| "is_jobj _ = False"

text \<open>Decimal text of a number (\<open>String(n)\<close>).\<close>

fun show_nat :: "nat \<Rightarrow> string" where
  "show_nat n = (if n < 10 then [char_of (48 + n)] else show_nat (n div 10) @ [char_of (48 + n mod 10)])"

declare show_nat.simps [simp del]

definition show_int :: "int \<Rightarrow> string" where
  "show_int i = (if i < 0 then CHR ''-'' # show_nat (nat (- i)) else show_nat (nat i))"

text \<open>
  The own properties a spread \<open>{ ...value }\<close> copies: those of an object, the indexed elements of an
  array or the characters of a string, nothing of the other values.
\<close>

fun obj_entries :: "json option \<Rightarrow> (string \<times> json) list" where
  "obj_entries (Some (JObj kvs)) = kvs"
| "obj_entries (Some (JArr xs)) = zip (map show_nat [0..<length xs]) xs"
| "obj_entries (Some (JStr s)) = zip (map show_nat [0..<length s]) (map (\<lambda>c. JStr [c]) s)"
| "obj_entries _ = []"

text \<open>\<open>{ ...prior, name: v }\<close>.\<close>

definition spread_set :: "json option \<Rightarrow> string \<Rightarrow> json \<Rightarrow> json" where
  "spread_set prior name v = JObj (AList.update name v (obj_entries prior))"

lemma jprop_simps [simp]:
  "jprop None n = None"
  "jprop (Some JNull) n = None"
  "jprop (Some (JObj kvs)) n = map_of kvs n"
  by (simp_all add: jprop_def)

lemma jstr_nonempty_simps [simp]:
  "jstr_nonempty None = None"
  "jstr_nonempty (Some JNull) = None"
  "jstr_nonempty (Some (JStr s)) = (if s = [] then None else Some s)"
  by (simp_all add: jstr_nonempty_def)

lemma jstr_nonempty_eq_Some: "jstr_nonempty v = Some s \<longleftrightarrow> v = Some (JStr s) \<and> s \<noteq> []"
  by (cases v rule: jstr.cases) (auto simp: jstr_nonempty_def)

lemma jprop_spread_set [simp]:
  "jprop (Some (spread_set prior name v)) n = (if n = name then Some v else map_of (obj_entries prior) n)"
  by (simp add: spread_set_def update_conv')

section \<open>Insertion-ordered maps and sets\<close>

text \<open>
  A JavaScript \<open>Map\<close> is an association list in insertion order: \<open>set\<close> on a present key keeps its
  place, on a new key appends, \<open>delete\<close> removes. These are the operations of
  \<open>HOL-Library.AList\<close>. A JavaScript \<open>Set\<close> is a list without duplicates.
\<close>

type_synonym ('k, 'v) jsmap = "('k \<times> 'v) list"

abbreviation jm_get :: "('k, 'v) jsmap \<Rightarrow> 'k \<Rightarrow> 'v option" where
  "jm_get \<equiv> map_of"

abbreviation jm_set :: "'k \<Rightarrow> 'v \<Rightarrow> ('k, 'v) jsmap \<Rightarrow> ('k, 'v) jsmap" where
  "jm_set \<equiv> AList.update"

abbreviation jm_del :: "'k \<Rightarrow> ('k, 'v) jsmap \<Rightarrow> ('k, 'v) jsmap" where
  "jm_del \<equiv> AList.delete"

abbreviation jm_keys :: "('k, 'v) jsmap \<Rightarrow> 'k list" where
  "jm_keys m \<equiv> map fst m"

abbreviation jm_values :: "('k, 'v) jsmap \<Rightarrow> 'v list" where
  "jm_values m \<equiv> map snd m"

definition jm_has :: "('k, 'v) jsmap \<Rightarrow> 'k \<Rightarrow> bool" where
  "jm_has m k \<longleftrightarrow> map_of m k \<noteq> None"

abbreviation jm_ok :: "('k, 'v) jsmap \<Rightarrow> bool" where
  "jm_ok m \<equiv> distinct (map fst m)"

definition js_add :: "'a \<Rightarrow> 'a list \<Rightarrow> 'a list" where
  "js_add x xs = (if x \<in> set xs then xs else xs @ [x])"

definition js_remove :: "'a \<Rightarrow> 'a list \<Rightarrow> 'a list" where
  "js_remove x xs = filter (\<lambda>y. y \<noteq> x) xs"

lemma jm_get_set [woo_map, simp]: "jm_get (jm_set k v m) k' = (if k' = k then Some v else jm_get m k')"
  by (simp add: update_conv')

lemma jm_get_del [woo_map, simp]: "jm_get (jm_del k m) k' = (if k' = k then None else jm_get m k')"
  by (simp add: delete_conv')

lemma jm_ok_set [simp]: "jm_ok m \<Longrightarrow> jm_ok (jm_set k v m)"
  by (rule distinct_update)

lemma jm_ok_del [simp]: "jm_ok m \<Longrightarrow> jm_ok (jm_del k m)"
  by (rule distinct_delete)

lemma set_js_add [simp]: "set (js_add x xs) = insert x (set xs)"
  by (auto simp: js_add_def)

lemma distinct_js_add [simp]: "distinct (js_add x xs) = distinct xs"
  by (auto simp: js_add_def)

lemma set_js_remove [simp]: "set (js_remove x xs) = set xs - {x}"
  by (auto simp: js_remove_def)

lemma distinct_js_remove [simp]: "distinct xs \<Longrightarrow> distinct (js_remove x xs)"
  by (simp add: js_remove_def)

text \<open>The entries of a map with distinct keys, as a set.\<close>

lemma set_jm_set:
  assumes "jm_ok m"
  shows "set (jm_set k v m) = insert (k, v) {p \<in> set m. fst p \<noteq> k}"
  using assms by (induction m) (auto intro: rev_image_eqI)

lemma set_jm_del: "set (jm_del k m) = {p \<in> set m. fst p \<noteq> k}"
  by (auto simp: AList.delete_eq)

lemma jm_get_iff: "jm_ok m \<Longrightarrow> jm_get m k = Some v \<longleftrightarrow> (k, v) \<in> set m"
  by (rule map_of_eq_Some_iff)

section \<open>Strings\<close>

text \<open>\<open>indexOf\<close>: the index of the first occurrence, or \<open>-1\<close>.\<close>

fun index_of :: "'a \<Rightarrow> 'a list \<Rightarrow> int" where
  "index_of x [] = -1"
| "index_of x (y # ys) =
     (if x = y then 0 else let i = index_of x ys in if i < 0 then -1 else i + 1)"

lemma index_of_neg: "index_of x xs < 0 \<longleftrightarrow> x \<notin> set xs"
  by (induction xs) (auto simp: Let_def)

lemma index_of_nth:
  "x \<in> set xs \<Longrightarrow> 0 \<le> index_of x xs \<and> index_of x xs < int (length xs) \<and> xs ! nat (index_of x xs) = x"
  by (induction xs) (auto simp: Let_def index_of_neg nat_add_distrib nth_Cons')

lemma index_of_distinct_nth:
  "distinct xs \<Longrightarrow> i < length xs \<Longrightarrow> index_of (xs ! i) xs = int i"
  using index_of_nth [of "xs ! i" xs]
  by (metis nat_int nat_less_iff nth_eq_iff_index_eq nth_mem int_nat_eq linorder_not_le)

lemma string_append_less [simp]: "(xs @ u < xs @ v) = (u < (v :: 'a :: linorder list))"
  by (induction xs) auto

lemma string_less_append: "v \<noteq> [] \<Longrightarrow> (u :: 'a :: linorder list) < u @ v"
  by (induction u) (auto simp: neq_Nil_conv)

text \<open>\<open>s.split(sep)\<close> for a one-character separator.\<close>

fun split_on :: "char \<Rightarrow> string \<Rightarrow> string list" where
  "split_on sep [] = [[]]"
| "split_on sep (c # cs) = (if c = sep then [] # split_on sep cs
     else (case split_on sep cs of [] \<Rightarrow> [[c]] | w # ws \<Rightarrow> (c # w) # ws))"

definition starts_with :: "string \<Rightarrow> string \<Rightarrow> bool" where
  "starts_with pre s \<longleftrightarrow> take (length pre) s = pre"

lemma split_on_no_sep: "sep \<notin> set s \<Longrightarrow> split_on sep s = [s]"
  by (induction s) auto

lemma split_on_append: "sep \<notin> set s \<Longrightarrow> split_on sep (s @ sep # t) = s # split_on sep t"
  by (induction s) auto

lemma split_on_concat: "split_on sep s = ws \<Longrightarrow> ws \<noteq> [] \<and> s = concat (hd ws # map (Cons sep) (tl ws))"
  by (induction s arbitrary: ws) (fastforce split: list.splits if_splits)+

section \<open>Sorting by a comparison\<close>

text \<open>\<open>list.sort(compare)\<close> for a comparison \<open>le a b\<close> that is \<open>compare(a, b) <= 0\<close>: the stable sort.\<close>

fun insert_by :: "('a \<Rightarrow> 'a \<Rightarrow> bool) \<Rightarrow> 'a \<Rightarrow> 'a list \<Rightarrow> 'a list" where
  "insert_by le x [] = [x]"
| "insert_by le x (y # ys) = (if le x y then x # y # ys else y # insert_by le x ys)"

definition sort_by :: "('a \<Rightarrow> 'a \<Rightarrow> bool) \<Rightarrow> 'a list \<Rightarrow> 'a list" where
  "sort_by le xs = foldr (insert_by le) xs []"

lemma set_insert_by [simp]: "set (insert_by le x xs) = insert x (set xs)"
  by (induction xs) auto

lemma mset_insert_by: "mset (insert_by le x xs) = add_mset x (mset xs)"
  by (induction xs) auto

lemma mset_sort_by [simp]: "mset (sort_by le xs) = mset xs"
  by (induction xs) (simp_all add: sort_by_def mset_insert_by)

lemma set_sort_by [simp]: "set (sort_by le xs) = set xs"
  by (metis mset_sort_by set_mset_mset)

lemma length_sort_by [simp]: "length (sort_by le xs) = length xs"
  by (metis mset_sort_by size_mset)

lemma distinct_map_sort_by [simp]: "distinct (map f (sort_by le xs)) = distinct (map f xs)"
  by (metis mset_eq_imp_distinct_iff mset_map mset_sort_by)

text \<open>A comparison that is a total preorder sorts.\<close>

definition total_preorder :: "('a \<Rightarrow> 'a \<Rightarrow> bool) \<Rightarrow> bool" where
  "total_preorder le \<longleftrightarrow> (\<forall>x y. le x y \<or> le y x) \<and> (\<forall>x y z. le x y \<longrightarrow> le y z \<longrightarrow> le x z)"

lemma sorted_insert_by:
  assumes "total_preorder le" "sorted_wrt le xs"
  shows "sorted_wrt le (insert_by le x xs)"
  using assms(2)
proof (induction xs)
  case (Cons y ys)
  then show ?case using assms(1) unfolding total_preorder_def by (auto; blast)
qed simp

lemma sorted_sort_by: "total_preorder le \<Longrightarrow> sorted_wrt le (sort_by le xs)"
  by (induction xs) (simp_all add: sort_by_def sorted_insert_by)

lemma sort_by_id: "sorted_wrt le xs \<Longrightarrow> sort_by le xs = xs"
proof (induction xs)
  case (Cons x xs)
  then show ?case by (cases xs) (simp_all add: sort_by_def)
qed (simp add: sort_by_def)

end
