(* ===== verification/Fractional_Rank.thy ===== *)
theory Fractional_Rank
  imports Woo_Prelude
begin

text \<open>
  Fractional rank keys (\<open>src/core/fractional-rank.ts\<close>): base-62 digit strings that a caller
  inserts between two neighbours by writing one key. A bound that does not exist (\<open>null\<close>) is
  \<^const>\<open>None\<close>; each \<open>throw\<close> is a value of \<open>rank_error\<close>.
\<close>

section \<open>The module\<close>

datatype rank_error =
    MidpointBounds string string
  | InvalidLowerBound string
  | InvalidUpperBound string
  | BoundsOutOfOrder string string
  | InvalidKey string

definition RANK_DIGITS :: string where
  "RANK_DIGITS = ''0123456789ABCDEFGHIJKLMNOPQRSTUVWXYZabcdefghijklmnopqrstuvwxyz''"

definition BASE :: int where
  "BASE = int (length RANK_DIGITS)"

definition ZERO :: char where
  "ZERO = RANK_DIGITS ! 0"

definition digitOf :: "char \<Rightarrow> int" where
  "digitOf ch = index_of ch RANK_DIGITS"

text \<open>\<open>RANK_DIGITS[i]\<close> used in a string concatenation: out of range it is \<open>undefined\<close>.\<close>

definition rank_digit :: "int \<Rightarrow> string" where
  "rank_digit i = (if 0 \<le> i \<and> i < BASE then [RANK_DIGITS ! nat i] else ''undefined'')"

definition isValidRank :: "string \<Rightarrow> bool" where
  "isValidRank s = (if length s = 0 then False
     else if \<exists>ch \<in> set s. digitOf ch < 0 then False
     else last s \<noteq> ZERO)"

text \<open>\<open>a[ai] ?? ZERO\<close>.\<close>

definition at_or_zero :: "string \<Rightarrow> nat \<Rightarrow> char" where
  "at_or_zero a i = (if i < length a then a ! i else ZERO)"

text \<open>The inner \<open>while\<close>: copy the shared leading run of both bounds.\<close>

function copy_shared :: "string \<Rightarrow> string \<Rightarrow> nat \<Rightarrow> nat \<Rightarrow> string \<Rightarrow> nat \<times> nat \<times> string" where
  "copy_shared a b ai bi prefix =
     (if bi < length b \<and> at_or_zero a ai = b ! bi
      then copy_shared a b (ai + 1) (bi + 1) (prefix @ [b ! bi])
      else (ai, bi, prefix))"
  by pat_completeness auto
termination
  by (relation "measure (\<lambda>(a, b, ai, bi, prefix). length b - bi)") auto

declare copy_shared.simps [simp del]

lemma copy_shared_mono: "copy_shared a b ai bi p = (ai', bi', p') \<Longrightarrow> ai \<le> ai'"
proof (induction a b ai bi p rule: copy_shared.induct)
  case (1 a b ai bi p)
  then show ?case
    by (subst (asm) copy_shared.simps [of a b ai bi p]) (auto split: if_splits)
qed

text \<open>The outer \<open>for (;;)\<close>; \<open>Math.round(x / 2)\<close> rounds halves up.\<close>

function midpoint_loop :: "string \<Rightarrow> string option \<Rightarrow> nat \<Rightarrow> nat \<Rightarrow> string \<Rightarrow> string" where
  "midpoint_loop a b ai0 bi0 prefix0 =
     (let (ai, bi, prefix) =
            (case b of None \<Rightarrow> (ai0, bi0, prefix0) | Some bs \<Rightarrow> copy_shared a bs ai0 bi0 prefix0);
          digitA = (if ai < length a then digitOf (a ! ai) else 0);
          digitB = (case b of None \<Rightarrow> BASE
                    | Some bs \<Rightarrow> if bi < length bs then digitOf (bs ! bi) else BASE)
      in if digitB - digitA > 1 then prefix @ rank_digit ((digitA + digitB + 1) div 2)
         else if b \<noteq> None \<and> bi + 1 < length (the b) then prefix @ [the b ! bi]
         else midpoint_loop a None (ai + 1) 0 (prefix @ rank_digit digitA))"
  by pat_completeness auto
termination
  by (relation "measure (\<lambda>(a, b, ai, bi, prefix). (if b = None then 0 else 1) + (length a - ai))")
     (auto simp: BASE_def RANK_DIGITS_def dest!: copy_shared_mono [OF sym] split: option.splits if_splits)

declare midpoint_loop.simps [simp del]

definition midpoint :: "string \<Rightarrow> string option \<Rightarrow> rank_error + string" where
  "midpoint a b =
     (if b \<noteq> None \<and> \<not> a < the b then Inl (MidpointBounds a (the b))
      else Inr (midpoint_loop a b 0 0 []))"

definition rankAfter :: "string \<Rightarrow> rank_error + string" where
  "rankAfter a =
     (if \<not> isValidRank a then Inl (InvalidKey a)
      else let d = digitOf (last a) in
        if d + 1 < BASE then Inr (butlast a @ rank_digit (d + 1))
        else Inr (a @ rank_digit (BASE div 2)))"

definition rankBefore :: "string \<Rightarrow> rank_error + string" where
  "rankBefore b =
     (if \<not> isValidRank b then Inl (InvalidKey b)
      else let d = digitOf (last b) in
        if d - 1 \<ge> 1 then Inr (butlast b @ rank_digit (d - 1))
        else Inr (butlast b @ [ZERO] @ rank_digit (BASE div 2)))"

definition rankBetween :: "string option \<Rightarrow> string option \<Rightarrow> rank_error + string" where
  "rankBetween a b =
     (if a \<noteq> None \<and> \<not> isValidRank (the a) then Inl (InvalidLowerBound (the a))
      else if b \<noteq> None \<and> \<not> isValidRank (the b) then Inl (InvalidUpperBound (the b))
      else if a \<noteq> None \<and> b \<noteq> None \<and> \<not> the a < the b then Inl (BoundsOutOfOrder (the a) (the b))
      else case b of
        None \<Rightarrow> (case a of None \<Rightarrow> midpoint [] None | Some x \<Rightarrow> rankAfter x)
      | Some y \<Rightarrow> (case a of None \<Rightarrow> rankBefore y | Some x \<Rightarrow> midpoint x (Some y)))"

definition firstRank :: "rank_error + string" where
  "firstRank = rankBetween None None"

section \<open>Digits\<close>

lemma RANK_DIGITS_sorted: "sorted_wrt (<) RANK_DIGITS"
proof -
  have "successively (<) RANK_DIGITS" by (simp add: RANK_DIGITS_def less_char_def)
  then show ?thesis by (simp add: successively_conv_sorted_wrt)
qed

lemma BASE_eq [simp]: "BASE = 62"
  by (simp add: BASE_def RANK_DIGITS_def)

lemma length_RANK_DIGITS [simp]: "length RANK_DIGITS = 62"
  by (simp add: RANK_DIGITS_def)

lemma distinct_RANK_DIGITS [simp]: "distinct RANK_DIGITS"
  using RANK_DIGITS_sorted strict_sorted_iff by blast

lemma ZERO_in: "ZERO \<in> set RANK_DIGITS"
  by (simp add: ZERO_def)

lemma digitOf_ZERO [simp]: "digitOf ZERO = 0"
  by (simp add: digitOf_def ZERO_def index_of_distinct_nth)

lemma digitOf_bounds: "c \<in> set RANK_DIGITS \<Longrightarrow> 0 \<le> digitOf c \<and> digitOf c < 62"
  using index_of_nth [of c RANK_DIGITS] by (simp add: digitOf_def)

lemma digitOf_neg: "digitOf c < 0 \<longleftrightarrow> c \<notin> set RANK_DIGITS"
  by (simp add: digitOf_def index_of_neg)

lemma rank_digit_digitOf: "c \<in> set RANK_DIGITS \<Longrightarrow> rank_digit (digitOf c) = [c]"
  using index_of_nth [of c RANK_DIGITS] by (simp add: rank_digit_def digitOf_def)

lemma rank_digit_eq:
  assumes "0 \<le> i" "i < 62"
  obtains c where "rank_digit i = [c]" "c \<in> set RANK_DIGITS" "digitOf c = i"
proof
  show "rank_digit i = [RANK_DIGITS ! nat i]" using assms by (simp add: rank_digit_def)
  show "RANK_DIGITS ! nat i \<in> set RANK_DIGITS" using assms by simp
  show "digitOf (RANK_DIGITS ! nat i) = i"
    using assms by (simp add: digitOf_def index_of_distinct_nth)
qed

text \<open>ASCII order is digit order.\<close>

lemma digitOf_less_iff:
  assumes "c \<in> set RANK_DIGITS" "d \<in> set RANK_DIGITS"
  shows "digitOf c < digitOf d \<longleftrightarrow> c < d"
proof -
  obtain i j where "c = RANK_DIGITS ! i" "i < 62" "d = RANK_DIGITS ! j" "j < 62"
    using assms by (metis in_set_conv_nth length_RANK_DIGITS)
  then show ?thesis
    using sorted_wrt_nth_less [OF RANK_DIGITS_sorted, of i j]
      sorted_wrt_nth_less [OF RANK_DIGITS_sorted, of j i]
    by (cases i j rule: linorder_cases) (auto simp: digitOf_def index_of_distinct_nth)
qed

lemma ZERO_less: "c \<in> set RANK_DIGITS \<Longrightarrow> c \<noteq> ZERO \<Longrightarrow> ZERO < c"
  unfolding ZERO_def in_set_conv_nth
  using sorted_wrt_nth_less [OF RANK_DIGITS_sorted, of 0] by (metis gr0I)

lemma isValidRank_iff:
  "isValidRank s \<longleftrightarrow> s \<noteq> [] \<and> set s \<subseteq> set RANK_DIGITS \<and> last s \<noteq> ZERO"
  by (auto simp: isValidRank_def digitOf_neg)


section \<open>The midpoint loop\<close>

text \<open>
  \<open>pad_split u s v\<close>: reading \<open>u\<close> with its missing digits as zero, \<open>s\<close> is a prefix and \<open>v\<close> what
  remains of \<open>u\<close> after it.
\<close>

definition pad_split :: "string \<Rightarrow> string \<Rightarrow> string \<Rightarrow> bool" where
  "pad_split u s v \<longleftrightarrow> u = s @ v \<or> (v = [] \<and> (\<exists>n. s = u @ replicate n ZERO))"

lemma singleton_replicate: "\<exists>n. [c] = replicate n c"
  by (rule exI [of _ 1]) simp

lemma pad_split_Cons:
  "pad_split (tl u) s v \<Longrightarrow> c = at_or_zero u 0 \<Longrightarrow> pad_split u (c # s) v"
  by (cases u; cases s)
     (auto simp: pad_split_def at_or_zero_def singleton_replicate simp flip: replicate_Suc)

lemma copy_shared_spec:
  "copy_shared a b ai bi p = (ai', bi', p') \<Longrightarrow> bi \<le> length b \<Longrightarrow>
     \<exists>s. p' = p @ s \<and> drop bi b = s @ drop bi' b \<and> bi' = bi + length s \<and>
         pad_split (drop ai a) s (drop ai' a) \<and>
         (bi' < length b \<longrightarrow> at_or_zero a ai' \<noteq> b ! bi')"
proof (induction a b ai bi p rule: copy_shared.induct)
  case (1 a b ai bi p)
  show ?case
  proof (cases "bi < length b \<and> at_or_zero a ai = b ! bi")
    case True
    with "1.prems" have "copy_shared a b (ai + 1) (bi + 1) (p @ [b ! bi]) = (ai', bi', p')"
      by (simp add: copy_shared.simps [of a b ai bi p])
    from "1.IH" [OF True this] True obtain s where
      s: "p' = p @ [b ! bi] @ s" "drop (bi + 1) b = s @ drop bi' b" "bi' = bi + 1 + length s"
        "pad_split (drop (ai + 1) a) s (drop ai' a)" "bi' < length b \<longrightarrow> at_or_zero a ai' \<noteq> b ! bi'"
      by auto
    have "b ! bi = at_or_zero (drop ai a) 0" using True by (auto simp: at_or_zero_def)
    with s(4) have "pad_split (drop ai a) (b ! bi # s) (drop ai' a)"
      by (intro pad_split_Cons) (simp_all add: tl_drop drop_Suc)
    moreover have "drop bi b = b ! bi # s @ drop bi' b"
      using True s(2) by (simp flip: Cons_nth_drop_Suc)
    ultimately show ?thesis using s by (intro exI [of _ "b ! bi # s"]) auto
  next
    case False
    with "1.prems" show ?thesis
      by (intro exI [of _ "[]"]) (auto simp: copy_shared.simps [of a b ai bi p] pad_split_def split: if_splits)
  qed
qed

lemma pad_split_less: "pad_split u s v \<Longrightarrow> v < m \<Longrightarrow> u < s @ m"
  by (auto simp: pad_split_def) (metis append.assoc append_is_Nil_conv less_list_code(1) string_less_append)

lemma pad_split_not_whole: "pad_split u s v \<Longrightarrow> u < s \<Longrightarrow> last s \<noteq> ZERO \<Longrightarrow> False"
proof -
  assume ps: "pad_split u s v" and less: "u < s" and nz: "last s \<noteq> ZERO"
  have "\<not> s @ v < s @ []" by (subst string_append_less) simp
  moreover have "n = 0" if "s = u @ replicate n ZERO" for n
    using that nz by (cases n) (auto simp: replicate_append_same [symmetric] simp del: replicate_append_same)
  ultimately show False using ps less by (auto simp: pad_split_def)
qed

lemma pad_split_length: "pad_split u s v \<Longrightarrow> v \<noteq> [] \<Longrightarrow> length u = length s + length v"
  by (auto simp: pad_split_def)

lemma drop_less_Cons: "at_or_zero a i < c \<Longrightarrow> drop i a < c # (m :: string)"
  by (cases "i < length a") (auto simp: at_or_zero_def simp flip: Cons_nth_drop_Suc)

lemma at_or_zero_less:
  "drop i a < c # m \<Longrightarrow> at_or_zero a i \<noteq> c \<Longrightarrow> c \<in> set RANK_DIGITS \<Longrightarrow> at_or_zero a i < c"
  by (cases "i < length a") (auto simp: at_or_zero_def ZERO_less simp flip: Cons_nth_drop_Suc)

lemma pad_split_rest: "pad_split u s v \<Longrightarrow> u < s @ w \<Longrightarrow> w \<noteq> [] \<Longrightarrow> v < w"
  by (cases w) (auto simp: pad_split_def)

lemma set_drop_digits: "set a \<subseteq> set RANK_DIGITS \<Longrightarrow> i < length a \<Longrightarrow> a ! i \<in> set RANK_DIGITS"
  by (meson nth_mem subsetD)

text \<open>With no upper bound the loop produces a digit string above the rest of the lower bound.\<close>

lemma midpoint_loop_None:
  assumes "set a \<subseteq> set RANK_DIGITS"
  shows "\<exists>n. midpoint_loop a None ai bi p = p @ n \<and> drop ai a < n \<and> isValidRank n \<and>
             length n \<le> length (drop ai a) + 1"
  using assms
proof (induction "length a - ai" arbitrary: ai bi p rule: less_induct)
  case less
  define dA where "dA = (if ai < length a then digitOf (a ! ai) else 0)"
  have dA: "0 \<le> dA" "dA < 62"
    using less.prems by (auto simp: dA_def dest: set_drop_digits digitOf_bounds)
  show ?case
  proof (cases "62 - dA > 1")
    case True
    have "0 \<le> (dA + 62 + 1) div 2" "(dA + 62 + 1) div 2 < 62" using dA True by auto
    then obtain c where c: "rank_digit ((dA + 62 + 1) div 2) = [c]" "c \<in> set RANK_DIGITS"
      "digitOf c = (dA + 62 + 1) div 2" by (rule rank_digit_eq)
    have hd: "ai < length a \<Longrightarrow> a ! ai < c"
      using less.prems c dA True by (auto simp: dA_def simp flip: digitOf_less_iff dest: set_drop_digits)
    have "drop ai a < [c]" using hd by (cases "ai < length a") (auto simp flip: Cons_nth_drop_Suc)
    moreover have "isValidRank [c]" using c dA by (auto simp: isValidRank_iff)
    moreover have "midpoint_loop a None ai bi p = p @ [c]"
      using True c by (simp add: midpoint_loop.simps [of a None ai] dA_def Let_def)
    ultimately show ?thesis by auto
  next
    case False
    then have ai: "ai < length a" and dA61: "dA = 61" using dA by (auto simp: dA_def split: if_splits)
    then have "length a - (ai + 1) < length a - ai" by simp
    from less.hyps [OF this less.prems, where bi = 0 and p = "p @ [a ! ai]"] obtain n where
      n: "midpoint_loop a None (ai + 1) 0 (p @ [a ! ai]) = p @ a ! ai # n" "drop (ai + 1) a < n"
        "isValidRank n" "length n \<le> length (drop (ai + 1) a) + 1" by auto
    have "rank_digit dA = [a ! ai]"
      using ai less.prems by (simp add: dA_def rank_digit_digitOf set_drop_digits)
    with False n(1) ai have "midpoint_loop a None ai bi p = p @ a ! ai # n"
      by (simp add: midpoint_loop.simps [of a None ai] dA_def Let_def)
    moreover have "drop ai a < a ! ai # n" using ai n(2) by (simp flip: Cons_nth_drop_Suc)
    moreover have "isValidRank (a ! ai # n)"
      using n(3) ai less.prems by (auto simp: isValidRank_iff set_drop_digits)
    ultimately show ?thesis using n(4) ai by (intro exI [of _ "a ! ai # n"]) auto
  qed
qed


text \<open>Between two bounds in order, the upper one not ending in zero, the loop finds a key.\<close>

lemma midpoint_loop_Some:
  assumes a: "set a \<subseteq> set RANK_DIGITS" and b: "isValidRank b" and ab: "a < b"
  shows "\<exists>m. midpoint_loop a (Some b) 0 0 [] = m \<and> a < m \<and> m < b \<and> isValidRank m \<and>
             length m \<le> max (length a) (length b) + 1"
proof -
  obtain ai bi s where cs: "copy_shared a b 0 0 [] = (ai, bi, s)" by (metis prod_cases3)
  from copy_shared_spec [OF this] have
    b_eq: "s @ drop bi b = b" and bi: "bi = length s" and ps: "pad_split a s (drop ai a)"
    and stop: "bi < length b \<longrightarrow> at_or_zero a ai \<noteq> b ! bi" by auto
  have bi_lt: "bi < length b"
    using ab b b_eq pad_split_not_whole [OF ps] by (cases "bi < length b") (simp_all add: isValidRank_iff)
  have b_in: "b ! bi \<in> set RANK_DIGITS" and b_sub: "set s \<subseteq> set RANK_DIGITS"
    using b bi_lt b_eq [THEN arg_cong [of _ _ set]] by (auto simp: isValidRank_iff set_drop_digits)
  define dA where "dA = (if ai < length a then digitOf (a ! ai) else 0)"
  have dA: "0 \<le> dA" "dA < 62" and dAz: "dA = digitOf (at_or_zero a ai)"
    and az_in: "at_or_zero a ai \<in> set RANK_DIGITS"
    using a by (auto simp: dA_def at_or_zero_def ZERO_in dest: set_drop_digits digitOf_bounds)
  have drop_b: "drop bi b = b ! bi # drop (Suc bi) b" using bi_lt by (simp add: Cons_nth_drop_Suc)
  have rest: "drop ai a < b ! bi # drop (Suc bi) b"
    using pad_split_rest [OF ps, of "drop bi b"] ab b_eq drop_b by simp
  have hd_less: "at_or_zero a ai < b ! bi"
    using at_or_zero_less [OF rest _ b_in] stop bi_lt by simp
  have dB: "dA < digitOf (b ! bi)" "digitOf (b ! bi) < 62"
    using hd_less dAz az_in b_in digitOf_bounds [OF b_in] by (auto simp: digitOf_less_iff)
  have tail_less: "drop ai a < b ! bi # m" for m :: string
    using hd_less by (rule drop_less_Cons)
  have up: "s @ m < b" if "m < b ! bi # drop (Suc bi) b" for m
  proof -
    have "s @ m < s @ drop bi b" using that unfolding drop_b by simp
    also note b_eq
    finally show ?thesis .
  qed
  have len_b: "length s < length b" using bi bi_lt by simp
  have eq: "midpoint_loop a (Some b) 0 0 [] =
      (if digitOf (b ! bi) - dA > 1 then s @ rank_digit ((dA + digitOf (b ! bi) + 1) div 2)
       else if bi + 1 < length b then s @ [b ! bi]
       else midpoint_loop a None (ai + 1) 0 (s @ rank_digit dA))"
    using bi_lt by (simp add: midpoint_loop.simps [of a "Some b"] cs dA_def Let_def)
  have fin: ?thesis if "midpoint_loop a (Some b) 0 0 [] = s @ m" "drop ai a < m"
    "m < b ! bi # drop (Suc bi) b" "isValidRank (s @ m)" "length (s @ m) \<le> max (length a) (length b) + 1" for m
    using that(1,4,5) pad_split_less [OF ps that(2)] up [OF that(3)] by metis
  show ?thesis
  proof (cases "digitOf (b ! bi) - dA > 1")
    case True
    let ?d = "(dA + digitOf (b ! bi) + 1) div 2"
    have "0 \<le> ?d" "?d < 62" using dA dB True by auto
    then obtain c where c: "rank_digit ?d = [c]" "c \<in> set RANK_DIGITS" "digitOf c = ?d"
      by (rule rank_digit_eq)
    have "digitOf (at_or_zero a ai) < digitOf c" "digitOf c < digitOf (b ! bi)" "0 < digitOf c"
      unfolding c(3) dAz [symmetric] using True dA by auto
    then have between: "at_or_zero a ai < c" "c < b ! bi" "c \<noteq> ZERO"
      using digitOf_less_iff [OF az_in c(2)] digitOf_less_iff [OF c(2) b_in] by auto
    show ?thesis
    proof (rule fin [of "[c]"])
      show "midpoint_loop a (Some b) 0 0 [] = s @ [c]" using True eq c(1) by simp
      show "drop ai a < [c]" using between(1) by (rule drop_less_Cons)
      show "isValidRank (s @ [c])" using c(2) b_sub between(3) by (simp add: isValidRank_iff)
    qed (use between(2) len_b in simp_all)
  next
    case False
    then have nz: "b ! bi \<noteq> ZERO" using dB(1) dA(1) by auto
    show ?thesis
    proof (cases "bi + 1 < length b")
      case True
      show ?thesis
      proof (rule fin [of "[b ! bi]"])
        show "midpoint_loop a (Some b) 0 0 [] = s @ [b ! bi]" using False True eq by simp
        show "drop ai a < [b ! bi]" by (rule tail_less)
        show "[b ! bi] < b ! bi # drop (Suc bi) b" using True by (cases "drop (Suc bi) b") auto
        show "isValidRank (s @ [b ! bi])" using b_in b_sub nz by (simp add: isValidRank_iff)
      qed (use len_b in simp)
    next
      case last: False
      define z where "z = at_or_zero a ai"
      obtain n where n: "midpoint_loop a None (ai + 1) 0 (s @ [z]) = (s @ [z]) @ n"
        "drop (ai + 1) a < n" "isValidRank n" "length n \<le> length (drop (ai + 1) a) + 1"
        using midpoint_loop_None [OF a] by blast
      show ?thesis
      proof (rule fin [of "z # n"])
        show "midpoint_loop a (Some b) 0 0 [] = s @ z # n"
          using eq False last n(1) rank_digit_digitOf [OF az_in] by (simp add: dAz z_def)
        show "drop ai a < z # n"
          using n(2) by (cases "ai < length a") (auto simp: z_def at_or_zero_def simp flip: Cons_nth_drop_Suc)
        show "z # n < b ! bi # drop (Suc bi) b" using hd_less by (simp add: z_def)
        show "isValidRank (s @ z # n)" using n(3) b_sub az_in by (simp add: isValidRank_iff z_def)
        show "length (s @ z # n) \<le> max (length a) (length b) + 1"
        proof -
          have "ai < length a \<Longrightarrow> length a = length s + (length a - ai)"
            using pad_split_length [OF ps] by (metis drop_eq_Nil length_drop not_le)
          moreover have "length n \<le> length a - (ai + 1) + 1" using n(4) by (simp only: length_drop)
          ultimately show ?thesis using len_b
            unfolding length_append length_Cons by (cases "ai < length a") linarith+
        qed
      qed
    qed
  qed
qed

section \<open>Correctness of the public operations\<close>

lemma rankAfter_spec:
  assumes "isValidRank a"
  shows "\<exists>r. rankAfter a = Inr r \<and> a < r \<and> isValidRank r \<and> length r \<le> length a + 1"
proof -
  obtain u c where a: "a = u @ [c]" using assms by (cases a rule: rev_cases) (auto simp: isValidRank_iff)
  have c: "c \<in> set RANK_DIGITS" "set u \<subseteq> set RANK_DIGITS" using assms by (auto simp: a isValidRank_iff)
  note bd = digitOf_bounds [OF c(1)]
  show ?thesis
  proof (cases "digitOf c + 1 < 62")
    case True
    then obtain d where d: "rank_digit (digitOf c + 1) = [d]" "d \<in> set RANK_DIGITS" "digitOf d = digitOf c + 1"
      using bd rank_digit_eq [of "digitOf c + 1"] by auto
    then have "c < d" using c by (auto simp flip: digitOf_less_iff)
    moreover have "d \<noteq> ZERO" using d bd by auto
    ultimately show ?thesis using True assms d c by (auto simp: rankAfter_def a isValidRank_iff)
  next
    case False
    obtain d where d: "rank_digit 31 = [d]" "d \<in> set RANK_DIGITS" "digitOf d = 31"
      using rank_digit_eq [of 31] by auto
    then have "d \<noteq> ZERO" by auto
    with False assms d c show ?thesis
      by (auto simp: rankAfter_def a isValidRank_iff string_less_append)
  qed
qed

lemma rankBefore_spec:
  assumes "isValidRank b"
  shows "\<exists>r. rankBefore b = Inr r \<and> r < b \<and> isValidRank r \<and> length r \<le> length b + 1"
proof -
  obtain u c where b: "b = u @ [c]" using assms by (cases b rule: rev_cases) (auto simp: isValidRank_iff)
  have c: "c \<in> set RANK_DIGITS" "set u \<subseteq> set RANK_DIGITS" "c \<noteq> ZERO" using assms by (auto simp: b isValidRank_iff)
  note bd = digitOf_bounds [OF c(1)]
  show ?thesis
  proof (cases "digitOf c - 1 \<ge> 1")
    case True
    then obtain d where d: "rank_digit (digitOf c - 1) = [d]" "d \<in> set RANK_DIGITS" "digitOf d = digitOf c - 1"
      using bd rank_digit_eq [of "digitOf c - 1"] by auto
    then have "d < c" using c by (auto simp flip: digitOf_less_iff)
    moreover have "d \<noteq> ZERO" using d True by auto
    ultimately show ?thesis using True assms d c by (auto simp: rankBefore_def b isValidRank_iff)
  next
    case False
    obtain d where d: "rank_digit 31 = [d]" "d \<in> set RANK_DIGITS" "digitOf d = 31"
      using rank_digit_eq [of 31] by auto
    then have "d \<noteq> ZERO" by auto
    moreover have "ZERO < c" using c by (simp add: ZERO_less)
    ultimately show ?thesis using False assms d c
      by (auto simp: rankBefore_def b isValidRank_iff ZERO_in)
  qed
qed


lemma firstRank_eq: "midpoint [] None = Inr ''V''"
proof -
  have "rank_digit 31 = ''V''" by (simp add: rank_digit_def RANK_DIGITS_def)
  then show ?thesis by (simp add: midpoint_def midpoint_loop.simps [of "[]" None] Let_def)
qed

lemma isValidRank_V: "isValidRank ''V''"
  by (simp add: isValidRank_iff RANK_DIGITS_def ZERO_def)

text \<open>The bound \<open>\<^const>\<open>None\<close>\<close> is below, respectively above, every key.\<close>

definition below :: "string option \<Rightarrow> string \<Rightarrow> bool" where
  "below a r = (case a of None \<Rightarrow> True | Some x \<Rightarrow> x < r)"

definition above :: "string option \<Rightarrow> string \<Rightarrow> bool" where
  "above b r = (case b of None \<Rightarrow> True | Some y \<Rightarrow> r < y)"

definition in_order :: "string option \<Rightarrow> string option \<Rightarrow> bool" where
  "in_order a b = (case a of None \<Rightarrow> True | Some x \<Rightarrow> above b x)"

definition bound_ok :: "string option \<Rightarrow> bool" where
  "bound_ok b = (case b of None \<Rightarrow> True | Some y \<Rightarrow> isValidRank y)"

lemma rankBetween_spec:
  assumes "bound_ok a" "bound_ok b" "in_order a b"
  shows "\<exists>r. rankBetween a b = Inr r \<and> isValidRank r \<and> below a r \<and> above b r"
proof (cases a)
  case None
  then show ?thesis using assms rankBefore_spec firstRank_eq isValidRank_V
    by (cases b) (auto simp: rankBetween_def bound_ok_def below_def above_def)
next
  case (Some x)
  show ?thesis
  proof (cases b)
    case None
    then show ?thesis using Some assms rankAfter_spec
      by (auto simp: rankBetween_def bound_ok_def below_def above_def)
  next
    case (Some y)
    then have "x < y" "isValidRank x" "isValidRank y"
      using \<open>a = Some x\<close> assms by (auto simp: bound_ok_def in_order_def above_def)
    then show ?thesis
      using \<open>a = Some x\<close> Some midpoint_loop_Some [of x y]
      by (auto simp: rankBetween_def midpoint_def below_def above_def isValidRank_iff)
  qed
qed

section \<open>Ranks as an order-maintenance interface\<close>

text \<open>
  What the ordered-edge index relies on: a key between two neighbours exists and is again a
  valid key. From this alone, inserting at any slot of a strictly sorted list of ranks yields a
  strictly sorted list: no key of the list is rewritten.
\<close>

locale rank_scheme =
  fixes valid :: "'r::linorder \<Rightarrow> bool"
    and between :: "'r option \<Rightarrow> 'r option \<Rightarrow> 'e + 'r"
  assumes between_ok:
    "\<lbrakk>\<forall>x. a = Some x \<longrightarrow> valid x; \<forall>y. b = Some y \<longrightarrow> valid y;
      \<forall>x y. a = Some x \<longrightarrow> b = Some y \<longrightarrow> x < y\<rbrakk> \<Longrightarrow>
     \<exists>r. between a b = Inr r \<and> valid r \<and> (\<forall>x. a = Some x \<longrightarrow> x < r) \<and> (\<forall>y. b = Some y \<longrightarrow> r < y)"
begin

lemma slot_insert_sorted:
  assumes sorted: "sorted_wrt (<) xs" and valid: "\<forall>x \<in> set xs. valid x" and i: "i \<le> length xs"
  shows "\<exists>r. between (if 0 < i then Some (xs ! (i - 1)) else None)
                     (if i < length xs then Some (xs ! i) else None) = Inr r \<and>
             valid r \<and> sorted_wrt (<) (take i xs @ r # drop i xs)"
proof -
  let ?a = "if 0 < i then Some (xs ! (i - 1)) else None"
  let ?b = "if i < length xs then Some (xs ! i) else None"
  have "\<exists>r. between ?a ?b = Inr r \<and> valid r \<and> (\<forall>x. ?a = Some x \<longrightarrow> x < r) \<and> (\<forall>y. ?b = Some y \<longrightarrow> r < y)"
    using i valid sorted_wrt_nth_less [OF sorted, of "i - 1" i] by (intro between_ok) auto
  then obtain r where r: "between ?a ?b = Inr r" "valid r"
    and lo: "\<And>x. ?a = Some x \<Longrightarrow> x < r" and hi: "\<And>y. ?b = Some y \<Longrightarrow> r < y" by auto
  have "x < r" if "x \<in> set (take i xs)" for x
  proof -
    from that i obtain j where j: "j < i" "x = xs ! j" by (auto simp: in_set_conv_nth)
    have "xs ! j \<le> xs ! (i - 1)"
      using j i sorted_wrt_nth_less [OF sorted, of j "i - 1"] by (cases "j = i - 1") (auto intro: less_imp_le)
    with j lo show ?thesis by fastforce
  qed
  moreover have "r < y" if "y \<in> set (drop i xs)" for y
  proof -
    from that obtain j where "j < length (drop i xs)" "y = drop i xs ! j" by (metis in_set_conv_nth)
    then have j: "i + j < length xs" "y = xs ! (i + j)" using i by auto
    have "xs ! i \<le> xs ! (i + j)"
      using j sorted_wrt_nth_less [OF sorted, of i "i + j"] by (cases "j = 0") (auto intro: less_imp_le)
    with j hi show ?thesis by fastforce
  qed
  ultimately have "sorted_wrt (<) (take i xs @ r # drop i xs)"
    using sorted by (subst sorted_wrt_append) (auto simp: sorted_wrt_take sorted_wrt_drop intro: order.strict_trans)
  with r show ?thesis by blast
qed

end

interpretation frac: rank_scheme isValidRank rankBetween
proof
  fix a b :: "string option"
  assume "\<forall>x. a = Some x \<longrightarrow> isValidRank x" "\<forall>y. b = Some y \<longrightarrow> isValidRank y"
    "\<forall>x y. a = Some x \<longrightarrow> b = Some y \<longrightarrow> x < y"
  then have "bound_ok a" "bound_ok b" "in_order a b"
    by (auto simp: bound_ok_def in_order_def above_def split: option.splits)
  then show "\<exists>r. rankBetween a b = Inr r \<and> isValidRank r \<and> (\<forall>x. a = Some x \<longrightarrow> x < r) \<and> (\<forall>y. b = Some y \<longrightarrow> r < y)"
    using rankBetween_spec [of a b] by (auto simp: below_def above_def)
qed

section \<open>Properties\<close>

text \<open>
  C31: for valid bounds in order (a missing bound is unbounded), \<open>rankBetween\<close> returns, without
  an error, a valid key strictly between them in plain string order; so the midpoint loop
  terminates and never yields a key ending in the zero digit.
\<close>

theorem rankBetween_strictly_between:
  assumes "bound_ok a" "bound_ok b" "in_order a b"
  shows "\<exists>r. rankBetween a b = Inr r \<and> isValidRank r \<and> below a r \<and> above b r"
  using assms by (rule rankBetween_spec)

theorem rankBetween_strictly_between_witness:
  "\<exists>r. rankBetween (Some ''49'') (Some ''5'') = Inr r \<and> isValidRank r \<and>
       below (Some ''49'') r \<and> above (Some ''5'') r"
  by (rule rankBetween_strictly_between [of "Some ''49''" "Some ''5''"])
     (simp_all add: bound_ok_def in_order_def above_def isValidRank_def digitOf_def RANK_DIGITS_def ZERO_def
       less_char_def)

text \<open>
  Inserting at any slot of a strictly sorted list of valid ranks with the key that
  \<open>rankBetween\<close> gives for the slot's two neighbours keeps the list strictly sorted; no other
  key changes. Instance of the order-maintenance interface.
\<close>

theorem rankBetween_slot_insert:
  assumes "sorted_wrt (<) xs" "\<forall>x \<in> set xs. isValidRank x" "i \<le> length xs"
  shows "\<exists>r. rankBetween (if 0 < i then Some (xs ! (i - 1)) else None)
                         (if i < length xs then Some (xs ! i) else None) = Inr r \<and>
             isValidRank r \<and> sorted_wrt (<) (take i xs @ r # drop i xs)"
  using assms by (rule frac.slot_insert_sorted)

theorem rankBetween_slot_insert_witness:
  "\<exists>r. rankBetween (Some ''V'') (Some ''W'') = Inr r \<and> isValidRank r \<and>
       sorted_wrt (<) [''V'', r, ''W'']"
  using rankBetween_slot_insert [of "[''V'', ''W'']" 1]
  by (simp add: isValidRank_def digitOf_def RANK_DIGITS_def ZERO_def less_char_def)

text \<open>
  A key between two bounds is at most one digit longer than the longer bound, whatever the
  bounds are: the midpoint descent adds at most one digit.
\<close>

theorem rankBetween_length:
  assumes "isValidRank a" "isValidRank b" "a < b" "rankBetween (Some a) (Some b) = Inr r"
  shows "length r \<le> max (length a) (length b) + 1"
  using assms midpoint_loop_Some [of a b]
  by (auto simp: rankBetween_def midpoint_def isValidRank_iff)

theorem rankBetween_length_witness:
  "\<exists>r. rankBetween (Some ''V'') (Some ''W'') = Inr r \<and> length r \<le> 2"
proof -
  have v: "isValidRank ''V''" "isValidRank ''W''" "''V'' < ''W''"
    by (simp_all add: isValidRank_def digitOf_def RANK_DIGITS_def ZERO_def less_char_def)
  then have "\<exists>r. rankBetween (Some ''V'') (Some ''W'') = Inr r"
    by (simp add: rankBetween_def midpoint_def)
  then show ?thesis using rankBetween_length [OF v] by auto
qed


end
