(* ===== verification/Source_Hash.thy ===== *)
theory Source_Hash
  imports Woo_Prelude "HOL-Library.Word"
begin

text \<open>
  Content hashing (\<open>src/core/source-hash.ts\<close>): FIPS 180-4 SHA-256 over the UTF-8 bytes of a
  string, rendered in lower-case hex, and the constant-time comparison of the same module.
  JavaScript's \<open>>>> 0\<close> after an addition is addition of 32-bit words; \<open>>>> n\<close> is
  \<^const>\<open>drop_bit\<close> and \<open><< n\<close> is \<^const>\<open>push_bit\<close> on them.
\<close>

unbundle bit_operations_syntax

type_synonym u8 = "8 word"
type_synonym u32 = "32 word"

section \<open>The hash\<close>

text \<open>The round constants, one inner list per row of the source table.\<close>

definition K :: "u32 list" where
  "K = concat [
  [0x428a2f98, 0x71374491, 0xb5c0fbcf, 0xe9b5dba5, 0x3956c25b, 0x59f111f1, 0x923f82a4, 0xab1c5ed5],
  [0xd807aa98, 0x12835b01, 0x243185be, 0x550c7dc3, 0x72be5d74, 0x80deb1fe, 0x9bdc06a7, 0xc19bf174],
  [0xe49b69c1, 0xefbe4786, 0x0fc19dc6, 0x240ca1cc, 0x2de92c6f, 0x4a7484aa, 0x5cb0a9dc, 0x76f988da],
  [0x983e5152, 0xa831c66d, 0xb00327c8, 0xbf597fc7, 0xc6e00bf3, 0xd5a79147, 0x06ca6351, 0x14292967],
  [0x27b70a85, 0x2e1b2138, 0x4d2c6dfc, 0x53380d13, 0x650a7354, 0x766a0abb, 0x81c2c92e, 0x92722c85],
  [0xa2bfe8a1, 0xa81a664b, 0xc24b8b70, 0xc76c51a3, 0xd192e819, 0xd6990624, 0xf40e3585, 0x106aa070],
  [0x19a4c116, 0x1e376c08, 0x2748774c, 0x34b0bcb5, 0x391c0cb3, 0x4ed8aa4a, 0x5b9cca4f, 0x682e6ff3],
  [0x748f82ee, 0x78a5636f, 0x84c87814, 0x8cc70208, 0x90befffa, 0xa4506ceb, 0xbef9a3f7, 0xc67178f2]]"

definition H0 :: "u32 list" where
  "H0 = [0x6a09e667, 0xbb67ae85, 0x3c6ef372, 0xa54ff53a, 0x510e527f, 0x9b05688c, 0x1f83d9ab, 0x5be0cd19]"

definition rotr :: "u32 \<Rightarrow> nat \<Rightarrow> u32" where
  "rotr v bits = drop_bit bits v OR push_bit (32 - bits) v"

text \<open>Big-endian 32-bit store and load (\<open>DataView.setUint32\<close>, \<open>DataView.getUint32\<close>).\<close>

definition be32_bytes :: "u32 \<Rightarrow> u8 list" where
  "be32_bytes v = [ucast (drop_bit 24 v), ucast (drop_bit 16 v), ucast (drop_bit 8 v), ucast v]"

definition be32_word :: "u8 list \<Rightarrow> nat \<Rightarrow> u32" where
  "be32_word bs i = push_bit 24 (ucast (bs ! i)) OR push_bit 16 (ucast (bs ! (i + 1)))
     OR push_bit 8 (ucast (bs ! (i + 2))) OR ucast (bs ! (i + 3))"

definition pad_message :: "u8 list \<Rightarrow> u8 list" where
  "pad_message bytes =
     (let n = length bytes;
          bitLength = n * 8;
          padLength = (if n mod 64 < 56 then 56 - n mod 64 else 120 - n mod 64)
      in bytes @ 0x80 # replicate (padLength - 1) 0
           @ be32_bytes (of_nat (bitLength div 2 ^ 32)) @ be32_bytes (of_nat bitLength))"

text \<open>The message schedule: sixteen words of the chunk, extended to sixty-four.\<close>

definition schedule_word :: "u32 list \<Rightarrow> nat \<Rightarrow> u32" where
  "schedule_word w i =
     (let s0 = rotr (w ! (i - 15)) 7 XOR rotr (w ! (i - 15)) 18 XOR drop_bit 3 (w ! (i - 15));
          s1 = rotr (w ! (i - 2)) 17 XOR rotr (w ! (i - 2)) 19 XOR drop_bit 10 (w ! (i - 2))
      in w ! (i - 16) + s0 + w ! (i - 7) + s1)"

definition message_schedule :: "u8 list \<Rightarrow> nat \<Rightarrow> u32 list" where
  "message_schedule buffer chunkOffset =
     fold (\<lambda>i w. w @ [schedule_word w i]) [16..<64]
       (map (\<lambda>i. be32_word buffer (chunkOffset + i * 4)) [0..<16])"

fun sha_round :: "u32 list \<Rightarrow> nat \<Rightarrow> u32 list \<Rightarrow> u32 list" where
  "sha_round w i [a, b, c, d, e, f, g, h] =
     (let s1 = rotr e 6 XOR rotr e 11 XOR rotr e 25;
          ch = (e AND f) XOR (NOT e AND g);
          temp1 = h + s1 + ch + K ! i + w ! i;
          s0 = rotr a 2 XOR rotr a 13 XOR rotr a 22;
          maj = (a AND b) XOR (a AND c) XOR (b AND c);
          temp2 = s0 + maj
      in [temp1 + temp2, a, b, c, d + temp1, e, f, g])"
| "sha_round w i st = st"

definition sha_chunk :: "u8 list \<Rightarrow> nat \<Rightarrow> u32 list \<Rightarrow> u32 list" where
  "sha_chunk buffer chunkOffset state =
     (let w = message_schedule buffer chunkOffset
      in map2 (+) state (fold (sha_round w) [0..<64] state))"

definition sha256Bytes :: "u8 list \<Rightarrow> u8 list" where
  "sha256Bytes bytes =
     (let buffer = pad_message bytes
      in concat (map be32_bytes
           (fold (\<lambda>chunk. sha_chunk buffer (chunk * 64)) [0..<length buffer div 64] H0)))"

definition HEX :: string where
  "HEX = ''0123456789abcdef''"

definition bytesToHex :: "u8 list \<Rightarrow> string" where
  "bytesToHex bytes = concat (map (\<lambda>b. [HEX ! unat (drop_bit 4 b), HEX ! unat (b AND 0x0f)]) bytes)"

text \<open>
  UTF-8 over UTF-16 code units, lone surrogates replaced by U+FFFD (the explicit fallback of the
  module; \<open>TextEncoder\<close> computes the same).
\<close>

definition utf8_point :: "nat \<Rightarrow> u8 list" where
  "utf8_point code =
     (if code < 0x80 then [of_nat code]
      else if code < 0x800 then [of_nat (0xc0 OR code div 64), of_nat (0x80 OR code mod 64)]
      else if code < 0x10000 then
        [of_nat (0xe0 OR code div 4096), of_nat (0x80 OR (code div 64) mod 64), of_nat (0x80 OR code mod 64)]
      else [of_nat (0xf0 OR code div 262144), of_nat (0x80 OR (code div 4096) mod 64),
            of_nat (0x80 OR (code div 64) mod 64), of_nat (0x80 OR code mod 64)])"

fun utf8_units :: "nat list \<Rightarrow> u8 list" where
  "utf8_units [] = []"
| "utf8_units [code] =
     utf8_point (if 0xd800 \<le> code \<and> code \<le> 0xdfff then 0xfffd else code)"
| "utf8_units (code # low # rest) =
     (if 0xd800 \<le> code \<and> code \<le> 0xdbff then
        (if 0xdc00 \<le> low \<and> low \<le> 0xdfff
         then utf8_point (0x10000 + ((code - 0xd800) * 1024 OR (low - 0xdc00))) @ utf8_units rest
         else utf8_point 0xfffd @ utf8_units (low # rest))
      else utf8_point (if 0xd800 \<le> code \<and> code \<le> 0xdfff then 0xfffd else code)
             @ utf8_units (low # rest))"

definition utf8Encode :: "string \<Rightarrow> u8 list" where
  "utf8Encode s = utf8_units (map of_char s)"

definition hashSource :: "string \<Rightarrow> string" where
  "hashSource source = bytesToHex (sha256Bytes (utf8Encode source))"

definition utf8ByteLength :: "string \<Rightarrow> nat" where
  "utf8ByteLength source = length (utf8Encode source)"

text \<open>\<open>diff |= a.charCodeAt(i) ^ b.charCodeAt(i)\<close> over two strings of one length.\<close>

definition constantTimeEqual :: "string \<Rightarrow> string \<Rightarrow> bool" where
  "constantTimeEqual a b =
     (if length a \<noteq> length b then False
      else fold (\<lambda>(x, y) diff. diff OR (of_char x XOR of_char y)) (zip a b) (0 :: u32) = 0)"

section \<open>Shape of the digest\<close>

lemma length_sha_round [simp]: "length (sha_round w i st) = length st"
  by (induction w i st rule: sha_round.induct) (simp_all add: Let_def)

lemma length_fold_preserved:
  "(\<And>x s. length (f x s) = length s) \<Longrightarrow> length (fold f xs s) = length s"
  by (induction xs arbitrary: s) auto

lemma length_sha_chunk [simp]: "length (sha_chunk buffer off st) = length st"
  by (simp add: sha_chunk_def Let_def length_fold_preserved)

lemma length_be32_bytes [simp]: "length (be32_bytes v) = 4"
  by (simp add: be32_bytes_def)

lemma length_sha256Bytes [simp]: "length (sha256Bytes bytes) = 32"
  by (simp add: sha256Bytes_def Let_def length_concat length_fold_preserved H0_def comp_def
        sum_list_triv)

lemma length_bytesToHex [simp]: "length (bytesToHex bytes) = 2 * length bytes"
  by (induction bytes) (simp_all add: bytesToHex_def)

lemma unat_nibble: "unat (drop_bit 4 b) < 16" "unat (b AND 0x0f) < 16" for b :: u8
proof -
  have "unat b < 2 ^ LENGTH(8)" by (rule unsigned_less)
  then show "unat (drop_bit 4 b) < 16" unfolding unat_drop_bit_eq by (simp add: drop_bit_eq_div)
  have "b AND 0x0f \<le> 0x0f" by (rule word_and_le1)
  then show "unat (b AND 0x0f) < 16" by (simp add: word_le_nat_alt)
qed

lemma set_bytesToHex: "set (bytesToHex bytes) \<subseteq> set HEX"
proof -
  have "HEX ! unat (drop_bit 4 b) \<in> set HEX" "HEX ! unat (b AND 0x0f) \<in> set HEX" for b :: u8
    using unat_nibble [of b] by (intro nth_mem, simp add: HEX_def)+
  then show ?thesis by (auto simp: bytesToHex_def)
qed

lemma length_hashSource [simp]: "length (hashSource s) = 64"
  by (simp add: hashSource_def)

lemma hashSource_not_Nil [simp]: "hashSource s \<noteq> []"
  by (metis length_hashSource list.size(3) zero_neq_numeral)

section \<open>Properties\<close>

text \<open>
  A content hash is always sixty-four lower-case hex digits.
\<close>

theorem hashSource_shape: "length (hashSource s) = 64 \<and> set (hashSource s) \<subseteq> set ''0123456789abcdef''"
  using set_bytesToHex by (simp add: hashSource_def HEX_def del: set_simps)

text \<open>
  The padded message is the input followed by between nine and seventy-two bytes, its length
  a multiple of the 64-byte chunk: the chunk loop reads whole chunks only.
\<close>

theorem pad_message_chunks:
  "64 dvd length (pad_message bytes) \<and> take (length bytes) (pad_message bytes) = bytes \<and>
   length bytes + 9 \<le> length (pad_message bytes) \<and> length (pad_message bytes) \<le> length bytes + 72"
proof -
  have len: "length (pad_message bytes) = length bytes +
      (if length bytes mod 64 < 56 then 56 - length bytes mod 64 else 120 - length bytes mod 64) + 8"
    by (auto simp: pad_message_def Let_def)
  have "64 dvd length (pad_message bytes)"
  proof -
    have "length bytes = 64 * (length bytes div 64) + length bytes mod 64" "length bytes mod 64 < 64"
      by simp_all
    then have "length (pad_message bytes) = 64 * (length bytes div 64 + (if length bytes mod 64 < 56 then 1 else 2))"
      unfolding len by presburger
    then show ?thesis by (metis dvd_triv_left)
  qed
  moreover have "length bytes mod 64 < 64" by simp
  ultimately show ?thesis unfolding len by (auto simp: pad_message_def Let_def)
qed

lemma of_char_u32_eq: "(of_char x :: u32) = of_char y \<longleftrightarrow> x = y"
proof -
  have "unat (of_char c :: u32) = of_char c" for c
  proof -
    have "unat (of_nat (of_char c) :: u32) = of_char c"
      unfolding unat_of_nat by (rule mod_less) (rule order.strict_trans [OF nat_of_char_less_256], simp)
    then show ?thesis by (simp add: of_nat_of_char)
  qed
  then show ?thesis by (metis of_char_eq_iff)
qed

lemma fold_or_zero:
  "fold (\<lambda>(x, y) diff. diff OR (of_char x XOR of_char y)) zs (d :: u32) = 0 \<longleftrightarrow>
     d = 0 \<and> (\<forall>(x, y) \<in> set zs. x = y)"
proof (induction zs arbitrary: d)
  case (Cons z zs)
  have "p OR q = 0 \<longleftrightarrow> p = 0 \<and> q = 0" for p q :: u32 by (auto simp: or_eq_0_iff)
  moreover have "(of_char x :: u32) XOR of_char y = 0 \<longleftrightarrow> x = y" for x y
    by (metis of_char_u32_eq xor_self_eq bit.xor_left_self xor.right_neutral)
  ultimately show ?case by (cases z) (simp add: Cons.IH)
qed simp

text \<open>
  The constant-time comparison decides string equality.
\<close>

theorem constantTimeEqual_iff: "constantTimeEqual a b \<longleftrightarrow> a = b"
proof -
  have "(\<forall>(x, y) \<in> set (zip a b). x = y) \<longleftrightarrow> a = b" if "length a = length b"
    using that by (induction a b rule: list_induct2) auto
  then show ?thesis by (auto simp: constantTimeEqual_def fold_or_zero)
qed

end
