(* ===== verification/Net_Errors.thy ===== *)
theory Net_Errors
  imports Woo_Prelude
begin

text \<open>
  The divergence taxonomy (\<open>src/net/errors.ts\<close>): the closed set of codes the coherence layer
  can raise and which of them are turn mechanics that a gateway repairs and retries. A raised
  \<open>NetError\<close> is the left value of a sum; its message is kept, its structured detail is not.
\<close>

datatype net_error_code =
    E_STALE_HEAD | E_STALE_EPOCH | E_MISSING_STATE | E_READ_VERSION | E_SCOPE_SPLIT
  | E_CATALOG_MUTATION | E_LINEAGE | E_BUDGET | E_NONCONVERGENT_READ | E_RPC_TIMEOUT
  | E_SEED_LAG | E_EPOCH_MISMATCH | E_SEED_COMMITTED | E_RETRY_CAPACITY | E_RETRY_CLASS | E_INVARG

record attempt_trace_entry =
  ate_attempt :: nat
  ate_code :: net_error_code
  ate_missing :: "string list option"
  ate_elapsed_ms :: int

record net_error =
  err_code :: net_error_code
  err_message :: string
  err_attempts :: "attempt_trace_entry list option"

definition netError :: "net_error_code \<Rightarrow> string \<Rightarrow> net_error" where
  "netError code message = \<lparr>err_code = code, err_message = message, err_attempts = None\<rparr>"

definition budgetExhausted :: "string \<Rightarrow> attempt_trace_entry list \<Rightarrow> net_error" where
  "budgetExhausted message attempts =
     \<lparr>err_code = E_BUDGET, err_message = message, err_attempts = Some attempts\<rparr>"

definition nonconvergentRead :: "string \<Rightarrow> attempt_trace_entry list \<Rightarrow> net_error" where
  "nonconvergentRead message attempts =
     \<lparr>err_code = E_NONCONVERGENT_READ, err_message = message, err_attempts = Some attempts\<rparr>"

definition RETRYABLE :: "net_error_code list" where
  "RETRYABLE = [E_STALE_HEAD, E_STALE_EPOCH, E_MISSING_STATE, E_READ_VERSION]"

definition isRetryable :: "net_error \<Rightarrow> bool" where
  "isRetryable e \<longleftrightarrow> err_code e \<in> set RETRYABLE"

end
