(* ===== verification/Cells.thy ===== *)
theory Cells
  imports Net_Errors Source_Hash
begin

text \<open>
  The cell store (\<open>src/net/cells.ts\<close>): content-addressed cells with provenance, and a store
  that keeps five derived indexes beside its cell map. A \<open>Map\<close> of the class is an
  insertion-ordered association list; the private index operations are definitions of their own.
\<close>

section \<open>Canonical JSON and content addresses\<close>

text \<open>
  Own-property enumeration order of a JavaScript object: array-index keys ascending first, then
  the other keys in insertion order.
\<close>

fun digits_value :: "string \<Rightarrow> nat \<Rightarrow> nat" where
  "digits_value [] acc = acc"
| "digits_value (c # cs) acc = digits_value cs (10 * acc + (of_char c - 48))"

definition is_array_index :: "string \<Rightarrow> bool" where
  "is_array_index k \<longleftrightarrow> k \<noteq> [] \<and> list_all (\<lambda>c. CHR ''0'' \<le> c \<and> c \<le> CHR ''9'') k \<and>
     (hd k = CHR ''0'' \<longrightarrow> length k = 1) \<and> digits_value k 0 < 2 ^ 32 - 1"

definition own_key_order :: "(string \<times> 'v) list \<Rightarrow> (string \<times> 'v) list" where
  "own_key_order kvs =
     sort_key (\<lambda>(k, v). digits_value k 0) (filter (\<lambda>(k, v). is_array_index k) kvs)
       @ filter (\<lambda>(k, v). \<not> is_array_index k) kvs"

fun sortKeys :: "json \<Rightarrow> json" where
  "sortKeys (JArr xs) = JArr (map sortKeys xs)"
| "sortKeys (JObj kvs) =
     JObj (own_key_order (map (\<lambda>(k, v). (k, sortKeys v)) (sort_key fst kvs)))"
| "sortKeys v = v"

text \<open>\<open>JSON.stringify\<close> on the values of the model.\<close>

definition json_char :: "char \<Rightarrow> string" where
  "json_char c =
     (let n = (of_char c :: nat) in
      if n = 34 then [CHR 0x5C, CHR 0x22]
      else if n = 92 then [CHR 0x5C, CHR 0x5C]
      else if n = 8 then [CHR 0x5C, CHR ''b'']
      else if n = 9 then [CHR 0x5C, CHR ''t'']
      else if n = 10 then [CHR 0x5C, CHR ''n'']
      else if n = 12 then [CHR 0x5C, CHR ''f'']
      else if n = 13 then [CHR 0x5C, CHR ''r'']
      else if n < 32 then [CHR 0x5C, CHR ''u'', CHR ''0'', CHR ''0'', HEX ! (n div 16), HEX ! (n mod 16)]
      else [c])"

definition json_string :: "string \<Rightarrow> string" where
  "json_string s = CHR 0x22 # concat (map json_char s) @ [CHR 0x22]"

fun join_with :: "string \<Rightarrow> string list \<Rightarrow> string" where
  "join_with sep [] = []"
| "join_with sep [x] = x"
| "join_with sep (x # y # ys) = x @ sep @ join_with sep (y # ys)"

fun json_stringify :: "json \<Rightarrow> string" where
  "json_stringify JNull = ''null''"
| "json_stringify (JBool b) = (if b then ''true'' else ''false'')"
| "json_stringify (JNum n) = show_int n"
| "json_stringify (JStr s) = json_string s"
| "json_stringify (JArr xs) = ''['' @ join_with '','' (map json_stringify xs) @ '']''"
| "json_stringify (JObj kvs) =
     ''{'' @ join_with '','' (map (\<lambda>(k, v). json_string k @ '':'' @ json_stringify v) kvs) @ ''}''"

definition canonicalJson :: "json \<Rightarrow> string" where
  "canonicalJson v = json_stringify (sortKeys v)"

definition cellVersion :: "json \<Rightarrow> string" where
  "cellVersion v = hashSource (canonicalJson v)"

section \<open>Cells\<close>

datatype provenance = Authoritative | Derived | Seed | Echo

record epoch_stamp =
  scope_head :: string
  catalog_epoch :: string

datatype cell_kind =
    Object_lineage | Object_live | Object_tombstone | Property_cell | Verb_bytecode | Session | Log

fun kind_name :: "cell_kind \<Rightarrow> string" where
  "kind_name Object_lineage = ''object_lineage''"
| "kind_name Object_live = ''object_live''"
| "kind_name Object_tombstone = ''object_tombstone''"
| "kind_name Property_cell = ''property_cell''"
| "kind_name Verb_bytecode = ''verb_bytecode''"
| "kind_name Session = ''session''"
| "kind_name Log = ''log''"

definition cellKey :: "cell_kind \<Rightarrow> string \<Rightarrow> string option \<Rightarrow> string" where
  "cellKey k obj nm = (case nm of
     None \<Rightarrow> kind_name k @ '':'' @ obj
   | Some n \<Rightarrow> kind_name k @ '':'' @ obj @ '':'' @ n)"

record cell =
  c_key :: string
  c_kind :: cell_kind
  c_object :: string
  c_name :: "string option"
  c_value :: json
  c_version :: string
  c_provenance :: provenance
  c_stamp :: epoch_stamp

definition makeCell ::
  "cell_kind \<Rightarrow> string \<Rightarrow> string option \<Rightarrow> json \<Rightarrow> provenance \<Rightarrow> epoch_stamp \<Rightarrow> cell" where
  "makeCell k obj nm v prov stamp =
     \<lparr>c_key = cellKey k obj nm, c_kind = k, c_object = obj, c_name = nm, c_value = v,
      c_version = cellVersion v, c_provenance = prov, c_stamp = stamp\<rparr>"

definition ORDERED_EDGE_PROP :: string where
  "ORDERED_EDGE_PROP = ''__ordered_edge''"

record ordered_row =
  or_child :: string
  or_rank :: string

text \<open>The extraction rules of the derived indexes.\<close>

definition liveLocationOf :: "cell \<Rightarrow> string option" where
  "liveLocationOf c =
     (if c_kind c \<noteq> Object_live then None else jstr_nonempty (jprop (Some (c_value c)) ''location''))"

definition lineageParentOf :: "cell \<Rightarrow> string option" where
  "lineageParentOf c =
     (if c_kind c \<noteq> Object_lineage then None else jstr_nonempty (jprop (Some (c_value c)) ''parent''))"

definition sessionActorOf :: "cell \<Rightarrow> string option" where
  "sessionActorOf c =
     (if c_kind c \<noteq> Session then None else jstr_nonempty (jprop (Some (c_value c)) ''actor''))"

text \<open>
  \<open>{parent, rank}\<close> of an ordered-edge payload: \<open>None\<close> when it is not a valid edge, the parent
  \<open>None\<close> for \<open>null\<close>. An edge whose \<open>parent\<close> is absent is not valid.
\<close>

definition edge_of_value :: "json option \<Rightarrow> (string option \<times> string) option" where
  "edge_of_value inner =
     (case jstr_nonempty (jprop inner ''rank'') of
        None \<Rightarrow> None
      | Some rank \<Rightarrow>
          (case jprop inner ''parent'' of
             Some JNull \<Rightarrow> Some (None, rank)
           | Some (JStr p) \<Rightarrow> Some (Some p, rank)
           | _ \<Rightarrow> None))"

definition orderedEdgeOf :: "cell \<Rightarrow> (string option \<times> string) option" where
  "orderedEdgeOf c =
     (if c_kind c \<noteq> Property_cell \<or> c_name c \<noteq> Some ORDERED_EDGE_PROP then None
      else edge_of_value (jprop (Some (c_value c)) ''value''))"

definition root_key :: string where
  "root_key = CHR 0x00 # ''root''"

definition edgeParentKey :: "string option \<Rightarrow> string" where
  "edgeParentKey parent = (case parent of None \<Rightarrow> root_key | Some p \<Rightarrow> p)"

text \<open>\<open>row < (rank, child)\<close> in the order of the sibling arrays, and the lower-bound search.\<close>

definition row_before :: "ordered_row \<Rightarrow> string \<Rightarrow> string \<Rightarrow> bool" where
  "row_before row rank child \<longleftrightarrow> or_rank row < rank \<or> (or_rank row = rank \<and> or_child row < child)"

function slot_search :: "ordered_row list \<Rightarrow> string \<Rightarrow> string \<Rightarrow> nat \<Rightarrow> nat \<Rightarrow> nat" where
  "slot_search rows rank child lo hi =
     (if lo < hi then
        let mid = (lo + hi) div 2 in
        if row_before (rows ! mid) rank child then slot_search rows rank child (mid + 1) hi
        else slot_search rows rank child lo mid
      else lo)"
  by pat_completeness auto
termination
  by (relation "measure (\<lambda>(rows, rank, child, lo, hi). hi - lo)") auto

declare slot_search.simps [simp del]

definition edgeSlot :: "ordered_row list \<Rightarrow> string \<Rightarrow> string \<Rightarrow> nat" where
  "edgeSlot rows rank child = slot_search rows rank child 0 (length rows)"

text \<open>\<open>splice(at, 0, x)\<close> and \<open>splice(at, 1)\<close>.\<close>

definition splice_in :: "nat \<Rightarrow> 'a \<Rightarrow> 'a list \<Rightarrow> 'a list" where
  "splice_in at x xs = take at xs @ x # drop at xs"

definition splice_out :: "nat \<Rightarrow> 'a list \<Rightarrow> 'a list" where
  "splice_out at xs = take at xs @ drop (at + 1) xs"

definition row_insert :: "ordered_row \<Rightarrow> ordered_row list \<Rightarrow> ordered_row list" where
  "row_insert r rows = splice_in (edgeSlot rows (or_rank r) (or_child r)) r rows"

definition row_remove :: "ordered_row \<Rightarrow> ordered_row list \<Rightarrow> ordered_row list" where
  "row_remove r rows =
     (let at = edgeSlot rows (or_rank r) (or_child r) in
      if at < length rows \<and> rows ! at = r then splice_out at rows else rows)"

section \<open>The store\<close>

datatype store_role = Authority | Derived_copy

type_synonym index = "(string, string list) jsmap"

record cell_store =
  st_role :: store_role
  st_cells :: "(string, cell) jsmap"
  keysByObject :: index
  sessionKeysByActor :: index
  membersByLocation :: index
  lineageChildrenByParent :: index
  edgeChildrenByParent :: "(string, ordered_row list) jsmap"

definition newStore :: "store_role \<Rightarrow> cell_store" where
  "newStore r = \<lparr>st_role = r, st_cells = [], keysByObject = [], sessionKeysByActor = [],
     membersByLocation = [], lineageChildrenByParent = [], edgeChildrenByParent = []\<rparr>"

definition bucket :: "('k, 'v list) jsmap \<Rightarrow> 'k \<Rightarrow> 'v list" where
  "bucket m k = (case jm_get m k of None \<Rightarrow> [] | Some xs \<Rightarrow> xs)"

text \<open>Adding to and removing from one index bucket; an emptied bucket is deleted.\<close>

definition idx_add :: "string option \<Rightarrow> string \<Rightarrow> index \<Rightarrow> index" where
  "idx_add k x m = (case k of None \<Rightarrow> m | Some k' \<Rightarrow> jm_set k' (js_add x (bucket m k')) m)"

definition idx_remove :: "string option \<Rightarrow> string \<Rightarrow> index \<Rightarrow> index" where
  "idx_remove k x m = (case k of None \<Rightarrow> m | Some k' \<Rightarrow>
     (case jm_get m k' of None \<Rightarrow> m
      | Some xs \<Rightarrow> (let ys = js_remove x xs in if ys = [] then jm_del k' m else jm_set k' ys m)))"

definition edge_row_of :: "cell \<Rightarrow> ordered_row option" where
  "edge_row_of c = map_option (\<lambda>e. \<lparr>or_child = c_object c, or_rank = snd e\<rparr>) (orderedEdgeOf c)"

definition edge_add :: "cell \<Rightarrow> (string, ordered_row list) jsmap \<Rightarrow> (string, ordered_row list) jsmap" where
  "edge_add c m = (case orderedEdgeOf c of None \<Rightarrow> m | Some (parent, rank) \<Rightarrow>
     (let k = edgeParentKey parent
      in jm_set k (row_insert \<lparr>or_child = c_object c, or_rank = rank\<rparr> (bucket m k)) m))"

definition edge_remove :: "cell \<Rightarrow> (string, ordered_row list) jsmap \<Rightarrow> (string, ordered_row list) jsmap" where
  "edge_remove c m = (case orderedEdgeOf c of None \<Rightarrow> m | Some (parent, rank) \<Rightarrow>
     (let k = edgeParentKey parent in
      case jm_get m k of None \<Rightarrow> m
      | Some rows \<Rightarrow>
          (let rows' = row_remove \<lparr>or_child = c_object c, or_rank = rank\<rparr> rows
           in if rows' = [] then jm_del k m else jm_set k rows' m)))"

definition indexCell :: "cell \<Rightarrow> cell_store \<Rightarrow> cell_store" where
  "indexCell c s = s\<lparr>
     keysByObject := idx_add (Some (c_object c)) (c_key c) (keysByObject s),
     sessionKeysByActor := idx_add (sessionActorOf c) (c_key c) (sessionKeysByActor s),
     membersByLocation := idx_add (liveLocationOf c) (c_object c) (membersByLocation s),
     lineageChildrenByParent := idx_add (lineageParentOf c) (c_object c) (lineageChildrenByParent s),
     edgeChildrenByParent := edge_add c (edgeChildrenByParent s)\<rparr>"

definition unindexCell :: "cell \<Rightarrow> cell_store \<Rightarrow> cell_store" where
  "unindexCell c s = s\<lparr>
     keysByObject := idx_remove (Some (c_object c)) (c_key c) (keysByObject s),
     sessionKeysByActor := idx_remove (sessionActorOf c) (c_key c) (sessionKeysByActor s),
     membersByLocation := idx_remove (liveLocationOf c) (c_object c) (membersByLocation s),
     lineageChildrenByParent := idx_remove (lineageParentOf c) (c_object c) (lineageChildrenByParent s),
     edgeChildrenByParent := edge_remove c (edgeChildrenByParent s)\<rparr>"

definition setCell :: "cell \<Rightarrow> cell_store \<Rightarrow> cell_store" where
  "setCell c s =
     (let s1 = (case jm_get (st_cells s) (c_key c) of None \<Rightarrow> s | Some prior \<Rightarrow> unindexCell prior s)
      in indexCell c (s1\<lparr>st_cells := jm_set (c_key c) c (st_cells s1)\<rparr>))"

definition removeCell :: "string \<Rightarrow> cell_store \<Rightarrow> cell_store" where
  "removeCell key s =
     (case jm_get (st_cells s) key of None \<Rightarrow> s
      | Some prior \<Rightarrow> (unindexCell prior s)\<lparr>st_cells := jm_del key (st_cells s)\<rparr>)"

text \<open>Reads.\<close>

definition store_get :: "cell_store \<Rightarrow> string \<Rightarrow> cell option" where
  "store_get s key = jm_get (st_cells s) key"

definition store_has :: "cell_store \<Rightarrow> string \<Rightarrow> bool" where
  "store_has s key \<longleftrightarrow> store_get s key \<noteq> None"

definition store_keys :: "cell_store \<Rightarrow> string list" where
  "store_keys s = jm_keys (st_cells s)"

definition allCells :: "cell_store \<Rightarrow> cell list" where
  "allCells s = jm_values (st_cells s)"

definition orderedEdgeChildren :: "cell_store \<Rightarrow> string option \<Rightarrow> ordered_row list" where
  "orderedEdgeChildren s parent = bucket (edgeChildrenByParent s) (edgeParentKey parent)"

definition cellsForObject :: "cell_store \<Rightarrow> string \<Rightarrow> cell list" where
  "cellsForObject s obj = List.map_filter (store_get s) (bucket (keysByObject s) obj)"

definition membersAt :: "cell_store \<Rightarrow> string \<Rightarrow> string list" where
  "membersAt s loc = bucket (membersByLocation s) loc"

definition lineageChildrenOf :: "cell_store \<Rightarrow> string \<Rightarrow> string list" where
  "lineageChildrenOf s parent = bucket (lineageChildrenByParent s) parent"

definition sessionCellsForActor :: "cell_store \<Rightarrow> string \<Rightarrow> cell list" where
  "sessionCellsForActor s actor = List.map_filter (store_get s) (bucket (sessionKeysByActor s) actor)"

text \<open>Mutations. Only an authority store originates truth.\<close>

definition store_commit ::
  "cell_kind \<Rightarrow> string \<Rightarrow> string option \<Rightarrow> json \<Rightarrow> epoch_stamp \<Rightarrow> cell_store \<Rightarrow> net_error + (cell \<times> cell_store)" where
  "store_commit k obj nm v stamp s =
     (if st_role s \<noteq> Authority
      then Inl (netError E_LINEAGE ''derived store cannot accept authoritative writes'')
      else let c = makeCell k obj nm v Authoritative stamp in Inr (c, setCell c s))"

definition store_install :: "cell \<Rightarrow> cell_store \<Rightarrow> net_error + cell_store" where
  "store_install c s =
     (if st_role s = Authority \<and> c_provenance c \<noteq> Authoritative
      then Inl (netError E_LINEAGE ''authority store only holds authoritative cells'')
      else if st_role s = Derived_copy \<and> c_provenance c = Authoritative
      then Inr (setCell (c\<lparr>c_provenance := Derived\<rparr>) s)
      else Inr (setCell c s))"

definition store_delete :: "string \<Rightarrow> cell_store \<Rightarrow> cell_store" where
  "store_delete key s = removeCell key s"

definition dropStaleEpoch :: "string \<Rightarrow> cell_store \<Rightarrow> nat \<times> cell_store" where
  "dropStaleEpoch expected s =
     fold (\<lambda>(key, c) (dropped, st).
             if catalog_epoch (c_stamp c) \<noteq> expected then (dropped + 1, removeCell key st)
             else (dropped, st))
       (st_cells s) (0, s)"

definition scratchAuthorityFrom :: "cell_store \<Rightarrow> cell_store" where
  "scratchAuthorityFrom view =
     fold (\<lambda>c st. setCell (c\<lparr>c_provenance := Authoritative\<rparr>) st) (allCells view) (newStore Authority)"

definition store_clone :: "cell_store \<Rightarrow> cell_store" where
  "store_clone s = fold setCell (allCells s) (newStore (st_role s))"

definition cloneSlice :: "string list \<Rightarrow> cell_store \<Rightarrow> cell_store" where
  "cloneSlice keys s =
     fold (\<lambda>key st. case store_get s key of None \<Rightarrow> st | Some c \<Rightarrow> setCell c st)
       keys (newStore (st_role s))"

section \<open>Lineage-closed transfers\<close>

record cell_transfer =
  ct_cells :: "cell list"
  ct_assumes_known :: "string list"

definition cellRequiresLineageClosure :: "cell_kind \<Rightarrow> bool" where
  "cellRequiresLineageClosure k \<longleftrightarrow> k \<noteq> Session \<and> k \<noteq> Log \<and> k \<noteq> Object_tombstone"

definition parentOfLineage :: "cell \<Rightarrow> net_error + string option" where
  "parentOfLineage c =
     (case jprop (Some (c_value c)) ''parent'' of
        None \<Rightarrow> Inr None
      | Some JNull \<Rightarrow> Inr None
      | Some (JStr p) \<Rightarrow> Inr (Some p)
      | Some _ \<Rightarrow> Inl (netError E_LINEAGE ''lineage payload has non-string parent''))"

definition lineageByObject :: "cell list \<Rightarrow> (string, cell) jsmap" where
  "lineageByObject cs =
     fold (\<lambda>c m. if c_kind c = Object_lineage then jm_set (c_object c) c m else m) cs []"

text \<open>The first object without its lineage cell, and the lineage parents, in loop order.\<close>

fun check_objects :: "string list \<Rightarrow> (string \<Rightarrow> bool) \<Rightarrow> net_error option" where
  "check_objects [] known = None"
| "check_objects (obj # objs) known =
     (if \<not> known (cellKey Object_lineage obj None)
      then Some (netError E_LINEAGE ''transfer dangles: object without lineage closure'')
      else check_objects objs known)"

fun check_parents :: "cell list \<Rightarrow> (string \<Rightarrow> bool) \<Rightarrow> net_error option" where
  "check_parents [] known = None"
| "check_parents (c # cs) known =
     (case parentOfLineage c of
        Inl e \<Rightarrow> Some e
      | Inr None \<Rightarrow> check_parents cs known
      | Inr (Some p) \<Rightarrow>
          (if \<not> known (cellKey Object_lineage p None)
           then Some (netError E_LINEAGE ''transfer dangles: lineage parent not closed over'')
           else check_parents cs known))"

definition serializeTransfer :: "cell list \<Rightarrow> string list \<Rightarrow> net_error + cell_transfer" where
  "serializeTransfer cs receiverKnown =
     (let present = map c_key cs;
          known = (\<lambda>k. k \<in> set present \<or> k \<in> set receiverKnown);
          objects = map c_object (filter (\<lambda>c. cellRequiresLineageClosure (c_kind c)) cs)
      in case check_objects objects known of
           Some e \<Rightarrow> Inl e
         | None \<Rightarrow>
             (case check_parents (jm_values (lineageByObject cs)) known of
                Some e \<Rightarrow> Inl e
              | None \<Rightarrow> Inr \<lparr>ct_cells = cs, ct_assumes_known = sort receiverKnown\<rparr>))"

fun lineageClosureKeys :: "cell list \<Rightarrow> string list \<Rightarrow> net_error + string list" where
  "lineageClosureKeys [] acc = Inr acc"
| "lineageClosureKeys (c # cs) acc =
     (if \<not> cellRequiresLineageClosure (c_kind c) then lineageClosureKeys cs acc
      else let acc1 = js_add (cellKey Object_lineage (c_object c) None) acc in
        if c_kind c = Object_lineage then
          (case parentOfLineage c of
             Inl e \<Rightarrow> Inl e
           | Inr None \<Rightarrow> lineageClosureKeys cs acc1
           | Inr (Some p) \<Rightarrow> lineageClosureKeys cs (js_add (cellKey Object_lineage p None) acc1))
        else lineageClosureKeys cs acc1)"

section \<open>Sibling rows\<close>

text \<open>The order of the sibling arrays is a strict total order on rows.\<close>

definition row_less :: "ordered_row \<Rightarrow> ordered_row \<Rightarrow> bool" where
  "row_less a b = row_before a (or_rank b) (or_child b)"

definition row_key :: "ordered_row \<Rightarrow> string \<times> string" where
  "row_key r = (or_rank r, or_child r)"

lemma row_before_key: "row_before r rank child \<longleftrightarrow> row_key r < (rank, child)"
  by (auto simp: row_before_def row_key_def less_prod_def')

lemma row_less_key: "row_less a b \<longleftrightarrow> row_key a < row_key b"
  by (simp add: row_less_def row_before_key row_key_def)

lemma row_key_inject [simp]: "row_key a = row_key b \<longleftrightarrow> a = b"
  by (cases a; cases b) (auto simp: row_key_def)

lemma row_less_sorted: "sorted_wrt row_less rows \<longleftrightarrow> sorted_wrt (<) (map row_key rows)"
  by (simp add: sorted_wrt_map row_less_key [abs_def])

lemma row_sorted_distinct: "sorted_wrt row_less rows \<Longrightarrow> distinct rows"
  by (metis row_less_sorted strict_sorted_iff distinct_map)

lemma row_sorted_unique:
  assumes "sorted_wrt row_less xs" "sorted_wrt row_less ys" "set xs = set ys"
  shows "xs = ys"
proof -
  have "map row_key xs = map row_key ys"
    using assms by (intro strict_sorted_equal) (auto simp: row_less_sorted)
  thus ?thesis by (simp add: inj_on_map_eq_map inj_on_def)
qed

text \<open>The binary search returns the lower bound of the probe.\<close>

definition lower_bound :: "ordered_row list \<Rightarrow> string \<Rightarrow> string \<Rightarrow> nat \<Rightarrow> bool" where
  "lower_bound rows rank child n \<longleftrightarrow> n \<le> length rows \<and>
     (\<forall>i < n. row_before (rows ! i) rank child) \<and>
     (\<forall>i. n \<le> i \<and> i < length rows \<longrightarrow> \<not> row_before (rows ! i) rank child)"

lemma row_before_mono:
  assumes "sorted_wrt row_less rows" "row_before (rows ! j) rank child" "i \<le> j" "j < length rows"
  shows "row_before (rows ! i) rank child"
proof (cases "i = j")
  case False
  then have "row_key (rows ! i) < row_key (rows ! j)"
    using assms(1,3,4) by (auto simp: sorted_wrt_iff_nth_less row_less_key)
  then show ?thesis using assms(2) by (auto simp: row_before_key)
qed (use assms in simp)

lemma slot_search_lower_bound:
  assumes "sorted_wrt row_less rows" "lo \<le> hi" "hi \<le> length rows"
    and "\<forall>i < lo. row_before (rows ! i) rank child"
    and "\<forall>i. hi \<le> i \<and> i < length rows \<longrightarrow> \<not> row_before (rows ! i) rank child"
  shows "lower_bound rows rank child (slot_search rows rank child lo hi)"
  using assms
proof (induction rows rank child lo hi rule: slot_search.induct)
  case (1 rows rank child lo hi)
  define mid where "mid = (lo + hi) div 2"
  have unfold: "slot_search rows rank child lo hi =
     (if lo < hi then if row_before (rows ! mid) rank child
        then slot_search rows rank child (mid + 1) hi else slot_search rows rank child lo mid
      else lo)"
    by (subst slot_search.simps) (simp add: Let_def mid_def)
  note mono = row_before_mono [OF "1.prems"(1)]
  consider "\<not> lo < hi" | "lo < hi" "row_before (rows ! mid) rank child"
    | "lo < hi" "\<not> row_before (rows ! mid) rank child" by blast
  then show ?case
  proof cases
    case 1
    with "1.prems"(2) have "lo = hi" by simp
    moreover have "slot_search rows rank child lo hi = lo" using 1 by (simp add: unfold)
    ultimately show ?thesis using "1.prems"(3-5) by (simp add: lower_bound_def)
  next
    case 2
    then have mid: "lo \<le> mid" "mid < hi" by (auto simp: mid_def)
    have "\<forall>i < mid + 1. row_before (rows ! i) rank child"
      using mono [OF 2(2)] mid "1.prems"(3) by auto
    then have "lower_bound rows rank child (slot_search rows rank child (mid + 1) hi)"
      using "1.IH"(1) [OF 2(1) mid_def] 2(2) mid "1.prems"(1,3,5) by simp
    with 2 show ?thesis by (simp add: unfold)
  next
    case 3
    then have mid: "lo \<le> mid" "mid < hi" by (auto simp: mid_def)
    have "\<forall>i. mid \<le> i \<and> i < length rows \<longrightarrow> \<not> row_before (rows ! i) rank child"
      using mono 3(2) by blast
    then have "lower_bound rows rank child (slot_search rows rank child lo mid)"
      using "1.IH"(2) [OF 3(1) mid_def] 3(2) mid "1.prems"(1,3,4) by simp
    with 3 show ?thesis by (simp add: unfold)
  qed
qed

lemma edgeSlot_lower_bound:
  "sorted_wrt row_less rows \<Longrightarrow> lower_bound rows rank child (edgeSlot rows rank child)"
  unfolding edgeSlot_def by (rule slot_search_lower_bound) auto

lemma lower_bound_take: "lower_bound rows rank child n \<Longrightarrow> r \<in> set (take n rows) \<Longrightarrow> row_before r rank child"
  by (auto simp: lower_bound_def in_set_conv_nth)

lemma lower_bound_drop:
  assumes "lower_bound rows rank child n" "r \<in> set (drop n rows)"
  shows "\<not> row_before r rank child"
proof -
  obtain i where "i < length rows - n" "r = rows ! (n + i)"
    using assms by (auto simp: in_set_conv_nth lower_bound_def)
  with assms(1) show ?thesis by (simp add: lower_bound_def)
qed

lemma row_insert_set [simp]: "set (row_insert r rows) = insert r (set rows)"
proof -
  have "set rows = set (take n rows) \<union> set (drop n rows)" for n
    by (metis append_take_drop_id set_append)
  then show ?thesis by (auto simp: row_insert_def splice_in_def)
qed

lemma row_insert_sorted:
  assumes "sorted_wrt row_less rows" "r \<notin> set rows"
  shows "sorted_wrt row_less (row_insert r rows)"
proof -
  let ?n = "edgeSlot rows (or_rank r) (or_child r)"
  have "row_less a r" if "a \<in> set (take ?n rows)" for a
    using lower_bound_take [OF edgeSlot_lower_bound [OF assms(1)] that] by (simp add: row_less_def)
  moreover have "row_less r b" if "b \<in> set (drop ?n rows)" for b
  proof -
    have "b \<noteq> r" using that assms(2) in_set_dropD by metis
    then show ?thesis using lower_bound_drop [OF edgeSlot_lower_bound [OF assms(1)] that]
      by (metis neqE row_before_key row_key_def row_key_inject row_less_key)
  qed
  moreover have "sorted_wrt row_less (take ?n rows @ drop ?n rows)" using assms(1) by simp
  ultimately show ?thesis
    unfolding row_insert_def splice_in_def sorted_wrt_append by auto
qed

lemma lower_bound_member:
  assumes "sorted_wrt row_less rows" "i < length rows" "lower_bound rows (or_rank (rows ! i)) (or_child (rows ! i)) n"
  shows "n = i"
proof -
  have "row_less (rows ! j) (rows ! i) \<longleftrightarrow> j < i" if "j < length rows" for j
    using assms(1,2) that unfolding sorted_wrt_iff_nth_less row_less_key
    by (metis linorder_less_linear order_less_asym)
  with assms(2,3) have "\<And>j. j < n \<Longrightarrow> j < i" "\<And>j. n \<le> j \<Longrightarrow> j < length rows \<Longrightarrow> \<not> j < i" "n \<le> length rows"
    by (auto simp: lower_bound_def row_less_def)
  with assms(2) show ?thesis by (metis leI less_irrefl order_le_less_trans nle_le less_le)
qed

lemma edgeSlot_member:
  assumes "sorted_wrt row_less rows" "r \<in> set rows"
  shows "edgeSlot rows (or_rank r) (or_child r) < length rows \<and>
    rows ! edgeSlot rows (or_rank r) (or_child r) = r"
proof -
  obtain i where i: "i < length rows" "rows ! i = r" using assms(2) by (auto simp: in_set_conv_nth)
  have "edgeSlot rows (or_rank r) (or_child r) = i"
    using lower_bound_member [OF assms(1) i(1)] edgeSlot_lower_bound [OF assms(1)] i(2) by blast
  with i show ?thesis by simp
qed

lemma row_remove_spec:
  assumes "sorted_wrt row_less rows"
  shows "set (row_remove r rows) = set rows - {r}" "sorted_wrt row_less (row_remove r rows)"
proof -
  let ?n = "edgeSlot rows (or_rank r) (or_child r)"
  have "set (row_remove r rows) = set rows - {r} \<and> sorted_wrt row_less (row_remove r rows)"
  proof (cases "r \<in> set rows")
    case True
    then have n: "?n < length rows" "rows ! ?n = r" using edgeSlot_member [OF assms] by auto
    have split: "rows = take ?n rows @ r # drop (?n + 1) rows"
      using n id_take_nth_drop by fastforce
    have eq: "row_remove r rows = take ?n rows @ drop (?n + 1) rows"
      using n by (simp add: row_remove_def splice_out_def Let_def)
    have srt: "sorted_wrt row_less (take ?n rows @ r # drop (?n + 1) rows)"
      using assms split by simp
    have "distinct (take ?n rows @ r # drop (?n + 1) rows)"
      by (rule row_sorted_distinct [OF srt])
    moreover have "set rows = set (take ?n rows @ r # drop (?n + 1) rows)" using split by simp
    ultimately have "set (row_remove r rows) = set rows - {r}" by (auto simp: eq)
    moreover have "sorted_wrt row_less (row_remove r rows)"
      using srt by (simp add: eq sorted_wrt_append)
    ultimately show ?thesis by blast
  next
    case False
    then have "row_remove r rows = rows" by (auto simp: row_remove_def Let_def dest: nth_mem)
    with False assms show ?thesis by auto
  qed
  then show "set (row_remove r rows) = set rows - {r}" "sorted_wrt row_less (row_remove r rows)"
    by auto
qed

section \<open>Index maintenance\<close>

text \<open>
  A cell is well formed when it carries its canonical key, and the singleton kinds (lineage and
  live rows) carry no name. Every cell the program builds with \<^const>\<open>makeCell\<close> is keyed so.
\<close>

definition wf_cell :: "cell \<Rightarrow> bool" where
  "wf_cell c \<longleftrightarrow> c_key c = cellKey (c_kind c) (c_object c) (c_name c) \<and>
     (c_kind c \<in> {Object_lineage, Object_live} \<longrightarrow> c_name c = None)"

definition keyed :: "cell set \<Rightarrow> bool" where
  "keyed C \<longleftrightarrow> (\<forall>c\<in>C. wf_cell c) \<and> (\<forall>c\<in>C. \<forall>d\<in>C. c_key c = c_key d \<longrightarrow> c = d)"

lemma bucket_set [simp]: "bucket (jm_set k v m) k' = (if k' = k then v else bucket m k')"
  by (simp add: bucket_def)

lemma bucket_del [simp]: "bucket (jm_del k m) k' = (if k' = k then [] else bucket m k')"
  by (simp add: bucket_def)

lemma js_add_not_Nil: "js_add x xs \<noteq> []"
  by (auto simp: js_add_def)

text \<open>An emptied bucket is deleted: no bucket of an index is empty.\<close>

definition full :: "('k, 'v list) jsmap \<Rightarrow> bool" where
  "full m \<longleftrightarrow> (\<forall>k. jm_get m k \<noteq> Some [])"

lemma full_set [simp]: "full m \<Longrightarrow> v \<noteq> [] \<Longrightarrow> full (jm_set k v m)"
  by (simp add: full_def)

lemma full_del [simp]: "full m \<Longrightarrow> full (jm_del k m)"
  by (simp add: full_def)

lemma full_Nil [simp]: "full []"
  by (simp add: full_def)

lemma bucket_get: "x \<in> set (bucket m k) \<Longrightarrow> jm_get m k = Some (bucket m k)"
  by (cases "jm_get m k") (simp_all add: bucket_def)

lemma bucket_Nil [simp]: "bucket [] k = []"
  by (simp add: bucket_def)

text \<open>
  The contract of one derived index: a cell contributes the entry \<open>entry_of c\<close> to the bucket
  \<open>key_of c\<close>, and no two well-formed cells contribute the same entry. The second clause is what
  makes removal sound, because removal deletes the entry without counting its contributors.
\<close>

locale cell_index =
  fixes key_of :: "cell \<Rightarrow> string option" and entry_of :: "cell \<Rightarrow> string"
  assumes entry_unique: "\<And>c d. wf_cell c \<Longrightarrow> wf_cell d \<Longrightarrow> key_of c \<noteq> None \<Longrightarrow> key_of d \<noteq> None \<Longrightarrow>
    entry_of c = entry_of d \<Longrightarrow> c_key c = c_key d"
begin

definition idx_ok :: "index \<Rightarrow> cell set \<Rightarrow> bool" where
  "idx_ok m C \<longleftrightarrow> jm_ok m \<and> (\<forall>k. distinct (bucket m k)) \<and>
     full m \<and>
     (\<forall>k. set (bucket m k) = entry_of ` {c \<in> C. key_of c = Some k})"

lemma idx_ok_empty: "idx_ok [] {}"
  by (simp add: idx_ok_def)

lemma idx_ok_add: "idx_ok m C \<Longrightarrow> idx_ok (idx_add (key_of c) (entry_of c) m) (insert c C)"
  by (auto simp: idx_ok_def idx_add_def js_add_not_Nil split: option.splits)

lemma idx_ok_remove:
  assumes "idx_ok m C" "c \<in> C" "keyed C"
  shows "idx_ok (idx_remove (key_of c) (entry_of c) m) (C - {c})"
proof (cases "key_of c")
  case None
  then have "{d \<in> C - {c}. key_of d = Some k} = {d \<in> C. key_of d = Some k}" for k by auto
  with None assms(1) show ?thesis by (simp add: idx_ok_def idx_remove_def)
next
  case (Some k)
  have other: "entry_of d \<noteq> entry_of c" if "d \<in> C" "d \<noteq> c" "key_of d \<noteq> None" for d
    using entry_unique [of d c] that assms(2,3) Some unfolding keyed_def by (metis option.distinct(1))
  have "set (bucket m k) - {entry_of c} = entry_of ` {d \<in> C - {c}. key_of d = Some k}"
    using assms(1) other Some by (auto simp: idx_ok_def)
  moreover have "{d \<in> C - {c}. key_of d = Some k'} = {d \<in> C. key_of d = Some k'}" if "k' \<noteq> k" for k'
    using Some that by auto
  moreover have "jm_get m k = Some (bucket m k)"
    by (rule bucket_get [of "entry_of c"]) (use assms(1,2) Some in \<open>auto simp: idx_ok_def\<close>)
  moreover have "set (js_remove (entry_of c) (bucket m k)) = set (bucket m k) - {entry_of c}" by simp
  ultimately show ?thesis
    using assms(1) Some unfolding idx_ok_def idx_remove_def Let_def
    by (simp del: set_js_remove set_empty add: set_empty [symmetric])
qed

lemma idx_ok_bucket: "idx_ok m C \<Longrightarrow> set (bucket m k) = entry_of ` {c \<in> C. key_of c = Some k} \<and> distinct (bucket m k)"
  by (simp add: idx_ok_def)

end

lemma wf_cell_object_key:
  assumes "wf_cell c" "c_kind c \<in> {Object_lineage, Object_live}"
  shows "c_key c = cellKey (c_kind c) (c_object c) None"
  using assms by (auto simp: wf_cell_def)

interpretation object_index: cell_index "\<lambda>c. Some (c_object c)" c_key
  by unfold_locales simp

interpretation session_index: cell_index sessionActorOf c_key
  by unfold_locales simp

interpretation roster_index: cell_index liveLocationOf c_object
  by unfold_locales (auto simp: liveLocationOf_def wf_cell_object_key split: if_splits)

interpretation lineage_index: cell_index lineageParentOf c_object
  by unfold_locales (auto simp: lineageParentOf_def wf_cell_object_key split: if_splits)

text \<open>The sibling index: every bucket is strictly sorted and holds exactly the rows of its edges.\<close>

definition edge_rows :: "cell set \<Rightarrow> string \<Rightarrow> ordered_row set" where
  "edge_rows C k = {\<lparr>or_child = c_object c, or_rank = rank\<rparr> | c p rank.
     c \<in> C \<and> orderedEdgeOf c = Some (p, rank) \<and> edgeParentKey p = k}"

definition edge_ok :: "(string, ordered_row list) jsmap \<Rightarrow> cell set \<Rightarrow> bool" where
  "edge_ok m C \<longleftrightarrow> jm_ok m \<and> (\<forall>k. sorted_wrt row_less (bucket m k)) \<and>
     full m \<and>
     (\<forall>k. set (bucket m k) = edge_rows C k)"

lemma edge_rows_insert:
  "edge_rows (insert c C) k = (case orderedEdgeOf c of None \<Rightarrow> edge_rows C k
     | Some (p, rank) \<Rightarrow> if edgeParentKey p = k
         then insert \<lparr>or_child = c_object c, or_rank = rank\<rparr> (edge_rows C k) else edge_rows C k)"
  by (auto simp: edge_rows_def split: option.splits)

lemma orderedEdge_key:
  assumes "wf_cell c" "orderedEdgeOf c = Some e"
  shows "c_key c = cellKey Property_cell (c_object c) (Some ORDERED_EDGE_PROP)"
  using assms by (auto simp: orderedEdgeOf_def wf_cell_def split: if_splits)

lemma edge_row_new:
  assumes "keyed (insert c C)" "c \<notin> C" "orderedEdgeOf c = Some (p, rank)"
  shows "\<lparr>or_child = c_object c, or_rank = rank\<rparr> \<notin> edge_rows C k"
proof
  assume "\<lparr>or_child = c_object c, or_rank = rank\<rparr> \<in> edge_rows C k"
  then obtain d q where d: "d \<in> C" "orderedEdgeOf d = Some (q, rank)" "c_object d = c_object c"
    by (auto simp: edge_rows_def)
  then have "c_key d = c_key c"
    using orderedEdge_key [of c] orderedEdge_key [of d] assms(1,3) by (simp add: keyed_def)
  with d(1) assms(1,2) show False unfolding keyed_def by (metis insertCI)
qed

lemma edge_ok_empty: "edge_ok [] {}"
  by (simp add: edge_ok_def edge_rows_def)

lemma edge_ok_add:
  assumes "edge_ok m C" "keyed (insert c C)" "c \<notin> C"
  shows "edge_ok (edge_add c m) (insert c C)"
proof (cases "orderedEdgeOf c")
  case (Some e)
  obtain p rank where e: "e = (p, rank)" by (cases e)
  have "\<lparr>or_child = c_object c, or_rank = rank\<rparr> \<notin> set (bucket m (edgeParentKey p))"
    using edge_row_new [OF assms(2,3)] Some e assms(1) by (simp add: edge_ok_def)
  moreover have "row_insert r rows \<noteq> []" for r rows
    using row_insert_set [of r rows] by (metis empty_iff insert_iff set_empty2)
  ultimately show ?thesis
    using assms(1) Some e
    by (auto simp: edge_ok_def edge_add_def Let_def edge_rows_insert row_insert_sorted)
qed (use assms(1) in \<open>simp add: edge_ok_def edge_add_def edge_rows_insert\<close>)

lemma edge_ok_remove:
  assumes "edge_ok m C" "c \<in> C" "keyed C"
  shows "edge_ok (edge_remove c m) (C - {c})"
proof (cases "orderedEdgeOf c")
  case None
  have "edge_rows C k = edge_rows (C - {c}) k" for k
    using edge_rows_insert [of c "C - {c}" k] None assms(2) by (simp add: insert_absorb)
  with None assms(1) show ?thesis by (simp add: edge_ok_def edge_remove_def)
next
  case (Some e)
  obtain p rank where e: "e = (p, rank)" by (cases e)
  let ?k = "edgeParentKey p" and ?r = "\<lparr>or_child = c_object c, or_rank = rank\<rparr>"
  have ins: "insert c (C - {c}) = C" using assms(2) by blast
  have new: "?r \<notin> edge_rows (C - {c}) k" for k
    using edge_row_new [of c "C - {c}" p rank k] Some e assms(3) ins by simp
  have rows: "edge_rows C k = (if ?k = k then insert ?r (edge_rows (C - {c}) k) else edge_rows (C - {c}) k)" for k
    using edge_rows_insert [of c "C - {c}" k] Some e ins by simp
  let ?xs = "bucket m ?k"
  have "?r \<in> set ?xs" using assms(1) rows by (simp add: edge_ok_def)
  then have get: "jm_get m ?k = Some ?xs" by (rule bucket_get)
  have srt: "sorted_wrt row_less ?xs" and set_xs: "set ?xs = edge_rows C ?k"
    using assms(1) by (simp_all add: edge_ok_def)
  have rem: "set (row_remove ?r ?xs) = edge_rows (C - {c}) ?k"
    using row_remove_spec(1) [OF srt] set_xs rows [of ?k] new [of ?k] by auto
  have eq: "edge_remove c m = (if row_remove ?r ?xs = [] then jm_del ?k m else jm_set ?k (row_remove ?r ?xs) m)"
    using get Some e by (simp add: edge_remove_def Let_def)
  show ?thesis
    using assms(1) rows rem row_remove_spec(2) [OF srt] unfolding edge_ok_def eq by auto
qed

section \<open>The store invariant\<close>

definition indexes_ok :: "cell_store \<Rightarrow> cell set \<Rightarrow> bool" where
  "indexes_ok s C \<longleftrightarrow> object_index.idx_ok (keysByObject s) C \<and>
     session_index.idx_ok (sessionKeysByActor s) C \<and>
     roster_index.idx_ok (membersByLocation s) C \<and>
     lineage_index.idx_ok (lineageChildrenByParent s) C \<and>
     edge_ok (edgeChildrenByParent s) C"

definition cells_ok :: "(string, cell) jsmap \<Rightarrow> bool" where
  "cells_ok m \<longleftrightarrow> jm_ok m \<and> (\<forall>(k, c) \<in> set m. c_key c = k \<and> wf_cell c)"

definition store_ok :: "cell_store \<Rightarrow> bool" where
  "store_ok s \<longleftrightarrow> cells_ok (st_cells s) \<and> indexes_ok s (set (allCells s))"

text \<open>An authority store holds only authoritative cells, a derived store none.\<close>

definition role_ok :: "cell_store \<Rightarrow> bool" where
  "role_ok s \<longleftrightarrow> (\<forall>c \<in> set (allCells s). (c_provenance c = Authoritative) = (st_role s = Authority))"

lemmas index_defs = indexes_ok_def indexCell_def unindexCell_def

lemma indexes_ok_st_cells [simp]: "indexes_ok (s\<lparr>st_cells := m\<rparr>) C = indexes_ok s C"
  by (simp add: indexes_ok_def)

lemma indexes_ok_index:
  "indexes_ok s C \<Longrightarrow> keyed (insert c C) \<Longrightarrow> c \<notin> C \<Longrightarrow> indexes_ok (indexCell c s) (insert c C)"
  by (simp add: index_defs object_index.idx_ok_add session_index.idx_ok_add roster_index.idx_ok_add
      lineage_index.idx_ok_add edge_ok_add)

lemma indexes_ok_unindex:
  "indexes_ok s C \<Longrightarrow> c \<in> C \<Longrightarrow> keyed C \<Longrightarrow> indexes_ok (unindexCell c s) (C - {c})"
  by (simp add: index_defs object_index.idx_ok_remove session_index.idx_ok_remove
      roster_index.idx_ok_remove lineage_index.idx_ok_remove edge_ok_remove)

lemma indexCell_cells [simp]: "st_cells (indexCell c s) = st_cells s" "st_role (indexCell c s) = st_role s"
  by (simp_all add: indexCell_def)

lemma unindexCell_cells [simp]: "st_cells (unindexCell c s) = st_cells s" "st_role (unindexCell c s) = st_role s"
  by (simp_all add: unindexCell_def)

lemma setCell_cells [simp]:
  "st_cells (setCell c s) = jm_set (c_key c) c (st_cells s)" "st_role (setCell c s) = st_role s"
  by (simp_all add: setCell_def Let_def split: option.splits)

lemma removeCell_cells [simp]:
  "st_cells (removeCell key s) = jm_del key (st_cells s)" "st_role (removeCell key s) = st_role s"
  by (auto simp: removeCell_def delete_id [symmetric] map_of_eq_None_iff split: option.splits)

lemma newStore_cells [simp]: "st_cells (newStore r) = []" "st_role (newStore r) = r"
  by (simp_all add: newStore_def)

lemma store_get_setCell [simp]: "store_get (setCell c s) k = (if k = c_key c then Some c else store_get s k)"
  by (simp add: store_get_def)

lemma store_get_removeCell [simp]: "store_get (removeCell key s) k = (if k = key then None else store_get s k)"
  by (simp add: store_get_def)

lemma store_get_new [simp]: "store_get (newStore r) k = None"
  by (simp add: store_get_def)

lemma cells_ok_keyed: "cells_ok m \<Longrightarrow> keyed (snd ` set m)"
  unfolding cells_ok_def keyed_def
  by (auto split: prod.splits) (metis eq_key_imp_eq_value)

lemma cells_ok_set: "cells_ok m \<Longrightarrow> wf_cell c \<Longrightarrow> cells_ok (jm_set (c_key c) c m)"
  by (auto simp: cells_ok_def set_jm_set)

lemma cells_ok_del: "cells_ok m \<Longrightarrow> cells_ok (jm_del k m)"
  by (auto simp: cells_ok_def set_jm_del)

lemma cells_ok_values_del:
  assumes "cells_ok m" shows "snd ` set (jm_del k m) = {d \<in> snd ` set m. c_key d \<noteq> k}"
  using assms by (auto simp: cells_ok_def set_jm_del intro: rev_image_eqI)

lemma cells_ok_values_set:
  assumes "cells_ok m"
  shows "snd ` set (jm_set (c_key c) c m) = insert c {d \<in> snd ` set m. c_key d \<noteq> c_key c}"
  using assms by (auto simp: cells_ok_def set_jm_set intro: rev_image_eqI)

lemma cells_ok_get:
  "cells_ok m \<Longrightarrow> jm_get m k = Some c \<Longrightarrow> c \<in> snd ` set m \<and> c_key c = k"
  by (auto simp: cells_ok_def dest!: map_of_SomeD intro: rev_image_eqI)

lemma cells_ok_minus:
  assumes "cells_ok m" "jm_get m k = Some c"
  shows "snd ` set m - {c} = {d \<in> snd ` set m. c_key d \<noteq> k}"
proof -
  have "d = c \<longleftrightarrow> c_key d = k" if "d \<in> snd ` set m" for d
    using cells_ok_keyed [OF assms(1)] cells_ok_get [OF assms] that unfolding keyed_def by metis
  then show ?thesis by (simp add: set_eq_iff) blast
qed

lemma cells_ok_none:
  assumes "cells_ok m" "jm_get m k = None"
  shows "{d \<in> snd ` set m. c_key d \<noteq> k} = snd ` set m"
  using assms by (force simp: cells_ok_def map_of_eq_None_iff)

lemma set_allCells: "set (allCells s) = snd ` set (st_cells s)"
  by (simp add: allCells_def)

lemma keyed_insert:
  "keyed C \<Longrightarrow> wf_cell c \<Longrightarrow> keyed (insert c {d \<in> C. c_key d \<noteq> c_key c})"
  by (auto simp: keyed_def)

lemma store_ok_removeCell:
  assumes "store_ok s" shows "store_ok (removeCell key s)"
proof (cases "jm_get (st_cells s) key")
  case None
  then show ?thesis using assms by (simp add: removeCell_def)
next
  case (Some c)
  have ok: "cells_ok (st_cells s)" "indexes_ok s (snd ` set (st_cells s))"
    using assms by (simp_all add: store_ok_def set_allCells)
  have "indexes_ok (unindexCell c s) (snd ` set (st_cells s) - {c})"
    using indexes_ok_unindex ok cells_ok_get [OF ok(1) Some] cells_ok_keyed by blast
  then show ?thesis
    using Some ok(1) cells_ok_minus [OF ok(1) Some]
    by (simp add: store_ok_def removeCell_def set_allCells cells_ok_del cells_ok_values_del)
qed

lemma store_ok_setCell:
  assumes "store_ok s" "wf_cell c" shows "store_ok (setCell c s)"
proof -
  let ?m = "st_cells s" and ?C = "{d \<in> snd ` set (st_cells s). c_key d \<noteq> c_key c}"
  define s1 where "s1 = (case jm_get ?m (c_key c) of None \<Rightarrow> s | Some prior \<Rightarrow> unindexCell prior s)"
  have ok: "cells_ok ?m" "indexes_ok s (snd ` set ?m)"
    using assms by (simp_all add: store_ok_def set_allCells)
  have "indexes_ok s1 ?C"
  proof (cases "jm_get ?m (c_key c)")
    case None
    then show ?thesis using ok cells_ok_none [OF ok(1) None] by (simp add: s1_def)
  next
    case (Some d)
    then show ?thesis
      using ok cells_ok_get [OF ok(1) Some] cells_ok_minus [OF ok(1) Some] cells_ok_keyed [OF ok(1)]
        indexes_ok_unindex [of s "snd ` set ?m" d] by (simp add: s1_def)
  qed
  then have "indexes_ok (indexCell c (s1\<lparr>st_cells := jm_set (c_key c) c ?m\<rparr>)) (insert c ?C)"
    using keyed_insert [OF cells_ok_keyed [OF ok(1)] assms(2)] by (intro indexes_ok_index) auto
  moreover have "st_cells s1 = ?m" by (simp add: s1_def split: option.splits)
  ultimately have "indexes_ok (setCell c s) (insert c ?C)"
    by (simp add: setCell_def s1_def)
  then show ?thesis
    using ok(1) assms(2) by (simp add: store_ok_def set_allCells cells_ok_set cells_ok_values_set)
qed

lemma store_ok_new [simp]: "store_ok (newStore r)"
  by (simp add: store_ok_def cells_ok_def set_allCells indexes_ok_def newStore_def edge_ok_empty
      object_index.idx_ok_empty session_index.idx_ok_empty roster_index.idx_ok_empty
      lineage_index.idx_ok_empty)

lemma store_ok_get: "store_ok s \<Longrightarrow> store_get s k = Some c \<Longrightarrow> wf_cell c \<and> c_key c = k \<and> c \<in> set (allCells s)"
  unfolding store_ok_def cells_ok_def store_get_def set_allCells
  by (auto dest!: map_of_SomeD intro: rev_image_eqI)

lemma store_ok_wf: "store_ok s \<Longrightarrow> c \<in> set (allCells s) \<Longrightarrow> wf_cell c"
  by (auto simp: store_ok_def cells_ok_def set_allCells)

lemma store_get_iff:
  assumes "store_ok s" shows "store_get s k = Some c \<longleftrightarrow> c \<in> set (allCells s) \<and> c_key c = k"
proof
  assume "c \<in> set (allCells s) \<and> c_key c = k"
  then have "(k, c) \<in> set (st_cells s)"
    using assms by (auto simp: store_ok_def cells_ok_def set_allCells)
  then show "store_get s k = Some c"
    using assms by (simp add: store_get_def store_ok_def cells_ok_def)
qed (use assms store_ok_get in blast)

lemma wf_makeCell:
  "(k \<in> {Object_lineage, Object_live} \<longrightarrow> nm = None) \<Longrightarrow> wf_cell (makeCell k obj nm v prov stamp)"
  by (simp add: makeCell_def wf_cell_def)

lemma makeCell_sel [simp]:
  "c_key (makeCell k obj nm v prov stamp) = cellKey k obj nm" "c_kind (makeCell k obj nm v prov stamp) = k"
  "c_object (makeCell k obj nm v prov stamp) = obj" "c_name (makeCell k obj nm v prov stamp) = nm"
  "c_value (makeCell k obj nm v prov stamp) = v" "c_provenance (makeCell k obj nm v prov stamp) = prov"
  "c_version (makeCell k obj nm v prov stamp) = cellVersion v" "c_stamp (makeCell k obj nm v prov stamp) = stamp"
  by (simp_all add: makeCell_def)

lemma wf_restamp [simp]: "wf_cell (c\<lparr>c_provenance := p\<rparr>) = wf_cell c"
  by (simp add: wf_cell_def)

lemma store_ok_fold_setCell:
  "\<lbrakk>\<forall>c \<in> set cs. wf_cell (f c); store_ok s\<rbrakk> \<Longrightarrow> store_ok (fold (\<lambda>c st. setCell (f c) st) cs s)"
  by (induction cs arbitrary: s) (simp_all add: store_ok_setCell)

lemma role_fold_setCell [simp]: "st_role (fold (\<lambda>c st. setCell (f c) st) cs s) = st_role s"
  by (induction cs arbitrary: s) simp_all

text \<open>Replaying cells with pairwise different keys leaves each under its key.\<close>

lemma get_fold_setCell:
  assumes "\<forall>c \<in> set cs. c_key (f c) = c_key c" "distinct (map c_key cs)"
  shows "store_get (fold (\<lambda>c st. setCell (f c) st) cs s) k =
    (case find (\<lambda>c. c_key c = k) cs of Some c \<Rightarrow> Some (f c) | None \<Rightarrow> store_get s k)"
  using assms
proof (induction cs arbitrary: s)
  case (Cons c cs)
  have "find (\<lambda>d. c_key d = k) cs = None" if "c_key c = k"
    using Cons.prems(2) that by (auto simp: find_None_iff) (metis image_eqI)
  then show ?case using Cons by (auto split: option.splits)
qed simp

lemma allCells_keys: "store_ok s \<Longrightarrow> map c_key (allCells s) = store_keys s"
  by (auto simp: store_ok_def cells_ok_def allCells_def store_keys_def)

lemma distinct_allCells_keys: "store_ok s \<Longrightarrow> distinct (map c_key (allCells s))"
  by (simp add: allCells_keys) (simp add: store_ok_def cells_ok_def store_keys_def)

lemma find_allCells:
  assumes "store_ok s" shows "find (\<lambda>c. c_key c = k) (allCells s) = store_get s k"
proof (cases "find (\<lambda>c. c_key c = k) (allCells s)")
  case None
  then have "\<nexists>c. store_get s k = Some c"
    using store_get_iff [OF assms] by (auto simp: find_None_iff)
  then show ?thesis using None by (cases "store_get s k") auto
next
  case (Some c)
  then have "c \<in> set (allCells s)" "c_key c = k"
    by (auto simp: find_Some_iff)
  then have "store_get s k = Some c" using store_get_iff [OF assms] by blast
  with Some show ?thesis by simp
qed

lemma store_get_ok_iff_role:
  "store_ok s \<Longrightarrow> role_ok s \<longleftrightarrow>
     (\<forall>k c. store_get s k = Some c \<longrightarrow> (c_provenance c = Authoritative) = (st_role s = Authority))"
  unfolding role_ok_def by (metis store_get_iff)

text \<open>Dropping stale-epoch cells, in the order of the loop.\<close>

lemma drop_fold:
  "st_role (snd (fold (\<lambda>(key, c) (dropped, st).
      if catalog_epoch (c_stamp c) \<noteq> e then (dropped + 1, removeCell key st) else (dropped, st)) kcs (n, s))) = st_role s"
  "store_ok s \<Longrightarrow> store_ok (snd (fold (\<lambda>(key, c) (dropped, st).
      if catalog_epoch (c_stamp c) \<noteq> e then (dropped + 1, removeCell key st) else (dropped, st)) kcs (n, s)))"
  "store_get (snd (fold (\<lambda>(key, c) (dropped, st).
      if catalog_epoch (c_stamp c) \<noteq> e then (dropped + 1, removeCell key st) else (dropped, st)) kcs (n, s))) k =
     (if \<exists>c. (k, c) \<in> set kcs \<and> catalog_epoch (c_stamp c) \<noteq> e then None else store_get s k)"
  "fst (fold (\<lambda>(key, c) (dropped, st).
      if catalog_epoch (c_stamp c) \<noteq> e then (dropped + 1, removeCell key st) else (dropped, st)) kcs (n, s)) =
     n + length (filter (\<lambda>(key, c). catalog_epoch (c_stamp c) \<noteq> e) kcs)"
  by (induction kcs arbitrary: n s) (auto simp: store_ok_removeCell split: if_splits)

lemma store_ok_dropStaleEpoch: "store_ok s \<Longrightarrow> store_ok (snd (dropStaleEpoch e s))"
  unfolding dropStaleEpoch_def by (rule drop_fold(2))

lemma role_dropStaleEpoch [simp]: "st_role (snd (dropStaleEpoch e s)) = st_role s"
  unfolding dropStaleEpoch_def by (rule drop_fold(1))

lemma store_get_dropStaleEpoch:
  assumes "store_ok s"
  shows "store_get (snd (dropStaleEpoch e s)) k =
    (case store_get s k of Some c \<Rightarrow> if catalog_epoch (c_stamp c) = e then Some c else None | None \<Rightarrow> None)"
proof -
  have "(k, c) \<in> set (st_cells s) \<longleftrightarrow> store_get s k = Some c" for c
    using assms by (simp add: store_ok_def cells_ok_def store_get_def)
  then show ?thesis unfolding dropStaleEpoch_def drop_fold(3) by (auto split: option.splits)
qed

lemma scratchAuthorityFrom_ok: "store_ok s \<Longrightarrow> store_ok (scratchAuthorityFrom s)"
  unfolding scratchAuthorityFrom_def by (rule store_ok_fold_setCell) (auto dest: store_ok_wf)

lemma role_scratchAuthorityFrom [simp]: "st_role (scratchAuthorityFrom s) = Authority"
  by (simp add: scratchAuthorityFrom_def)

lemma store_get_scratchAuthorityFrom:
  assumes "store_ok s"
  shows "store_get (scratchAuthorityFrom s) k = map_option (\<lambda>c. c\<lparr>c_provenance := Authoritative\<rparr>) (store_get s k)"
  unfolding scratchAuthorityFrom_def
  by (subst get_fold_setCell) (auto simp: distinct_allCells_keys assms find_allCells split: option.splits)

lemma store_clone_ok: "store_ok s \<Longrightarrow> store_ok (store_clone s)"
  unfolding store_clone_def
  using store_ok_fold_setCell [of "allCells s" "\<lambda>c. c" "newStore (st_role s)"] store_ok_wf by auto

lemma role_store_clone [simp]: "st_role (store_clone s) = st_role s"
  unfolding store_clone_def using role_fold_setCell [of "\<lambda>c. c"] by simp

lemma store_get_clone: "store_ok s \<Longrightarrow> store_get (store_clone s) k = store_get s k"
  unfolding store_clone_def
  using get_fold_setCell [of "allCells s" "\<lambda>c. c"]
  by (auto simp: distinct_allCells_keys find_allCells split: option.splits)

lemma cloneSlice_fold:
  assumes "store_ok s"
  shows "store_ok st \<Longrightarrow> store_ok (fold (\<lambda>key st. case store_get s key of None \<Rightarrow> st | Some c \<Rightarrow> setCell c st) keys st)"
    and "st_role (fold (\<lambda>key st. case store_get s key of None \<Rightarrow> st | Some c \<Rightarrow> setCell c st) keys st) = st_role st"
    and "store_get (fold (\<lambda>key st. case store_get s key of None \<Rightarrow> st | Some c \<Rightarrow> setCell c st) keys st) k =
      (if k \<in> set keys \<and> store_get s k \<noteq> None then store_get s k else store_get st k)"
  using assms
  by (induction keys arbitrary: st) (auto simp: store_ok_setCell dest: store_ok_get split: option.splits)

lemma cloneSlice_ok: "store_ok s \<Longrightarrow> store_ok (cloneSlice keys s)"
  unfolding cloneSlice_def by (rule cloneSlice_fold(1)) auto

lemma role_cloneSlice [simp]: "store_ok s \<Longrightarrow> st_role (cloneSlice keys s) = st_role s"
  unfolding cloneSlice_def by (simp add: cloneSlice_fold(2))

lemma store_get_cloneSlice:
  "store_ok s \<Longrightarrow> store_get (cloneSlice keys s) k = (if k \<in> set keys then store_get s k else None)"
  unfolding cloneSlice_def by (simp add: cloneSlice_fold(3))

section \<open>Reachable stores\<close>

text \<open>
  Every store the program can hold: it starts empty and is changed or copied only by the public
  operations. Cells are installed under their canonical keys, and the singleton kinds are
  committed without a name.
\<close>

inductive store_reach :: "cell_store \<Rightarrow> bool" where
  reach_new: "store_reach (newStore r)"
| reach_commit: "store_reach s \<Longrightarrow> (k \<in> {Object_lineage, Object_live} \<longrightarrow> nm = None) \<Longrightarrow>
    store_commit k obj nm v stamp s = Inr (c, s') \<Longrightarrow> store_reach s'"
| reach_install: "store_reach s \<Longrightarrow> wf_cell c \<Longrightarrow> store_install c s = Inr s' \<Longrightarrow> store_reach s'"
| reach_delete: "store_reach s \<Longrightarrow> store_reach (store_delete key s)"
| reach_drop: "store_reach s \<Longrightarrow> store_reach (snd (dropStaleEpoch e s))"
| reach_scratch: "store_reach s \<Longrightarrow> store_reach (scratchAuthorityFrom s)"
| reach_clone: "store_reach s \<Longrightarrow> store_reach (store_clone s)"
| reach_slice: "store_reach s \<Longrightarrow> store_reach (cloneSlice keys s)"

lemma store_commit_Inr:
  "store_commit k obj nm v stamp s = Inr (c, s') \<longleftrightarrow>
     st_role s = Authority \<and> c = makeCell k obj nm v Authoritative stamp \<and> s' = setCell c s"
  by (auto simp: store_commit_def Let_def)

lemma store_install_Inr:
  "store_install c s = Inr s' \<longleftrightarrow>
     (st_role s = Authority \<longrightarrow> c_provenance c = Authoritative) \<and>
     s' = setCell (if st_role s = Derived_copy \<and> c_provenance c = Authoritative
                   then c\<lparr>c_provenance := Derived\<rparr> else c) s"
  by (cases "st_role s") (auto simp: store_install_def)

lemma role_ok_setCell:
  assumes "store_ok s" "role_ok s" "(c_provenance c = Authoritative) = (st_role s = Authority)"
  shows "role_ok (setCell c s)"
proof -
  have "cells_ok (st_cells s)" using assms(1) by (simp add: store_ok_def)
  then have "set (allCells (setCell c s)) \<subseteq> insert c (set (allCells s))"
    by (auto simp: set_allCells cells_ok_values_set)
  with assms(2,3) show ?thesis by (auto simp: role_ok_def)
qed

lemma store_reach_ok: "store_reach s \<Longrightarrow> store_ok s \<and> role_ok s"
proof (induction rule: store_reach.induct)
  case (reach_new r)
  then show ?case by (simp add: role_ok_def set_allCells)
next
  case (reach_commit s k nm obj v stamp c s')
  then show ?case
    by (auto simp: store_commit_Inr intro!: store_ok_setCell role_ok_setCell wf_makeCell)
next
  case (reach_install s c s')
  then show ?case
    by (cases "st_role s") (auto simp: store_install_Inr intro!: store_ok_setCell role_ok_setCell)
next
  case (reach_delete s key)
  then show ?case
    by (auto simp: store_delete_def store_ok_removeCell store_get_ok_iff_role split: if_splits)
next
  case (reach_drop s e)
  then show ?case
    by (auto simp: store_ok_dropStaleEpoch store_get_ok_iff_role store_get_dropStaleEpoch split: option.splits if_splits)
next
  case (reach_scratch s)
  then show ?case
    by (auto simp: scratchAuthorityFrom_ok store_get_ok_iff_role store_get_scratchAuthorityFrom)
next
  case (reach_clone s)
  then show ?case by (auto simp: store_clone_ok store_get_ok_iff_role store_get_clone)
next
  case (reach_slice s keys)
  then show ?case by (auto simp: cloneSlice_ok store_get_ok_iff_role store_get_cloneSlice split: if_splits)
qed

text \<open>Reading an index and looking each key up again gives the scan of the store.\<close>

lemma keyed_lookup:
  assumes "store_ok s" "set ks = c_key ` {c \<in> set (allCells s). P c}" "distinct ks"
  shows "set (List.map_filter (store_get s) ks) = {c \<in> set (allCells s). P c}"
    and "distinct (List.map_filter (store_get s) ks)"
proof -
  have "set (List.map_filter (store_get s) ks) = {c. \<exists>k \<in> set ks. store_get s k = Some c}"
    by (auto simp: List.map_filter_def) (force intro: rev_image_eqI)
  also have "\<dots> = {c \<in> set (allCells s). P c}"
  proof -
    have "c = d" if "c \<in> set (allCells s)" "d \<in> set (allCells s)" "c_key c = c_key d" for c d
      using that store_get_iff [OF assms(1)] by (metis option.inject)
    then show ?thesis unfolding assms(2) by (auto simp: store_get_iff [OF assms(1)])
  qed
  finally show "set (List.map_filter (store_get s) ks) = {c \<in> set (allCells s). P c}" .
  show "distinct (List.map_filter (store_get s) ks)"
    unfolding List.map_filter_def using assms(3)
    by (auto simp: distinct_map inj_on_def) (metis store_ok_get [OF assms(1)])
qed

text \<open>
  C28: in every reachable store the cell map and the five derived indexes agree and the
  provenance discipline holds: an authority store holds only authoritative cells and a derived
  copy holds none.
\<close>

theorem store_reach_invariant:
  assumes "store_reach s"
  shows "store_ok s \<and> (\<forall>c \<in> set (allCells s). (c_provenance c = Authoritative) = (st_role s = Authority))"
  using store_reach_ok [OF assms] by (simp add: role_ok_def)

definition demo_stamp :: epoch_stamp where
  "demo_stamp = \<lparr>scope_head = ''h0'', catalog_epoch = ''e1''\<rparr>"

definition demo_live :: "string \<Rightarrow> string \<Rightarrow> cell" where
  "demo_live obj loc = \<lparr>c_key = ''object_live:'' @ obj, c_kind = Object_live, c_object = obj, c_name = None,
     c_value = JObj [(''location'', JStr loc)], c_version = ''v'', c_provenance = Derived, c_stamp = demo_stamp\<rparr>"

definition demo_store :: cell_store where
  "demo_store = setCell (demo_live ''lamp'' ''hall'') (setCell (demo_live ''lamp'' ''attic'') (newStore Derived_copy))"

lemma wf_demo_live: "wf_cell (demo_live obj loc)"
  by (simp add: demo_live_def wf_cell_def cellKey_def)

lemma demo_store_reach: "store_reach demo_store"
proof -
  have "store_install (demo_live obj loc) s = Inr (setCell (demo_live obj loc) s)" if "st_role s = Derived_copy" for obj loc s
    using that by (simp add: store_install_Inr demo_live_def)
  then have step: "store_reach (setCell (demo_live obj loc) s)" if "store_reach s" "st_role s = Derived_copy" for obj loc s
    using reach_install that wf_demo_live by blast
  show ?thesis unfolding demo_store_def by (intro step reach_new) simp_all
qed

lemma demo_store_cells: "allCells demo_store = [demo_live ''lamp'' ''hall'']"
  by (simp add: demo_store_def demo_live_def allCells_def)

theorem store_reach_invariant_witness:
  "store_ok demo_store \<and> map c_provenance (allCells demo_store) = [Derived]"
  using store_reach_invariant [OF demo_store_reach] by (simp add: demo_store_cells demo_live_def)

text \<open>
  C29: in a reachable store the four key indexes are exact: the cells of an object, the sessions of
  an actor, the members at a location and the lineage children of a parent are precisely what a
  scan of all cells finds, each once.
\<close>

theorem store_indexes_scan:
  assumes "store_reach s"
  shows "set (cellsForObject s obj) = {c \<in> set (allCells s). c_object c = obj} \<and> distinct (cellsForObject s obj) \<and>
    set (sessionCellsForActor s actor) = {c \<in> set (allCells s). sessionActorOf c = Some actor} \<and>
    set (membersAt s loc) = c_object ` {c \<in> set (allCells s). liveLocationOf c = Some loc} \<and> distinct (membersAt s loc) \<and>
    set (lineageChildrenOf s par) = c_object ` {c \<in> set (allCells s). lineageParentOf c = Some par} \<and>
    distinct (lineageChildrenOf s par)"
proof -
  have ok: "store_ok s" and ix: "indexes_ok s (set (allCells s))"
    using store_reach_ok [OF assms] by (auto simp: store_ok_def)
  have obj: "set (bucket (keysByObject s) obj) = c_key ` {c \<in> set (allCells s). c_object c = obj}"
    "distinct (bucket (keysByObject s) obj)"
    using ix object_index.idx_ok_bucket [of "keysByObject s" "set (allCells s)" obj]
    unfolding indexes_ok_def by simp_all
  have ses: "set (bucket (sessionKeysByActor s) actor) = c_key ` {c \<in> set (allCells s). sessionActorOf c = Some actor}"
    "distinct (bucket (sessionKeysByActor s) actor)"
    using ix session_index.idx_ok_bucket [of "sessionKeysByActor s" "set (allCells s)" actor]
    unfolding indexes_ok_def by simp_all
  have mem: "set (membersAt s loc) = c_object ` {c \<in> set (allCells s). liveLocationOf c = Some loc}"
    "distinct (membersAt s loc)"
    using ix roster_index.idx_ok_bucket [of "membersByLocation s" "set (allCells s)" loc]
    unfolding membersAt_def indexes_ok_def by simp_all
  have lin: "set (lineageChildrenOf s par) = c_object ` {c \<in> set (allCells s). lineageParentOf c = Some par}"
    "distinct (lineageChildrenOf s par)"
    using ix lineage_index.idx_ok_bucket [of "lineageChildrenByParent s" "set (allCells s)" par]
    unfolding lineageChildrenOf_def indexes_ok_def by simp_all
  from keyed_lookup [OF ok obj] keyed_lookup(1) [OF ok ses] mem lin show ?thesis
    unfolding cellsForObject_def sessionCellsForActor_def by metis
qed

theorem store_indexes_scan_witness:
  "set (membersAt demo_store ''hall'') = {''lamp''} \<and> set (membersAt demo_store ''attic'') = {}"
proof -
  have "{c. c = demo_live ''lamp'' ''hall'' \<and> liveLocationOf c = Some l} =
      (if l = ''hall'' then {demo_live ''lamp'' ''hall''} else {})" for l
    by (auto simp: liveLocationOf_def demo_live_def)
  moreover have "set (membersAt demo_store l) = c_object ` {c \<in> set (allCells demo_store). liveLocationOf c = Some l}" for l
    using store_indexes_scan [OF demo_store_reach] by blast
  ultimately show ?thesis by (simp add: demo_store_cells demo_live_def)
qed

section \<open>Lineage closure of transfers\<close>

lemma check_objects_None:
  "check_objects objs known = None \<longleftrightarrow> (\<forall>obj \<in> set objs. known (cellKey Object_lineage obj None))"
  by (induction objs) auto

lemma check_parents_None:
  "check_parents cs known = None \<longleftrightarrow>
     (\<forall>c \<in> set cs. \<exists>p. parentOfLineage c = Inr p \<and> (\<forall>q. p = Some q \<longrightarrow> known (cellKey Object_lineage q None)))"
  by (induction cs) (auto split: sum.splits option.splits)

lemma lineageByObject_fold:
  assumes "jm_ok m" "\<forall>c \<in> set cs. \<forall>d \<in> set cs. c_kind c = Object_lineage \<and> c_kind d = Object_lineage \<and>
      c_object c = c_object d \<longrightarrow> c = d"
    and "\<forall>(obj, c) \<in> set m. c_object c = obj"
    and "\<forall>(obj, c) \<in> set m. \<forall>d \<in> set cs. c_kind d = Object_lineage \<and> c_object d = obj \<longrightarrow> c = d"
  shows "snd ` set (fold (\<lambda>c m. if c_kind c = Object_lineage then jm_set (c_object c) c m else m) cs m) =
    snd ` set m \<union> {c \<in> set cs. c_kind c = Object_lineage}"
  using assms
proof (induction cs arbitrary: m)
  case (Cons c cs)
  let ?m = "if c_kind c = Object_lineage then jm_set (c_object c) c m else m"
  have "snd ` set (fold (\<lambda>c m. if c_kind c = Object_lineage then jm_set (c_object c) c m else m) cs ?m) =
      snd ` set ?m \<union> {c \<in> set cs. c_kind c = Object_lineage}"
    using Cons.prems by (intro Cons.IH) (auto simp: set_jm_set)
  moreover have "snd ` set ?m = snd ` set m \<union> {d. d = c \<and> c_kind c = Object_lineage}"
  proof (cases "c_kind c = Object_lineage")
    case True
    then have "snd p = c" if "p \<in> set m" "fst p = c_object c" for p
      using Cons.prems(4) that by (cases p) auto
    then have "insert c (snd ` {p \<in> set m. fst p \<noteq> c_object c}) = insert c (snd ` set m)" by auto
    with True Cons.prems(1) show ?thesis by (simp add: set_jm_set)
  qed simp
  ultimately show ?case by auto
qed simp

lemma set_lineageByObject:
  assumes "keyed (set cs)"
  shows "set (jm_values (lineageByObject cs)) = {c \<in> set cs. c_kind c = Object_lineage}"
proof -
  have "c = d" if "c \<in> set cs" "d \<in> set cs" "c_kind c = Object_lineage" "c_kind d = Object_lineage"
    "c_object c = c_object d" for c d
    using assms that wf_cell_object_key [of c] wf_cell_object_key [of d] unfolding keyed_def by auto
  then show ?thesis
    unfolding lineageByObject_def by (simp, subst lineageByObject_fold) auto
qed

text \<open>
  \<open>lineageClosureKeys\<close> collects the lineage keys a transfer must satisfy; it fails on exactly the
  lineage cells whose parent is not a string.
\<close>

definition required_lineage :: "cell list \<Rightarrow> string set" where
  "required_lineage cs =
     {cellKey Object_lineage (c_object c) None | c. c \<in> set cs \<and> cellRequiresLineageClosure (c_kind c)} \<union>
     {cellKey Object_lineage p None | c p. c \<in> set cs \<and> c_kind c = Object_lineage \<and> parentOfLineage c = Inr (Some p)}"

lemma required_lineage_subset:
  "required_lineage cs \<subseteq> known \<longleftrightarrow>
     (\<forall>c \<in> set cs. cellRequiresLineageClosure (c_kind c) \<longrightarrow> cellKey Object_lineage (c_object c) None \<in> known) \<and>
     (\<forall>c \<in> set cs. c_kind c = Object_lineage \<longrightarrow>
        (\<forall>q. parentOfLineage c = Inr (Some q) \<longrightarrow> cellKey Object_lineage q None \<in> known))"
  unfolding required_lineage_def by blast

lemma lineage_requires [simp]: "cellRequiresLineageClosure Object_lineage"
  by (simp add: cellRequiresLineageClosure_def)

lemma lineageClosureKeys_spec:
  "(\<forall>ks. lineageClosureKeys cs acc = Inr ks \<longrightarrow> set ks = set acc \<union> required_lineage cs) \<and>
   ((\<exists>ks. lineageClosureKeys cs acc = Inr ks) \<longleftrightarrow>
      (\<forall>c \<in> set cs. c_kind c = Object_lineage \<longrightarrow> (\<exists>p. parentOfLineage c = Inr p)))"
proof (induction cs arbitrary: acc)
  case (Cons c cs)
  have "required_lineage (c # cs) = required_lineage [c] \<union> required_lineage cs"
    by (auto simp: required_lineage_def)
  moreover have "required_lineage [c] =
      (if cellRequiresLineageClosure (c_kind c) then {cellKey Object_lineage (c_object c) None} else {}) \<union>
      {cellKey Object_lineage p None | p. c_kind c = Object_lineage \<and> parentOfLineage c = Inr (Some p)}"
    by (auto simp: required_lineage_def)
  ultimately show ?case
    using Cons.IH by (auto simp: Let_def split: sum.splits option.splits)
qed (simp add: required_lineage_def)

text \<open>
  C30: cells leave a store only lineage-closed. For cells of one store (distinct canonical keys),
  serialization succeeds exactly when the closure walk succeeds and every lineage key it names
  is either shipped or already known to the receiver.
\<close>

theorem serializeTransfer_closed:
  assumes "keyed (set cs)"
  shows "(\<exists>t. serializeTransfer cs known = Inr t) \<longleftrightarrow>
    (\<exists>ks. lineageClosureKeys cs [] = Inr ks \<and> set ks \<subseteq> set (map c_key cs) \<union> set known)"
proof -
  let ?K = "set (map c_key cs) \<union> set known"
  have "(\<exists>t. serializeTransfer cs known = Inr t) \<longleftrightarrow>
      (\<forall>c \<in> set cs. cellRequiresLineageClosure (c_kind c) \<longrightarrow> cellKey Object_lineage (c_object c) None \<in> ?K) \<and>
      (\<forall>c \<in> set cs. c_kind c = Object_lineage \<longrightarrow>
         (\<exists>p. parentOfLineage c = Inr p \<and> (\<forall>q. p = Some q \<longrightarrow> cellKey Object_lineage q None \<in> ?K)))"
    using check_objects_None [of "map c_object (filter (\<lambda>c. cellRequiresLineageClosure (c_kind c)) cs)" "\<lambda>k. k \<in> ?K"]
      check_parents_None [of "jm_values (lineageByObject cs)" "\<lambda>k. k \<in> ?K"]
    unfolding set_lineageByObject [OF assms] serializeTransfer_def Let_def
    by (auto split: option.splits)
  also have "\<dots> \<longleftrightarrow> (\<forall>c \<in> set cs. c_kind c = Object_lineage \<longrightarrow> (\<exists>p. parentOfLineage c = Inr p)) \<and> required_lineage cs \<subseteq> ?K"
  proof -
    have "(\<exists>p. parentOfLineage c = Inr p \<and> (\<forall>q. p = Some q \<longrightarrow> A q)) \<longleftrightarrow>
        (\<exists>p. parentOfLineage c = Inr p) \<and> (\<forall>q. parentOfLineage c = Inr (Some q) \<longrightarrow> A q)" for c A
      by (cases "parentOfLineage c") auto
    then show ?thesis unfolding required_lineage_subset by auto
  qed
  also have "\<dots> \<longleftrightarrow> (\<exists>ks. lineageClosureKeys cs [] = Inr ks \<and> set ks \<subseteq> ?K)"
    using lineageClosureKeys_spec [of cs "[]"] by auto
  finally show ?thesis .
qed

theorem serializeTransfer_closed_witness:
  "(\<exists>t. serializeTransfer [demo_live ''lamp'' ''hall''] [''object_lineage:lamp''] = Inr t) \<and>
   (\<nexists>t. serializeTransfer [demo_live ''lamp'' ''hall''] [] = Inr t)"
proof -
  have "keyed (set [demo_live ''lamp'' ''hall''])" by (simp add: keyed_def wf_demo_live)
  note closed = serializeTransfer_closed [OF this]
  have "lineageClosureKeys [demo_live ''lamp'' ''hall''] [] = Inr [''object_lineage:lamp'']"
    by (simp add: demo_live_def cellRequiresLineageClosure_def js_add_def cellKey_def)
  then show ?thesis unfolding closed by (simp add: demo_live_def)
qed

section \<open>Content addresses\<close>

text \<open>Two values that differ only in the order of object properties, at any depth.\<close>

inductive same_json :: "json \<Rightarrow> json \<Rightarrow> bool" where
  same_refl: "same_json v v"
| same_arr: "list_all2 same_json xs ys \<Longrightarrow> same_json (JArr xs) (JArr ys)"
| same_obj: "list_all2 (\<lambda>p q. fst p = fst q \<and> same_json (snd p) (snd q)) kvs mid \<Longrightarrow>
    mset mid = mset kvs' \<Longrightarrow> distinct (map fst kvs) \<Longrightarrow> same_json (JObj kvs) (JObj kvs')"

lemma sort_key_fst_cong:
  assumes "mset xs = mset ys" "distinct (map fst xs)"
  shows "sort_key fst xs = sort_key fst (ys :: (string \<times> 'v) list)"
proof (rule map_sorted_distinct_set_unique [where f = fst])
  have "distinct (map fst ys)" using assms by (metis mset_eq_imp_distinct_iff mset_map)
  then show "distinct (map fst (sort_key fst ys))"
    by (metis mset_eq_imp_distinct_iff mset_map mset_sort)
  show "distinct (map fst (sort_key fst xs))"
    using assms(2) by (metis mset_eq_imp_distinct_iff mset_map mset_sort)
  show "inj_on fst (set (sort_key fst xs) \<union> set (sort_key fst ys))"
    using assms by (metis Un_absorb distinct_map set_mset_mset set_sort)
  show "set (sort_key fst xs) = set (sort_key fst ys)"
    using assms(1) by (metis set_mset_mset set_sort)
qed simp_all

lemma sort_key_map_fst:
  assumes "\<And>p. fst (h p) = fst p"
  shows "map h (sort_key fst xs) = sort_key fst (map h (xs :: (string \<times> 'v) list))"
proof -
  have ins: "map h (insort_key fst x ys) = insort_key fst (h x) (map h ys)" for x ys
    by (induction ys) (simp_all add: assms)
  show ?thesis by (induction xs) (simp_all add: ins)
qed

lemma sortKeys_obj:
  "sortKeys (JObj kvs) = JObj (own_key_order (sort_key fst (map (\<lambda>(k, v). (k, sortKeys v)) kvs)))"
  by (simp add: sort_key_map_fst split_beta)

declare sortKeys.simps(2) [simp del]

lemma same_json_sortKeys: "same_json v w \<Longrightarrow> sortKeys v = sortKeys w"
proof (induction rule: same_json.induct)
  case (same_arr xs ys)
  then show ?case by (auto simp: list_all2_conv_all_nth intro: nth_equalityI)
next
  case (same_obj kvs mid kvs')
  let ?f = "\<lambda>(k, v). (k, sortKeys v)"
  have "map ?f kvs = map ?f mid"
    using same_obj(1) by (auto simp: list_all2_conv_all_nth split_beta intro!: nth_equalityI)
  then have "mset (map ?f kvs) = mset (map ?f kvs')" using same_obj(2) by (metis mset_map)
  moreover have "distinct (map fst (map ?f kvs))" using same_obj(3) by (simp add: comp_def split_beta)
  ultimately show ?case unfolding sortKeys_obj by (metis sort_key_fst_cong)
qed simp

text \<open>
  The content address of a value does not depend on the order in which its properties were
  written, at any depth, so two hosts that build the same value name the same version.
\<close>

theorem cellVersion_key_order:
  assumes "same_json v w"
  shows "canonicalJson v = canonicalJson w \<and> cellVersion v = cellVersion w"
  using same_json_sortKeys [OF assms] by (simp add: canonicalJson_def cellVersion_def)

theorem cellVersion_key_order_witness:
  "cellVersion (JObj [(''b'', JNum 1), (''a'', JArr [JObj [(''y'', JNull), (''x'', JNull)]])]) =
   cellVersion (JObj [(''a'', JArr [JObj [(''x'', JNull), (''y'', JNull)]]), (''b'', JNum 1)])"
proof -
  have "same_json (JObj [(''y'', JNull), (''x'', JNull)]) (JObj [(''x'', JNull), (''y'', JNull)])"
    by (rule same_obj [where mid = "[(''y'', JNull), (''x'', JNull)]"]) (auto intro: same_refl)
  then have "same_json (JArr [JObj [(''y'', JNull), (''x'', JNull)]]) (JArr [JObj [(''x'', JNull), (''y'', JNull)]])"
    by (intro same_arr) simp
  then have "same_json (JObj [(''b'', JNum 1), (''a'', JArr [JObj [(''y'', JNull), (''x'', JNull)]])])
      (JObj [(''a'', JArr [JObj [(''x'', JNull), (''y'', JNull)]]), (''b'', JNum 1)])"
    by (intro same_obj [where mid = "[(''b'', JNum 1), (''a'', JArr [JObj [(''x'', JNull), (''y'', JNull)]])]"])
       (auto intro: same_refl)
  then show ?thesis using cellVersion_key_order by blast
qed

end
