(* ===== verification/Ordered_Edges.thy ===== *)
theory Ordered_Edges
  imports Fractional_Rank Cells
begin

text \<open>
  Ordered edges (\<open>src/core/ordered-edge.ts\<close>, \<open>src/net/ordered-edges.ts\<close>): the owner-side
  ordering of a parent's children, its content version, the bounded neighbour query a mutation
  reads, and the merge of local edges with projected rows of foreign children. The theorems tie
  the write-time sorted index of the store to the reference scan, and the neighbour query to
  the rank scheme.
\<close>

definition ORDERED_EDGE_RELATION :: string where
  "ORDERED_EDGE_RELATION = ''ordered_edge''"

definition orderedEdgeCellKey :: "string \<Rightarrow> string" where
  "orderedEdgeCellKey child = cellKey Property_cell child (Some ORDERED_EDGE_PROP)"

definition orderedEdgeFromPropertyValue :: "json option \<Rightarrow> (string option \<times> string) option" where
  "orderedEdgeFromPropertyValue raw = (if \<not> is_jobj raw then None else edge_of_value raw)"

definition readOrderedEdge :: "json option \<Rightarrow> (string option \<times> string) option" where
  "readOrderedEdge cellValue = edge_of_value (jprop cellValue ''value'')"

text \<open>One step of the scan: the row a cell contributes to the ordering of \<open>parent\<close>.\<close>

definition ordered_row_of :: "string option \<Rightarrow> cell \<Rightarrow> ordered_row option" where
  "ordered_row_of parent c =
     (if c_kind c \<noteq> Property_cell \<or> c_name c \<noteq> Some ORDERED_EDGE_PROP then None
      else case readOrderedEdge (Some (c_value c)) of
             None \<Rightarrow> None
           | Some edge \<Rightarrow> if fst edge \<noteq> parent then None
                          else Some \<lparr>or_child = c_object c, or_rank = snd edge\<rparr>)"

definition orderedChildrenRows :: "cell list \<Rightarrow> string option \<Rightarrow> ordered_row list" where
  "orderedChildrenRows cells parent = sort_key row_key (List.map_filter (ordered_row_of parent) cells)"

definition row_json :: "ordered_row \<Rightarrow> json" where
  "row_json r = JObj [(''child'', JStr (or_child r)), (''rank'', JStr (or_rank r))]"

definition orderedChildrenVersion :: "ordered_row list \<Rightarrow> string" where
  "orderedChildrenVersion rows = cellVersion (JArr (map row_json rows))"

text \<open>The linear merge of two row lists.\<close>

fun merge_rows :: "ordered_row list \<Rightarrow> ordered_row list \<Rightarrow> ordered_row list" where
  "merge_rows local [] = local"
| "merge_rows [] projected = projected"
| "merge_rows (a # local) (b # projected) =
     (if or_rank a < or_rank b \<or> (or_rank a = or_rank b \<and> or_child a < or_child b)
      then a # merge_rows local (b # projected)
      else b # merge_rows (a # local) projected)"

definition orderedChildrenForContainer ::
  "cell_store \<Rightarrow> ordered_row list \<Rightarrow> string \<Rightarrow> string option \<Rightarrow> ordered_row list" where
  "orderedChildrenForContainer s projected container parent =
     (let projectedIds = map or_child projected;
          local = filter (\<lambda>row.
              jprop (map_option c_value (store_get s (cellKey Object_live (or_child row) None))) ''location''
                = Some (JStr container) \<and> or_child row \<notin> set projectedIds)
            (orderedEdgeChildren s parent)
      in merge_rows local projected)"

text \<open>Query identities. \<open>["a", "b"].join("\0")\<close> is \<^const>\<open>join_with\<close> on a NUL separator.\<close>

record neighbors_query =
  nq_parent :: "string option"
  nq_index :: "int option"
  nq_exclude :: "string option"
  nq_child :: "string option"

record neighbors_value =
  nv_count :: nat
  nv_index :: nat
  nv_before :: "string option"
  nv_after :: "string option"
  nv_child_index :: "nat option"

definition orderedProjectionKey :: "string \<Rightarrow> string option \<Rightarrow> string" where
  "orderedProjectionKey container parent = container @ [CHR 0x00] @ edgeParentKey parent"

definition orderedNeighborsQueryKey :: "string \<Rightarrow> neighbors_query \<Rightarrow> string" where
  "orderedNeighborsQueryKey container q = join_with [CHR 0x00]
     [container, edgeParentKey (nq_parent q),
      (case nq_index q of None \<Rightarrow> ''append'' | Some i \<Rightarrow> show_int i),
      (case nq_exclude q of None \<Rightarrow> [] | Some x \<Rightarrow> x),
      (case nq_child q of None \<Rightarrow> [] | Some x \<Rightarrow> x)]"

fun find_index :: "('a \<Rightarrow> bool) \<Rightarrow> 'a list \<Rightarrow> nat option" where
  "find_index P [] = None"
| "find_index P (x # xs) = (if P x then Some 0 else map_option Suc (find_index P xs))"

text \<open>The clamped insertion slot: a missing index appends.\<close>

definition clamp_index :: "int option \<Rightarrow> nat \<Rightarrow> nat" where
  "clamp_index i sibs = (case i of None \<Rightarrow> sibs
     | Some n \<Rightarrow> if n < 0 then 0 else if n > int sibs then sibs else nat n)"

definition orderedNeighborsFromRows :: "ordered_row list \<Rightarrow> neighbors_query \<Rightarrow> neighbors_value" where
  "orderedNeighborsFromRows rows q =
     (let child_index = (case nq_child q of None \<Rightarrow> None
            | Some ch \<Rightarrow> find_index (\<lambda>row. or_child row = ch) rows);
          filtered = (case nq_exclude q of None \<Rightarrow> rows
            | Some x \<Rightarrow> filter (\<lambda>row. or_child row \<noteq> x) rows);
          sibs = length filtered;
          index = clamp_index (nq_index q) sibs
      in \<lparr>nv_count = sibs, nv_index = index,
          nv_before = (if 0 < index then Some (or_rank (filtered ! (index - 1))) else None),
          nv_after = (if index < sibs then Some (or_rank (filtered ! index)) else None),
          nv_child_index = child_index\<rparr>)"

section \<open>The index is the scan\<close>

lemma map_filter_None: "List.map_filter f (x # xs) = (case f x of None \<Rightarrow> List.map_filter f xs | Some y \<Rightarrow> y # List.map_filter f xs)"
  by (simp add: List.map_filter_def split: option.splits)

lemma set_map_filter: "set (List.map_filter f xs) = {y. \<exists>x \<in> set xs. f x = Some y}"
  by (induction xs) (auto simp: map_filter_None List.map_filter_def split: option.splits)

lemma ordered_row_of_iff:
  "ordered_row_of parent c = Some r \<longleftrightarrow> orderedEdgeOf c = Some (parent, or_rank r) \<and> or_child r = c_object c"
  by (cases r) (auto simp: ordered_row_of_def orderedEdgeOf_def readOrderedEdge_def split: option.splits)

lemma set_orderedChildrenRows:
  "set (orderedChildrenRows cells parent) =
     {r. \<exists>c \<in> set cells. orderedEdgeOf c = Some (parent, or_rank r) \<and> or_child r = c_object c}"
  unfolding orderedChildrenRows_def set_sort set_map_filter ordered_row_of_iff ..

lemma edge_rows_iff:
  "r \<in> edge_rows cs k \<longleftrightarrow>
     (\<exists>c \<in> cs. \<exists>p. orderedEdgeOf c = Some (p, or_rank r) \<and> or_child r = c_object c \<and> edgeParentKey p = k)"
  unfolding edge_rows_def by (cases r) auto

lemma distinct_map_filter:
  assumes "distinct xs" "\<And>x y z. x \<in> set xs \<Longrightarrow> y \<in> set xs \<Longrightarrow> f x = Some z \<Longrightarrow> f y = Some z \<Longrightarrow> x = y"
  shows "distinct (List.map_filter f xs)"
  using assms unfolding List.map_filter_def by (auto simp: distinct_map inj_on_def)

lemma sort_row_key_sorted:
  assumes "distinct rows" shows "sorted_wrt row_less (sort_key row_key rows)"
proof -
  have "inj_on row_key (set rows)" by (simp add: inj_on_def)
  then have "distinct (map row_key (sort_key row_key rows))" using assms by (simp add: distinct_map)
  then show ?thesis by (simp add: row_less_sorted strict_sorted_iff)
qed

lemma distinct_allCells:
  assumes "store_ok s" shows "distinct (allCells s)"
  using distinct_allCells_keys [OF assms] by (simp add: distinct_map)

lemma orderedChildrenRows_sorted:
  assumes "keyed (set cells)" "distinct cells"
  shows "sorted_wrt row_less (orderedChildrenRows cells parent)"
proof -
  have "c = d" if "c \<in> set cells" "d \<in> set cells" "ordered_row_of parent c = Some z" "ordered_row_of parent d = Some z" for c d z
  proof -
    have "c_key c = c_key d"
      using that assms(1) orderedEdge_key unfolding ordered_row_of_iff keyed_def by metis
    then show ?thesis using that(1,2) assms(1) unfolding keyed_def by blast
  qed
  then have "distinct (List.map_filter (ordered_row_of parent) cells)" by (intro distinct_map_filter assms(2))
  then show ?thesis unfolding orderedChildrenRows_def by (rule sort_row_key_sorted)
qed

text \<open>No object of the store carries the name the index reserves for the root bucket.\<close>

definition no_root_alias :: "cell_store \<Rightarrow> bool" where
  "no_root_alias s \<longleftrightarrow> (\<forall>c \<in> set (allCells s). \<forall>rank. orderedEdgeOf c \<noteq> Some (Some root_key, rank))"

lemma edge_rows_parent:
  assumes "no_root_alias s" "parent \<noteq> Some root_key"
  shows "edge_rows (set (allCells s)) (edgeParentKey parent) = set (orderedChildrenRows (allCells s) parent)"
proof -
  have "edgeParentKey p = edgeParentKey parent \<longleftrightarrow> p = parent" if "p \<noteq> Some root_key" for p
    using that assms(2) by (auto simp: edgeParentKey_def split: option.splits)
  then have "r \<in> edge_rows (set (allCells s)) (edgeParentKey parent) \<longleftrightarrow> r \<in> set (orderedChildrenRows (allCells s) parent)" for r
    using assms(1) unfolding edge_rows_iff set_orderedChildrenRows no_root_alias_def mem_Collect_eq by metis
  then show ?thesis by blast
qed

lemma orderedEdgeChildren_eq_scan:
  assumes "store_ok s" "no_root_alias s" "parent \<noteq> Some root_key"
  shows "orderedEdgeChildren s parent = orderedChildrenRows (allCells s) parent"
proof (rule row_sorted_unique)
  have ix: "edge_ok (edgeChildrenByParent s) (set (allCells s))"
    using assms(1) by (simp add: store_ok_def indexes_ok_def)
  then show "sorted_wrt row_less (orderedEdgeChildren s parent)"
    by (simp add: edge_ok_def orderedEdgeChildren_def)
  have "keyed (set (allCells s))"
    using assms(1) by (simp add: store_ok_def set_allCells cells_ok_keyed)
  then show "sorted_wrt row_less (orderedChildrenRows (allCells s) parent)"
    using orderedChildrenRows_sorted distinct_allCells [OF assms(1)] by blast
  show "set (orderedEdgeChildren s parent) = set (orderedChildrenRows (allCells s) parent)"
    using ix edge_rows_parent [OF assms(2,3)] by (simp add: edge_ok_def orderedEdgeChildren_def)
qed

text \<open>
  In a reachable store the write-time sorted edge index of a parent is, element for element,
  the reference ordering that scans every cell and sorts by rank and child, provided no
  parent is literally named like the index's root sentinel.
\<close>

theorem orderedEdgeChildren_scan:
  assumes "store_reach s" "no_root_alias s" "parent \<noteq> Some root_key"
  shows "orderedEdgeChildren s parent = orderedChildrenRows (allCells s) parent"
  using orderedEdgeChildren_eq_scan store_reach_ok [OF assms(1)] assms(2,3) by blast

definition demo_edge :: "string \<Rightarrow> string \<Rightarrow> cell" where
  "demo_edge child rank = \<lparr>c_key = ''property_cell:'' @ child @ '':__ordered_edge'', c_kind = Property_cell,
     c_object = child, c_name = Some ''__ordered_edge'',
     c_value = JObj [(''value'', JObj [(''parent'', JNull), (''rank'', JStr rank)])],
     c_version = ''v'', c_provenance = Derived, c_stamp = demo_stamp\<rparr>"

definition demo_tree :: cell_store where
  "demo_tree = setCell (demo_edge ''b'' ''C'') (setCell (demo_edge ''a'' ''V'') (setCell (demo_edge ''b'' ''k'') (newStore Derived_copy)))"

lemma demo_edge_install:
  assumes "store_reach s" "st_role s = Derived_copy" shows "store_reach (setCell (demo_edge ch r) s)"
proof (rule reach_install [OF assms(1)])
  show "wf_cell (demo_edge ch r)" by (simp add: demo_edge_def wf_cell_def cellKey_def)
  show "store_install (demo_edge ch r) s = Inr (setCell (demo_edge ch r) s)"
    using assms(2) by (simp add: store_install_Inr demo_edge_def)
qed

lemma demo_tree_reach: "store_reach demo_tree"
  unfolding demo_tree_def by (intro demo_edge_install reach_new) simp_all

lemma demo_tree_cells: "allCells demo_tree = [demo_edge ''b'' ''C'', demo_edge ''a'' ''V'']"
  by (simp add: demo_tree_def demo_edge_def allCells_def)

lemma demo_edge_edge: "orderedEdgeOf (demo_edge ch r) = (if r = [] then None else Some (None, r))"
  by (simp add: orderedEdgeOf_def demo_edge_def edge_of_value_def ORDERED_EDGE_PROP_def)

theorem orderedEdgeChildren_scan_witness:
  "map or_child (orderedEdgeChildren demo_tree None) = [''b'', ''a'']"
proof -
  have "orderedEdgeChildren demo_tree None = orderedChildrenRows (allCells demo_tree) None"
    by (rule orderedEdgeChildren_scan [OF demo_tree_reach])
       (simp_all add: no_root_alias_def demo_tree_cells demo_edge_edge)
  also have "\<dots> = [\<lparr>or_child = ''b'', or_rank = ''C''\<rparr>, \<lparr>or_child = ''a'', or_rank = ''V''\<rparr>]"
    by (simp add: orderedChildrenRows_def demo_tree_cells demo_edge_def ORDERED_EDGE_PROP_def
        ordered_row_of_def readOrderedEdge_def edge_of_value_def List.map_filter_def row_key_def less_eq_prod_def)
  finally show ?thesis by simp
qed

section \<open>The container merge\<close>

lemma distinct_map_filtered: "distinct (map f xs) \<Longrightarrow> distinct (map f (filter P xs))"
  by (auto simp: distinct_map inj_on_def)

lemma set_merge_rows [simp]: "set (merge_rows xs ys) = set xs \<union> set ys"
  by (induction xs ys rule: merge_rows.induct) auto

lemma mset_merge_rows: "mset (merge_rows xs ys) = mset xs + mset ys"
  by (induction xs ys rule: merge_rows.induct) auto

lemma merge_rows_sorted:
  assumes "sorted_wrt row_less xs" "sorted_wrt row_less ys" "set xs \<inter> set ys = {}"
  shows "sorted_wrt row_less (merge_rows xs ys)"
  using assms
proof (induction xs ys rule: merge_rows.induct)
  case (3 a xs b ys)
  have trans: "row_less p r" if "row_less p q" "row_less q r" for p q r
    using that by (auto simp: row_less_key)
  have cmp: "(or_rank a < or_rank b \<or> or_rank a = or_rank b \<and> or_child a < or_child b) \<longleftrightarrow> row_less a b"
    by (simp add: row_less_def row_before_def)
  show ?case
  proof (cases "row_less a b")
    case True
    with 3 cmp show ?thesis by (auto intro: trans)
  next
    case False
    have "a \<noteq> b" using "3.prems"(3) by auto
    with False have "row_less b a" by (metis linorder_less_linear row_key_inject row_less_key)
    with False 3 cmp show ?thesis by (auto intro: trans)
  qed
qed auto

lemma edge_bucket_children_distinct:
  assumes "store_ok s" shows "distinct (map or_child (orderedEdgeChildren s parent))"
proof -
  have ix: "edge_ok (edgeChildrenByParent s) (set (allCells s))" and kd: "keyed (set (allCells s))"
    using assms by (simp_all add: store_ok_def indexes_ok_def set_allCells cells_ok_keyed)
  have "distinct (orderedEdgeChildren s parent)"
    using ix row_sorted_distinct by (auto simp: edge_ok_def orderedEdgeChildren_def)
  moreover have "inj_on or_child (set (orderedEdgeChildren s parent))"
  proof (rule inj_onI)
    fix x y assume xy: "x \<in> set (orderedEdgeChildren s parent)" "y \<in> set (orderedEdgeChildren s parent)" "or_child x = or_child y"
    then have "x \<in> edge_rows (set (allCells s)) (edgeParentKey parent)" "y \<in> edge_rows (set (allCells s)) (edgeParentKey parent)"
      using ix by (simp_all add: edge_ok_def orderedEdgeChildren_def)
    then obtain c d p q where "c \<in> set (allCells s)" "orderedEdgeOf c = Some (p, or_rank x)" "or_child x = c_object c"
      "d \<in> set (allCells s)" "orderedEdgeOf d = Some (q, or_rank y)" "or_child y = c_object d"
      unfolding edge_rows_iff by blast
    moreover from calculation xy(3) have "c = d"
      using kd orderedEdge_key unfolding keyed_def by metis
    ultimately show "x = y" using xy(3) by (simp add: ordered_row.equality)
  qed
  ultimately show ?thesis by (simp add: distinct_map)
qed

text \<open>
  The ordering of one container merges, in rank order and without a duplicate child, the
  projected rows with exactly those local edges of the parent whose live cell places the child
  in the container and that no projected row overrides.
\<close>

theorem orderedChildrenForContainer_merge:
  assumes "store_reach s" "sorted_wrt row_less projected" "distinct (map or_child projected)"
  shows "sorted_wrt row_less (orderedChildrenForContainer s projected container parent) \<and>
    distinct (map or_child (orderedChildrenForContainer s projected container parent)) \<and>
    set (orderedChildrenForContainer s projected container parent) = set projected \<union>
      {r \<in> set (orderedEdgeChildren s parent). or_child r \<notin> or_child ` set projected \<and>
        jprop (map_option c_value (store_get s (cellKey Object_live (or_child r) None))) ''location'' = Some (JStr container)}"
proof -
  define loc where "loc = filter (\<lambda>row.
      jprop (map_option c_value (store_get s (cellKey Object_live (or_child row) None))) ''location''
        = Some (JStr container) \<and> or_child row \<notin> set (map or_child projected)) (orderedEdgeChildren s parent)"
  have eq: "orderedChildrenForContainer s projected container parent = merge_rows loc projected"
    by (simp add: orderedChildrenForContainer_def loc_def Let_def)
  have ok: "store_ok s" using store_reach_ok [OF assms(1)] by simp
  have "sorted_wrt row_less (orderedEdgeChildren s parent)"
    using ok by (simp add: store_ok_def indexes_ok_def edge_ok_def orderedEdgeChildren_def)
  then have srt: "sorted_wrt row_less loc" unfolding loc_def by (rule sorted_wrt_filter)
  have disj: "or_child ` set loc \<inter> or_child ` set projected = {}" by (auto simp: loc_def)
  then have "set loc \<inter> set projected = {}" by blast
  then have 1: "sorted_wrt row_less (merge_rows loc projected)"
    using merge_rows_sorted srt assms(2) by blast
  have "distinct (map or_child loc)"
    unfolding loc_def using edge_bucket_children_distinct [OF ok] by (rule distinct_map_filtered)
  with disj assms(3) have "distinct (map or_child (loc @ projected))" by simp
  then have 2: "distinct (map or_child (merge_rows loc projected))"
    by (metis mset_append mset_eq_imp_distinct_iff mset_map mset_merge_rows)
  show ?thesis unfolding eq using 1 2 by (auto simp: loc_def)
qed

theorem orderedChildrenForContainer_merge_witness:
  "set (orderedChildrenForContainer demo_tree [\<lparr>or_child = ''z'', or_rank = ''D''\<rparr>] ''hall'' None) = {\<lparr>or_child = ''z'', or_rank = ''D''\<rparr>}"
proof -
  have get: "store_get demo_tree (cellKey Object_live (or_child r) None) = None" for r
    by (simp add: demo_tree_def demo_edge_def cellKey_def)
  have "set (orderedChildrenForContainer demo_tree [\<lparr>or_child = ''z'', or_rank = ''D''\<rparr>] ''hall'' None) =
      set [\<lparr>or_child = ''z'', or_rank = ''D''\<rparr>] \<union>
      {r \<in> set (orderedEdgeChildren demo_tree None). or_child r \<notin> or_child ` set [\<lparr>or_child = ''z'', or_rank = ''D''\<rparr>] \<and>
        jprop (map_option c_value (store_get demo_tree (cellKey Object_live (or_child r) None))) ''location'' = Some (JStr ''hall'')}"
    using orderedChildrenForContainer_merge [OF demo_tree_reach, of "[\<lparr>or_child = ''z'', or_rank = ''D''\<rparr>]" "''hall''" None]
    by simp
  then show ?thesis by (simp add: get)
qed

section \<open>The neighbour query\<close>

definition excluded_rows :: "ordered_row list \<Rightarrow> neighbors_query \<Rightarrow> ordered_row list" where
  "excluded_rows rows q = (case nq_exclude q of None \<Rightarrow> rows | Some x \<Rightarrow> filter (\<lambda>row. or_child row \<noteq> x) rows)"

lemma clamp_index_le: "clamp_index i n \<le> n"
  by (auto simp: clamp_index_def split: option.splits)

lemma neighbors_unfold:
  "nv_count (orderedNeighborsFromRows rows q) = length (excluded_rows rows q)"
  "nv_index (orderedNeighborsFromRows rows q) = clamp_index (nq_index q) (length (excluded_rows rows q))"
  "nv_before (orderedNeighborsFromRows rows q) =
     (let xs = map or_rank (excluded_rows rows q); i = nv_index (orderedNeighborsFromRows rows q)
      in if 0 < i then Some (xs ! (i - 1)) else None)"
  "nv_after (orderedNeighborsFromRows rows q) =
     (let xs = map or_rank (excluded_rows rows q); i = nv_index (orderedNeighborsFromRows rows q)
      in if i < length xs then Some (xs ! i) else None)"
proof -
  have "clamp_index (nq_index q) (length (excluded_rows rows q)) \<le> length (excluded_rows rows q)"
    by (rule clamp_index_le)
  then show "nv_count (orderedNeighborsFromRows rows q) = length (excluded_rows rows q)"
  "nv_index (orderedNeighborsFromRows rows q) = clamp_index (nq_index q) (length (excluded_rows rows q))"
  "nv_before (orderedNeighborsFromRows rows q) =
     (let xs = map or_rank (excluded_rows rows q); i = nv_index (orderedNeighborsFromRows rows q)
      in if 0 < i then Some (xs ! (i - 1)) else None)"
  "nv_after (orderedNeighborsFromRows rows q) =
     (let xs = map or_rank (excluded_rows rows q); i = nv_index (orderedNeighborsFromRows rows q)
      in if i < length xs then Some (xs ! i) else None)"
    by (simp_all add: orderedNeighborsFromRows_def excluded_rows_def [symmetric] Let_def)
qed

text \<open>
  The neighbour query answers an insertion. On siblings with valid, strictly increasing
  ranks, the two ranks it returns admit a rank between them, and inserting a row with that rank
  at the returned slot of the siblings (without the excluded child) keeps the ranks strictly
  increasing and valid; the slot never exceeds the sibling count, whatever index was asked.
\<close>

theorem orderedNeighbors_insert:
  assumes "sorted_wrt (<) (map or_rank rows)" "\<forall>r \<in> set rows. isValidRank (or_rank r)"
  shows "nv_index (orderedNeighborsFromRows rows q) \<le> nv_count (orderedNeighborsFromRows rows q) \<and>
    (\<exists>r. rankBetween (nv_before (orderedNeighborsFromRows rows q)) (nv_after (orderedNeighborsFromRows rows q)) = Inr r \<and>
      isValidRank r \<and>
      sorted_wrt (<) (map or_rank (splice_in (nv_index (orderedNeighborsFromRows rows q))
        \<lparr>or_child = ch, or_rank = r\<rparr> (excluded_rows rows q))))"
proof -
  let ?xs = "map or_rank (excluded_rows rows q)" and ?i = "nv_index (orderedNeighborsFromRows rows q)"
  have "sorted_wrt (<) ?xs" using assms(1) by (auto simp: excluded_rows_def sorted_wrt_map sorted_wrt_filter split: option.splits)
  moreover have "\<forall>x \<in> set ?xs. isValidRank x"
    using assms(2) by (auto simp: excluded_rows_def split: option.splits)
  moreover have "?i \<le> length ?xs" by (simp add: neighbors_unfold clamp_index_le)
  ultimately obtain r where "rankBetween (nv_before (orderedNeighborsFromRows rows q)) (nv_after (orderedNeighborsFromRows rows q)) = Inr r"
    "isValidRank r" "sorted_wrt (<) (take ?i ?xs @ r # drop ?i ?xs)"
    using frac.slot_insert_sorted [of ?xs ?i] unfolding neighbors_unfold(3,4) Let_def by blast
  then show ?thesis
    by (auto simp: splice_in_def take_map drop_map neighbors_unfold(1,2) clamp_index_le)
qed

theorem orderedNeighbors_insert_witness:
  "\<exists>r. rankBetween (Some ''V'') None = Inr r \<and> isValidRank r \<and> ''V'' < r"
  using orderedNeighbors_insert [of "[\<lparr>or_child = ''a'', or_rank = ''C''\<rparr>, \<lparr>or_child = ''b'', or_rank = ''V''\<rparr>]"
      "\<lparr>nq_parent = None, nq_index = Some 9, nq_exclude = Some ''a'', nq_child = Some ''a''\<rparr>" "''a''"]
  by (simp add: isValidRank_def digitOf_def RANK_DIGITS_def ZERO_def less_char_def
      orderedNeighborsFromRows_def excluded_rows_def clamp_index_def splice_in_def)

end
