(* ===== verification/Transcript.thy ===== *)
theory Transcript
  imports Ordered_Edges
begin

text \<open>
  Effect transcripts and their application (\<open>src/net/transcript.ts\<close>, with the transcript types of
  \<open>src/core/effect-transcript.ts\<close>, \<open>src/core/turn-recorder.ts\<close> and the write collapse of
  \<open>src/core/shadow-commit-scope.ts\<close>). A transcript is what a planner recorded while it ran a verb;
  \<open>applyTranscript\<close> replays its writes on a clone of the authority store: creates, collapsed
  writes, moves, then recycles.
\<close>

section \<open>Transcripts\<close>

datatype turn_route = Direct | Sequenced

datatype transcript_cell =
    TProp string string
  | TVerb string string
  | TLocation string
  | TContents string
  | TLifecycle string
  | TSession string

datatype write_op = Op_set | Op_create | Op_move | Op_add | Op_remove | Op_replace | Op_delete

record write_authority =
  wa_progr :: string
  wa_thisObj :: string
  wa_verb :: string
  wa_definer :: string
  wa_caller :: string
  wa_callerPerms :: string

record transcript_read =
  tr_cell :: transcript_cell
  tr_version :: "string option"
  tr_value :: json

record transcript_write =
  tw_cell :: transcript_cell
  tw_prior :: "string option"
  tw_next :: "string option"
  tw_value :: json
  tw_op :: write_op
  tw_builder_surface :: bool
  tw_writer :: "write_authority option"

record transcript_create =
  cr_object :: string
  cr_name :: string
  cr_parent :: "string option"
  cr_owner :: string
  cr_anchor :: "string option"
  cr_location :: "string option"
  cr_flags :: json
  cr_builder_surface :: bool
  cr_writer :: "write_authority option"

record transcript_move =
  mv_object :: string
  mv_from :: "string option"
  mv_to :: string
  mv_writer :: "write_authority option"

record transcript_recycle =
  rc_object :: string
  rc_final_version :: "string option"

text \<open>A policy name off the wire may be neither of the two the type admits.\<close>

datatype idle_policy = While_active | Always | Unknown_policy string

record schedule_call =
  sc_actor :: string
  sc_target :: string
  sc_verb :: string
  sc_args :: "json list"

record transcript_schedule =
  ts_id :: string
  ts_at :: int
  ts_idlePolicy :: idle_policy
  ts_call :: schedule_call
  ts_armed_by :: "write_authority option"

record transcript_cancel =
  tc_id :: string
  tc_armed_by :: "write_authority option"

record scope_transition =
  tx_session :: string
  tx_actor :: string
  tx_actorName :: "string option"
  tx_roster_hidden :: bool
  tx_from :: "string option"
  tx_to :: "string option"

record turn_call =
  tk_actor :: string
  tk_target :: string
  tk_verb :: string
  tk_verb_definer :: "string option"
  tk_verb_slot :: "int option"
  tk_args :: "json list"
  tk_body :: "json option"

record ordering_read =
  og_container :: string
  og_parent :: "string option"
  og_scope :: string
  og_version :: string

record replay_read =
  rr_space :: string
  rr_from :: int
  rr_limit :: int
  rr_scope :: string
  rr_version :: string

text \<open>
  Optional fields are options; an absent array and an empty one are the same list. The last field
  lists the own property names of the wire object that the transcript type does not declare.
\<close>

record transcript =
  t_failureEffectsGeneration :: "int option"
  t_id :: "string option"
  t_route :: turn_route
  t_scope :: string
  t_space :: "string option"
  t_seq :: int
  t_session :: "string option"
  t_call :: turn_call
  t_reads :: "transcript_read list"
  t_stateProbes :: "transcript_cell list"
  t_writes :: "transcript_write list"
  t_creates :: "transcript_create list"
  t_moves :: "transcript_move list"
  t_recycles :: "transcript_recycle list"
  t_schedules :: "transcript_schedule list"
  t_cancellations :: "transcript_cancel list"
  t_sessionScopeTransition :: "scope_transition option"
  t_projectionWrites :: "json list"
  t_observations :: "json list"
  t_logicalInputs :: "(string \<times> json) list"
  t_untrackedEffects :: "json list"
  t_result :: "json option"
  t_error :: "json option"
  t_complete :: bool
  t_incompleteReasons :: "string list"
  t_hash :: string
  t_exclusiveMint :: bool
  t_sessionClose :: bool
  t_orderingReads :: "ordering_read list"
  t_replayReads :: "replay_read list"
  t_principal :: "json option"
  t_trace :: "json option"
  t_extra :: "string list"

section \<open>Payloads and keys\<close>

definition propertyCellPayload :: "bool \<Rightarrow> json \<Rightarrow> json option \<Rightarrow> json" where
  "propertyCellPayload hasValue v def' =
     JObj ((if hasValue then [(''value'', v)] else []) @
           (case def' of None \<Rightarrow> [] | Some d \<Rightarrow> [(''def'', d)]))"

definition propertyCellDef :: "json option \<Rightarrow> json option" where
  "propertyCellDef payload = jprop payload ''def''"

fun transcriptCellId :: "transcript_cell \<Rightarrow> string" where
  "transcriptCellId (TProp obj nm) = ''prop:'' @ obj @ '':'' @ nm"
| "transcriptCellId (TVerb obj nm) = ''verb:'' @ obj @ '':'' @ nm"
| "transcriptCellId (TLocation obj) = ''location:'' @ obj"
| "transcriptCellId (TContents obj) = ''contents:'' @ obj"
| "transcriptCellId (TLifecycle obj) = ''lifecycle:'' @ obj"
| "transcriptCellId (TSession obj) = ''session:'' @ obj"

fun netCellKeyFor :: "transcript_cell \<Rightarrow> string option" where
  "netCellKeyFor (TProp obj nm) = Some (cellKey Property_cell obj (Some nm))"
| "netCellKeyFor (TVerb obj nm) = Some (cellKey Verb_bytecode obj (Some nm))"
| "netCellKeyFor (TLocation obj) = Some (cellKey Object_live obj None)"
| "netCellKeyFor (TLifecycle obj) = Some (cellKey Object_lineage obj None)"
| "netCellKeyFor (TContents obj) = None"
| "netCellKeyFor (TSession obj) = Some (cellKey Session obj None)"

text \<open>The reserved seq-allocation cell of a sequenced turn.\<close>

definition sequencedAllocationCell :: "transcript \<Rightarrow> transcript_cell option" where
  "sequencedAllocationCell t =
     (if t_route t \<noteq> Sequenced then None
      else let space = (case t_space t of Some sp \<Rightarrow> sp | None \<Rightarrow> t_scope t)
           in if space = [] then None else Some (TProp space ''next_seq''))"

definition isSequencedAllocationCell :: "transcript \<Rightarrow> transcript_cell \<Rightarrow> bool" where
  "isSequencedAllocationCell t c = (case sequencedAllocationCell t of None \<Rightarrow> False | Some a \<Rightarrow> c = a)"

text \<open>
  Last write per cell wins, in order of first occurrence. The engine keys its map by the stable
  JSON of the cell, an injective image of the cell, so the model keys it by the cell itself.
\<close>

definition finalWritesByCell :: "transcript_write list \<Rightarrow> transcript_write list" where
  "finalWritesByCell ws = jm_values (fold (\<lambda>w m. jm_set (tw_cell w) w m) ws [])"

fun is_session_cell :: "transcript_cell \<Rightarrow> bool" where
  "is_session_cell (TSession _) = True"
| "is_session_cell _ = False"

definition finalNetWritesByCell :: "transcript \<Rightarrow> transcript_write list" where
  "finalNetWritesByCell t =
     (let sessionWrites = fold (\<lambda>w m. jm_set (transcriptCellId (tw_cell w)) w m)
            (filter (\<lambda>w. is_session_cell (tw_cell w)) (t_writes t)) [];
          engineWrites = filter (\<lambda>w. \<not> is_session_cell (tw_cell w)) (t_writes t)
      in finalWritesByCell engineWrites @ jm_values sessionWrites)"

section \<open>Application\<close>

record recycled_object =
  ro_object :: string
  ro_from :: "string option"
  ro_displaced :: "string list"
  ro_hadOrderedEdge :: bool

text \<open>The loop state: the post store, touched keys, routed contents writes, recycled objects.\<close>

record apply_state =
  ap_post :: cell_store
  ap_touched :: "string list"
  ap_projection :: "transcript_write list"
  ap_recycled :: "recycled_object list"

text \<open>\<open>post.commit\<close> on the clone, which is an authority store (\<^const>\<open>store_commit\<close> cannot refuse there).\<close>

definition put_cell :: "cell_kind \<Rightarrow> string \<Rightarrow> string option \<Rightarrow> json \<Rightarrow> epoch_stamp \<Rightarrow> cell_store \<Rightarrow> cell_store" where
  "put_cell k obj nm v stamp s = (case store_commit k obj nm v stamp s of Inl _ \<Rightarrow> s | Inr (_, s') \<Rightarrow> s')"

definition touch :: "string \<Rightarrow> apply_state \<Rightarrow> apply_state" where
  "touch key st = st\<lparr>ap_touched := js_add key (ap_touched st)\<rparr>"

definition on_post :: "(cell_store \<Rightarrow> cell_store) \<Rightarrow> apply_state \<Rightarrow> apply_state" where
  "on_post f st = st\<lparr>ap_post := f (ap_post st)\<rparr>"

definition json_of_ref :: "string option \<Rightarrow> json" where
  "json_of_ref r = (case r of None \<Rightarrow> JNull | Some s \<Rightarrow> JStr s)"

definition apply_create :: "epoch_stamp \<Rightarrow> transcript_create \<Rightarrow> apply_state \<Rightarrow> apply_state" where
  "apply_create stamp cr st =
     (let lineage = JObj [(''parent'', json_of_ref (cr_parent cr)), (''owner'', JStr (cr_owner cr)),
            (''name'', JStr (cr_name cr)), (''anchor'', json_of_ref (cr_anchor cr)), (''flags'', cr_flags cr)];
          st1 = touch (cellKey Object_lineage (cr_object cr) None)
                  (on_post (put_cell Object_lineage (cr_object cr) None lineage stamp) st)
      in touch (cellKey Object_live (cr_object cr) None)
           (on_post (put_cell Object_live (cr_object cr) None
              (JObj [(''location'', json_of_ref (cr_location cr))]) stamp) st1))"

text \<open>\<open>x ?? d\<close> on an optional JSON value.\<close>

definition or_default :: "json option \<Rightarrow> json \<Rightarrow> json" where
  "or_default v d = (case v of None \<Rightarrow> d | Some JNull \<Rightarrow> d | Some x \<Rightarrow> x)"

definition lineage_set_value :: "json option \<Rightarrow> json \<Rightarrow> json" where
  "lineage_set_value prior v =
     (let semantic = Some v; field = (\<lambda>n. case jprop prior n of None \<Rightarrow> [] | Some x \<Rightarrow> [(n, x)])
      in JObj ([(''parent'', or_default (jprop semantic ''parent'') JNull),
                (''owner'', or_default (jprop semantic ''owner'') JNull)]
               @ (case jprop semantic ''name'' of None \<Rightarrow> [] | Some x \<Rightarrow> [(''name'', x)])
               @ [(''anchor'', or_default (jprop semantic ''anchor'') JNull),
                  (''flags'', or_default (jprop semantic ''flags'') (JObj []))]
               @ field ''eventSchemas'' @ field ''epoch_immutable_definition''))"

fun op_name :: "write_op \<Rightarrow> string" where
  "op_name Op_set = ''set''"
| "op_name Op_create = ''create''"
| "op_name Op_move = ''move''"
| "op_name Op_add = ''add''"
| "op_name Op_remove = ''remove''"
| "op_name Op_replace = ''replace''"
| "op_name Op_delete = ''delete''"

text \<open>What one collapsed write does to the post store.\<close>

definition write_effect :: "transcript \<Rightarrow> epoch_stamp \<Rightarrow> transcript_write \<Rightarrow> cell_store \<Rightarrow> cell_store" where
  "write_effect t stamp w post =
     (case tw_cell w of
        TContents _ \<Rightarrow> post
      | TSession obj \<Rightarrow>
          (if tw_op w = Op_remove then store_delete (cellKey Session obj None) post
           else put_cell Session obj None (tw_value w) stamp post)
      | TLocation obj \<Rightarrow> put_cell Object_live obj None (JObj [(''location'', tw_value w)]) stamp post
      | TLifecycle obj \<Rightarrow>
          (let prior = map_option c_value (store_get post (cellKey Object_lineage obj None)) in
           if tw_op w = Op_create \<and> obj \<in> set (map cr_object (t_creates t)) then post
           else if tw_op w = Op_set
           then put_cell Object_lineage obj None (lineage_set_value prior (tw_value w)) stamp post
           else put_cell Object_lineage obj None (spread_set prior ''lifecycle'' (JStr (op_name (tw_op w)))) stamp post)
      | TProp obj nm \<Rightarrow>
          (let key = cellKey Property_cell obj (Some nm);
               def' = propertyCellDef (map_option c_value (store_get post key)) in
           if tw_op w = Op_delete then store_delete key post
           else if tw_op w = Op_replace then put_cell Property_cell obj (Some nm) (tw_value w) stamp post
           else if tw_op w = Op_remove
           then (if def' \<noteq> None then put_cell Property_cell obj (Some nm) (propertyCellPayload False JNull def') stamp post
                 else store_delete key post)
           else put_cell Property_cell obj (Some nm) (propertyCellPayload True (tw_value w) def') stamp post)
      | TVerb obj nm \<Rightarrow>
          (if tw_op w = Op_remove then store_delete (cellKey Verb_bytecode obj (Some nm)) post
           else put_cell Verb_bytecode obj (Some nm) (tw_value w) stamp post))"

definition apply_write :: "transcript \<Rightarrow> epoch_stamp \<Rightarrow> transcript_write \<Rightarrow> apply_state \<Rightarrow> apply_state" where
  "apply_write t stamp w st =
     (case netCellKeyFor (tw_cell w) of
        None \<Rightarrow> st\<lparr>ap_projection := ap_projection st @ [w]\<rparr>
      | Some key \<Rightarrow> touch key (on_post (write_effect t stamp w) st))"

definition apply_move :: "epoch_stamp \<Rightarrow> transcript_move \<Rightarrow> apply_state \<Rightarrow> apply_state" where
  "apply_move stamp mv st =
     (let key = cellKey Object_live (mv_object mv) None;
          prior = map_option c_value (store_get (ap_post st) key)
      in touch key (on_post (put_cell Object_live (mv_object mv) None
           (spread_set prior ''location'' (JStr (mv_to mv))) stamp) st))"

text \<open>Recycle: graft the children, displace the members, delete the page, leave the tombstone.\<close>

definition graft_child :: "epoch_stamp \<Rightarrow> json \<Rightarrow> string \<Rightarrow> apply_state \<Rightarrow> apply_state" where
  "graft_child stamp formerParent child st =
     (let key = cellKey Object_lineage child None in
      case store_get (ap_post st) key of
        None \<Rightarrow> st
      | Some c \<Rightarrow> touch key (on_post (put_cell Object_lineage child None
                    (spread_set (Some (c_value c)) ''parent'' formerParent) stamp) st))"

definition displace_member :: "epoch_stamp \<Rightarrow> string \<Rightarrow> apply_state \<Rightarrow> apply_state" where
  "displace_member stamp member st =
     (let key = cellKey Object_live member None in
      case store_get (ap_post st) key of
        None \<Rightarrow> st
      | Some c \<Rightarrow> touch key (on_post (put_cell Object_live member None
                    (spread_set (Some (c_value c)) ''location'' (JStr ''$nowhere'')) stamp) st))"

definition delete_page_cell :: "cell \<Rightarrow> apply_state \<Rightarrow> apply_state" where
  "delete_page_cell c st = touch (c_key c) (on_post (store_delete (c_key c)) st)"

definition apply_recycle :: "epoch_stamp \<Rightarrow> transcript_recycle \<Rightarrow> apply_state \<Rightarrow> apply_state" where
  "apply_recycle stamp rc st =
     (let obj = rc_object rc; tombstoneKey = cellKey Object_tombstone obj None; post = ap_post st in
      if store_get post tombstoneKey \<noteq> None then touch tombstoneKey st
      else
        (let val = (\<lambda>key. map_option c_value (store_get post key));
             formerParent = json_of_ref (jstr (jprop (val (cellKey Object_lineage obj None)) ''parent''));
             from = jstr (jprop (val (cellKey Object_live obj None)) ''location'');
             hadEdge = (readOrderedEdge (val (cellKey Property_cell obj (Some ORDERED_EDGE_PROP))) \<noteq> None);
             st1 = fold (graft_child stamp formerParent) (lineageChildrenOf post obj) st;
             displaced = membersAt (ap_post st1) obj;
             st2 = fold (displace_member stamp) displaced st1;
             st3 = fold delete_page_cell (cellsForObject (ap_post st2) obj) st2;
             st4 = touch tombstoneKey (on_post (put_cell Object_tombstone obj None
                     (JObj [(''recycled'', JBool True)]) stamp) st3)
         in st4\<lparr>ap_recycled := ap_recycled st4 @
              [\<lparr>ro_object = obj, ro_from = from, ro_displaced = displaced, ro_hadOrderedEdge = hadEdge\<rparr>]\<rparr>))"

record apply_result =
  ar_post :: cell_store
  ar_touched :: "string list"
  ar_projectionWrites :: "transcript_write list"
  ar_recycledObjects :: "recycled_object list"
  ar_postStateVersion :: string

definition postStateVersion :: "cell_store \<Rightarrow> string list \<Rightarrow> string" where
  "postStateVersion s touched = cellVersion (JArr (map (\<lambda>key.
     JArr [JStr key, JStr (case store_get s key of Some c \<Rightarrow> c_version c | None \<Rightarrow> ''absent'')]) touched))"

definition apply_steps :: "transcript \<Rightarrow> epoch_stamp \<Rightarrow> apply_state \<Rightarrow> apply_state" where
  "apply_steps t stamp st =
     fold (apply_recycle stamp) (t_recycles t)
       (fold (apply_move stamp) (t_moves t)
         (fold (apply_write t stamp) (finalNetWritesByCell t)
           (fold (apply_create stamp) (t_creates t) st)))"

definition applyTranscript :: "cell_store \<Rightarrow> transcript \<Rightarrow> epoch_stamp \<Rightarrow> net_error + apply_result" where
  "applyTranscript pre t stamp =
     (if st_role pre \<noteq> Authority
      then Inl (netError E_LINEAGE ''transcripts apply to authority state only'')
      else let st = apply_steps t stamp
                 \<lparr>ap_post = store_clone pre, ap_touched = [], ap_projection = [], ap_recycled = []\<rparr>;
               touched = sort (ap_touched st)
           in Inr \<lparr>ar_post = ap_post st, ar_touched = touched, ar_projectionWrites = ap_projection st,
                   ar_recycledObjects = ap_recycled st, ar_postStateVersion = postStateVersion (ap_post st) touched\<rparr>)"

section \<open>Invariants of application\<close>

text \<open>
  Two facts carry every step: a predicate on stores that \<^const>\<open>setCell\<close> of a well-formed
  authoritative cell and \<^const>\<open>removeCell\<close> keep is kept by the whole application, and a step
  changes only the keys it touches.
\<close>

definition auth_ok :: "cell_store \<Rightarrow> bool" where
  "auth_ok s \<longleftrightarrow> store_ok s \<and> role_ok s \<and> st_role s = Authority"

lemma put_cell_eq: "st_role s = Authority \<Longrightarrow> put_cell k obj nm v stamp s = setCell (makeCell k obj nm v Authoritative stamp) s"
  by (simp add: put_cell_def store_commit_def Let_def)

lemma auth_ok_put:
  assumes "auth_ok s" "k \<in> {Object_lineage, Object_live} \<longrightarrow> nm = None"
  shows "auth_ok (put_cell k obj nm v stamp s)"
  using assms by (simp add: auth_ok_def put_cell_eq store_ok_setCell role_ok_setCell wf_makeCell)

lemma auth_ok_delete: "auth_ok s \<Longrightarrow> auth_ok (store_delete key s)"
  by (auto simp: auth_ok_def store_delete_def store_ok_removeCell store_get_ok_iff_role split: if_splits)

lemma get_put: "st_role s = Authority \<Longrightarrow>
  store_get (put_cell k obj nm v stamp s) key = (if key = cellKey k obj nm then Some (makeCell k obj nm v Authoritative stamp) else store_get s key)"
  by (simp add: put_cell_eq)

lemma get_delete [simp]: "store_get (store_delete key s) key' = (if key' = key then None else store_get s key')"
  by (simp add: store_delete_def)

lemma auth_ok_write: "auth_ok s \<Longrightarrow> auth_ok (write_effect t stamp w s)"
  unfolding write_effect_def Let_def
  by (auto simp: auth_ok_put auth_ok_delete split: transcript_cell.splits)

lemma get_write:
  assumes "st_role s = Authority" "netCellKeyFor (tw_cell w) \<noteq> Some key"
  shows "store_get (write_effect t stamp w s) key = store_get s key"
  using assms unfolding write_effect_def Let_def
  by (auto simp: get_put split: transcript_cell.splits)

text \<open>A step of the application: it keeps the invariant, only adds touched keys, and frames the rest.\<close>

definition good_step :: "(apply_state \<Rightarrow> apply_state) \<Rightarrow> bool" where
  "good_step f \<longleftrightarrow> (\<forall>st. auth_ok (ap_post st) \<longrightarrow> auth_ok (ap_post (f st)) \<and>
     set (ap_touched st) \<subseteq> set (ap_touched (f st)) \<and>
     (distinct (ap_touched st) \<longrightarrow> distinct (ap_touched (f st))) \<and>
     (\<forall>key. key \<notin> set (ap_touched (f st)) \<longrightarrow> store_get (ap_post (f st)) key = store_get (ap_post st) key))"

lemma good_stepD:
  assumes "good_step f" "auth_ok (ap_post st)"
  shows "auth_ok (ap_post (f st))" "set (ap_touched st) \<subseteq> set (ap_touched (f st))"
    "distinct (ap_touched st) \<Longrightarrow> distinct (ap_touched (f st))"
    "key \<notin> set (ap_touched (f st)) \<Longrightarrow> store_get (ap_post (f st)) key = store_get (ap_post st) key"
  using assms by (simp_all add: good_step_def)

lemma good_step_comp:
  assumes "good_step f" "good_step g" shows "good_step (\<lambda>st. g (f st))"
  unfolding good_step_def
proof (intro allI impI conjI)
  fix st :: apply_state assume ok: "auth_ok (ap_post st)"
  note f = good_stepD [OF assms(1) ok] and g = good_stepD [OF assms(2) good_stepD(1) [OF assms(1) ok]]
  show "auth_ok (ap_post (g (f st)))" by (rule g(1))
  show "set (ap_touched st) \<subseteq> set (ap_touched (g (f st)))" using f(2) g(2) by (rule subset_trans)
  show "distinct (ap_touched st) \<Longrightarrow> distinct (ap_touched (g (f st)))" by (intro g(3) f(3))
  fix key assume key: "key \<notin> set (ap_touched (g (f st)))"
  with g(2) have "key \<notin> set (ap_touched (f st))" by blast
  with key show "store_get (ap_post (g (f st))) key = store_get (ap_post st) key"
    using f(4) g(4) by simp
qed

lemma good_step_fold: "(\<And>x. x \<in> set xs \<Longrightarrow> good_step (f x)) \<Longrightarrow> good_step (fold f xs)"
proof (induction xs)
  case (Cons x xs)
  then have "good_step (f x)" "good_step (fold f xs)" by simp_all
  then have "good_step (\<lambda>st. fold f xs (f x st))" by (rule good_step_comp)
  then show ?case by (simp add: comp_def)
qed (simp add: good_step_def)

lemma touch_simps [simp]:
  "ap_post (touch key st) = ap_post st" "ap_touched (touch key st) = js_add key (ap_touched st)"
  "ap_projection (touch key st) = ap_projection st" "ap_recycled (touch key st) = ap_recycled st"
  by (simp_all add: touch_def)

lemma on_post_simps [simp]:
  "ap_post (on_post f st) = f (ap_post st)" "ap_touched (on_post f st) = ap_touched st"
  "ap_projection (on_post f st) = ap_projection st" "ap_recycled (on_post f st) = ap_recycled st"
  by (simp_all add: on_post_def)

lemma auth_ok_role [simp]: "auth_ok s \<Longrightarrow> st_role s = Authority"
  by (simp add: auth_ok_def)

lemma good_touch_put:
  assumes "k \<in> {Object_lineage, Object_live} \<longrightarrow> nm = None"
  shows "good_step (\<lambda>st. touch (cellKey k obj nm) (on_post (put_cell k obj nm (v st) stamp) st))"
  using assms by (auto simp: good_step_def auth_ok_put get_put)

lemma good_create: "good_step (apply_create stamp cr)"
  unfolding apply_create_def Let_def
  by (rule good_step_comp [OF good_touch_put [where v = "\<lambda>_. _"] good_touch_put [where v = "\<lambda>_. _"]]) auto

lemma good_write: "good_step (apply_write t stamp w)"
  by (auto simp: good_step_def apply_write_def auth_ok_write get_write split: option.splits)

lemma good_move: "good_step (apply_move stamp mv)"
  unfolding apply_move_def Let_def by (rule good_touch_put) simp

lemma good_graft: "good_step (graft_child stamp p child)"
  by (auto simp: good_step_def graft_child_def Let_def auth_ok_put get_put split: option.splits)

lemma good_displace: "good_step (displace_member stamp member)"
  by (auto simp: good_step_def displace_member_def Let_def auth_ok_put get_put split: option.splits)

lemma good_delete_page: "good_step (delete_page_cell c)"
  by (auto simp: good_step_def delete_page_cell_def auth_ok_delete)

text \<open>The stages of one recycle, with the lists it reads off the store named.\<close>

definition recycle_stages ::
  "epoch_stamp \<Rightarrow> string \<Rightarrow> json \<Rightarrow> string list \<Rightarrow> string list \<Rightarrow> cell list \<Rightarrow> apply_state \<Rightarrow> apply_state" where
  "recycle_stages stamp obj formerParent children displaced page st =
     touch (cellKey Object_tombstone obj None)
       (on_post (put_cell Object_tombstone obj None (JObj [(''recycled'', JBool True)]) stamp)
         (fold delete_page_cell page (fold (displace_member stamp) displaced
           (fold (graft_child stamp formerParent) children st))))"

definition recycle_parent :: "cell_store \<Rightarrow> string \<Rightarrow> string option" where
  "recycle_parent post obj = jstr (jprop (map_option c_value (store_get post (cellKey Object_lineage obj None))) ''parent'')"

lemma apply_recycle_stages:
  fixes st :: apply_state
  assumes "store_get (ap_post st) (cellKey Object_tombstone (rc_object rc) None) = None"
  shows "\<exists>recs displaced page. let obj = rc_object rc; parent = json_of_ref (recycle_parent (ap_post st) obj);
      children = lineageChildrenOf (ap_post st) obj;
      st1 = fold (graft_child stamp parent) children st; st2 = fold (displace_member stamp) displaced st1 in
    displaced = membersAt (ap_post st1) obj \<and> page = cellsForObject (ap_post st2) obj \<and>
    apply_recycle stamp rc st = (recycle_stages stamp obj parent children displaced page st)\<lparr>ap_recycled := recs\<rparr>"
  using assms unfolding apply_recycle_def recycle_stages_def recycle_parent_def Let_def by auto

lemma good_recycle_stages: "good_step (recycle_stages stamp obj p children displaced page)"
proof -
  have "good_step (\<lambda>st. fold (displace_member stamp) displaced (fold (graft_child stamp p) children st))"
    by (rule good_step_comp [OF good_step_fold [OF good_graft] good_step_fold [OF good_displace]])
  then have "good_step (\<lambda>st. fold delete_page_cell page (fold (displace_member stamp) displaced (fold (graft_child stamp p) children st)))"
    by (rule good_step_comp [OF _ good_step_fold [OF good_delete_page]])
  then show ?thesis
    unfolding recycle_stages_def
    by (rule good_step_comp [OF _ good_touch_put [where v = "\<lambda>_. JObj [(''recycled'', JBool True)]"]]) simp
qed

lemma good_step_recycled: "good_step (\<lambda>st. (f st)\<lparr>ap_recycled := r st\<rparr>) \<longleftrightarrow> good_step f"
  by (simp add: good_step_def)

lemma good_recycle: "good_step (apply_recycle stamp rc)"
  unfolding good_step_def
proof (intro allI impI)
  fix st :: apply_state assume ok: "auth_ok (ap_post st)"
  show "auth_ok (ap_post (apply_recycle stamp rc st)) \<and>
     set (ap_touched st) \<subseteq> set (ap_touched (apply_recycle stamp rc st)) \<and>
     (distinct (ap_touched st) \<longrightarrow> distinct (ap_touched (apply_recycle stamp rc st))) \<and>
     (\<forall>key. key \<notin> set (ap_touched (apply_recycle stamp rc st)) \<longrightarrow>
        store_get (ap_post (apply_recycle stamp rc st)) key = store_get (ap_post st) key)"
  proof (cases "store_get (ap_post st) (cellKey Object_tombstone (rc_object rc) None)")
    case None
    from apply_recycle_stages [OF None, of stamp] obtain recs obj p ch di pg where
      "apply_recycle stamp rc st = (recycle_stages stamp obj p ch di pg st)\<lparr>ap_recycled := recs\<rparr>"
      unfolding Let_def by blast
    then show ?thesis using good_stepD [OF good_recycle_stages ok] by simp
  next
    case (Some c)
    then have "apply_recycle stamp rc st = touch (cellKey Object_tombstone (rc_object rc) None) st"
      by (simp add: apply_recycle_def Let_def)
    then show ?thesis using ok by auto
  qed
qed

lemma good_apply_steps: "good_step (apply_steps t stamp)"
proof -
  have 1: "good_step (fold (apply_create stamp) (t_creates t))" by (intro good_step_fold good_create)
  have 2: "good_step (fold (apply_write t stamp) (finalNetWritesByCell t))" by (intro good_step_fold good_write)
  have 3: "good_step (fold (apply_move stamp) (t_moves t))" by (intro good_step_fold good_move)
  have 4: "good_step (fold (apply_recycle stamp) (t_recycles t))" by (intro good_step_fold good_recycle)
  show ?thesis
    unfolding apply_steps_def
    by (rule good_step_comp [OF good_step_comp [OF good_step_comp [OF 1 2] 3] 4])
qed

lemma auth_ok_clone:
  assumes "auth_ok s" shows "auth_ok (store_clone s)"
proof -
  have ok: "store_ok s" "role_ok s" "st_role s = Authority" using assms by (simp_all add: auth_ok_def)
  have "role_ok (store_clone s)"
    using ok(2) unfolding store_get_ok_iff_role [OF ok(1)] store_get_ok_iff_role [OF store_clone_ok [OF ok(1)]]
    by (simp add: store_get_clone ok(1))
  with ok show ?thesis by (simp add: auth_ok_def store_clone_ok)
qed

lemma apply_spec:
  assumes "auth_ok pre"
  obtains r where "applyTranscript pre t stamp = Inr r" "auth_ok (ar_post r)" "sorted_wrt (<) (ar_touched r)"
    "\<And>key. key \<notin> set (ar_touched r) \<Longrightarrow> store_get (ar_post r) key = store_get pre key"
    "ar_postStateVersion r = postStateVersion (ar_post r) (ar_touched r)"
proof -
  let ?st = "\<lparr>ap_post = store_clone pre, ap_touched = [], ap_projection = [], ap_recycled = []\<rparr>"
  have ok: "auth_ok (ap_post ?st)" using auth_ok_clone [OF assms] by simp
  note g = good_stepD [OF good_apply_steps [of t stamp] ok]
  have "st_role pre = Authority" "store_ok pre" using assms by (simp_all add: auth_ok_def)
  with g show ?thesis
    by (intro that) (auto simp: applyTranscript_def Let_def strict_sorted_iff store_get_clone)
qed

text \<open>
  C32: applying any transcript to a sound authority store succeeds and yields a sound authority
  store; its touched keys are strictly sorted, and every key that is not touched keeps exactly
  the cell it had.
\<close>

theorem applyTranscript_frame:
  assumes "auth_ok pre"
  shows "\<exists>r. applyTranscript pre t stamp = Inr r \<and> auth_ok (ar_post r) \<and> sorted_wrt (<) (ar_touched r) \<and>
    (\<forall>key. key \<notin> set (ar_touched r) \<longrightarrow> store_get (ar_post r) key = store_get pre key)"
  by (rule apply_spec [OF assms, of t stamp]) blast

definition demo_call :: turn_call where
  "demo_call = \<lparr>tk_actor = ''wiz'', tk_target = ''lamp'', tk_verb = ''take'', tk_verb_definer = None,
     tk_verb_slot = None, tk_args = [], tk_body = None\<rparr>"

definition demo_transcript :: transcript where
  "demo_transcript = \<lparr>t_failureEffectsGeneration = None, t_id = None, t_route = Direct, t_scope = ''room:hall'',
     t_space = None, t_seq = 0, t_session = None, t_call = demo_call, t_reads = [], t_stateProbes = [],
     t_writes = [], t_creates = [], t_moves = [\<lparr>mv_object = ''lamp'', mv_from = None, mv_to = ''hall'', mv_writer = None\<rparr>],
     t_recycles = [], t_schedules = [], t_cancellations = [], t_sessionScopeTransition = None, t_projectionWrites = [],
     t_observations = [], t_logicalInputs = [], t_untrackedEffects = [], t_result = None, t_error = None,
     t_complete = True, t_incompleteReasons = [], t_hash = ''t1'', t_exclusiveMint = False, t_sessionClose = False,
     t_orderingReads = [], t_replayReads = [], t_principal = None, t_trace = None, t_extra = []\<rparr>"

lemma auth_ok_new: "auth_ok (newStore Authority)"
  by (simp add: auth_ok_def role_ok_def set_allCells)

theorem applyTranscript_frame_witness:
  "\<exists>r. applyTranscript (newStore Authority) demo_transcript demo_stamp = Inr r \<and> auth_ok (ar_post r)"
  using applyTranscript_frame [OF auth_ok_new, of demo_transcript demo_stamp] by blast

section \<open>Recycling\<close>

lemma auth_ok_store [simp]: "auth_ok s \<Longrightarrow> store_ok s"
  by (simp add: auth_ok_def)

lemma cells_put:
  assumes "auth_ok s"
  shows "set (allCells (put_cell k obj nm v stamp s)) =
    insert (makeCell k obj nm v Authoritative stamp) {d \<in> set (allCells s). c_key d \<noteq> cellKey k obj nm}"
proof -
  have "cells_ok (st_cells s)" using assms by (simp add: auth_ok_def store_ok_def)
  then show ?thesis
    using assms cells_ok_values_set [of "st_cells s" "makeCell k obj nm v Authoritative stamp"]
    by (simp add: put_cell_eq set_allCells)
qed

lemma cells_delete:
  assumes "auth_ok s" shows "set (allCells (store_delete key s)) = {d \<in> set (allCells s). c_key d \<noteq> key}"
  using assms by (simp add: auth_ok_def store_ok_def store_delete_def set_allCells cells_ok_values_del)

text \<open>The singleton kinds are recovered from their keys.\<close>

lemma kind_name_no_colon: "CHR '':'' \<notin> set (kind_name k)"
  by (cases k) simp_all

lemma append_colon_inject:
  "CHR '':'' \<notin> set u \<Longrightarrow> CHR '':'' \<notin> set v \<Longrightarrow> u @ '':'' @ x = v @ '':'' @ y \<longleftrightarrow> u = v \<and> x = y"
  by (induction u arbitrary: v) (case_tac v; auto)+

lemma kind_name_inject [simp]: "kind_name j = kind_name k \<longleftrightarrow> j = k"
  by (cases j; cases k) simp_all

lemma cellKey_kind:
  "cellKey j x m = cellKey k y n \<Longrightarrow> j = k"
  using append_colon_inject [OF kind_name_no_colon kind_name_no_colon]
  by (auto simp: cellKey_def split: option.splits)

lemma singleton_key:
  assumes "wf_cell c" "c_key c = cellKey k obj None" "k \<in> {Object_lineage, Object_live}"
  shows "c_kind c = k \<and> c_object c = obj"
proof -
  have "c_kind c = k" using assms(1,2) cellKey_kind unfolding wf_cell_def by metis
  with assms show ?thesis by (auto simp: wf_cell_def cellKey_def)
qed

lemma lineage_cell_key:
  "wf_cell c \<Longrightarrow> lineageParentOf c = Some p \<Longrightarrow> c_key c = cellKey Object_lineage (c_object c) None"
  by (auto simp: lineageParentOf_def wf_cell_def split: if_splits)

lemma live_cell_key:
  "wf_cell c \<Longrightarrow> liveLocationOf c = Some p \<Longrightarrow> c_key c = cellKey Object_live (c_object c) None"
  by (auto simp: liveLocationOf_def wf_cell_def split: if_splits)

lemma fold_pending:
  assumes "\<And>x xs st. I (x # xs) st \<Longrightarrow> I xs (f x st)" shows "I xs st \<Longrightarrow> I [] (fold f xs st)"
  using assms by (induction xs arbitrary: st) auto

text \<open>What is still attached to an object while its recycle runs.\<close>

definition pend_children :: "string \<Rightarrow> string list \<Rightarrow> cell_store \<Rightarrow> bool" where
  "pend_children obj xs s \<longleftrightarrow> auth_ok s \<and> (\<forall>c \<in> set (allCells s). lineageParentOf c = Some obj \<longrightarrow> c_object c \<in> set xs)"

definition pend_members :: "string \<Rightarrow> string list \<Rightarrow> cell_store \<Rightarrow> bool" where
  "pend_members obj xs s \<longleftrightarrow> pend_children obj [] s \<and>
     (\<forall>c \<in> set (allCells s). liveLocationOf c = Some obj \<longrightarrow> c_object c \<in> set xs)"

definition pend_page :: "string \<Rightarrow> cell list \<Rightarrow> cell_store \<Rightarrow> bool" where
  "pend_page obj xs s \<longleftrightarrow> pend_members obj [] s \<and> (\<forall>c \<in> set (allCells s). c_object c = obj \<longrightarrow> c \<in> set xs)"

definition gone :: "cell_store \<Rightarrow> string \<Rightarrow> bool" where
  "gone s obj \<longleftrightarrow> auth_ok s \<and> (\<forall>c \<in> set (allCells s). (c_object c = obj \<longrightarrow> c_kind c = Object_tombstone) \<and>
     liveLocationOf c \<noteq> Some obj \<and> lineageParentOf c \<noteq> Some obj)"

lemma lineageParentOf_make [simp]:
  "lineageParentOf (makeCell k obj nm v prov stamp) =
     (if k = Object_lineage then jstr_nonempty (jprop (Some v) ''parent'') else None)"
  by (simp add: lineageParentOf_def)

lemma liveLocationOf_make [simp]:
  "liveLocationOf (makeCell k obj nm v prov stamp) =
     (if k = Object_live then jstr_nonempty (jprop (Some v) ''location'') else None)"
  by (simp add: liveLocationOf_def)

lemma jstr_nonempty_ref [simp]:
  "jstr_nonempty (Some (json_of_ref r)) = Some x \<longleftrightarrow> r = Some x \<and> x \<noteq> []"
  by (auto simp: json_of_ref_def split: option.splits)

lemma singleton_lookup:
  assumes "auth_ok s" "c \<in> set (allCells s)" "c_key c = key" shows "store_get s key = Some c"
  using store_get_iff [of s key c] assms by simp

lemma graft_pending:
  assumes "pend_children obj (x # xs) (ap_post st)" "p \<noteq> Some obj"
  shows "pend_children obj xs (ap_post (graft_child stamp (json_of_ref p) x st))"
proof -
  let ?s = "ap_post st" and ?key = "cellKey Object_lineage x None"
  have ok: "auth_ok ?s" using assms(1) by (simp add: pend_children_def)
  have pend: "c_object c \<in> set xs" if "c \<in> set (allCells ?s)" "lineageParentOf c = Some obj" "c_key c \<noteq> ?key" for c
    using assms(1) that lineage_cell_key [of c obj] store_ok_wf [of ?s c] ok by (auto simp: pend_children_def)
  show ?thesis
  proof (cases "store_get ?s ?key")
    case None
    then have "c_key c \<noteq> ?key" if "c \<in> set (allCells ?s)" for c using singleton_lookup [OF ok that] by auto
    with None pend ok show ?thesis by (auto simp: graft_child_def Let_def pend_children_def)
  next
    case (Some c)
    then show ?thesis
      using pend ok assms(2) auth_ok_put [OF ok, of Object_lineage None]
      by (auto simp: graft_child_def Let_def pend_children_def cells_put)
  qed
qed

lemma displace_pending:
  assumes "pend_members obj (x # xs) (ap_post st)" "obj \<noteq> ''$nowhere''"
  shows "pend_members obj xs (ap_post (displace_member stamp x st))"
proof -
  let ?s = "ap_post st" and ?key = "cellKey Object_live x None"
  have ok: "auth_ok ?s" using assms(1) by (simp add: pend_members_def pend_children_def)
  have pend: "c_object c \<in> set xs" if "c \<in> set (allCells ?s)" "liveLocationOf c = Some obj" "c_key c \<noteq> ?key" for c
    using assms(1) that live_cell_key [of c obj] store_ok_wf [of ?s c] ok by (auto simp: pend_members_def)
  have ch: "lineageParentOf c \<noteq> Some obj" if "c \<in> set (allCells ?s)" for c
    using assms(1) that by (auto simp: pend_members_def pend_children_def)
  show ?thesis
  proof (cases "store_get ?s ?key")
    case None
    then have "c_key c \<noteq> ?key" if "c \<in> set (allCells ?s)" for c using singleton_lookup [OF ok that] by auto
    with None pend ok ch show ?thesis by (auto simp: displace_member_def Let_def pend_members_def pend_children_def)
  next
    case (Some c)
    then show ?thesis
      using pend ok ch assms(2) auth_ok_put [OF ok, of Object_live None]
      by (auto simp: displace_member_def Let_def pend_members_def pend_children_def cells_put)
  qed
qed

lemma delete_pending:
  assumes "pend_page obj (x # xs) (ap_post st)"
  shows "pend_page obj xs (ap_post (delete_page_cell x st))"
  using assms
  by (auto simp: pend_page_def pend_members_def pend_children_def delete_page_cell_def auth_ok_delete cells_delete)

lemma set_cellsForObject:
  assumes "store_ok s" shows "set (cellsForObject s obj) = {c \<in> set (allCells s). c_object c = obj}"
proof -
  have "set (bucket (keysByObject s) obj) = c_key ` {c \<in> set (allCells s). c_object c = obj}"
    "distinct (bucket (keysByObject s) obj)"
    using assms object_index.idx_ok_bucket [of "keysByObject s" "set (allCells s)" obj]
    by (simp_all add: store_ok_def indexes_ok_def)
  from keyed_lookup(1) [OF assms this] show ?thesis by (simp add: cellsForObject_def)
qed

lemma set_lineageChildrenOf:
  "store_ok s \<Longrightarrow> set (lineageChildrenOf s obj) = c_object ` {c \<in> set (allCells s). lineageParentOf c = Some obj}"
  using lineage_index.idx_ok_bucket [of "lineageChildrenByParent s" "set (allCells s)" obj]
  by (simp add: store_ok_def indexes_ok_def lineageChildrenOf_def)

lemma set_membersAt:
  "store_ok s \<Longrightarrow> set (membersAt s obj) = c_object ` {c \<in> set (allCells s). liveLocationOf c = Some obj}"
  using roster_index.idx_ok_bucket [of "membersByLocation s" "set (allCells s)" obj]
  by (simp add: store_ok_def indexes_ok_def membersAt_def)

lemma recycle_gone:
  fixes st :: apply_state
  assumes "auth_ok (ap_post st)" "store_get (ap_post st) (cellKey Object_tombstone (rc_object rc) None) = None"
    and "recycle_parent (ap_post st) (rc_object rc) \<noteq> Some (rc_object rc)" "rc_object rc \<noteq> ''$nowhere''"
  shows "gone (ap_post (apply_recycle stamp rc st)) (rc_object rc)"
proof -
  define obj where "obj = rc_object rc"
  define p where "p = recycle_parent (ap_post st) obj"
  define st1 where "st1 = fold (graft_child stamp (json_of_ref p)) (lineageChildrenOf (ap_post st) obj) st"
  define st2 where "st2 = fold (displace_member stamp) (membersAt (ap_post st1) obj) st1"
  define st3 where "st3 = fold delete_page_cell (cellsForObject (ap_post st2) obj) st2"
  have "pend_children obj (lineageChildrenOf (ap_post st) obj) (ap_post st)"
    using assms(1) by (auto simp: pend_children_def set_lineageChildrenOf)
  then have 1: "pend_children obj [] (ap_post st1)"
    unfolding st1_def using graft_pending assms(3) unfolding p_def obj_def
    by (intro fold_pending [where I = "\<lambda>xs st. pend_children (rc_object rc) xs (ap_post st)"]) blast+
  then have "pend_members obj (membersAt (ap_post st1) obj) (ap_post st1)"
    by (auto simp: pend_members_def pend_children_def set_membersAt)
  then have 2: "pend_members obj [] (ap_post st2)"
    unfolding st2_def using displace_pending assms(4) unfolding obj_def
    by (intro fold_pending [where I = "\<lambda>xs st. pend_members (rc_object rc) xs (ap_post st)"]) blast+
  then have "pend_page obj (cellsForObject (ap_post st2) obj) (ap_post st2)"
    by (auto simp: pend_page_def pend_members_def pend_children_def set_cellsForObject)
  then have 3: "pend_page obj [] (ap_post st3)"
    unfolding st3_def using delete_pending
    by (intro fold_pending [where I = "\<lambda>xs st. pend_page obj xs (ap_post st)"]) blast+
  have ok: "auth_ok (ap_post st3)" using 3 by (simp add: pend_page_def pend_members_def pend_children_def)
  have "ap_post (apply_recycle stamp rc st) =
      put_cell Object_tombstone obj None (JObj [(''recycled'', JBool True)]) stamp (ap_post st3)"
    using assms(2) by (simp add: apply_recycle_def Let_def recycle_parent_def st3_def st2_def st1_def p_def obj_def)
  with 3 show ?thesis
    by (auto simp: gone_def pend_page_def pend_members_def pend_children_def cells_put [OF ok] auth_ok_put [OF ok] obj_def)
qed

text \<open>Once gone, an object stays gone through later recycles.\<close>

lemma gone_put:
  assumes "gone s obj" "k \<in> {Object_lineage, Object_live} \<longrightarrow> nm = None"
    "x = obj \<longrightarrow> k = Object_tombstone"
    "k = Object_live \<longrightarrow> jstr_nonempty (jprop (Some v) ''location'') \<noteq> Some obj"
    "k = Object_lineage \<longrightarrow> jstr_nonempty (jprop (Some v) ''parent'') \<noteq> Some obj"
  shows "gone (put_cell k x nm v stamp s) obj"
  using assms auth_ok_put [of s k nm] by (auto simp: gone_def cells_put)

lemma gone_get:
  assumes "gone s obj" "store_get s (cellKey k x None) = Some c" "k \<in> {Object_lineage, Object_live}"
  shows "x \<noteq> obj \<and> c_kind c = k \<and> c_object c = x \<and> lineageParentOf c \<noteq> Some obj"
proof -
  have ok: "store_ok s" using assms(1) by (simp add: gone_def)
  have c: "wf_cell c" "c_key c = cellKey k x None" "c \<in> set (allCells s)"
    using store_ok_get [OF ok assms(2)] by auto
  with singleton_key [OF c(1,2) assms(3)] assms(1,3) show ?thesis by (auto simp: gone_def)
qed

lemma gone_fold:
  assumes "\<And>x st'. gone (ap_post st') obj \<Longrightarrow> gone (ap_post (f x st')) obj" "gone (ap_post (st :: apply_state)) obj"
  shows "gone (ap_post (fold f xs st)) obj"
  using assms by (induction xs arbitrary: st) auto

lemma gone_recycle:
  fixes st :: apply_state
  assumes "gone (ap_post st) obj" "obj \<noteq> ''$nowhere''"
  shows "gone (ap_post (apply_recycle stamp rc st)) obj"
proof (cases "store_get (ap_post st) (cellKey Object_tombstone (rc_object rc) None)")
  case (Some c)
  then show ?thesis using assms(1) by (simp add: apply_recycle_def Let_def)
next
  case None
  let ?p = "recycle_parent (ap_post st) (rc_object rc)"
  have p: "?p \<noteq> Some obj \<or> obj = []"
  proof (rule ccontr)
    assume a: "\<not> (?p \<noteq> Some obj \<or> obj = [])"
    then obtain c where c: "store_get (ap_post st) (cellKey Object_lineage (rc_object rc) None) = Some c"
      "jstr (jprop (Some (c_value c)) ''parent'') = Some obj"
      by (cases "store_get (ap_post st) (cellKey Object_lineage (rc_object rc) None)") (auto simp: recycle_parent_def)
    have "lineageParentOf c = Some obj"
      using gone_get [OF assms(1) c(1)] c(2) a by (auto simp: lineageParentOf_def jstr_nonempty_def)
    then show False using gone_get [OF assms(1) c(1)] by simp
  qed
  have graft: "gone (ap_post (graft_child stamp (json_of_ref ?p) x st')) obj" if "gone (ap_post st') obj" for x and st' :: apply_state
    using that p gone_get [OF that, of Object_lineage x]
    by (auto simp: graft_child_def Let_def split: option.splits intro!: gone_put)
  have disp: "gone (ap_post (displace_member stamp x st')) obj" if "gone (ap_post st') obj" for x and st' :: apply_state
    using that assms(2) gone_get [OF that, of Object_live x]
    by (auto simp: displace_member_def Let_def split: option.splits intro!: gone_put)
  have del: "gone (ap_post (delete_page_cell x st')) obj" if "gone (ap_post st') obj" for x and st' :: apply_state
    using that by (auto simp: delete_page_cell_def gone_def cells_delete auth_ok_delete)
  from apply_recycle_stages [OF None, of stamp] obtain recs ch di pg where
    eq: "apply_recycle stamp rc st = (recycle_stages stamp (rc_object rc) (json_of_ref ?p) ch di pg st)\<lparr>ap_recycled := recs\<rparr>"
    unfolding Let_def by blast
  have "gone (ap_post (fold (graft_child stamp (json_of_ref ?p)) ch st)) obj" by (rule gone_fold [OF _ assms(1)]) (rule graft)
  then have "gone (ap_post (fold (displace_member stamp) di (fold (graft_child stamp (json_of_ref ?p)) ch st))) obj"
    by (rule gone_fold [rotated]) (rule disp)
  then have "gone (ap_post (fold delete_page_cell pg (fold (displace_member stamp) di (fold (graft_child stamp (json_of_ref ?p)) ch st)))) obj"
    by (rule gone_fold [rotated]) (rule del)
  then show ?thesis unfolding eq recycle_stages_def by (auto intro!: gone_put)
qed

text \<open>The tombstone is written, and later recycles leave it where it is.\<close>

abbreviation tombstone_key :: "string \<Rightarrow> string" where
  "tombstone_key obj \<equiv> cellKey Object_tombstone obj None"

definition buried :: "cell_store \<Rightarrow> string \<Rightarrow> cell \<Rightarrow> bool" where
  "buried s obj c \<longleftrightarrow> auth_ok s \<and> store_get s (tombstone_key obj) = Some c \<and> c_object c = obj"

lemma tombstone_key_inject: "tombstone_key x = tombstone_key y \<longleftrightarrow> x = y"
  by (auto simp: cellKey_def)

lemma buried_put:
  assumes "buried s obj c" "k \<in> {Object_lineage, Object_live} \<and> nm = None \<or> k = Object_tombstone \<and> nm = None \<and> x \<noteq> obj"
  shows "buried (put_cell k x nm v stamp s) obj c"
  using assms auth_ok_put [of s k nm] cellKey_kind [of Object_tombstone obj None k x nm] tombstone_key_inject [of obj x]
  by (auto simp: buried_def get_put)

lemma buried_delete:
  assumes "buried s obj c" "d \<in> set (allCells s)" "c_object d \<noteq> obj"
  shows "c_key d \<noteq> tombstone_key obj"
proof
  assume key: "c_key d = tombstone_key obj"
  have "store_get s (c_key d) = Some d" using assms(1) by (intro singleton_lookup [OF _ assms(2)]) (simp_all add: buried_def)
  then show False using assms(1,3) key by (simp add: buried_def)
qed

lemma buried_page:
  "buried (ap_post st) obj c \<Longrightarrow> \<forall>d \<in> set ds. c_key d \<noteq> tombstone_key obj \<Longrightarrow> buried (ap_post (fold delete_page_cell ds st)) obj c"
proof (induction ds arbitrary: st)
  case (Cons d ds)
  then have "buried (ap_post (delete_page_cell d st)) obj c"
    by (auto simp: buried_def delete_page_cell_def auth_ok_delete)
  then show ?case using Cons by simp
qed simp

lemma buried_fold:
  assumes "\<And>x st'. buried (ap_post st') obj c \<Longrightarrow> buried (ap_post (f x st')) obj c" "buried (ap_post (st :: apply_state)) obj c"
  shows "buried (ap_post (fold f xs st)) obj c"
  using assms by (induction xs arbitrary: st) auto

lemma buried_recycle:
  fixes st :: apply_state
  assumes "buried (ap_post st) obj c"
  shows "buried (ap_post (apply_recycle stamp rc st)) obj c"
proof (cases "store_get (ap_post st) (tombstone_key (rc_object rc))")
  case (Some d)
  then show ?thesis using assms by (simp add: apply_recycle_def Let_def)
next
  case None
  then have other: "rc_object rc \<noteq> obj" using assms by (auto simp: buried_def)
  let ?p = "json_of_ref (recycle_parent (ap_post st) (rc_object rc))"
  define st1 where "st1 = fold (graft_child stamp ?p) (lineageChildrenOf (ap_post st) (rc_object rc)) st"
  define st2 where "st2 = fold (displace_member stamp) (membersAt (ap_post st1) (rc_object rc)) st1"
  define st3 where "st3 = fold delete_page_cell (cellsForObject (ap_post st2) (rc_object rc)) st2"
  have 1: "buried (ap_post st1) obj c" unfolding st1_def
    by (rule buried_fold [OF _ assms]) (auto simp: graft_child_def Let_def intro: buried_put split: option.splits)
  have 2: "buried (ap_post st2) obj c" unfolding st2_def
    by (rule buried_fold [OF _ 1]) (auto simp: displace_member_def Let_def intro: buried_put split: option.splits)
  have "store_ok (ap_post st2)" using 2 by (simp add: buried_def)
  then have "\<forall>d \<in> set (cellsForObject (ap_post st2) (rc_object rc)). c_key d \<noteq> tombstone_key obj"
    using buried_delete [OF 2] other by (auto simp: set_cellsForObject)
  then have 3: "buried (ap_post st3) obj c" unfolding st3_def by (rule buried_page [OF 2])
  have "ap_post (apply_recycle stamp rc st) =
      put_cell Object_tombstone (rc_object rc) None (JObj [(''recycled'', JBool True)]) stamp (ap_post st3)"
    using None by (simp add: apply_recycle_def Let_def recycle_parent_def st3_def st2_def st1_def)
  then show ?thesis using buried_put [OF 3] other by simp
qed

lemma recycle_buries:
  fixes st :: apply_state
  assumes "auth_ok (ap_post st)" "store_get (ap_post st) (tombstone_key (rc_object rc)) = None"
  shows "buried (ap_post (apply_recycle stamp rc st)) (rc_object rc)
    (makeCell Object_tombstone (rc_object rc) None (JObj [(''recycled'', JBool True)]) Authoritative stamp)"
proof -
  have ok: "auth_ok (ap_post (apply_recycle stamp rc st))" by (rule good_stepD(1) [OF good_recycle assms(1)])
  from apply_recycle_stages [OF assms(2), of stamp] obtain recs p ch di pg where
    eq: "apply_recycle stamp rc st = (recycle_stages stamp (rc_object rc) p ch di pg st)\<lparr>ap_recycled := recs\<rparr>"
    unfolding Let_def by blast
  define s3 where "s3 = ap_post (fold delete_page_cell pg (fold (displace_member stamp) di (fold (graft_child stamp p) ch st)))"
  have post: "ap_post (apply_recycle stamp rc st) = put_cell Object_tombstone (rc_object rc) None (JObj [(''recycled'', JBool True)]) stamp s3"
    by (simp add: eq recycle_stages_def s3_def)
  have "good_step (\<lambda>st. fold delete_page_cell pg (fold (displace_member stamp) di (fold (graft_child stamp p) ch st)))"
    by (rule good_step_comp [OF good_step_comp [OF good_step_fold [OF good_graft] good_step_fold [OF good_displace]]
        good_step_fold [OF good_delete_page]])
  from good_stepD(1) [OF this assms(1)] have "auth_ok s3" by (simp add: s3_def)
  then show ?thesis using ok by (simp add: buried_def post get_put)
qed

text \<open>
  C33: recycling removes an object for good and leaves its tombstone. Let an object other than \<open>$nowhere\<close> have
  no tombstone yet and not be its own parent. After its recycle step, and after any later recycles of the
  same turn, the store holds under the object's tombstone key the authoritative cell that says
  \<open>recycled: true\<close>; the object has no cell of another kind, no object is located in it and no object inherits
  from it; and the store is a sound authority store.
\<close>

theorem recycle_leaves_tombstone:
  fixes st :: apply_state
  assumes "auth_ok (ap_post st)" "store_get (ap_post st) (cellKey Object_tombstone (rc_object rc) None) = None"
    and "recycle_parent (ap_post st) (rc_object rc) \<noteq> Some (rc_object rc)" "rc_object rc \<noteq> ''$nowhere''"
  shows "let post = ap_post (fold (apply_recycle stamp) later (apply_recycle stamp rc st)) in
    auth_ok post
    \<and> store_get post (cellKey Object_tombstone (rc_object rc) None) =
        Some (makeCell Object_tombstone (rc_object rc) None (JObj [(''recycled'', JBool True)]) Authoritative stamp)
    \<and> (\<forall>c \<in> set (cellsForObject post (rc_object rc)). c_kind c = Object_tombstone) \<and>
    membersAt post (rc_object rc) = [] \<and> lineageChildrenOf post (rc_object rc) = []"
proof -
  define post where "post = ap_post (fold (apply_recycle stamp) later (apply_recycle stamp rc st))"
  have g: "gone post (rc_object rc)"
    unfolding post_def using gone_recycle assms(4) recycle_gone [OF assms(1-4)] by (intro gone_fold) blast+
  then have ok: "store_ok post" by (simp add: gone_def)
  have "buried post (rc_object rc) (makeCell Object_tombstone (rc_object rc) None (JObj [(''recycled'', JBool True)]) Authoritative stamp)"
    unfolding post_def by (rule buried_fold [OF buried_recycle recycle_buries [OF assms(1,2)]])
  then have "store_get post (tombstone_key (rc_object rc)) =
      Some (makeCell Object_tombstone (rc_object rc) None (JObj [(''recycled'', JBool True)]) Authoritative stamp)"
    by (simp add: buried_def)
  moreover have "set (membersAt post (rc_object rc)) = {}" "set (lineageChildrenOf post (rc_object rc)) = {}"
    using g unfolding set_membersAt [OF ok] set_lineageChildrenOf [OF ok] by (auto simp: gone_def)
  ultimately show ?thesis using g by (auto simp: gone_def set_cellsForObject [OF ok] Let_def post_def [symmetric])
qed

definition demo_recycle_state :: apply_state where
  "demo_recycle_state = \<lparr>ap_post = put_cell Object_live ''coin'' None (JObj [(''location'', JStr ''box'')]) demo_stamp
       (put_cell Object_lineage ''box'' None (JObj [(''parent'', JStr ''thing'')]) demo_stamp (newStore Authority)),
     ap_touched = [], ap_projection = [], ap_recycled = []\<rparr>"

theorem recycle_leaves_tombstone_witness:
  "let post = ap_post (apply_recycle demo_stamp \<lparr>rc_object = ''box'', rc_final_version = None\<rparr> demo_recycle_state) in
     membersAt post ''box'' = [] \<and> store_get post (cellKey Object_tombstone ''box'' None) \<noteq> None"
proof -
  let ?rc = "\<lparr>rc_object = ''box'', rc_final_version = None\<rparr>" and ?s = "ap_post demo_recycle_state"
  have 1: "auth_ok ?s" by (simp add: demo_recycle_state_def auth_ok_put auth_ok_new)
  have role: "st_role (put_cell k x n v st (newStore Authority)) = Authority" for k x n v st
    by (simp add: put_cell_eq)
  have 2: "store_get ?s (cellKey Object_tombstone (rc_object ?rc) None) = None"
    by (simp add: demo_recycle_state_def get_put role cellKey_def)
  have 3: "recycle_parent ?s (rc_object ?rc) \<noteq> Some (rc_object ?rc)"
    by (simp add: demo_recycle_state_def get_put role cellKey_def recycle_parent_def)
  show ?thesis using recycle_leaves_tombstone [OF 1 2 3, where later = "[]" and stamp = demo_stamp] by (simp add: Let_def)
qed

end
