(* ===== verification/Relations.thy ===== *)
theory Relations
  imports Transcript
begin

text \<open>
  Derived relations (\<open>src/net/relations.ts\<close>): the membership, ordering and presence rows a
  committing scope derives from an accepted transcript, their partition by owning scope, their
  application to a row family, the roster reduction and the rebuild of the contents family.
  \<open>localeCompare\<close> is a parameter: the collation order of the host.
\<close>

datatype delta_op = Add | Remove

record relation_row =
  rel_relation :: string
  rel_owner :: string
  rel_member :: string
  rel_member_scope :: "string option"
  rel_body :: "json option"

record relation_delta =
  rd_op :: delta_op
  rd_row :: relation_row

definition SESSION_PRESENCE_RELATION :: string where
  "SESSION_PRESENCE_RELATION = ''session_presence''"

definition relationKey :: "string \<Rightarrow> string \<Rightarrow> string \<Rightarrow> string" where
  "relationKey relation owner member = ''relation:'' @ relation @ '':'' @ owner @ '':'' @ member"

definition row_relation_key :: "relation_row \<Rightarrow> string" where
  "row_relation_key r = relationKey (rel_relation r) (rel_owner r) (rel_member r)"

definition observationsForRelationOwners :: "json list \<Rightarrow> relation_delta list \<Rightarrow> json list" where
  "observationsForRelationOwners observations deltas =
     (let owners = map (\<lambda>d. rel_owner (rd_row d)) deltas;
          owned = (\<lambda>v. case jstr v of Some s \<Rightarrow> s \<in> set owners | None \<Rightarrow> False)
      in filter (\<lambda>ob. owned (jprop (Some ob) ''source'') \<or> owned (jprop (Some ob) ''room'')) observations)"

section \<open>Derivation\<close>

type_synonym delta_map = "(string, relation_delta) jsmap"

fun delta_op_name :: "delta_op \<Rightarrow> string" where
  "delta_op_name Add = ''add''"
| "delta_op_name Remove = ''remove''"

fun opposite :: "delta_op \<Rightarrow> delta_op" where
  "opposite Add = Remove"
| "opposite Remove = Add"

definition delta_key :: "delta_op \<Rightarrow> string \<Rightarrow> string" where
  "delta_key op key = delta_op_name op @ ''|'' @ key"

definition put_delta :: "delta_op \<Rightarrow> string \<Rightarrow> string \<Rightarrow> string \<Rightarrow> json option \<Rightarrow> delta_map \<Rightarrow> delta_map" where
  "put_delta op relation owner member body deltas =
     (if owner = [] \<or> member = [] then deltas
      else jm_set (delta_key op (relationKey relation owner member))
             \<lparr>rd_op = op, rd_row = \<lparr>rel_relation = relation, rel_owner = owner, rel_member = member,
                rel_member_scope = None, rel_body = body\<rparr>\<rparr>
             (jm_del (delta_key (opposite op) (relationKey relation owner member)) deltas))"

definition post_value :: "cell_store option \<Rightarrow> string \<Rightarrow> json option" where
  "post_value post key = (case post of None \<Rightarrow> None | Some s \<Rightarrow> map_option c_value (store_get s key))"

definition edge_at :: "cell_store option \<Rightarrow> string \<Rightarrow> (string option \<times> string) option" where
  "edge_at post obj = readOrderedEdge (post_value post (cellKey Property_cell obj (Some ORDERED_EDGE_PROP)))"

definition edge_body :: "string option \<times> string \<Rightarrow> json" where
  "edge_body e = JObj [(''parent'', json_of_ref (fst e)), (''rank'', JStr (snd e))]"

definition is_edge_write :: "transcript_write \<Rightarrow> bool" where
  "is_edge_write w = (case tw_cell w of TProp _ nm \<Rightarrow> nm = ORDERED_EDGE_PROP | _ \<Rightarrow> False)"

fun cell_object :: "transcript_cell \<Rightarrow> string" where
  "cell_object (TProp obj _) = obj"
| "cell_object (TVerb obj _) = obj"
| "cell_object (TLocation obj) = obj"
| "cell_object (TContents obj) = obj"
| "cell_object (TLifecycle obj) = obj"
| "cell_object (TSession obj) = obj"

definition contents_write_deltas :: "transcript_write \<Rightarrow> delta_map \<Rightarrow> delta_map" where
  "contents_write_deltas w deltas =
     (case tw_cell w of
        TContents owner \<Rightarrow>
          (let op = (if tw_op w = Op_remove then Remove else Add);
               members = (case tw_value w of JArr xs \<Rightarrow> xs | v \<Rightarrow> [v])
           in fold (\<lambda>m d. case m of JStr member \<Rightarrow> put_delta op ''contents'' owner member None d | _ \<Rightarrow> d) members deltas)
      | _ \<Rightarrow> deltas)"

definition create_deltas :: "transcript_create \<Rightarrow> delta_map \<Rightarrow> delta_map" where
  "create_deltas cr deltas =
     (case cr_location cr of Some loc \<Rightarrow> if loc = [] then deltas else put_delta Add ''contents'' loc (cr_object cr) None deltas
      | None \<Rightarrow> deltas)"

definition if_ref :: "string option \<Rightarrow> (string \<Rightarrow> delta_map \<Rightarrow> delta_map) \<Rightarrow> delta_map \<Rightarrow> delta_map" where
  "if_ref r f d = (case r of None \<Rightarrow> d | Some x \<Rightarrow> if x = [] then d else f x d)"

definition move_deltas :: "string list \<Rightarrow> cell_store option \<Rightarrow> transcript_move \<Rightarrow> delta_map \<Rightarrow> delta_map" where
  "move_deltas edgeWriters post mv deltas =
     (let d1 = if_ref (mv_from mv) (\<lambda>f. put_delta Remove ''contents'' f (mv_object mv) None) deltas;
          d2 = put_delta Add ''contents'' (mv_to mv) (mv_object mv) None d1;
          edge = edge_at post (mv_object mv)
      in if edge \<noteq> None \<or> mv_object mv \<in> set edgeWriters then
           (let d3 = if_ref (mv_from mv) (\<lambda>f. put_delta Remove ORDERED_EDGE_RELATION f (mv_object mv) None) d2
            in case edge of None \<Rightarrow> d3
               | Some e \<Rightarrow> put_delta Add ORDERED_EDGE_RELATION (mv_to mv) (mv_object mv) (Some (edge_body e)) d3)
         else d2)"

definition recycle_deltas :: "recycled_object \<Rightarrow> delta_map \<Rightarrow> delta_map" where
  "recycle_deltas ro deltas =
     (let d1 = if_ref (ro_from ro) (\<lambda>f d.
            let d' = put_delta Remove ''contents'' f (ro_object ro) None d
            in if ro_hadOrderedEdge ro then put_delta Remove ORDERED_EDGE_RELATION f (ro_object ro) None d' else d') deltas
      in fold (\<lambda>member. put_delta Remove ''contents'' (ro_object ro) member None) (ro_displaced ro) d1)"

definition edge_write_deltas :: "string list \<Rightarrow> cell_store option \<Rightarrow> transcript_write \<Rightarrow> delta_map \<Rightarrow> delta_map" where
  "edge_write_deltas moved post w deltas =
     (if \<not> is_edge_write w \<or> post = None then deltas
      else let obj = cell_object (tw_cell w) in
        case jstr_nonempty (jprop (post_value post (cellKey Object_live obj None)) ''location'') of
          None \<Rightarrow> deltas
        | Some loc \<Rightarrow>
            (case edge_at post obj of
               Some e \<Rightarrow> put_delta Add ORDERED_EDGE_RELATION loc obj (Some (edge_body e)) deltas
             | None \<Rightarrow> if obj \<notin> set moved then put_delta Remove ORDERED_EDGE_RELATION loc obj None deltas else deltas))"

definition presenceBody :: "cell_store option \<Rightarrow> string \<Rightarrow> string \<Rightarrow> string option \<Rightarrow> json" where
  "presenceBody post actor session fallbackName =
     (let nameCell = jstr_nonempty (jprop (post_value post (cellKey Property_cell actor (Some ''name''))) ''value'');
          lineage = jstr_nonempty (jprop (post_value post (cellKey Object_lineage actor None)) ''name'');
          fb = jstr_nonempty (map_option JStr fallbackName);
          name = (if nameCell \<noteq> None then nameCell else if fb \<noteq> None then fb else lineage)
      in JObj ([(''actor'', JStr actor)]
          @ (case name of None \<Rightarrow> [] | Some n \<Rightarrow> [(''name'', JStr n)])
          @ (case post_value post (cellKey Session session None) of None \<Rightarrow> [] | Some v \<Rightarrow> [(''session'', v)])))"

definition transition_deltas :: "cell_store option \<Rightarrow> scope_transition option \<Rightarrow> delta_map \<Rightarrow> delta_map" where
  "transition_deltas post tx deltas =
     (case tx of None \<Rightarrow> deltas
      | Some x \<Rightarrow>
          (let body = presenceBody post (tx_actor x) (tx_session x) (tx_actorName x)
           in if_ref (tx_to x) (\<lambda>to. put_delta Add SESSION_PRESENCE_RELATION to (tx_session x) (Some body))
                (if_ref (tx_from x) (\<lambda>f. put_delta Remove SESSION_PRESENCE_RELATION f (tx_session x) (Some body)) deltas)))"

definition rename_deltas :: "cell_store option \<Rightarrow> transcript \<Rightarrow> delta_map \<Rightarrow> delta_map" where
  "rename_deltas post t deltas =
     (let actor = tk_actor (t_call t);
          renamed = (TProp actor ''name'' \<in> set (map tw_cell (t_writes t)))
      in if renamed \<and> post \<noteq> None then
           if_ref (t_session t) (\<lambda>sid d.
             let session = post_value post (cellKey Session sid None) in
             if jprop session ''actor'' = Some (JStr actor) then
               (case jstr_nonempty (jprop session ''activeScope'') of
                  None \<Rightarrow> d
                | Some sc \<Rightarrow> put_delta Add SESSION_PRESENCE_RELATION sc sid (Some (presenceBody post actor sid None)) d)
             else d) deltas
         else deltas)"

definition all_deltas :: "transcript \<Rightarrow> transcript_write list \<Rightarrow> recycled_object list \<Rightarrow> cell_store option \<Rightarrow> delta_map" where
  "all_deltas t projectionWrites recycled post =
     (let edgeWriters = map (\<lambda>w. cell_object (tw_cell w)) (filter is_edge_write (t_writes t));
          moved = map mv_object (t_moves t);
          d1 = fold contents_write_deltas projectionWrites [];
          d2 = fold create_deltas (t_creates t) d1;
          d3 = fold (move_deltas edgeWriters post) (t_moves t) d2;
          d4 = fold recycle_deltas recycled d3;
          d5 = fold (edge_write_deltas moved post) (t_writes t) d4;
          d6 = transition_deltas post (t_sessionScopeTransition t) d5
      in rename_deltas post t d6)"

record derived_deltas =
  dd_local :: "relation_delta list"
  dd_foreign :: "(string, relation_delta list) jsmap"

definition with_member_scope :: "(string \<Rightarrow> string) option \<Rightarrow> relation_delta \<Rightarrow> relation_delta" where
  "with_member_scope scopeOf d =
     (case scopeOf of
        Some f \<Rightarrow> if rel_relation (rd_row d) = ''contents''
                  then d\<lparr>rd_row := (rd_row d)\<lparr>rel_member_scope := Some (f (rel_member (rd_row d)))\<rparr>\<rparr> else d
      | None \<Rightarrow> d)"

definition partition_delta :: "string \<Rightarrow> (string \<Rightarrow> string) option \<Rightarrow> relation_delta \<Rightarrow> derived_deltas \<Rightarrow> derived_deltas" where
  "partition_delta home scopeOf d out =
     (let d' = with_member_scope scopeOf d;
          ownerScope = (case scopeOf of Some f \<Rightarrow> f (rel_owner (rd_row d')) | None \<Rightarrow> home)
      in if ownerScope = home then out\<lparr>dd_local := dd_local out @ [d']\<rparr>
         else out\<lparr>dd_foreign := jm_set ownerScope (bucket (dd_foreign out) ownerScope @ [d']) (dd_foreign out)\<rparr>)"

definition deriveRelationDeltas ::
  "transcript \<Rightarrow> transcript_write list \<Rightarrow> recycled_object list \<Rightarrow> string \<Rightarrow> (string \<Rightarrow> string) option \<Rightarrow>
   cell_store option \<Rightarrow> derived_deltas" where
  "deriveRelationDeltas t projectionWrites recycled home scopeOf post =
     fold (partition_delta home scopeOf) (jm_values (all_deltas t projectionWrites recycled post))
       \<lparr>dd_local = [], dd_foreign = []\<rparr>"

section \<open>Rosters, application and rebuild\<close>

record roster_row =
  rw_player :: string
  rw_name :: string
  rw_connected :: bool
  rw_connected_at :: int
  rw_connected_seconds :: int
  rw_idle_seconds :: int
  rw_last_login_at :: int
  rw_location :: string
  rw_location_name :: string
  rw_presence :: string

text \<open>The live, visible presence of an actor one row witnesses: the actor, its name and start time.\<close>

definition roster_entry :: "string \<Rightarrow> int \<Rightarrow> relation_row \<Rightarrow> (string \<times> string option \<times> int) option" where
  "roster_entry room now r =
     (if rel_relation r \<noteq> SESSION_PRESENCE_RELATION \<or> rel_owner r \<noteq> room then None
      else case jstr (jprop (rel_body r) ''actor'') of
        None \<Rightarrow> None
      | Some actor \<Rightarrow>
          (let session = jprop (rel_body r) ''session'' in
           if session = None \<or> jprop session ''actor'' \<noteq> Some (JStr actor) \<or>
              jprop session ''activeScope'' \<noteq> Some (JStr room) then None
           else if (case jnum (jprop session ''expiresAt'') of Some e \<Rightarrow> e \<le> now | None \<Rightarrow> False) then None
           else if jprop session ''rosterVisible'' = Some (JBool False) then None
           else Some (actor, jstr_nonempty (jprop (rel_body r) ''name''),
                      (case jnum (jprop session ''started'') of Some s \<Rightarrow> s | None \<Rightarrow> now))))"

definition roster_step :: "string \<Rightarrow> int \<Rightarrow> relation_row \<Rightarrow> (string, string \<times> int) jsmap \<Rightarrow> (string, string \<times> int) jsmap" where
  "roster_step room now r m =
     (case roster_entry room now r of
        None \<Rightarrow> m
      | Some (actor, nm, started) \<Rightarrow>
          (let prior = jm_get m actor;
               name = (case nm of Some n \<Rightarrow> n
                       | None \<Rightarrow> (case prior of Some (pn, _) \<Rightarrow> pn | None \<Rightarrow> actor));
               st = (case prior of Some (_, ps) \<Rightarrow> min ps started | None \<Rightarrow> started)
           in jm_set actor (name, st) m))"

definition roomRosterRows ::
  "(string \<Rightarrow> string \<Rightarrow> bool) \<Rightarrow> relation_row list \<Rightarrow> string \<Rightarrow> string \<Rightarrow> int \<Rightarrow> roster_row list" where
  "roomRosterRows locale_le rows room roomName now =
     map (\<lambda>(actor, name, started).
            \<lparr>rw_player = actor, rw_name = name, rw_connected = True, rw_connected_at = started,
             rw_connected_seconds = max 0 ((now - started) div 1000), rw_idle_seconds = 0,
             rw_last_login_at = started, rw_location = room, rw_location_name = roomName,
             rw_presence = ''awake''\<rparr>)
       (sort_by (\<lambda>a b. locale_le (fst a) (fst b)) (fold (roster_step room now) rows []))"

text \<open>The serialized form of a row, by which an add decides that nothing changes.\<close>

definition relation_row_json :: "relation_row \<Rightarrow> json" where
  "relation_row_json r = JObj ([(''relation'', JStr (rel_relation r)), (''owner'', JStr (rel_owner r)),
     (''member'', JStr (rel_member r))]
     @ (case rel_member_scope r of None \<Rightarrow> [] | Some s \<Rightarrow> [(''member_scope'', JStr s)])
     @ (case rel_body r of None \<Rightarrow> [] | Some b \<Rightarrow> [(''body'', b)]))"

definition apply_delta :: "relation_delta \<Rightarrow> string list \<times> (string, relation_row) jsmap \<Rightarrow> string list \<times> (string, relation_row) jsmap" where
  "apply_delta d acc =
     (let (changed, rows) = acc; key = row_relation_key (rd_row d) in
      case rd_op d of
        Add \<Rightarrow>
          (case jm_get rows key of
             Some existing \<Rightarrow>
               if json_stringify (relation_row_json existing) = json_stringify (relation_row_json (rd_row d))
               then (changed, rows) else (changed @ [key], jm_set key (rd_row d) rows)
           | None \<Rightarrow> (changed @ [key], jm_set key (rd_row d) rows))
      | Remove \<Rightarrow>
          (if jm_get rows key = None then (changed, rows) else (changed @ [key], jm_del key rows)))"

definition applyRelationDeltas :: "(string, relation_row) jsmap \<Rightarrow> relation_delta list \<Rightarrow> string list \<times> (string, relation_row) jsmap" where
  "applyRelationDeltas rows deltas = fold apply_delta deltas ([], rows)"

definition contents_row :: "string option \<Rightarrow> string \<Rightarrow> string \<Rightarrow> relation_row" where
  "contents_row memberScope owner member =
     \<lparr>rel_relation = ''contents'', rel_owner = owner, rel_member = member,
      rel_member_scope = (case memberScope of Some s \<Rightarrow> if s = [] then None else Some s | None \<Rightarrow> None), rel_body = None\<rparr>"

definition rebuildContentsRelation :: "cell list \<Rightarrow> string option \<Rightarrow> (string, relation_row) jsmap" where
  "rebuildContentsRelation cells memberScope =
     fold (\<lambda>c rows. case liveLocationOf c of
             None \<Rightarrow> rows
           | Some loc \<Rightarrow> jm_set (relationKey ''contents'' loc (c_object c)) (contents_row memberScope loc (c_object c)) rows)
       cells []"

section \<open>One delta per row\<close>

definition delta_row_key :: "relation_delta \<Rightarrow> string" where
  "delta_row_key d = row_relation_key (rd_row d)"

definition deltas_ok :: "delta_map \<Rightarrow> bool" where
  "deltas_ok m \<longleftrightarrow> jm_ok m \<and> (\<forall>(k, d) \<in> set m. k = delta_key (rd_op d) (delta_row_key d) \<and>
     jm_get m (delta_key (opposite (rd_op d)) (delta_row_key d)) = None)"

lemma delta_key_inject [simp]: "delta_key op k = delta_key op' k' \<longleftrightarrow> op = op' \<and> k = k'"
  by (cases op; cases op') (auto simp: delta_key_def)

lemma opposite_neq [simp]: "opposite op \<noteq> op" "op \<noteq> opposite op"
  by (cases op; simp)+

lemma opposite_opposite [simp]: "opposite (opposite op) = op"
  by (cases op) simp_all

lemma deltas_ok_Nil [simp]: "deltas_ok []"
  by (simp add: deltas_ok_def)

lemma opposite_inject [simp]: "opposite op = opposite op' \<longleftrightarrow> op = op'"
  by (cases op; cases op') simp_all

lemma deltas_ok_put:
  assumes "deltas_ok m" shows "deltas_ok (put_delta op relation owner member body m)"
proof (cases "owner = [] \<or> member = []")
  case True
  then show ?thesis using assms by (auto simp: put_delta_def)
next
  case False
  let ?key = "relationKey relation owner member"
  let ?d = "\<lparr>rd_op = op, rd_row = \<lparr>rel_relation = relation, rel_owner = owner, rel_member = member,
     rel_member_scope = None, rel_body = body\<rparr>\<rparr>"
  have eq: "put_delta op relation owner member body m = jm_set (delta_key op ?key) ?d (jm_del (delta_key (opposite op) ?key) m)"
    using False by (simp add: put_delta_def)
  have ok: "jm_ok (jm_del (delta_key (opposite op) ?key) m)" using assms by (simp add: deltas_ok_def)
  show ?thesis
    using assms unfolding deltas_ok_def eq
    by (auto simp: set_jm_set [OF ok] set_jm_del delta_row_key_def row_relation_key_def)
qed

lemma deltas_ok_fold:
  "(\<And>x m. deltas_ok m \<Longrightarrow> deltas_ok (f x m)) \<Longrightarrow> deltas_ok m \<Longrightarrow> deltas_ok (fold f xs m)"
  by (induction xs arbitrary: m) auto

lemma deltas_ok_if_ref:
  "(\<And>x m. deltas_ok m \<Longrightarrow> deltas_ok (f x m)) \<Longrightarrow> deltas_ok m \<Longrightarrow> deltas_ok (if_ref r f m)"
  by (simp add: if_ref_def split: option.splits)

lemmas deltas_ok_intros = deltas_ok_put deltas_ok_if_ref deltas_ok_fold

lemma deltas_ok_contents: "deltas_ok m \<Longrightarrow> deltas_ok (contents_write_deltas w m)"
  unfolding contents_write_deltas_def Let_def
  by (auto split: transcript_cell.splits json.splits intro!: deltas_ok_fold deltas_ok_put)

lemma deltas_ok_create: "deltas_ok m \<Longrightarrow> deltas_ok (create_deltas cr m)"
  by (simp add: create_deltas_def deltas_ok_put split: option.splits)

lemma deltas_ok_move: "deltas_ok m \<Longrightarrow> deltas_ok (move_deltas ws post mv m)"
  unfolding move_deltas_def Let_def
  by (auto split: option.splits intro!: deltas_ok_if_ref deltas_ok_put)

lemma deltas_ok_recycle: "deltas_ok m \<Longrightarrow> deltas_ok (recycle_deltas ro m)"
  unfolding recycle_deltas_def Let_def
  by (intro deltas_ok_fold deltas_ok_put deltas_ok_if_ref) (auto intro!: deltas_ok_put)

lemma deltas_ok_edge: "deltas_ok m \<Longrightarrow> deltas_ok (edge_write_deltas mvd post w m)"
  unfolding edge_write_deltas_def Let_def by (auto split: option.splits intro!: deltas_ok_put)

lemma deltas_ok_transition: "deltas_ok m \<Longrightarrow> deltas_ok (transition_deltas post tx m)"
  unfolding transition_deltas_def Let_def by (auto split: option.splits intro!: deltas_ok_if_ref deltas_ok_put)

lemma deltas_ok_rename: "deltas_ok m \<Longrightarrow> deltas_ok (rename_deltas post t m)"
  unfolding rename_deltas_def Let_def by (auto split: option.splits intro!: deltas_ok_if_ref deltas_ok_put)

lemma deltas_ok_all: "deltas_ok (all_deltas t ws ros post)"
  unfolding all_deltas_def Let_def
  by (intro deltas_ok_rename deltas_ok_transition deltas_ok_fold deltas_ok_edge deltas_ok_recycle
      deltas_ok_move deltas_ok_create deltas_ok_contents deltas_ok_Nil)

lemma deltas_ok_distinct:
  assumes "deltas_ok m" shows "distinct (map delta_row_key (jm_values m))"
proof -
  have "inj_on (delta_row_key \<circ> snd) (set m)"
  proof (rule inj_onI)
    fix x y assume xy: "x \<in> set m" "y \<in> set m" "(delta_row_key \<circ> snd) x = (delta_row_key \<circ> snd) y"
    obtain k d where x: "x = (k, d)" by (cases x)
    obtain k' d' where y: "y = (k', d')" by (cases y)
    have same: "delta_row_key d = delta_row_key d'" using xy(3) x y by simp
    have get: "jm_get m k = Some d" "jm_get m k' = Some d'"
      using assms xy x y by (auto simp: deltas_ok_def)
    have kd: "k = delta_key (rd_op d) (delta_row_key d)" "k' = delta_key (rd_op d') (delta_row_key d')"
      "jm_get m (delta_key (opposite (rd_op d)) (delta_row_key d)) = None"
      using assms xy x y by (auto simp: deltas_ok_def)
    have "rd_op d = rd_op d'"
    proof (rule ccontr)
      assume "rd_op d \<noteq> rd_op d'"
      then have "rd_op d' = opposite (rd_op d)" by (cases "rd_op d"; cases "rd_op d'") simp_all
      then have "jm_get m (delta_key (opposite (rd_op d)) (delta_row_key d)) = Some d'"
        using get(2) kd(2) same by metis
      with kd(3) show False by simp
    qed
    then have "k = k'" using kd(1,2) same by metis
    with get x y show "x = y" by simp
  qed
  moreover have "distinct m" using assms by (simp add: deltas_ok_def distinct_map)
  ultimately have "distinct (map (delta_row_key \<circ> snd) m)" by (simp only: distinct_map)
  then show ?thesis by simp
qed

section \<open>Partition by owner\<close>

definition owner_scope :: "string \<Rightarrow> (string \<Rightarrow> string) option \<Rightarrow> relation_delta \<Rightarrow> string" where
  "owner_scope home scopeOf d = (case scopeOf of Some f \<Rightarrow> f (rel_owner (rd_row d)) | None \<Rightarrow> home)"

lemma with_member_scope_simps [simp]:
  "rd_op (with_member_scope scopeOf d) = rd_op d"
  "rel_owner (rd_row (with_member_scope scopeOf d)) = rel_owner (rd_row d)"
  "delta_row_key (with_member_scope scopeOf d) = delta_row_key d"
  "owner_scope home scopeOf (with_member_scope scopeOf d) = owner_scope home scopeOf d"
  by (auto simp: with_member_scope_def delta_row_key_def row_relation_key_def owner_scope_def split: option.splits)

lemma partition_fold:
  "dd_local (fold (partition_delta home scopeOf) ds out) = dd_local out @
     map (with_member_scope scopeOf) (filter (\<lambda>d. owner_scope home scopeOf d = home) ds)"
  "bucket (dd_foreign (fold (partition_delta home scopeOf) ds out)) sc = bucket (dd_foreign out) sc @
     map (with_member_scope scopeOf) (filter (\<lambda>d. owner_scope home scopeOf d = sc \<and> sc \<noteq> home) ds)"
proof (induction ds arbitrary: out)
  case (Cons d ds)
  have eq: "partition_delta home scopeOf d out =
     (if owner_scope home scopeOf d = home then out\<lparr>dd_local := dd_local out @ [with_member_scope scopeOf d]\<rparr>
      else out\<lparr>dd_foreign := jm_set (owner_scope home scopeOf d)
        (bucket (dd_foreign out) (owner_scope home scopeOf d) @ [with_member_scope scopeOf d]) (dd_foreign out)\<rparr>)" for out
    by (cases scopeOf) (simp_all add: partition_delta_def owner_scope_def Let_def)
  { case 1 show ?case by (simp add: Cons.IH(1) eq) }
  { case 2 show ?case by (simp add: Cons.IH(2) eq) }
qed simp_all

text \<open>
  The deltas of one commit are partitioned by the scope of their owner: every local delta is
  owned by the home scope, every delta of a foreign lane is owned by that lane's scope and the home
  scope has no foreign lane, nothing is lost, and no two deltas of one lane name the same row.
\<close>

theorem deriveRelationDeltas_partition:
  fixes home :: string
  shows "let out = deriveRelationDeltas t ws ros home scopeOf post;
      ds = jm_values (all_deltas t ws ros post) in
    dd_local out = map (with_member_scope scopeOf) (filter (\<lambda>d. owner_scope home scopeOf d = home) ds) \<and>
    (\<forall>sc. bucket (dd_foreign out) sc =
       (if sc = home then [] else map (with_member_scope scopeOf) (filter (\<lambda>d. owner_scope home scopeOf d = sc) ds))) \<and>
    distinct (map delta_row_key (dd_local out)) \<and> (\<forall>sc. distinct (map delta_row_key (bucket (dd_foreign out) sc)))"
proof -
  let ?ds = "jm_values (all_deltas t ws ros post)"
  have dst: "distinct (map delta_row_key (filter P ?ds))" for P
    by (rule distinct_map_filtered [OF deltas_ok_distinct [OF deltas_ok_all]])
  have "map delta_row_key (map (with_member_scope scopeOf) xs) = map delta_row_key xs" for xs by simp
  with dst show ?thesis
    unfolding Let_def deriveRelationDeltas_def partition_fold
    by (auto simp del: map_map)
qed

section \<open>Redelivery\<close>

text \<open>A delta is settled in a row family when applying it changes nothing.\<close>

definition settled :: "(string, relation_row) jsmap \<Rightarrow> relation_delta \<Rightarrow> bool" where
  "settled rows d = (case rd_op d of
      Add \<Rightarrow> (case jm_get rows (delta_row_key d) of Some e \<Rightarrow>
          json_stringify (relation_row_json e) = json_stringify (relation_row_json (rd_row d)) | None \<Rightarrow> False)
    | Remove \<Rightarrow> jm_get rows (delta_row_key d) = None)"

lemma apply_delta_settled: "settled rows d \<Longrightarrow> apply_delta d (ch, rows) = (ch, rows)"
  by (auto simp: settled_def apply_delta_def delta_row_key_def split: delta_op.splits option.splits)

lemma apply_delta_settles: "settled (snd (apply_delta d (ch, rows))) d"
  by (auto simp: settled_def apply_delta_def delta_row_key_def Let_def split: delta_op.splits option.splits)

lemma apply_delta_get_other:
  "key \<noteq> delta_row_key d \<Longrightarrow> jm_get (snd (apply_delta d (ch, rows))) key = jm_get rows key"
  by (auto simp: apply_delta_def delta_row_key_def Let_def split: delta_op.splits option.splits)

lemma apply_deltas_get_other:
  "key \<notin> delta_row_key ` set ds \<Longrightarrow> jm_get (snd (fold apply_delta ds acc)) key = jm_get (snd acc) key"
proof (induction ds arbitrary: acc)
  case (Cons d ds)
  then show ?case using apply_delta_get_other [of key d "fst acc" "snd acc"] by simp
qed simp

lemma apply_deltas_settles:
  assumes "distinct (map delta_row_key ds)" "d \<in> set ds"
  shows "settled (snd (fold apply_delta ds acc)) d"
  using assms
proof (induction ds arbitrary: acc)
  case (Cons e ds)
  show ?case
  proof (cases "d = e")
    case True
    have "jm_get (snd (fold apply_delta ds (apply_delta e acc))) (delta_row_key e) = jm_get (snd (apply_delta e acc)) (delta_row_key e)"
      using Cons.prems(1) by (intro apply_deltas_get_other) auto
    with apply_delta_settles [of e "fst acc" "snd acc"] True show ?thesis
      by (cases "rd_op e") (simp_all add: settled_def)
  qed (use Cons in auto)
qed simp

lemma apply_deltas_noop: "\<forall>d \<in> set ds. settled rows d \<Longrightarrow> fold apply_delta ds (ch, rows) = (ch, rows)"
  by (induction ds) (simp_all add: apply_delta_settled)

text \<open>
  C35: redelivery of a derived batch is harmless. Whether a batch is the local one or one foreign
  lane of a commit, applying it a second time reports no changed key and leaves the rows as they
  are, so a receiver that applies it again neither advances its head nor fans out.
\<close>

theorem relation_redelivery_noop:
  fixes home :: string
  assumes "ds = dd_local (deriveRelationDeltas t ws ros home scopeOf post) \<or>
    ds = bucket (dd_foreign (deriveRelationDeltas t ws ros home scopeOf post)) sc"
  shows "applyRelationDeltas (snd (applyRelationDeltas rows ds)) ds = ([], snd (applyRelationDeltas rows ds))"
proof -
  have dst: "distinct (map delta_row_key (filter P (jm_values (all_deltas t ws ros post))))" for P
    by (rule distinct_map_filtered [OF deltas_ok_distinct [OF deltas_ok_all]])
  have "map delta_row_key (map (with_member_scope scopeOf) xs) = map delta_row_key xs" for xs by simp
  with dst assms have "distinct (map delta_row_key ds)"
    unfolding deriveRelationDeltas_def partition_fold by (auto simp del: map_map)
  then have "\<forall>d \<in> set ds. settled (snd (applyRelationDeltas rows ds)) d"
    unfolding applyRelationDeltas_def using apply_deltas_settles by blast
  then show ?thesis unfolding applyRelationDeltas_def [of _ ds, symmetric]
    by (simp add: applyRelationDeltas_def apply_deltas_noop)
qed

theorem relation_redelivery_noop_witness:
  "fst (applyRelationDeltas (snd (applyRelationDeltas [] (dd_local (deriveRelationDeltas demo_transcript [] [] ''room:hall'' None None))))
     (dd_local (deriveRelationDeltas demo_transcript [] [] ''room:hall'' None None))) = []"
  using relation_redelivery_noop [of "dd_local (deriveRelationDeltas demo_transcript [] [] ''room:hall'' None None)"
      demo_transcript "[]" "[]" "''room:hall''" None None "[]" "[]"] by simp

section \<open>Rosters\<close>

lemma roster_fold_keys:
  "jm_ok m \<Longrightarrow> jm_ok (fold (roster_step room now) rows m)"
  by (induction rows arbitrary: m) (auto simp: roster_step_def Let_def split: option.splits)

lemma roster_fold_iff:
  "jm_get (fold (roster_step room now) rows m) actor \<noteq> None \<longleftrightarrow>
     jm_get m actor \<noteq> None \<or> (\<exists>r \<in> set rows. \<exists>nm st. roster_entry room now r = Some (actor, nm, st))"
  by (induction rows arbitrary: m) (auto simp: roster_step_def Let_def split: option.splits)

text \<open>A presence row that shows an actor in a room: its session is bound to the actor, active there, unexpired and not hidden.\<close>

definition shows_present :: "string \<Rightarrow> int \<Rightarrow> string \<Rightarrow> relation_row \<Rightarrow> bool" where
  "shows_present room now actor r \<longleftrightarrow> rel_relation r = SESSION_PRESENCE_RELATION \<and> rel_owner r = room
     \<and> jprop (rel_body r) ''actor'' = Some (JStr actor)
     \<and> jprop (jprop (rel_body r) ''session'') ''actor'' = Some (JStr actor)
     \<and> jprop (jprop (rel_body r) ''session'') ''activeScope'' = Some (JStr room)
     \<and> (case jprop (jprop (rel_body r) ''session'') ''expiresAt'' of Some (JNum e) \<Rightarrow> now < e | _ \<Rightarrow> True)
     \<and> jprop (jprop (rel_body r) ''session'') ''rosterVisible'' \<noteq> Some (JBool False)"

lemma jstr_Some: "jstr v = Some s \<longleftrightarrow> v = Some (JStr s)"
  by (cases v rule: jstr.cases) auto

lemma roster_entry_iff: "(\<exists>nm st. roster_entry room now r = Some (actor, nm, st)) \<longleftrightarrow> shows_present room now actor r"
  by (auto simp: roster_entry_def shows_present_def Let_def jstr_Some split: option.splits json.splits if_splits)

text \<open>
  C36: the roster of a room lists every actor at most once, whatever the collation order, and
  lists exactly the actors with a live, visible session present in the room: a presence row of
  that room whose session is bound to the actor, active there, unexpired and not hidden.
\<close>

theorem roomRosterRows_exact:
  "distinct (map rw_player (roomRosterRows le rows room roomName now)) \<and>
   (actor \<in> set (map rw_player (roomRosterRows le rows room roomName now)) \<longleftrightarrow>
      list_ex (shows_present room now actor) rows)"
proof -
  let ?m = "fold (roster_step room now) rows []"
  let ?s = "sort_by (\<lambda>a b. le (fst a) (fst b)) ?m"
  have players: "map rw_player (roomRosterRows le rows room roomName now) = map fst ?s"
    by (simp add: roomRosterRows_def comp_def split_beta)
  have "distinct (map fst ?m)" by (rule roster_fold_keys) simp
  then have 1: "distinct (map fst ?s)" by (simp add: distinct_map_sort_by)
  have "actor \<in> set (map fst ?s) \<longleftrightarrow> jm_get ?m actor \<noteq> None"
    by (auto simp: map_of_eq_None_iff)
  also have "\<dots> \<longleftrightarrow> list_ex (shows_present room now actor) rows"
    unfolding roster_fold_iff roster_entry_iff by (simp add: list_ex_iff)
  finally show ?thesis unfolding players using 1 by blast
qed

end
