(* ===== verification/Attribution.thy ===== *)
theory Attribution
  imports Cells
begin

text \<open>
  Customer attribution (\<open>src/core/attribution.ts\<close>, \<open>src/net/attribution.ts\<close>): the derivation rules
  that name the customer an actor belongs to, and the read guards for the attribution, principal
  and scope-attribution values that travel in durable rows and transcripts.
\<close>

definition OPERATOR_CUSTOMER_ID :: string where
  "OPERATOR_CUSTOMER_ID = ''operator''"

definition GUEST_CUSTOMER_ID :: string where
  "GUEST_CUSTOMER_ID = ''guest''"

definition PROP_CUSTOMER_OF :: string where
  "PROP_CUSTOMER_OF = ''customer_of''"

datatype derived_via = Via_account | Via_agent_owner | Via_operator | Via_guest | Via_transfer

record customer_attribution =
  ca_customer :: string
  ca_team :: "string option"
  ca_derived_via :: derived_via
  ca_bound_at :: "int option"

text \<open>The world view the derivation reads, implemented by the identity pipeline.\<close>

record attribution_source =
  as_isAgent :: "string \<Rightarrow> bool"
  as_isGuest :: "string \<Rightarrow> bool"
  as_prop :: "string \<Rightarrow> string \<Rightarrow> json option"
  as_ownerOf :: "string \<Rightarrow> string option"
  as_isWizard :: "string \<Rightarrow> bool"

definition accountOf :: "attribution_source \<Rightarrow> string \<Rightarrow> string option" where
  "accountOf src obj = jstr_nonempty (as_prop src obj ''account'')"

definition attribution :: "string \<Rightarrow> derived_via \<Rightarrow> customer_attribution" where
  "attribution customer via = \<lparr>ca_customer = customer, ca_team = None, ca_derived_via = via, ca_bound_at = None\<rparr>"

text \<open>One ownership hop, shared by the rules for agents and for the remaining actors.\<close>

definition owner_attribution :: "attribution_source \<Rightarrow> string \<Rightarrow> customer_attribution option" where
  "owner_attribution src owner =
     (if owner = ''$wiz'' \<or> as_isWizard src owner then Some (attribution OPERATOR_CUSTOMER_ID Via_operator)
      else map_option (\<lambda>acc. attribution acc Via_agent_owner) (accountOf src owner))"

definition deriveCustomerAttribution :: "attribution_source \<Rightarrow> string \<Rightarrow> customer_attribution option" where
  "deriveCustomerAttribution src actor =
     (case accountOf src actor of
        Some account \<Rightarrow> Some (attribution account Via_account)
      | None \<Rightarrow>
          (let viaAgent = (if as_isAgent src actor
                 then (case as_ownerOf src actor of None \<Rightarrow> None | Some owner \<Rightarrow> owner_attribution src owner)
                 else None)
           in if viaAgent \<noteq> None then viaAgent
              else if actor = ''$wiz'' \<or> as_isWizard src actor then Some (attribution OPERATOR_CUSTOMER_ID Via_operator)
              else if as_isGuest src actor then Some (attribution GUEST_CUSTOMER_ID Via_guest)
              else (case as_ownerOf src actor of
                      None \<Rightarrow> None
                    | Some owner \<Rightarrow> if owner = actor then None else owner_attribution src owner)))"

definition via_of_json :: "json option \<Rightarrow> derived_via option" where
  "via_of_json v = (case jstr v of
      None \<Rightarrow> None
    | Some s \<Rightarrow> map_of [(''account'', Via_account), (''agent_owner'', Via_agent_owner), (''operator'', Via_operator),
                      (''guest'', Via_guest), (''transfer'', Via_transfer)] s)"

definition normalizeCustomerAttribution :: "json option \<Rightarrow> customer_attribution option" where
  "normalizeCustomerAttribution raw =
     (let v = (case jprop raw ''value'' of Some inner \<Rightarrow> Some inner | None \<Rightarrow> raw) in
      if \<not> is_jobj v then None
      else case (jstr_nonempty (jprop v ''customer''), via_of_json (jprop v ''derived_via'')) of
        (Some customer, Some via) \<Rightarrow>
          Some \<lparr>ca_customer = customer, ca_team = jstr_nonempty (jprop v ''team''), ca_derived_via = via,
                ca_bound_at = jnum (jprop v ''bound_at'')\<rparr>
      | _ \<Rightarrow> None)"

datatype principal_form = Authenticated | Credentialed | Anonymous

record principal =
  pr_attribution :: principal_form
  pr_customer :: "string option"
  pr_team :: "string option"
  pr_actor :: "string option"
  pr_session :: "string option"
  pr_credential :: "string option"
  pr_on_behalf_of :: "string option"

fun form_name :: "principal_form \<Rightarrow> string" where
  "form_name Authenticated = ''authenticated''"
| "form_name Credentialed = ''credentialed''"
| "form_name Anonymous = ''anonymous''"

definition form_of_json :: "json option \<Rightarrow> principal_form option" where
  "form_of_json v = (case jstr v of
      None \<Rightarrow> None
    | Some s \<Rightarrow> map_of (map (\<lambda>f. (form_name f, f)) [Authenticated, Credentialed, Anonymous]) s)"

definition normalizePrincipal :: "json option \<Rightarrow> principal option" where
  "normalizePrincipal raw =
     (if \<not> is_jobj raw then None
      else case form_of_json (jprop raw ''attribution'') of
        None \<Rightarrow> None
      | Some form \<Rightarrow>
          (let str = (\<lambda>n. jstr_nonempty (jprop raw n)); customer = str ''customer''; actor = str ''actor'';
               credential = str ''credential'' in
           if form = Authenticated \<and> (customer = None \<or> actor = None) then None
           else if form = Credentialed \<and> credential = None then None
           else if form = Anonymous \<and> (customer \<noteq> None \<or> actor \<noteq> None) then None
           else Some \<lparr>pr_attribution = form, pr_customer = customer, pr_team = str ''team'', pr_actor = actor,
                      pr_session = str ''session'', pr_credential = credential,
                      pr_on_behalf_of = str ''on_behalf_of''\<rparr>))"

datatype scope_derived_via = Via_cluster_actor | Via_anchor_owner | Via_scope_operator | Via_scope_transfer

record scope_attribution =
  sa_customer :: string
  sa_derived_via :: scope_derived_via
  sa_stamped_at_epoch :: string

definition normalizeScopeAttribution :: "json option \<Rightarrow> scope_attribution option" where
  "normalizeScopeAttribution raw =
     (if \<not> is_jobj raw then None
      else case (jstr_nonempty (jprop raw ''customer''), jstr (jprop raw ''derived_via''), jstr_nonempty (jprop raw ''stamped_at_epoch'')) of
        (Some customer, Some via, Some epoch) \<Rightarrow>
          map_option (\<lambda>d. \<lparr>sa_customer = customer, sa_derived_via = d, sa_stamped_at_epoch = epoch\<rparr>)
            (map_of [(''cluster_actor'', Via_cluster_actor), (''anchor_owner'', Via_anchor_owner),
                     (''operator'', Via_scope_operator), (''transfer'', Via_scope_transfer)] via)
      | _ \<Rightarrow> None)"

definition customerOfCellKey :: "string \<Rightarrow> string" where
  "customerOfCellKey actor = cellKey Property_cell actor (Some ''customer_of'')"

section \<open>Properties\<close>

text \<open>The wire form of a principal: only the fields that are present.\<close>

definition principal_json :: "principal \<Rightarrow> json" where
  "principal_json p = JObj ((''attribution'', JStr (form_name (pr_attribution p))) #
     concat (map (\<lambda>(n, v). case v of None \<Rightarrow> [] | Some s \<Rightarrow> [(n, JStr s)])
       [(''customer'', pr_customer p), (''team'', pr_team p), (''actor'', pr_actor p), (''session'', pr_session p),
        (''credential'', pr_credential p), (''on_behalf_of'', pr_on_behalf_of p)]))"

definition principal_ok :: "principal \<Rightarrow> bool" where
  "principal_ok p \<longleftrightarrow>
     (pr_attribution p = Authenticated \<longrightarrow> pr_customer p \<noteq> None \<and> pr_actor p \<noteq> None) \<and>
     (pr_attribution p = Credentialed \<longrightarrow> pr_credential p \<noteq> None) \<and>
     (pr_attribution p = Anonymous \<longrightarrow> pr_customer p = None \<and> pr_actor p = None) \<and>
     Some [] \<notin> {pr_customer p, pr_team p, pr_actor p, pr_session p, pr_credential p, pr_on_behalf_of p}"

lemma form_of_json_name [simp]: "form_of_json (Some (JStr (form_name f))) = Some f"
  by (cases f) (simp_all add: form_of_json_def)

lemma jstr_nonempty_not_Nil: "jstr_nonempty v \<noteq> Some []"
  by (auto simp: jstr_nonempty_eq_Some)

text \<open>
  The principal guard is exact. What it accepts obeys the per-variant rules (authenticated
  names customer and actor, credentialed names its credential, anonymous claims neither) and
  has no empty field; and every principal that obeys them survives the round trip through its
  wire form unchanged.
\<close>

theorem normalizePrincipal_exact:
  "(\<forall>raw p. normalizePrincipal raw = Some p \<longrightarrow> principal_ok p) \<and>
   (\<forall>p. principal_ok p \<longrightarrow> normalizePrincipal (Some (principal_json p)) = Some p)"
proof (intro conjI allI impI)
  fix raw p assume norm: "normalizePrincipal raw = Some p"
  then obtain form where form: "is_jobj raw" "form_of_json (jprop raw ''attribution'') = Some form"
    by (auto simp: normalizePrincipal_def split: if_splits option.splits)
  have ne: "Some [] \<noteq> jstr_nonempty v" for v using jstr_nonempty_not_Nil [of v] by metis
  show "principal_ok p"
    using norm form(1) unfolding normalizePrincipal_def form(2) Let_def
    by (simp split: if_split_asm) (auto simp: principal_ok_def ne jstr_nonempty_not_Nil)
next
  fix p assume ok: "principal_ok p"
  have wire: "jprop (Some (principal_json p)) ''customer'' = map_option JStr (pr_customer p)"
    "jprop (Some (principal_json p)) ''team'' = map_option JStr (pr_team p)"
    "jprop (Some (principal_json p)) ''actor'' = map_option JStr (pr_actor p)"
    "jprop (Some (principal_json p)) ''session'' = map_option JStr (pr_session p)"
    "jprop (Some (principal_json p)) ''credential'' = map_option JStr (pr_credential p)"
    "jprop (Some (principal_json p)) ''on_behalf_of'' = map_option JStr (pr_on_behalf_of p)"
    "jprop (Some (principal_json p)) ''attribution'' = Some (JStr (form_name (pr_attribution p)))"
    by (simp_all add: principal_json_def map_of_append split: option.splits)
  have str: "jstr_nonempty (map_option JStr x) = x" if "x \<noteq> Some []" for x
    using that by (cases x) auto
  have ne: "pr_customer p \<noteq> Some []" "pr_team p \<noteq> Some []" "pr_actor p \<noteq> Some []" "pr_session p \<noteq> Some []"
    "pr_credential p \<noteq> Some []" "pr_on_behalf_of p \<noteq> Some []"
    using ok by (auto simp: principal_ok_def)
  have "is_jobj (Some (principal_json p))" by (simp add: principal_json_def)
  then show "normalizePrincipal (Some (principal_json p)) = Some p"
    using ok ne unfolding normalizePrincipal_def Let_def wire str [OF ne(1)] str [OF ne(2)] str [OF ne(3)]
      str [OF ne(4)] str [OF ne(5)] str [OF ne(6)]
    by (cases p) (auto simp: principal_ok_def)
qed

theorem normalizePrincipal_exact_witness:
  "principal_ok \<lparr>pr_attribution = Authenticated, pr_customer = Some ''acme'', pr_team = None, pr_actor = Some ''ann'',
     pr_session = None, pr_credential = None, pr_on_behalf_of = None\<rparr> \<and>
   normalizePrincipal (Some (principal_json \<lparr>pr_attribution = Authenticated, pr_customer = Some ''acme'', pr_team = None,
     pr_actor = Some ''ann'', pr_session = None, pr_credential = None, pr_on_behalf_of = None\<rparr>)) \<noteq> None"
proof -
  let ?p = "\<lparr>pr_attribution = Authenticated, pr_customer = Some ''acme'', pr_team = None, pr_actor = Some ''ann'',
     pr_session = None, pr_credential = None, pr_on_behalf_of = None\<rparr>"
  have "principal_ok ?p" by (simp add: principal_ok_def)
  then show ?thesis using normalizePrincipal_exact by simp
qed

text \<open>
  An unbound guest stays a guest: without an account, wizard flag or agent class, a
  guest-classed actor is attributed to the guest customer whatever object owns it, so a pool
  guest owned by the operator is never billed to the operator.
\<close>

theorem deriveCustomerAttribution_guest:
  assumes "as_isGuest src actor" "accountOf src actor = None" "\<not> as_isAgent src actor"
    "\<not> as_isWizard src actor" "actor \<noteq> ''$wiz''"
  shows "deriveCustomerAttribution src actor = Some (attribution GUEST_CUSTOMER_ID Via_guest)"
  using assms by (simp add: deriveCustomerAttribution_def Let_def)

theorem deriveCustomerAttribution_guest_witness:
  "map_option ca_customer (deriveCustomerAttribution \<lparr>as_isAgent = (\<lambda>_. False), as_isGuest = (\<lambda>_. True),
     as_prop = (\<lambda>_ _. None), as_ownerOf = (\<lambda>_. Some ''$wiz''), as_isWizard = (\<lambda>obj. obj = ''$wiz'')\<rparr> ''guest_7'') = Some ''guest''"
  using deriveCustomerAttribution_guest [of "\<lparr>as_isAgent = (\<lambda>_. False), as_isGuest = (\<lambda>_. True),
     as_prop = (\<lambda>_ _. None), as_ownerOf = (\<lambda>_. Some ''$wiz''), as_isWizard = (\<lambda>obj. obj = ''$wiz'')\<rparr>" "''guest_7''"]
  by (simp add: accountOf_def attribution_def GUEST_CUSTOMER_ID_def)

end
