(* ===== verification/Api_Keys.thy ===== *)
theory Api_Keys
  imports Cells
begin

text \<open>
  Self-routing API-key identifiers (\<open>src/core/api-key-id.ts\<close>) and the authority-private verifier
  index derived from an actor's \<open>api_keys\<close> cell (\<open>src/net/api-key-index.ts\<close>). The identifier
  grammar is hex fields separated by underscores. The object references in an identifier are strings of the
  language, lists of 16-bit code units, so that encoding and the fatal UTF-8 decoder are modelled on all of
  them, lone surrogates and sequences of up to four bytes included.
\<close>

section \<open>Strings as code units\<close>

type_synonym code_units = "16 word list"

definition code_units :: "string \<Rightarrow> code_units" where
  "code_units s = map of_char s"

definition utf8_of :: "code_units \<Rightarrow> u8 list" where
  "utf8_of v = utf8_units (map unat v)"

definition unit_in :: "nat \<Rightarrow> nat \<Rightarrow> 16 word \<Rightarrow> bool" where
  "unit_in lo hi u \<longleftrightarrow> lo \<le> unat u \<and> unat u \<le> hi"

text \<open>A surrogate that is not part of a pair, read as U+FFFD.\<close>

definition scrub_unit :: "16 word \<Rightarrow> 16 word" where
  "scrub_unit u = (if unit_in 0xd800 0xdfff u then 0xfffd else u)"

fun scrub :: "code_units \<Rightarrow> code_units" where
  "scrub [] = []"
| "scrub [u] = [scrub_unit u]"
| "scrub (u # v # rest) =
     (if unit_in 0xd800 0xdbff u \<and> unit_in 0xdc00 0xdfff v then u # v # scrub rest
      else scrub_unit u # scrub (v # rest))"

definition well_formed :: "code_units \<Rightarrow> bool" where
  "well_formed v \<longleftrightarrow> scrub v = v"

section \<open>Identifiers\<close>

definition ROUTED_API_KEY_PREFIX :: string where
  "ROUTED_API_KEY_PREFIX = ''n1_''"

record routed_api_key_id =
  rk_authorityRoot :: code_units
  rk_actor :: code_units
  rk_entropy :: string

definition MAX_ROUTED_OBJECT_REF_BYTES :: nat where
  "MAX_ROUTED_OBJECT_REF_BYTES = 256"

definition utf8Hex :: "code_units \<Rightarrow> string" where
  "utf8Hex v = bytesToHex (utf8_of v)"

definition validRoutedObjectRef :: "code_units \<Rightarrow> bool" where
  "validRoutedObjectRef v \<longleftrightarrow> v \<noteq> [] \<and> of_char (CHR '':'') \<notin> set v \<and> length (utf8_of v) \<le> MAX_ROUTED_OBJECT_REF_BYTES"

definition is_lower_hex :: "string \<Rightarrow> bool" where
  "is_lower_hex s \<longleftrightarrow> list_all (\<lambda>c. c \<in> set HEX) s"

text \<open>\<open>Number.parseInt(pair, 16)\<close> on pairs of hex digits.\<close>

fun hex_bytes :: "string \<Rightarrow> nat list" where
  "hex_bytes (a # b # rest) = (16 * nat (index_of a HEX) + nat (index_of b HEX)) # hex_bytes rest"
| "hex_bytes _ = []"

text \<open>
  The fatal UTF-8 decoder: a lead byte says how many continuation bytes follow and bounds the first of them,
  which excludes overlong forms, surrogates and points above U+10FFFF. A byte order mark is kept.
\<close>

definition units_of_point :: "nat \<Rightarrow> code_units" where
  "units_of_point code = (if code < 0x10000 then [of_nat code]
     else [of_nat (0xd800 + (code - 0x10000) div 1024), of_nat (0xdc00 + (code - 0x10000) mod 1024)])"

definition continuation :: "nat \<Rightarrow> bool" where
  "continuation c \<longleftrightarrow> 0x80 \<le> c \<and> c < 0xc0"

definition decoded_point :: "nat \<Rightarrow> code_units option \<Rightarrow> code_units option" where
  "decoded_point code rest = map_option (\<lambda>us. units_of_point code @ us) rest"

fun utf8_decode :: "nat list \<Rightarrow> code_units option" where
  "utf8_decode [] = Some []"
| "utf8_decode (b # bytes) =
     (if b < 0x80 then decoded_point b (utf8_decode bytes)
      else if 0xc2 \<le> b \<and> b < 0xe0 then (case bytes of
          c # rest \<Rightarrow> if continuation c then decoded_point ((b - 0xc0) * 64 + (c - 0x80)) (utf8_decode rest) else None
        | _ \<Rightarrow> None)
      else if 0xe0 \<le> b \<and> b < 0xf0 then (case bytes of
          c # d # rest \<Rightarrow>
            if continuation c \<and> continuation d \<and> (b = 0xe0 \<longrightarrow> 0xa0 \<le> c) \<and> (b = 0xed \<longrightarrow> c < 0xa0)
            then decoded_point ((b - 0xe0) * 4096 + (c - 0x80) * 64 + (d - 0x80)) (utf8_decode rest) else None
        | _ \<Rightarrow> None)
      else if 0xf0 \<le> b \<and> b < 0xf5 then (case bytes of
          c # d # e # rest \<Rightarrow>
            if continuation c \<and> continuation d \<and> continuation e \<and> (b = 0xf0 \<longrightarrow> 0x90 \<le> c) \<and> (b = 0xf4 \<longrightarrow> c < 0x90)
            then decoded_point ((b - 0xf0) * 262144 + (c - 0x80) * 4096 + (d - 0x80) * 64 + (e - 0x80)) (utf8_decode rest)
            else None
        | _ \<Rightarrow> None)
      else None)"

definition fromUtf8Hex :: "string \<Rightarrow> code_units option" where
  "fromUtf8Hex v =
     (if v = [] \<or> length v > MAX_ROUTED_OBJECT_REF_BYTES * 2 \<or> length v mod 2 \<noteq> 0 \<or> \<not> is_lower_hex v then None
      else case utf8_decode (hex_bytes v) of
        None \<Rightarrow> None
      | Some decoded \<Rightarrow> if validRoutedObjectRef decoded \<and> utf8Hex decoded = v then Some decoded else None)"

definition is_entropy :: "string \<Rightarrow> bool" where
  "is_entropy e \<longleftrightarrow> length e = 32 \<and> is_lower_hex e"

datatype api_key_error = Bad_ref | Bad_entropy

definition routedApiKeyId :: "code_units \<Rightarrow> code_units \<Rightarrow> string \<Rightarrow> api_key_error + string" where
  "routedApiKeyId authorityRoot actor entropy =
     (if \<not> validRoutedObjectRef authorityRoot \<or> \<not> validRoutedObjectRef actor then Inl Bad_ref
      else if \<not> is_entropy entropy then Inl Bad_entropy
      else Inr (ROUTED_API_KEY_PREFIX @ utf8Hex authorityRoot @ ''_'' @ utf8Hex actor @ ''_'' @ entropy))"

definition parseRoutedApiKeyId :: "string \<Rightarrow> routed_api_key_id option" where
  "parseRoutedApiKeyId i =
     (if \<not> starts_with ROUTED_API_KEY_PREFIX i then None
      else case split_on (CHR ''_'') (drop (length ROUTED_API_KEY_PREFIX) i) of
        [f0, f1, f2] \<Rightarrow>
          (if \<not> is_entropy f2 then None
           else case (fromUtf8Hex f0, fromUtf8Hex f1) of
             (Some authorityRoot, Some actor) \<Rightarrow>
               Some \<lparr>rk_authorityRoot = authorityRoot, rk_actor = actor, rk_entropy = f2\<rparr>
           | _ \<Rightarrow> None)
      | _ \<Rightarrow> None)"

definition routedApiKeyScope :: "string \<Rightarrow> code_units option" where
  "routedApiKeyScope i = (case parseRoutedApiKeyId i of
      None \<Rightarrow> None
    | Some k \<Rightarrow> Some (if take 1 (rk_authorityRoot k) = code_units ''$'' then code_units ''catalog''
        else code_units ''cluster:'' @ rk_authorityRoot k))"

section \<open>The verifier index\<close>

definition ACTOR_API_KEYS_PROPERTY :: string where
  "ACTOR_API_KEYS_PROPERTY = ''api_keys''"

record api_key_verifier_row =
  vk_actor :: string
  vk_id :: string
  vk_record :: json

definition apiKeyVerifierKey :: "string \<Rightarrow> string \<Rightarrow> string" where
  "apiKeyVerifierKey actor i = actor @ [CHR 0x00] @ i"

definition object_of :: "json option \<Rightarrow> (string \<times> json) list" where
  "object_of v = (case v of Some (JObj kvs) \<Rightarrow> kvs | _ \<Rightarrow> [])"

definition apiKeyVerifierRowsForActor :: "string \<Rightarrow> json option \<Rightarrow> (string, api_key_verifier_row) jsmap" where
  "apiKeyVerifierRowsForActor actor v =
     fold (\<lambda>(i, rec) rows.
             case parseRoutedApiKeyId i of
               Some routed \<Rightarrow>
                 if rk_actor routed = code_units actor \<and> is_jobj (Some rec)
                 then jm_set (apiKeyVerifierKey actor i) \<lparr>vk_actor = actor, vk_id = i, vk_record = rec\<rparr> rows else rows
             | None \<Rightarrow> rows)
       (object_of (jprop v ''value'')) []"

definition is_credential_cell :: "cell \<Rightarrow> bool" where
  "is_credential_cell c \<longleftrightarrow> c_kind c = Property_cell \<and> c_object c \<noteq> ''$system'' \<and> c_name c = Some ACTOR_API_KEYS_PROPERTY"

definition rebuildApiKeyVerifierIndex :: "cell list \<Rightarrow> (string, api_key_verifier_row) jsmap" where
  "rebuildApiKeyVerifierIndex cells =
     fold (\<lambda>c rows. if is_credential_cell c
             then fold (\<lambda>(k, r) m. jm_set k r m) (apiKeyVerifierRowsForActor (c_object c) (Some (c_value c))) rows
             else rows)
       cells []"

section \<open>Round trip\<close>

lemma set_utf8Hex: "set (utf8Hex v) \<subseteq> set HEX"
  by (simp add: utf8Hex_def set_bytesToHex)

lemma underscore_not_hex: "CHR ''_'' \<notin> set HEX"
  by (simp add: HEX_def)

lemma index_of_HEX_nth: "i < 16 \<Longrightarrow> nat (index_of (HEX ! i) HEX) = i"
  using index_of_distinct_nth [of HEX i] by (simp add: HEX_def)

lemma byte_nibbles: "16 * unat (drop_bit 4 b) + unat (b AND 0x0f) = unat b" for b :: u8
proof -
  have "(mask 4 :: u8) = 0x0f" by (simp add: mask_eq_exp_minus_1)
  then have "b AND 0x0f = take_bit 4 b" by (simp add: take_bit_eq_mask)
  then have "unat (b AND 0x0f) = unat b mod 16"
    by (simp add: unsigned_take_bit_eq take_bit_eq_mod [where 'a = nat] del: take_bit_eq_mod)
  moreover have "unat (drop_bit 4 b) = unat b div 16" unfolding unat_drop_bit_eq by (simp add: drop_bit_eq_div)
  ultimately show ?thesis by simp
qed

lemma hex_bytes_bytesToHex: "hex_bytes (bytesToHex bs) = map unat bs"
proof (induction bs)
  case (Cons b bs)
  then show ?case
    using unat_nibble [of b] byte_nibbles [of b] by (simp add: bytesToHex_def index_of_HEX_nth)
qed (simp add: bytesToHex_def)

text \<open>The decoder reads back every point the encoder writes.\<close>

lemma lead_bytes: "\<forall>m \<in> {..< 32 :: nat}. 0xc0 OR m = 0xc0 + m" "\<forall>m \<in> {..< 16 :: nat}. 0xe0 OR m = 0xe0 + m"
  "\<forall>m \<in> {..< 8 :: nat}. 0xf0 OR m = 0xf0 + m"
  by code_simp+

lemma continuation_byte: "\<forall>m \<in> {..< 64 :: nat}. 0x80 OR m = 0x80 + m"
  by code_simp

lemma continuation_mod: "0x80 OR m mod 64 = 0x80 + m mod 64" for m :: nat
  using continuation_byte by simp

lemma unat_byte: "n < 256 \<Longrightarrow> unat (of_nat n :: u8) = n"
  by (simp add: unsigned_of_nat take_bit_eq_mod)

lemma point_bytes:
  assumes "code < 0x110000"
  shows "map unat (utf8_point code) =
     (if code < 0x80 then [code]
      else if code < 0x800 then [0xc0 + code div 64, 0x80 + code mod 64]
      else if code < 0x10000 then [0xe0 + code div 4096, 0x80 + code div 64 mod 64, 0x80 + code mod 64]
      else [0xf0 + code div 262144, 0x80 + code div 4096 mod 64, 0x80 + code div 64 mod 64, 0x80 + code mod 64])"
proof -
  have c: "0xc0 OR code div 64 = 0xc0 + code div 64" if "code < 0x800" using lead_bytes(1) that by (simp add: div_less_iff_less_mult)
  have e: "0xe0 OR code div 4096 = 0xe0 + code div 4096" if "code < 0x10000" using lead_bytes(2) that by (simp add: div_less_iff_less_mult)
  have f: "0xf0 OR code div 262144 = 0xf0 + code div 262144" using lead_bytes(3) assms by (simp add: div_less_iff_less_mult)
  have m: "0x80 + n mod 64 < (256 :: nat)" for n using mod_less_divisor [of 64 n] by linarith
  have d: "0xc0 + code div 64 < 256" if "code < 0x800" using that by (simp add: div_less_iff_less_mult less_diff_conv2)
  have d': "0xe0 + code div 4096 < 256" if "code < 0x10000" using that by linarith
  have d'': "0xf0 + code div 262144 < 256" using assms by linarith
  show ?thesis
    unfolding utf8_point_def
    by (simp add: c e f continuation_mod unat_byte m d d' d'' del: of_nat_add of_nat_mod)
qed

lemma split_64: "n = n div 4096 * 4096 + n div 64 mod 64 * 64 + n mod 64" for n :: nat
proof -
  have "n div 64 = n div 4096 * 64 + n div 64 mod 64" using div_mult2_eq [of n 64 64] by simp
  then show ?thesis using div_mult_mod_eq [of n 64] by linarith
qed

lemma decode_point:
  assumes "code < 0x110000" "\<not> (0xd800 \<le> code \<and> code \<le> 0xdfff)"
  shows "utf8_decode (map unat (utf8_point code) @ rest) = decoded_point code (utf8_decode rest)"
proof -
  have m: "n mod 64 < 64" for n :: nat by simp
  consider "code < 0x80" | "0x80 \<le> code" "code < 0x800" | "0x800 \<le> code" "code < 0x10000" | "0x10000 \<le> code" by linarith
  then show ?thesis
  proof cases
    case 2
    then have "2 \<le> code div 64" "code div 64 < 32" by linarith+
    then show ?thesis using 2 m [of code] by (simp add: point_bytes [OF assms(1)] continuation_def)
  next
    case 3
    have h: "code div 64 mod 64 < 64" "code div 4096 < 16" using 3 by simp_all
    have e: "code = code div 4096 * 4096 + code div 64 mod 64 * 64 + code mod 64" by (rule split_64)
    have z: "code div 4096 = 0 \<longrightarrow> 32 \<le> code div 64 mod 64" using 3 e m [of code] by linarith
    have s: "code div 4096 = 13 \<longrightarrow> code div 64 mod 64 < 32" using e assms(2) m [of code] by linarith
    have "0xe0 + code div 4096 < 0xf0" using h(2) by linarith
    then show ?thesis using 3 h(1) z s m [of code] e [symmetric]
      unfolding point_bytes [OF assms(1)] by (simp add: continuation_def del: add_less_cancel_left)
  next
    case 4
    have h: "code div 64 mod 64 < 64" "code div 4096 mod 64 < 64" "code div 262144 < 5" using 4 assms(1) by simp_all
    have "code div 4096 = code div 262144 * 64 + code div 4096 mod 64" using div_mult2_eq [of code 4096 64] by simp
    then have e: "code = code div 262144 * 262144 + code div 4096 mod 64 * 4096 + code div 64 mod 64 * 64 + code mod 64"
      using split_64 [of code] by linarith
    have z: "code div 262144 = 0 \<longrightarrow> 16 \<le> code div 4096 mod 64" using 4 e h(1) m [of code] by linarith
    have s: "code div 262144 = 4 \<longrightarrow> code div 4096 mod 64 < 16" using e assms(1) m [of code] by linarith
    show ?thesis using 4 h(1-3) z s m [of code] e [symmetric] by (simp add: point_bytes [OF assms(1)] continuation_def)
  qed (simp add: point_bytes [OF assms(1)])
qed

text \<open>Units and points.\<close>

lemma unit_small: "unat u < 0x10000" for u :: "16 word"
  using unsigned_less [of u, where 'a = nat] by simp

lemma point_unit [simp]: "units_of_point (unat u) = [u]" "units_of_point 0xfffd = [0xfffd]"
  using unit_small [of u] by (simp_all add: units_of_point_def)

lemma or_low: "b < 1024 \<Longrightarrow> a * 1024 OR b = a * 1024 + b" for a b :: nat
proof -
  assume b: "b < 1024"
  have "push_bit 10 a AND take_bit 10 b = 0" by (rule bit_eqI) (auto simp: bit_simps)
  then have "push_bit 10 a OR take_bit 10 b = push_bit 10 a + take_bit 10 b" by (simp add: disjunctive_add_eq_or)
  moreover have "push_bit 10 a = a * 1024" "take_bit 10 b = b" using b by (simp_all add: push_bit_eq_mult take_bit_eq_mod)
  ultimately show ?thesis by simp
qed

lemma pair_point:
  fixes u v :: "16 word"
  assumes "unit_in 0xd800 0xdbff u" "unit_in 0xdc00 0xdfff v"
  defines "code \<equiv> 0x10000 + ((unat u - 0xd800) * 1024 OR (unat v - 0xdc00))"
  shows "code < 0x110000" "\<not> (0xd800 \<le> code \<and> code \<le> 0xdfff)" "units_of_point code = [u, v]"
proof -
  have code: "code = 0x10000 + ((unat u - 0xd800) * 1024 + (unat v - 0xdc00))"
    unfolding code_def by (subst or_low) (use assms(2) in \<open>auto simp: unit_in_def\<close>)
  show "code < 0x110000" "\<not> (0xd800 \<le> code \<and> code \<le> 0xdfff)" using assms(1,2) by (auto simp: code unit_in_def)
  have b: "unat v - 0xdc00 < 1024" using assms(2) unfolding unit_in_def by linarith
  have "(code - 0x10000) div 1024 = unat u - 0xd800" "(code - 0x10000) mod 1024 = unat v - 0xdc00"
    unfolding code diff_add_inverse using b by (simp_all add: div_mult_self3 mod_mult_self3 del: Nat.diff_add_assoc)
  then have "0xd800 + (code - 0x10000) div 1024 = unat u" "0xdc00 + (code - 0x10000) mod 1024 = unat v"
    using assms(1,2) by (auto simp: unit_in_def)
  moreover have "units_of_point code = [of_nat (0xd800 + (code - 0x10000) div 1024), of_nat (0xdc00 + (code - 0x10000) mod 1024)]"
    unfolding units_of_point_def by (rule if_not_P) (simp add: code)
  ultimately show "units_of_point code = [u, v]" by simp
qed

lemma decode_scrubbed:
  "utf8_decode (map unat (utf8_point (if 0xd800 \<le> unat u \<and> unat u \<le> 0xdfff then 0xfffd else unat u)) @ rest)
     = map_option (Cons (scrub_unit u)) (utf8_decode rest)"
  using unit_small [of u]
  by (auto simp: decode_point decoded_point_def scrub_unit_def unit_in_def intro!: option.map_cong0)

lemma utf8_decode_encode: "utf8_decode (map unat (utf8_of v)) = Some (scrub v)"
proof (induction v rule: scrub.induct)
  case (2 u)
  then show ?case using decode_scrubbed [of u "[]"] by (simp add: utf8_of_def)
next
  case (3 u v rest)
  show ?case
  proof (cases "unit_in 0xd800 0xdbff u \<and> unit_in 0xdc00 0xdfff v")
    case True
    let ?code = "0x10000 + ((unat u - 0xd800) * 1024 OR (unat v - 0xdc00))"
    have "utf8_of (u # v # rest) = utf8_point ?code @ utf8_of rest" using True by (simp add: utf8_of_def unit_in_def)
    then show ?thesis using True pair_point [of u v] 3 by (simp add: decode_point decoded_point_def)
  next
    case False
    then have "utf8_of (u # v # rest) = utf8_point (if 0xd800 \<le> unat u \<and> unat u \<le> 0xdfff then 0xfffd else unat u) @ utf8_of (v # rest)"
      by (auto simp: utf8_of_def unit_in_def)
    moreover have "utf8_decode (map unat (utf8_of (v # rest))) = Some (scrub (v # rest))" using 3(2) [OF False] .
    moreover have "scrub (u # v # rest) = scrub_unit u # scrub (v # rest)" using False by (simp only: scrub.simps if_False)
    ultimately show ?thesis by (simp only: map_append decode_scrubbed) simp
  qed
qed (simp add: utf8_of_def)

text \<open>Replacing lone surrogates keeps the bytes.\<close>

lemma utf8_of_scrub_unit: "utf8_of (scrub_unit u # ws) = utf8_point (unat (scrub_unit u)) @ utf8_of ws"
  by (cases ws) (auto simp: utf8_of_def scrub_unit_def unit_in_def)

lemma utf8_of_scrub [simp]: "utf8_of (scrub v) = utf8_of v"
proof (induction v rule: scrub.induct)
  case (2 u)
  show ?case using utf8_of_scrub_unit [of u "[]"] by (simp add: utf8_of_def scrub_unit_def unit_in_def)
next
  case (3 u v rest)
  show ?case
  proof (cases "unit_in 0xd800 0xdbff u \<and> unit_in 0xdc00 0xdfff v")
    case True
    then show ?thesis using 3(1) by (simp add: utf8_of_def unit_in_def)
  next
    case False
    then have "scrub (u # v # rest) = scrub_unit u # scrub (v # rest)" by (simp only: scrub.simps if_False)
    then have "utf8_of (scrub (u # v # rest)) = utf8_point (unat (scrub_unit u)) @ utf8_of (v # rest)"
      using 3(2) [OF False] utf8_of_scrub_unit by simp
    also have "\<dots> = utf8_of (u # v # rest)" using False by (auto simp: utf8_of_def scrub_unit_def unit_in_def)
    finally show ?thesis .
  qed
qed (simp add: utf8_of_def)

lemma set_scrub: "set (scrub v) \<subseteq> insert 0xfffd (set v)"
  by (induction v rule: scrub.induct) (auto simp: scrub_unit_def)

lemma scrub_nonempty [simp]: "scrub v = [] \<longleftrightarrow> v = []"
  by (cases v rule: scrub.cases) auto

lemma valid_scrub: "validRoutedObjectRef v \<Longrightarrow> validRoutedObjectRef (scrub v)"
  using set_scrub [of v] by (auto simp: validRoutedObjectRef_def)

lemma fromUtf8Hex_utf8Hex:
  assumes v: "validRoutedObjectRef v"
  shows "fromUtf8Hex (utf8Hex v) = Some (scrub v)"
proof -
  have "scrub v \<noteq> []" using v by (simp add: validRoutedObjectRef_def)
  then have "utf8_of v \<noteq> []" using utf8_decode_encode [of v] by (auto simp del: scrub_nonempty)
  then have "utf8Hex v \<noteq> []" by (metis length_bytesToHex length_0_conv mult_eq_0_iff utf8Hex_def zero_neq_numeral)
  moreover have "length (utf8Hex v) \<le> MAX_ROUTED_OBJECT_REF_BYTES * 2" "length (utf8Hex v) mod 2 = 0"
    using v by (simp_all add: utf8Hex_def length_bytesToHex validRoutedObjectRef_def)
  moreover have "is_lower_hex (utf8Hex v)" using set_utf8Hex by (auto simp: is_lower_hex_def list_all_iff)
  moreover have "utf8_decode (hex_bytes (utf8Hex v)) = Some (scrub v)"
    by (simp add: utf8Hex_def hex_bytes_bytesToHex utf8_decode_encode)
  moreover have "utf8Hex (scrub v) = utf8Hex v" by (simp add: utf8Hex_def)
  ultimately show ?thesis using valid_scrub [OF v] by (simp add: fromUtf8Hex_def)
qed

lemma fromUtf8Hex_SomeD:
  assumes "fromUtf8Hex h = Some v"
  shows "validRoutedObjectRef v \<and> utf8Hex v = h \<and> well_formed v"
proof -
  have v: "validRoutedObjectRef v" "utf8Hex v = h" using assms by (auto simp: fromUtf8Hex_def split: if_splits option.splits)
  then show ?thesis using assms fromUtf8Hex_utf8Hex [OF v(1)] by (simp add: well_formed_def)
qed

lemma hex_no_underscore: "is_lower_hex s \<Longrightarrow> CHR ''_'' \<notin> set s"
  using underscore_not_hex by (auto simp: is_lower_hex_def list_all_iff)

lemma parse_minted:
  assumes p: "parseRoutedApiKeyId i = Some k"
  shows "routedApiKeyId (rk_authorityRoot k) (rk_actor k) (rk_entropy k) = Inr i"
    "well_formed (rk_authorityRoot k)" "well_formed (rk_actor k)"
proof -
  define tl where "tl = drop (length ROUTED_API_KEY_PREFIX) i"
  from p obtain f0 f1 where s: "split_on (CHR ''_'') tl = [f0, f1, rk_entropy k]" and st: "starts_with ROUTED_API_KEY_PREFIX i"
    and e: "is_entropy (rk_entropy k)" and f: "fromUtf8Hex f0 = Some (rk_authorityRoot k)" "fromUtf8Hex f1 = Some (rk_actor k)"
    by (auto simp: parseRoutedApiKeyId_def tl_def split: if_splits list.splits option.splits)
  have "i = ROUTED_API_KEY_PREFIX @ tl"
    using st by (metis starts_with_def tl_def append_take_drop_id)
  moreover have "tl = f0 @ CHR ''_'' # f1 @ CHR ''_'' # rk_entropy k" using split_on_concat [OF s] by simp
  ultimately show "routedApiKeyId (rk_authorityRoot k) (rk_actor k) (rk_entropy k) = Inr i"
    "well_formed (rk_authorityRoot k)" "well_formed (rk_actor k)"
    using fromUtf8Hex_SomeD [OF f(1)] fromUtf8Hex_SomeD [OF f(2)] e by (simp_all add: routedApiKeyId_def)
qed

lemma minted_parses:
  assumes "routedApiKeyId r a e = Inr i"
  shows "parseRoutedApiKeyId i = Some \<lparr>rk_authorityRoot = scrub r, rk_actor = scrub a, rk_entropy = e\<rparr>"
proof -
  from assms have v: "validRoutedObjectRef r" "validRoutedObjectRef a" "is_entropy e"
    and i: "i = ROUTED_API_KEY_PREFIX @ utf8Hex r @ CHR ''_'' # utf8Hex a @ CHR ''_'' # e"
    by (auto simp: routedApiKeyId_def split: if_splits)
  have h: "CHR ''_'' \<notin> set (utf8Hex v)" for v using set_utf8Hex [of v] underscore_not_hex by blast
  have "split_on (CHR ''_'') (utf8Hex r @ CHR ''_'' # utf8Hex a @ CHR ''_'' # e) = [utf8Hex r, utf8Hex a, e]"
    using v(3) by (simp add: split_on_append h split_on_no_sep hex_no_underscore is_entropy_def)
  then show ?thesis
    using v by (simp add: parseRoutedApiKeyId_def starts_with_def i fromUtf8Hex_utf8Hex)
qed

text \<open>
  C37: the routed identifier grammar is unambiguous. A string parses to an authority root, actor and entropy
  exactly when it is the identifier minted for them and both references are well-formed UTF-16. An
  identifier always parses: to the references it was minted for, with every lone surrogate (which has no
  UTF-8 encoding) read back as U+FFFD. Two identifiers of well-formed references are equal only for the same
  credential.
\<close>

theorem parseRoutedApiKeyId_inverse:
  "(parseRoutedApiKeyId i = Some k \<longleftrightarrow>
      routedApiKeyId (rk_authorityRoot k) (rk_actor k) (rk_entropy k) = Inr i
      \<and> well_formed (rk_authorityRoot k) \<and> well_formed (rk_actor k))
   \<and> (\<forall>r a e. routedApiKeyId r a e = Inr i \<longrightarrow>
        parseRoutedApiKeyId i = Some \<lparr>rk_authorityRoot = scrub r, rk_actor = scrub a, rk_entropy = e\<rparr>)"
proof -
  have "parseRoutedApiKeyId i = Some k"
    if "routedApiKeyId (rk_authorityRoot k) (rk_actor k) (rk_entropy k) = Inr i" "well_formed (rk_authorityRoot k)" "well_formed (rk_actor k)"
    using minted_parses [OF that(1)] that(2,3) by (simp add: well_formed_def)
  then show ?thesis using parse_minted [of i k] minted_parses [of _ _ _ i] by blast
qed

text \<open>A four-byte reference, and a lone surrogate that comes back as U+FFFD.\<close>

lemma zeros_entropy: "is_entropy (replicate 32 (CHR ''0''))"
  unfolding is_entropy_def is_lower_hex_def list_all_iff by (simp add: HEX_def)

theorem parseRoutedApiKeyId_inverse_witness:
  "routedApiKeyId [0xd83d, 0xde00] (code_units ''a'') (replicate 32 (CHR ''0'')) = Inr (''n1_f09f9880_61_'' @ replicate 32 (CHR ''0''))
   \<and> parseRoutedApiKeyId (''n1_f09f9880_61_'' @ replicate 32 (CHR ''0'')) =
       Some \<lparr>rk_authorityRoot = [0xd83d, 0xde00], rk_actor = code_units ''a'', rk_entropy = replicate 32 (CHR ''0'')\<rparr>
   \<and> scrub [0xd83d, 0x61] = [0xfffd, 0x61]"
proof -
  let ?i = "''n1_f09f9880_61_'' @ replicate 32 (CHR ''0'')"
  have "utf8Hex [0xd83d, 0xde00] = ''f09f9880''" "utf8Hex (code_units ''a'') = ''61''"
    by (simp_all add: utf8Hex_def utf8_of_def utf8_point_def bytesToHex_def HEX_def code_units_def)
  moreover have "validRoutedObjectRef [0xd83d, 0xde00]" "validRoutedObjectRef (code_units ''a'')"
    by (simp_all add: validRoutedObjectRef_def utf8_of_def utf8_point_def MAX_ROUTED_OBJECT_REF_BYTES_def code_units_def)
  ultimately have m: "routedApiKeyId [0xd83d, 0xde00] (code_units ''a'') (replicate 32 (CHR ''0'')) = Inr ?i"
    using zeros_entropy by (simp add: routedApiKeyId_def ROUTED_API_KEY_PREFIX_def)
  have s: "scrub [0xd83d, 0xde00] = [0xd83d, 0xde00]" "scrub (code_units ''a'') = code_units ''a''" "scrub [0xd83d, 0x61] = [0xfffd, 0x61]"
    by (simp_all add: unit_in_def scrub_unit_def code_units_def)
  show ?thesis using parseRoutedApiKeyId_inverse [of ?i] m s by simp
qed

section \<open>The index admits only the owner's own credentials\<close>

lemma verifier_rows_fold:
  "jm_get (fold (\<lambda>(i, rec) rows.
             case parseRoutedApiKeyId i of
               Some routed \<Rightarrow>
                 if rk_actor routed = code_units actor \<and> is_jobj (Some rec)
                 then jm_set (apiKeyVerifierKey actor i) \<lparr>vk_actor = actor, vk_id = i, vk_record = rec\<rparr> rows else rows
             | None \<Rightarrow> rows) kvs rows) k = Some row \<Longrightarrow>
   jm_get rows k = Some row \<or>
   (k = apiKeyVerifierKey actor (vk_id row) \<and> vk_actor row = actor \<and> (vk_id row, vk_record row) \<in> set kvs
     \<and> is_jobj (Some (vk_record row))
     \<and> (\<exists>routed. parseRoutedApiKeyId (vk_id row) = Some routed \<and> rk_actor routed = code_units actor))"
proof (induction kvs arbitrary: rows)
  case (Cons kv kvs)
  obtain i rec where kv: "kv = (i, rec)" by force
  define rows' where "rows' = (case parseRoutedApiKeyId i of
      Some routed \<Rightarrow> if rk_actor routed = code_units actor \<and> is_jobj (Some rec)
        then jm_set (apiKeyVerifierKey actor i) \<lparr>vk_actor = actor, vk_id = i, vk_record = rec\<rparr> rows else rows
    | None \<Rightarrow> rows)"
  have step: "jm_get rows' k = Some row \<Longrightarrow> jm_get rows k = Some row \<or>
     (k = apiKeyVerifierKey actor (vk_id row) \<and> vk_actor row = actor \<and> (vk_id row, vk_record row) = kv
     \<and> is_jobj (Some (vk_record row))
     \<and> (\<exists>routed. parseRoutedApiKeyId (vk_id row) = Some routed \<and> rk_actor routed = code_units actor))"
    by (auto simp: rows'_def kv split: option.splits if_splits)
  show ?case using Cons.IH [of rows'] Cons.prems step by (simp add: kv rows'_def) blast
qed simp

text \<open>C38: a verifier row for an actor only ever comes from that actor's own credential map, under
  an identifier that routes to that same actor; a foreign or malformed identifier planted in the
  map never becomes an authenticating row.\<close>

theorem apiKeyVerifierRows_owner:
  assumes "jm_get (apiKeyVerifierRowsForActor actor v) k = Some row"
  shows "vk_actor row = actor \<and> k = apiKeyVerifierKey actor (vk_id row)
    \<and> (vk_id row, vk_record row) \<in> set (object_of (jprop v ''value''))
    \<and> is_jobj (Some (vk_record row))
    \<and> (\<exists>r e. routedApiKeyId r (code_units actor) e = Inr (vk_id row))"
proof -
  from verifier_rows_fold [OF assms [unfolded apiKeyVerifierRowsForActor_def]]
  obtain routed where "k = apiKeyVerifierKey actor (vk_id row)" "vk_actor row = actor"
    "(vk_id row, vk_record row) \<in> set (object_of (jprop v ''value''))" "is_jobj (Some (vk_record row))"
    and p: "parseRoutedApiKeyId (vk_id row) = Some routed" "rk_actor routed = code_units actor"
    by auto
  moreover have "routedApiKeyId (rk_authorityRoot routed) (code_units actor) (rk_entropy routed) = Inr (vk_id row)"
    using parse_minted(1) [OF p(1)] p(2) by simp
  ultimately show ?thesis by blast
qed

definition demo_entropy :: string where
  "demo_entropy = replicate 32 (CHR ''0'')"

definition demo_key :: string where
  "demo_key = ''n1_72_61_'' @ demo_entropy"

lemma demo_key_minted: "routedApiKeyId (code_units ''r'') (code_units ''a'') demo_entropy = Inr demo_key"
proof -
  have "utf8Hex (code_units ''r'') = ''72''" "utf8Hex (code_units ''a'') = ''61''"
    by (simp_all add: utf8Hex_def utf8_of_def utf8_point_def bytesToHex_def HEX_def code_units_def)
  moreover have "validRoutedObjectRef (code_units ''r'')" "validRoutedObjectRef (code_units ''a'')"
    by (simp_all add: validRoutedObjectRef_def utf8_of_def utf8_point_def MAX_ROUTED_OBJECT_REF_BYTES_def code_units_def)
  ultimately show ?thesis using zeros_entropy by (simp add: routedApiKeyId_def demo_key_def demo_entropy_def ROUTED_API_KEY_PREFIX_def)
qed

lemma demo_key_parses: "parseRoutedApiKeyId demo_key = Some \<lparr>rk_authorityRoot = code_units ''r'', rk_actor = code_units ''a'', rk_entropy = demo_entropy\<rparr>"
proof -
  have "scrub (code_units ''r'') = code_units ''r''" "scrub (code_units ''a'') = code_units ''a''"
    by (simp_all add: unit_in_def scrub_unit_def code_units_def)
  then show ?thesis using minted_parses [OF demo_key_minted] by simp
qed

theorem apiKeyVerifierRows_owner_witness:
  "\<exists>r e. routedApiKeyId r (code_units ''a'') e = Inr demo_key"
proof -
  have "jm_get (apiKeyVerifierRowsForActor ''a'' (Some (JObj [(''value'', JObj [(demo_key, JObj [])])])))
      (apiKeyVerifierKey ''a'' demo_key) = Some \<lparr>vk_actor = ''a'', vk_id = demo_key, vk_record = JObj []\<rparr>"
    using demo_key_parses
    by (simp add: apiKeyVerifierRowsForActor_def object_of_def)
  from apiKeyVerifierRows_owner [OF this] show ?thesis by simp
qed

end
