(* ===== verification/Verb_Slots.thy ===== *)
theory Verb_Slots
  imports Woo_Prelude
begin

text \<open>
  Verb pages: the slot ordinals of an object's pages and their repair (\<open>src/net/verb-slots.ts\<close>), and
  the one rule that decides whether a caller's word names a verb (\<open>src/core/verb-name-match.ts\<close>).

  \<open>localeCompare\<close> is the collation of the host; it is the parameter \<open>locale_le\<close>
  (\<open>a.localeCompare(b) <= 0\<close>), of which the theorems use that it is a total preorder.
\<close>

section \<open>Slots\<close>

record verb_slot_page =
  vp_name :: string
  vp_slot :: "int option"

definition MAX_SAFE_INTEGER :: int where
  "MAX_SAFE_INTEGER = 9007199254740991"

definition is_safe_integer :: "int \<Rightarrow> bool" where
  "is_safe_integer n \<longleftrightarrow> \<bar>n\<bar> \<le> MAX_SAFE_INTEGER"

definition verbCellSlot :: "json option \<Rightarrow> int option" where
  "verbCellSlot v = (case jnum (jprop v ''slot'') of
      Some slot \<Rightarrow> if is_safe_integer slot \<and> slot > 0 then Some slot else None
    | None \<Rightarrow> None)"

definition slot_or_zero :: "verb_slot_page \<Rightarrow> int" where
  "slot_or_zero p = (case vp_slot p of Some s \<Rightarrow> s | None \<Rightarrow> 0)"

definition page_le :: "(string \<Rightarrow> string \<Rightarrow> bool) \<Rightarrow> verb_slot_page \<Rightarrow> verb_slot_page \<Rightarrow> bool" where
  "page_le locale_le a b \<longleftrightarrow> slot_or_zero a < slot_or_zero b
     \<or> (slot_or_zero a = slot_or_zero b \<and> locale_le (vp_name a) (vp_name b))"

text \<open>Every page carries a slot, and each exceeds its predecessor's.\<close>

fun healthy_from :: "int option \<Rightarrow> verb_slot_page list \<Rightarrow> bool" where
  "healthy_from prior [] = True"
| "healthy_from prior (p # ps) = (case vp_slot p of
      None \<Rightarrow> False
    | Some s \<Rightarrow> (case prior of None \<Rightarrow> True | Some q \<Rightarrow> s > q) \<and> healthy_from (Some s) ps)"

definition repairedVerbSlots :: "(string \<Rightarrow> string \<Rightarrow> bool) \<Rightarrow> verb_slot_page list \<Rightarrow> (string, int) jsmap option" where
  "repairedVerbSlots locale_le pages =
     (if pages = [] then None
      else let ordered = sort_by (page_le locale_le) pages in
        if healthy_from None ordered then None
        else Some (fold (\<lambda>(index, page) m. jm_set (vp_name page) (int index + 1) m)
               (enumerate 0 ordered) []))"

section \<open>Name matching\<close>

text \<open>\<open>String.prototype.trim\<close> on the code units of the model.\<close>

definition js_space :: "char \<Rightarrow> bool" where
  "js_space c \<longleftrightarrow> of_char c \<in> {9, 10, 11, 12, 13, 32, 160 :: nat}"

definition js_trim :: "string \<Rightarrow> string" where
  "js_trim s = rev (dropWhile js_space (rev (dropWhile js_space s)))"

text \<open>One alternative of a pattern; \<open>continue\<close> in the loop is \<open>False\<close>.\<close>

definition segment_matches :: "string \<Rightarrow> string \<Rightarrow> bool" where
  "segment_matches segment name =
     (let trimmed = js_trim segment in
      if trimmed = [] then False
      else if trimmed = name then True
      else let star = index_of (CHR ''*'') trimmed in
        if star = int (length trimmed) - 1
        then let literal = butlast trimmed in literal \<noteq> [] \<and> starts_with literal name
        else let abbreviation = (if star \<ge> 0 then star else index_of (CHR ''@'') trimmed) in
          if abbreviation \<ge> 0
          then let literal = take (nat abbreviation) trimmed @ drop (nat abbreviation + 1) trimmed in
            literal \<noteq> [] \<and> starts_with name literal \<and> int (length name) \<ge> max 1 abbreviation
          else False)"

definition verbAliasMatches :: "string \<Rightarrow> string \<Rightarrow> bool" where
  "verbAliasMatches pattern name = list_ex (\<lambda>segment. segment_matches segment name) (split_on (CHR ''|'') pattern)"

definition verbPageAnswersTo :: "string \<Rightarrow> string list \<Rightarrow> string \<Rightarrow> bool" where
  "verbPageAnswersTo verbName aliases name \<longleftrightarrow> verbName = name \<or> list_ex (\<lambda>alias. verbAliasMatches alias name) aliases"

section \<open>Repair\<close>

lemma total_page_le: "total_preorder le \<Longrightarrow> total_preorder (page_le le)"
  unfolding total_preorder_def page_le_def by (smt (verit, best))

lemma healthy_from_iff:
  "healthy_from prior ps \<longleftrightarrow> (\<forall>p \<in> set ps. vp_slot p \<noteq> None) \<and> sorted_wrt (<) (map slot_or_zero ps)
     \<and> (\<forall>q p. prior = Some q \<longrightarrow> p \<in> set ps \<longrightarrow> q < slot_or_zero p)"
proof (induction ps arbitrary: prior)
  case (Cons p ps)
  show ?case
  proof (cases "vp_slot p")
    case (Some s)
    then have "slot_or_zero p = s" by (simp add: slot_or_zero_def)
    then show ?thesis using Some Cons.IH [of "Some s"] by (cases prior) fastforce+
  qed simp
qed simp

lemma sorted_page_le: "sorted_wrt (page_le le) ps \<Longrightarrow> sorted (map slot_or_zero ps)"
  by (induction ps) (auto simp: page_le_def)

lemma healthy_sorted_iff:
  assumes "total_preorder le"
  shows "healthy_from None (sort_by (page_le le) pages) \<longleftrightarrow>
    (\<forall>p \<in> set pages. vp_slot p \<noteq> None) \<and> distinct (map slot_or_zero pages)"
  using sorted_page_le [OF sorted_sort_by [OF total_page_le [OF assms], of pages]]
  by (simp add: healthy_from_iff strict_sorted_iff)

lemma repair_fold_append:
  assumes "distinct (map vp_name ps)" "set (map vp_name ps) \<inter> set (map fst m) = {}"
  shows "fold (\<lambda>(index, page) m. jm_set (vp_name page) (int index + 1) m) (enumerate k ps) m
    = m @ map (\<lambda>(i, p). (vp_name p, int i + 1)) (enumerate k ps)"
  using assms
proof (induction ps arbitrary: k m)
  case (Cons p ps)
  have "vp_name p \<notin> set (map fst m)" using Cons.prems(2) by auto
  then have "jm_set (vp_name p) (int k + 1) m = m @ [(vp_name p, int k + 1)]"
    by (induction m) auto
  then show ?case using Cons.prems Cons.IH [of "m @ [(vp_name p, int k + 1)]" "Suc k"] by auto
qed simp

lemma repaired_eq:
  assumes "distinct (map vp_name pages)" "repairedVerbSlots le pages = Some m"
  shows "m = map (\<lambda>(i, p). (vp_name p, int i + 1)) (enumerate 0 (sort_by (page_le le) pages))"
  using assms repair_fold_append [of "sort_by (page_le le) pages" "[]" 0]
  by (simp add: repairedVerbSlots_def Let_def split: if_splits)

lemma enumerate_slots:
  assumes "distinct (map vp_name ps)" "i < length ps"
  shows "jm_get (map (\<lambda>(i, p). (vp_name p, int i + 1)) (enumerate k ps)) (vp_name (ps ! i)) = Some (int (k + i) + 1)"
  using assms
proof (induction ps arbitrary: k i)
  case (Cons p ps)
  then show ?case
    using Cons.IH [of "i - 1" "Suc k"] by (cases i) (auto, metis image_eqI nth_mem)
qed simp

text \<open>The slots a repair writes, on the pages in resolution order.\<close>

definition renumber :: "(string, int) jsmap \<Rightarrow> verb_slot_page list \<Rightarrow> verb_slot_page list" where
  "renumber m pages = map (\<lambda>p. p\<lparr>vp_slot := jm_get m (vp_name p)\<rparr>) pages"

lemma renumbered_slots:
  assumes "distinct (map vp_name pages)" "repairedVerbSlots le pages = Some m"
  shows "map vp_slot (renumber m (sort_by (page_le le) pages)) = map (\<lambda>i. Some (int i + 1)) [0..<length pages]"
proof (rule nth_equalityI)
  fix i assume i: "i < length (map vp_slot (renumber m (sort_by (page_le le) pages)))"
  then have "i < length (sort_by (page_le le) pages)" by (simp add: renumber_def)
  from enumerate_slots [OF _ this, of 0] i assms(1)
  show "map vp_slot (renumber m (sort_by (page_le le) pages)) ! i
      = map (\<lambda>i. Some (int i + 1)) [0..<length pages] ! i"
    by (simp add: renumber_def repaired_eq [OF assms])
qed (simp add: renumber_def)

text \<open>The slot repair leaves an object alone exactly when every page carries a slot and no two
  pages share one; gaps between ordinals are not a reason to renumber.\<close>

theorem repairedVerbSlots_none_iff:
  assumes "total_preorder locale_le"
  shows "repairedVerbSlots locale_le pages = None \<longleftrightarrow>
    (\<forall>p \<in> set pages. vp_slot p \<noteq> None) \<and> distinct (map slot_or_zero pages)"
  using healthy_sorted_iff [OF assms, of pages] by (simp add: repairedVerbSlots_def Let_def)

lemma total_code_unit: "total_preorder (\<lambda>a b :: string. a \<le> b)"
  by (auto simp: total_preorder_def)

theorem repairedVerbSlots_none_iff_witness:
  "repairedVerbSlots (\<le>) [\<lparr>vp_name = ''a'', vp_slot = Some 3\<rparr>, \<lparr>vp_name = ''b'', vp_slot = Some 1\<rparr>] = None
   \<and> repairedVerbSlots (\<le>) [\<lparr>vp_name = ''a'', vp_slot = Some 1\<rparr>, \<lparr>vp_name = ''b'', vp_slot = Some 1\<rparr>] \<noteq> None"
  using repairedVerbSlots_none_iff [OF total_code_unit] by (simp add: slot_or_zero_def)

text \<open>A repair writes the ordinals 1 to N in the resolution order every node already computes
  (slot, then name): the renumbered pages resolve in the same order as before, carry dense distinct
  slots, and a second run of the repair finds nothing to do.\<close>

theorem repairedVerbSlots_order:
  assumes le: "total_preorder locale_le" and d: "distinct (map vp_name pages)"
    and r: "repairedVerbSlots locale_le pages = Some m"
  shows "map vp_name (sort_by (page_le locale_le) (renumber m pages)) = map vp_name (sort_by (page_le locale_le) pages)
    \<and> map vp_slot (sort_by (page_le locale_le) (renumber m pages)) = map (\<lambda>i. Some (int i + 1)) [0..<length pages]
    \<and> repairedVerbSlots locale_le (renumber m pages) = None"
proof -
  let ?o = "sort_by (page_le locale_le) pages" and ?n = "sort_by (page_le locale_le) (renumber m pages)"
  have slots: "map vp_slot (renumber m ?o) = map (\<lambda>i. Some (int i + 1)) [0..<length pages]"
    by (rule renumbered_slots [OF d r])
  have "map slot_or_zero (renumber m ?o) = map (\<lambda>s. case s of Some s \<Rightarrow> s | None \<Rightarrow> 0) (map vp_slot (renumber m ?o))"
    by (simp add: slot_or_zero_def)
  then have vals: "map slot_or_zero (renumber m ?o) = map (\<lambda>i. int i + 1) [0..<length pages]"
    unfolding slots by (simp add: comp_def)
  have asc: "sorted (map slot_or_zero (renumber m ?o))" "distinct (map slot_or_zero (renumber m ?o))"
    unfolding vals by (auto simp: sorted_iff_nth_mono distinct_conv_nth)
  have ms: "mset (renumber m ?o) = mset (renumber m pages)" by (simp add: renumber_def)
  then have d': "distinct (map slot_or_zero (renumber m pages))"
    using asc(2) by (metis mset_eq_imp_distinct_iff mset_map)
  have eq: "?n = renumber m ?o"
  proof (rule map_sorted_distinct_set_unique [where f = slot_or_zero])
    show "set ?n = set (renumber m ?o)" using ms by (metis set_mset_mset set_sort_by)
    then show "inj_on slot_or_zero (set ?n \<union> set (renumber m ?o))" using asc(2) by (simp add: distinct_map)
    show "sorted (map slot_or_zero ?n)" by (rule sorted_page_le [OF sorted_sort_by [OF total_page_le [OF le]]])
    show "distinct (map slot_or_zero ?n)" using d' by simp
  qed (use asc in auto)
  have "\<forall>p \<in> set (renumber m ?o). vp_slot p \<noteq> None"
  proof
    fix p assume "p \<in> set (renumber m ?o)"
    then have "vp_slot p \<in> set (map vp_slot (renumber m ?o))" by simp
    then show "vp_slot p \<noteq> None" unfolding slots by auto
  qed
  then have "\<forall>p \<in> set (renumber m pages). vp_slot p \<noteq> None" using ms by (metis set_mset_mset)
  then have "repairedVerbSlots locale_le (renumber m pages) = None"
    using healthy_sorted_iff [OF le] d' by (simp add: repairedVerbSlots_def Let_def)
  moreover have "map vp_name (renumber m ?o) = map vp_name ?o" by (simp add: renumber_def)
  ultimately show ?thesis using slots eq by simp
qed

theorem repairedVerbSlots_order_witness:
  "repairedVerbSlots (\<le>) (renumber [(''a'', 1), (''b'', 2)]
     [\<lparr>vp_name = ''b'', vp_slot = Some 1\<rparr>, \<lparr>vp_name = ''a'', vp_slot = Some 1\<rparr>]) = None"
proof -
  have "repairedVerbSlots (\<le>) [\<lparr>vp_name = ''b'', vp_slot = Some 1\<rparr>, \<lparr>vp_name = ''a'', vp_slot = Some 1\<rparr>]
      = Some [(''a'', 1), (''b'', 2)]"
    by code_simp
  from repairedVerbSlots_order [OF total_code_unit _ this] show ?thesis by simp
qed

section \<open>Abbreviations\<close>

lemma js_trim_id: "s \<noteq> [] \<Longrightarrow> \<not> js_space (hd s) \<Longrightarrow> \<not> js_space (last s) \<Longrightarrow> js_trim s = s"
proof -
  assume a: "s \<noteq> []" "\<not> js_space (hd s)" "\<not> js_space (last s)"
  then have "dropWhile js_space s = s" "dropWhile js_space (rev s) = rev s"
    by (simp_all add: dropWhile_eq_self_iff hd_rev)
  then show "js_trim s = s" by (simp add: js_trim_def)
qed

lemma index_of_append: "x \<notin> set xs \<Longrightarrow> index_of x (xs @ x # ys) = int (length xs)"
  by (induction xs) (auto simp: Let_def)

text \<open>In a one-alternative pattern with an abbreviation star before its last character, a word
  names the verb exactly when it is a non-empty prefix of the full name that reaches at least to
  the star (or is the pattern text itself).\<close>

theorem verbAliasMatches_abbreviation:
  assumes "post \<noteq> []" "list_all (\<lambda>c. \<not> js_space c) (pre @ post)"
    and "CHR ''*'' \<notin> set pre" "CHR ''|'' \<notin> set (pre @ post)"
  shows "verbAliasMatches (pre @ ''*'' @ post) name \<longleftrightarrow>
    name = pre @ ''*'' @ post
    \<or> (starts_with name (pre @ post) \<and> length name \<ge> 1 \<and> length name \<ge> length pre)"
proof -
  let ?p = "pre @ CHR ''*'' # post"
  have "\<not> js_space (hd ?p)" using assms(2) by (cases pre) (auto simp: js_space_def)
  moreover have "\<not> js_space (last ?p)" using assms(1,2) by (auto simp: list_all_iff)
  ultimately have trim: "js_trim ?p = ?p" by (intro js_trim_id) auto
  have "split_on (CHR ''|'') ?p = [?p]" using assms(4) by (intro split_on_no_sep) auto
  then have "verbAliasMatches ?p name = segment_matches ?p name" by (simp add: verbAliasMatches_def)
  also have "\<dots> \<longleftrightarrow> name = ?p \<or> (starts_with name (pre @ post) \<and> length name \<ge> 1 \<and> length name \<ge> length pre)"
    using assms(1) by (auto simp: segment_matches_def trim Let_def index_of_append [OF assms(3)])
  finally show ?thesis by simp
qed

theorem verbAliasMatches_abbreviation_witness:
  "verbAliasMatches ''@exam*ine'' ''@exam'' \<and> verbAliasMatches ''@exam*ine'' ''@examin''
    \<and> \<not> verbAliasMatches ''@exam*ine'' ''@exa''"
  using verbAliasMatches_abbreviation [of "''ine''" "''@exam''"]
  by (simp add: starts_with_def js_space_def)

end
