(* ===== verification/Replay_Pages.thy ===== *)
theory Replay_Pages
  imports Cells
begin

text \<open>
  Replay pages: one bounded window of a space's committed log, its query key, its content version
  and the guards on a page received from an authority (\<open>src/core/replay-page.ts\<close>,
  \<open>src/net/replay-pages.ts\<close>).
\<close>

definition REPLAY_PAGE_MAX_LIMIT :: int where
  "REPLAY_PAGE_MAX_LIMIT = 1000"

definition REPLAY_PAGE_DEFAULT_LIMIT :: int where
  "REPLAY_PAGE_DEFAULT_LIMIT = 100"

record replay_page_query =
  rq_space :: string
  rq_from :: int
  rq_limit :: int

definition validReplayPageBounds :: "int \<Rightarrow> int \<Rightarrow> bool" where
  "validReplayPageBounds from' limit \<longleftrightarrow> from' \<ge> 1 \<and> limit \<ge> 1 \<and> limit \<le> REPLAY_PAGE_MAX_LIMIT"

definition replayPageQueryKey :: "replay_page_query \<Rightarrow> string" where
  "replayPageQueryKey q = rq_space q @ [CHR 0x00] @ show_int (rq_from q) @ [CHR 0x00] @ show_int (rq_limit q)"

record replay_log_entry =
  le_space :: string
  le_seq :: int
  le_ts :: int
  le_actor :: string
  le_message :: json
  le_observations :: "json list"
  le_applied_ok :: bool
  le_error :: "json option"

definition log_entry_json :: "replay_log_entry \<Rightarrow> json" where
  "log_entry_json e = JObj ([(''space'', JStr (le_space e)), (''seq'', JNum (le_seq e)), (''ts'', JNum (le_ts e)),
     (''actor'', JStr (le_actor e)), (''message'', le_message e), (''observations'', JArr (le_observations e)),
     (''applied_ok'', JBool (le_applied_ok e))]
     @ (case le_error e of None \<Rightarrow> [] | Some err \<Rightarrow> [(''error'', err)]))"

definition replayPageVersion :: "replay_log_entry list \<Rightarrow> string" where
  "replayPageVersion entries = cellVersion (JArr (map log_entry_json entries))"

text \<open>The loop over the rows of a received page, carrying the previous sequence number.\<close>

fun valid_page_rows :: "replay_page_query \<Rightarrow> int \<Rightarrow> json list \<Rightarrow> bool" where
  "valid_page_rows q priorSeq [] = True"
| "valid_page_rows q priorSeq (candidate # rest) =
     (let entry = Some candidate in
      is_jobj entry
      \<and> jprop entry ''space'' = Some (JStr (rq_space q))
      \<and> (case jnum (jprop entry ''seq'') of
           None \<Rightarrow> False
         | Some seq \<Rightarrow> \<not> (seq < rq_from q \<or> seq \<le> priorSeq)
             \<and> jnum (jprop entry ''ts'') \<noteq> None
             \<and> jstr_nonempty (jprop entry ''actor'') \<noteq> None
             \<and> (case jprop entry ''observations'' of Some (JArr _) \<Rightarrow> True | _ \<Rightarrow> False)
             \<and> (case jprop entry ''applied_ok'' of Some (JBool _) \<Rightarrow> True | _ \<Rightarrow> False)
             \<and> valid_page_rows q seq rest))"

definition validReplayLogPage :: "json \<Rightarrow> replay_page_query \<Rightarrow> bool" where
  "validReplayLogPage v q = (case v of
      JArr xs \<Rightarrow> \<not> int (length xs) > rq_limit q \<and> valid_page_rows q (rq_from q - 1) xs
    | _ \<Rightarrow> False)"

definition validReplayPageQuery :: "json \<Rightarrow> bool" where
  "validReplayPageQuery v = (case (jstr_nonempty (jprop (Some v) ''space''), jnum (jprop (Some v) ''from''), jnum (jprop (Some v) ''limit'')) of
      (Some _, Some from', Some limit) \<Rightarrow> validReplayPageBounds from' limit
    | _ \<Rightarrow> False)"

section \<open>What a valid page is\<close>

text \<open>The entries of a page, as the guard reads them: in the window and strictly increasing.\<close>

lemma valid_page_rows_entries:
  "valid_page_rows q prior (map log_entry_json es) \<longleftrightarrow>
     sorted_wrt (<) (map le_seq es)
     \<and> (\<forall>e \<in> set es. le_space e = rq_space q \<and> rq_from q \<le> le_seq e \<and> prior < le_seq e \<and> le_actor e \<noteq> [])"
proof (induction es arbitrary: prior)
  case (Cons e es)
  have "valid_page_rows q prior (map log_entry_json (e # es)) \<longleftrightarrow>
      le_space e = rq_space q \<and> rq_from q \<le> le_seq e \<and> prior < le_seq e \<and> le_actor e \<noteq> []
      \<and> valid_page_rows q (le_seq e) (map log_entry_json es)"
    by (auto simp: log_entry_json_def Let_def)
  then show ?case unfolding Cons.IH by fastforce
qed simp

lemma validReplayLogPage_iff:
  "validReplayLogPage (JArr (map log_entry_json es)) q \<longleftrightarrow>
     int (length es) \<le> rq_limit q \<and> sorted_wrt (<) (map le_seq es)
     \<and> (\<forall>e \<in> set es. le_space e = rq_space q \<and> rq_from q \<le> le_seq e \<and> le_actor e \<noteq> [])"
  unfolding validReplayLogPage_def by (auto simp: valid_page_rows_entries)

text \<open>Decimal text is injective, so the separator makes a query key unambiguous.\<close>

lemma show_nat_digits: "c \<in> set (show_nat n) \<Longrightarrow> 48 \<le> (of_char c :: nat)"
proof (induction n rule: show_nat.induct)
  case (1 n)
  have "48 \<le> (of_char (char_of (48 + m) :: char) :: nat)" if "m < 10" for m :: nat using that by simp
  then show ?case using 1 by (subst (asm) (2) show_nat.simps) (auto split: if_splits)
qed

lemma show_nat_no_sign: "CHR ''-'' \<notin> set (show_nat n)" "CHR 0x00 \<notin> set (show_nat n)"
  using show_nat_digits by fastforce+

lemma show_int_no_nul: "CHR 0x00 \<notin> set (show_int i)"
  by (simp add: show_int_def show_nat_no_sign)

lemma digits_value_append: "digits_value (xs @ ys) acc = digits_value ys (digits_value xs acc)"
  by (induction xs arbitrary: acc) auto

lemma digits_value_show_nat: "digits_value (show_nat n) 0 = n"
proof (induction n rule: show_nat.induct)
  case (1 n)
  show ?case
  proof (cases "n < 10")
    case True
    then show ?thesis by (subst show_nat.simps) simp
  next
    case False
    then have "digits_value (show_nat n) 0 = 10 * (n div 10) + n mod 10"
      using 1 by (subst show_nat.simps) (simp add: digits_value_append)
    then show ?thesis by simp
  qed
qed

lemma show_nat_inj: "show_nat a = show_nat b \<Longrightarrow> a = b"
  by (metis digits_value_show_nat)

lemma show_int_inj: "show_int a = show_int b \<Longrightarrow> a = b"
proof -
  assume eq: "show_int a = show_int b"
  have hd: "\<not> CHR ''-'' # xs = show_nat n" "\<not> show_nat n = CHR ''-'' # xs" for xs n
    using show_nat_no_sign(1) [of n] by (metis list.set_intros(1))+
  show "a = b" using eq by (auto simp: show_int_def hd dest!: show_nat_inj split: if_splits)
qed

lemma sep_tail_inj:
  assumes "x \<notin> set b" "x \<notin> set d" "a @ x # b = c @ x # d"
  shows "a = c \<and> b = d"
  using assms by (auto simp: append_eq_append_conv2 Cons_eq_append_conv append_eq_Cons_conv)

text \<open>A replay-page query key determines its query: the key of one exact window is never the
  key of another space, start or limit, whatever the space name contains.\<close>

theorem replayPageQueryKey_inj:
  "replayPageQueryKey q = replayPageQueryKey r \<longleftrightarrow> q = (r :: replay_page_query)"
proof
  assume k: "replayPageQueryKey q = replayPageQueryKey r"
  let ?z = "CHR 0x00"
  have "(rq_space q @ ?z # show_int (rq_from q)) @ ?z # show_int (rq_limit q)
      = (rq_space r @ ?z # show_int (rq_from r)) @ ?z # show_int (rq_limit r)"
    using k by (simp add: replayPageQueryKey_def)
  from sep_tail_inj [OF show_int_no_nul show_int_no_nul this]
  have 1: "rq_space q @ ?z # show_int (rq_from q) = rq_space r @ ?z # show_int (rq_from r)"
    "rq_limit q = rq_limit r" by (auto dest: show_int_inj)
  from sep_tail_inj [OF show_int_no_nul show_int_no_nul 1(1)]
  show "q = r" using 1(2) by (auto dest: show_int_inj)
qed simp

end
