(* ===== verification/Failed_Effects.thy ===== *)
theory Failed_Effects
  imports Transcript Verb_Slots
begin

text \<open>
  Admission of failed turns (\<open>src/core/failed-transcript-effects.ts\<close>): a transcript that carries an
  error is inspected field by field against the classification of its vocabulary, which the net
  layer widens (\<open>src/net/transcript.ts\<close>). The report counts effects per category and lists the
  reasons the transcript is not a clean failure. Also the stable JSON text of
  \<open>src/core/shadow-cell-version.ts\<close> by which an error observation is recognized.
\<close>

section \<open>Vocabulary\<close>

definition FAILED_TRANSCRIPT_EFFECTS_CLEAN_GENERATION :: int where
  "FAILED_TRANSCRIPT_EFFECTS_CLEAN_GENERATION = 1"

datatype effect_category =
    C_allocation_writes | C_behavior_writes | C_creates | C_moves | C_recycles
  | C_session_scope_transitions | C_projection_writes | C_schedules | C_cancellations
  | C_domain_observations | C_canonical_error_observations | C_untracked_effects | C_results
  | C_unclassified_fields

datatype effect_reason =
    R_behavior_writes | R_creates | R_moves | R_recycles | R_session_scope_transition
  | R_projection_writes | R_schedules | R_cancellations | R_domain_observations
  | R_untracked_effects | R_result_present | R_allocation_at_non_owner | R_allocation_count
  | R_allocation_shape | R_allocation_read | R_error_observation_count
  | R_error_observation_shape | R_unclassified_fields

definition REASON_ORDER :: "effect_reason list" where
  "REASON_ORDER =
    [R_behavior_writes, R_creates, R_moves, R_recycles, R_session_scope_transition,
     R_projection_writes, R_schedules, R_cancellations, R_domain_observations, R_untracked_effects,
     R_result_present, R_allocation_at_non_owner, R_allocation_count, R_allocation_shape,
     R_allocation_read, R_error_observation_count, R_error_observation_shape, R_unclassified_fields]"

datatype effects_policy = Not_failed | Observe | Enforce

datatype field_class = F_envelope | F_proof | F_effect | F_outcome | F_integrity

definition FAILED_TRANSCRIPT_FIELD_CLASSIFICATION :: "(string \<times> field_class) list" where
  "FAILED_TRANSCRIPT_FIELD_CLASSIFICATION =
    [(''kind'', F_envelope), (''failureEffectsGeneration'', F_integrity), (''id'', F_envelope),
     (''route'', F_envelope), (''scope'', F_envelope), (''space'', F_envelope), (''seq'', F_envelope),
     (''session'', F_envelope), (''call'', F_envelope), (''reads'', F_proof), (''stateProbes'', F_proof),
     (''writes'', F_effect), (''creates'', F_effect), (''moves'', F_effect), (''recycles'', F_effect),
     (''schedules'', F_effect), (''cancellations'', F_effect), (''sessionScopeTransition'', F_effect),
     (''projectionWrites'', F_effect), (''observations'', F_outcome), (''logicalInputs'', F_proof),
     (''untrackedEffects'', F_effect), (''result'', F_outcome), (''error'', F_outcome),
     (''complete'', F_integrity), (''incompleteReasons'', F_integrity), (''hash'', F_integrity)]"

definition NET_FAILED_TRANSCRIPT_FIELD_CLASSIFICATION :: "(string \<times> field_class) list" where
  "NET_FAILED_TRANSCRIPT_FIELD_CLASSIFICATION = FAILED_TRANSCRIPT_FIELD_CLASSIFICATION @
    [(''exclusiveMint'', F_envelope), (''sessionClose'', F_envelope), (''orderingReads'', F_proof),
     (''replayReads'', F_proof), (''principal'', F_envelope), (''trace'', F_envelope)]"

record effects_report =
  fe_route :: turn_route
  fe_policy :: effects_policy
  fe_generation :: "int option"
  fe_valid :: bool
  fe_counts :: "effect_category \<Rightarrow> nat"
  fe_reasons :: "effect_reason list"

section \<open>Stable JSON text\<close>

fun stableShadowJson :: "json \<Rightarrow> string" where
  "stableShadowJson JNull = ''null''"
| "stableShadowJson (JBool b) = (if b then ''true'' else ''false'')"
| "stableShadowJson (JNum n) = show_int n"
| "stableShadowJson (JStr s) = json_string s"
| "stableShadowJson (JArr xs) = ''['' @ join_with '','' (map stableShadowJson xs) @ '']''"
| "stableShadowJson (JObj kvs) =
     ''{'' @ join_with '','' (map snd (sort_key fst
       (map (\<lambda>(k, v). (k, json_string k @ '':'' @ stableShadowJson v)) kvs))) @ ''}''"

text \<open>\<open>a ?? b\<close>: \<open>null\<close> and \<open>undefined\<close> give way.\<close>

definition nullish :: "json option \<Rightarrow> json option \<Rightarrow> json option" where
  "nullish a b = (case a of None \<Rightarrow> b | Some JNull \<Rightarrow> b | Some v \<Rightarrow> Some v)"

definition present :: "string \<Rightarrow> json option \<Rightarrow> (string \<times> json) list" where
  "present k v = (case v of None \<Rightarrow> [] | Some x \<Rightarrow> [(k, x)])"

definition canonical_error :: "json \<Rightarrow> json" where
  "canonical_error err = JObj ([(''type'', JStr ''$error'')]
     @ present ''code'' (jprop (Some err) ''code'')
     @ present ''message'' (nullish (jprop (Some err) ''message'') (jprop (Some err) ''code''))
     @ present ''value'' (nullish (jprop (Some err) ''value'') (Some JNull))
     @ present ''trace'' (nullish (jprop (Some err) ''trace'') (Some (JArr []))))"

definition isCanonicalErrorObservation :: "json \<Rightarrow> json \<Rightarrow> bool" where
  "isCanonicalErrorObservation err observation \<longleftrightarrow>
     stableShadowJson observation = stableShadowJson (canonical_error err)"

section \<open>Inspection\<close>

text \<open>The mutable inspection: counts, the reason set, the unclassified field names.\<close>

record inspection =
  in_counts :: "effect_category \<Rightarrow> nat"
  in_reasons :: "effect_reason list"
  in_unclassified :: "string list"

definition set_count :: "effect_category \<Rightarrow> nat \<Rightarrow> inspection \<Rightarrow> inspection" where
  "set_count c n i = i\<lparr>in_counts := (in_counts i)(c := n)\<rparr>"

definition add_reason :: "effect_reason \<Rightarrow> inspection \<Rightarrow> inspection" where
  "add_reason r i = i\<lparr>in_reasons := js_add r (in_reasons i)\<rparr>"

definition reason_when :: "bool \<Rightarrow> effect_reason \<Rightarrow> inspection \<Rightarrow> inspection" where
  "reason_when b r i = (if b then add_reason r i else i)"

text \<open>\<open>counts.c = n; if (n > 0) reasons.add(r)\<close>.\<close>

definition count_field :: "effect_category \<Rightarrow> effect_reason \<Rightarrow> nat \<Rightarrow> inspection \<Rightarrow> inspection" where
  "count_field c r n i = reason_when (n > 0) r (set_count c n i)"

definition classifyAllocation :: "transcript \<Rightarrow> transcript_write list \<Rightarrow> bool \<Rightarrow> inspection \<Rightarrow> inspection" where
  "classifyAllocation t allocationWrites ownsSequencingSpace i =
     (if t_route t \<noteq> Sequenced then i
      else if \<not> ownsSequencingSpace then reason_when (allocationWrites \<noteq> []) R_allocation_at_non_owner i
      else case allocationWrites of
        [w] \<Rightarrow>
          let i' = reason_when (t_seq t < 1 \<or> tw_op w \<noteq> Op_set \<or> tw_value w \<noteq> JNum (t_seq t + 1)) R_allocation_shape i;
              matchingReads = filter (\<lambda>r. isSequencedAllocationCell t (tr_cell r) \<and> tr_value r = JNum (t_seq t)
                \<and> tr_version r \<noteq> None) (t_reads t)
          in reason_when (length matchingReads \<noteq> 1) R_allocation_read i'
      | _ \<Rightarrow> add_reason R_allocation_count i)"

definition classifyObservations :: "json \<Rightarrow> turn_route \<Rightarrow> json list \<Rightarrow> inspection \<Rightarrow> inspection" where
  "classifyObservations err route observations i =
     (let canonical = filter (isCanonicalErrorObservation err) observations;
          i1 = set_count C_canonical_error_observations (length canonical) i;
          i2 = count_field C_domain_observations R_domain_observations (length observations - length canonical) i1;
          expected = (if route = Sequenced then 1 else 0);
          i3 = reason_when (length observations \<noteq> expected) R_error_observation_count i2
      in reason_when (route = Sequenced \<and> length canonical \<noteq> 1) R_error_observation_shape i3)"

definition inspect_writes :: "transcript \<Rightarrow> bool \<Rightarrow> inspection \<Rightarrow> inspection" where
  "inspect_writes t owns i =
     (let allocationWrites = filter (\<lambda>w. isSequencedAllocationCell t (tw_cell w)) (t_writes t);
          behaviorWrites = length (t_writes t) - length allocationWrites;
          i1 = set_count C_allocation_writes (length allocationWrites) i;
          i2 = count_field C_behavior_writes R_behavior_writes behaviorWrites i1
      in classifyAllocation t allocationWrites owns i2)"

definition CORE_EFFECT_FIELD_INSPECTORS ::
    "(string \<times> (transcript \<Rightarrow> bool \<Rightarrow> inspection \<Rightarrow> inspection)) list" where
  "CORE_EFFECT_FIELD_INSPECTORS =
    [(''writes'', inspect_writes),
     (''creates'', \<lambda>t owns. count_field C_creates R_creates (length (t_creates t))),
     (''moves'', \<lambda>t owns. count_field C_moves R_moves (length (t_moves t))),
     (''recycles'', \<lambda>t owns. count_field C_recycles R_recycles (length (t_recycles t))),
     (''schedules'', \<lambda>t owns. count_field C_schedules R_schedules (length (t_schedules t))),
     (''cancellations'', \<lambda>t owns. count_field C_cancellations R_cancellations (length (t_cancellations t))),
     (''sessionScopeTransition'', \<lambda>t owns. count_field C_session_scope_transitions R_session_scope_transition
        (if t_sessionScopeTransition t = None then 0 else 1)),
     (''projectionWrites'', \<lambda>t owns. count_field C_projection_writes R_projection_writes (length (t_projectionWrites t))),
     (''untrackedEffects'', \<lambda>t owns. count_field C_untracked_effects R_untracked_effects (length (t_untrackedEffects t)))]"

definition CORE_OUTCOME_FIELD_INSPECTORS ::
    "(string \<times> (transcript \<Rightarrow> bool \<Rightarrow> inspection \<Rightarrow> inspection)) list" where
  "CORE_OUTCOME_FIELD_INSPECTORS =
    [(''observations'', \<lambda>t owns i. (case t_error t of None \<Rightarrow> i
        | Some err \<Rightarrow> classifyObservations err (t_route t) (t_observations t) i)),
     (''result'', \<lambda>t owns. count_field C_results R_result_present (if t_result t = None then 0 else 1)),
     (''error'', \<lambda>t owns i. i)]"

text \<open>
  \<open>Object.keys(transcript)\<close>: the declared fields that are present (an array field of the model is
  always there; an empty one counts nothing) and the undeclared names.
\<close>

definition key_when :: "bool \<Rightarrow> string \<Rightarrow> string list" where
  "key_when b k = (if b then [k] else [])"

definition transcript_keys :: "transcript \<Rightarrow> string list" where
  "transcript_keys t =
     [''kind'', ''route'', ''scope'', ''seq'', ''call'', ''reads'', ''stateProbes'', ''writes'', ''creates'', ''moves'',
      ''recycles'', ''schedules'', ''cancellations'', ''projectionWrites'', ''observations'', ''logicalInputs'',
      ''untrackedEffects'', ''complete'', ''incompleteReasons'', ''hash'', ''orderingReads'', ''replayReads'']
     @ key_when (t_failureEffectsGeneration t \<noteq> None) ''failureEffectsGeneration''
     @ key_when (t_id t \<noteq> None) ''id''
     @ key_when (t_space t \<noteq> None) ''space''
     @ key_when (t_session t \<noteq> None) ''session''
     @ key_when (t_sessionScopeTransition t \<noteq> None) ''sessionScopeTransition''
     @ key_when (t_result t \<noteq> None) ''result''
     @ key_when (t_error t \<noteq> None) ''error''
     @ key_when (t_exclusiveMint t) ''exclusiveMint''
     @ key_when (t_sessionClose t) ''sessionClose''
     @ key_when (t_principal t \<noteq> None) ''principal''
     @ key_when (t_trace t \<noteq> None) ''trace''
     @ t_extra t"

definition add_unclassified :: "string \<Rightarrow> inspection \<Rightarrow> inspection" where
  "add_unclassified fld i = i\<lparr>in_unclassified := js_add fld (in_unclassified i)\<rparr>"

definition inspect_field :: "transcript \<Rightarrow> bool \<Rightarrow> string \<times> field_class \<Rightarrow> inspection \<Rightarrow> inspection" where
  "inspect_field t owns fc i = (case fc of (fld, cls) \<Rightarrow>
     if fld \<notin> set (transcript_keys t) then i
     else if cls = F_effect then
       (case map_of CORE_EFFECT_FIELD_INSPECTORS fld of Some ins \<Rightarrow> ins t owns i | None \<Rightarrow> add_unclassified fld i)
     else if cls = F_outcome then
       (case map_of CORE_OUTCOME_FIELD_INSPECTORS fld of Some ins \<Rightarrow> ins t owns i | None \<Rightarrow> add_unclassified fld i)
     else i)"

definition runtimeGeneration :: "int option \<Rightarrow> int option" where
  "runtimeGeneration v = (case v of Some n \<Rightarrow> if is_safe_integer n \<and> n \<ge> 0 then Some n else None | None \<Rightarrow> None)"

definition empty_inspection :: inspection where
  "empty_inspection = \<lparr>in_counts = (\<lambda>_. 0), in_reasons = [], in_unclassified = []\<rparr>"

definition classifyFailedTranscriptEffects ::
    "transcript \<Rightarrow> bool \<Rightarrow> (string \<times> field_class) list \<Rightarrow> effects_report" where
  "classifyFailedTranscriptEffects t ownsSequencingSpace fieldClassification =
     (let generation = runtimeGeneration (t_failureEffectsGeneration t);
          policy = (if t_error t = None then Not_failed
                    else if generation = Some FAILED_TRANSCRIPT_EFFECTS_CLEAN_GENERATION then Enforce else Observe)
      in if t_error t = None
         then \<lparr>fe_route = t_route t, fe_policy = policy, fe_generation = generation, fe_valid = True,
               fe_counts = (\<lambda>_. 0), fe_reasons = []\<rparr>
         else
           let i0 = fold (\<lambda>fld i. if jm_has fieldClassification fld then i else add_unclassified fld i)
                      (transcript_keys t) empty_inspection;
               i1 = fold (inspect_field t ownsSequencingSpace) fieldClassification i0;
               i2 = count_field C_unclassified_fields R_unclassified_fields (length (in_unclassified i1)) i1;
               orderedReasons = filter (\<lambda>r. r \<in> set (in_reasons i2)) REASON_ORDER
           in \<lparr>fe_route = t_route t, fe_policy = policy, fe_generation = generation,
               fe_valid = (orderedReasons = []), fe_counts = in_counts i2, fe_reasons = orderedReasons\<rparr>)"

section \<open>What a clean failure is\<close>

text \<open>
  The specification: a failed turn carries no behaviour effect. A sequenced one still consumes its
  sequence number at the owner of its space and logs exactly its own error.
\<close>

definition allocation_clean :: "transcript \<Rightarrow> bool \<Rightarrow> bool" where
  "allocation_clean t owns \<longleftrightarrow> t_route t = Sequenced \<longrightarrow>
     (if \<not> owns then filter (\<lambda>w. isSequencedAllocationCell t (tw_cell w)) (t_writes t) = []
      else \<exists>w. filter (\<lambda>w. isSequencedAllocationCell t (tw_cell w)) (t_writes t) = [w]
        \<and> 1 \<le> t_seq t \<and> tw_op w = Op_set \<and> tw_value w = JNum (t_seq t + 1)
        \<and> length (filter (\<lambda>r. isSequencedAllocationCell t (tr_cell r) \<and> tr_value r = JNum (t_seq t)
             \<and> tr_version r \<noteq> None) (t_reads t)) = 1)"

definition clean_failure :: "transcript \<Rightarrow> bool \<Rightarrow> json \<Rightarrow> bool" where
  "clean_failure t owns err \<longleftrightarrow>
     list_all (\<lambda>w. isSequencedAllocationCell t (tw_cell w)) (t_writes t)
     \<and> allocation_clean t owns
     \<and> t_creates t = [] \<and> t_moves t = [] \<and> t_recycles t = [] \<and> t_schedules t = [] \<and> t_cancellations t = []
     \<and> t_sessionScopeTransition t = None \<and> t_projectionWrites t = [] \<and> t_untrackedEffects t = []
     \<and> t_result t = None
     \<and> (if t_route t = Sequenced
        then \<exists>o'. t_observations t = [o'] \<and> isCanonicalErrorObservation err o'
        else t_observations t = [])
     \<and> list_all (jm_has NET_FAILED_TRANSCRIPT_FIELD_CLASSIFICATION) (t_extra t)"

named_theorems inspection_laws "what the inspectors do to the reason set"

lemma reason_when_nil [inspection_laws]: "in_reasons (reason_when b r i) = [] \<longleftrightarrow> \<not> b \<and> in_reasons i = []"
  by (auto simp: reason_when_def add_reason_def js_add_def)

lemma set_count_reasons [inspection_laws]: "in_reasons (set_count c n i) = in_reasons i"
  by (simp add: set_count_def)

lemma count_field_nil [inspection_laws]: "in_reasons (count_field c r n i) = [] \<longleftrightarrow> n = 0 \<and> in_reasons i = []"
  by (simp add: count_field_def inspection_laws)

lemma add_reason_nil [inspection_laws]: "in_reasons (add_reason r i) \<noteq> []"
  by (auto simp: add_reason_def js_add_def)

lemma unclassified_kept [inspection_laws]:
  "in_unclassified (reason_when b r i) = in_unclassified i"
  "in_unclassified (set_count c n i) = in_unclassified i"
  "in_unclassified (count_field c r n i) = in_unclassified i"
  "in_unclassified (add_reason r i) = in_unclassified i"
  by (simp_all add: reason_when_def add_reason_def set_count_def count_field_def)

lemma classifyAllocation_laws [inspection_laws]:
  "in_unclassified (classifyAllocation t ws owns i) = in_unclassified i"
  "ws = filter (\<lambda>w. isSequencedAllocationCell t (tw_cell w)) (t_writes t) \<Longrightarrow>
   in_reasons (classifyAllocation t ws owns i) = [] \<longleftrightarrow> allocation_clean t owns \<and> in_reasons i = []"
proof -
  show "in_unclassified (classifyAllocation t ws owns i) = in_unclassified i"
    by (simp add: classifyAllocation_def Let_def inspection_laws split: list.splits)
  assume ws: "ws = filter (\<lambda>w. isSequencedAllocationCell t (tw_cell w)) (t_writes t)"
  show "in_reasons (classifyAllocation t ws owns i) = [] \<longleftrightarrow> allocation_clean t owns \<and> in_reasons i = []"
    unfolding classifyAllocation_def allocation_clean_def ws [symmetric]
    by (auto simp: Let_def inspection_laws split: list.splits)
qed

lemma classifyObservations_laws [inspection_laws]:
  "in_unclassified (classifyObservations err route obs i) = in_unclassified i"
  "in_reasons (classifyObservations err route obs i) = [] \<longleftrightarrow> in_reasons i = [] \<and>
     (if route = Sequenced then \<exists>o'. obs = [o'] \<and> isCanonicalErrorObservation err o' else obs = [])"
proof -
  show "in_unclassified (classifyObservations err route obs i) = in_unclassified i"
    by (simp add: classifyObservations_def Let_def inspection_laws)
  have len: "length (filter p xs) \<le> length xs" for p and xs :: "json list" by simp
  have "(length obs = 1 \<and> length (filter (isCanonicalErrorObservation err) obs) = 1)
      \<longleftrightarrow> (\<exists>o'. obs = [o'] \<and> isCanonicalErrorObservation err o')"
    by (auto simp: length_Suc_conv split: if_splits)
  then show "in_reasons (classifyObservations err route obs i) = [] \<longleftrightarrow> in_reasons i = [] \<and>
     (if route = Sequenced then \<exists>o'. obs = [o'] \<and> isCanonicalErrorObservation err o' else obs = [])"
    by (auto simp: classifyObservations_def Let_def inspection_laws)
qed

lemma inspect_writes_laws [inspection_laws]:
  "in_unclassified (inspect_writes t owns i) = in_unclassified i"
  "in_reasons (inspect_writes t owns i) = [] \<longleftrightarrow> in_reasons i = []
     \<and> list_all (\<lambda>w. isSequencedAllocationCell t (tw_cell w)) (t_writes t) \<and> allocation_clean t owns"
proof -
  have rest: "length ws - length (filter p ws) = 0 \<longleftrightarrow> list_all p ws" for p and ws :: "transcript_write list"
  proof -
    have "length ws - length (filter p ws) = length (filter (\<lambda>x. \<not> p x) ws)"
      using sum_length_filter_compl [of p ws] by linarith
    then show ?thesis by (simp add: list_all_iff filter_empty_conv)
  qed
  show "in_unclassified (inspect_writes t owns i) = in_unclassified i"
    "in_reasons (inspect_writes t owns i) = [] \<longleftrightarrow> in_reasons i = []
     \<and> list_all (\<lambda>w. isSequencedAllocationCell t (tw_cell w)) (t_writes t) \<and> allocation_clean t owns"
    using rest [of "t_writes t" "\<lambda>w. isSequencedAllocationCell t (tw_cell w)"]
    by (auto simp: inspect_writes_def Let_def inspection_laws)
qed

lemma inspect_field_skip: "cls \<noteq> F_effect \<Longrightarrow> cls \<noteq> F_outcome \<Longrightarrow> inspect_field t owns (fld, cls) i = i"
  by (simp add: inspect_field_def)

lemma inspect_effect:
  assumes "map_of CORE_EFFECT_FIELD_INSPECTORS fld = Some ins"
  shows "inspect_field t owns (fld, F_effect) i = (if fld \<in> set (transcript_keys t) then ins t owns i else i)"
  using assms by (simp add: inspect_field_def)

lemma inspect_outcome:
  assumes "map_of CORE_OUTCOME_FIELD_INSPECTORS fld = Some ins"
  shows "inspect_field t owns (fld, F_outcome) i = (if fld \<in> set (transcript_keys t) then ins t owns i else i)"
  using assms by (simp add: inspect_field_def)

lemma effect_inspectors:
  "map_of CORE_EFFECT_FIELD_INSPECTORS ''writes'' = Some inspect_writes"
  "map_of CORE_EFFECT_FIELD_INSPECTORS ''creates'' = Some (\<lambda>t owns. count_field C_creates R_creates (length (t_creates t)))"
  "map_of CORE_EFFECT_FIELD_INSPECTORS ''moves'' = Some (\<lambda>t owns. count_field C_moves R_moves (length (t_moves t)))"
  "map_of CORE_EFFECT_FIELD_INSPECTORS ''recycles'' = Some (\<lambda>t owns. count_field C_recycles R_recycles (length (t_recycles t)))"
  "map_of CORE_EFFECT_FIELD_INSPECTORS ''schedules'' = Some (\<lambda>t owns. count_field C_schedules R_schedules (length (t_schedules t)))"
  "map_of CORE_EFFECT_FIELD_INSPECTORS ''cancellations'' =
     Some (\<lambda>t owns. count_field C_cancellations R_cancellations (length (t_cancellations t)))"
  "map_of CORE_EFFECT_FIELD_INSPECTORS ''sessionScopeTransition'' =
     Some (\<lambda>t owns. count_field C_session_scope_transitions R_session_scope_transition
        (if t_sessionScopeTransition t = None then 0 else 1))"
  "map_of CORE_EFFECT_FIELD_INSPECTORS ''projectionWrites'' =
     Some (\<lambda>t owns. count_field C_projection_writes R_projection_writes (length (t_projectionWrites t)))"
  "map_of CORE_EFFECT_FIELD_INSPECTORS ''untrackedEffects'' =
     Some (\<lambda>t owns. count_field C_untracked_effects R_untracked_effects (length (t_untrackedEffects t)))"
  by (simp_all add: CORE_EFFECT_FIELD_INSPECTORS_def)

lemma outcome_inspectors:
  "map_of CORE_OUTCOME_FIELD_INSPECTORS ''observations'' = Some (\<lambda>t owns i. (case t_error t of None \<Rightarrow> i
        | Some err \<Rightarrow> classifyObservations err (t_route t) (t_observations t) i))"
  "map_of CORE_OUTCOME_FIELD_INSPECTORS ''result'' =
     Some (\<lambda>t owns. count_field C_results R_result_present (if t_result t = None then 0 else 1))"
  "map_of CORE_OUTCOME_FIELD_INSPECTORS ''error'' = Some (\<lambda>t owns i. i)"
  by (simp_all add: CORE_OUTCOME_FIELD_INSPECTORS_def)

lemma key_when_simps [simp]:
  "set (key_when b k) = (if b then {k} else {})"
  "list_all p (key_when b k) \<longleftrightarrow> (b \<longrightarrow> p k)"
  by (simp_all add: key_when_def)

lemma transcript_keys_base:
  "set [''writes'', ''creates'', ''moves'', ''recycles'', ''schedules'', ''cancellations'', ''projectionWrites'',
    ''observations'', ''untrackedEffects''] \<subseteq> set (transcript_keys t)"
  by (simp add: transcript_keys_def)

lemma transcript_keys_optional:
  "t_sessionScopeTransition t \<noteq> None \<Longrightarrow> ''sessionScopeTransition'' \<in> set (transcript_keys t)"
  "t_result t \<noteq> None \<Longrightarrow> ''result'' \<in> set (transcript_keys t)"
  unfolding transcript_keys_def set_append key_when_simps by (simp_all del: if_split)

lemmas inspect_laws = inspect_effect [OF effect_inspectors(1)] inspect_effect [OF effect_inspectors(2)]
  inspect_effect [OF effect_inspectors(3)] inspect_effect [OF effect_inspectors(4)] inspect_effect [OF effect_inspectors(5)]
  inspect_effect [OF effect_inspectors(6)] inspect_effect [OF effect_inspectors(7)] inspect_effect [OF effect_inspectors(8)]
  inspect_effect [OF effect_inspectors(9)] inspect_outcome [OF outcome_inspectors(1)]
  inspect_outcome [OF outcome_inspectors(2)] inspect_outcome [OF outcome_inspectors(3)]

lemma net_inspection:
  assumes err: "t_error t = Some err"
  shows "in_unclassified (fold (inspect_field t owns) NET_FAILED_TRANSCRIPT_FIELD_CLASSIFICATION i) = in_unclassified i"
    and "in_reasons (fold (inspect_field t owns) NET_FAILED_TRANSCRIPT_FIELD_CLASSIFICATION i) = [] \<longleftrightarrow>
     in_reasons i = []
     \<and> list_all (\<lambda>w. isSequencedAllocationCell t (tw_cell w)) (t_writes t)
     \<and> allocation_clean t owns
     \<and> t_creates t = [] \<and> t_moves t = [] \<and> t_recycles t = [] \<and> t_schedules t = [] \<and> t_cancellations t = []
     \<and> t_sessionScopeTransition t = None \<and> t_projectionWrites t = [] \<and> t_untrackedEffects t = []
     \<and> t_result t = None
     \<and> (if t_route t = Sequenced
        then \<exists>o'. t_observations t = [o'] \<and> isCanonicalErrorObservation err o'
        else t_observations t = [])"
proof -
  have keys: "''writes'' \<in> set (transcript_keys t)" "''creates'' \<in> set (transcript_keys t)"
    "''moves'' \<in> set (transcript_keys t)" "''recycles'' \<in> set (transcript_keys t)"
    "''schedules'' \<in> set (transcript_keys t)" "''cancellations'' \<in> set (transcript_keys t)"
    "''projectionWrites'' \<in> set (transcript_keys t)" "''observations'' \<in> set (transcript_keys t)"
    "''untrackedEffects'' \<in> set (transcript_keys t)"
    using transcript_keys_base [of t] by simp_all
  have sst: "in_reasons (if ''sessionScopeTransition'' \<in> set (transcript_keys t)
        then count_field C_session_scope_transitions R_session_scope_transition
          (if t_sessionScopeTransition t = None then 0 else 1) j else j) = []
      \<longleftrightarrow> t_sessionScopeTransition t = None \<and> in_reasons j = []"
    "in_unclassified (if ''sessionScopeTransition'' \<in> set (transcript_keys t)
        then count_field C_session_scope_transitions R_session_scope_transition
          (if t_sessionScopeTransition t = None then 0 else 1) j else j) = in_unclassified j" for j
    using transcript_keys_optional(1) [of t] by (auto simp: inspection_laws)
  have res: "in_reasons (if ''result'' \<in> set (transcript_keys t)
        then count_field C_results R_result_present (if t_result t = None then 0 else 1) j else j) = []
      \<longleftrightarrow> t_result t = None \<and> in_reasons j = []"
    "in_unclassified (if ''result'' \<in> set (transcript_keys t)
        then count_field C_results R_result_present (if t_result t = None then 0 else 1) j else j) = in_unclassified j" for j
    using transcript_keys_optional(2) [of t] by (auto simp: inspection_laws)
  note step = inspect_field_skip inspect_laws keys if_True option.case err
  show "in_unclassified (fold (inspect_field t owns) NET_FAILED_TRANSCRIPT_FIELD_CLASSIFICATION i) = in_unclassified i"
    by (simp add: NET_FAILED_TRANSCRIPT_FIELD_CLASSIFICATION_def FAILED_TRANSCRIPT_FIELD_CLASSIFICATION_def
        step sst res inspection_laws del: if_split)
  show "in_reasons (fold (inspect_field t owns) NET_FAILED_TRANSCRIPT_FIELD_CLASSIFICATION i) = [] \<longleftrightarrow>
     in_reasons i = []
     \<and> list_all (\<lambda>w. isSequencedAllocationCell t (tw_cell w)) (t_writes t)
     \<and> allocation_clean t owns
     \<and> t_creates t = [] \<and> t_moves t = [] \<and> t_recycles t = [] \<and> t_schedules t = [] \<and> t_cancellations t = []
     \<and> t_sessionScopeTransition t = None \<and> t_projectionWrites t = [] \<and> t_untrackedEffects t = []
     \<and> t_result t = None
     \<and> (if t_route t = Sequenced
        then \<exists>o'. t_observations t = [o'] \<and> isCanonicalErrorObservation err o'
        else t_observations t = [])"
    by (simp add: NET_FAILED_TRANSCRIPT_FIELD_CLASSIFICATION_def FAILED_TRANSCRIPT_FIELD_CLASSIFICATION_def
        step sst res inspection_laws conj_ac del: if_split)
qed

lemma unclassified_fold:
  "in_reasons (fold (\<lambda>fld i. if jm_has cl fld then i else add_unclassified fld i) ks i) = in_reasons i"
  "in_unclassified (fold (\<lambda>fld i. if jm_has cl fld then i else add_unclassified fld i) ks i) = []
    \<longleftrightarrow> in_unclassified i = [] \<and> list_all (jm_has cl) ks"
  by (induction ks arbitrary: i) (auto simp: add_unclassified_def js_add_def)

lemma vocabulary_classified:
  "list_all (jm_has NET_FAILED_TRANSCRIPT_FIELD_CLASSIFICATION)
    (map fst NET_FAILED_TRANSCRIPT_FIELD_CLASSIFICATION)"
  unfolding list_all_iff jm_has_def by (auto simp: map_of_eq_None_iff)

lemma declared_keys_classified:
  "list_all (jm_has NET_FAILED_TRANSCRIPT_FIELD_CLASSIFICATION) (transcript_keys t)
    \<longleftrightarrow> list_all (jm_has NET_FAILED_TRANSCRIPT_FIELD_CLASSIFICATION) (t_extra t)"
  using vocabulary_classified
  unfolding NET_FAILED_TRANSCRIPT_FIELD_CLASSIFICATION_def [THEN arg_cong, of "map fst"]
    FAILED_TRANSCRIPT_FIELD_CLASSIFICATION_def [THEN arg_cong, of "map fst"]
  by (simp add: transcript_keys_def FAILED_TRANSCRIPT_FIELD_CLASSIFICATION_def)

lemma set_REASON_ORDER: "r \<in> set REASON_ORDER"
  by (cases r) (simp_all add: REASON_ORDER_def)

lemma classify_valid_iff:
  assumes err: "t_error t = Some err"
  shows "fe_valid (classifyFailedTranscriptEffects t owns NET_FAILED_TRANSCRIPT_FIELD_CLASSIFICATION) \<longleftrightarrow> clean_failure t owns err"
proof -
  have nil: "filter (\<lambda>r. r \<in> set rs) REASON_ORDER = [] \<longleftrightarrow> rs = []" for rs
    using set_REASON_ORDER by (cases rs) (auto simp: filter_empty_conv)
  show ?thesis
    using err by (simp add: classifyFailedTranscriptEffects_def Let_def nil inspection_laws net_inspection [OF err]
      unclassified_fold declared_keys_classified empty_inspection_def clean_failure_def conj_ac)
qed

text \<open>
  C34: under the net vocabulary the classifier accepts a failed transcript exactly when it is a clean
  failure: no write but the sequence allocation, no create, move, recycle, schedule, cancellation,
  transition, projection or untracked effect, no result, only the canonical error observation of a
  sequenced turn, a well-formed allocation at the owner, and no field outside the vocabulary.
\<close>

theorem classifyFailedTranscriptEffects_exact:
  assumes "t_error t = Some err"
  shows "fe_valid (classifyFailedTranscriptEffects t owns NET_FAILED_TRANSCRIPT_FIELD_CLASSIFICATION) \<longleftrightarrow> clean_failure t owns err"
  by (rule classify_valid_iff [OF assms])

theorem classifyFailedTranscriptEffects_exact_witness:
  "fe_valid (classifyFailedTranscriptEffects (demo_transcript\<lparr>t_writes := [], t_creates := [], t_moves := [], t_recycles := [],
       t_error := Some (JObj [(''code'', JStr ''E_PERM'')])\<rparr>) False NET_FAILED_TRANSCRIPT_FIELD_CLASSIFICATION)"
  using classifyFailedTranscriptEffects_exact [of "demo_transcript\<lparr>t_writes := [], t_creates := [], t_moves := [], t_recycles := [],
       t_error := Some (JObj [(''code'', JStr ''E_PERM'')])\<rparr>" "JObj [(''code'', JStr ''E_PERM'')]" False]
  by (simp add: clean_failure_def allocation_clean_def demo_transcript_def)

end
