(* ===== verification/Scope_Types.thy ===== *)
theory Scope_Types
  imports Failed_Effects Relations Attribution Api_Keys Replay_Pages
begin

text \<open>
  The vocabulary of the scope sequencer (\<open>src/net/scope.ts\<close>) and the reference implementation of its
  durable store (\<open>src/net/scope-store.ts\<close>, \<open>InMemoryScopeStore\<close>): heads, submits, verdicts and
  replies, scheduled turns, options, the sequencer's state, its hydration and its small readers.
  \<open>structuredClone\<close> copies a value, so it is the identity here. The clock an operation reads
  (\<open>options.now\<close>) is a parameter \<open>now\<close>: one reading per operation.
\<close>

section \<open>Heads, submits and replies\<close>

record scope_head =
  sh_seq :: int
  sh_hash :: string
  sh_generation :: "int option"

definition head_generation :: "scope_head \<Rightarrow> int" where
  "head_generation h = (case sh_generation h of Some g \<Rightarrow> g | None \<Rightarrow> sh_seq h)"

definition head_json :: "scope_head \<Rightarrow> json" where
  "head_json h = JObj ([(''seq'', JNum (sh_seq h)), (''hash'', JStr (sh_hash h))]
     @ (case sh_generation h of None \<Rightarrow> [] | Some g \<Rightarrow> [(''generation'', JNum g)]))"

text \<open>The head that follows \<open>h\<close> under a marker: \<open>{seq + 1, hash of the chain, generation + 1}\<close>.\<close>

definition next_head :: "scope_head \<Rightarrow> string \<Rightarrow> scope_head" where
  "next_head h marker = \<lparr>sh_seq = sh_seq h + 1,
     sh_hash = cellVersion (JArr [JStr (sh_hash h), JNum (sh_seq h + 1), JStr marker]),
     sh_generation = Some (head_generation h + 1)\<rparr>"

definition stamp_of :: "scope_head \<Rightarrow> string \<Rightarrow> epoch_stamp" where
  "stamp_of h epoch = \<lparr>scope_head = show_int (sh_seq h) @ '':'' @ sh_hash h, catalog_epoch = epoch\<rparr>"

definition WARM_ENVELOPE_BYTE_LIMIT :: nat where
  "WARM_ENVELOPE_BYTE_LIMIT = 64 * 1024"

definition CROSS_SCOPE_ENVELOPE_BYTE_LIMIT :: nat where
  "CROSS_SCOPE_ENVELOPE_BYTE_LIMIT = 256 * 1024"

definition submitEnvelopeBytes :: "json \<Rightarrow> nat" where
  "submitEnvelopeBytes body = length (utf8Encode (json_stringify body))"

text \<open>\<open>True\<close> is the plain return, \<open>False\<close> the thrown error.\<close>

definition assertEnvelopeCeiling :: "nat \<Rightarrow> bool \<Rightarrow> bool" where
  "assertEnvelopeCeiling envelopeBytes warm =
     (let limit = (if warm then WARM_ENVELOPE_BYTE_LIMIT else CROSS_SCOPE_ENVELOPE_BYTE_LIMIT)
      in \<not> envelopeBytes > limit)"

record attested_ordering =
  ao_container :: string
  ao_parent :: "string option"
  ao_version :: string

record attested_replay =
  ap_space :: string
  ap_from :: int
  ap_limit :: int
  ap_version :: string

record attestation =
  at_owner_head :: scope_head
  at_cells :: "(string \<times> string) list"
  at_orderings :: "attested_ordering list"
  at_replays :: "attested_replay list"

record commit_submit =
  cs_scope :: string
  cs_base :: scope_head
  cs_idempotency_key :: string
  cs_transcript :: transcript
  cs_post_state_version :: string
  cs_stamp :: epoch_stamp
  cs_owned_reads_compacted :: bool
  cs_replay_result :: "json option"
  cs_replay_result_omitted :: bool
  cs_request_fingerprint :: "string option"
  cs_retry_receipt :: bool
  cs_attestations :: "(string \<times> attestation) list"

datatype reject_reason =
    Unauthorized | Scope_mismatch | Stale_epoch | Stale_head | Incomplete_transcript
  | Idempotency_conflict | Retry_capacity | Read_version_mismatch | Rider_unattested
  | Catalog_mutation | Invalid_error_effects | Write_unauthorized | Schedule_unauthorized
  | Post_state_mismatch

definition UNRECORDED_VERDICTS :: "reject_reason list" where
  "UNRECORDED_VERDICTS = [Retry_capacity]"

definition RETRYABLE_VERDICTS :: "reject_reason list" where
  "RETRYABLE_VERDICTS = [Stale_epoch, Stale_head, Read_version_mismatch, Post_state_mismatch]"

datatype output_part = Part_result | Part_error | Part_observations

record replay_output =
  po_actor :: "string option"
  po_result :: "json option"
  po_error :: "json option"
  po_observations :: "json list"
  po_omitted :: "output_part list"

type_synonym detail = "(string \<times> json) list"

text \<open>
  The two variants of \<open>CommitReply\<close>. Optional arrays of the wire are lists, absent when empty;
  optional \<open>true\<close> flags are booleans.
\<close>

record accepted_reply =
  ac_scope :: string
  ac_head :: scope_head
  ac_touched :: "string list"
  ac_post_state_version :: string
  ac_relations :: "relation_delta list"
  ac_relations_foreign :: "(string \<times> relation_delta list) list"
  ac_replayed :: bool
  ac_replay_output :: "replay_output option"
  ac_replay_request :: "string option"
  ac_replay_receipt :: bool
  ac_recorded_at :: "int option"
  ac_replay_guaranteed :: bool

record rejected_reply =
  rj_scope :: string
  rj_reason :: reject_reason
  rj_retryable :: bool
  rj_head :: scope_head
  rj_replay_request :: "string option"
  rj_recorded_at :: "int option"
  rj_replay_guaranteed :: bool
  rj_mismatched_reads :: "transcript_cell list"
  rj_detail :: detail

datatype commit_reply = Accepted accepted_reply | Rejected rejected_reply

fun reply_head :: "commit_reply \<Rightarrow> scope_head" where
  "reply_head (Accepted a) = ac_head a"
| "reply_head (Rejected r) = rj_head r"

fun recorded_at :: "commit_reply \<Rightarrow> int option" where
  "recorded_at (Accepted a) = ac_recorded_at a"
| "recorded_at (Rejected r) = rj_recorded_at r"

fun replay_guaranteed :: "commit_reply \<Rightarrow> bool" where
  "replay_guaranteed (Accepted a) = ac_replay_guaranteed a"
| "replay_guaranteed (Rejected r) = rj_replay_guaranteed r"

fun replay_request :: "commit_reply \<Rightarrow> string option" where
  "replay_request (Accepted a) = ac_replay_request a"
| "replay_request (Rejected r) = rj_replay_request r"

fun with_recorded_at :: "int \<Rightarrow> commit_reply \<Rightarrow> commit_reply" where
  "with_recorded_at t (Accepted a) = Accepted (a\<lparr>ac_recorded_at := Some t\<rparr>)"
| "with_recorded_at t (Rejected r) = Rejected (r\<lparr>rj_recorded_at := Some t\<rparr>)"

fun isNonAdvancingReply :: "commit_reply \<Rightarrow> bool" where
  "isNonAdvancingReply (Accepted a) = ac_replay_receipt a"
| "isNonAdvancingReply (Rejected r) = True"

record scheduled_turn =
  su_id :: string
  su_at_logical_time :: int
  su_idle_policy :: "idle_policy option"
  su_call :: schedule_call
  su_principal :: "json option"
  su_trace :: "json option"

section \<open>Limits\<close>

definition REPLY_CACHE_CAP :: int where
  "REPLY_CACHE_CAP = 1024"

definition RECEIPT_CACHE_CAP :: int where
  "RECEIPT_CACHE_CAP = 256"

definition IDEMPOTENCY_LEASE_MS :: int where
  "IDEMPOTENCY_LEASE_MS = 10 * 60000"

definition GUARANTEED_OUTCOME_CAPACITY :: int where
  "GUARANTEED_OUTCOME_CAPACITY = 16384"

definition RETAINED_PAYLOAD_CAP :: int where
  "RETAINED_PAYLOAD_CAP = 1024"

definition REPLAY_OUTPUT_BYTE_CAP :: nat where
  "REPLAY_OUTPUT_BYTE_CAP = 4096"

definition SCHEDULE_MIN_LEAD_MS :: int where
  "SCHEDULE_MIN_LEAD_MS = 60000"

definition SCHEDULE_MAX_HORIZON_MS :: int where
  "SCHEDULE_MAX_HORIZON_MS = 365 * 24 * 60 * 60 * 1000"

definition SCHEDULE_MAX_PER_SCOPE :: int where
  "SCHEDULE_MAX_PER_SCOPE = 1000"

definition SCHEDULE_MAX_PER_OBJECT :: int where
  "SCHEDULE_MAX_PER_OBJECT = 32"

definition SCHEDULE_MAX_PER_TURN :: nat where
  "SCHEDULE_MAX_PER_TURN = 16"

definition SCHEDULE_MAX_ENTRY_BYTES :: int where
  "SCHEDULE_MAX_ENTRY_BYTES = 8 * 1024"

definition SCHEDULE_MAX_SCOPE_BYTES :: int where
  "SCHEDULE_MAX_SCOPE_BYTES = 2 * 1024 * 1024"

definition SCHEDULE_CLOCK_INPUT :: string where
  "SCHEDULE_CLOCK_INPUT = ''schedule.now''"

section \<open>The durable store\<close>

record scope_meta =
  me_scope :: string
  me_catalog_epoch :: string
  me_head :: scope_head
  me_attribution :: "scope_attribution option"

record tail_entry =
  ta_seq :: int
  ta_transcript_hash :: string
  ta_touched :: "string list"
  ta_base_hash :: "string option"
  ta_head_hash :: "string option"

type_synonym log_rows = "(string, (int, replay_log_entry) jsmap) jsmap"

record scope_store =
  ds_meta :: "scope_meta option"
  ds_cells :: "(string, cell) jsmap"
  ds_replies :: "(string, commit_reply) jsmap"
  ds_tail :: "tail_entry list"
  ds_scheduled :: "(string, scheduled_turn) jsmap"
  ds_relations :: "(string, relation_row) jsmap"
  ds_apiKeyVerifiers :: "(string, api_key_verifier_row) jsmap"
  ds_logRows :: log_rows

definition empty_scope_store :: scope_store where
  "empty_scope_store = \<lparr>ds_meta = None, ds_cells = [], ds_replies = [], ds_tail = [], ds_scheduled = [],
     ds_relations = [], ds_apiKeyVerifiers = [], ds_logRows = []\<rparr>"

definition writeMeta :: "scope_meta \<Rightarrow> scope_store \<Rightarrow> scope_store" where
  "writeMeta meta d = d\<lparr>ds_meta := Some meta\<rparr>"

definition writeCell :: "cell \<Rightarrow> scope_store \<Rightarrow> scope_store" where
  "writeCell c d = d\<lparr>ds_cells := jm_set (c_key c) c (ds_cells d)\<rparr>"

definition deleteCell :: "string \<Rightarrow> scope_store \<Rightarrow> scope_store" where
  "deleteCell key d = d\<lparr>ds_cells := jm_del key (ds_cells d)\<rparr>"

definition writeReply :: "string \<Rightarrow> commit_reply \<Rightarrow> scope_store \<Rightarrow> scope_store" where
  "writeReply key reply d = d\<lparr>ds_replies := jm_set key reply (ds_replies d)\<rparr>"

definition deleteReply :: "string \<Rightarrow> scope_store \<Rightarrow> scope_store" where
  "deleteReply key d = d\<lparr>ds_replies := jm_del key (ds_replies d)\<rparr>"

definition appendTail :: "tail_entry \<Rightarrow> scope_store \<Rightarrow> scope_store" where
  "appendTail entry d = d\<lparr>ds_tail := ds_tail d @ [entry]\<rparr>"

text \<open>\<open>tail.splice(0, tail.length - limit)\<close> and \<open>tail.slice(tail.length - limit)\<close>.\<close>

definition trim_tail :: "nat \<Rightarrow> 'a list \<Rightarrow> 'a list" where
  "trim_tail limit tail = (if length tail > limit then drop (length tail - limit) tail else tail)"

definition trimTail :: "nat \<Rightarrow> scope_store \<Rightarrow> scope_store" where
  "trimTail limit d = d\<lparr>ds_tail := trim_tail limit (ds_tail d)\<rparr>"

definition writeScheduled :: "scheduled_turn \<Rightarrow> scope_store \<Rightarrow> scope_store" where
  "writeScheduled turn d = d\<lparr>ds_scheduled := jm_set (su_id turn) turn (ds_scheduled d)\<rparr>"

definition deleteScheduled :: "string \<Rightarrow> scope_store \<Rightarrow> scope_store" where
  "deleteScheduled i d = d\<lparr>ds_scheduled := jm_del i (ds_scheduled d)\<rparr>"

text \<open>Delivery order: logical time, then id under the host's collation.\<close>

definition turn_le :: "(string \<Rightarrow> string \<Rightarrow> bool) \<Rightarrow> scheduled_turn \<Rightarrow> scheduled_turn \<Rightarrow> bool" where
  "turn_le locale_le a b \<longleftrightarrow> su_at_logical_time a < su_at_logical_time b
     \<or> (su_at_logical_time a = su_at_logical_time b \<and> locale_le (su_id a) (su_id b))"

definition readScheduledDue :: "(string \<Rightarrow> string \<Rightarrow> bool) \<Rightarrow> int \<Rightarrow> nat \<Rightarrow> scope_store \<Rightarrow> scheduled_turn list" where
  "readScheduledDue locale_le now limit d =
     take limit (sort_by (turn_le locale_le) (filter (\<lambda>t. su_at_logical_time t \<le> now) (jm_values (ds_scheduled d))))"

definition min_time :: "scheduled_turn list \<Rightarrow> int option" where
  "min_time ts = fold (\<lambda>t m. case m of None \<Rightarrow> Some (su_at_logical_time t)
      | Some x \<Rightarrow> if su_at_logical_time t < x then Some (su_at_logical_time t) else m) ts None"

definition nextScheduledAfter :: "int \<Rightarrow> scope_store \<Rightarrow> int option" where
  "nextScheduledAfter now d = min_time (filter (\<lambda>t. su_at_logical_time t > now) (jm_values (ds_scheduled d)))"

definition hasScheduledDue :: "int \<Rightarrow> scope_store \<Rightarrow> bool" where
  "hasScheduledDue now d = list_ex (\<lambda>t. su_at_logical_time t \<le> now) (jm_values (ds_scheduled d))"

definition hasScheduled :: "string \<Rightarrow> scope_store \<Rightarrow> bool" where
  "hasScheduled i d = jm_has (ds_scheduled d) i"

definition writeRelation :: "string \<Rightarrow> relation_row \<Rightarrow> scope_store \<Rightarrow> scope_store" where
  "writeRelation key row d = d\<lparr>ds_relations := jm_set key row (ds_relations d)\<rparr>"

definition deleteRelation :: "string \<Rightarrow> scope_store \<Rightarrow> scope_store" where
  "deleteRelation key d = d\<lparr>ds_relations := jm_del key (ds_relations d)\<rparr>"

definition writeApiKeyVerifier :: "string \<Rightarrow> api_key_verifier_row \<Rightarrow> scope_store \<Rightarrow> scope_store" where
  "writeApiKeyVerifier key row d = d\<lparr>ds_apiKeyVerifiers := jm_set key row (ds_apiKeyVerifiers d)\<rparr>"

definition deleteApiKeyVerifier :: "string \<Rightarrow> scope_store \<Rightarrow> scope_store" where
  "deleteApiKeyVerifier key d = d\<lparr>ds_apiKeyVerifiers := jm_del key (ds_apiKeyVerifiers d)\<rparr>"

text \<open>\<open>None\<close> is the thrown collision: another entry already holds this space and sequence number.\<close>

definition appendLogEntry :: "replay_log_entry \<Rightarrow> scope_store \<Rightarrow> scope_store option" where
  "appendLogEntry entry d =
     (let rows = (case jm_get (ds_logRows d) (le_space entry) of Some m \<Rightarrow> m | None \<Rightarrow> []) in
      case jm_get rows (le_seq entry) of
        Some existing \<Rightarrow> if json_stringify (log_entry_json existing) = json_stringify (log_entry_json entry) then Some d else None
      | None \<Rightarrow> Some (d\<lparr>ds_logRows := jm_set (le_space entry) (jm_set (le_seq entry) entry rows) (ds_logRows d)\<rparr>))"

text \<open>\<open>xs.slice(0, n)\<close>: a negative \<open>n\<close> counts from the end.\<close>

definition slice_to :: "int \<Rightarrow> 'a list \<Rightarrow> 'a list" where
  "slice_to n xs = (if n \<ge> 0 then take (nat n) xs else take (length xs - nat (- n)) xs)"

text \<open>One window of a space's rows: from a sequence number on, ascending, at most \<open>limit\<close> of them.\<close>

definition log_page :: "log_rows \<Rightarrow> string \<Rightarrow> int \<Rightarrow> int \<Rightarrow> replay_log_entry list" where
  "log_page rows space from' limit = (case jm_get rows space of
      None \<Rightarrow> []
    | Some m \<Rightarrow> slice_to limit (sort_key le_seq (filter (\<lambda>e. le_seq e \<ge> from') (jm_values m))))"

definition readLogPage :: "string \<Rightarrow> int \<Rightarrow> int \<Rightarrow> scope_store \<Rightarrow> replay_log_entry list" where
  "readLogPage space from' limit d = log_page (ds_logRows d) space from' limit"

end
