(* ===== verification/Sequencer.thy ===== *)
theory Sequencer
  imports Scope_Types
begin

text \<open>
  The state of a \<open>ScopeSequencer\<close> (\<open>src/net/scope.ts\<close>): its options, its fields, construction and
  hydration from a durable store, and the readers and private helpers the operations share, among
  them the write-time index of ordered-edge relation rows.
\<close>

section \<open>Options and state\<close>

text \<open>
  The callbacks of the host are parameters. \<open>authorize\<close> returns the reads it proved, or throws an
  error text with a structured detail. The observer \<open>failedTranscriptEffects\<close> is told a report and
  cannot affect the outcome, so it has no field.
\<close>

record scope_options =
  so_authorize :: "(commit_submit \<Rightarrow> (string \<times> detail) + (string, string) jsmap) option"
  so_writeAuthorized :: "(commit_submit \<Rightarrow> bool) option"
  so_owns :: "(string \<Rightarrow> bool) option"
  so_scopeOf :: "(string \<Rightarrow> string) option"
  so_catalogMutationForbidden :: "(string \<Rightarrow> bool) option"
  so_tailLimit :: nat
  so_replyLimit :: "int option"
  so_receiptLimit :: "int option"
  so_replyLeaseMs :: "int option"
  so_retainedPayloadCap :: "int option"
  so_guaranteedOutcomeCapacity :: "int option"

definition DEFAULT_TAIL_LIMIT :: nat where
  "DEFAULT_TAIL_LIMIT = 256"

definition default_options :: scope_options where
  "default_options = \<lparr>so_authorize = None, so_writeAuthorized = None, so_owns = None, so_scopeOf = None,
     so_catalogMutationForbidden = None, so_tailLimit = DEFAULT_TAIL_LIMIT, so_replyLimit = None,
     so_receiptLimit = None, so_replyLeaseMs = None, so_retainedPayloadCap = None,
     so_guaranteedOutcomeCapacity = None\<rparr>"

record ordered_location =
  ol_projection :: string
  ol_child :: string
  ol_rank :: string

record sequencer =
  sq_scope :: string
  sq_catalogEpoch :: string
  sq_store :: cell_store
  sq_headState :: scope_head
  sq_nextObjectCounter :: "int option"
  sq_replies :: "(string, commit_reply) jsmap"
  sq_tail :: "tail_entry list"
  sq_attribution :: "scope_attribution option"
  sq_scheduled :: "(string, scheduled_turn) jsmap"
  sq_relationRows :: "(string, relation_row) jsmap"
  sq_apiKeyVerifiers :: "(string, api_key_verifier_row) jsmap"
  sq_orderedRelationsByProjection :: "(string, ordered_row list) jsmap"
  sq_orderedRelationLocationByKey :: "(string, ordered_location) jsmap"
  sq_memoryLogRows :: log_rows
  sq_options :: scope_options
  sq_durable :: "scope_store option"

text \<open>\<open>if (durable) durable.transaction(() => ...)\<close>.\<close>

definition on_durable :: "(scope_store \<Rightarrow> scope_store) \<Rightarrow> sequencer \<Rightarrow> sequencer" where
  "on_durable f s = s\<lparr>sq_durable := map_option f (sq_durable s)\<rparr>"

definition sq_stamp :: "sequencer \<Rightarrow> epoch_stamp" where
  "sq_stamp s = stamp_of (sq_headState s) (sq_catalogEpoch s)"

definition metaRow :: "sequencer \<Rightarrow> scope_meta" where
  "metaRow s = \<lparr>me_scope = sq_scope s, me_catalog_epoch = sq_catalogEpoch s, me_head = sq_headState s,
     me_attribution = sq_attribution s\<rparr>"

text \<open>\<open>tail.push(entry)\<close> and the trim to the tail limit.\<close>

definition push_tail :: "tail_entry \<Rightarrow> sequencer \<Rightarrow> sequencer" where
  "push_tail entry s = s\<lparr>sq_tail := trim_tail (so_tailLimit (sq_options s)) (sq_tail s @ [entry])\<rparr>"

definition durable_tail :: "nat \<Rightarrow> tail_entry \<Rightarrow> scope_store \<Rightarrow> scope_store" where
  "durable_tail limit entry d = trimTail limit (appendTail entry d)"

section \<open>The ordered relation index\<close>

definition orderedRelationSlot :: "ordered_row list \<Rightarrow> string \<Rightarrow> string \<Rightarrow> nat" where
  "orderedRelationSlot rows rank child = slot_search rows rank child 0 (length rows)"

type_synonym ordered_index = "(string, ordered_row list) jsmap \<times> (string, ordered_location) jsmap"

text \<open>Retracting a key from the bucket it was indexed in; an emptied bucket is deleted.\<close>

definition unindex_relation :: "string \<Rightarrow> ordered_index \<Rightarrow> ordered_index" where
  "unindex_relation key idx = (case idx of (byProjection, byKey) \<Rightarrow>
     case jm_get byKey key of
       None \<Rightarrow> (byProjection, byKey)
     | Some prior \<Rightarrow>
         ((case jm_get byProjection (ol_projection prior) of
             None \<Rightarrow> byProjection
           | Some rows \<Rightarrow>
               let at = orderedRelationSlot rows (ol_rank prior) (ol_child prior);
                   rows' = (if at < length rows \<and> or_child (rows ! at) = ol_child prior \<and> or_rank (rows ! at) = ol_rank prior
                            then splice_out at rows else rows)
               in if rows' = [] then jm_del (ol_projection prior) byProjection
                  else jm_set (ol_projection prior) rows' byProjection),
          jm_del key byKey))"

definition index_relation :: "string \<Rightarrow> relation_row option \<Rightarrow> ordered_index \<Rightarrow> ordered_index" where
  "index_relation key row idx = (case idx of (byProjection, byKey) \<Rightarrow>
     case row of
       None \<Rightarrow> (byProjection, byKey)
     | Some row \<Rightarrow>
         if rel_relation row \<noteq> ORDERED_EDGE_RELATION then (byProjection, byKey)
         else case edge_of_value (rel_body row) of
           None \<Rightarrow> (byProjection, byKey)
         | Some (parent, rank) \<Rightarrow>
             let projection = orderedProjectionKey (rel_owner row) parent;
                 rows = bucket byProjection projection;
                 at = orderedRelationSlot rows rank (rel_member row)
             in (jm_set projection (splice_in at \<lparr>or_child = rel_member row, or_rank = rank\<rparr> rows) byProjection,
                 jm_set key \<lparr>ol_projection = projection, ol_child = rel_member row, ol_rank = rank\<rparr> byKey))"

definition syncOrderedRelationIndex :: "string list \<Rightarrow> sequencer \<Rightarrow> sequencer" where
  "syncOrderedRelationIndex keys s =
     (let (byProjection, byKey) =
        fold (\<lambda>key idx. index_relation key (jm_get (sq_relationRows s) key) (unindex_relation key idx)) keys
          (sq_orderedRelationsByProjection s, sq_orderedRelationLocationByKey s)
      in s\<lparr>sq_orderedRelationsByProjection := byProjection, sq_orderedRelationLocationByKey := byKey\<rparr>)"

definition orderedChildren :: "sequencer \<Rightarrow> string \<Rightarrow> string option \<Rightarrow> ordered_row list" where
  "orderedChildren s container parent =
     orderedChildrenForContainer (sq_store s)
       (bucket (sq_orderedRelationsByProjection s) (orderedProjectionKey container parent)) container parent"

section \<open>Construction and hydration\<close>

datatype scope_failure =
    Hydration_mismatch
  | Net_failure net_error
  | Log_collision

fun install_all :: "cell list \<Rightarrow> cell_store \<Rightarrow> net_error + cell_store" where
  "install_all [] s = Inr s"
| "install_all (c # cs) s = (case store_install c s of Inl e \<Rightarrow> Inl e | Inr s' \<Rightarrow> install_all cs s')"

definition fresh_sequencer :: "string \<Rightarrow> string \<Rightarrow> scope_options \<Rightarrow> scope_store option \<Rightarrow> sequencer" where
  "fresh_sequencer scope epoch opts durable =
     \<lparr>sq_scope = scope, sq_catalogEpoch = epoch, sq_store = newStore Authority,
      sq_headState = \<lparr>sh_seq = 0, sh_hash = cellVersion (JArr [JStr ''genesis'', JStr scope]), sh_generation = Some 0\<rparr>,
      sq_nextObjectCounter = None, sq_replies = [], sq_tail = [], sq_attribution = None, sq_scheduled = [],
      sq_relationRows = [], sq_apiKeyVerifiers = [], sq_orderedRelationsByProjection = [],
      sq_orderedRelationLocationByKey = [], sq_memoryLogRows = [], sq_options = opts, sq_durable = durable\<rparr>"

text \<open>Replies without a recording time are dated at hydration and written back.\<close>

definition date_reply :: "int \<Rightarrow> string \<times> commit_reply \<Rightarrow> (string, commit_reply) jsmap \<times> scope_store \<Rightarrow> (string, commit_reply) jsmap \<times> scope_store" where
  "date_reply now kr acc = (case kr of (key, reply) \<Rightarrow> case acc of (replies, d) \<Rightarrow>
     if recorded_at reply = None
     then (jm_set key (with_recorded_at now reply) replies, writeReply key (with_recorded_at now reply) d)
     else (jm_set key reply replies, d))"

definition hydrate_rows :: "int \<Rightarrow> scope_store \<Rightarrow> cell_store \<Rightarrow> sequencer \<Rightarrow> sequencer" where
  "hydrate_rows now d store s =
     (let (replies, d') = fold (date_reply now) (ds_replies d) ([], d);
          relations = fold (\<lambda>row m. jm_set (row_relation_key row) row m) (jm_values (ds_relations d)) [];
          verifiers = fold (\<lambda>row m. jm_set (apiKeyVerifierKey (vk_actor row) (vk_id row)) row m) (jm_values (ds_apiKeyVerifiers d)) []
      in syncOrderedRelationIndex (jm_keys relations)
           (s\<lparr>sq_store := store, sq_replies := replies, sq_tail := ds_tail d, sq_relationRows := relations,
              sq_apiKeyVerifiers := verifiers, sq_durable := Some d'\<rparr>))"

definition newSequencer :: "int \<Rightarrow> string \<Rightarrow> string \<Rightarrow> scope_options \<Rightarrow> scope_store option \<Rightarrow> scope_failure + sequencer" where
  "newSequencer now scope epoch opts durable =
     (let s0 = fresh_sequencer scope epoch opts durable in
      case durable of
        None \<Rightarrow> Inr s0
      | Some d \<Rightarrow>
          if (case ds_meta d of Some meta \<Rightarrow> me_scope meta \<noteq> scope | None \<Rightarrow> False) then Inl Hydration_mismatch
          else if (case ds_meta d of Some meta \<Rightarrow> me_catalog_epoch meta \<noteq> epoch | None \<Rightarrow> False)
          then Inl (Net_failure (netError E_EPOCH_MISMATCH ''scope-store epoch disagrees with the runtime epoch''))
          else
            let s1 = (case ds_meta d of None \<Rightarrow> s0
                | Some meta \<Rightarrow> s0\<lparr>sq_headState := (me_head meta)\<lparr>sh_generation := Some (head_generation (me_head meta))\<rparr>,
                                sq_attribution := me_attribution meta\<rparr>)
            in case install_all (jm_values (ds_cells d)) (sq_store s1) of
                 Inl e \<Rightarrow> Inl (Net_failure e)
               | Inr store \<Rightarrow> Inr (hydrate_rows now d store s1))"

section \<open>Object counter\<close>

definition is_digit :: "char \<Rightarrow> bool" where
  "is_digit c \<longleftrightarrow> CHR ''0'' \<le> c \<and> c \<le> CHR ''9''"

text \<open>The match of \<open>/_(\d+)$/\<close>: the digits at the end of the text, when an underscore precedes them.\<close>

definition trailing_number :: "string \<Rightarrow> int option" where
  "trailing_number s =
     (let digits = takeWhile is_digit (rev s); rest = dropWhile is_digit (rev s)
      in if digits \<noteq> [] \<and> rest \<noteq> [] \<and> hd rest = CHR ''_'' then Some (int (digits_value (rev digits) 0)) else None)"

definition derived_counter :: "cell_store \<Rightarrow> int" where
  "derived_counter st = fold (\<lambda>key m.
       if starts_with ''object_lineage:obj_'' key
       then (case trailing_number key of Some n \<Rightarrow> max m n | None \<Rightarrow> m) else m) (store_keys st) 0 + 1"

definition objectCounter :: "sequencer \<Rightarrow> int \<times> sequencer" where
  "objectCounter s = (case sq_nextObjectCounter s of
      Some n \<Rightarrow> (n, s)
    | None \<Rightarrow> let n = derived_counter (sq_store s) in (n, s\<lparr>sq_nextObjectCounter := Some n\<rparr>))"

section \<open>Credentials and pages\<close>

definition verifier_json :: "api_key_verifier_row \<Rightarrow> json" where
  "verifier_json r = JObj [(''actor'', JStr (vk_actor r)), (''id'', JStr (vk_id r)), (''record'', vk_record r)]"

definition apiKeyVerifier :: "sequencer \<Rightarrow> string \<Rightarrow> string \<Rightarrow> json option" where
  "apiKeyVerifier s actor i = map_option vk_record (jm_get (sq_apiKeyVerifiers s) (apiKeyVerifierKey actor i))"

text \<open>The verifier map after one actor's rows are replaced, and the changed keys.\<close>

definition replaceApiKeyVerifiersForActor ::
    "string \<Rightarrow> json option \<Rightarrow> sequencer \<Rightarrow> string list \<times> sequencer" where
  "replaceApiKeyVerifiersForActor actor v s =
     (let desired = apiKeyVerifierRowsForActor actor v;
          (changed1, m1) = fold (\<lambda>(key, row) (changed, m).
              if vk_actor row \<noteq> actor \<or> jm_has desired key then (changed, m) else (js_add key changed, jm_del key m))
            (sq_apiKeyVerifiers s) ([], sq_apiKeyVerifiers s);
          (changed2, m2) = fold (\<lambda>(key, row) (changed, m).
              (case jm_get m key of
                 Some existing \<Rightarrow> if cellVersion (verifier_json existing) = cellVersion (verifier_json row) then (changed, m)
                   else (js_add key changed, jm_set key row m)
               | None \<Rightarrow> (js_add key changed, jm_set key row m)))
            desired (changed1, m1)
      in (sort changed2, s\<lparr>sq_apiKeyVerifiers := m2\<rparr>))"

definition durable_verifiers :: "string list \<Rightarrow> (string, api_key_verifier_row) jsmap \<Rightarrow> scope_store \<Rightarrow> scope_store" where
  "durable_verifiers keys m d = fold (\<lambda>key d. case jm_get m key of
      Some row \<Rightarrow> writeApiKeyVerifier key row d | None \<Rightarrow> deleteApiKeyVerifier key d) keys d"

definition durable_relations :: "string list \<Rightarrow> (string, relation_row) jsmap \<Rightarrow> scope_store \<Rightarrow> scope_store" where
  "durable_relations keys m d = fold (\<lambda>key d. case jm_get m key of
      Some row \<Rightarrow> writeRelation key row d | None \<Rightarrow> deleteRelation key d) keys d"

definition durable_cells :: "string list \<Rightarrow> cell_store \<Rightarrow> scope_store \<Rightarrow> scope_store" where
  "durable_cells keys st d = fold (\<lambda>key d. case store_get st key of
      Some c \<Rightarrow> writeCell c d | None \<Rightarrow> deleteCell key d) keys d"

definition replayPage :: "sequencer \<Rightarrow> string \<Rightarrow> int \<Rightarrow> int \<Rightarrow> replay_log_entry list" where
  "replayPage s space from' limit = (case sq_durable s of
      Some d \<Rightarrow> readLogPage space from' limit d
    | None \<Rightarrow> log_page (sq_memoryLogRows s) space from' limit)"

definition isWizardRef :: "sequencer \<Rightarrow> string \<Rightarrow> bool" where
  "isWizardRef s ref = (case store_get (sq_store s) (cellKey Object_lineage ref None) of
      None \<Rightarrow> False
    | Some c \<Rightarrow> jprop (jprop (Some (c_value c)) ''flags'') ''wizard'' = Some (JBool True))"

end
