(* ===== verification/Reply_Cache.thy ===== *)
theory Reply_Cache
  imports Sequencer
begin

text \<open>
  The idempotency cache of a scope (\<open>src/net/scope.ts\<close>): recorded outcomes with a lease, guaranteed
  outcomes that quota pressure may not evict, the two retention quotas, and shedding of retained
  payloads. Recording an outcome and pruning happen in one step.
\<close>

section \<open>Leases\<close>

definition reply_lease :: "sequencer \<Rightarrow> int" where
  "reply_lease s = (case so_replyLeaseMs (sq_options s) of Some l \<Rightarrow> l | None \<Rightarrow> IDEMPOTENCY_LEASE_MS)"

definition replyExpired :: "sequencer \<Rightarrow> commit_reply \<Rightarrow> int \<Rightarrow> bool" where
  "replyExpired s reply at = (case recorded_at reply of
      None \<Rightarrow> False
    | Some r \<Rightarrow> r + reply_lease s \<le> at)"

definition recordedReply :: "string \<Rightarrow> int \<Rightarrow> sequencer \<Rightarrow> commit_reply option \<times> sequencer" where
  "recordedReply key now s = (case jm_get (sq_replies s) key of
      None \<Rightarrow> (None, s)
    | Some reply \<Rightarrow>
        if \<not> replyExpired s reply now then (Some reply, s)
        else (None, on_durable (deleteReply key) (s\<lparr>sq_replies := jm_del key (sq_replies s)\<rparr>)))"

definition guaranteedOutcomeCount :: "sequencer \<Rightarrow> int \<Rightarrow> nat" where
  "guaranteedOutcomeCount s at =
     length (filter (\<lambda>reply. replay_guaranteed reply \<and> \<not> replyExpired s reply at) (jm_values (sq_replies s)))"

section \<open>Retention\<close>

text \<open>Deleting a list of keys from a map, in order.\<close>

definition del_keys :: "string list \<Rightarrow> (string, 'v) jsmap \<Rightarrow> (string, 'v) jsmap" where
  "del_keys ks m = fold jm_del ks m"

definition expired_keys :: "sequencer \<Rightarrow> int \<Rightarrow> (string, commit_reply) jsmap \<Rightarrow> string list" where
  "expired_keys s now m = map fst (filter (\<lambda>(key, reply). replyExpired s reply now) m)"

definition evictable :: "(string, commit_reply) jsmap \<Rightarrow> (string \<times> commit_reply) list" where
  "evictable m = filter (\<lambda>(key, reply). \<not> replay_guaranteed reply) m"

text \<open>
  The partition of the evictable replies: an advancing reply claims its sequence number; a second
  reply at a claimed number, a receipt and a rejection are non-advancing.
\<close>

fun partition_replies ::
    "(string \<times> commit_reply) list \<Rightarrow> int list \<Rightarrow> (string \<times> int) list \<times> string list" where
  "partition_replies [] claimed = ([], [])"
| "partition_replies ((key, reply) # rest) claimed =
     (if isNonAdvancingReply reply \<or> sh_seq (reply_head reply) \<in> set claimed
      then (let (advancing, nonAdvancing) = partition_replies rest claimed in (advancing, key # nonAdvancing))
      else (let (advancing, nonAdvancing) = partition_replies rest (sh_seq (reply_head reply) # claimed)
            in ((key, sh_seq (reply_head reply)) # advancing, nonAdvancing)))"

text \<open>The oldest non-advancing rows beyond their quota.\<close>

definition overflow_keys :: "string list \<Rightarrow> int \<Rightarrow> string list" where
  "overflow_keys nonAdvancing receiptLimit = take (nat (int (length nonAdvancing) - receiptLimit)) nonAdvancing"

text \<open>Advancing rows outside the tail window, lowest sequence number first, until within the limit.\<close>

definition window_keys :: "(string \<times> int) list \<Rightarrow> int \<Rightarrow> int \<Rightarrow> string list" where
  "window_keys advancing limit cutoff =
     (if int (length advancing) > limit
      then map fst (take (nat (int (length advancing) - limit))
             (sort_key snd (filter (\<lambda>(key, seq). seq \<le> cutoff) advancing)))
      else [])"

definition carries_output :: "commit_reply \<Rightarrow> bool" where
  "carries_output reply = (case reply of Accepted a \<Rightarrow> ac_replay_output a \<noteq> None | Rejected _ \<Rightarrow> False)"

fun strip_output :: "commit_reply \<Rightarrow> commit_reply" where
  "strip_output (Accepted a) = Accepted (a\<lparr>ac_replay_output := None\<rparr>)"
| "strip_output (Rejected r) = Rejected r"

definition shed_keys :: "(string, commit_reply) jsmap \<Rightarrow> int \<Rightarrow> string list" where
  "shed_keys m payloadCap =
     (let carrying = map fst (filter (\<lambda>(key, reply). carries_output reply) m)
      in take (nat (int (length carrying) - payloadCap)) carrying)"

definition shed :: "string list \<Rightarrow> (string, commit_reply) jsmap \<Rightarrow> (string \<times> commit_reply) list \<times> (string, commit_reply) jsmap" where
  "shed ks m = fold (\<lambda>key (rewritten, m). case jm_get m key of
      Some (Accepted a) \<Rightarrow>
        (rewritten @ [(key, strip_output (Accepted a))], jm_set key (strip_output (Accepted a)) m)
    | _ \<Rightarrow> (rewritten, m)) ks ([], m)"

record prune_result =
  pr_pruned :: "string list"
  pr_rewritten :: "(string \<times> commit_reply) list"

definition reply_limit :: "sequencer \<Rightarrow> int" where
  "reply_limit s = (case so_replyLimit (sq_options s) of Some l \<Rightarrow> l | None \<Rightarrow> REPLY_CACHE_CAP)"

definition receipt_limit :: "sequencer \<Rightarrow> int" where
  "receipt_limit s = (case so_receiptLimit (sq_options s) of Some l \<Rightarrow> l | None \<Rightarrow> min RECEIPT_CACHE_CAP (reply_limit s))"

definition payload_cap :: "sequencer \<Rightarrow> int" where
  "payload_cap s = (case so_retainedPayloadCap (sq_options s) of Some l \<Rightarrow> l | None \<Rightarrow> RETAINED_PAYLOAD_CAP)"

definition pruneReplies :: "int \<Rightarrow> sequencer \<Rightarrow> prune_result \<times> sequencer" where
  "pruneReplies now s =
     (let expired = expired_keys s now (sq_replies s);
          m1 = del_keys expired (sq_replies s);
          (advancing, nonAdvancing) = partition_replies (evictable m1) [];
          overflow = overflow_keys nonAdvancing (receipt_limit s);
          m2 = del_keys overflow m1;
          outside = window_keys advancing (reply_limit s) (sh_seq (sq_headState s) - int (so_tailLimit (sq_options s)));
          m3 = del_keys outside m2;
          (rewritten, m4) = shed (shed_keys m3 (payload_cap s)) m3
      in (\<lparr>pr_pruned = expired @ overflow @ outside, pr_rewritten = rewritten\<rparr>, s\<lparr>sq_replies := m4\<rparr>))"

section \<open>Recording\<close>

text \<open>The durable half of a recording: the reply row, the pruned rows, the rewritten rows.\<close>

definition durable_reply :: "string \<Rightarrow> commit_reply \<Rightarrow> prune_result \<Rightarrow> scope_store \<Rightarrow> scope_store" where
  "durable_reply key stored pr d =
     fold (\<lambda>(k, r). writeReply k r) (pr_rewritten pr) (fold deleteReply (pr_pruned pr) (writeReply key stored d))"

text \<open>Insertion and prune, without the durable half (\<open>transact = false\<close>).\<close>

definition record_in_memory :: "string \<Rightarrow> commit_reply \<Rightarrow> int \<Rightarrow> sequencer \<Rightarrow> (prune_result \<times> commit_reply) \<times> sequencer" where
  "record_in_memory key reply now s =
     (let stored = with_recorded_at now reply;
          (pr, s') = pruneReplies now (s\<lparr>sq_replies := jm_set key stored (sq_replies s)\<rparr>)
      in ((pr, stored), s'))"

definition recordReply :: "string \<Rightarrow> commit_reply \<Rightarrow> int \<Rightarrow> sequencer \<Rightarrow> sequencer" where
  "recordReply key reply now s =
     (let ((pr, stored), s') = record_in_memory key reply now s in on_durable (durable_reply key stored pr) s')"

fun part_name :: "output_part \<Rightarrow> string" where
  "part_name Part_result = ''result''"
| "part_name Part_error = ''error''"
| "part_name Part_observations = ''observations''"

definition output_json :: "replay_output \<Rightarrow> json" where
  "output_json out = JObj (present ''actor'' (map_option JStr (po_actor out)) @ present ''result'' (po_result out)
     @ present ''error'' (po_error out)
     @ (if po_observations out = [] then [] else [(''observations'', JArr (po_observations out))])
     @ (if po_omitted out = [] then [] else [(''omitted'', JArr (map (JStr \<circ> part_name) (po_omitted out)))]))"

definition recordedOutput :: "commit_submit \<Rightarrow> replay_output" where
  "recordedOutput submit =
     (let t = cs_transcript submit; actor = tk_actor (t_call t);
          omitted = (if cs_replay_result_omitted submit then [Part_result] else []);
          core = \<lparr>po_actor = Some actor, po_result = cs_replay_result submit, po_error = t_error t,
                  po_observations = [], po_omitted = []\<rparr>;
          whole = core\<lparr>po_observations := t_observations t\<rparr>
      in if length (json_stringify (output_json whole)) \<le> REPLAY_OUTPUT_BYTE_CAP
         then whole\<lparr>po_omitted := omitted\<rparr>
         else if length (json_stringify (output_json core)) \<le> REPLAY_OUTPUT_BYTE_CAP
         then core\<lparr>po_omitted := omitted @ [Part_observations]\<rparr>
         else \<lparr>po_actor = Some actor, po_result = None, po_error = None, po_observations = [],
               po_omitted = (if po_result core \<noteq> None \<or> cs_replay_result_omitted submit then [Part_result] else [])
                 @ (if po_error core \<noteq> None then [Part_error] else []) @ [Part_observations]\<rparr>)"

definition recordDirectReceipt :: "commit_submit \<Rightarrow> accepted_reply \<Rightarrow> int \<Rightarrow> sequencer \<Rightarrow> sequencer" where
  "recordDirectReceipt submit reply now s =
     recordReply (cs_idempotency_key submit)
       (Accepted (reply\<lparr>ac_replay_output := Some (recordedOutput submit),
          ac_replay_request := cs_request_fingerprint submit,
          ac_replay_receipt := True, ac_replay_guaranteed := True\<rparr>)) now s"

definition reject :: "commit_submit \<Rightarrow> reject_reason \<Rightarrow> detail \<Rightarrow> transcript_cell list \<Rightarrow> int \<Rightarrow> sequencer \<Rightarrow> commit_reply \<times> sequencer" where
  "reject submit reason det mismatched now s =
     (let reply = \<lparr>rj_scope = sq_scope s, rj_reason = reason, rj_retryable = (reason \<in> set RETRYABLE_VERDICTS),
                   rj_head = sq_headState s, rj_replay_request = None, rj_recorded_at = None,
                   rj_replay_guaranteed = False, rj_mismatched_reads = mismatched, rj_detail = det\<rparr>
      in if reason \<notin> set RETRYABLE_VERDICTS \<and> reason \<notin> set UNRECORDED_VERDICTS
            \<and> \<not> jm_has (sq_replies s) (cs_idempotency_key submit)
         then (Rejected reply,
               recordReply (cs_idempotency_key submit)
                 (Rejected (reply\<lparr>rj_replay_request := cs_request_fingerprint submit,
                    rj_replay_guaranteed := cs_retry_receipt submit\<rparr>)) now s)
         else (Rejected reply, s))"

section \<open>What pruning keeps\<close>

lemma del_keys_filter: "del_keys ks m = filter (\<lambda>(k, v). k \<notin> set ks) m"
proof (induction ks arbitrary: m)
  case (Cons k ks)
  have "del_keys (k # ks) m = del_keys ks (jm_del k m)" by (simp add: del_keys_def)
  also have "\<dots> = filter (\<lambda>(k, v). k \<notin> set ks) (filter (\<lambda>(k', v). k \<noteq> k') m)"
    by (simp add: Cons.IH AList.delete_eq)
  also have "\<dots> = filter (\<lambda>(k', v). k' \<notin> set (k # ks)) m" by (simp, rule filter_cong) auto
  finally show ?case .
qed (simp add: del_keys_def)

lemma jm_ok_filter: "jm_ok m \<Longrightarrow> jm_ok (filter P m)"
  by (induction m) auto

lemma get_del_keys: "jm_get (del_keys ks m) k = (if k \<in> set ks then None else jm_get m k)"
  by (induction ks arbitrary: m) (auto simp: del_keys_def)

lemma jm_set_map:
  assumes "jm_ok m" "jm_get m k = Some v"
  shows "jm_set k w m = map (\<lambda>(k', v'). (k', if k' = k then w else v')) m"
  using assms
proof (induction m)
  case (Cons p m)
  obtain k' v' where p: "p = (k', v')" by force
  show ?case
  proof (cases "k' = k")
    case True
    then have "map (\<lambda>(k', v'). (k', if k' = k then w else v')) m = m"
      using Cons.prems(1) p by (intro map_idI) (auto simp: image_iff)
    then show ?thesis using True p by simp
  next
    case False
    then show ?thesis using Cons p by simp
  qed
qed simp

definition strip_at :: "string list \<Rightarrow> string \<times> commit_reply \<Rightarrow> string \<times> commit_reply" where
  "strip_at ks kr = (fst kr, if fst kr \<in> set ks then strip_output (snd kr) else snd kr)"

lemma strip_output_laws [simp]:
  "strip_output (strip_output r) = strip_output r"
  "reply_head (strip_output r) = reply_head r"
  "recorded_at (strip_output r) = recorded_at r"
  "replay_guaranteed (strip_output r) = replay_guaranteed r"
  "replay_request (strip_output r) = replay_request r"
  "isNonAdvancingReply (strip_output r) = isNonAdvancingReply r"
  "\<not> carries_output (strip_output r)"
  by (cases r; simp add: carries_output_def)+

lemma strip_rejected: "\<not> carries_output r \<Longrightarrow> strip_output r = r"
  by (cases r) (auto simp: carries_output_def)

text \<open>Shedding strips the payload of each listed row in place.\<close>

lemma shed_map:
  assumes "jm_ok m"
  shows "snd (shed ks m) = map (strip_at ks) m"
proof -
  let ?step = "\<lambda>key (rewritten, m). case jm_get m key of
      Some (Accepted a) \<Rightarrow>
        (rewritten @ [(key, strip_output (Accepted a))], jm_set key (strip_output (Accepted a)) m)
    | _ \<Rightarrow> (rewritten, m)"
  have "snd (fold ?step ks (rw, m)) = map (strip_at ks) m" if "jm_ok m" for rw m
    using that
  proof (induction ks arbitrary: rw m)
    case (Cons k ks)
    define m' where "m' = snd (?step k (rw, m))"
    have step: "m' = map (strip_at [k]) m"
    proof (cases "jm_get m k")
      case None
      then have "k \<notin> fst ` set m" by (simp add: map_of_eq_None_iff)
      then have "map (strip_at [k]) m = m" by (intro map_idI) (auto simp: strip_at_def)
      with None show ?thesis by (simp add: m'_def)
    next
      case (Some r)
      then have "jm_set k (strip_output r) m = map (strip_at [k]) m"
        unfolding jm_set_map [OF Cons.prems Some]
        using Cons.prems Some
        by (intro map_cong) (auto simp: strip_at_def dest: eq_key_imp_eq_value map_of_SomeD)
      moreover have "m' = jm_set k (strip_output r) m"
        using Some by (cases r) (auto simp: m'_def update_triv)
      ultimately show ?thesis by simp
    qed
    have "jm_ok m'" using Cons.prems by (simp add: step strip_at_def comp_def)
    then have "snd (fold ?step ks (rw', m')) = map (strip_at ks) m'" for rw' by (rule Cons.IH)
    moreover have "?step k (rw, m) = (fst (?step k (rw, m)), m')" unfolding m'_def by (rule prod.collapse [symmetric])
    ultimately have "snd (fold ?step (k # ks) (rw, m)) = map (strip_at ks) m'"
      unfolding fold_simps(2) comp_def by (metis (no_types, lifting))
    also have "\<dots> = map (strip_at (k # ks)) m" by (simp add: step strip_at_def comp_def)
    finally show ?case .
  qed (simp add: strip_at_def [abs_def])
  from this [OF assms, of "[]"] show ?thesis by (simp add: shed_def)
qed

lemma get_map_strip: "jm_get (map (strip_at ks) m) k = map_option (\<lambda>r. if k \<in> set ks then strip_output r else r) (jm_get m k)"
  by (induction m) (auto simp: strip_at_def)

definition prune_partition :: "int \<Rightarrow> sequencer \<Rightarrow> (string \<times> int) list \<times> string list" where
  "prune_partition now s = partition_replies (evictable (del_keys (expired_keys s now (sq_replies s)) (sq_replies s))) []"

definition dropped_keys :: "int \<Rightarrow> sequencer \<Rightarrow> string list" where
  "dropped_keys now s = overflow_keys (snd (prune_partition now s)) (receipt_limit s)
     @ window_keys (fst (prune_partition now s)) (reply_limit s) (sh_seq (sq_headState s) - int (so_tailLimit (sq_options s)))"

lemma pruneReplies_shape:
  assumes "jm_ok (sq_replies s)"
  shows "\<exists>ks. snd (pruneReplies now s) = s\<lparr>sq_replies := map (strip_at ks)
      (del_keys (expired_keys s now (sq_replies s) @ dropped_keys now s) (sq_replies s))\<rparr>
    \<and> ks = shed_keys (del_keys (expired_keys s now (sq_replies s) @ dropped_keys now s) (sq_replies s)) (payload_cap s)"
    (is "\<exists>ks. _ = s\<lparr>sq_replies := map _ ?m\<rparr> \<and> _")
proof -
  have m: "del_keys (window_keys a b c) (del_keys (overflow_keys d e) (del_keys f m))
      = del_keys (f @ overflow_keys d e @ window_keys a b c) m" for a b c d e f and m :: "(string, commit_reply) jsmap"
    by (simp add: del_keys_def)
  have "jm_ok ?m" using assms by (simp add: del_keys_filter jm_ok_filter)
  from shed_map [OF this, of "shed_keys ?m (payload_cap s)"]
  show ?thesis
    by (simp add: pruneReplies_def dropped_keys_def prune_partition_def Let_def split_beta m)
qed

lemma partition_replies_spec:
  assumes "partition_replies es claimed = (adv, non)"
  shows "mset (map fst adv @ non) = mset (map fst es)"
    and "distinct (map snd adv)" and "set (map snd adv) \<inter> set claimed = {}"
    and "\<forall>(k, sq) \<in> set adv. \<exists>r. (k, r) \<in> set es \<and> \<not> isNonAdvancingReply r \<and> sh_seq (reply_head r) = sq"
proof -
  define ok where "ok = (\<lambda>es claimed adv non. mset (map fst adv @ non) = mset (map fst (es :: (string \<times> commit_reply) list))
    \<and> distinct (map snd adv) \<and> set (map snd adv) \<inter> set claimed = {}
    \<and> (\<forall>(k, sq) \<in> set adv. \<exists>r. (k, r) \<in> set es \<and> \<not> isNonAdvancingReply r \<and> sh_seq (reply_head r) = sq))"
  have "ok es claimed adv non"
    using assms
  proof (induction es claimed arbitrary: adv non rule: partition_replies.induct)
    case (2 key reply rest claimed)
    obtain adv' non' where sub: "partition_replies rest
        (if isNonAdvancingReply reply \<or> sh_seq (reply_head reply) \<in> set claimed then claimed
         else sh_seq (reply_head reply) # claimed) = (adv', non')" by force
    show ?case
    proof (cases "isNonAdvancingReply reply \<or> sh_seq (reply_head reply) \<in> set claimed")
      case True
      then have "adv = adv'" "non = key # non'" using 2(3) sub by auto
      moreover have "ok rest claimed adv' non'" using 2(1) [OF True] sub True by simp
      ultimately show ?thesis unfolding ok_def by (auto simp: split_beta)
    next
      case False
      then have "adv = (key, sh_seq (reply_head reply)) # adv'" "non = non'" using 2(3) sub by auto
      moreover have "ok rest (sh_seq (reply_head reply) # claimed) adv' non'" using 2(2) [OF False] sub False by simp
      ultimately show ?thesis using False unfolding ok_def by (auto simp: split_beta)
    qed
  qed (simp add: ok_def)
  then show "mset (map fst adv @ non) = mset (map fst es)" "distinct (map snd adv)"
    "set (map snd adv) \<inter> set claimed = {}"
    "\<forall>(k, sq) \<in> set adv. \<exists>r. (k, r) \<in> set es \<and> \<not> isNonAdvancingReply r \<and> sh_seq (reply_head r) = sq"
    by (simp_all add: ok_def)
qed

text \<open>A dropped row is evictable: it is not guaranteed.\<close>

lemma set_overflow: "set (overflow_keys non l) \<subseteq> set non"
  by (simp add: overflow_keys_def set_take_subset)

lemma set_window: "set (window_keys adv l c) \<subseteq> fst ` {(k, sq) \<in> set adv. sq \<le> c}"
proof -
  have "set (take n (sort_key snd (filter (\<lambda>(k, sq). sq \<le> c) adv))) \<subseteq> {(k, sq) \<in> set adv. sq \<le> c}" for n
    using set_take_subset [of n "sort_key snd (filter (\<lambda>(k, sq). sq \<le> c) adv)"] by auto
  then show ?thesis by (auto simp: window_keys_def)
qed

lemma partition_keys:
  assumes "partition_replies es [] = (adv, non)"
  shows "set non \<subseteq> fst ` set es" "fst ` set adv \<subseteq> fst ` set es"
  using arg_cong [OF partition_replies_spec(1) [OF assms], of set_mset] by auto

lemma dropped_not_guaranteed:
  assumes ok: "jm_ok (sq_replies s)" and k: "k \<in> set (dropped_keys now s)" and r: "jm_get (sq_replies s) k = Some r"
  shows "\<not> replay_guaranteed r"
proof -
  let ?es = "evictable (del_keys (expired_keys s now (sq_replies s)) (sq_replies s))"
  obtain adv non where p: "partition_replies ?es [] = (adv, non)" by force
  have "set (window_keys adv l c) \<subseteq> fst ` set adv" for l c using set_window [of adv l c] by auto
  moreover have "k \<in> set (overflow_keys non (receipt_limit s))
      \<or> (\<exists>l c. k \<in> set (window_keys adv l c))"
    using k unfolding dropped_keys_def prune_partition_def p by auto
  ultimately have "k \<in> set non \<union> fst ` set adv" using set_overflow [of non "receipt_limit s"] by blast
  with partition_keys [OF p] have "k \<in> fst ` set ?es" by blast
  then obtain r' where "(k, r') \<in> set (sq_replies s)" "\<not> replay_guaranteed r'"
    by (auto simp: evictable_def del_keys_filter)
  with ok r show ?thesis by auto
qed

lemma prune_keeps_guaranteed:
  assumes ok: "jm_ok (sq_replies s)" and r: "jm_get (sq_replies s) k = Some r"
    and g: "replay_guaranteed r" "\<not> replyExpired s r now"
  shows "\<exists>r'. jm_get (sq_replies (snd (pruneReplies now s))) k = Some r' \<and> strip_output r' = strip_output r"
proof -
  have "k \<notin> set (dropped_keys now s)" using dropped_not_guaranteed [OF ok _ r] g(1) by blast
  moreover have "k \<notin> set (expired_keys s now (sq_replies s))"
    using ok r g(2) by (auto simp: expired_keys_def dest: eq_key_imp_eq_value map_of_SomeD)
  ultimately have "jm_get (del_keys (expired_keys s now (sq_replies s) @ dropped_keys now s) (sq_replies s)) k = Some r"
    using r by (simp add: get_del_keys)
  then show ?thesis using pruneReplies_shape [OF ok, of now] by (auto simp: get_map_strip)
qed

section \<open>How much pruning keeps\<close>

text \<open>Counting a map without some of its keys.\<close>

lemma length_del_keys:
  assumes "jm_ok m" "distinct ks" "set ks \<subseteq> fst ` set m"
  shows "length (filter (\<lambda>(k, v). k \<notin> set ks) m) = length m - length ks"
proof -
  have "length (filter (\<lambda>(k, v). k \<notin> set ks) m) = length (map fst (filter (\<lambda>(k, v). k \<notin> set ks) m))" by simp
  also have "map fst (filter (\<lambda>(k, v). k \<notin> set ks) m) = filter (\<lambda>k. k \<notin> set ks) (map fst m)"
    by (induction m) auto
  also have "length \<dots> = card (set (filter (\<lambda>k. k \<notin> set ks) (map fst m)))"
    using assms(1) by (metis distinct_card distinct_filter)
  also have "set (filter (\<lambda>k. k \<notin> set ks) (map fst m)) = fst ` set m - set ks" by auto
  also have "card \<dots> = card (fst ` set m) - card (set ks)"
    using assms(3) by (simp add: card_Diff_subset)
  also have "\<dots> = length m - length ks"
    using assms(1,2) by (metis distinct_card length_map list.set_map)
  finally show ?thesis .
qed

text \<open>Distinct integers in a window of width \<open>w\<close> are at most \<open>w\<close> many.\<close>

lemma window_count:
  assumes "distinct (map snd adv)" "\<forall>(k, sq) \<in> set adv. c < sq \<and> sq \<le> c + int w"
  shows "length (adv :: (string \<times> int) list) \<le> w"
proof -
  have "set (map snd adv) \<subseteq> {c <.. c + int w}" using assms(2) by auto
  then have "card (set (map snd adv)) \<le> w" using card_mono [of "{c <.. c + int w}"] by fastforce
  then show ?thesis using assms(1) by (metis distinct_card length_map)
qed

lemma window_keeps:
  assumes d: "distinct (map snd adv)" and h: "\<forall>(k, sq) \<in> set adv. sq \<le> hd'"
  shows "int (length adv - length (window_keys adv l (hd' - int w))) \<le> max l (int w)"
proof (cases "int (length adv) > l")
  case True
  let ?c = "filter (\<lambda>(k, sq). sq \<le> hd' - int w) adv"
  have len: "length (window_keys adv l (hd' - int w)) = min (nat (int (length adv) - l)) (length ?c)"
    using True by (simp add: window_keys_def)
  have "length ?c + length (filter (\<lambda>x. \<not> (case x of (k, sq) \<Rightarrow> sq \<le> hd' - int w)) adv) = length adv"
    by (rule sum_length_filter_compl)
  moreover have "length (filter (\<lambda>x. \<not> (case x of (k, sq) \<Rightarrow> sq \<le> hd' - int w)) adv) \<le> w"
    using d h by (intro window_count [where c = "hd' - int w"]) (auto simp: distinct_map_filtered)
  ultimately show ?thesis using True len by (auto simp: min_def)
qed (simp add: window_keys_def)

lemma overflow_keeps: "int (length non - length (overflow_keys non l)) \<le> max 0 l"
  by (auto simp: overflow_keys_def min_def)

definition replies_below_head :: "sequencer \<Rightarrow> bool" where
  "replies_below_head s \<longleftrightarrow>
     (\<forall>(k, r) \<in> set (sq_replies s). \<not> isNonAdvancingReply r \<longrightarrow> sh_seq (reply_head r) \<le> sh_seq (sq_headState s))"

lemma evictable_strip: "evictable (map (strip_at ks) m) = map (strip_at ks) (evictable m)"
  by (induction m) (auto simp: evictable_def strip_at_def)

lemma evictable_del: "evictable (del_keys (ks @ ls) m) = filter (\<lambda>(k, v). k \<notin> set ls) (evictable (del_keys ks m))"
  by (induction m) (auto simp: evictable_def del_keys_filter)

lemma jm_ok_evictable: "jm_ok m \<Longrightarrow> jm_ok (evictable m)"
  by (simp add: evictable_def jm_ok_filter)

lemma distinct_fst_window:
  assumes "distinct (map fst adv)"
  shows "distinct (window_keys adv l c)"
proof -
  have "distinct (map fst (sort_key snd (filter (\<lambda>(k, sq). sq \<le> c) adv)))"
    using assms by (metis distinct_map_filtered mset_eq_imp_distinct_iff mset_map mset_sort)
  then show ?thesis by (simp add: window_keys_def take_map [symmetric])
qed

lemma prune_evictable_bound:
  assumes ok: "jm_ok (sq_replies s)" and below: "replies_below_head s"
  shows "int (length (evictable (sq_replies (snd (pruneReplies now s)))))
    \<le> max (reply_limit s) (int (so_tailLimit (sq_options s))) + max 0 (receipt_limit s)"
proof -
  let ?m1 = "del_keys (expired_keys s now (sq_replies s)) (sq_replies s)"
  let ?es = "evictable ?m1"
  let ?w = "so_tailLimit (sq_options s)" and ?h = "sh_seq (sq_headState s)"
  obtain adv non where p: "partition_replies ?es [] = (adv, non)" by force
  note spec = partition_replies_spec [OF p]
  let ?ov = "overflow_keys non (receipt_limit s)" and ?wk = "window_keys adv (reply_limit s) (?h - int ?w)"
  have es: "jm_ok ?es" using ok by (simp add: del_keys_filter jm_ok_filter jm_ok_evictable)
  then have d: "distinct (map fst adv @ non)" using spec(1) by (metis mset_eq_imp_distinct_iff)
  have len: "length ?es = length adv + length non" using arg_cong [OF spec(1), of size] by simp
  have ov: "set ?ov \<subseteq> set non" by (rule set_overflow)
  have wk: "set ?wk \<subseteq> fst ` set adv" using set_window [of adv "reply_limit s" "?h - int ?w"] by auto
  have sub: "set (?ov @ ?wk) \<subseteq> fst ` set ?es"
    unfolding set_append using ov wk partition_keys [OF p] by blast
  have "set non \<inter> fst ` set adv = {}" using d by auto
  then have "set ?ov \<inter> set ?wk = {}" using ov wk by blast
  moreover have "distinct ?ov" using d by (simp add: overflow_keys_def)
  ultimately have dd: "distinct (?ov @ ?wk)" using d distinct_fst_window [of adv] by simp
  have "sq_replies (snd (pruneReplies now s)) = map (strip_at ks) (del_keys (expired_keys s now (sq_replies s) @ ?ov @ ?wk) (sq_replies s))"
    if "ks = shed_keys (del_keys (expired_keys s now (sq_replies s) @ ?ov @ ?wk) (sq_replies s)) (payload_cap s)" for ks
    using pruneReplies_shape [OF ok, of now] that by (simp add: dropped_keys_def prune_partition_def p)
  then have "length (evictable (sq_replies (snd (pruneReplies now s)))) = length ?es - length (?ov @ ?wk)"
    using length_del_keys [OF es dd sub] by (simp add: evictable_strip evictable_del)
  also have "\<dots> \<le> (length adv - length ?wk) + (length non - length ?ov)" by (simp add: len)
  finally have "int (length (evictable (sq_replies (snd (pruneReplies now s)))))
      \<le> int (length adv - length ?wk) + int (length non - length ?ov)" by linarith
  moreover have "\<forall>(k, sq) \<in> set adv. sq \<le> ?h"
    using spec(4) below unfolding replies_below_head_def by (fastforce simp: evictable_def del_keys_filter)
  then have "int (length adv - length ?wk) \<le> max (reply_limit s) (int ?w)"
    by (rule window_keeps [OF spec(2)])
  ultimately show ?thesis using overflow_keeps [of non "receipt_limit s"] by linarith
qed

lemma prune_payload_bound:
  assumes ok: "jm_ok (sq_replies s)"
  shows "int (length (filter carries_output (jm_values (sq_replies (snd (pruneReplies now s)))))) \<le> max 0 (payload_cap s)"
proof -
  define m where "m = del_keys (expired_keys s now (sq_replies s) @ dropped_keys now s) (sq_replies s)"
  define ks where "ks = shed_keys m (payload_cap s)"
  let ?c = "filter (\<lambda>(k, r). carries_output r) m"
  have okc: "jm_ok ?c" using ok by (simp add: m_def del_keys_filter jm_ok_filter)
  have ks: "ks = take (nat (int (length ?c) - payload_cap s)) (map fst ?c)"
    by (simp add: ks_def shed_keys_def)
  have "length (filter carries_output (jm_values (map (strip_at ls) m'))) = length (filter (\<lambda>(k, v). k \<notin> set ls) (filter (\<lambda>(k, r). carries_output r) m'))"
    for ls m' by (induction m') (auto simp: strip_at_def)
  moreover have "sq_replies (snd (pruneReplies now s)) = map (strip_at ks) m"
    using pruneReplies_shape [OF ok, of now] by (simp add: m_def ks_def)
  ultimately have "length (filter carries_output (jm_values (sq_replies (snd (pruneReplies now s)))))
      = length (filter (\<lambda>(k, v). k \<notin> set ks) ?c)" by simp
  also have "\<dots> = length ?c - length ks"
  proof (rule length_del_keys [OF okc])
    show "distinct ks" unfolding ks using okc by (rule distinct_take)
    show "set ks \<subseteq> fst ` set ?c" unfolding ks using set_take_subset [of _ "map fst ?c"] by (metis list.set_map)
  qed
  finally show ?thesis unfolding ks by auto
qed

definition demo_cache :: sequencer where
  "demo_cache = fresh_sequencer ''room:a'' ''e1'' (default_options\<lparr>so_replyLimit := Some 1\<rparr>) None"

definition demo_receipt :: accepted_reply where
  "demo_receipt = \<lparr>ac_scope = ''room:a'', ac_head = \<lparr>sh_seq = 0, sh_hash = ''h'', sh_generation = Some 0\<rparr>, ac_touched = [],
     ac_post_state_version = ''v'', ac_relations = [], ac_relations_foreign = [], ac_replayed = False,
     ac_replay_output = None, ac_replay_request = None, ac_replay_receipt = True, ac_recorded_at = Some 0,
     ac_replay_guaranteed = True\<rparr>"

text \<open>
  C8: the cache is bounded. Whatever was recorded, after a prune the replies that carry no
  guarantee number at most the larger of the reply limit and the tail window, plus the receipt
  quota; and at most the payload cap of all rows still carry an output. (Rows with an unexpired
  guarantee are bounded by admission, not here.)
\<close>

theorem pruneReplies_bound:
  assumes "jm_ok (sq_replies s)" "replies_below_head s"
  shows "int (length (evictable (sq_replies (snd (pruneReplies now s)))))
      \<le> max (reply_limit s) (int (so_tailLimit (sq_options s))) + max 0 (receipt_limit s)
    \<and> int (length (filter carries_output (jm_values (sq_replies (snd (pruneReplies now s)))))) \<le> max 0 (payload_cap s)"
  using prune_evictable_bound [OF assms] prune_payload_bound [OF assms(1)] by blast

theorem pruneReplies_bound_witness:
  "int (length (evictable (sq_replies (snd (pruneReplies 5
     (demo_cache\<lparr>sq_replies := [(''k'', Accepted (demo_receipt\<lparr>ac_replay_guaranteed := False\<rparr>))]\<rparr>)))))) \<le> 257"
proof -
  let ?s = "demo_cache\<lparr>sq_replies := [(''k'', Accepted (demo_receipt\<lparr>ac_replay_guaranteed := False\<rparr>))]\<rparr>"
  have "jm_ok (sq_replies ?s)" "replies_below_head ?s"
    by (simp_all add: replies_below_head_def demo_receipt_def)
  moreover have "max (reply_limit ?s) (int (so_tailLimit (sq_options ?s))) + max 0 (receipt_limit ?s) = 257"
    by (simp add: demo_cache_def fresh_sequencer_def reply_limit_def receipt_limit_def default_options_def
        DEFAULT_TAIL_LIMIT_def RECEIPT_CACHE_CAP_def)
  ultimately show ?thesis using pruneReplies_bound [of ?s 5] by simp
qed

text \<open>
  A guarantee is not evicted. A recorded outcome with an unexpired guarantee is still there
  after any prune, with the same verdict, head, fingerprint and recording time; only its payload
  may have been shed.
\<close>

theorem pruneReplies_guarantee:
  assumes "jm_ok (sq_replies s)" "jm_get (sq_replies s) k = Some r" "replay_guaranteed r" "\<not> replyExpired s r now"
  shows "\<exists>r'. jm_get (sq_replies (snd (pruneReplies now s))) k = Some r' \<and> strip_output r' = strip_output r"
  by (rule prune_keeps_guaranteed [OF assms])

theorem pruneReplies_guarantee_witness:
  "\<exists>r'. jm_get (sq_replies (snd (pruneReplies 5 (demo_cache\<lparr>sq_replies := [(''k'', Accepted demo_receipt)]\<rparr>)))) ''k'' = Some r'
     \<and> strip_output r' = Accepted demo_receipt"
  using pruneReplies_guarantee [of "demo_cache\<lparr>sq_replies := [(''k'', Accepted demo_receipt)]\<rparr>" "''k''" "Accepted demo_receipt" 5]
  by (simp add: demo_cache_def fresh_sequencer_def replyExpired_def reply_lease_def IDEMPOTENCY_LEASE_MS_def
      default_options_def demo_receipt_def)

end
