(* ===== verification/Schedules.thy ===== *)
theory Schedules
  imports Sequencer
begin

text \<open>
  Scheduled turns of a scope (\<open>src/net/scope.ts\<close>, with the envelope of \<open>src/core/scheduling.ts\<close>):
  validation of schedule and cancel effects, the pending queue and its quotas, delivery at a
  logical time and parking while a room has no live subscriber. \<open>localeCompare\<close> is the parameter
  \<open>locale_le\<close>.
\<close>

section \<open>Rows\<close>

fun policy_name :: "idle_policy \<Rightarrow> string" where
  "policy_name While_active = ''while_active''"
| "policy_name Always = ''always''"
| "policy_name (Unknown_policy p) = p"

definition call_json :: "schedule_call \<Rightarrow> json" where
  "call_json c = JObj [(''actor'', JStr (sc_actor c)), (''target'', JStr (sc_target c)), (''verb'', JStr (sc_verb c)),
     (''args'', JArr (sc_args c))]"

definition turn_json :: "scheduled_turn \<Rightarrow> json" where
  "turn_json t = JObj ([(''id'', JStr (su_id t)), (''at_logical_time'', JNum (su_at_logical_time t))]
     @ present ''idle_policy'' (map_option (JStr \<circ> policy_name) (su_idle_policy t))
     @ [(''call'', call_json (su_call t))]
     @ present ''principal'' (su_principal t) @ present ''trace'' (su_trace t))"

definition scheduledTurnBytes :: "scheduled_turn \<Rightarrow> int" where
  "scheduledTurnBytes t = int (length (utf8Encode (json_stringify (turn_json t))))"

definition scheduleAttribution :: "commit_submit \<Rightarrow> json option \<times> json option" where
  "scheduleAttribution submit = (t_principal (cs_transcript submit), t_trace (cs_transcript submit))"

definition scheduledTurnFromRequest :: "transcript_schedule \<Rightarrow> json option \<times> json option \<Rightarrow> scheduled_turn" where
  "scheduledTurnFromRequest request attr =
     \<lparr>su_id = ts_id request, su_at_logical_time = ts_at request, su_idle_policy = Some (ts_idlePolicy request),
      su_call = ts_call request, su_principal = fst attr, su_trace = snd attr\<rparr>"

text \<open>\<open>id.indexOf(":") < 0 ? "" : id.slice(0, id.indexOf(":"))\<close>: the arming object's namespace.\<close>

definition schedule_owner :: "string \<Rightarrow> string" where
  "schedule_owner i = (if CHR '':'' \<in> set i then takeWhile (\<lambda>c. c \<noteq> CHR '':'') i else [])"

definition pendingScheduleRows :: "sequencer \<Rightarrow> scheduled_turn list" where
  "pendingScheduleRows s = (case sq_durable s of Some d \<Rightarrow> jm_values (ds_scheduled d) | None \<Rightarrow> jm_values (sq_scheduled s))"

definition pendingRows :: "(string \<Rightarrow> string \<Rightarrow> bool) \<Rightarrow> sequencer \<Rightarrow> scheduled_turn list" where
  "pendingRows locale_le s = sort_by (turn_le locale_le) (pendingScheduleRows s)"

record pending_row =
  pq_bytes :: int
  pq_owner :: string

record pending_summary =
  ps_count :: int
  ps_bytes :: int
  ps_perObject :: "(string, int) jsmap"
  ps_byId :: "(string, pending_row) jsmap"

definition count_of :: "int \<Rightarrow> (string, int) jsmap \<Rightarrow> string \<Rightarrow> int" where
  "count_of d m k = (case jm_get m k of Some n \<Rightarrow> n | None \<Rightarrow> d)"

definition summarize_row :: "scheduled_turn \<Rightarrow> pending_summary \<Rightarrow> pending_summary" where
  "summarize_row row p =
     (let owner = schedule_owner (su_id row) in
      p\<lparr>ps_bytes := ps_bytes p + scheduledTurnBytes row,
        ps_perObject := jm_set owner (count_of 0 (ps_perObject p) owner + 1) (ps_perObject p),
        ps_byId := jm_set (su_id row) \<lparr>pq_bytes = scheduledTurnBytes row, pq_owner = owner\<rparr> (ps_byId p)\<rparr>)"

definition pendingScheduleSummary :: "sequencer \<Rightarrow> pending_summary" where
  "pendingScheduleSummary s =
     (let rows = pendingScheduleRows s
      in fold summarize_row rows \<lparr>ps_count = int (length rows), ps_bytes = 0, ps_perObject = [], ps_byId = []\<rparr>)"

section \<open>Validation\<close>

text \<open>
  Whether a created object anchors here: unanchored, anchored to an object this scope holds, or to
  an object created in the same turn that does. The list of anchors already walked ends a cycle.
\<close>

function createResolvesToThisScope ::
    "sequencer \<Rightarrow> transcript_create list \<Rightarrow> transcript_create \<Rightarrow> string list \<Rightarrow> bool" where
  "createResolvesToThisScope s creates create seen =
     (case cr_anchor create of
        None \<Rightarrow> True
      | Some anchor \<Rightarrow>
          if store_get (sq_store s) (cellKey Object_lineage anchor None) \<noteq> None then True
          else if anchor \<in> set seen then False
          else case find (\<lambda>c. cr_object c = anchor) creates of
            None \<Rightarrow> False
          | Some anchorCreate \<Rightarrow> createResolvesToThisScope s creates anchorCreate (anchor # seen))"
  by pat_completeness auto
termination
proof (relation "measure (\<lambda>(s, creates, create, seen). card (cr_object ` set creates - set seen))", goal_cases)
  case (2 s creates create seen anchor anchorCreate)
  then have "anchor \<in> cr_object ` set creates" by (auto simp: find_Some_iff)
  with 2 have "cr_object ` set creates - set (anchor # seen) \<subset> cr_object ` set creates - set seen" by auto
  then show ?case by (auto intro: psubset_card_mono)
qed simp

declare createResolvesToThisScope.simps [simp del]

text \<open>The first error of a list of checks.\<close>

fun first_error :: "'e option list \<Rightarrow> 'e option" where
  "first_error [] = None"
| "first_error (None # es) = first_error es"
| "first_error (Some e # es) = Some e"

definition fail_when :: "bool \<Rightarrow> string \<Rightarrow> string option" where
  "fail_when b e = (if b then Some e else None)"

definition recorded_clock :: "transcript \<Rightarrow> int option" where
  "recorded_clock t = (case find (\<lambda>(name, v). name = SCHEDULE_CLOCK_INPUT \<and> jnum (Some v) \<noteq> None) (t_logicalInputs t) of
      None \<Rightarrow> None
    | Some (name, v) \<Rightarrow> jnum (Some v))"

definition schedule_target_error :: "sequencer \<Rightarrow> commit_submit \<Rightarrow> transcript_schedule \<Rightarrow> string option" where
  "schedule_target_error s submit request =
     (let t = cs_transcript submit; target = sc_target (ts_call request);
          createdHere = find (\<lambda>c. cr_object c = target) (t_creates t);
          createLandsHere = (case createdHere of None \<Rightarrow> False | Some c \<Rightarrow> createResolvesToThisScope s (t_creates t) c []);
          known = (store_get (sq_store s) (cellKey Object_lineage target None) \<noteq> None \<or> createLandsHere)
      in fail_when (\<not> known)
           (if createdHere \<noteq> None
            then ''schedule '' @ ts_id request @ '' targets '' @ target @ '', created in this turn but anchored outside '' @ sq_scope s
            else ''schedule '' @ ts_id request @ '' targets '' @ target @ '', which this scope does not hold''))"

definition schedule_time_error :: "int option \<Rightarrow> transcript_schedule \<Rightarrow> string option" where
  "schedule_time_error recordedNow request = (case recordedNow of
      None \<Rightarrow> Some (''schedule '' @ ts_id request @ '' cannot be validated: the arming turn recorded no clock reading'')
    | Some now \<Rightarrow>
        if ts_at request < now + SCHEDULE_MIN_LEAD_MS
        then Some (''schedule '' @ ts_id request @ '' fires in '' @ show_int (ts_at request - now)
               @ ''ms; the minimum lead time is '' @ show_int SCHEDULE_MIN_LEAD_MS @ ''ms'')
        else fail_when (ts_at request > now + SCHEDULE_MAX_HORIZON_MS)
               (''schedule '' @ ts_id request @ '' is beyond the '' @ show_int SCHEDULE_MAX_HORIZON_MS @ ''ms horizon''))"

definition schedule_request_error :: "sequencer \<Rightarrow> commit_submit \<Rightarrow> int option \<Rightarrow> transcript_schedule \<Rightarrow> string option" where
  "schedule_request_error s submit recordedNow request =
     (let t = cs_transcript submit; i = ts_id request; actor = tk_actor (t_call t);
          recycled = map rc_object (t_recycles t)
      in case ts_armed_by request of
        None \<Rightarrow> Some (''schedule '' @ i @ '' carries no arming-frame provenance'')
      | Some armedBy \<Rightarrow> first_error
          [fail_when (sc_actor (ts_call request) \<noteq> actor)
             (''schedule '' @ i @ '' names actor '' @ sc_actor (ts_call request) @ '', not the arming turn's actor '' @ actor),
           fail_when (schedule_owner i \<noteq> wa_thisObj armedBy)
             (''schedule '' @ i @ '' is outside the arming object's namespace ('' @ wa_thisObj armedBy @ '')''),
           fail_when (ts_idlePolicy request \<noteq> While_active \<and> ts_idlePolicy request \<noteq> Always)
             (''schedule '' @ i @ '' has unknown idle_policy '' @ policy_name (ts_idlePolicy request)),
           fail_when (ts_idlePolicy request = Always \<and> \<not> isWizardRef s (wa_progr armedBy))
             (''schedule '' @ i @ '' requests idle_policy '' @ [CHR 0x22] @ ''always'' @ [CHR 0x22] @ '' without wizard authority ('' @ wa_progr armedBy @ '')''),
           schedule_time_error recordedNow request,
           (case so_scopeOf (sq_options s) of
              None \<Rightarrow> None
            | Some scopeOf \<Rightarrow> fail_when (scopeOf (sc_target (ts_call request)) \<noteq> sq_scope s)
                (''schedule '' @ i @ '' targets '' @ sc_target (ts_call request) @ '' in scope ''
                   @ scopeOf (sc_target (ts_call request)) @ '', not '' @ sq_scope s)),
           fail_when (sc_target (ts_call request) \<in> set recycled)
             (''schedule '' @ i @ '' targets '' @ sc_target (ts_call request) @ '', which this same turn recycles''),
           fail_when (wa_thisObj armedBy \<in> set recycled)
             (''schedule '' @ i @ '' is armed by '' @ wa_thisObj armedBy @ '', which this same turn recycles''),
           schedule_target_error s submit request,
           (let bytes = scheduledTurnBytes (scheduledTurnFromRequest request (scheduleAttribution submit))
            in fail_when (bytes > SCHEDULE_MAX_ENTRY_BYTES)
                 (''schedule '' @ i @ '' serializes to '' @ show_int bytes @ '' bytes; the per-entry cap is ''
                    @ show_int SCHEDULE_MAX_ENTRY_BYTES))])"

definition cancellation_error :: "sequencer \<Rightarrow> transcript_cancel \<Rightarrow> string option" where
  "cancellation_error s entry = (case tc_armed_by entry of
      None \<Rightarrow> Some (''cancellation '' @ tc_id entry @ '' carries no arming-frame provenance'')
    | Some armedBy \<Rightarrow> fail_when (schedule_owner (tc_id entry) \<noteq> wa_thisObj armedBy \<and> \<not> isWizardRef s (wa_progr armedBy))
        (''cancellation '' @ tc_id entry @ '' is outside the calling object's namespace ('' @ wa_thisObj armedBy @ '')''))"

record quota_state =
  qu_count :: int
  qu_bytes :: int
  qu_perObject :: "(string, int) jsmap"

definition quota_schedule :: "pending_summary \<Rightarrow> commit_submit \<Rightarrow> transcript_schedule \<Rightarrow> quota_state \<Rightarrow> quota_state" where
  "quota_schedule pending submit request q =
     (let row = scheduledTurnFromRequest request (scheduleAttribution submit);
          q1 = (case jm_get (ps_byId pending) (ts_id request) of
              Some existing \<Rightarrow> q\<lparr>qu_bytes := qu_bytes q - pq_bytes existing,
                qu_perObject := jm_set (pq_owner existing) (count_of 1 (qu_perObject q) (pq_owner existing) - 1) (qu_perObject q)\<rparr>
            | None \<Rightarrow> q\<lparr>qu_count := qu_count q + 1\<rparr>);
          owner = (case ts_armed_by request of Some a \<Rightarrow> wa_thisObj a | None \<Rightarrow> [])
      in q1\<lparr>qu_bytes := qu_bytes q1 + scheduledTurnBytes row,
            qu_perObject := jm_set owner (count_of 0 (qu_perObject q1) owner + 1) (qu_perObject q1)\<rparr>)"

definition quota_cancel :: "pending_summary \<Rightarrow> transcript_cancel \<Rightarrow> quota_state \<Rightarrow> quota_state" where
  "quota_cancel pending entry q = (case jm_get (ps_byId pending) (tc_id entry) of
      None \<Rightarrow> q
    | Some existing \<Rightarrow> q\<lparr>qu_count := qu_count q - 1, qu_bytes := qu_bytes q - pq_bytes existing,
        qu_perObject := jm_set (pq_owner existing) (count_of 1 (qu_perObject q) (pq_owner existing) - 1) (qu_perObject q)\<rparr>)"

definition schedule_quota :: "sequencer \<Rightarrow> commit_submit \<Rightarrow> quota_state" where
  "schedule_quota s submit =
     (let pending = pendingScheduleSummary s; t = cs_transcript submit
      in fold (quota_cancel pending) (t_cancellations t)
           (fold (quota_schedule pending submit) (t_schedules t)
             \<lparr>qu_count = ps_count pending, qu_bytes = ps_bytes pending, qu_perObject = ps_perObject pending\<rparr>))"

definition quota_error :: "quota_state \<Rightarrow> string option" where
  "quota_error q = first_error
     ([fail_when (qu_count q > SCHEDULE_MAX_PER_SCOPE)
         (''scope would hold '' @ show_int (qu_count q) @ '' pending schedules; the cap is '' @ show_int SCHEDULE_MAX_PER_SCOPE),
       fail_when (qu_bytes q > SCHEDULE_MAX_SCOPE_BYTES)
         (''scope schedule queue would hold '' @ show_int (qu_bytes q) @ '' bytes; the cap is '' @ show_int SCHEDULE_MAX_SCOPE_BYTES)]
      @ map (\<lambda>(owner, owned). fail_when (owned > SCHEDULE_MAX_PER_OBJECT)
         (''object '' @ owner @ '' would hold '' @ show_int owned @ '' pending schedules; the per-object cap is ''
            @ show_int SCHEDULE_MAX_PER_OBJECT)) (qu_perObject q))"

definition scheduleEffectsError :: "sequencer \<Rightarrow> commit_submit \<Rightarrow> string option" where
  "scheduleEffectsError s submit =
     (let t = cs_transcript submit; schedules = t_schedules t; cancellations = t_cancellations t in
      if schedules = [] \<and> cancellations = [] then None
      else if length schedules > SCHEDULE_MAX_PER_TURN
      then Some (''turn armed '' @ show_int (int (length schedules)) @ '' schedules; per-turn cap is ''
             @ show_int (int SCHEDULE_MAX_PER_TURN))
      else first_error
        (map (\<lambda>r. fail_when (ts_id r \<in> tc_id ` set cancellations)
            (''schedule id '' @ ts_id r @ '' appears in both schedules and cancellations'')) schedules
         @ map (schedule_request_error s submit (recorded_clock t)) schedules
         @ map (cancellation_error s) cancellations
         @ [if schedules = [] then None else quota_error (schedule_quota s submit)]))"

section \<open>The pending queue\<close>

definition store_scheduled :: "scheduled_turn \<Rightarrow> sequencer \<Rightarrow> sequencer" where
  "store_scheduled turn s = (case sq_durable s of
      Some d \<Rightarrow> s\<lparr>sq_durable := Some (writeScheduled turn d)\<rparr>
    | None \<Rightarrow> s\<lparr>sq_scheduled := jm_set (su_id turn) turn (sq_scheduled s)\<rparr>)"

definition schedule :: "scheduled_turn \<Rightarrow> int \<Rightarrow> sequencer \<Rightarrow> net_error + sequencer" where
  "schedule turn nowLogical s =
     (if su_at_logical_time turn \<le> nowLogical
      then Inl (netError E_MISSING_STATE ''scheduled turn must target a future logical time'')
      else Inr (store_scheduled turn s))"

definition cancel :: "string \<Rightarrow> sequencer \<Rightarrow> bool \<times> sequencer" where
  "cancel scheduleId s = (case sq_durable s of
      Some d \<Rightarrow>
        (let existed = hasScheduled scheduleId d
         in (existed, if existed then s\<lparr>sq_durable := Some (deleteScheduled scheduleId d)\<rparr> else s))
    | None \<Rightarrow> (jm_has (sq_scheduled s) scheduleId, s\<lparr>sq_scheduled := jm_del scheduleId (sq_scheduled s)\<rparr>))"

definition hasLiveSubscribers :: "sequencer \<Rightarrow> bool" where
  "hasLiveSubscribers s =
     (let space = (if starts_with ''room:'' (sq_scope s) then drop (length ''room:'') (sq_scope s) else sq_scope s) in
      case store_get (sq_store s) (cellKey Property_cell space (Some ''session_subscribers'')) of
        None \<Rightarrow> True
      | Some c \<Rightarrow>
          (let raw = (if is_jobj (Some (c_value c)) then jprop (Some (c_value c)) ''value'' else Some (c_value c))
           in case raw of Some (JArr xs) \<Rightarrow> xs \<noteq> [] | _ \<Rightarrow> True))"

text \<open>An absent limit is \<open>Number.MAX_SAFE_INTEGER\<close> rows of the durable store, and no cut in memory.\<close>

definition peekDue :: "(string \<Rightarrow> string \<Rightarrow> bool) \<Rightarrow> int \<Rightarrow> nat option \<Rightarrow> sequencer \<Rightarrow> scheduled_turn list" where
  "peekDue locale_le nowLogical limit s = (case sq_durable s of
      Some d \<Rightarrow> readScheduledDue locale_le nowLogical (case limit of Some l \<Rightarrow> l | None \<Rightarrow> nat MAX_SAFE_INTEGER) d
    | None \<Rightarrow>
        (let due = sort_by (turn_le locale_le) (filter (\<lambda>t. su_at_logical_time t \<le> nowLogical) (jm_values (sq_scheduled s)))
         in case limit of None \<Rightarrow> due | Some l \<Rightarrow> take l due))"

definition deliverableDue :: "(string \<Rightarrow> string \<Rightarrow> bool) \<Rightarrow> int \<Rightarrow> nat option \<Rightarrow> sequencer \<Rightarrow> scheduled_turn list \<times> scheduled_turn list" where
  "deliverableDue locale_le nowLogical limit s =
     (let due = peekDue locale_le nowLogical limit s;
          always = (\<lambda>t. (case su_idle_policy t of Some p \<Rightarrow> p | None \<Rightarrow> Always) = Always)
      in if due = [] then ([], [])
         else if hasLiveSubscribers s then (due, [])
         else (filter always due, filter (\<lambda>t. \<not> always t) due))"

definition nextAlarmAt :: "sequencer \<Rightarrow> int option" where
  "nextAlarmAt s = (case sq_durable s of
      Some d \<Rightarrow> nextScheduledAfter 0 d
    | None \<Rightarrow> min_time (jm_values (sq_scheduled s)))"

definition pop_turn :: "string \<Rightarrow> sequencer \<Rightarrow> sequencer" where
  "pop_turn i s = on_durable (deleteScheduled i) (s\<lparr>sq_scheduled := jm_del i (sq_scheduled s)\<rparr>)"

definition dueTurns :: "(string \<Rightarrow> string \<Rightarrow> bool) \<Rightarrow> int \<Rightarrow> nat option \<Rightarrow> string list option \<Rightarrow> sequencer \<Rightarrow> scheduled_turn list \<times> sequencer" where
  "dueTurns locale_le nowLogical limit onlyIds s =
     (let due = filter (\<lambda>t. case onlyIds of None \<Rightarrow> True | Some ids \<Rightarrow> su_id t \<in> set ids) (peekDue locale_le nowLogical limit s)
      in (due, fold (\<lambda>t. pop_turn (su_id t)) due s))"

text \<open>
  The schedule effects of an accepted turn: rows aimed at or owned by an object the turn recycles
  are cancelled, then its cancellations, then its schedules are written.
\<close>

definition purge_recycled :: "transcript_recycle \<Rightarrow> sequencer \<Rightarrow> sequencer" where
  "purge_recycled recycle s = fold (\<lambda>row s.
       if sc_target (su_call row) = rc_object recycle \<or> schedule_owner (su_id row) = rc_object recycle
       then snd (cancel (su_id row) s) else s) (pendingScheduleRows s) s"

definition apply_schedule_effects :: "commit_submit \<Rightarrow> sequencer \<Rightarrow> sequencer" where
  "apply_schedule_effects submit s =
     (let t = cs_transcript submit;
          s1 = fold purge_recycled (t_recycles t) s;
          s2 = fold (\<lambda>entry s. snd (cancel (tc_id entry) s)) (t_cancellations t) s1
      in fold (\<lambda>request s. store_scheduled (scheduledTurnFromRequest request (scheduleAttribution submit)) s) (t_schedules t) s2)"

section \<open>The queue as an interface\<close>

text \<open>
  Three carriers keep the queue: the durable store, the sequencer's own map and the sequencer, which
  delegates to one of the two. Each gives the same three laws; the facts below follow from them.
\<close>

definition queue_ok :: "(string, scheduled_turn) jsmap \<Rightarrow> bool" where
  "queue_ok m \<longleftrightarrow> jm_ok m \<and> (\<forall>(k, t) \<in> set m. k = su_id t)"

locale turn_queue =
  fixes rows :: "'q \<Rightarrow> (string, scheduled_turn) jsmap"
    and put :: "scheduled_turn \<Rightarrow> 'q \<Rightarrow> 'q"
    and drop_id :: "string \<Rightarrow> 'q \<Rightarrow> 'q"
  assumes rows_put: "\<And>t q. rows (put t q) = jm_set (su_id t) t (rows q)"
    and rows_drop: "\<And>i q. rows (drop_id i q) = jm_del i (rows q)"
begin

lemma ok_put: "queue_ok (rows q) \<Longrightarrow> queue_ok (rows (put t q))"
  by (auto simp: queue_ok_def rows_put set_jm_set)

lemma ok_drop: "queue_ok (rows q) \<Longrightarrow> queue_ok (rows (drop_id i q))"
  by (auto simp: queue_ok_def rows_drop set_jm_del)

lemma rows_fold_drop: "rows (fold (\<lambda>x. drop_id (f x)) xs q) = filter (\<lambda>(k, t). k \<notin> f ` set xs) (rows q)"
proof (induction xs arbitrary: q)
  case (Cons x xs)
  have "rows (fold (\<lambda>x. drop_id (f x)) (x # xs) q)
      = filter (\<lambda>(k, t). k \<notin> f ` set xs) (filter (\<lambda>(k, t). f x \<noteq> k) (rows q))"
    by (simp add: Cons.IH rows_drop AList.delete_eq)
  also have "\<dots> = filter (\<lambda>(k, t). k \<notin> f ` set (x # xs)) (rows q)" by (simp, rule filter_cong) auto
  finally show ?case .
qed simp

lemma ok_fold_put: "queue_ok (rows q) \<Longrightarrow> queue_ok (rows (fold (\<lambda>x. put (f x)) xs q))"
  by (induction xs arbitrary: q) (auto intro: ok_put)

lemma keys_fold_put:
  "queue_ok (rows q) \<Longrightarrow> set (jm_keys (rows (fold (\<lambda>x. put (f x)) xs q))) = set (jm_keys (rows q)) \<union> su_id ` f ` set xs"
proof (induction xs arbitrary: q)
  case (Cons x xs)
  have "set (jm_keys (rows (put (f x) q))) = insert (su_id (f x)) (set (jm_keys (rows q)))"
    by (auto simp: rows_put update_keys)
  then show ?case using Cons.IH [OF ok_put [OF Cons.prems], of "f x"] by auto
qed simp

end

interpretation durable_queue: turn_queue ds_scheduled writeScheduled deleteScheduled
  by unfold_locales (simp_all add: writeScheduled_def deleteScheduled_def)

definition queue :: "sequencer \<Rightarrow> (string, scheduled_turn) jsmap" where
  "queue s = (case sq_durable s of Some d \<Rightarrow> ds_scheduled d | None \<Rightarrow> sq_scheduled s)"

lemma jm_del_absent: "\<not> jm_has m k \<Longrightarrow> jm_del k m = m"
  by (simp add: jm_has_def delete_idem map_of_eq_None_iff)

interpretation scope_queue: turn_queue queue store_scheduled "\<lambda>i s. snd (cancel i s)"
  by unfold_locales
    (auto simp: queue_def store_scheduled_def cancel_def hasScheduled_def Let_def jm_del_absent
      durable_queue.rows_put durable_queue.rows_drop split: option.splits)

lemma pendingScheduleRows_queue: "pendingScheduleRows s = jm_values (queue s)"
  by (simp add: pendingScheduleRows_def queue_def split: option.splits)

lemma queue_keys: "queue_ok m \<Longrightarrow> jm_keys m = map su_id (jm_values m)"
  by (auto simp: queue_ok_def)

interpretation popping: turn_queue queue store_scheduled pop_turn
  by (unfold_locales, rule scope_queue.rows_put)
    (auto simp: queue_def pop_turn_def on_durable_def durable_queue.rows_drop split: option.splits)

section \<open>Delivery\<close>

lemma total_turn_le: "total_preorder le \<Longrightarrow> total_preorder (turn_le le)"
  unfolding total_preorder_def turn_le_def by (smt (verit, best))

definition due_rows :: "(string \<Rightarrow> string \<Rightarrow> bool) \<Rightarrow> int \<Rightarrow> sequencer \<Rightarrow> scheduled_turn list" where
  "due_rows locale_le now s = sort_by (turn_le locale_le) (filter (\<lambda>t. su_at_logical_time t \<le> now) (jm_values (queue s)))"

lemma peekDue_rows: "peekDue locale_le now (Some l) s = take l (due_rows locale_le now s)"
  by (simp add: peekDue_def due_rows_def queue_def readScheduledDue_def split: option.splits)

lemma sorted_due: "total_preorder le \<Longrightarrow> sorted (map su_at_logical_time (due_rows le now s))"
  using sorted_sort_by [OF total_turn_le, of le "filter (\<lambda>t. su_at_logical_time t \<le> now) (jm_values (queue s))"]
  unfolding due_rows_def sorted_wrt_map by (rule sorted_wrt_mono_rel [rotated]) (auto simp: turn_le_def)

lemma set_due: "set (due_rows le now s) = {t \<in> set (jm_values (queue s)). su_at_logical_time t \<le> now}"
  by (auto simp: due_rows_def)

lemma sorted_take_drop:
  assumes "sorted (map f xs)" "x \<in> set (take n xs)" "y \<in> set (drop n xs)"
  shows "f x \<le> (f y :: int)"
proof -
  have "sorted (map f (take n xs) @ map f (drop n xs))" using assms(1) by (simp flip: map_append)
  then show ?thesis using assms(2,3) by (auto simp: sorted_append)
qed

lemma distinct_due:
  assumes "queue_ok (queue s)"
  shows "distinct (map su_id (due_rows le now s))"
proof -
  have "distinct (map su_id (jm_values (queue s)))" using assms queue_keys [OF assms] by (simp add: queue_ok_def)
  then have "distinct (map su_id (filter (\<lambda>t. su_at_logical_time t \<le> now) (jm_values (queue s))))" by (rule distinct_map_filtered)
  then show ?thesis unfolding due_rows_def by (simp only: distinct_map_sort_by)
qed

text \<open>The rows an alarm may fire, found again by their identifiers.\<close>

lemma deliverable_by_id:
  assumes ok: "queue_ok (queue s)" and d: "deliverableDue locale_le now (Some l) s = (ready, parked)"
  shows "filter (\<lambda>t. su_id t \<in> set (map su_id ready)) (peekDue locale_le now (Some l) s) = ready"
    "set parked \<subseteq> set (peekDue locale_le now (Some l) s)" "su_id ` set ready \<inter> su_id ` set parked = {}"
proof -
  let ?b = "peekDue locale_le now (Some l) s"
  have "distinct (map su_id ?b)"
    using distinct_due [OF ok, of locale_le now] by (simp add: peekDue_rows flip: take_map)
  then have inj: "inj_on su_id (set ?b)" by (simp add: distinct_map)
  consider "ready = ?b" "parked = []" | P where "ready = filter P ?b" "parked = filter (\<lambda>t. \<not> P t) ?b"
    using d by (auto simp: deliverableDue_def Let_def split: if_splits)
  note cases = this
  show "filter (\<lambda>t. su_id t \<in> set (map su_id ready)) ?b = ready"
    using cases
  proof cases
    case (2 P)
    have "su_id t \<in> set (map su_id ready) \<longleftrightarrow> P t" if "t \<in> set ?b" for t
      using inj_on_image_mem_iff [OF inj that, of "set ready"] that 2 by auto
    then show ?thesis unfolding 2(1) [symmetric] using 2(1) by (metis (mono_tags, lifting) filter_cong)
  qed (simp add: filter_id_conv)
  show "set parked \<subseteq> set ?b" using cases by cases auto
  show "su_id ` set ready \<inter> su_id ` set parked = {}"
    using cases
  proof cases
    case (2 P)
    then show ?thesis using inj by (auto dest: inj_onD)
  qed simp
qed

text \<open>
  C10: a delivery pops exactly what it returns. Whatever identifiers it is restricted to, it looks at the
  oldest due turns up to the limit: as many as are pending and due, in order of time, none younger than a due
  turn outside the batch. It returns the turns of that batch it is allowed to, in order; afterwards the queue
  holds every other turn and none of the returned ones. Called as the alarm calls it, with the identifiers of
  the deliverable turns of the same batch, it returns just those, and the turns parked for want of an audience
  stay in the queue.
\<close>

theorem dueTurns_pops_oldest:
  assumes ok: "queue_ok (queue s)" and le: "total_preorder locale_le"
    and d: "dueTurns locale_le now (Some l) onlyIds s = (due, s')"
  shows "(\<exists>batch. length batch = min l (length (filter (\<lambda>t. su_at_logical_time t \<le> now) (jm_values (queue s))))
      \<and> (\<forall>t \<in> set batch. t \<in> set (jm_values (queue s)) \<and> su_at_logical_time t \<le> now)
      \<and> distinct (map su_id batch) \<and> sorted (map su_at_logical_time batch)
      \<and> (\<forall>t \<in> set batch. \<forall>u \<in> set (jm_values (queue s)) - set batch. su_at_logical_time t \<le> su_at_logical_time u)
      \<and> due = filter (\<lambda>t. \<forall>ids. onlyIds = Some ids \<longrightarrow> su_id t \<in> set ids) batch)
    \<and> queue s' = filter (\<lambda>(k, t). k \<notin> su_id ` set due) (queue s)
    \<and> (\<forall>ready parked. deliverableDue locale_le now (Some l) s = (ready, parked) \<and> onlyIds = Some (map su_id ready) \<longrightarrow>
         due = ready \<and> set parked \<subseteq> set (jm_values (queue s')))"
proof -
  let ?r = "due_rows locale_le now s"
  let ?b = "take l ?r"
  have due: "due = filter (\<lambda>t. \<forall>ids. onlyIds = Some ids \<longrightarrow> su_id t \<in> set ids) ?b"
    using d by (cases onlyIds) (auto simp: dueTurns_def peekDue_rows Let_def)
  have q: "queue s' = filter (\<lambda>(k, t). k \<notin> su_id ` set due) (queue s)"
    using d popping.rows_fold_drop [of su_id due s] by (auto simp: dueTurns_def peekDue_rows Let_def)
  have sub: "\<forall>t \<in> set ?b. t \<in> set (jm_values (queue s)) \<and> su_at_logical_time t \<le> now"
    using set_take_subset [of l ?r] set_due [of locale_le now s] by auto
  have oldest: "su_at_logical_time t \<le> su_at_logical_time u" if t: "t \<in> set ?b" and u: "u \<in> set (jm_values (queue s)) - set ?b" for t u
  proof (cases "u \<in> set ?r")
    case True
    with u have "u \<in> set (drop l ?r)" by (metis DiffD2 Un_iff append_take_drop_id set_append)
    then show ?thesis using sorted_take_drop [OF sorted_due [OF le]] t by metis
  next
    case False
    with u have "now < su_at_logical_time u" by (auto simp: set_due)
    then show ?thesis using sub t by auto
  qed
  have sorted: "sorted (map su_at_logical_time ?b)"
    using sorted_due [OF le, of now s] by (metis sorted_wrt_take take_map)
  have len: "length ?b = min l (length (filter (\<lambda>t. su_at_logical_time t \<le> now) (jm_values (queue s))))"
    by (simp add: due_rows_def min.commute)
  have dist: "distinct (map su_id ?b)" using distinct_due [OF ok, of locale_le now] by (simp flip: take_map)
  have "due = ready \<and> set parked \<subseteq> set (jm_values (queue s'))"
    if r: "deliverableDue locale_le now (Some l) s = (ready, parked)" and only: "onlyIds = Some (map su_id ready)" for ready parked
  proof -
    note by_id = deliverable_by_id [OF ok r]
    have eq: "due = ready" using by_id(1) by (simp add: due only peekDue_rows)
    have "t \<in> set (jm_values (queue s'))" if "t \<in> set parked" for t
    proof -
      have "t \<in> set (jm_values (queue s))" using that by_id(2) sub by (auto simp: peekDue_rows)
      then have "(su_id t, t) \<in> set (queue s)" using ok by (auto simp: queue_ok_def)
      moreover have "su_id t \<notin> su_id ` set due" using that by_id(3) eq by blast
      ultimately have "(su_id t, t) \<in> set (queue s')" unfolding q by simp
      then show ?thesis by force
    qed
    then show ?thesis using eq by blast
  qed
  then show ?thesis using q due sub oldest sorted len dist by (intro conjI exI [of _ ?b]) blast+
qed

definition demo_turn :: scheduled_turn where
  "demo_turn = \<lparr>su_id = ''o:t'', su_at_logical_time = 70, su_idle_policy = None,
     su_call = \<lparr>sc_actor = ''a'', sc_target = ''o'', sc_verb = ''tick'', sc_args = []\<rparr>, su_principal = None, su_trace = None\<rparr>"

definition demo_queue :: sequencer where
  "demo_queue = (fresh_sequencer ''room:a'' ''e1'' default_options None)\<lparr>sq_scheduled :=
     [(''o:t'', demo_turn), (''o:u'', demo_turn\<lparr>su_id := ''o:u'', su_at_logical_time := 60\<rparr>)]\<rparr>"

lemma demo_queue_rows: "queue demo_queue = [(''o:t'', demo_turn), (''o:u'', demo_turn\<lparr>su_id := ''o:u'', su_at_logical_time := 60\<rparr>)]"
  by (simp add: queue_def demo_queue_def fresh_sequencer_def)

theorem dueTurns_pops_oldest_witness:
  "fst (deliverableDue (\<le>) 65 (Some 5) demo_queue) \<noteq> []
   \<and> fst (dueTurns (\<le>) 65 (Some 5) (Some (map su_id (fst (deliverableDue (\<le>) 65 (Some 5) demo_queue)))) demo_queue)
     = fst (deliverableDue (\<le>) 65 (Some 5) demo_queue)"
proof -
  let ?ready = "fst (deliverableDue (\<le>) 65 (Some 5) demo_queue)"
  let ?d = "dueTurns (\<le>) 65 (Some 5) (Some (map su_id ?ready)) demo_queue"
  have "queue_ok (queue demo_queue)" by (simp add: demo_queue_rows queue_ok_def demo_turn_def)
  from dueTurns_pops_oldest [OF this total_code_unit, of 65 5 "Some (map su_id ?ready)" "fst ?d" "snd ?d"]
  have "fst ?d = ?ready" by (cases "deliverableDue (\<le>) 65 (Some 5) demo_queue") simp
  moreover have "peekDue (\<le>) 65 (Some 5) demo_queue = [demo_turn\<lparr>su_id := ''o:u'', su_at_logical_time := 60\<rparr>]"
    by (simp add: peekDue_rows due_rows_def demo_queue_rows sort_by_def demo_turn_def)
  then have "?ready \<noteq> []" by (simp add: deliverableDue_def demo_turn_def Let_def)
  ultimately show ?thesis by simp
qed

text \<open>
  The batch is cut before the idle filter: in a room nobody attends, as many due \<open>while_active\<close> rows as the
  limit leave no place for an \<open>always\<close> row behind them.
\<close>

definition unattended :: sequencer where
  "unattended = (fresh_sequencer ''room:a'' ''e1'' default_options None)\<lparr>
     sq_store := put_cell Property_cell ''a'' (Some ''session_subscribers'') (JObj [(''value'', JArr [])]) demo_stamp (newStore Authority),
     sq_scheduled := [(''o:t'', demo_turn\<lparr>su_idle_policy := Some While_active, su_at_logical_time := 60\<rparr>),
       (''o:u'', demo_turn\<lparr>su_id := ''o:u'', su_idle_policy := Some Always\<rparr>)]\<rparr>"

lemma parked_batch_blocks:
  "fst (deliverableDue (\<le>) 99 (Some 1) unattended) = []"
  "map su_id (fst (deliverableDue (\<le>) 99 (Some 2) unattended)) = [''o:u'']"
proof -
  have rows: "peekDue (\<le>) 99 (Some l) unattended = take l [demo_turn\<lparr>su_idle_policy := Some While_active, su_at_logical_time := 60\<rparr>,
      demo_turn\<lparr>su_id := ''o:u'', su_idle_policy := Some Always\<rparr>]" for l
    by (simp add: peekDue_def unattended_def fresh_sequencer_def sort_by_def turn_le_def demo_turn_def)
  have live: "\<not> hasLiveSubscribers unattended"
    by (simp add: hasLiveSubscribers_def unattended_def fresh_sequencer_def starts_with_def get_put newStore_def put_cell_def
        store_commit_def Let_def demo_stamp_def)
  show "fst (deliverableDue (\<le>) 99 (Some 1) unattended) = []"
    "map su_id (fst (deliverableDue (\<le>) 99 (Some 2) unattended)) = [''o:u'']"
    using live by (simp_all add: deliverableDue_def rows Let_def demo_turn_def)
qed

text \<open>The earliest pending time.\<close>

lemma min_time_fold:
  "fold (\<lambda>t m. case m of None \<Rightarrow> Some (su_at_logical_time t)
      | Some x \<Rightarrow> if su_at_logical_time t < x then Some (su_at_logical_time t) else m) ts (Some a)
   = Some (Min (insert a (su_at_logical_time ` set ts)))"
proof (induction ts arbitrary: a)
  case (Cons t ts)
  have "(if su_at_logical_time t < a then Some (su_at_logical_time t) else Some a) = Some (min (su_at_logical_time t) a)"
    by (simp add: min_def)
  moreover have "Min (insert (min (su_at_logical_time t) a) S) = Min (insert a (insert (su_at_logical_time t) S))"
    if "finite S" for S
    using that by (cases "S = {}") (simp_all add: ac_simps)
  ultimately show ?case using Cons.IH by simp
qed simp

lemma min_time_eq: "min_time ts = (if ts = [] then None else Some (Min (su_at_logical_time ` set ts)))"
  by (cases ts) (simp_all add: min_time_def min_time_fold)

lemma nextAlarmAt_eq:
  assumes "\<forall>t \<in> set (jm_values (queue s)). 0 < su_at_logical_time t"
  shows "nextAlarmAt s = min_time (jm_values (queue s))"
proof -
  have "filter (\<lambda>t. su_at_logical_time t > 0) (jm_values (queue s)) = jm_values (queue s)"
    using assms by (simp add: filter_id_conv)
  then show ?thesis by (auto simp: nextAlarmAt_def nextScheduledAfter_def queue_def split: option.splits)
qed

text \<open>
  C11: the alarm is live and not early. With wall-clock times (positive), an alarm is set exactly
  when a turn is pending; at the alarm time some turn is due, and before it none is.
\<close>

theorem nextAlarmAt_live:
  assumes pos: "\<forall>t \<in> set (jm_values (queue s)). 0 < su_at_logical_time t"
  shows "(nextAlarmAt s = None \<longleftrightarrow> queue s = [])
    \<and> (\<forall>a. nextAlarmAt s = Some a \<longrightarrow> peekDue locale_le a (Some 1) s \<noteq> [] \<and> (\<forall>now < a. peekDue locale_le now (Some l) s = []))"
proof (intro conjI allI impI)
  show "nextAlarmAt s = None \<longleftrightarrow> queue s = []" by (simp add: nextAlarmAt_eq [OF pos] min_time_eq)
next
  fix a assume "nextAlarmAt s = Some a"
  then have ne: "jm_values (queue s) \<noteq> []" and a: "a = Min (su_at_logical_time ` set (jm_values (queue s)))"
    by (auto simp: nextAlarmAt_eq [OF pos] min_time_eq split: if_splits)
  have "a \<in> su_at_logical_time ` set (jm_values (queue s))" unfolding a using ne by (intro Min_in) auto
  then have "due_rows locale_le a s \<noteq> []" using set_due [of locale_le a s] by force
  then show "peekDue locale_le a (Some 1) s \<noteq> []" by (simp add: peekDue_rows)
  fix now assume "now < a"
  then have "\<not> su_at_logical_time t \<le> now" if "t \<in> set (jm_values (queue s))" for t
  proof -
    have "a \<le> su_at_logical_time t" unfolding a using that by (intro Min_le) auto
    with \<open>now < a\<close> show ?thesis by linarith
  qed
  then have "set (due_rows locale_le now s) = {}" unfolding set_due by auto
  then show "peekDue locale_le now (Some l) s = []" by (simp add: peekDue_rows)
qed

theorem nextAlarmAt_live_witness: "nextAlarmAt demo_queue = Some 60 \<and> peekDue (\<le>) 59 (Some 3) demo_queue = []"
proof -
  have pos: "\<forall>t \<in> set (jm_values (queue demo_queue)). 0 < su_at_logical_time t"
    by (simp add: demo_queue_rows demo_turn_def)
  have "nextAlarmAt demo_queue = Some 60"
    by (simp add: nextAlarmAt_def demo_queue_def fresh_sequencer_def min_time_def demo_turn_def)
  then show ?thesis using nextAlarmAt_live [OF pos, of "(\<le>)" 3] by auto
qed

section \<open>Admission\<close>

lemma first_error_None: "first_error es = None \<longleftrightarrow> (\<forall>e \<in> set es. e = None)"
  by (induction es rule: first_error.induct) auto

lemma fail_when_None [simp]: "fail_when b e = None \<longleftrightarrow> \<not> b"
  by (simp add: fail_when_def)

text \<open>
  The envelope of an admitted schedule: armed by a recorded frame of the turn's own actor, in that
  frame's namespace, within the lead time and horizon of the turn's recorded clock, at a target of
  this scope that the turn does not recycle, under the entry cap.
\<close>

definition schedule_admissible :: "sequencer \<Rightarrow> commit_submit \<Rightarrow> transcript_schedule \<Rightarrow> bool" where
  "schedule_admissible s submit r \<longleftrightarrow> (let t = cs_transcript submit in
     \<exists>frame clock. ts_armed_by r = Some frame \<and> recorded_clock t = Some clock
       \<and> sc_actor (ts_call r) = tk_actor (t_call t)
       \<and> schedule_owner (ts_id r) = wa_thisObj frame
       \<and> (ts_idlePolicy r = While_active \<or> ts_idlePolicy r = Always \<and> isWizardRef s (wa_progr frame))
       \<and> clock + SCHEDULE_MIN_LEAD_MS \<le> ts_at r \<and> ts_at r \<le> clock + SCHEDULE_MAX_HORIZON_MS
       \<and> sc_target (ts_call r) \<notin> rc_object ` set (t_recycles t) \<and> wa_thisObj frame \<notin> rc_object ` set (t_recycles t)
       \<and> (\<forall>scopeOf. so_scopeOf (sq_options s) = Some scopeOf \<longrightarrow> scopeOf (sc_target (ts_call r)) = sq_scope s)
       \<and> schedule_target_error s submit r = None
       \<and> scheduledTurnBytes (scheduledTurnFromRequest r (scheduleAttribution submit)) \<le> SCHEDULE_MAX_ENTRY_BYTES
       \<and> ts_id r \<notin> tc_id ` set (t_cancellations t))"

definition cancel_admissible :: "sequencer \<Rightarrow> transcript_cancel \<Rightarrow> bool" where
  "cancel_admissible s c \<longleftrightarrow> (\<exists>frame. tc_armed_by c = Some frame
     \<and> (schedule_owner (tc_id c) = wa_thisObj frame \<or> isWizardRef s (wa_progr frame)))"

lemma cancellation_error_None: "cancellation_error s c = None \<longleftrightarrow> cancel_admissible s c"
  by (auto simp: cancellation_error_def cancel_admissible_def split: option.splits)

lemma schedule_request_error_None:
  "schedule_request_error s submit (recorded_clock (cs_transcript submit)) r = None
     \<and> ts_id r \<notin> tc_id ` set (t_cancellations (cs_transcript submit))
   \<longleftrightarrow> schedule_admissible s submit r"
proof (cases "ts_armed_by r")
  case None
  then show ?thesis by (simp add: schedule_request_error_def schedule_admissible_def Let_def)
next
  case (Some frame)
  have time: "schedule_time_error clk r = None \<longleftrightarrow> (\<exists>clock. clk = Some clock
      \<and> clock + SCHEDULE_MIN_LEAD_MS \<le> ts_at r \<and> ts_at r \<le> clock + SCHEDULE_MAX_HORIZON_MS)" for clk
    by (cases clk) (auto simp: schedule_time_error_def)
  show ?thesis
    unfolding schedule_request_error_def schedule_admissible_def Let_def Some option.case first_error_None
    by (cases "so_scopeOf (sq_options s)"; cases "ts_idlePolicy r") (auto simp: time)
qed

lemma scheduleEffectsError_None:
  assumes "t_schedules (cs_transcript submit) \<noteq> []"
  shows "scheduleEffectsError s submit = None \<longleftrightarrow>
    length (t_schedules (cs_transcript submit)) \<le> SCHEDULE_MAX_PER_TURN
    \<and> (\<forall>r \<in> set (t_schedules (cs_transcript submit)). schedule_admissible s submit r)
    \<and> (\<forall>c \<in> set (t_cancellations (cs_transcript submit)). cancel_admissible s c)
    \<and> quota_error (schedule_quota s submit) = None"
  using assms unfolding schedule_request_error_None [symmetric] cancellation_error_None [symmetric]
  by (simp add: scheduleEffectsError_def Let_def first_error_None ball_Un) blast

lemma summary_fold:
  "ps_count (fold summarize_row rows p) = ps_count p"
  "jm_get (ps_byId (fold summarize_row rows p)) i \<noteq> None \<longleftrightarrow> i \<in> su_id ` set rows \<or> jm_get (ps_byId p) i \<noteq> None"
  by (induction rows arbitrary: p) (auto simp: summarize_row_def Let_def)

lemma summary_known:
  assumes "queue_ok (queue s)"
  shows "jm_get (ps_byId (pendingScheduleSummary s)) i \<noteq> None \<longleftrightarrow> i \<in> set (jm_keys (queue s))"
    and "ps_count (pendingScheduleSummary s) = int (length (queue s))"
  unfolding pendingScheduleSummary_def Let_def pendingScheduleRows_queue summary_fold queue_keys [OF assms]
  by (simp_all add: image_image)

lemma quota_count_schedules:
  "qu_count (fold (quota_schedule p submit) rs q) =
     qu_count q + int (length (filter (\<lambda>r. jm_get (ps_byId p) (ts_id r) = None) rs))"
  by (induction rs arbitrary: q) (auto simp: quota_schedule_def Let_def split: option.splits)

lemma quota_count_cancels:
  "qu_count (fold (quota_cancel p) cs q) =
     qu_count q - int (length (filter (\<lambda>c. jm_get (ps_byId p) (tc_id c) \<noteq> None) cs))"
  by (induction cs arbitrary: q) (auto simp: quota_cancel_def split: option.splits)

lemma purge_subset:
  assumes "queue_ok (queue s)"
  shows "queue_ok (queue (fold purge_recycled rs s)) \<and> set (jm_keys (queue (fold purge_recycled rs s))) \<subseteq> set (jm_keys (queue s))"
  using assms
proof (induction rs arbitrary: s)
  case (Cons r rs)
  have step: "queue_ok (queue (fold (\<lambda>row s. if P row then snd (cancel (su_id row) s) else s) rows s'))
      \<and> set (jm_keys (queue (fold (\<lambda>row s. if P row then snd (cancel (su_id row) s) else s) rows s'))) \<subseteq> set (jm_keys (queue s'))"
    if "queue_ok (queue s')" for P rows s'
    using that
  proof (induction rows arbitrary: s')
    case (Cons row rows)
    have "set (jm_keys (queue (snd (cancel (su_id row) s')))) \<subseteq> set (jm_keys (queue s'))"
      unfolding scope_queue.rows_drop set_map set_jm_del by auto
    then show ?case
      using Cons.IH [OF Cons.prems] Cons.IH [OF scope_queue.ok_drop [OF Cons.prems], of "su_id row"]
      by (cases "P row") (simp_all, blast)
  qed simp
  have "queue_ok (queue (purge_recycled r s)) \<and> set (jm_keys (queue (purge_recycled r s))) \<subseteq> set (jm_keys (queue s))"
    unfolding purge_recycled_def by (rule step [OF Cons.prems])
  then show ?case using Cons.IH [of "purge_recycled r s"] by (simp, blast)
qed simp

lemma cancel_keys:
  "set (jm_keys (queue (fold (\<lambda>entry s. snd (cancel (tc_id entry) s)) cs s))) = set (jm_keys (queue s)) - tc_id ` set cs"
  unfolding scope_queue.rows_fold_drop by force

lemma ok_cancels: "queue_ok (queue s) \<Longrightarrow> queue_ok (queue (fold (\<lambda>entry s. snd (cancel (tc_id entry) s)) cs s))"
  unfolding scope_queue.rows_fold_drop by (auto simp: queue_ok_def distinct_map_filtered)

lemma scheduled_ids: "su_id (scheduledTurnFromRequest r a) = ts_id r"
  by (simp add: scheduledTurnFromRequest_def)

lemma scheduleEffectsError_sound:
  assumes "scheduleEffectsError s submit = None"
  shows "\<forall>r \<in> set (t_schedules (cs_transcript submit)). schedule_admissible s submit r"
    "\<forall>c \<in> set (t_cancellations (cs_transcript submit)). cancel_admissible s c"
    "t_schedules (cs_transcript submit) \<noteq> [] \<Longrightarrow> qu_count (schedule_quota s submit) \<le> SCHEDULE_MAX_PER_SCOPE"
proof -
  have "cancel_admissible s c" if "t_schedules (cs_transcript submit) = []" "c \<in> set (t_cancellations (cs_transcript submit))" for c
  proof -
    have "t_cancellations (cs_transcript submit) \<noteq> []" using that(2) by auto
    then have "first_error (map (cancellation_error s) (t_cancellations (cs_transcript submit)) @ [None]) = None"
      using assms that(1) by (simp add: scheduleEffectsError_def Let_def)
    then show ?thesis using that(2) by (simp add: first_error_None cancellation_error_None)
  qed
  moreover have adm: "t_schedules (cs_transcript submit) \<noteq> [] \<Longrightarrow>
      (\<forall>r \<in> set (t_schedules (cs_transcript submit)). schedule_admissible s submit r)
      \<and> (\<forall>c \<in> set (t_cancellations (cs_transcript submit)). cancel_admissible s c) \<and> quota_error (schedule_quota s submit) = None"
    using assms scheduleEffectsError_None by blast
  ultimately show "\<forall>c \<in> set (t_cancellations (cs_transcript submit)). cancel_admissible s c" by blast
  show "\<forall>r \<in> set (t_schedules (cs_transcript submit)). schedule_admissible s submit r"
    using adm by (cases "t_schedules (cs_transcript submit) = []") auto
  show "qu_count (schedule_quota s submit) \<le> SCHEDULE_MAX_PER_SCOPE" if "t_schedules (cs_transcript submit) \<noteq> []"
    using adm [OF that] by (simp add: quota_error_def first_error_None)
qed

lemma card_surplus: "length (filter P xs) \<le> card {f x | x. x \<in> set xs \<and> P x} + (length xs - card (f ` set xs))"
proof -
  have "card (f ` set xs) \<le> card {f x | x. x \<in> set xs \<and> P x} + card (f ` set (filter (\<lambda>x. \<not> P x) xs))"
    by (rule le_trans [OF card_mono card_Un_le]) auto
  also have "card (f ` set (filter (\<lambda>x. \<not> P x) xs)) \<le> length (filter (\<lambda>x. \<not> P x) xs)"
    by (metis card_length length_map set_map)
  finally have "card (f ` set xs) \<le> card {f x | x. x \<in> set xs \<and> P x} + length (filter (\<lambda>x. \<not> P x) xs)" by simp
  then show ?thesis using sum_length_filter_compl [of P xs] by linarith
qed

text \<open>
  C9: an admitted turn respects the scheduling envelope. In every turn the scope admits, each schedule it arms
  is admissible (its own actor and namespace, recorded clock, lead time and horizon, a live target here, the
  entry cap) and each cancellation has authority over its row. A turn that arms nothing never lengthens the
  queue. A turn that arms something leaves at most the scope's cap of pending turns plus one for every
  cancellation that repeats the identifier of another one, which the quota counts again.
\<close>

theorem scheduleEffects_sound:
  assumes ok: "queue_ok (queue s)" and none: "scheduleEffectsError s submit = None"
  shows "(\<forall>r \<in> set (t_schedules (cs_transcript submit)). schedule_admissible s submit r)
    \<and> (\<forall>c \<in> set (t_cancellations (cs_transcript submit)). cancel_admissible s c)
    \<and> (t_schedules (cs_transcript submit) = [] \<longrightarrow> length (queue (apply_schedule_effects submit s)) \<le> length (queue s))
    \<and> (t_schedules (cs_transcript submit) \<noteq> [] \<longrightarrow> int (length (queue (apply_schedule_effects submit s))) \<le> SCHEDULE_MAX_PER_SCOPE
        + int (length (t_cancellations (cs_transcript submit)) - card (tc_id ` set (t_cancellations (cs_transcript submit)))))"
proof -
  let ?t = "cs_transcript submit" and ?Q = "set (jm_keys (queue s))"
  let ?S = "ts_id ` set (t_schedules ?t)" and ?C = "tc_id ` set (t_cancellations ?t)"
  note adm = scheduleEffectsError_sound [OF none]
  have disj: "?S \<inter> ?C = {}" using adm(1) by (auto simp: schedule_admissible_def Let_def)
  define s1 where "s1 = fold purge_recycled (t_recycles ?t) s"
  define s2 where "s2 = fold (\<lambda>entry s. snd (cancel (tc_id entry) s)) (t_cancellations ?t) s1"
  have ok1: "queue_ok (queue s1)" and sub1: "set (jm_keys (queue s1)) \<subseteq> ?Q"
    using purge_subset [OF ok] unfolding s1_def by auto
  have ok2: "queue_ok (queue s2)" unfolding s2_def by (rule ok_cancels [OF ok1])
  have final: "apply_schedule_effects submit s = fold (\<lambda>r. store_scheduled (scheduledTurnFromRequest r (scheduleAttribution submit))) (t_schedules ?t) s2"
    by (simp add: apply_schedule_effects_def s1_def s2_def Let_def)
  have keys: "set (jm_keys (queue (apply_schedule_effects submit s))) \<subseteq> (?Q - ?C) \<union> ?S"
  proof -
    have "set (jm_keys (queue (apply_schedule_effects submit s))) = set (jm_keys (queue s2)) \<union> ?S"
      using scope_queue.keys_fold_put [OF ok2, of "\<lambda>r. scheduledTurnFromRequest r (scheduleAttribution submit)" "t_schedules ?t"]
      unfolding final image_image scheduled_ids .
    moreover have "set (jm_keys (queue s2)) = set (jm_keys (queue s1)) - ?C" unfolding s2_def by (rule cancel_keys)
    ultimately show ?thesis using sub1 by blast
  qed
  have "length (queue (apply_schedule_effects submit s)) = card (set (jm_keys (queue (apply_schedule_effects submit s))))"
    using scope_queue.ok_fold_put [OF ok2] unfolding final queue_ok_def by (metis distinct_card length_map)
  also have "\<dots> \<le> card ((?Q - ?C) \<union> ?S)" by (rule card_mono [OF _ keys]) simp
  also have "(?Q - ?C) \<union> ?S = (?Q - ?C) \<union> (?S - ?Q)" using disj by auto
  also have "card \<dots> \<le> card (?Q - ?C) + card (?S - ?Q)" by (rule card_Un_le)
  also have "card (?Q - ?C) = card ?Q - card (?Q \<inter> ?C)" by (rule card_Diff_subset_Int) simp
  finally have len: "length (queue (apply_schedule_effects submit s)) \<le> card ?Q - card (?Q \<inter> ?C) + card (?S - ?Q)" .
  have Q: "card ?Q = length (queue s)" using ok unfolding queue_ok_def by (metis distinct_card length_map)
  let ?p = "pendingScheduleSummary s"
  have known: "jm_get (ps_byId ?p) i = None \<longleftrightarrow> i \<notin> ?Q" for i using summary_known(1) [OF ok, of i] by blast
  have new: "card (?S - ?Q) \<le> length (filter (\<lambda>r. jm_get (ps_byId ?p) (ts_id r) = None) (t_schedules ?t))"
  proof -
    have "?S - ?Q = set (map ts_id (filter (\<lambda>r. jm_get (ps_byId ?p) (ts_id r) = None) (t_schedules ?t)))"
      unfolding known by auto
    then show ?thesis by (metis card_length length_map)
  qed
  have gone: "length (filter (\<lambda>c. jm_get (ps_byId ?p) (tc_id c) \<noteq> None) (t_cancellations ?t))
      \<le> card (?Q \<inter> ?C) + (length (t_cancellations ?t) - card ?C)"
  proof -
    have "{tc_id c | c. c \<in> set (t_cancellations ?t) \<and> jm_get (ps_byId ?p) (tc_id c) \<noteq> None} = ?Q \<inter> ?C"
      unfolding known by blast
    then show ?thesis using card_surplus [of "\<lambda>c. jm_get (ps_byId ?p) (tc_id c) \<noteq> None" "t_cancellations ?t" tc_id] by simp
  qed
  have le: "card (?Q \<inter> ?C) \<le> card ?Q" by (rule card_mono) auto
  have "int (length (queue (apply_schedule_effects submit s))) \<le> SCHEDULE_MAX_PER_SCOPE + int (length (t_cancellations ?t) - card ?C)"
    if "t_schedules ?t \<noteq> []"
    using adm(3) [OF that] new gone le Q len
    by (simp add: schedule_quota_def Let_def quota_count_schedules quota_count_cancels summary_known(2) [OF ok])
  moreover have "length (queue (apply_schedule_effects submit s)) \<le> length (queue s)" if "t_schedules ?t = []"
    using len that Q by simp
  ultimately show ?thesis using adm(1,2) by blast
qed

definition demo_frame :: write_authority where
  "demo_frame = \<lparr>wa_progr = ''p'', wa_thisObj = ''o'', wa_verb = ''v'', wa_definer = ''o'', wa_caller = ''a'', wa_callerPerms = ''a''\<rparr>"

definition demo_request :: transcript_schedule where
  "demo_request = \<lparr>ts_id = ''o:t'', ts_at = 60000, ts_idlePolicy = While_active,
     ts_call = \<lparr>sc_actor = ''a'', sc_target = ''o'', sc_verb = ''v'', sc_args = []\<rparr>, ts_armed_by = Some demo_frame\<rparr>"

definition demo_create :: transcript_create where
  "demo_create = \<lparr>cr_object = ''o'', cr_name = ''o'', cr_parent = None, cr_owner = ''a'', cr_anchor = None, cr_location = None,
     cr_flags = JObj [], cr_builder_surface = False, cr_writer = None\<rparr>"

definition demo_submit :: commit_submit where
  "demo_submit = \<lparr>cs_scope = ''room:a'', cs_base = \<lparr>sh_seq = 0, sh_hash = [], sh_generation = None\<rparr>, cs_idempotency_key = ''k'',
     cs_transcript = demo_transcript\<lparr>t_call := demo_call\<lparr>tk_actor := ''a''\<rparr>, t_writes := [], t_creates := [demo_create],
       t_moves := [], t_recycles := [], t_schedules := [demo_request], t_cancellations := [],
       t_logicalInputs := [(''schedule.now'', JNum 0)]\<rparr>,
     cs_post_state_version = [], cs_stamp = \<lparr>scope_head = [], catalog_epoch = ''e1''\<rparr>, cs_owned_reads_compacted = False,
     cs_replay_result = None, cs_replay_result_omitted = False, cs_request_fingerprint = None, cs_retry_receipt = False,
     cs_attestations = []\<rparr>"

definition demo_idle :: sequencer where
  "demo_idle = fresh_sequencer ''room:a'' ''e1'' default_options None"

lemma demo_entry_bytes: "scheduledTurnBytes (scheduledTurnFromRequest demo_request (None, None)) \<le> 400"
  by (simp add: scheduledTurnBytes_def scheduledTurnFromRequest_def demo_request_def turn_json_def call_json_def present_def
      json_string_def json_char_def utf8Encode_def utf8_point_def show_int_def show_nat.simps)

theorem scheduleEffects_sound_witness:
  "schedule_admissible demo_idle demo_submit demo_request
   \<and> int (length (queue (apply_schedule_effects demo_submit demo_idle))) \<le> SCHEDULE_MAX_PER_SCOPE"
proof -
  have t: "t_schedules (cs_transcript demo_submit) = [demo_request]" "t_cancellations (cs_transcript demo_submit) = []"
    "t_creates (cs_transcript demo_submit) = [demo_create]" "t_recycles (cs_transcript demo_submit) = []"
    "recorded_clock (cs_transcript demo_submit) = Some 0" "tk_actor (t_call (cs_transcript demo_submit)) = ''a''"
    "scheduleAttribution demo_submit = (None, None)"
    by (simp_all add: demo_submit_def recorded_clock_def SCHEDULE_CLOCK_INPUT_def scheduleAttribution_def demo_transcript_def)
  have q: "queue demo_idle = []" "sq_options demo_idle = default_options"
    by (simp_all add: queue_def demo_idle_def fresh_sequencer_def)
  have "schedule_target_error demo_idle demo_submit demo_request = None"
    by (simp add: schedule_target_error_def Let_def t demo_request_def demo_create_def createResolvesToThisScope.simps)
  then have "schedule_admissible demo_idle demo_submit demo_request"
    using demo_entry_bytes unfolding schedule_admissible_def Let_def t q
    by (simp add: demo_request_def demo_frame_def default_options_def schedule_owner_def SCHEDULE_MIN_LEAD_MS_def
        SCHEDULE_MAX_HORIZON_MS_def SCHEDULE_MAX_ENTRY_BYTES_def)
  moreover have "quota_error (schedule_quota demo_idle demo_submit) = None"
    using demo_entry_bytes
    by (simp add: quota_error_def first_error_None schedule_quota_def pendingScheduleSummary_def pendingScheduleRows_queue q t
        quota_schedule_def Let_def count_of_def SCHEDULE_MAX_PER_SCOPE_def SCHEDULE_MAX_SCOPE_BYTES_def SCHEDULE_MAX_PER_OBJECT_def)
  ultimately have "scheduleEffectsError demo_idle demo_submit = None"
    by (simp add: scheduleEffectsError_None t SCHEDULE_MAX_PER_TURN_def)
  from scheduleEffects_sound [OF _ this] show ?thesis by (simp add: t q queue_ok_def)
qed

end
