(* ===== verification/Submit.thy ===== *)
theory Submit
  imports Reply_Cache Schedules
begin

text \<open>
  \<open>ScopeSequencer.submit\<close> (\<open>src/net/scope.ts\<close>): replay of a recorded outcome, the admission checks
  in the order of the code, application, and the accept step that installs the touched cells, moves
  the head, appends the tail and the log, re-derives credentials and relations and records the
  reply. Each check is a definition that returns the refusal it would reject with.
\<close>

section \<open>Replay\<close>

definition conflict_detail :: "commit_submit \<Rightarrow> detail" where
  "conflict_detail submit = [(''idempotency_key'', JStr (cs_idempotency_key submit)),
     (''reason'', JStr ''key_reused_for_different_request''),
     (''remediation'', JStr (''this idempotency key already answered a different call; '' @
        ''retry the original call unchanged, or use a new key for this one''))]"

text \<open>The reply a recorded outcome is answered with; \<open>None\<close> is a key reused for another request.\<close>

definition replay_reply :: "commit_submit \<Rightarrow> commit_reply \<Rightarrow> commit_reply option" where
  "replay_reply submit recorded =
     (if replay_request recorded \<noteq> None \<and> cs_request_fingerprint submit \<noteq> None
         \<and> replay_request recorded \<noteq> cs_request_fingerprint submit then None
      else Some (case recorded of
        Rejected r \<Rightarrow> Rejected (r\<lparr>rj_replay_request := None, rj_recorded_at := None, rj_replay_guaranteed := False\<rparr>)
      | Accepted a \<Rightarrow>
          (let a' = a\<lparr>ac_replay_request := None, ac_recorded_at := None, ac_replay_guaranteed := False,
                      ac_replay_receipt := False, ac_replayed := True\<rparr>
           in Accepted (case ac_replay_output a of
                None \<Rightarrow> a'
              | Some out \<Rightarrow>
                  if po_actor out \<noteq> None \<and> po_actor out \<noteq> Some (tk_actor (t_call (cs_transcript submit)))
                  then a'\<lparr>ac_replay_output := None\<rparr> else a'))))"

section \<open>Admission\<close>

type_synonym refusal = "reject_reason \<times> detail \<times> transcript_cell list"

definition guaranteed_capacity :: "sequencer \<Rightarrow> int" where
  "guaranteed_capacity s = (case so_guaranteedOutcomeCapacity (sq_options s) of Some c \<Rightarrow> c | None \<Rightarrow> GUARANTEED_OUTCOME_CAPACITY)"

definition check_capacity :: "int \<Rightarrow> sequencer \<Rightarrow> commit_submit \<Rightarrow> refusal option" where
  "check_capacity now s submit =
     (if cs_retry_receipt submit \<and> int (guaranteedOutcomeCount s now) \<ge> guaranteed_capacity s
      then Some (Retry_capacity, [(''reason'', JStr ''guaranteed_outcome_capacity''), (''capacity'', JNum (guaranteed_capacity s)),
        (''remediation'', JStr (''this scope cannot issue another retry guarantee until one expires; '' @
           ''retry the call unchanged shortly, or re-issue it without an operation id''))], [])
      else None)"

definition run_authorize :: "sequencer \<Rightarrow> commit_submit \<Rightarrow> (string \<times> detail) + (string, string) jsmap" where
  "run_authorize s submit = (case so_authorize (sq_options s) of None \<Rightarrow> Inr [] | Some f \<Rightarrow> f submit)"

definition owns_true :: "sequencer \<Rightarrow> string \<Rightarrow> bool" where
  "owns_true s obj = (case so_owns (sq_options s) of Some f \<Rightarrow> f obj | None \<Rightarrow> False)"

text \<open>\<open>options.owns && !options.owns(obj)\<close>: known not to be owned here.\<close>

definition disowned :: "sequencer \<Rightarrow> string \<Rightarrow> bool" where
  "disowned s obj = (case so_owns (sq_options s) of Some f \<Rightarrow> \<not> f obj | None \<Rightarrow> False)"

definition check_principal :: "sequencer \<Rightarrow> commit_submit \<Rightarrow> refusal option" where
  "check_principal s submit = (case t_principal (cs_transcript submit) of
      None \<Rightarrow> None
    | Some p \<Rightarrow>
        let actor = jprop (Some p) ''actor''; customer = jprop (Some p) ''customer'';
            caller = tk_actor (t_call (cs_transcript submit));
            bad = (\<lambda>det. Some (Unauthorized, det, [])) in
        if normalizePrincipal (Some p) = None then bad [(''principal_verdict'', JStr ''malformed_principal'')]
        else if jprop (Some p) ''attribution'' \<noteq> Some (JStr ''authenticated'')
        then bad ([(''principal_verdict'', JStr ''not_authenticated'')] @ present ''attribution'' (jprop (Some p) ''attribution''))
        else if actor \<noteq> Some (JStr caller)
        then bad ([(''principal_verdict'', JStr ''actor_mismatch'')] @ present ''principal_actor'' actor
               @ [(''transcript_actor'', JStr caller)])
        else if owns_true s caller
        then (case normalizeCustomerAttribution (map_option c_value (store_get (sq_store s) (customerOfCellKey caller))) of
            None \<Rightarrow> bad ([(''principal_verdict'', JStr ''customer_unverifiable'')] @ present ''principal_customer'' customer)
          | Some owned \<Rightarrow>
              if Some (JStr (ca_customer owned)) \<noteq> customer
              then bad ([(''principal_verdict'', JStr ''customer_mismatch'')] @ present ''principal_customer'' customer
                     @ [(''authoritative_customer'', JStr (ca_customer owned))])
              else None)
        else None)"

definition check_scope :: "sequencer \<Rightarrow> commit_submit \<Rightarrow> refusal option" where
  "check_scope s submit =
     (if cs_scope submit \<noteq> sq_scope s \<or> t_scope (cs_transcript submit) \<noteq> sq_scope s
      then Some (Scope_mismatch, [(''submitted'', JStr (cs_scope submit)), (''transcript'', JStr (t_scope (cs_transcript submit)))], [])
      else if catalog_epoch (cs_stamp submit) \<noteq> sq_catalogEpoch s
      then Some (Stale_epoch, [(''submitted'', JStr (catalog_epoch (cs_stamp submit))), (''current'', JStr (sq_catalogEpoch s))], [])
      else None)"

definition failure_report :: "sequencer \<Rightarrow> transcript \<Rightarrow> effects_report" where
  "failure_report s t = classifyFailedTranscriptEffects t
     (if t_route t = Sequenced
      then (case so_owns (sq_options s) of Some f \<Rightarrow> f (case t_space t of Some sp \<Rightarrow> sp | None \<Rightarrow> t_scope t) | None \<Rightarrow> True)
      else False)
     NET_FAILED_TRANSCRIPT_FIELD_CLASSIFICATION"

fun category_name :: "effect_category \<Rightarrow> string" where
  "category_name C_allocation_writes = ''allocation_writes''"
| "category_name C_behavior_writes = ''behavior_writes''"
| "category_name C_creates = ''creates''"
| "category_name C_moves = ''moves''"
| "category_name C_recycles = ''recycles''"
| "category_name C_session_scope_transitions = ''session_scope_transitions''"
| "category_name C_projection_writes = ''projection_writes''"
| "category_name C_schedules = ''schedules''"
| "category_name C_cancellations = ''cancellations''"
| "category_name C_domain_observations = ''domain_observations''"
| "category_name C_canonical_error_observations = ''canonical_error_observations''"
| "category_name C_untracked_effects = ''untracked_effects''"
| "category_name C_results = ''results''"
| "category_name C_unclassified_fields = ''unclassified_fields''"

definition CATEGORY_ORDER :: "effect_category list" where
  "CATEGORY_ORDER = [C_allocation_writes, C_behavior_writes, C_creates, C_moves, C_recycles, C_session_scope_transitions,
     C_projection_writes, C_schedules, C_cancellations, C_domain_observations, C_canonical_error_observations,
     C_untracked_effects, C_results, C_unclassified_fields]"

fun reason_name :: "effect_reason \<Rightarrow> string" where
  "reason_name R_behavior_writes = ''behavior_writes''"
| "reason_name R_creates = ''creates''"
| "reason_name R_moves = ''moves''"
| "reason_name R_recycles = ''recycles''"
| "reason_name R_session_scope_transition = ''session_scope_transition''"
| "reason_name R_projection_writes = ''projection_writes''"
| "reason_name R_schedules = ''schedules''"
| "reason_name R_cancellations = ''cancellations''"
| "reason_name R_domain_observations = ''domain_observations''"
| "reason_name R_untracked_effects = ''untracked_effects''"
| "reason_name R_result_present = ''result_present''"
| "reason_name R_allocation_at_non_owner = ''allocation_at_non_owner''"
| "reason_name R_allocation_count = ''allocation_count''"
| "reason_name R_allocation_shape = ''allocation_shape''"
| "reason_name R_allocation_read = ''allocation_read''"
| "reason_name R_error_observation_count = ''error_observation_count''"
| "reason_name R_error_observation_shape = ''error_observation_shape''"
| "reason_name R_unclassified_fields = ''unclassified_fields''"

definition report_detail :: "effects_report \<Rightarrow> detail" where
  "report_detail r = [(''failure_effects'', JObj
     [(''generation'', (case fe_generation r of Some g \<Rightarrow> JNum g | None \<Rightarrow> JNull)),
      (''counts'', JObj (map (\<lambda>c. (category_name c, JNum (int (fe_counts r c)))) CATEGORY_ORDER)),
      (''reasons'', JArr (map (JStr \<circ> reason_name) (fe_reasons r)))])]"

text \<open>Completeness outranks the failed-effect verdict.\<close>

definition check_failure :: "sequencer \<Rightarrow> commit_submit \<Rightarrow> refusal option" where
  "check_failure s submit =
     (let t = cs_transcript submit; report = failure_report s t in
      if \<not> t_complete t then Some (Incomplete_transcript, [(''reasons'', JArr (map JStr (t_incompleteReasons t)))], [])
      else if fe_policy report = Enforce \<and> \<not> fe_valid report then Some (Invalid_error_effects, report_detail report, [])
      else None)"

definition sequencedAllocationError :: "sequencer \<Rightarrow> transcript \<Rightarrow> string option" where
  "sequencedAllocationError s t = (case (t_route t, t_space t) of
      (Sequenced, Some space) \<Rightarrow>
        (let writes = filter (\<lambda>w. isSequencedAllocationCell t (tw_cell w)) (t_writes t);
             ownedHere = (case so_owns (sq_options s) of Some f \<Rightarrow> f space | None \<Rightarrow> True);
             matching = filter (\<lambda>r. isSequencedAllocationCell t (tr_cell r) \<and> tr_value r = JNum (t_seq t)
               \<and> tr_version r \<noteq> None) (t_reads t)
         in if \<not> ownedHere then (if writes = [] then None else Some ''foreign commit carried the space allocation'')
            else if t_seq t < 1 then Some ''seq must be a positive integer''
            else case writes of
              [w] \<Rightarrow>
                if tw_op w \<noteq> Op_set \<or> tw_value w \<noteq> JNum (t_seq t + 1) then Some ''next_seq write must set seq + 1''
                else if length matching = 1 then None
                else Some (''expected one matching next_seq pre-read, got '' @ show_int (int (length matching)))
            | _ \<Rightarrow> Some (''expected one next_seq write, got '' @ show_int (int (length writes))))
    | _ \<Rightarrow> None)"

definition check_allocation :: "sequencer \<Rightarrow> commit_submit \<Rightarrow> refusal option" where
  "check_allocation s submit = map_option (\<lambda>e. (Write_unauthorized, [(''sequenced_allocation'', JStr e)], []))
     (sequencedAllocationError s (cs_transcript submit))"

definition add_mutation :: "string \<Rightarrow> string \<Rightarrow> (string, string list) jsmap \<Rightarrow> (string, string list) jsmap" where
  "add_mutation obj key m = jm_set obj (bucket m obj @ [key]) m"

fun catalog_write_cell :: "transcript_cell \<Rightarrow> bool" where
  "catalog_write_cell (TLifecycle _) = True"
| "catalog_write_cell (TProp _ _) = True"
| "catalog_write_cell (TVerb _ _) = True"
| "catalog_write_cell _ = False"

definition catalog_mutations :: "sequencer \<Rightarrow> transcript \<Rightarrow> (string, string list) jsmap" where
  "catalog_mutations s t = (case so_catalogMutationForbidden (sq_options s) of
      None \<Rightarrow> []
    | Some forbidden \<Rightarrow>
        fold (\<lambda>r m. if forbidden (rc_object r) then add_mutation (rc_object r) (cellKey Object_tombstone (rc_object r) None) m else m)
          (t_recycles t)
          (fold (\<lambda>w m. if catalog_write_cell (tw_cell w) \<and> forbidden (cell_object (tw_cell w))
                 then (case netCellKeyFor (tw_cell w) of None \<Rightarrow> m | Some key \<Rightarrow> add_mutation (cell_object (tw_cell w)) key m) else m)
             (t_writes t) []))"

definition mutation_detail :: "(string, string list) jsmap \<Rightarrow> detail" where
  "mutation_detail m = (let objects = sort (jm_keys m) in
     [(''objects'', JArr (map JStr objects)), (''keys'', JArr (map JStr (sort (concat (map (bucket m) objects)))))])"

definition check_catalog :: "sequencer \<Rightarrow> commit_submit \<Rightarrow> refusal option" where
  "check_catalog s submit =
     (let m = catalog_mutations s (cs_transcript submit)
      in if m \<noteq> [] then Some (Catalog_mutation, mutation_detail m, []) else None)"

section \<open>Heads\<close>

fun base_in_tail :: "scope_head \<Rightarrow> tail_entry list \<Rightarrow> bool" where
  "base_in_tail base [] = False"
| "base_in_tail base (entry # older) =
     (if ta_seq entry = sh_seq base \<and> ta_head_hash entry = Some (sh_hash base) then True
      else if ta_seq entry = sh_seq base + 1 \<and> ta_base_hash entry = Some (sh_hash base) then True
      else if ta_seq entry < sh_seq base then False
      else base_in_tail base older)"

definition baseIsCurrentOrRetained :: "sequencer \<Rightarrow> scope_head \<Rightarrow> bool" where
  "baseIsCurrentOrRetained s base =
     (if sh_seq base = sh_seq (sq_headState s)
      then sh_hash base = sh_hash (sq_headState s)
        \<and> (sh_generation base = None \<or> sh_generation (sq_headState s) = None \<or> sh_generation base = sh_generation (sq_headState s))
      else if sh_seq base < 0 \<or> sh_seq base > sh_seq (sq_headState s) then False
      else base_in_tail base (rev (sq_tail s)))"

definition baseIsExactCurrent :: "sequencer \<Rightarrow> scope_head \<Rightarrow> bool" where
  "baseIsExactCurrent s base \<longleftrightarrow> sh_seq base = sh_seq (sq_headState s) \<and> sh_hash base = sh_hash (sq_headState s)
     \<and> sh_generation base \<noteq> None \<and> sh_generation (sq_headState s) \<noteq> None
     \<and> sh_generation base = sh_generation (sq_headState s)"

definition check_head :: "sequencer \<Rightarrow> commit_submit \<Rightarrow> refusal option" where
  "check_head s submit =
     (if (if cs_owned_reads_compacted submit then \<not> baseIsExactCurrent s (cs_base submit)
          else \<not> baseIsCurrentOrRetained s (cs_base submit))
      then Some (Stale_head, [(''base'', head_json (cs_base submit)), (''head'', head_json (sq_headState s))], [])
      else None)"

section \<open>Read validation\<close>

definition attested_cells :: "commit_submit \<Rightarrow> (string, string) jsmap" where
  "attested_cells submit = fold (\<lambda>(owner, entry) m. fold (\<lambda>(key, version). jm_set key version) (at_cells entry) m)
     (cs_attestations submit) []"

definition current_version :: "cell_store \<Rightarrow> string \<Rightarrow> string" where
  "current_version st key = (case store_get st key of Some c \<Rightarrow> c_version c | None \<Rightarrow> ''absent'')"

text \<open>
  The read loop: a foreign read is checked against a proof or an attestation and refuses at once
  when neither covers it; a local read against the authority's current version. Reads of objects
  the turn creates, probes and contents reads are not checked. The left value is the unattested key.
\<close>

fun scan_reads ::
    "sequencer \<Rightarrow> (string, string) jsmap \<Rightarrow> (string, string) jsmap \<Rightarrow> string list \<Rightarrow> transcript_read list
     \<Rightarrow> (string, transcript_cell) jsmap \<Rightarrow> string + (string, transcript_cell) jsmap" where
  "scan_reads s proved attested created [] mismatched = Inr mismatched"
| "scan_reads s proved attested created (r # rs) mismatched =
     (case (tr_version r, netCellKeyFor (tr_cell r)) of
        (Some version, Some key) \<Rightarrow>
          if cell_object (tr_cell r) \<in> set created then scan_reads s proved attested created rs mismatched
          else if disowned s (cell_object (tr_cell r))
          then (case (case jm_get proved key of Some v \<Rightarrow> Some v | None \<Rightarrow> jm_get attested key) of
              None \<Rightarrow> Inl key
            | Some pv \<Rightarrow> scan_reads s proved attested created rs
                (if pv \<noteq> version then jm_set key (tr_cell r) mismatched else mismatched))
          else scan_reads s proved attested created rs
            (if current_version (sq_store s) key \<noteq> version then jm_set key (tr_cell r) mismatched else mismatched)
      | _ \<Rightarrow> scan_reads s proved attested created rs mismatched)"

definition check_reads :: "sequencer \<Rightarrow> (string, string) jsmap \<Rightarrow> commit_submit \<Rightarrow> refusal option" where
  "check_reads s proved submit =
     (case scan_reads s proved (attested_cells submit) (map cr_object (t_creates (cs_transcript submit)))
         (t_reads (cs_transcript submit)) [] of
        Inl key \<Rightarrow> Some (Rider_unattested, [(''key'', JStr key)], [])
      | Inr mismatched \<Rightarrow> if mismatched \<noteq> [] then Some (Read_version_mismatch, [], jm_values mismatched) else None)"

definition sequencedAllocationAuthorityValueError :: "sequencer \<Rightarrow> transcript \<Rightarrow> string option" where
  "sequencedAllocationAuthorityValueError s t =
     (if t_route t \<noteq> Sequenced \<or> t_space t = None then None
      else case find (\<lambda>w. isSequencedAllocationCell t (tw_cell w)) (t_writes t) of
        None \<Rightarrow> None
      | Some w \<Rightarrow>
          (let current = store_get (sq_store s) (case netCellKeyFor (tw_cell w) of Some k \<Rightarrow> k | None \<Rightarrow> []);
               authorityNextSeq = (case current of None \<Rightarrow> Some (JNum 1) | Some c \<Rightarrow> jprop (Some (c_value c)) ''value'')
           in if authorityNextSeq = Some (JNum (t_seq t)) then None
              else Some ''seq must equal the authority next_seq value''))"

definition check_allocation_value :: "sequencer \<Rightarrow> commit_submit \<Rightarrow> refusal option" where
  "check_allocation_value s submit = map_option (\<lambda>e. (Write_unauthorized, [(''sequenced_allocation'', JStr e)], []))
     (sequencedAllocationAuthorityValueError s (cs_transcript submit))"

definition ordering_key :: "string \<Rightarrow> string \<Rightarrow> string option \<Rightarrow> string" where
  "ordering_key owner container parent = owner @ [CHR 0x00] @ orderedProjectionKey container parent"

definition attested_orderings :: "commit_submit \<Rightarrow> (string, string) jsmap" where
  "attested_orderings submit = fold (\<lambda>(owner, entry) m.
     fold (\<lambda>o'. jm_set (ordering_key owner (ao_container o') (ao_parent o')) (ao_version o')) (at_orderings entry) m)
     (cs_attestations submit) []"

text \<open>The ordering loop; the left value is the first unattested foreign read.\<close>

fun scan_orderings :: "sequencer \<Rightarrow> (string, string) jsmap \<Rightarrow> ordering_read list \<Rightarrow> ordering_read + ordering_read list" where
  "scan_orderings s attested [] = Inr []"
| "scan_orderings s attested (r # rs) =
     (let conflict = (\<lambda>b. case scan_orderings s attested rs of Inl e \<Rightarrow> Inl e | Inr cs \<Rightarrow> Inr (if b then r # cs else cs)) in
      if og_scope r \<noteq> sq_scope s
      then (case jm_get attested (ordering_key (og_scope r) (og_container r) (og_parent r)) of
          None \<Rightarrow> Inl r
        | Some v \<Rightarrow> conflict (v \<noteq> og_version r))
      else conflict (orderedChildrenVersion (orderedChildren s (og_container r) (og_parent r)) \<noteq> og_version r))"

definition check_orderings :: "sequencer \<Rightarrow> commit_submit \<Rightarrow> refusal option" where
  "check_orderings s submit = (case scan_orderings s (attested_orderings submit) (t_orderingReads (cs_transcript submit)) of
      Inl r \<Rightarrow> Some (Rider_unattested, [(''ordering_parent'', json_of_ref (og_parent r)), (''ordering_scope'', JStr (og_scope r))], [])
    | Inr [] \<Rightarrow> None
    | Inr cs \<Rightarrow> Some (Read_version_mismatch, [(''ordering_conflicts'', JArr (map (\<lambda>r. JObj [(''scope'', JStr (og_scope r)),
        (''container'', JStr (og_container r)), (''parent'', json_of_ref (og_parent r))]) cs))], []))"

section \<open>Lifecycle\<close>

definition lifecycle_objects :: "transcript \<Rightarrow> string list" where
  "lifecycle_objects t = map (cell_object \<circ> tw_cell) (t_writes t) @ map cr_object (t_creates t) @ map mv_object (t_moves t)
     @ map rc_object (t_recycles t)"

definition check_tombstones :: "sequencer \<Rightarrow> commit_submit \<Rightarrow> refusal option" where
  "check_tombstones s submit =
     (case find (\<lambda>obj. store_has (sq_store s) (cellKey Object_tombstone obj None)) (lifecycle_objects (cs_transcript submit)) of
        Some obj \<Rightarrow> Some (Read_version_mismatch, [(''tombstoned_object'', JStr obj)], [TLifecycle obj])
      | None \<Rightarrow> None)"

definition check_recycles :: "sequencer \<Rightarrow> commit_submit \<Rightarrow> refusal option" where
  "check_recycles s submit =
     (case find (\<lambda>r. disowned s (rc_object r) \<or> \<not> store_has (sq_store s) (cellKey Object_lineage (rc_object r) None))
         (t_recycles (cs_transcript submit)) of
        Some r \<Rightarrow> Some (Write_unauthorized, [(''recycle'', JStr (rc_object r)),
          (''reason'', JStr ''recycle target is not a live object owned by this scope'')], [])
      | None \<Rightarrow> None)"

definition replay_key :: "string \<Rightarrow> string \<Rightarrow> int \<Rightarrow> int \<Rightarrow> string" where
  "replay_key owner space from' limit = owner @ [CHR 0x00] @ replayPageQueryKey \<lparr>rq_space = space, rq_from = from', rq_limit = limit\<rparr>"

definition attested_replays :: "commit_submit \<Rightarrow> (string, string) jsmap" where
  "attested_replays submit = fold (\<lambda>(owner, entry) m.
     fold (\<lambda>p. jm_set (replay_key owner (ap_space p) (ap_from p) (ap_limit p)) (ap_version p)) (at_replays entry) m)
     (cs_attestations submit) []"

fun scan_replays :: "sequencer \<Rightarrow> (string, string) jsmap \<Rightarrow> replay_read list \<Rightarrow> replay_read + replay_read list" where
  "scan_replays s attested [] = Inr []"
| "scan_replays s attested (r # rs) =
     (let conflict = (\<lambda>b. case scan_replays s attested rs of Inl e \<Rightarrow> Inl e | Inr cs \<Rightarrow> Inr (if b then r # cs else cs)) in
      if rr_scope r \<noteq> sq_scope s
      then (case jm_get attested (replay_key (rr_scope r) (rr_space r) (rr_from r) (rr_limit r)) of
          None \<Rightarrow> Inl r
        | Some v \<Rightarrow> conflict (v \<noteq> rr_version r))
      else conflict (replayPageVersion (replayPage s (rr_space r) (rr_from r) (rr_limit r)) \<noteq> rr_version r))"

definition check_replays :: "sequencer \<Rightarrow> commit_submit \<Rightarrow> refusal option" where
  "check_replays s submit = (case scan_replays s (attested_replays submit) (t_replayReads (cs_transcript submit)) of
      Inl r \<Rightarrow> Some (Rider_unattested, [(''replay_space'', JStr (rr_space r)), (''replay_scope'', JStr (rr_scope r))], [])
    | Inr [] \<Rightarrow> None
    | Inr cs \<Rightarrow> Some (Read_version_mismatch, [(''replay_conflicts'', JArr (map (\<lambda>r. JObj [(''scope'', JStr (rr_scope r)),
        (''space'', JStr (rr_space r)), (''from'', JNum (rr_from r)), (''limit'', JNum (rr_limit r))]) cs))], []))"

definition check_writes :: "sequencer \<Rightarrow> commit_submit \<Rightarrow> refusal option" where
  "check_writes s submit =
     (let authorized = (case so_writeAuthorized (sq_options s) of
          Some f \<Rightarrow> f submit
        | None \<Rightarrow> list_all (\<lambda>w. netCellKeyFor (tw_cell w) = None \<or> tw_writer w \<noteq> None) (t_writes (cs_transcript submit)))
      in if \<not> authorized then Some (Write_unauthorized, [], []) else None)"

definition check_creates :: "sequencer \<Rightarrow> commit_submit \<Rightarrow> refusal option" where
  "check_creates s submit =
     (case find (\<lambda>c. store_get (sq_store s) (cellKey Object_lineage (cr_object c) None) \<noteq> None
           \<or> store_get (sq_store s) (cellKey Object_tombstone (cr_object c) None) \<noteq> None) (t_creates (cs_transcript submit)) of
        Some c \<Rightarrow> Some (Read_version_mismatch, [(''create_collision'', JStr (cr_object c))], [TLifecycle (cr_object c)])
      | None \<Rightarrow> None)"

section \<open>Verb slots\<close>

definition held_slot :: "sequencer \<Rightarrow> string \<Rightarrow> string \<Rightarrow> int option" where
  "held_slot s obj name = verbCellSlot (map_option c_value (store_get (sq_store s) (cellKey Verb_bytecode obj (Some name))))"

text \<open>The ordinals a transcript vacates: the slots of the pages it removes.\<close>

definition vacates :: "sequencer \<Rightarrow> transcript \<Rightarrow> string \<Rightarrow> int \<Rightarrow> bool" where
  "vacates s t obj slot = list_ex (\<lambda>w. case tw_cell w of
      TVerb o' n \<Rightarrow> tw_op w = Op_remove \<and> o' = obj \<and> held_slot s o' n = Some slot | _ \<Rightarrow> False) (t_writes t)"

definition verb_pages :: "sequencer \<Rightarrow> string \<Rightarrow> (string \<times> json) list" where
  "verb_pages s obj = List.map_filter (\<lambda>c. if c_kind c = Verb_bytecode then map_option (\<lambda>n. (n, c_value c)) (c_name c) else None)
     (cellsForObject (sq_store s) obj)"

definition slot_floor :: "sequencer \<Rightarrow> string \<Rightarrow> int" where
  "slot_floor s obj = fold (\<lambda>(n, v) fl. max fl ((case verbCellSlot (Some v) of Some k \<Rightarrow> k | None \<Rightarrow> 0) + 1)) (verb_pages s obj) 1"

definition slot_refusal :: "sequencer \<Rightarrow> transcript \<Rightarrow> transcript_write \<Rightarrow> refusal option" where
  "slot_refusal s t w = (case tw_cell w of
      TVerb obj name \<Rightarrow>
        if tw_op w = Op_remove \<or> disowned s obj then None
        else case verbCellSlot (Some (tw_value w)) of
          None \<Rightarrow> None
        | Some proposed \<Rightarrow>
            (case store_get (sq_store s) (cellKey Verb_bytecode obj (Some name)) of
               Some existing \<Rightarrow>
                 (case verbCellSlot (Some (c_value existing)) of
                    None \<Rightarrow> None
                  | Some held \<Rightarrow> if held = proposed then None
                      else Some (Read_version_mismatch, [(''verb_slot_moved'', JObj [(''object'', JStr obj), (''verb'', JStr name),
                        (''held'', JNum held), (''proposed'', JNum proposed)])], [TVerb obj name]))
             | None \<Rightarrow>
                 if vacates s t obj proposed \<or> proposed = slot_floor s obj then None
                 else Some (Read_version_mismatch, [(''verb_slot_stale'', JObj [(''object'', JStr obj), (''verb'', JStr name),
                   (''floor'', JNum (slot_floor s obj)), (''proposed'', JNum proposed)])], map (\<lambda>(n, v). TVerb obj n) (verb_pages s obj)))
    | _ \<Rightarrow> None)"

definition check_slots :: "sequencer \<Rightarrow> commit_submit \<Rightarrow> refusal option" where
  "check_slots s submit = first_error (map (slot_refusal s (cs_transcript submit)) (t_writes (cs_transcript submit)))"

definition check_schedules :: "sequencer \<Rightarrow> commit_submit \<Rightarrow> refusal option" where
  "check_schedules s submit = map_option (\<lambda>e. (Schedule_unauthorized, [(''schedule'', JStr e)], [])) (scheduleEffectsError s submit)"

text \<open>The checks between authorization and application, in order.\<close>

definition admission_checks :: "sequencer \<Rightarrow> (string, string) jsmap \<Rightarrow> commit_submit \<Rightarrow> refusal option list" where
  "admission_checks s proved submit =
     [check_principal s submit, check_scope s submit, check_failure s submit, check_allocation s submit, check_catalog s submit,
      check_head s submit, check_reads s proved submit, check_allocation_value s submit, check_orderings s submit,
      check_tombstones s submit, check_recycles s submit, check_replays s submit, check_writes s submit, check_creates s submit,
      check_slots s submit, check_schedules s submit]"

definition admission :: "int \<Rightarrow> sequencer \<Rightarrow> commit_submit \<Rightarrow> refusal option" where
  "admission now s submit = (case check_capacity now s submit of
      Some r \<Rightarrow> Some r
    | None \<Rightarrow> (case run_authorize s submit of
        Inl (err, structured) \<Rightarrow> Some (Unauthorized, AList.updates (map fst structured) (map snd structured) [(''error'', JStr err)], [])
      | Inr proved \<Rightarrow> first_error (admission_checks s proved submit)))"

section \<open>Acceptance\<close>

definition pure_direct_read :: "transcript \<Rightarrow> apply_result \<Rightarrow> bool" where
  "pure_direct_read t applied \<longleftrightarrow> t_route t = Direct \<and> ar_touched applied = [] \<and> ar_projectionWrites applied = []
     \<and> t_projectionWrites t = [] \<and> t_sessionScopeTransition t = None \<and> t_schedules t = [] \<and> t_cancellations t = []
     \<and> t_untrackedEffects t = []"

text \<open>
  Adopting a touched key from the post store. Its cells are authoritative, so \<^const>\<open>store_install\<close>
  on the authority store does not refuse them.
\<close>

definition adopt_key :: "cell_store \<Rightarrow> string \<Rightarrow> cell_store \<Rightarrow> cell_store" where
  "adopt_key post key st = (case store_get post key of
      Some c \<Rightarrow> (case store_install c st of Inl _ \<Rightarrow> st | Inr st' \<Rightarrow> st')
    | None \<Rightarrow> store_delete key st)"

definition bump_counter :: "transcript \<Rightarrow> sequencer \<Rightarrow> sequencer" where
  "bump_counter t s = (case sq_nextObjectCounter s of
      None \<Rightarrow> s
    | Some n \<Rightarrow> s\<lparr>sq_nextObjectCounter := Some (fold (\<lambda>c n. case trailing_number (cr_object c) of
        Some k \<Rightarrow> max n (k + 1) | None \<Rightarrow> n) (t_creates t) n)\<rparr>)"

definition committedLogEntry :: "int \<Rightarrow> transcript \<Rightarrow> replay_log_entry option" where
  "committedLogEntry now t =
     (let space = (case t_space t of Some sp \<Rightarrow> sp | None \<Rightarrow> t_scope t); call = t_call t;
          consumedSeq = list_ex (\<lambda>w. tw_cell w = TProp space ''next_seq'') (t_writes t)
      in if t_route t \<noteq> Sequenced \<or> space = [] \<or> \<not> consumedSeq then None
         else Some \<lparr>le_space = space, le_seq = t_seq t, le_ts = now, le_actor = tk_actor call,
           le_message = JObj ([(''actor'', JStr (tk_actor call)), (''target'', JStr (tk_target call)), (''verb'', JStr (tk_verb call))]
             @ (case tk_verb_definer call of Some d \<Rightarrow> if d = [] then [] else [(''verb_definer'', JStr d)] | None \<Rightarrow> [])
             @ (case tk_verb_slot call of Some n \<Rightarrow> [(''verb_slot'', JNum n)] | None \<Rightarrow> [])
             @ [(''args'', JArr (tk_args call))]),
           le_observations = t_observations t, le_applied_ok = (t_error t = None), le_error = t_error t\<rparr>)"

definition memory_log :: "replay_log_entry option \<Rightarrow> sequencer \<Rightarrow> sequencer" where
  "memory_log entry s = (case (entry, sq_durable s) of
      (Some e, None) \<Rightarrow> s\<lparr>sq_memoryLogRows := jm_set (le_space e)
        (jm_set (le_seq e) e (case jm_get (sq_memoryLogRows s) (le_space e) of Some m \<Rightarrow> m | None \<Rightarrow> [])) (sq_memoryLogRows s)\<rparr>
    | _ \<Rightarrow> s)"

definition credential_actors :: "transcript \<Rightarrow> string list" where
  "credential_actors t = remdups (List.map_filter (\<lambda>w. case tw_cell w of
      TProp obj nm \<Rightarrow> if nm = ACTOR_API_KEYS_PROPERTY \<and> obj \<noteq> ''$system'' then Some obj else None | _ \<Rightarrow> None) (t_writes t))"

text \<open>Re-indexing the credentials of some actors from their cells; the changed keys accumulate.\<close>

definition reindex_actor :: "cell_store \<Rightarrow> string \<Rightarrow> string list \<times> sequencer \<Rightarrow> string list \<times> sequencer" where
  "reindex_actor cells actor acc = (case acc of (changed, s) \<Rightarrow>
     (let (ks, s') = replaceApiKeyVerifiersForActor actor
          (map_option c_value (store_get cells (cellKey Property_cell actor (Some ACTOR_API_KEYS_PROPERTY)))) s
      in (fold js_add ks changed, s')))"

definition reindex_credentials :: "transcript \<Rightarrow> cell_store \<Rightarrow> sequencer \<Rightarrow> string list \<times> sequencer" where
  "reindex_credentials t post s = fold (reindex_actor post)
     (filter (\<lambda>a. case so_scopeOf (sq_options s) of Some f \<Rightarrow> f a = sq_scope s | None \<Rightarrow> True) (credential_actors t)) ([], s)"

text \<open>\<open>applyRelationDeltas\<close> on the sequencer's rows with the index sync; the changed keys.\<close>

definition apply_relations :: "relation_delta list \<Rightarrow> sequencer \<Rightarrow> string list \<times> sequencer" where
  "apply_relations deltas s = (let (changed, rows) = applyRelationDeltas (sq_relationRows s) deltas
     in (changed, syncOrderedRelationIndex changed (s\<lparr>sq_relationRows := rows\<rparr>)))"

definition tail_entry_of :: "scope_head \<Rightarrow> scope_head \<Rightarrow> string \<Rightarrow> string list \<Rightarrow> tail_entry" where
  "tail_entry_of prior next marker touched = \<lparr>ta_seq = sh_seq next, ta_transcript_hash = marker, ta_touched = touched,
     ta_base_hash = Some (sh_hash prior), ta_head_hash = Some (sh_hash next)\<rparr>"

text \<open>The accept step up to the recorded reply: everything in memory.\<close>

record accept_outcome =
  ao_reply :: accepted_reply
  ao_tailEntry :: tail_entry
  ao_logEntry :: "replay_log_entry option"
  ao_verifierKeys :: "string list"
  ao_relationKeys :: "string list"
  ao_prune :: prune_result
  ao_stored :: commit_reply

definition accept_memory :: "int \<Rightarrow> commit_submit \<Rightarrow> apply_result \<Rightarrow> sequencer \<Rightarrow> accept_outcome \<times> sequencer" where
  "accept_memory now submit applied s =
     (let t = cs_transcript submit; nextHead = next_head (sq_headState s) (t_hash t);
          s1 = s\<lparr>sq_store := fold (adopt_key (ar_post applied)) (ar_touched applied) (sq_store s), sq_headState := nextHead\<rparr>;
          s2 = bump_counter t (apply_schedule_effects submit s1);
          entry = tail_entry_of (sq_headState s) nextHead (t_hash t) (ar_touched applied);
          logEntry = committedLogEntry now t;
          s3 = memory_log logEntry (push_tail entry s2);
          (verifierKeys, s4) = reindex_credentials t (ar_post applied) s3;
          derived = deriveRelationDeltas t (ar_projectionWrites applied) (ar_recycledObjects applied) (sq_scope s)
            (so_scopeOf (sq_options s)) (Some (ar_post applied));
          (relationKeys, s5) = apply_relations (dd_local derived) s4;
          reply = \<lparr>ac_scope = sq_scope s, ac_head = nextHead, ac_touched = ar_touched applied,
            ac_post_state_version = ar_postStateVersion applied, ac_relations = dd_local derived,
            ac_relations_foreign = dd_foreign derived, ac_replayed = False, ac_replay_output = None,
            ac_replay_request = None, ac_replay_receipt = False, ac_recorded_at = None, ac_replay_guaranteed = False\<rparr>;
          recorded = Accepted (reply\<lparr>ac_replay_output := Some (recordedOutput submit),
            ac_replay_request := cs_request_fingerprint submit, ac_replay_guaranteed := cs_retry_receipt submit\<rparr>);
          ((prune, stored), s6) = record_in_memory (cs_idempotency_key submit) recorded now s5
      in (\<lparr>ao_reply = reply, ao_tailEntry = entry, ao_logEntry = logEntry, ao_verifierKeys = verifierKeys,
           ao_relationKeys = relationKeys, ao_prune = prune, ao_stored = stored\<rparr>, s6))"

text \<open>The durable transaction of an accept, before and after the log append, which alone can throw.\<close>

definition durable_before_log :: "commit_submit \<Rightarrow> apply_result \<Rightarrow> accept_outcome \<Rightarrow> sequencer \<Rightarrow> scope_store \<Rightarrow> scope_store" where
  "durable_before_log submit applied out s d =
     durable_tail (so_tailLimit (sq_options s)) (ao_tailEntry out)
       (writeReply (cs_idempotency_key submit) (ao_stored out) (writeMeta (metaRow s) (durable_cells (ar_touched applied) (sq_store s) d)))"

definition durable_after_log :: "accept_outcome \<Rightarrow> sequencer \<Rightarrow> scope_store \<Rightarrow> scope_store" where
  "durable_after_log out s d =
     durable_verifiers (ao_verifierKeys out) (sq_apiKeyVerifiers s)
       (durable_relations (ao_relationKeys out) (sq_relationRows s)
         (fold (\<lambda>(k, r). writeReply k r) (pr_rewritten (ao_prune out)) (fold deleteReply (pr_pruned (ao_prune out)) d)))"

definition accept_durable :: "commit_submit \<Rightarrow> apply_result \<Rightarrow> accept_outcome \<times> sequencer \<Rightarrow> (scope_failure + commit_reply) \<times> sequencer" where
  "accept_durable submit applied acc = (case acc of (out, s) \<Rightarrow> case sq_durable s of
      None \<Rightarrow> (Inr (Accepted (ao_reply out)), s)
    | Some d \<Rightarrow>
        (let d1 = durable_before_log submit applied out s d in
         case (case ao_logEntry out of None \<Rightarrow> Some d1 | Some e \<Rightarrow> appendLogEntry e d1) of
           None \<Rightarrow> (Inl Log_collision, s\<lparr>sq_durable := Some d1\<rparr>)
         | Some d2 \<Rightarrow> (Inr (Accepted (ao_reply out)), s\<lparr>sq_durable := Some (durable_after_log out s d2)\<rparr>)))"

definition read_reply :: "sequencer \<Rightarrow> apply_result \<Rightarrow> accepted_reply" where
  "read_reply s applied = \<lparr>ac_scope = sq_scope s, ac_head = sq_headState s, ac_touched = [],
     ac_post_state_version = ar_postStateVersion applied, ac_relations = [], ac_relations_foreign = [], ac_replayed = False,
     ac_replay_output = None, ac_replay_request = None, ac_replay_receipt = False, ac_recorded_at = None,
     ac_replay_guaranteed = False\<rparr>"

definition refuse :: "commit_submit \<Rightarrow> refusal \<Rightarrow> int \<Rightarrow> sequencer \<Rightarrow> (scope_failure + commit_reply) \<times> sequencer" where
  "refuse submit refusal now s = (case refusal of (reason, det, mismatched) \<Rightarrow>
     let (reply, s') = reject submit reason det mismatched now s in (Inr reply, s'))"

text \<open>A submit that no recorded outcome answers.\<close>

definition submit_fresh :: "int \<Rightarrow> commit_submit \<Rightarrow> sequencer \<Rightarrow> (scope_failure + commit_reply) \<times> sequencer" where
  "submit_fresh now submit s = (case admission now s submit of
      Some refusal \<Rightarrow> refuse submit refusal now s
    | None \<Rightarrow>
        (case applyTranscript (sq_store s) (cs_transcript submit)
            (stamp_of (next_head (sq_headState s) (t_hash (cs_transcript submit))) (sq_catalogEpoch s)) of
           Inl e \<Rightarrow> (Inl (Net_failure e), s)
         | Inr applied \<Rightarrow>
             if ar_postStateVersion applied \<noteq> cs_post_state_version submit
             then refuse submit (Post_state_mismatch, [(''derived'', JStr (ar_postStateVersion applied)),
               (''submitted'', JStr (cs_post_state_version submit))], []) now s
             else if pure_direct_read (cs_transcript submit) applied
             then (Inr (Accepted (read_reply s applied)),
               if cs_retry_receipt submit then recordDirectReceipt submit (read_reply s applied) now s else s)
             else accept_durable submit applied (accept_memory now submit applied s)))"

definition submit :: "int \<Rightarrow> commit_submit \<Rightarrow> sequencer \<Rightarrow> (scope_failure + commit_reply) \<times> sequencer" where
  "submit now sub s = (case recordedReply (cs_idempotency_key sub) now s of
      (Some recorded, s1) \<Rightarrow>
        (case replay_reply sub recorded of
           None \<Rightarrow> refuse sub (Idempotency_conflict, conflict_detail sub, []) now s1
         | Some reply \<Rightarrow> (Inr reply, s1))
    | (None, s1) \<Rightarrow> submit_fresh now sub s1)"

end
