(* ===== verification/Sessions.thy ===== *)
theory Sessions
  imports Submit
begin

text \<open>
  Sessions as cells (\<open>src/net/sessions.ts\<close>): the semantic check of a session value, the submit that
  mints, refreshes or closes a session, and the authorization of a submit against the sessions it
  names. A lifetime is an integer here; the not-a-number and infinite lifetimes the mint also
  refuses have no value of this type.
\<close>

section \<open>Validation\<close>

definition sessionCellKey :: "string \<Rightarrow> string" where
  "sessionCellKey session = cellKey Session session None"

datatype session_verdict = S_ok | S_expired | S_missing | S_actor_mismatch

fun verdict_name :: "session_verdict \<Rightarrow> string" where
  "verdict_name S_ok = ''ok''"
| "verdict_name S_expired = ''expired''"
| "verdict_name S_missing = ''missing''"
| "verdict_name S_actor_mismatch = ''actor_mismatch''"

text \<open>The first argument is the value of the cell, absent when there is no cell.\<close>

definition validateSessionCell :: "json option \<Rightarrow> int \<Rightarrow> string option \<Rightarrow> session_verdict" where
  "validateSessionCell v now actor = (case jstr (jprop v ''actor'') of
      None \<Rightarrow> S_missing
    | Some a \<Rightarrow>
        if actor \<noteq> None \<and> actor \<noteq> Some a then S_actor_mismatch
        else case jnum (jprop v ''expiresAt'') of
          Some e \<Rightarrow> if e \<le> now then S_expired else S_ok
        | None \<Rightarrow> S_ok)"

section \<open>Minting\<close>

definition sessionWriter :: "string \<Rightarrow> string \<Rightarrow> write_authority" where
  "sessionWriter actor verb = \<lparr>wa_progr = actor, wa_thisObj = actor, wa_verb = verb, wa_definer = actor,
     wa_caller = actor, wa_callerPerms = actor\<rparr>"

record session_closing =
  sg_priorActiveScope :: "string option"
  sg_ephemeralActor :: bool

record mint_input =
  mi_session :: string
  mi_actor :: string
  mi_ttl_ms :: int
  mi_now :: int
  mi_base :: scope_head
  mi_epoch :: string
  mi_clusterScope :: string
  mi_activeScope :: "string option"
  mi_actorName :: "string option"
  mi_apikeyId :: "string option"
  mi_roster_hidden :: bool
  mi_exclusive :: bool
  mi_stampGuestCustomerOf :: bool
  mi_closing :: "session_closing option"

text \<open>\<open>x ? { name: x } : {}\<close> for an optional string: absent or empty adds nothing.\<close>

definition truthy_text :: "string \<Rightarrow> string option \<Rightarrow> (string \<times> json) list" where
  "truthy_text name v = (case v of Some s \<Rightarrow> if s = [] then [] else [(name, JStr s)] | None \<Rightarrow> [])"

definition mint_expiry :: "mint_input \<Rightarrow> int" where
  "mint_expiry i = (if mi_closing i \<noteq> None then mi_now i + 250 else mi_now i + mi_ttl_ms i)"

definition mint_value :: "mint_input \<Rightarrow> json" where
  "mint_value i = JObj ([(''id'', JStr (mi_session i)), (''actor'', JStr (mi_actor i)), (''started'', JNum (mi_now i)),
       (''expiresAt'', JNum (mint_expiry i)),
       (''activeScope'', if mi_closing i \<noteq> None then JNull else json_of_ref (mi_activeScope i))]
     @ (if mi_closing i = None then truthy_text ''apikeyId'' (mi_apikeyId i) else [])
     @ (if mi_closing i = None \<and> mi_roster_hidden i then [(''rosterVisible'', JBool False)] else [])
     @ (case mi_closing i of
          Some cl \<Rightarrow> if sg_ephemeralActor cl
            then [(''ephemeralActor'', JBool True)] @ truthy_text ''retireFromScope'' (sg_priorActiveScope cl) else []
        | None \<Rightarrow> []))"

definition mint_verb :: "mint_input \<Rightarrow> string" where
  "mint_verb i = (if mi_closing i \<noteq> None then ''session_close'' else ''session_mint'')"

definition mint_label :: "mint_input \<Rightarrow> string" where
  "mint_label i = (if mi_closing i \<noteq> None then ''session-close'' else ''session-mint'')"

text \<open>The presence transition of a placed mint or of the close of a placed session.\<close>

definition nonempty :: "string option \<Rightarrow> string option" where
  "nonempty v = (case v of Some s \<Rightarrow> if s = [] then None else Some s | None \<Rightarrow> None)"

definition mint_transition :: "mint_input \<Rightarrow> scope_transition option" where
  "mint_transition i =
     (let tx = (\<lambda>from' to'. \<lparr>tx_session = mi_session i, tx_actor = mi_actor i, tx_actorName = nonempty (mi_actorName i),
                 tx_roster_hidden = mi_roster_hidden i, tx_from = from', tx_to = to'\<rparr>)
      in case mi_closing i of
           Some cl \<Rightarrow> (case nonempty (sg_priorActiveScope cl) of Some p \<Rightarrow> Some (tx (Some p) None) | None \<Rightarrow> None)
         | None \<Rightarrow> (case nonempty (mi_activeScope i) of Some sc \<Rightarrow> Some (tx None (Some sc)) | None \<Rightarrow> None))"

definition session_write :: "transcript_cell \<Rightarrow> json \<Rightarrow> write_authority \<Rightarrow> transcript_write" where
  "session_write cell v writer = \<lparr>tw_cell = cell, tw_prior = None, tw_next = None, tw_value = v, tw_op = Op_set,
     tw_builder_surface = False, tw_writer = Some writer\<rparr>"

definition mint_writes :: "mint_input \<Rightarrow> transcript_write list" where
  "mint_writes i =
     (if mi_stampGuestCustomerOf i \<and> mi_closing i = None
      then [session_write (TProp (mi_actor i) PROP_CUSTOMER_OF)
              (JObj [(''customer'', JStr GUEST_CUSTOMER_ID), (''derived_via'', JStr ''guest''), (''bound_at'', JNum (mi_now i))])
              (sessionWriter (mi_actor i) ''session_mint'')]
      else [])
     @ [session_write (TSession (mi_session i)) (mint_value i) (sessionWriter (mi_actor i) (mint_verb i))]"

text \<open>The transcript body as it is hashed; \<open>body: undefined\<close> of the call is not serialized.\<close>

definition writer_json :: "write_authority \<Rightarrow> json" where
  "writer_json w = JObj [(''progr'', JStr (wa_progr w)), (''thisObj'', JStr (wa_thisObj w)), (''verb'', JStr (wa_verb w)),
     (''definer'', JStr (wa_definer w)), (''caller'', JStr (wa_caller w)), (''callerPerms'', JStr (wa_callerPerms w))]"

fun mint_cell_json :: "transcript_cell \<Rightarrow> json" where
  "mint_cell_json (TProp obj nm) = JObj [(''kind'', JStr ''prop''), (''object'', JStr obj), (''name'', JStr nm)]"
| "mint_cell_json (TSession obj) = JObj [(''kind'', JStr ''session''), (''object'', JStr obj)]"
| "mint_cell_json _ = JNull"

definition mint_write_json :: "transcript_write \<Rightarrow> json" where
  "mint_write_json w = JObj ([(''cell'', mint_cell_json (tw_cell w)), (''value'', tw_value w), (''op'', JStr ''set'')]
     @ present ''writer'' (map_option writer_json (tw_writer w)))"

definition transition_json :: "scope_transition \<Rightarrow> json" where
  "transition_json tx = JObj ([(''session'', JStr (tx_session tx)), (''actor'', JStr (tx_actor tx))]
     @ present ''actorName'' (map_option JStr (tx_actorName tx))
     @ (if tx_roster_hidden tx then [(''rosterVisible'', JBool False)] else [])
     @ [(''from'', json_of_ref (tx_from tx)), (''to'', json_of_ref (tx_to tx))])"

definition mint_body_json :: "mint_input \<Rightarrow> json" where
  "mint_body_json i = JObj ([(''kind'', JStr ''woo.effect_transcript.shadow.v1''),
       (''id'', JStr (mint_label i @ '':'' @ mi_session i)), (''route'', JStr ''direct''), (''scope'', JStr (mi_clusterScope i)),
       (''seq'', JNum 0), (''session'', JStr (mi_session i)),
       (''call'', JObj [(''actor'', JStr (mi_actor i)), (''target'', JStr (mi_actor i)), (''verb'', JStr (mint_verb i)), (''args'', JArr [])])]
     @ present ''sessionScopeTransition'' (map_option transition_json (mint_transition i))
     @ (if mi_exclusive i then [(''exclusiveMint'', JBool True)] else [])
     @ (if mi_closing i \<noteq> None then [(''sessionClose'', JBool True)] else [])
     @ [(''reads'', JArr []), (''writes'', JArr (map mint_write_json (mint_writes i))), (''creates'', JArr []), (''moves'', JArr []),
        (''observations'', JArr []), (''logicalInputs'', JArr []), (''untrackedEffects'', JArr []), (''complete'', JBool True),
        (''incompleteReasons'', JArr [])])"

definition mint_transcript :: "mint_input \<Rightarrow> transcript" where
  "mint_transcript i = \<lparr>t_failureEffectsGeneration = None, t_id = Some (mint_label i @ '':'' @ mi_session i), t_route = Direct,
     t_scope = mi_clusterScope i, t_space = None, t_seq = 0, t_session = Some (mi_session i),
     t_call = \<lparr>tk_actor = mi_actor i, tk_target = mi_actor i, tk_verb = mint_verb i, tk_verb_definer = None, tk_verb_slot = None,
       tk_args = [], tk_body = None\<rparr>,
     t_reads = [], t_stateProbes = [], t_writes = mint_writes i, t_creates = [], t_moves = [], t_recycles = [], t_schedules = [],
     t_cancellations = [], t_sessionScopeTransition = mint_transition i, t_projectionWrites = [], t_observations = [],
     t_logicalInputs = [], t_untrackedEffects = [], t_result = None, t_error = None, t_complete = True, t_incompleteReasons = [],
     t_hash = cellVersion (mint_body_json i), t_exclusiveMint = mi_exclusive i, t_sessionClose = (mi_closing i \<noteq> None),
     t_orderingReads = [], t_replayReads = [], t_principal = None, t_trace = None, t_extra = []\<rparr>"

text \<open>\<open>None\<close> is the thrown plain error: a mint without a positive lifetime.\<close>

definition mintSessionSubmit :: "mint_input \<Rightarrow> (net_error + commit_submit \<times> json) option" where
  "mintSessionSubmit i =
     (if mi_closing i = None \<and> mi_ttl_ms i \<le> 0 then None
      else let stamp = \<lparr>scope_head = ''planner'', catalog_epoch = mi_epoch i\<rparr> in
        Some (case applyTranscript (newStore Authority) (mint_transcript i) stamp of
          Inl e \<Rightarrow> Inl e
        | Inr applied \<Rightarrow> Inr (\<lparr>cs_scope = mi_clusterScope i, cs_base = mi_base i,
            cs_idempotency_key = mint_label i @ '':'' @ mi_session i @ '':'' @ show_int (mint_expiry i),
            cs_transcript = mint_transcript i, cs_post_state_version = ar_postStateVersion applied, cs_stamp = stamp,
            cs_owned_reads_compacted = False, cs_replay_result = None, cs_replay_result_omitted = False,
            cs_request_fingerprint = None, cs_retry_receipt = False, cs_attestations = []\<rparr>, mint_value i)))"

section \<open>Authorization\<close>

text \<open>
  What the scope's shell provides: ownership, the owned cell's value, the room's presence checkpoint
  (value and version) where there is one, the clock, and the occupancy witness where there is one.
\<close>

record session_deps =
  dp_ownsSession :: "string \<Rightarrow> bool"
  dp_readSession :: "string \<Rightarrow> json option"
  dp_readProjectedSession :: "(string \<Rightarrow> (json \<times> string) option) option"
  dp_now :: int
  dp_sessionsForActor :: "(string \<Rightarrow> (string \<times> json) list) option"

text \<open>\<open>String(err)\<close> of a \<open>SessionAuthError\<close> and its detail.\<close>

definition auth_error :: "string \<Rightarrow> detail \<Rightarrow> string \<times> detail" where
  "auth_error message det = (''SessionAuthError: '' @ message, det)"

definition auth_refuse :: "string \<Rightarrow> string \<Rightarrow> detail \<Rightarrow> string \<times> detail" where
  "auth_refuse session verdict extra = auth_error (''session '' @ session @ '': '' @ verdict)
     ([(''session'', JStr session), (''session_verdict'', JStr verdict)] @ extra)"

fun session_of_cell :: "transcript_cell \<Rightarrow> string option" where
  "session_of_cell (TSession i) = Some i"
| "session_of_cell _ = None"

definition session_reads :: "transcript \<Rightarrow> transcript_read list" where
  "session_reads t = filter (\<lambda>r. session_of_cell (tr_cell r) \<noteq> None) (t_reads t)"

definition session_ids :: "transcript \<Rightarrow> string list" where
  "session_ids t = (let ids = remdups (List.map_filter (session_of_cell \<circ> tr_cell) (t_reads t))
     in case t_session t of Some i \<Rightarrow> if i \<noteq> [] then js_add i ids else ids | None \<Rightarrow> ids)"

definition mint_map :: "transcript \<Rightarrow> (string, transcript_write) jsmap" where
  "mint_map t = fold (\<lambda>w m. case session_of_cell (tw_cell w) of
      Some i \<Rightarrow> if tw_op w \<noteq> Op_remove then jm_set i w m else m | None \<Rightarrow> m) (t_writes t) []"

definition source_detail :: "string \<Rightarrow> detail" where
  "source_detail src = [(''source'', JStr src)]"

text \<open>A verdict as a refusal; \<open>None\<close> lets the session pass.\<close>

definition require_ok :: "string \<Rightarrow> session_verdict \<Rightarrow> string \<Rightarrow> (string \<times> detail) option" where
  "require_ok i verdict src = (if verdict = S_ok then None else Some (auth_refuse i (verdict_name verdict) (source_detail src)))"

definition close_refusal :: "session_deps \<Rightarrow> transcript \<Rightarrow> string \<Rightarrow> json \<Rightarrow> (string \<times> detail) option" where
  "close_refusal deps t i v =
     (let actor = tk_actor (t_call t); now = dp_now deps in
      if length (session_ids t) \<noteq> 1 \<or> length (mint_map t) \<noteq> 1 \<or> t_session t \<noteq> Some i \<or> \<not> dp_ownsSession deps i
      then Some (auth_refuse i ''close_invalid'' (source_detail ''close_shape''))
      else case require_ok i (validateSessionCell (dp_readSession deps i) now (Some actor)) ''close_owned_cell'' of
        Some e \<Rightarrow> Some e
      | None \<Rightarrow>
          if jprop (Some v) ''id'' = Some (JStr i) \<and> jprop (Some v) ''actor'' = Some (JStr actor)
            \<and> jprop (Some v) ''activeScope'' = Some JNull
            \<and> (case jnum (jprop (Some v) ''expiresAt'') of Some e \<Rightarrow> e \<le> now + 5000 | None \<Rightarrow> False)
          then None else Some (auth_refuse i ''close_invalid'' (source_detail ''close_write'')))"

definition exclusive_refusal :: "session_deps \<Rightarrow> transcript \<Rightarrow> string \<Rightarrow> (string \<times> detail) option" where
  "exclusive_refusal deps t i =
     (if \<not> t_exclusiveMint t then None
      else case dp_sessionsForActor deps of
        None \<Rightarrow> Some (auth_refuse i ''actor_occupied'' (source_detail ''exclusive_mint'' @ [(''reason'', JStr ''no_occupancy_witness'')]))
      | Some f \<Rightarrow>
          if list_ex (\<lambda>(sid, v). sid \<noteq> i \<and> validateSessionCell (Some v) (dp_now deps) None = S_ok) (f (tk_actor (t_call t)))
          then Some (auth_refuse i ''actor_occupied'' (source_detail ''exclusive_mint'')) else None)"

definition projected_session :: "session_deps \<Rightarrow> string \<Rightarrow> (json \<times> string) option" where
  "projected_session deps i = (case dp_readProjectedSession deps of Some f \<Rightarrow> f i | None \<Rightarrow> None)"

definition read_of_session :: "transcript \<Rightarrow> string \<Rightarrow> transcript_read option" where
  "read_of_session t i = find (\<lambda>r. session_of_cell (tr_cell r) = Some i) (t_reads t)"

text \<open>One session: a refusal, or the projected reads it adds.\<close>

definition authorize_mint ::
    "commit_submit \<Rightarrow> session_deps \<Rightarrow> string \<Rightarrow> json \<Rightarrow> (string \<times> detail) + (string \<times> string) option" where
  "authorize_mint sub deps i v =
     (let t = cs_transcript sub; actor = tk_actor (t_call t); now = dp_now deps in
      if t_sessionClose t
      then (case close_refusal deps t i v of Some e \<Rightarrow> Inl e | None \<Rightarrow> Inr None)
      else case require_ok i (validateSessionCell (Some v) now (Some actor)) ''mint_write'' of
        Some e \<Rightarrow> Inl e
      | None \<Rightarrow> (case exclusive_refusal deps t i of
          Some e \<Rightarrow> Inl e
        | None \<Rightarrow>
            if dp_ownsSession deps i then Inr None
            else case read_of_session t i of
              None \<Rightarrow> Inr None
            | Some r \<Rightarrow>
                if tr_version r = None \<or> jm_has (attested_cells sub) (sessionCellKey i) then Inr None
                else case projected_session deps i of
                  None \<Rightarrow> Inr None
                | Some (pv, version) \<Rightarrow>
                    (case require_ok i (validateSessionCell (Some pv) now (Some actor)) ''room_presence_projection'' of
                       Some e \<Rightarrow> Inl e
                     | None \<Rightarrow> Inr (Some (sessionCellKey i, version)))))"

definition authorize_foreign ::
    "commit_submit \<Rightarrow> session_deps \<Rightarrow> string \<Rightarrow> (string \<times> detail) + (string \<times> string) option" where
  "authorize_foreign sub deps i =
     (let t = cs_transcript sub; actor = tk_actor (t_call t); now = dp_now deps;
          read = read_of_session t i; attestedVersion = jm_get (attested_cells sub) (sessionCellKey i);
          projected = (if attestedVersion = None then projected_session deps i else None)
      in case projected of
           Some (pv, version) \<Rightarrow>
             if read = None
             then Inl (auth_refuse i ''session_unattested'' [(''has_read'', JBool False), (''has_projection'', JBool True)])
             else (case require_ok i (validateSessionCell (Some pv) now (Some actor)) ''room_presence_projection'' of
                 Some e \<Rightarrow> Inl e
               | None \<Rightarrow> Inr (Some (sessionCellKey i, version)))
         | None \<Rightarrow> (case (read, attestedVersion) of
             (Some r, Some av) \<Rightarrow>
               if tr_version r \<noteq> Some av then Inr None
               else (case require_ok i (validateSessionCell (Some (tr_value r)) now (Some actor)) ''attested_read'' of
                   Some e \<Rightarrow> Inl e
                 | None \<Rightarrow> Inr None)
           | _ \<Rightarrow> Inl (auth_refuse i ''session_unattested''
               [(''has_read'', JBool (read \<noteq> None)), (''has_attestation'', JBool (attestedVersion \<noteq> None))])))"

definition authorize_one ::
    "commit_submit \<Rightarrow> session_deps \<Rightarrow> string \<Rightarrow> (string \<times> detail) + (string \<times> string) option" where
  "authorize_one sub deps i = (case jm_get (mint_map (cs_transcript sub)) i of
      Some w \<Rightarrow> authorize_mint sub deps i (tw_value w)
    | None \<Rightarrow>
        if dp_ownsSession deps i
        then (case require_ok i (validateSessionCell (dp_readSession deps i) (dp_now deps) (Some (tk_actor (t_call (cs_transcript sub))))) ''owned_cell'' of
            Some e \<Rightarrow> Inl e
          | None \<Rightarrow> Inr None)
        else authorize_foreign sub deps i)"

fun authorize_ids ::
    "commit_submit \<Rightarrow> session_deps \<Rightarrow> string list \<Rightarrow> (string, string) jsmap \<Rightarrow> (string \<times> detail) + (string, string) jsmap" where
  "authorize_ids sub deps [] projected = Inr projected"
| "authorize_ids sub deps (i # ids) projected = (case authorize_one sub deps i of
      Inl e \<Rightarrow> Inl e
    | Inr None \<Rightarrow> authorize_ids sub deps ids projected
    | Inr (Some (key, version)) \<Rightarrow> authorize_ids sub deps ids (jm_set key version projected))"

definition authorizeSessionSubmit :: "commit_submit \<Rightarrow> session_deps \<Rightarrow> (string \<times> detail) + (string, string) jsmap" where
  "authorizeSessionSubmit sub deps =
     (let t = cs_transcript sub in
      if session_ids t = []
      then (if t_route t = Direct then Inr []
            else Inl (auth_error ''sequenced turn names no session''
              [(''session_verdict'', JStr ''session_required''), (''route'', JStr ''sequenced'')]))
      else authorize_ids sub deps (sort (session_ids t)) [])"

end
