(* ===== verification/Scope_Ops.thy ===== *)
theory Scope_Ops
  imports Sessions
begin

text \<open>
  The operations of a \<open>ScopeSequencer\<close> (\<open>src/net/scope.ts\<close>) other than \<open>submit\<close> and the schedule queue:
  seeding, the signed operator writes, rider adoption, session reaping, foreign relation delivery
  and the bounded repair of derived rows. The sequencer's store is an authority store, so the
  commits below cannot be refused (\<^const>\<open>put_cell\<close>).
\<close>

section \<open>Shared steps\<close>

type_synonym cell_input = "cell_kind \<times> string \<times> string option \<times> json"

fun input_key :: "cell_input \<Rightarrow> string" where
  "input_key (k, obj, nm, v) = cellKey k obj nm"

fun commit_input :: "epoch_stamp \<Rightarrow> cell_input \<Rightarrow> cell" where
  "commit_input stamp (k, obj, nm, v) = makeCell k obj nm v Authoritative stamp"

fun put_input :: "epoch_stamp \<Rightarrow> cell_input \<Rightarrow> cell_store \<Rightarrow> cell_store" where
  "put_input stamp (k, obj, nm, v) st = put_cell k obj nm v stamp st"

text \<open>\<open>{ ...head, generation: generation + 1 }\<close>: a write that leaves the sequenced head in place.\<close>

definition bump_generation :: "scope_head \<Rightarrow> scope_head" where
  "bump_generation h = h\<lparr>sh_generation := Some (head_generation h + 1)\<rparr>"

text \<open>An owner-sequenced event: the next head under a marker and its tail entry.\<close>

definition owner_event :: "string \<Rightarrow> string list \<Rightarrow> sequencer \<Rightarrow> tail_entry \<times> sequencer" where
  "owner_event marker touched s =
     (let next = next_head (sq_headState s) marker; entry = tail_entry_of (sq_headState s) next marker touched
      in (entry, push_tail entry (s\<lparr>sq_headState := next\<rparr>)))"

text \<open>The meta and tail rows of an owner event.\<close>

definition durable_event :: "sequencer \<Rightarrow> tail_entry \<Rightarrow> scope_store \<Rightarrow> scope_store" where
  "durable_event s entry d = durable_tail (so_tailLimit (sq_options s)) entry (writeMeta (metaRow s) d)"

section \<open>Seeding and activation\<close>

definition replace_verifiers :: "(string, api_key_verifier_row) jsmap \<Rightarrow> scope_store \<Rightarrow> scope_store" where
  "replace_verifiers m d =
     fold (\<lambda>(key, row). writeApiKeyVerifier key row) m
       (fold (\<lambda>row. deleteApiKeyVerifier (apiKeyVerifierKey (vk_actor row) (vk_id row))) (jm_values (ds_apiKeyVerifiers d)) d)"

definition replace_relations :: "(string, relation_row) jsmap \<Rightarrow> scope_store \<Rightarrow> scope_store" where
  "replace_relations m d =
     fold (\<lambda>(key, row). writeRelation key row) m
       (fold (\<lambda>row. deleteRelation (row_relation_key row)) (jm_values (ds_relations d)) d)"

definition seed_relations :: "relation_row list option \<Rightarrow> sequencer \<Rightarrow> sequencer" where
  "seed_relations relations s = (case relations of
      None \<Rightarrow> s
    | Some rows \<Rightarrow>
        let m = fold (\<lambda>row m. jm_set (row_relation_key row) row m) rows []
        in syncOrderedRelationIndex (jm_keys m) (s\<lparr>sq_relationRows := m, sq_orderedRelationsByProjection := [],
             sq_orderedRelationLocationByKey := []\<rparr>))"

definition seed :: "cell_input list \<Rightarrow> relation_row list option \<Rightarrow> scope_attribution option \<Rightarrow> sequencer \<Rightarrow> net_error + sequencer" where
  "seed cells relations attr s =
     (if sh_seq (sq_headState s) > 0
      then Inl (netError E_SEED_COMMITTED ''scope has committed turns; a re-seed would reset authoritative state'')
      else
        let s1 = s\<lparr>sq_nextObjectCounter := None, sq_headState := bump_generation (sq_headState s),
                   sq_attribution := (if attr \<noteq> None then attr else sq_attribution s)\<rparr>;
            seeded = map (commit_input (sq_stamp s1)) cells;
            s2 = s1\<lparr>sq_store := fold (put_input (sq_stamp s1)) cells (sq_store s1),
                    sq_apiKeyVerifiers := fold (\<lambda>(key, row) m. jm_set key row m) (rebuildApiKeyVerifierIndex seeded) []\<rparr>;
            s3 = seed_relations relations s2
        in Inr (on_durable (\<lambda>d. writeMeta (metaRow s3)
             (replace_verifiers (sq_apiKeyVerifiers s3)
               ((if relations \<noteq> None then replace_relations (sq_relationRows s3) else id)
                 (fold writeCell seeded d)))) s3))"

definition operatorActivationWrite :: "string option \<Rightarrow> sequencer \<Rightarrow> sequencer" where
  "operatorActivationWrite activeEpoch s =
     (let s1 = s\<lparr>sq_headState := bump_generation (sq_headState s)\<rparr>;
          input = (Property_cell, ''$system'', Some ''net_active_epoch'', JObj [(''value'', json_of_ref activeEpoch)]);
          s2 = s1\<lparr>sq_store := put_input (sq_stamp s1) input (sq_store s1)\<rparr>
      in on_durable (\<lambda>d. writeMeta (metaRow s2) (writeCell (commit_input (sq_stamp s1) input) d)) s2)"

section \<open>Operator repairs\<close>

record repair_result =
  op_applied :: bool
  op_head :: scope_head
  op_cells :: "cell list"
  op_removed :: "string list"

fun input_json :: "cell_input \<Rightarrow> json" where
  "input_json (k, obj, nm, v) = JArr [JStr (kind_name k), JStr obj, json_of_ref nm, v]"

definition input_changed :: "cell_store \<Rightarrow> cell_input \<Rightarrow> bool" where
  "input_changed st c = (case c of (k, obj, nm, v) \<Rightarrow>
     map_option c_version (store_get st (cellKey k obj nm)) \<noteq> Some (cellVersion v))"

definition input_credential_actors :: "cell_input list \<Rightarrow> string list" where
  "input_credential_actors cells = remdups (List.map_filter (\<lambda>(k, obj, nm, v).
     if k = Property_cell \<and> nm = Some ACTOR_API_KEYS_PROPERTY \<and> obj \<noteq> ''$system'' then Some obj else None) cells)"

text \<open>Re-indexing actors from the sequencer's own store.\<close>

definition reindex_own :: "string list \<Rightarrow> sequencer \<Rightarrow> string list \<times> sequencer" where
  "reindex_own actors s = fold (reindex_actor (sq_store s)) actors ([], s)"

definition orderedOperatorRepair ::
    "string \<Rightarrow> cell_input list \<Rightarrow> (cell_kind \<times> string \<times> string option) list \<Rightarrow> sequencer \<Rightarrow> repair_result \<times> sequencer" where
  "orderedOperatorRepair label cells removals s =
     (let changed = filter (input_changed (sq_store s)) cells;
          removed = filter (store_has (sq_store s)) (map (\<lambda>(k, obj, nm). cellKey k obj nm) removals)
      in if changed = [] \<and> removed = []
         then (\<lparr>op_applied = False, op_head = sq_headState s, op_cells = [], op_removed = []\<rparr>, s)
         else
           let marker = label @ '':'' @ cellVersion (JObj [(''replacements'', JArr (map input_json changed)),
                          (''removals'', JArr (map JStr removed))]);
               stamp = stamp_of (next_head (sq_headState s) marker) (sq_catalogEpoch s);
               committed = map (commit_input stamp) changed;
               s1 = s\<lparr>sq_store := fold store_delete removed (fold (put_input stamp) changed (sq_store s))\<rparr>;
               (verifierKeys, s2) = reindex_own (input_credential_actors changed) s1;
               (entry, s3) = owner_event marker (sort (map c_key committed @ removed)) s2
           in (\<lparr>op_applied = True, op_head = sq_headState s3, op_cells = committed, op_removed = removed\<rparr>,
               on_durable (\<lambda>d. durable_verifiers verifierKeys (sq_apiKeyVerifiers s3)
                 (durable_event s3 entry (fold deleteCell removed (fold writeCell committed d)))) s3))"

definition operatorRepairDefinitions ::
    "cell_input list \<Rightarrow> (cell_kind \<times> string \<times> string option) list \<Rightarrow> sequencer \<Rightarrow> repair_result \<times> sequencer" where
  "operatorRepairDefinitions cells removals s = orderedOperatorRepair ''operator_definition_repair'' cells removals s"

definition operatorRepairSeedProperties :: "cell_input list \<Rightarrow> sequencer \<Rightarrow> repair_result \<times> sequencer" where
  "operatorRepairSeedProperties cells s = orderedOperatorRepair ''operator_seed_property_repair'' cells [] s"

definition operatorRepairAccountState :: "cell_input list \<Rightarrow> sequencer \<Rightarrow> repair_result \<times> sequencer" where
  "operatorRepairAccountState cells s = orderedOperatorRepair ''operator_account_state_repair'' cells [] s"

definition operatorRepairVerbSlots :: "cell_input list \<Rightarrow> sequencer \<Rightarrow> repair_result \<times> sequencer" where
  "operatorRepairVerbSlots cells s = orderedOperatorRepair ''operator_verb_slot_repair'' cells [] s"

section \<open>Credential bootstrap\<close>

record credential_result =
  ce_applied :: bool
  ce_head :: scope_head
  ce_cell :: cell
  ce_verifier :: api_key_verifier_row

definition MAX_SAFE_INTEGER :: int where
  "MAX_SAFE_INTEGER = 2 ^ 53 - 1"

text \<open>The closed verifier record: exactly its five fields, each of its form.\<close>

definition credential_record_ok :: "string \<Rightarrow> (string \<times> json) list \<Rightarrow> bool" where
  "credential_record_ok actor record \<longleftrightarrow>
     length record = 5 \<and> list_all (\<lambda>k. k \<in> {''actor'', ''created_at'', ''hash'', ''label'', ''salt''}) (map fst record)
   \<and> map_of record ''actor'' = Some (JStr actor)
   \<and> (case map_of record ''hash'' of Some (JStr h) \<Rightarrow> length h = 64 \<and> is_lower_hex h | _ \<Rightarrow> False)
   \<and> (case map_of record ''salt'' of Some (JStr h) \<Rightarrow> length h = 32 \<and> is_lower_hex h | _ \<Rightarrow> False)
   \<and> (case map_of record ''created_at'' of Some (JNum n) \<Rightarrow> 0 \<le> n \<and> n \<le> MAX_SAFE_INTEGER | _ \<Rightarrow> False)
   \<and> (case map_of record ''label'' of Some JNull \<Rightarrow> True | Some (JStr l) \<Rightarrow> length (utf8Encode l) \<le> 256 | _ \<Rightarrow> False)"

definition ensure_credential ::
    "string \<Rightarrow> string \<Rightarrow> (string \<times> json) list \<Rightarrow> (string \<times> json) list \<Rightarrow> (string \<times> json) list \<Rightarrow> api_key_verifier_row
     \<Rightarrow> sequencer \<Rightarrow> (net_error + credential_result) \<times> sequencer" where
  "ensure_credential actor i rcd priorPayload priorMap verifier s =
     (let marker = ''operator_credential_ensure:'' @ cellVersion (JObj [(''actor'', JStr actor), (''id'', JStr i), (''record'', JObj rcd)]);
          stamp = stamp_of (next_head (sq_headState s) marker) (sq_catalogEpoch s);
          input = (Property_cell, actor, Some ACTOR_API_KEYS_PROPERTY,
            JObj (present ''def'' (map_of priorPayload ''def'') @ [(''value'', JObj (AList.update i (JObj rcd) priorMap))]));
          c = commit_input stamp input;
          s1 = s\<lparr>sq_store := put_input stamp input (sq_store s),
                 sq_apiKeyVerifiers := jm_set (apiKeyVerifierKey actor i) verifier (sq_apiKeyVerifiers s)\<rparr>;
          (entry, s2) = owner_event marker [c_key c] s1
      in (Inr \<lparr>ce_applied = True, ce_head = sq_headState s2, ce_cell = c, ce_verifier = verifier\<rparr>,
          on_durable (\<lambda>d. durable_event s2 entry (writeApiKeyVerifier (apiKeyVerifierKey actor i) verifier (writeCell c d))) s2))"

definition operatorEnsureCredential ::
    "string \<Rightarrow> string \<Rightarrow> (string \<times> json) list \<Rightarrow> sequencer \<Rightarrow> (net_error + credential_result) \<times> sequencer" where
  "operatorEnsureCredential actor i rcd s =
     (let key = cellKey Property_cell actor (Some ACTOR_API_KEYS_PROPERTY);
          priorCell = store_get (sq_store s) key;
          priorPayload = object_of (map_option c_value priorCell);
          priorMap = object_of (map_of priorPayload ''value'');
          existing = map_of priorMap i;
          verifier = \<lparr>vk_actor = actor, vk_id = i, vk_record = JObj rcd\<rparr>;
          verifierId = apiKeyVerifierKey actor i
      in if (case parseRoutedApiKeyId i of Some routed \<Rightarrow> rk_actor routed \<noteq> code_units actor | None \<Rightarrow> True)
            \<or> routedApiKeyScope i \<noteq> Some (code_units (sq_scope s)) \<or> \<not> credential_record_ok actor rcd
         then (Inl (netError E_INVARG ''credential ensure record or routing hint is invalid''), s)
         else if \<not> store_has (sq_store s) (cellKey Object_lineage actor None)
         then (Inl (netError E_MISSING_STATE ''credential actor is not authoritative at this scope''), s)
         else if (case so_scopeOf (sq_options s) of Some f \<Rightarrow> f actor \<noteq> sq_scope s | None \<Rightarrow> False)
         then (Inl (netError E_INVARG ''credential actor belongs to a different authority scope''), s)
         else if (case existing of Some e \<Rightarrow> cellVersion e \<noteq> cellVersion (JObj rcd) | None \<Rightarrow> False)
         then (Inl (netError E_INVARG ''credential id is already bound to a different verifier''), s)
         else case (existing, jm_get (sq_apiKeyVerifiers s) verifierId, priorCell) of
           (Some _, Some ev, Some pc) \<Rightarrow>
             if cellVersion (verifier_json ev) = cellVersion (verifier_json verifier)
             then (Inr \<lparr>ce_applied = False, ce_head = sq_headState s, ce_cell = pc, ce_verifier = verifier\<rparr>, s)
             else ensure_credential actor i rcd priorPayload priorMap verifier s
         | _ \<Rightarrow> ensure_credential actor i rcd priorPayload priorMap verifier s)"


section \<open>Rider adoption\<close>

record adopt_input =
  ai_from_scope :: string
  ai_seq :: int
  ai_cells :: "cell list"
  ai_removed :: "string list"
  ai_priors :: "(string, string) jsmap"

record adopt_conflict =
  co_key :: string
  co_ours :: string
  co_theirs :: string

datatype adopt_status = Adopt_applied | Adopt_empty | Adopt_rejected

record adopt_result =
  ad_status :: adopt_status
  ad_head :: scope_head
  ad_applied :: "string list"
  ad_conflicts :: "adopt_conflict list"
  ad_detail :: detail

text \<open>\<open>key.split(":")[1] ?? ""\<close>.\<close>

definition key_object :: "string \<Rightarrow> string" where
  "key_object key = (case split_on (CHR '':'') key of _ # obj # _ \<Rightarrow> obj | _ \<Rightarrow> [])"

definition adopt_mutations :: "sequencer \<Rightarrow> adopt_input \<Rightarrow> (string, string list) jsmap" where
  "adopt_mutations s input = (case so_catalogMutationForbidden (sq_options s) of
      None \<Rightarrow> []
    | Some forbidden \<Rightarrow>
        fold (\<lambda>key m. if key_object key \<noteq> [] \<and> forbidden (key_object key) then add_mutation (key_object key) key m else m)
          (ai_removed input)
          (fold (\<lambda>c m. if c_kind c \<in> {Object_lineage, Property_cell, Verb_bytecode} \<and> forbidden (c_object c)
                 then add_mutation (c_object c) (c_key c) m else m) (ai_cells input) []))"

text \<open>The claimed prior version of a key disagrees with the owner's current one.\<close>

definition adopt_stale :: "sequencer \<Rightarrow> adopt_input \<Rightarrow> string \<Rightarrow> bool" where
  "adopt_stale s input key = (case jm_get (ai_priors input) key of
      Some prior \<Rightarrow> prior \<noteq> current_version (sq_store s) key | None \<Rightarrow> False)"

definition adopt_cells :: "sequencer \<Rightarrow> adopt_input \<Rightarrow> cell list" where
  "adopt_cells s input = filter (\<lambda>c. \<not> adopt_stale s input (c_key c)) (ai_cells input)"

definition adopt_removals :: "sequencer \<Rightarrow> adopt_input \<Rightarrow> string list" where
  "adopt_removals s input = filter (\<lambda>key. \<not> adopt_stale s input key \<and> current_version (sq_store s) key \<noteq> ''absent'') (ai_removed input)"

definition adopt_conflicts :: "sequencer \<Rightarrow> adopt_input \<Rightarrow> adopt_conflict list" where
  "adopt_conflicts s input =
     map (\<lambda>c. \<lparr>co_key = c_key c, co_ours = current_version (sq_store s) (c_key c), co_theirs = c_version c\<rparr>)
       (filter (\<lambda>c. adopt_stale s input (c_key c)) (ai_cells input))
     @ map (\<lambda>key. \<lparr>co_key = key, co_ours = current_version (sq_store s) key, co_theirs = ''absent''\<rparr>)
       (filter (adopt_stale s input) (ai_removed input))"

definition cell_as_input :: "cell \<Rightarrow> cell_input" where
  "cell_as_input c = (c_kind c, c_object c, c_name c, c_value c)"

definition CREDENTIAL_SUFFIX :: string where
  "CREDENTIAL_SUFFIX = '':'' @ ACTOR_API_KEYS_PROPERTY"

definition ends_with :: "string \<Rightarrow> string \<Rightarrow> bool" where
  "ends_with suffix s = starts_with (rev suffix) (rev s)"

text \<open>The actor whose credential cell a removed key names.\<close>

definition removed_credential_actor :: "string \<Rightarrow> string option" where
  "removed_credential_actor key =
     (let actor = drop (length ''property_cell:'') (take (length key - length CREDENTIAL_SUFFIX) key)
      in if starts_with ''property_cell:'' key \<and> ends_with CREDENTIAL_SUFFIX key \<and> actor \<noteq> [] \<and> actor \<noteq> ''$system''
         then Some actor else None)"

definition adopt :: "adopt_input \<Rightarrow> sequencer \<Rightarrow> adopt_result \<times> sequencer" where
  "adopt input s =
     (let mutations = adopt_mutations s input; accepted = adopt_cells s input; removals = adopt_removals s input;
          conflicts = adopt_conflicts s input
      in if mutations \<noteq> []
         then (\<lparr>ad_status = Adopt_rejected, ad_head = sq_headState s, ad_applied = [], ad_conflicts = [], ad_detail = mutation_detail mutations\<rparr>, s)
         else if accepted = [] \<and> removals = []
         then (\<lparr>ad_status = Adopt_empty, ad_head = sq_headState s, ad_applied = [], ad_conflicts = conflicts, ad_detail = []\<rparr>, s)
         else
           let marker = ''adopt:'' @ ai_from_scope input @ '':'' @ show_int (ai_seq input);
               stamp = stamp_of (next_head (sq_headState s) marker) (sq_catalogEpoch s);
               inputs = map cell_as_input accepted;
               applied = sort (map input_key inputs @ removals);
               s1 = s\<lparr>sq_store := fold store_delete removals (fold (put_input stamp) inputs (sq_store s))\<rparr>;
               actors = fold js_add (List.map_filter removed_credential_actor removals) (input_credential_actors inputs);
               (verifierKeys, s2) = reindex_own actors s1;
               (entry, s3) = owner_event marker applied s2
           in (\<lparr>ad_status = Adopt_applied, ad_head = sq_headState s3, ad_applied = applied, ad_conflicts = conflicts, ad_detail = []\<rparr>,
               on_durable (\<lambda>d. durable_verifiers verifierKeys (sq_apiKeyVerifiers s3)
                 (durable_event s3 entry (durable_cells applied (sq_store s3) d))) s3))"

section \<open>Session reaping\<close>

record reaped_session =
  ra_session :: string
  ra_actor :: "string option"
  ra_activeScope :: "string option"
  ra_retiredActor :: bool

record reap_result =
  rp_applied :: bool
  rp_head :: scope_head
  rp_reaped :: "reaped_session list"
  rp_localRemovals :: "relation_delta list"

definition session_cells :: "sequencer \<Rightarrow> string list \<Rightarrow> cell list" where
  "session_cells s keys = List.map_filter (store_get (sq_store s)) (filter (starts_with ''session:'') keys)"

definition live_actors :: "int \<Rightarrow> sequencer \<Rightarrow> string list" where
  "live_actors now s = List.map_filter (\<lambda>c. if validateSessionCell (Some (c_value c)) now None = S_ok
     then jstr (jprop (Some (c_value c)) ''actor'') else None) (session_cells s (store_keys (sq_store s)))"

definition reaped_of :: "string list \<Rightarrow> cell \<Rightarrow> reaped_session" where
  "reaped_of live c =
     (let v = Some (c_value c); actor = jstr (jprop v ''actor'') in
      \<lparr>ra_session = c_object c, ra_actor = actor,
       ra_activeScope = (case jstr_nonempty (jprop v ''activeScope'') of Some sc \<Rightarrow> Some sc
         | None \<Rightarrow> jstr_nonempty (jprop v ''retireFromScope'')),
       ra_retiredActor = (jprop v ''ephemeralActor'' = Some (JBool True) \<and> actor \<noteq> None \<and> the actor \<notin> set live)\<rparr>)"

definition expired_cells :: "int \<Rightarrow> (string \<Rightarrow> bool) \<Rightarrow> sequencer \<Rightarrow> cell list" where
  "expired_cells now ownsSession s = filter (\<lambda>c. ownsSession (c_object c) \<and> validateSessionCell (Some (c_value c)) now None = S_expired)
     (session_cells s (sort (store_keys (sq_store s))))"

text \<open>Retiring an ephemeral actor whose last session went: its live cell moves to \<open>$nowhere\<close>.\<close>

definition retire_live :: "epoch_stamp \<Rightarrow> reaped_session \<Rightarrow> string list \<times> cell_store \<Rightarrow> string list \<times> cell_store" where
  "retire_live stamp r acc = (case acc of (keys, st) \<Rightarrow>
     case (ra_retiredActor r, ra_actor r) of
       (True, Some actor) \<Rightarrow>
         (case store_get st (cellKey Object_live actor None) of
            None \<Rightarrow> (keys, st)
          | Some live \<Rightarrow> (keys @ [cellKey Object_live actor None],
              put_cell Object_live actor None (spread_set (Some (c_value live)) ''location'' (JStr ''$nowhere'')) stamp st))
     | _ \<Rightarrow> (keys, st))"

definition reap_removals :: "reaped_session list \<Rightarrow> sequencer \<Rightarrow> relation_delta list" where
  "reap_removals reaped s =
     (let ids = map ra_session reaped;
          retired = List.map_filter (\<lambda>r. case (ra_retiredActor r, ra_actor r, ra_activeScope r) of
              (True, Some a, Some sc) \<Rightarrow> Some (relationKey ''contents'' sc a) | _ \<Rightarrow> None) reaped
      in map (\<lambda>row. \<lparr>rd_op = Remove, rd_row = row\<rparr>)
           (filter (\<lambda>row. (rel_relation row = SESSION_PRESENCE_RELATION \<and> rel_member row \<in> set ids)
              \<or> (rel_relation row = ''contents'' \<and> row_relation_key row \<in> set retired)) (jm_values (sq_relationRows s))))"

definition reapExpiredSessions :: "int \<Rightarrow> (string \<Rightarrow> bool) \<Rightarrow> sequencer \<Rightarrow> reap_result \<times> sequencer" where
  "reapExpiredSessions now ownsSession s =
     (let cells = expired_cells now ownsSession s; reaped = map (reaped_of (live_actors now s)) cells; deletedKeys = map c_key cells in
      if reaped = [] then (\<lparr>rp_applied = False, rp_head = sq_headState s, rp_reaped = [], rp_localRemovals = []\<rparr>, s)
      else
        let marker = ''session_reap:'' @ cellVersion (JArr (map (JStr \<circ> ra_session) reaped));
            stamp = stamp_of (next_head (sq_headState s) marker) (sq_catalogEpoch s);
            (liveKeys, store) = fold (retire_live stamp) reaped ([], fold store_delete deletedKeys (sq_store s));
            (entry, s1) = owner_event marker (sort (deletedKeys @ liveKeys)) (s\<lparr>sq_store := store\<rparr>);
            removals = reap_removals reaped s1;
            (relationKeys, s2) = apply_relations removals s1
        in (\<lparr>rp_applied = True, rp_head = sq_headState s2, rp_reaped = reaped, rp_localRemovals = removals\<rparr>,
            on_durable (\<lambda>d. durable_relations relationKeys (sq_relationRows s2)
              (durable_event s2 entry (fold (\<lambda>key d. case store_get (sq_store s2) key of Some c \<Rightarrow> writeCell c d | None \<Rightarrow> d) liveKeys
                (fold deleteCell deletedKeys d)))) s2))"

section \<open>Foreign relations and repair\<close>

record relate_result =
  re_applied :: bool
  re_head :: scope_head
  re_changed :: "string list"

definition applyForeignRelationDeltas ::
    "relation_delta list \<Rightarrow> (string \<times> int) option \<Rightarrow> bool \<Rightarrow> sequencer \<Rightarrow> relate_result \<times> sequencer" where
  "applyForeignRelationDeltas deltas from' recordEvent s =
     (let (changed, s1) = apply_relations deltas s in
      if changed = [] \<and> \<not> recordEvent
      then (\<lparr>re_applied = False, re_head = sq_headState s1, re_changed = []\<rparr>, s1)
      else
        let marker = (if changed \<noteq> [] then ''relate'' else ''observe'') @ '':''
              @ (case from' of Some (sc, n) \<Rightarrow> sc | None \<Rightarrow> sq_scope s) @ '':''
              @ show_int (case from' of Some (sc, n) \<Rightarrow> n | None \<Rightarrow> 0);
            (entry, s2) = owner_event marker (sort changed) s1
        in (\<lparr>re_applied = True, re_head = sq_headState s2, re_changed = changed\<rparr>,
            on_durable (\<lambda>d. durable_event s2 entry (durable_relations changed (sq_relationRows s2) d)) s2))"

definition rebuilt_contents :: "sequencer \<Rightarrow> (string, relation_row) jsmap" where
  "rebuilt_contents s = filter (\<lambda>(key, row). case so_scopeOf (sq_options s) of Some f \<Rightarrow> f (rel_owner row) = sq_scope s | None \<Rightarrow> True)
     (rebuildContentsRelation (allCells (sq_store s)) (Some (sq_scope s)))"

definition rebuildRelations :: "sequencer \<Rightarrow> sequencer" where
  "rebuildRelations s =
     (let rebuilt = rebuilt_contents s;
          kept = filter (\<lambda>(key, row). \<not> (rel_relation row = ''contents'' \<and> \<not> jm_has rebuilt key)) (sq_relationRows s);
          s1 = s\<lparr>sq_relationRows := fold (\<lambda>(key, row) m. jm_set key row m) rebuilt kept,
                 sq_apiKeyVerifiers := fold (\<lambda>(key, row) m. jm_set key row m) (rebuildApiKeyVerifierIndex (allCells (sq_store s))) []\<rparr>
      in on_durable (\<lambda>d. replace_verifiers (sq_apiKeyVerifiers s1)
           (fold (\<lambda>(key, row). writeRelation key row) rebuilt
             (fold (\<lambda>row. if rel_relation row = ''contents'' then deleteRelation (row_relation_key row) else id)
               (jm_values (ds_relations d)) d))) s1)"

end
