(* ===== verification/Submit_Facts.thy ===== *)
theory Submit_Facts
  imports Submit
begin

text \<open>
  What one call of \<open>submit\<close> does to a sequencer: which parts each branch may change, the outcome of
  the accept step, and what the admission checks established about the authority before it.
\<close>

section \<open>Frames\<close>

text \<open>
  The authority of a scope without its reply cache: every field but the replies, in memory and in
  the durable store.
\<close>

definition authority :: "sequencer \<Rightarrow> sequencer" where
  "authority s = s\<lparr>sq_replies := [], sq_durable := map_option (\<lambda>d. d\<lparr>ds_replies := []\<rparr>) (sq_durable s)\<rparr>"

named_theorems reply_ops "operations that only touch the reply cache"

lemma authority_sel:
  "sq_store (authority s) = sq_store s" "sq_headState (authority s) = sq_headState s" "sq_tail (authority s) = sq_tail s"
  "sq_options (authority s) = sq_options s" "sq_scope (authority s) = sq_scope s" "sq_relationRows (authority s) = sq_relationRows s"
  "sq_catalogEpoch (authority s) = sq_catalogEpoch s" "sq_attribution (authority s) = sq_attribution s"
  "sq_apiKeyVerifiers (authority s) = sq_apiKeyVerifiers s" "sq_scheduled (authority s) = sq_scheduled s"
  by (simp_all add: authority_def)

lemma authority_eqD:
  assumes "authority s' = authority s"
  shows "sq_store s' = sq_store s" "sq_headState s' = sq_headState s" "sq_tail s' = sq_tail s"
    "sq_options s' = sq_options s" "sq_scope s' = sq_scope s" "sq_relationRows s' = sq_relationRows s"
    "sq_catalogEpoch s' = sq_catalogEpoch s" "sq_attribution s' = sq_attribution s"
    "sq_apiKeyVerifiers s' = sq_apiKeyVerifiers s" "sq_scheduled s' = sq_scheduled s"
  by (metis assms authority_sel)+

lemma authority_replies [simp, reply_ops]: "authority (s\<lparr>sq_replies := m\<rparr>) = authority s"
  by (simp add: authority_def)

lemma authority_on_durable:
  assumes "\<And>d. (f d)\<lparr>ds_replies := []\<rparr> = d\<lparr>ds_replies := []\<rparr>"
  shows "authority (on_durable f s) = authority s"
  using assms by (simp add: authority_def on_durable_def option.map_comp comp_def)

lemma durable_reply_frame:
  "(deleteReply key d)\<lparr>ds_replies := []\<rparr> = d\<lparr>ds_replies := []\<rparr>"
  "(writeReply key r d)\<lparr>ds_replies := []\<rparr> = d\<lparr>ds_replies := []\<rparr>"
  "(durable_reply key r pr d)\<lparr>ds_replies := []\<rparr> = d\<lparr>ds_replies := []\<rparr>"
proof -
  show [simp]: "(deleteReply key d)\<lparr>ds_replies := []\<rparr> = d\<lparr>ds_replies := []\<rparr>"
    "(writeReply key r d)\<lparr>ds_replies := []\<rparr> = d\<lparr>ds_replies := []\<rparr>" for key r d
    by (simp_all add: deleteReply_def writeReply_def)
  have [simp]: "(fold deleteReply ks d)\<lparr>ds_replies := []\<rparr> = d\<lparr>ds_replies := []\<rparr>" for ks d
    by (induction ks arbitrary: d) simp_all
  have [simp]: "(fold (\<lambda>(k, r). writeReply k r) rs d)\<lparr>ds_replies := []\<rparr> = d\<lparr>ds_replies := []\<rparr>" for rs d
    by (induction rs arbitrary: d) (auto simp: split_beta)
  show "(durable_reply key r pr d)\<lparr>ds_replies := []\<rparr> = d\<lparr>ds_replies := []\<rparr>"
    by (simp add: durable_reply_def)
qed

lemma authority_recordedReply [reply_ops]: "authority (snd (recordedReply key now s)) = authority s"
  by (simp add: recordedReply_def authority_on_durable durable_reply_frame split: option.split)

lemma authority_prune [reply_ops]: "authority (snd (pruneReplies now s)) = authority s"
  by (simp add: pruneReplies_def Let_def split: prod.split)

lemma authority_record_in_memory [reply_ops]: "authority (snd (record_in_memory key r now s)) = authority s"
  using authority_prune [of now "s\<lparr>sq_replies := jm_set key (with_recorded_at now r) (sq_replies s)\<rparr>"]
  by (simp add: record_in_memory_def Let_def split_beta)

lemma authority_recordReply [reply_ops]: "authority (recordReply key r now s) = authority s"
  using authority_record_in_memory [of key r now s]
  by (simp add: recordReply_def authority_on_durable durable_reply_frame split_beta)

lemma authority_reject [reply_ops]: "authority (snd (reject sub reason det mm now s)) = authority s"
  by (simp add: reject_def Let_def authority_recordReply)

lemma authority_refuse [reply_ops]: "authority (snd (refuse sub r now s)) = authority s"
  using authority_reject [of sub _ _ _ now s] by (simp add: refuse_def split: prod.split) (metis snd_conv)

lemma refuse_rejected: "\<exists>r. fst (refuse sub rf now s) = Inr (Rejected r) \<and> rj_reason r = fst rf \<and> rj_head r = sq_headState s"
  by (auto simp: refuse_def reject_def Let_def split: prod.split)

lemma authority_receipt [reply_ops]: "authority (recordDirectReceipt sub r now s) = authority s"
  by (simp add: recordDirectReceipt_def authority_recordReply)

section \<open>The branches of a submit\<close>

text \<open>Every submit to a sound authority takes one of four ways: replay, refusal, read or commit.\<close>

lemma submit_fresh_cases:
  assumes ok: "auth_ok (sq_store s)"
  obtains (refused) rf where "submit_fresh now sub s = refuse sub rf now s"
  | (read) applied where "admission now s sub = None" "pure_direct_read (cs_transcript sub) applied"
      "submit_fresh now sub s = (Inr (Accepted (read_reply s applied)),
         if cs_retry_receipt sub then recordDirectReceipt sub (read_reply s applied) now s else s)"
  | (commit) applied where "admission now s sub = None"
      "applyTranscript (sq_store s) (cs_transcript sub)
        (stamp_of (next_head (sq_headState s) (t_hash (cs_transcript sub))) (sq_catalogEpoch s)) = Inr applied"
      "ar_postStateVersion applied = cs_post_state_version sub" "\<not> pure_direct_read (cs_transcript sub) applied"
      "submit_fresh now sub s = accept_durable sub applied (accept_memory now sub applied s)"
proof (cases "admission now s sub")
  case (Some rf)
  then show ?thesis by (intro refused) (simp add: submit_fresh_def)
next
  case None
  let ?stamp = "stamp_of (next_head (sq_headState s) (t_hash (cs_transcript sub))) (sq_catalogEpoch s)"
  obtain applied where ap: "applyTranscript (sq_store s) (cs_transcript sub) ?stamp = Inr applied"
    using apply_spec [OF ok] by blast
  show ?thesis
  proof (cases "ar_postStateVersion applied = cs_post_state_version sub")
    case False
    with None ap show ?thesis by (intro refused) (simp add: submit_fresh_def)
  next
    case True
    show ?thesis
    proof (cases "pure_direct_read (cs_transcript sub) applied")
      case pure: True
      show ?thesis
        by (rule read [OF None pure]) (simp add: submit_fresh_def None ap True pure)
    next
      case False
      with None ap True show ?thesis by (intro commit) (simp_all add: submit_fresh_def)
    qed
  qed
qed

section \<open>The accept step\<close>

text \<open>Adopting the touched keys of a sound post store keeps the authority sound and copies exactly those keys.\<close>

lemma auth_ok_setCell:
  assumes "auth_ok st" "wf_cell c" "c_provenance c = Authoritative"
  shows "auth_ok (setCell c st)"
proof -
  have st: "store_ok st" "role_ok st" "st_role st = Authority" using assms(1) unfolding auth_ok_def by blast+
  have "role_ok (setCell c st)" by (rule role_ok_setCell [OF st(1,2)]) (simp add: st(3) assms(3))
  with st assms(2) show ?thesis unfolding auth_ok_def by (metis setCell_cells store_ok_setCell)
qed

lemma auth_ok_cell:
  assumes "auth_ok st" "store_get st key = Some c"
  shows "wf_cell c" "c_key c = key" "c_provenance c = Authoritative"
proof -
  have c: "wf_cell c \<and> c_key c = key \<and> c \<in> set (allCells st)"
    by (rule store_ok_get [OF auth_ok_store [OF assms(1)] assms(2)])
  then show "wf_cell c" "c_key c = key" by blast+
  from c show "c_provenance c = Authoritative" using assms(1) unfolding auth_ok_def role_ok_def by blast
qed

lemma adopt_key_spec:
  assumes "auth_ok st" "auth_ok post"
  shows "auth_ok (adopt_key post key st)"
    and "store_get (adopt_key post key st) k = (if k = key then store_get post key else store_get st k)"
proof -
  have "auth_ok (adopt_key post key st)
    \<and> store_get (adopt_key post key st) k = (if k = key then store_get post key else store_get st k)"
  proof (cases "store_get post key")
    case None
    then show ?thesis using assms by (simp add: adopt_key_def auth_ok_delete)
  next
    case (Some c)
    note c = auth_ok_cell [OF assms(2) Some]
    then have "adopt_key post key st = setCell c st"
      using Some assms by (simp add: adopt_key_def store_install_def)
    then show ?thesis using Some c assms(1) by (simp add: auth_ok_setCell)
  qed
  then show "auth_ok (adopt_key post key st)"
    "store_get (adopt_key post key st) k = (if k = key then store_get post key else store_get st k)" by simp_all
qed

lemma adopt_keys_spec:
  assumes "auth_ok st" "auth_ok post"
  shows "auth_ok (fold (adopt_key post) ks st)
    \<and> store_get (fold (adopt_key post) ks st) k = (if k \<in> set ks then store_get post k else store_get st k)"
  using assms(1)
proof (induction ks arbitrary: st)
  case (Cons key ks)
  have "auth_ok (adopt_key post key st)" by (rule adopt_key_spec [OF Cons.prems assms(2)])
  from Cons.IH [OF this] show ?case using adopt_key_spec(2) [OF Cons.prems assms(2), of key k] by (cases "k = key") simp_all
qed simp

text \<open>The steps after adoption only touch their own fields.\<close>

definition queue_free :: "sequencer \<Rightarrow> sequencer" where
  "queue_free s = s\<lparr>sq_scheduled := [], sq_durable := map_option (\<lambda>d. d\<lparr>ds_scheduled := []\<rparr>) (sq_durable s)\<rparr>"

lemma fold_invariant: "(\<And>x s. x \<in> set xs \<Longrightarrow> g (f x s) = g s) \<Longrightarrow> g (fold f xs s) = g s"
  by (induction xs arbitrary: s) simp_all

lemma queue_free_cancel [simp]: "queue_free (snd (cancel i s)) = queue_free s"
  by (simp add: cancel_def queue_free_def Let_def deleteScheduled_def split: option.split)

lemma queue_free_store [simp]: "queue_free (store_scheduled turn s) = queue_free s"
  by (simp add: store_scheduled_def queue_free_def writeScheduled_def split: option.split)

lemma queue_free_effects [simp]: "queue_free (apply_schedule_effects sub s) = queue_free s"
proof -
  have "queue_free (purge_recycled rc s) = queue_free s" for rc s
    unfolding purge_recycled_def by (rule fold_invariant) simp
  then show ?thesis unfolding apply_schedule_effects_def Let_def by (simp add: fold_invariant)
qed

lemma queue_free_sel:
  "sq_store (queue_free s) = sq_store s" "sq_headState (queue_free s) = sq_headState s" "sq_tail (queue_free s) = sq_tail s"
  "sq_options (queue_free s) = sq_options s" "sq_scope (queue_free s) = sq_scope s" "sq_relationRows (queue_free s) = sq_relationRows s"
  "sq_catalogEpoch (queue_free s) = sq_catalogEpoch s" "sq_attribution (queue_free s) = sq_attribution s"
  "sq_apiKeyVerifiers (queue_free s) = sq_apiKeyVerifiers s" "sq_replies (queue_free s) = sq_replies s"
  "sq_orderedRelationsByProjection (queue_free s) = sq_orderedRelationsByProjection s"
  "sq_orderedRelationLocationByKey (queue_free s) = sq_orderedRelationLocationByKey s"
  "map_option (\<lambda>d. d\<lparr>ds_scheduled := []\<rparr>) (sq_durable s) = sq_durable (queue_free s)"
  by (simp_all add: queue_free_def)

lemma effects_sel [simp]:
  "sq_store (apply_schedule_effects sub s) = sq_store s" "sq_headState (apply_schedule_effects sub s) = sq_headState s"
  "sq_tail (apply_schedule_effects sub s) = sq_tail s" "sq_options (apply_schedule_effects sub s) = sq_options s"
  "sq_scope (apply_schedule_effects sub s) = sq_scope s" "sq_relationRows (apply_schedule_effects sub s) = sq_relationRows s"
  "sq_catalogEpoch (apply_schedule_effects sub s) = sq_catalogEpoch s" "sq_attribution (apply_schedule_effects sub s) = sq_attribution s"
  "sq_apiKeyVerifiers (apply_schedule_effects sub s) = sq_apiKeyVerifiers s" "sq_replies (apply_schedule_effects sub s) = sq_replies s"
  "sq_orderedRelationsByProjection (apply_schedule_effects sub s) = sq_orderedRelationsByProjection s"
  "sq_orderedRelationLocationByKey (apply_schedule_effects sub s) = sq_orderedRelationLocationByKey s"
  "map_option (\<lambda>d. d\<lparr>ds_scheduled := []\<rparr>) (sq_durable (apply_schedule_effects sub s))
    = map_option (\<lambda>d. d\<lparr>ds_scheduled := []\<rparr>) (sq_durable s)"
  by (metis queue_free_sel queue_free_effects)+

lemma bump_counter_eq: "bump_counter t s = s\<lparr>sq_nextObjectCounter := sq_nextObjectCounter (bump_counter t s)\<rparr>"
  by (simp add: bump_counter_def split: option.split)

lemma memory_log_eq: "memory_log e s = s\<lparr>sq_memoryLogRows := sq_memoryLogRows (memory_log e s)\<rparr>"
  by (simp add: memory_log_def split: option.split prod.split)

lemma reindex_eq:
  "snd (reindex_credentials t post s) = s\<lparr>sq_apiKeyVerifiers := sq_apiKeyVerifiers (snd (reindex_credentials t post s))\<rparr>"
proof -
  have step: "(snd (reindex_actor post a acc))\<lparr>sq_apiKeyVerifiers := []\<rparr> = (snd acc)\<lparr>sq_apiKeyVerifiers := []\<rparr>" for a acc
    by (cases acc) (simp add: reindex_actor_def replaceApiKeyVerifiersForActor_def Let_def split_beta)
  have "(snd (fold (reindex_actor post) as acc))\<lparr>sq_apiKeyVerifiers := []\<rparr> = (snd acc)\<lparr>sq_apiKeyVerifiers := []\<rparr>" for as acc
    using fold_invariant [where g = "\<lambda>acc. (snd acc)\<lparr>sq_apiKeyVerifiers := []\<rparr>" and f = "reindex_actor post"] step by blast
  then have "(snd (reindex_credentials t post s))\<lparr>sq_apiKeyVerifiers := []\<rparr> = s\<lparr>sq_apiKeyVerifiers := []\<rparr>"
    unfolding reindex_credentials_def by simp
  from arg_cong [OF this, of "sq_apiKeyVerifiers_update (\<lambda>_. sq_apiKeyVerifiers (snd (reindex_credentials t post s)))"]
  show ?thesis by simp
qed

lemma apply_relations_eq:
  "snd (apply_relations ds s) = s\<lparr>sq_relationRows := sq_relationRows (snd (apply_relations ds s)),
     sq_orderedRelationsByProjection := sq_orderedRelationsByProjection (snd (apply_relations ds s)),
     sq_orderedRelationLocationByKey := sq_orderedRelationLocationByKey (snd (apply_relations ds s))\<rparr>"
  by (simp add: apply_relations_def syncOrderedRelationIndex_def Let_def split_beta)

lemma record_in_memory_eq: "snd (record_in_memory key r now s) = s\<lparr>sq_replies := sq_replies (snd (record_in_memory key r now s))\<rparr>"
  by (simp add: record_in_memory_def pruneReplies_def Let_def split_beta)

lemma bump_sel [simp]:
  "sq_store (bump_counter t s) = sq_store s" "sq_headState (bump_counter t s) = sq_headState s"
  "sq_tail (bump_counter t s) = sq_tail s" "sq_options (bump_counter t s) = sq_options s"
  "sq_scope (bump_counter t s) = sq_scope s" "sq_catalogEpoch (bump_counter t s) = sq_catalogEpoch s"
  "sq_attribution (bump_counter t s) = sq_attribution s" "sq_replies (bump_counter t s) = sq_replies s"
  "sq_durable (bump_counter t s) = sq_durable s" "sq_scheduled (bump_counter t s) = sq_scheduled s"
  "sq_relationRows (bump_counter t s) = sq_relationRows s"
  "sq_apiKeyVerifiers (bump_counter t s) = sq_apiKeyVerifiers s"
  "sq_orderedRelationsByProjection (bump_counter t s) = sq_orderedRelationsByProjection s"
  "sq_orderedRelationLocationByKey (bump_counter t s) = sq_orderedRelationLocationByKey s"
  "sq_memoryLogRows (bump_counter t s) = sq_memoryLogRows s"
  by (subst bump_counter_eq, simp)+

lemma memory_log_sel [simp]:
  "sq_store (memory_log e s) = sq_store s" "sq_headState (memory_log e s) = sq_headState s"
  "sq_tail (memory_log e s) = sq_tail s" "sq_options (memory_log e s) = sq_options s"
  "sq_scope (memory_log e s) = sq_scope s" "sq_catalogEpoch (memory_log e s) = sq_catalogEpoch s"
  "sq_attribution (memory_log e s) = sq_attribution s" "sq_replies (memory_log e s) = sq_replies s"
  "sq_durable (memory_log e s) = sq_durable s" "sq_scheduled (memory_log e s) = sq_scheduled s"
  "sq_relationRows (memory_log e s) = sq_relationRows s" "sq_apiKeyVerifiers (memory_log e s) = sq_apiKeyVerifiers s"
  "sq_orderedRelationsByProjection (memory_log e s) = sq_orderedRelationsByProjection s"
  "sq_orderedRelationLocationByKey (memory_log e s) = sq_orderedRelationLocationByKey s"
  "sq_nextObjectCounter (memory_log e s) = sq_nextObjectCounter s"
  by (subst memory_log_eq, simp)+

lemma reindex_sel [simp]:
  "sq_store (snd (reindex_credentials t post s)) = sq_store s"
  "sq_headState (snd (reindex_credentials t post s)) = sq_headState s"
  "sq_tail (snd (reindex_credentials t post s)) = sq_tail s"
  "sq_options (snd (reindex_credentials t post s)) = sq_options s"
  "sq_scope (snd (reindex_credentials t post s)) = sq_scope s"
  "sq_catalogEpoch (snd (reindex_credentials t post s)) = sq_catalogEpoch s"
  "sq_attribution (snd (reindex_credentials t post s)) = sq_attribution s"
  "sq_replies (snd (reindex_credentials t post s)) = sq_replies s"
  "sq_durable (snd (reindex_credentials t post s)) = sq_durable s"
  "sq_scheduled (snd (reindex_credentials t post s)) = sq_scheduled s"
  "sq_relationRows (snd (reindex_credentials t post s)) = sq_relationRows s"
  "sq_orderedRelationsByProjection (snd (reindex_credentials t post s)) = sq_orderedRelationsByProjection s"
  "sq_orderedRelationLocationByKey (snd (reindex_credentials t post s)) = sq_orderedRelationLocationByKey s"
  "sq_memoryLogRows (snd (reindex_credentials t post s)) = sq_memoryLogRows s"
  "sq_nextObjectCounter (snd (reindex_credentials t post s)) = sq_nextObjectCounter s"
  by (subst reindex_eq, simp)+

lemma apply_relations_sel [simp]:
  "sq_store (snd (apply_relations ds s)) = sq_store s" "sq_headState (snd (apply_relations ds s)) = sq_headState s"
  "sq_tail (snd (apply_relations ds s)) = sq_tail s" "sq_options (snd (apply_relations ds s)) = sq_options s"
  "sq_scope (snd (apply_relations ds s)) = sq_scope s"
  "sq_catalogEpoch (snd (apply_relations ds s)) = sq_catalogEpoch s"
  "sq_attribution (snd (apply_relations ds s)) = sq_attribution s"
  "sq_replies (snd (apply_relations ds s)) = sq_replies s" "sq_durable (snd (apply_relations ds s)) = sq_durable s"
  "sq_scheduled (snd (apply_relations ds s)) = sq_scheduled s"
  "sq_apiKeyVerifiers (snd (apply_relations ds s)) = sq_apiKeyVerifiers s"
  "sq_memoryLogRows (snd (apply_relations ds s)) = sq_memoryLogRows s"
  "sq_nextObjectCounter (snd (apply_relations ds s)) = sq_nextObjectCounter s"
  by (subst apply_relations_eq, simp)+

lemma record_sel [simp]:
  "sq_store (snd (record_in_memory key r now s)) = sq_store s"
  "sq_headState (snd (record_in_memory key r now s)) = sq_headState s"
  "sq_tail (snd (record_in_memory key r now s)) = sq_tail s"
  "sq_options (snd (record_in_memory key r now s)) = sq_options s"
  "sq_scope (snd (record_in_memory key r now s)) = sq_scope s"
  "sq_catalogEpoch (snd (record_in_memory key r now s)) = sq_catalogEpoch s"
  "sq_attribution (snd (record_in_memory key r now s)) = sq_attribution s"
  "sq_durable (snd (record_in_memory key r now s)) = sq_durable s"
  "sq_scheduled (snd (record_in_memory key r now s)) = sq_scheduled s"
  "sq_relationRows (snd (record_in_memory key r now s)) = sq_relationRows s"
  "sq_apiKeyVerifiers (snd (record_in_memory key r now s)) = sq_apiKeyVerifiers s"
  "sq_orderedRelationsByProjection (snd (record_in_memory key r now s)) = sq_orderedRelationsByProjection s"
  "sq_orderedRelationLocationByKey (snd (record_in_memory key r now s)) = sq_orderedRelationLocationByKey s"
  "sq_memoryLogRows (snd (record_in_memory key r now s)) = sq_memoryLogRows s"
  "sq_nextObjectCounter (snd (record_in_memory key r now s)) = sq_nextObjectCounter s"
  by (subst record_in_memory_eq, simp)+

lemma push_tail_sel [simp]:
  "sq_tail (push_tail e s) = trim_tail (so_tailLimit (sq_options s)) (sq_tail s @ [e])"
  by (simp add: push_tail_def)

lemma push_tail_other [simp]:
  "sq_store (push_tail e s) = sq_store s" "sq_headState (push_tail e s) = sq_headState s" "sq_options (push_tail e s) = sq_options s"
  "sq_scope (push_tail e s) = sq_scope s" "sq_catalogEpoch (push_tail e s) = sq_catalogEpoch s"
  "sq_attribution (push_tail e s) = sq_attribution s" "sq_replies (push_tail e s) = sq_replies s" "sq_durable (push_tail e s) = sq_durable s"
  "sq_relationRows (push_tail e s) = sq_relationRows s" "sq_apiKeyVerifiers (push_tail e s) = sq_apiKeyVerifiers s"
  "sq_orderedRelationsByProjection (push_tail e s) = sq_orderedRelationsByProjection s"
  "sq_orderedRelationLocationByKey (push_tail e s) = sq_orderedRelationLocationByKey s"
  by (simp_all add: push_tail_def)

text \<open>The state after the accept step, field by field.\<close>

lemma accept_memory_state:
  assumes "accept_memory now sub applied s = (out, s')"
  shows "sq_store s' = fold (adopt_key (ar_post applied)) (ar_touched applied) (sq_store s)"
    "sq_headState s' = next_head (sq_headState s) (t_hash (cs_transcript sub))"
    "sq_tail s' = trim_tail (so_tailLimit (sq_options s)) (sq_tail s @ [ao_tailEntry out])"
    "sq_options s' = sq_options s" "sq_scope s' = sq_scope s" "sq_catalogEpoch s' = sq_catalogEpoch s"
    "sq_attribution s' = sq_attribution s"
    "ao_tailEntry out = tail_entry_of (sq_headState s) (sq_headState s') (t_hash (cs_transcript sub)) (ar_touched applied)"
    "ac_head (ao_reply out) = sq_headState s'" "ac_touched (ao_reply out) = ar_touched applied" "\<not> ac_replayed (ao_reply out)"
    "map_option (\<lambda>d. d\<lparr>ds_scheduled := []\<rparr>) (sq_durable s') = map_option (\<lambda>d. d\<lparr>ds_scheduled := []\<rparr>) (sq_durable s)"
  using assms by (auto simp: accept_memory_def Let_def split_beta)

lemma accept_durable_state:
  assumes "accept_durable sub applied (out, s) = (res, s')"
  shows "\<exists>d. s' = s\<lparr>sq_durable := d\<rparr>" "res = Inr (Accepted (ao_reply out)) \<or> res = Inl Log_collision"
proof -
  have "\<exists>d. s = s\<lparr>sq_durable := d\<rparr>" by (rule exI [of _ "sq_durable s"]) simp
  then show "\<exists>d. s' = s\<lparr>sq_durable := d\<rparr>" "res = Inr (Accepted (ao_reply out)) \<or> res = Inl Log_collision"
    using assms by (auto simp: accept_durable_def Let_def split: option.splits)
qed

section \<open>All or nothing\<close>

lemma next_head_neq [simp]: "next_head h m \<noteq> h" "h \<noteq> next_head h m"
  by (metis (no_types) next_head_def scope_head.select_convs(1) add_cancel_right_right zero_neq_one)+

lemma replay_reply_replayed: "replay_reply sub rec = Some (Accepted a) \<Longrightarrow> ac_replayed a"
  by (auto simp: replay_reply_def Let_def split: if_splits commit_reply.splits option.splits)

text \<open>What a committing submit does to the authority.\<close>

definition committed :: "commit_submit \<Rightarrow> accepted_reply \<Rightarrow> sequencer \<Rightarrow> sequencer \<Rightarrow> bool" where
  "committed sub a s s' \<longleftrightarrow>
     sq_headState s' = next_head (sq_headState s) (t_hash (cs_transcript sub)) \<and> ac_head a = sq_headState s'
   \<and> auth_ok (sq_store s')
   \<and> (\<forall>key. key \<notin> set (ac_touched a) \<longrightarrow> store_get (sq_store s') key = store_get (sq_store s) key)
   \<and> postStateVersion (sq_store s') (ac_touched a) = cs_post_state_version sub
   \<and> sq_tail s' = trim_tail (so_tailLimit (sq_options s)) (sq_tail s @
        [tail_entry_of (sq_headState s) (sq_headState s') (t_hash (cs_transcript sub)) (ac_touched a)])
   \<and> sq_options s' = sq_options s \<and> sq_scope s' = sq_scope s \<and> sq_catalogEpoch s' = sq_catalogEpoch s
   \<and> sq_attribution s' = sq_attribution s"

lemma postStateVersion_cong:
  "(\<And>key. key \<in> set ks \<Longrightarrow> store_get st key = store_get st' key) \<Longrightarrow> postStateVersion st ks = postStateVersion st' ks"
  by (simp add: postStateVersion_def cong: map_cong)

lemma accept_committed:
  assumes ok: "auth_ok (sq_store s)"
    and ap: "applyTranscript (sq_store s) (cs_transcript sub)
        (stamp_of (next_head (sq_headState s) (t_hash (cs_transcript sub))) (sq_catalogEpoch s)) = Inr applied"
      "ar_postStateVersion applied = cs_post_state_version sub"
    and run: "accept_durable sub applied (accept_memory now sub applied s) = (Inr reply, s')"
  shows "\<exists>a. reply = Accepted a \<and> \<not> ac_replayed a \<and> committed sub a s s'"
proof -
  obtain out s1 where m: "accept_memory now sub applied s = (out, s1)" by force
  note mem = accept_memory_state [OF m]
  note dur = accept_durable_state [OF run [unfolded m]]
  obtain r where r: "applyTranscript (sq_store s) (cs_transcript sub)
        (stamp_of (next_head (sq_headState s) (t_hash (cs_transcript sub))) (sq_catalogEpoch s)) = Inr r"
     "auth_ok (ar_post r)" "\<And>key. key \<notin> set (ar_touched r) \<Longrightarrow> store_get (ar_post r) key = store_get (sq_store s) key"
     "ar_postStateVersion r = postStateVersion (ar_post r) (ar_touched r)"
    using apply_spec [OF ok] by metis
  then have [simp]: "r = applied" using ap(1) by simp
  let ?st = "fold (adopt_key (ar_post applied)) (ar_touched applied) (sq_store s)"
  have st: "auth_ok ?st" "store_get ?st k = (if k \<in> set (ar_touched applied) then store_get (ar_post applied) k else store_get (sq_store s) k)" for k
    using adopt_keys_spec [OF ok r(2), of "ar_touched applied"] by simp_all
  have "postStateVersion ?st (ar_touched applied) = cs_post_state_version sub"
    using postStateVersion_cong [of "ar_touched applied" ?st "ar_post applied"] st(2) r(4) ap(2) by simp
  moreover obtain d where "s' = s1\<lparr>sq_durable := d\<rparr>" using dur(1) by blast
  moreover have "reply = Accepted (ao_reply out)" using dur(2) by simp
  ultimately show ?thesis unfolding committed_def using st mem by simp
qed

text \<open>One submit, whatever its branch, on a sound authority.\<close>

lemma submit_effect:
  assumes ok: "auth_ok (sq_store s)" and run: "submit now sub s = (Inr reply, s')"
  obtains (kept) "authority s' = authority s"
      "case reply of Rejected _ \<Rightarrow> True
       | Accepted a \<Rightarrow> ac_replayed a \<or> ac_head a = sq_headState s \<and> admission now (snd (recordedReply (cs_idempotency_key sub) now s)) sub = None"
  | (committed) a s1 where "reply = Accepted a" "\<not> ac_replayed a" "authority s1 = authority s" "admission now s1 sub = None"
      "snd (recordedReply (cs_idempotency_key sub) now s) = s1" "committed sub a s1 s'"
proof -
  obtain rec s1 where rr: "recordedReply (cs_idempotency_key sub) now s = (rec, s1)" by force
  have same: "authority s1 = authority s" using authority_recordedReply [of "cs_idempotency_key sub" now s] rr by simp
  note eq = authority_eqD [OF same]
  have ok1: "auth_ok (sq_store s1)" using ok eq(1) by simp
  have refusal: ?thesis if "submit now sub s = refuse sub rf now s1" for rf
  proof (rule kept)
    have "snd (refuse sub rf now s1) = s'" using that run by (metis snd_conv)
    then show "authority s' = authority s" using authority_refuse [of sub rf now s1] same by simp
    show "case reply of Rejected _ \<Rightarrow> True
       | Accepted a \<Rightarrow> ac_replayed a \<or> ac_head a = sq_headState s \<and> admission now (snd (recordedReply (cs_idempotency_key sub) now s)) sub = None"
      using refuse_rejected [of sub rf now s1] that run by (metis (mono_tags) commit_reply.simps(6) fst_conv sum.inject(2))
  qed
  show ?thesis
  proof (cases rec)
    case (Some recorded)
    show ?thesis
    proof (cases "replay_reply sub recorded")
      case None
      then show ?thesis using refusal rr Some by (simp add: submit_def)
    next
      case (Some r)
      then have "reply = r" "s' = s1" using run rr \<open>rec = Some recorded\<close> by (simp_all add: submit_def)
      then show ?thesis using Some same replay_reply_replayed [of sub recorded]
        by (intro kept) (auto split: commit_reply.split)
    qed
  next
    case None
    then have fresh: "submit now sub s = submit_fresh now sub s1" using rr by (simp add: submit_def)
    from ok1 show ?thesis
    proof (cases rule: submit_fresh_cases [where now = now and sub = sub])
      case (refused rf)
      then show ?thesis using fresh by (intro refusal [of rf]) simp
    next
      case (read applied)
      then have "reply = Accepted (read_reply s1 applied)" "authority s' = authority s1"
        using run fresh authority_receipt [of sub _ now s1] by (auto split: if_splits)
      then show ?thesis using same eq(2) rr read(1) by (intro kept) (simp_all add: read_reply_def)
    next
      case (commit applied)
      then obtain a where "reply = Accepted a" "\<not> ac_replayed a" "committed sub a s1 s'"
        using accept_committed [OF ok1 commit(2,3), of now reply s'] run fresh by auto
      then show ?thesis using committed same commit(1) rr by simp
    qed
  qed
qed

text \<open>
  C2: a submit is all or nothing. On a sound authority a refused submit, a replayed one and a pure
  read leave every cell, the head, the recovery tail, the relations, the schedules and the durable
  rows as they were, apart from the reply cache. Any other accepted submit commits: the head is
  the next link of the hash chain and is the one replied, the touched cells hold exactly the state
  whose digest the submitter predicted, every other cell is unchanged, the store stays sound, and the
  tail gains the entry that links the two heads.
\<close>

theorem submit_all_or_nothing:
  assumes "auth_ok (sq_store s)" "submit now sub s = (Inr reply, s')"
  shows "case reply of
      Rejected _ \<Rightarrow> authority s' = authority s
    | Accepted a \<Rightarrow> if ac_replayed a \<or> ac_head a = sq_headState s then authority s' = authority s else committed sub a s s'"
proof (cases rule: submit_effect [OF assms])
  case 1
  then show ?thesis by (auto split: commit_reply.split)
next
  case (2 a s1)
  note eq = authority_eqD [OF 2(3)]
  from 2 have "committed sub a s s'" unfolding committed_def eq by simp
  moreover from this have "ac_head a \<noteq> sq_headState s" by (simp add: committed_def)
  ultimately show ?thesis using 2(1,2) by simp
qed


section \<open>Liveness\<close>

text \<open>The digest a planner predicts for a turn: that of applying it to the authority's cells.\<close>

definition predicted :: "sequencer \<Rightarrow> transcript \<Rightarrow> string" where
  "predicted s t = (case applyTranscript (sq_store s) t (stamp_of (next_head (sq_headState s) (t_hash t)) (sq_catalogEpoch s)) of
      Inr applied \<Rightarrow> ar_postStateVersion applied | Inl _ \<Rightarrow> [])"

definition changes_state :: "sequencer \<Rightarrow> transcript \<Rightarrow> bool" where
  "changes_state s t = (case applyTranscript (sq_store s) t (stamp_of (next_head (sq_headState s) (t_hash t)) (sq_catalogEpoch s)) of
      Inr applied \<Rightarrow> \<not> pure_direct_read t applied | Inl _ \<Rightarrow> False)"

lemma submit_accepts:
  assumes ok: "auth_ok (sq_store s)" and key: "jm_get (sq_replies s) (cs_idempotency_key sub) = None" and mem: "sq_durable s = None"
    and adm: "admission now s sub = None" and dig: "cs_post_state_version sub = predicted s (cs_transcript sub)"
    and chg: "changes_state s (cs_transcript sub)"
  obtains a s' where "submit now sub s = (Inr (Accepted a), s')" "\<not> ac_replayed a"
    "sq_headState s' = next_head (sq_headState s) (t_hash (cs_transcript sub))" "ac_head a = sq_headState s'"
proof -
  obtain applied where ap: "applyTranscript (sq_store s) (cs_transcript sub)
      (stamp_of (next_head (sq_headState s) (t_hash (cs_transcript sub))) (sq_catalogEpoch s)) = Inr applied"
    using apply_spec [OF ok] by metis
  then have "ar_postStateVersion applied = cs_post_state_version sub" "\<not> pure_direct_read (cs_transcript sub) applied"
    using dig chg by (simp_all add: predicted_def changes_state_def)
  moreover have "recordedReply (cs_idempotency_key sub) now s = (None, s)" by (simp add: recordedReply_def key)
  ultimately have run: "submit now sub s = accept_durable sub applied (accept_memory now sub applied s)"
    using adm ap by (simp add: submit_def submit_fresh_def)
  obtain out s1 where m: "accept_memory now sub applied s = (out, s1)" by force
  note st = accept_memory_state [OF m]
  have "sq_durable s1 = None" using st(12) mem by simp
  then have "submit now sub s = (Inr (Accepted (ao_reply out)), s1)" using run m by (simp add: accept_durable_def)
  then show ?thesis using that [of "ao_reply out" s1] st(2,9,11) by simp
qed

lemma apply_touched:
  assumes "applyTranscript pre t stamp = Inr r"
  shows "ar_touched r = sort (ap_touched (apply_steps t stamp
    \<lparr>ap_post = store_clone pre, ap_touched = [], ap_projection = [], ap_recycled = []\<rparr>))"
  using assms unfolding applyTranscript_def Let_def by (metis (no_types, lifting) apply_result.select_convs(2) sum.distinct(1) sum.inject(2))

text \<open>A turn whose last effect is a move touches a cell.\<close>

lemma moves_touch:
  assumes "auth_ok (sq_store s)" "t_moves t \<noteq> []" "t_recycles t = []"
  shows "changes_state s t"
proof -
  let ?stamp = "stamp_of (next_head (sq_headState s) (t_hash t)) (sq_catalogEpoch s)"
  obtain applied where ap: "applyTranscript (sq_store s) t ?stamp = Inr applied" using apply_spec [OF assms(1)] by metis
  obtain mvs mv where "t_moves t = mvs @ [mv]" using assms(2) by (cases "t_moves t" rule: rev_cases) auto
  then have "set (ar_touched applied) \<noteq> {}"
    unfolding apply_touched [OF ap] apply_steps_def assms(3) by (simp add: apply_move_def touch_def Let_def js_add_not_Nil)
  then show ?thesis using ap by (auto simp: changes_state_def pure_direct_read_def)
qed

definition demo_scope :: sequencer where
  "demo_scope = fresh_sequencer ''room:hall'' ''e1'' default_options None"

text \<open>A turn that moves a lamp, with the digest of the state it leads to.\<close>

definition demo_commit :: commit_submit where
  "demo_commit = \<lparr>cs_scope = ''room:hall'', cs_base = sq_headState demo_scope, cs_idempotency_key = ''k1'',
     cs_transcript = demo_transcript, cs_post_state_version = predicted demo_scope demo_transcript,
     cs_stamp = \<lparr>scope_head = ''h'', catalog_epoch = ''e1''\<rparr>, cs_owned_reads_compacted = False, cs_replay_result = None,
     cs_replay_result_omitted = False, cs_request_fingerprint = Some ''f1'', cs_retry_receipt = True, cs_attestations = []\<rparr>"

lemmas admission_defs = admission_def check_capacity_def run_authorize_def admission_checks_def check_principal_def check_scope_def
  check_failure_def failure_report_def check_allocation_def sequencedAllocationError_def check_catalog_def catalog_mutations_def
  check_head_def baseIsCurrentOrRetained_def check_reads_def check_allocation_value_def sequencedAllocationAuthorityValueError_def
  check_orderings_def check_tombstones_def lifecycle_objects_def check_recycles_def check_replays_def check_writes_def
  check_creates_def check_slots_def check_schedules_def scheduleEffectsError_def guaranteedOutcomeCount_def guaranteed_capacity_def

lemma demo_scope_ok: "auth_ok (sq_store demo_scope)"
  by (simp add: demo_scope_def fresh_sequencer_def auth_ok_new)

lemma demo_admitted: "admission 0 demo_scope demo_commit = None"
  by (simp add: admission_defs demo_commit_def demo_scope_def fresh_sequencer_def default_options_def demo_transcript_def
      GUARANTEED_OUTCOME_CAPACITY_def classifyFailedTranscriptEffects_def Let_def store_has_def)

lemma demo_accepted:
  obtains a s' where "submit 0 demo_commit demo_scope = (Inr (Accepted a), s')" "\<not> ac_replayed a"
    "sq_headState s' = next_head (sq_headState demo_scope) ''t1''" "ac_head a = sq_headState s'"
proof (rule submit_accepts [OF demo_scope_ok _ _ demo_admitted])
  show "jm_get (sq_replies demo_scope) (cs_idempotency_key demo_commit) = None" "sq_durable demo_scope = None"
    by (simp_all add: demo_scope_def fresh_sequencer_def)
  show "cs_post_state_version demo_commit = predicted demo_scope (cs_transcript demo_commit)" by (simp add: demo_commit_def)
  show "changes_state demo_scope (cs_transcript demo_commit)"
    by (rule moves_touch [OF demo_scope_ok]) (simp_all add: demo_commit_def demo_transcript_def)
next
  fix a s'
  assume "submit 0 demo_commit demo_scope = (Inr (Accepted a), s')" "\<not> ac_replayed a"
    "sq_headState s' = next_head (sq_headState demo_scope) (t_hash (cs_transcript demo_commit))" "ac_head a = sq_headState s'"
  then show thesis using that [of a s'] by (simp add: demo_commit_def demo_transcript_def)
qed

theorem submit_all_or_nothing_witness:
  "\<exists>a s'. submit 0 demo_commit demo_scope = (Inr (Accepted a), s') \<and> committed demo_commit a demo_scope s'
     \<and> sh_seq (sq_headState s') = 1"
proof -
  obtain a s' where r: "submit 0 demo_commit demo_scope = (Inr (Accepted a), s')" "\<not> ac_replayed a"
    "sq_headState s' = next_head (sq_headState demo_scope) ''t1''" "ac_head a = sq_headState s'" by (rule demo_accepted)
  have "sh_seq (sq_headState s') = 1" using r(3) by (simp add: next_head_def demo_scope_def fresh_sequencer_def)
  moreover have "committed demo_commit a demo_scope s'"
    using submit_all_or_nothing [OF demo_scope_ok r(1)] r(2,3,4) by simp
  ultimately show ?thesis using r(1) by blast
qed


section \<open>What acceptance established\<close>

text \<open>The declarative reading of the read checks: a read that counts is at the version its authority, proof or attestation gives.\<close>

definition read_current ::
    "sequencer \<Rightarrow> (string, string) jsmap \<Rightarrow> (string, string) jsmap \<Rightarrow> string list \<Rightarrow> transcript_read \<Rightarrow> bool" where
  "read_current s proved attested created r \<longleftrightarrow>
     (\<forall>v key. tr_version r = Some v \<and> netCellKeyFor (tr_cell r) = Some key \<and> cell_object (tr_cell r) \<notin> set created \<longrightarrow>
        (if disowned s (cell_object (tr_cell r))
         then (case jm_get proved key of Some pv \<Rightarrow> Some pv | None \<Rightarrow> jm_get attested key) = Some v
         else current_version (sq_store s) key = v))"

definition ordering_current :: "sequencer \<Rightarrow> (string, string) jsmap \<Rightarrow> ordering_read \<Rightarrow> bool" where
  "ordering_current s attested r \<longleftrightarrow>
     (if og_scope r \<noteq> sq_scope s
      then jm_get attested (ordering_key (og_scope r) (og_container r) (og_parent r)) = Some (og_version r)
      else orderedChildrenVersion (orderedChildren s (og_container r) (og_parent r)) = og_version r)"

definition replay_current :: "sequencer \<Rightarrow> (string, string) jsmap \<Rightarrow> replay_read \<Rightarrow> bool" where
  "replay_current s attested r \<longleftrightarrow>
     (if rr_scope r \<noteq> sq_scope s
      then jm_get attested (replay_key (rr_scope r) (rr_space r) (rr_from r) (rr_limit r)) = Some (rr_version r)
      else replayPageVersion (replayPage s (rr_space r) (rr_from r) (rr_limit r)) = rr_version r)"

definition reads_valid :: "sequencer \<Rightarrow> (string, string) jsmap \<Rightarrow> commit_submit \<Rightarrow> bool" where
  "reads_valid s proved sub \<longleftrightarrow>
     (\<forall>r \<in> set (t_reads (cs_transcript sub)).
        read_current s proved (attested_cells sub) (map cr_object (t_creates (cs_transcript sub))) r)
   \<and> (\<forall>r \<in> set (t_orderingReads (cs_transcript sub)). ordering_current s (attested_orderings sub) r)
   \<and> (\<forall>r \<in> set (t_replayReads (cs_transcript sub)). replay_current s (attested_replays sub) r)"

lemma scan_reads_ok:
  "scan_reads s proved attested created rs mm = Inr [] \<longleftrightarrow> mm = [] \<and> (\<forall>r \<in> set rs. read_current s proved attested created r)"
proof (induction rs arbitrary: mm)
  case (Cons r rs)
  have ne: "jm_set k c m \<noteq> []" for k and c :: transcript_cell and m :: "(string, transcript_cell) jsmap"
    by (rule update_nonempty)
  show ?case
  proof (cases "\<exists>v key. tr_version r = Some v \<and> netCellKeyFor (tr_cell r) = Some key \<and> cell_object (tr_cell r) \<notin> set created")
    case False
    then have "read_current s proved attested created r" unfolding read_current_def by blast
    moreover from False have "scan_reads s proved attested created (r # rs) mm = scan_reads s proved attested created rs mm"
      by (auto split: option.split)
    ultimately show ?thesis by (simp add: Cons.IH)
  next
    case True
    then obtain v key where r: "tr_version r = Some v" "netCellKeyFor (tr_cell r) = Some key" "cell_object (tr_cell r) \<notin> set created"
      by blast
    define pv where "pv = (case jm_get proved key of Some v \<Rightarrow> Some v | None \<Rightarrow> jm_get attested key)"
    have cur: "read_current s proved attested created r \<longleftrightarrow>
        (if disowned s (cell_object (tr_cell r)) then pv = Some v else current_version (sq_store s) key = v)"
      by (simp add: read_current_def r pv_def)
    show ?thesis
    proof (cases "disowned s (cell_object (tr_cell r))")
      case True
      then show ?thesis unfolding list.set ball_simps cur
        by (cases pv) (use Cons.IH ne in \<open>auto simp: r pv_def [symmetric]\<close>)
    next
      case False
      then show ?thesis unfolding list.set ball_simps cur using Cons.IH ne by (auto simp: r)
    qed
  qed
qed simp

lemma check_reads_None:
  "check_reads s proved sub = None \<longleftrightarrow> (\<forall>r \<in> set (t_reads (cs_transcript sub)).
     read_current s proved (attested_cells sub) (map cr_object (t_creates (cs_transcript sub))) r)"
  unfolding check_reads_def
  using scan_reads_ok [of s proved "attested_cells sub" "map cr_object (t_creates (cs_transcript sub))" "t_reads (cs_transcript sub)" "[]"]
  by (auto split: sum.splits)

lemma scan_orderings_ok: "scan_orderings s attested rs = Inr [] \<longleftrightarrow> (\<forall>r \<in> set rs. ordering_current s attested r)"
  by (induction rs) (auto simp: ordering_current_def Let_def split: option.splits sum.splits if_splits)

lemma scan_replays_ok: "scan_replays s attested rs = Inr [] \<longleftrightarrow> (\<forall>r \<in> set rs. replay_current s attested r)"
  by (induction rs) (auto simp: replay_current_def Let_def split: option.splits sum.splits if_splits)

lemma reads_valid_checks:
  "reads_valid s proved sub \<longleftrightarrow> check_reads s proved sub = None \<and> check_orderings s sub = None \<and> check_replays s sub = None"
proof -
  have "check_orderings s sub = None \<longleftrightarrow> scan_orderings s (attested_orderings sub) (t_orderingReads (cs_transcript sub)) = Inr []"
    by (auto simp: check_orderings_def split: sum.splits list.splits)
  moreover have "check_replays s sub = None \<longleftrightarrow> scan_replays s (attested_replays sub) (t_replayReads (cs_transcript sub)) = Inr []"
    by (auto simp: check_replays_def split: sum.splits list.splits)
  ultimately show ?thesis
    by (simp add: reads_valid_def check_reads_None scan_orderings_ok scan_replays_ok)
qed

lemma reads_valid_authority: "reads_valid (authority s) proved sub = reads_valid s proved sub"
proof -
  have "orderedChildren (authority s) c p = orderedChildren s c p" for c p
    by (simp add: orderedChildren_def authority_def)
  moreover have "replayPage (authority s) sp f l = replayPage s sp f l" for sp f l
    by (simp add: replayPage_def authority_def readLogPage_def split: option.split)
  moreover have "disowned (authority s) obj = disowned s obj" for obj
    by (simp add: disowned_def authority_sel)
  ultimately show ?thesis
    by (simp add: reads_valid_def read_current_def ordering_current_def replay_current_def authority_sel)
qed

lemma admission_None:
  "admission now s sub = None \<longleftrightarrow> check_capacity now s sub = None
     \<and> (\<exists>proved. run_authorize s sub = Inr proved \<and> (\<forall>c \<in> set (admission_checks s proved sub). c = None))"
  by (auto simp: admission_def first_error_None split: option.splits sum.splits)

lemma accepted_admitted:
  assumes "auth_ok (sq_store s)" "submit now sub s = (Inr (Accepted a), s')" "\<not> ac_replayed a"
  obtains s1 where "authority s1 = authority s" "snd (recordedReply (cs_idempotency_key sub) now s) = s1" "admission now s1 sub = None"
  using submit_effect [OF assms(1,2)] authority_recordedReply [of "cs_idempotency_key sub" now s] assms(3) by fastforce


lemma submit_admits_reads:
  assumes "auth_ok (sq_store s)" "submit now sub s = (Inr (Accepted a), s')" "\<not> ac_replayed a"
  shows "\<exists>proved. run_authorize s sub = Inr proved \<and> reads_valid s proved sub
    \<and> (\<forall>obj \<in> set (lifecycle_objects (cs_transcript sub)). store_get (sq_store s) (cellKey Object_tombstone obj None) = None)
    \<and> (\<forall>c \<in> set (t_creates (cs_transcript sub)). store_get (sq_store s) (cellKey Object_lineage (cr_object c) None) = None)"
proof -
  obtain s1 where s1: "authority s1 = authority s" "admission now s1 sub = None" by (rule accepted_admitted [OF assms])
  note eq = authority_eqD [OF s1(1)]
  from s1(2) obtain proved where p: "run_authorize s1 sub = Inr proved"
    "\<And>c. c \<in> set (admission_checks s1 proved sub) \<Longrightarrow> c = None" unfolding admission_None by blast
  have checks: "check_reads s1 proved sub = None" "check_orderings s1 sub = None" "check_replays s1 sub = None"
    "check_tombstones s1 sub = None" "check_creates s1 sub = None"
    by (rule p(2), simp add: admission_checks_def)+
  have "reads_valid s1 proved sub" using checks by (simp add: reads_valid_checks)
  then have "reads_valid s proved sub" by (metis reads_valid_authority s1(1))
  moreover have "run_authorize s sub = Inr proved" using p(1) by (simp add: run_authorize_def eq)
  moreover have "\<forall>obj \<in> set (lifecycle_objects (cs_transcript sub)). store_get (sq_store s) (cellKey Object_tombstone obj None) = None"
    using checks(4) by (auto simp: check_tombstones_def store_has_def find_None_iff eq split: option.splits)
  moreover have "\<forall>c \<in> set (t_creates (cs_transcript sub)). store_get (sq_store s) (cellKey Object_lineage (cr_object c) None) = None"
    using checks(5) by (auto simp: check_creates_def find_None_iff eq split: option.splits)
  ultimately show ?thesis by blast
qed

text \<open>
  C3: an accepted submit was validated against the authority it committed to. Unless the reply is
  a replay, authorization succeeded, every versioned read of an owned cell names the version the
  authority holds now, every foreign read the version proved or attested for it, every ordering and
  log-page read the current content version of that ordering or page; no object it writes, creates,
  moves or recycles is tombstoned, and no object it creates exists.
\<close>

theorem submit_reads_validated:
  assumes "auth_ok (sq_store s)" "submit now sub s = (Inr (Accepted a), s')" "\<not> ac_replayed a"
  shows "\<exists>proved. run_authorize s sub = Inr proved \<and> reads_valid s proved sub
    \<and> (\<forall>obj \<in> set (lifecycle_objects (cs_transcript sub)). store_get (sq_store s) (cellKey Object_tombstone obj None) = None)
    \<and> (\<forall>c \<in> set (t_creates (cs_transcript sub)). store_get (sq_store s) (cellKey Object_lineage (cr_object c) None) = None)"
  by (rule submit_admits_reads [OF assms])

theorem submit_reads_validated_witness:
  "\<exists>a s'. submit 0 demo_commit demo_scope = (Inr (Accepted a), s') \<and> (\<exists>proved. reads_valid demo_scope proved demo_commit)"
proof -
  obtain a s' where r: "submit 0 demo_commit demo_scope = (Inr (Accepted a), s')" "\<not> ac_replayed a" by (rule demo_accepted)
  then show ?thesis using submit_reads_validated [OF demo_scope_ok r] by blast
qed

end
