(* ===== verification/Session_Facts.thy ===== *)
theory Session_Facts
  imports Sessions Submit_Facts
begin

text \<open>
  What session authorization guarantees: the evidence behind each session an admitted submit names,
  its composition with the read validation of the scope, and the digest parity of a mint.
\<close>

section \<open>Evidence\<close>

text \<open>The value a session was answered with, and where it came from.\<close>

definition session_evidence :: "commit_submit \<Rightarrow> session_deps \<Rightarrow> string \<Rightarrow> json \<Rightarrow> bool" where
  "session_evidence sub deps i v \<longleftrightarrow>
     (\<exists>w. jm_get (mint_map (cs_transcript sub)) i = Some w \<and> \<not> t_sessionClose (cs_transcript sub) \<and> v = tw_value w)
   \<or> (dp_ownsSession deps i \<and> dp_readSession deps i = Some v)
   \<or> (\<not> dp_ownsSession deps i \<and> (\<exists>version. projected_session deps i = Some (v, version)))
   \<or> (\<not> dp_ownsSession deps i \<and> (\<exists>r. read_of_session (cs_transcript sub) i = Some r \<and> v = tr_value r
        \<and> tr_version r \<noteq> None \<and> tr_version r = jm_get (attested_cells sub) (sessionCellKey i)))"

definition session_live :: "commit_submit \<Rightarrow> session_deps \<Rightarrow> string \<Rightarrow> bool" where
  "session_live sub deps i \<longleftrightarrow> (\<exists>v. session_evidence sub deps i v
     \<and> validateSessionCell (Some v) (dp_now deps) (Some (tk_actor (t_call (cs_transcript sub)))) = S_ok)"

text \<open>The one way past authorization without evidence: a foreign read that does not match its attestation.\<close>

definition stale_foreign :: "commit_submit \<Rightarrow> session_deps \<Rightarrow> string \<Rightarrow> bool" where
  "stale_foreign sub deps i \<longleftrightarrow> \<not> dp_ownsSession deps i \<and> jm_get (mint_map (cs_transcript sub)) i = None
     \<and> (\<exists>r av. read_of_session (cs_transcript sub) i = Some r \<and> jm_get (attested_cells sub) (sessionCellKey i) = Some av
        \<and> tr_version r \<noteq> Some av)"

lemma require_ok_None [simp]: "require_ok i verdict src = None \<longleftrightarrow> verdict = S_ok"
  by (simp add: require_ok_def)

lemma validate_None [simp]: "validateSessionCell None now actor = S_missing"
  by (simp add: validateSessionCell_def)

lemma validate_ok_Some:
  "validateSessionCell v now actor = S_ok \<Longrightarrow> \<exists>x. v = Some x"
  by (cases v) auto

lemma close_refusal_None:
  assumes "close_refusal deps t i v = None"
  shows "dp_ownsSession deps i \<and> t_session t = Some i
    \<and> validateSessionCell (dp_readSession deps i) (dp_now deps) (Some (tk_actor (t_call t))) = S_ok"
  using assms by (auto simp: close_refusal_def Let_def split: if_splits option.splits)

lemma authorize_mint_live:
  assumes "authorize_mint sub deps i (tw_value w) = Inr p" "jm_get (mint_map (cs_transcript sub)) i = Some w"
  shows "session_live sub deps i"
proof (cases "t_sessionClose (cs_transcript sub)")
  case True
  then have "close_refusal deps (cs_transcript sub) i (tw_value w) = None"
    using assms(1) by (auto simp: authorize_mint_def Let_def split: option.splits)
  from close_refusal_None [OF this] show ?thesis
    unfolding session_live_def session_evidence_def using validate_ok_Some by fastforce
next
  case False
  then have "validateSessionCell (Some (tw_value w)) (dp_now deps) (Some (tk_actor (t_call (cs_transcript sub)))) = S_ok"
    using assms(1) by (auto simp: authorize_mint_def Let_def require_ok_def split: option.splits if_splits)
  then show ?thesis using assms(2) False unfolding session_live_def session_evidence_def by blast
qed

lemma authorize_foreign_live:
  assumes run: "authorize_foreign sub deps i = Inr p" and own: "\<not> dp_ownsSession deps i"
    and mint: "jm_get (mint_map (cs_transcript sub)) i = None"
  shows "session_live sub deps i \<or> stale_foreign sub deps i"
proof -
  let ?av = "jm_get (attested_cells sub) (sessionCellKey i)" and ?rd = "read_of_session (cs_transcript sub) i"
  let ?ok = "\<lambda>v. validateSessionCell (Some v) (dp_now deps) (Some (tk_actor (t_call (cs_transcript sub)))) = S_ok"
  show ?thesis
  proof (cases "if ?av = None then projected_session deps i else None")
    case (Some pr)
    then have "?ok (fst pr)"
      using run by (cases pr) (auto simp: authorize_foreign_def Let_def split: if_splits option.splits)
    moreover have "session_evidence sub deps i (fst pr)"
      using Some own unfolding session_evidence_def by (metis option.distinct(1) prod.collapse)
    ultimately show ?thesis unfolding session_live_def by blast
  next
    case None
    then obtain r av where r: "?rd = Some r" "?av = Some av"
      using run by (auto simp: authorize_foreign_def Let_def split: if_splits option.splits)
    show ?thesis
    proof (cases "tr_version r = Some av")
      case True
      then have "?ok (tr_value r)"
        using run r by (auto simp: authorize_foreign_def Let_def require_ok_def split: if_splits)
      moreover have "session_evidence sub deps i (tr_value r)" using own r True unfolding session_evidence_def by simp
      ultimately show ?thesis unfolding session_live_def by blast
    next
      case False
      then show ?thesis using own mint r unfolding stale_foreign_def by blast
    qed
  qed
qed

lemma authorize_one_live:
  assumes "authorize_one sub deps i = Inr p"
  shows "session_live sub deps i \<or> stale_foreign sub deps i"
proof (cases "jm_get (mint_map (cs_transcript sub)) i")
  case (Some w)
  then show ?thesis using assms authorize_mint_live [of sub deps i w p] by (simp add: authorize_one_def)
next
  case None
  show ?thesis
  proof (cases "dp_ownsSession deps i")
    case True
    then have "validateSessionCell (dp_readSession deps i) (dp_now deps) (Some (tk_actor (t_call (cs_transcript sub)))) = S_ok"
      using assms None by (auto simp: authorize_one_def require_ok_def split: option.splits if_splits)
    then show ?thesis using True validate_ok_Some unfolding session_live_def session_evidence_def by metis
  next
    case False
    then show ?thesis using assms None authorize_foreign_live [of sub deps i p] by (simp add: authorize_one_def)
  qed
qed

lemma authorize_ids_all:
  assumes "authorize_ids sub deps ids projected = Inr p" "i \<in> set ids"
  shows "\<exists>q. authorize_one sub deps i = Inr q"
  using assms by (induction ids arbitrary: projected) (auto split: sum.splits option.splits)

lemma authorize_sound:
  assumes "authorizeSessionSubmit sub deps = Inr p"
  shows "(t_route (cs_transcript sub) = Sequenced \<longrightarrow> session_ids (cs_transcript sub) \<noteq> [])
    \<and> (\<forall>i \<in> set (session_ids (cs_transcript sub)). session_live sub deps i \<or> stale_foreign sub deps i)"
proof (cases "session_ids (cs_transcript sub) = []")
  case True
  then show ?thesis using assms by (auto simp: authorizeSessionSubmit_def Let_def split: if_splits)
next
  case False
  then have "authorize_ids sub deps (sort (session_ids (cs_transcript sub))) [] = Inr p"
    using assms by (simp add: authorizeSessionSubmit_def Let_def)
  then show ?thesis using authorize_ids_all authorize_one_live False by (metis set_sort)
qed

section \<open>Composition with admission\<close>

lemma sessionCellKey_inject [simp]: "sessionCellKey i = sessionCellKey j \<longleftrightarrow> i = j"
  by (simp add: sessionCellKey_def cellKey_def)

lemma authorize_one_key: "authorize_one sub deps i = Inr (Some (k, v)) \<Longrightarrow> k = sessionCellKey i"
  by (auto simp: authorize_one_def authorize_mint_def authorize_foreign_def Let_def split: option.splits if_splits)

lemma authorize_ids_proved:
  assumes "authorize_ids sub deps ids m = Inr p" "jm_get p (sessionCellKey i) = Some v"
  shows "jm_get m (sessionCellKey i) = Some v \<or> authorize_one sub deps i = Inr (Some (sessionCellKey i, v))"
  using assms
proof (induction ids arbitrary: m)
  case (Cons j ids)
  then obtain q where q: "authorize_one sub deps j = Inr q" by (auto split: sum.splits)
  show ?case
  proof (cases q)
    case None
    then show ?thesis using Cons q by simp
  next
    case (Some kv)
    then obtain k w where kv: "q = Some (k, w)" by (cases kv) simp
    then have "k = sessionCellKey j" using authorize_one_key q by blast
    then show ?thesis using Cons.IH [of "jm_set k w m"] Cons.prems q kv by (auto split: if_splits)
  qed
qed simp

lemma stale_not_proved:
  assumes "authorizeSessionSubmit sub deps = Inr p" "stale_foreign sub deps i"
  shows "jm_get p (sessionCellKey i) = None"
proof -
  have "authorize_one sub deps i \<noteq> Inr (Some (sessionCellKey i, v))" for v
    using assms(2) by (auto simp: stale_foreign_def authorize_one_def authorize_foreign_def Let_def split: option.splits if_splits)
  then show ?thesis using assms(1) authorize_ids_proved [of sub deps "sort (session_ids (cs_transcript sub))" "[]" p i]
    by (cases "jm_get p (sessionCellKey i)") (auto simp: authorizeSessionSubmit_def Let_def split: if_splits)
qed

lemma read_of_session_in: "read_of_session t i = Some r \<Longrightarrow> r \<in> set (t_reads t) \<and> tr_cell r = TSession i"
proof -
  assume "read_of_session t i = Some r"
  then have "r \<in> set (t_reads t)" "session_of_cell (tr_cell r) = Some i"
    by (auto simp: read_of_session_def find_Some_iff)
  then show ?thesis by (cases "tr_cell r") simp_all
qed

text \<open>
  C7: what an accepted turn proves about its sessions. At a scope whose authorization is
  \<open>authorizeSessionSubmit\<close>, owns no session that authorization thinks foreign and is sent no turn that creates
  an object under a session's identifier, a submit accepted afresh names a session when it is sequenced, and
  for every session it names one of two things holds: there is a value of it (the row it mints, the owner's
  own cell, the room's checkpoint or a read that matches the owner's attestation) that is unexpired and
  bound to the calling actor; or the session is foreign and the turn's read of it carries no version.
\<close>

theorem accepted_session_live:
  assumes "auth_ok (sq_store s)" "submit now sub s = (Inr (Accepted a), s')" "\<not> ac_replayed a"
    "so_authorize (sq_options s) = Some (\<lambda>sb. authorizeSessionSubmit sb deps)"
    "\<forall>i. dp_ownsSession deps i \<or> disowned s i"
    "\<forall>i \<in> set (session_ids (cs_transcript sub)). i \<notin> cr_object ` set (t_creates (cs_transcript sub))"
  shows "(t_route (cs_transcript sub) = Sequenced \<longrightarrow> session_ids (cs_transcript sub) \<noteq> [])
    \<and> (\<forall>i \<in> set (session_ids (cs_transcript sub)). session_live sub deps i
        \<or> \<not> dp_ownsSession deps i \<and> (\<exists>r. read_of_session (cs_transcript sub) i = Some r \<and> tr_version r = None))"
proof -
  obtain proved where p: "run_authorize s sub = Inr proved" "reads_valid s proved sub"
    using submit_admits_reads [OF assms(1-3)] by blast
  have auth: "authorizeSessionSubmit sub deps = Inr proved" using p(1) assms(4) by (simp add: run_authorize_def)
  have "\<not> dp_ownsSession deps i \<and> (\<exists>r. read_of_session (cs_transcript sub) i = Some r \<and> tr_version r = None)"
    if i: "i \<in> set (session_ids (cs_transcript sub))" and stale: "stale_foreign sub deps i" for i
  proof (rule ccontr)
    assume versioned: "\<not> ?thesis"
    from stale obtain r av where r: "read_of_session (cs_transcript sub) i = Some r" "tr_version r \<noteq> Some av"
      "jm_get (attested_cells sub) (sessionCellKey i) = Some av" "\<not> dp_ownsSession deps i" unfolding stale_foreign_def by blast
    note rd = read_of_session_in [OF r(1)]
    obtain v where v: "tr_version r = Some v" using versioned r by (cases "tr_version r") auto
    have "read_current s proved (attested_cells sub) (map cr_object (t_creates (cs_transcript sub))) r"
      using p(2) rd unfolding reads_valid_def by blast
    moreover have "netCellKeyFor (tr_cell r) = Some (sessionCellKey i)" using rd by (simp add: sessionCellKey_def)
    moreover have "disowned s i" using assms(5) r(4) by blast
    moreover have "i \<notin> set (map cr_object (t_creates (cs_transcript sub)))" using assms(6) i by simp
    ultimately have "(case jm_get proved (sessionCellKey i) of Some pv \<Rightarrow> Some pv | None \<Rightarrow> Some av) = Some v"
      using rd v r(3) unfolding read_current_def by (auto simp: sessionCellKey_def split: option.splits)
    then show False using stale_not_proved [OF auth stale] v r(2) by simp
  qed
  then show ?thesis using authorize_sound [OF auth] by blast
qed


definition demo_row :: json where
  "demo_row = JObj [(''id'', JStr ''s1''), (''actor'', JStr ''wiz''), (''expiresAt'', JNum 9)]"

definition demo_deps :: session_deps where
  "demo_deps = \<lparr>dp_ownsSession = (\<lambda>i. i = ''s1''), dp_readSession = (\<lambda>i. if i = ''s1'' then Some demo_row else None),
     dp_readProjectedSession = None, dp_now = 0, dp_sessionsForActor = None\<rparr>"

definition demo_session_scope :: sequencer where
  "demo_session_scope = demo_scope\<lparr>sq_options := default_options\<lparr>so_authorize := Some (\<lambda>sb. authorizeSessionSubmit sb demo_deps),
     so_owns := Some (\<lambda>i. i = ''s1'')\<rparr>\<rparr>"

definition demo_session_submit :: commit_submit where
  "demo_session_submit = demo_commit\<lparr>cs_transcript := demo_transcript\<lparr>t_session := Some ''s1''\<rparr>,
     cs_post_state_version := predicted demo_session_scope (demo_transcript\<lparr>t_session := Some ''s1''\<rparr>)\<rparr>"

lemma demo_session_ids: "session_ids (cs_transcript demo_session_submit) = [''s1'']"
  by (simp add: session_ids_def demo_session_submit_def demo_transcript_def js_add_def Let_def map_filter_simps)

lemma demo_session_authorized: "authorizeSessionSubmit demo_session_submit demo_deps = Inr []"
  unfolding authorizeSessionSubmit_def demo_session_ids Let_def
  by (simp add: authorize_one_def mint_map_def demo_session_submit_def demo_transcript_def demo_call_def demo_deps_def demo_row_def
      validateSessionCell_def require_ok_def)

lemma demo_session_admitted: "admission 0 demo_session_scope demo_session_submit = None"
proof -
  have "run_authorize demo_session_scope demo_session_submit = Inr []"
    by (simp add: run_authorize_def demo_session_scope_def demo_session_authorized)
  then show ?thesis unfolding admission_None
    by (auto simp: admission_defs demo_session_submit_def demo_commit_def demo_session_scope_def demo_scope_def fresh_sequencer_def
        default_options_def demo_transcript_def GUARANTEED_OUTCOME_CAPACITY_def classifyFailedTranscriptEffects_def Let_def store_has_def)
qed

theorem accepted_session_live_witness:
  "\<exists>a s'. submit 0 demo_session_submit demo_session_scope = (Inr (Accepted a), s') \<and> session_live demo_session_submit demo_deps ''s1''"
proof -
  have ok: "auth_ok (sq_store demo_session_scope)" using demo_scope_ok by (simp add: demo_session_scope_def)
  have t: "t_moves (cs_transcript demo_session_submit) \<noteq> []" "t_reads (cs_transcript demo_session_submit) = []"
    "t_creates (cs_transcript demo_session_submit) = []" by (simp_all add: demo_session_submit_def demo_transcript_def)
  obtain a s' where r: "submit 0 demo_session_submit demo_session_scope = (Inr (Accepted a), s')" "\<not> ac_replayed a"
  proof (rule submit_accepts [OF ok _ _ demo_session_admitted])
    show "jm_get (sq_replies demo_session_scope) (cs_idempotency_key demo_session_submit) = None" "sq_durable demo_session_scope = None"
      by (simp_all add: demo_session_scope_def demo_scope_def fresh_sequencer_def)
    show "cs_post_state_version demo_session_submit = predicted demo_session_scope (cs_transcript demo_session_submit)"
      by (simp add: demo_session_submit_def)
    show "changes_state demo_session_scope (cs_transcript demo_session_submit)"
      by (rule moves_touch [OF ok t(1)]) (simp add: demo_session_submit_def demo_transcript_def)
  qed auto
  have "session_live demo_session_submit demo_deps ''s1''"
    using accepted_session_live [OF ok r, of demo_deps] t demo_session_ids
    by (simp add: demo_session_scope_def demo_deps_def disowned_def)
  then show ?thesis using r(1) by blast
qed


text \<open>
  The second case occurs: a foreign session read without a version passes authorization on the mere
  presence of an attestation, whatever row it carries, and read validation skips it.
\<close>

lemma unversioned_session_read_unchecked:
  assumes "t_reads (cs_transcript sub) = [r]" "tr_cell r = TSession i" "tr_version r = None" "t_session (cs_transcript sub) = None"
    "t_writes (cs_transcript sub) = []" "\<not> dp_ownsSession deps i" "jm_get (attested_cells sub) (sessionCellKey i) = Some av"
  shows "authorizeSessionSubmit sub deps = Inr [] \<and> check_reads s [] sub = None"
proof -
  have ids: "session_ids (cs_transcript sub) = [i]" using assms by (simp add: session_ids_def Let_def map_filter_simps)
  have "read_of_session (cs_transcript sub) i = Some r" using assms by (simp add: read_of_session_def)
  then have "authorize_one sub deps i = Inr None"
    using assms by (simp add: authorize_one_def mint_map_def authorize_foreign_def Let_def)
  then show ?thesis using assms unfolding authorizeSessionSubmit_def ids Let_def by (simp add: check_reads_None read_current_def)
qed

text \<open>An expired session of another actor, read without a version beside an attestation of its key.\<close>

definition demo_unversioned :: commit_submit where
  "demo_unversioned = demo_commit\<lparr>cs_transcript := demo_transcript\<lparr>t_writes := [], t_session := None,
       t_reads := [\<lparr>tr_cell = TSession ''s2'', tr_version = None, tr_value = JObj [(''actor'', JStr ''mallory''), (''expiresAt'', JNum (- 1))]\<rparr>]\<rparr>,
     cs_attestations := [(''cluster:mallory'', \<lparr>at_owner_head = sq_headState demo_scope, at_cells = [(sessionCellKey ''s2'', ''v1'')],
       at_orderings = [], at_replays = []\<rparr>)]\<rparr>"

lemma unversioned_session_read_instance:
  "authorizeSessionSubmit demo_unversioned demo_deps = Inr [] \<and> check_reads demo_scope [] demo_unversioned = None"
  by (rule unversioned_session_read_unchecked [of _ _ "''s2''" _ "''v1''"])
    (simp add: demo_unversioned_def demo_deps_def attested_cells_def)+

section \<open>Digest parity of a mint\<close>

lemma final_mint_writes: "finalNetWritesByCell (mint_transcript i) = mint_writes i"
  by (simp add: finalNetWritesByCell_def mint_transcript_def mint_writes_def session_write_def finalWritesByCell_def)


text \<open>The versions a mint leaves at the keys it touches; they do not depend on the store.\<close>

definition mint_version :: "mint_input \<Rightarrow> string \<Rightarrow> string" where
  "mint_version i key = (if key = sessionCellKey (mi_session i) then cellVersion (mint_value i)
     else cellVersion (propertyCellPayload True (tw_value (hd (mint_writes i))) None))"

definition mint_keys :: "mint_input \<Rightarrow> string list" where
  "mint_keys i = List.map_filter (netCellKeyFor \<circ> tw_cell) (mint_writes i)"

text \<open>A stamped mint must find no attribution cell, as its callers check.\<close>

definition stampable :: "cell_store \<Rightarrow> mint_input \<Rightarrow> bool" where
  "stampable pre i \<longleftrightarrow> (mi_stampGuestCustomerOf i \<longrightarrow>
     store_get pre (cellKey Property_cell (mi_actor i) (Some PROP_CUSTOMER_OF)) = None)"

lemma mint_apply_state:
  fixes stamp :: epoch_stamp
  assumes ok: "auth_ok pre" and free: "stampable pre i"
  defines "st \<equiv> fold (apply_write (mint_transcript i) stamp) (mint_writes i)
    \<lparr>ap_post = pre, ap_touched = [], ap_projection = [], ap_recycled = []\<rparr>"
  shows "ap_touched st = mint_keys i"
    and "key \<in> set (mint_keys i) \<Longrightarrow> \<exists>c. store_get (ap_post st) key = Some c \<and> c_version c = mint_version i key"
proof -
  have k: "cellKey Property_cell a (Some n) \<noteq> cellKey Session b None" "cellKey Session b None \<noteq> cellKey Property_cell a (Some n)" for a n b
    by (simp_all add: cellKey_def)
  have role: "st_role pre = Authority" using ok by simp
  have role': "st_role (put_cell kd ob nm v sp pre) = Authority" for kd ob nm v sp using role by (simp add: put_cell_eq)
  show "ap_touched st = mint_keys i"
    unfolding st_def mint_keys_def mint_writes_def
    by (simp add: session_write_def apply_write_def touch_def on_post_def js_add_def map_filter_simps k)
  show "\<exists>c. store_get (ap_post st) key = Some c \<and> c_version c = mint_version i key" if "key \<in> set (mint_keys i)"
    using that free role role' unfolding st_def mint_keys_def mint_writes_def stampable_def mint_version_def sessionCellKey_def
    by (auto simp: session_write_def apply_write_def touch_def on_post_def js_add_def map_filter_simps k write_effect_def Let_def
        get_put propertyCellDef_def makeCell_def split: if_splits)
qed

lemma mint_digest:
  assumes ok: "auth_ok pre" and free: "stampable pre i" and ap: "applyTranscript pre (mint_transcript i) stamp = Inr r"
  shows "ar_postStateVersion r = cellVersion (JArr (map (\<lambda>key. JArr [JStr key, JStr (mint_version i key)]) (sort (mint_keys i))))"
proof -
  define st where "st = fold (apply_write (mint_transcript i) stamp) (mint_writes i)
    \<lparr>ap_post = store_clone pre, ap_touched = [], ap_projection = [], ap_recycled = []\<rparr>"
  have clone: "auth_ok (store_clone pre)" "stampable (store_clone pre) i"
    using ok free by (simp_all add: auth_ok_clone stampable_def store_get_clone)
  note m = mint_apply_state [OF clone, where stamp = stamp, folded st_def]
  have "apply_steps (mint_transcript i) stamp \<lparr>ap_post = store_clone pre, ap_touched = [], ap_projection = [], ap_recycled = []\<rparr> = st"
    unfolding apply_steps_def final_mint_writes st_def by (simp add: mint_transcript_def)
  then have "ar_postStateVersion r = postStateVersion (ap_post st) (sort (mint_keys i))"
    using ap ok m(1) by (auto simp: applyTranscript_def Let_def)
  also have "\<dots> = cellVersion (JArr (map (\<lambda>key. JArr [JStr key, JStr (mint_version i key)]) (sort (mint_keys i))))"
    unfolding postStateVersion_def using m(2) by (intro arg_cong [of _ _ cellVersion] arg_cong [of _ _ JArr] map_cong) fastforce+
  finally show ?thesis .
qed

text \<open>
  C39: a mint predicts the owner's digest without seeing the owner's cells. The digest that
  \<open>mintSessionSubmit\<close> derives over an empty scratch store is the one the committing scope derives over
  any sound authority store (one without an attribution cell, when the mint also stamps it).
\<close>

theorem mintSessionSubmit_parity:
  assumes "auth_ok pre" "mintSessionSubmit i = Some (Inr (sub, v))" "stampable pre i"
  shows "\<exists>applied. applyTranscript pre (cs_transcript sub) stamp = Inr applied
    \<and> ar_postStateVersion applied = cs_post_state_version sub"
proof -
  obtain r0 where r0: "applyTranscript (newStore Authority) (mint_transcript i) \<lparr>scope_head = ''planner'', catalog_epoch = mi_epoch i\<rparr> = Inr r0"
    using apply_spec [OF auth_ok_new] by metis
  then have sub: "cs_transcript sub = mint_transcript i" "cs_post_state_version sub = ar_postStateVersion r0"
    using assms(2) by (auto simp: mintSessionSubmit_def Let_def split: if_splits)
  obtain r where r: "applyTranscript pre (mint_transcript i) stamp = Inr r" using apply_spec [OF assms(1)] by metis
  have "stampable (newStore Authority) i" by (simp add: stampable_def)
  then show ?thesis using mint_digest [OF auth_ok_new _ r0] mint_digest [OF assms(1,3) r] sub r by simp
qed

definition demo_mint :: mint_input where
  "demo_mint = \<lparr>mi_session = ''s1'', mi_actor = ''wiz'', mi_ttl_ms = 1000, mi_now = 5, mi_base = sq_headState demo_scope, mi_epoch = ''e1'',
     mi_clusterScope = ''cluster:wiz'', mi_activeScope = Some ''hall'', mi_actorName = None, mi_apikeyId = None, mi_roster_hidden = False,
     mi_exclusive = False, mi_stampGuestCustomerOf = True, mi_closing = None\<rparr>"

theorem mintSessionSubmit_parity_witness:
  "\<exists>sub v applied. mintSessionSubmit demo_mint = Some (Inr (sub, v))
     \<and> applyTranscript (sq_store demo_scope) (cs_transcript sub) demo_stamp = Inr applied
     \<and> ar_postStateVersion applied = cs_post_state_version sub"
proof -
  obtain r0 where "applyTranscript (newStore Authority) (mint_transcript demo_mint) \<lparr>scope_head = ''planner'', catalog_epoch = mi_epoch demo_mint\<rparr> = Inr r0"
    using apply_spec [OF auth_ok_new] by metis
  then obtain sub v where m: "mintSessionSubmit demo_mint = Some (Inr (sub, v))"
    by (auto simp: mintSessionSubmit_def Let_def demo_mint_def)
  have "stampable (sq_store demo_scope) demo_mint" by (simp add: stampable_def demo_scope_def fresh_sequencer_def)
  from mintSessionSubmit_parity [OF demo_scope_ok m this, of demo_stamp] m show ?thesis by blast
qed

end
