(* ===== verification/Scope_Machine.thy ===== *)
theory Scope_Machine
  imports Scope_Ops Session_Facts
begin

text \<open>
  The scope sequencer as a state machine: one rule per public operation that changes state, what
  every operation keeps, and the properties of whole runs. A submit whose durable transaction
  throws (a log collision) ends a run.
\<close>

section \<open>Steps\<close>

text \<open>The names a committed cell may have: lineage and live cells are unnamed.\<close>

fun input_ok :: "cell_input \<Rightarrow> bool" where
  "input_ok (k, obj, nm, v) \<longleftrightarrow> (k \<in> {Object_lineage, Object_live} \<longrightarrow> nm = None)"

text \<open>
  \<open>scope_step T\<close> is one operation; a submit reads a clock before \<open>T\<close>. Cells that come from outside
  (seeds, repairs, riders) are well-formed.
\<close>

inductive scope_step :: "int \<Rightarrow> sequencer \<Rightarrow> sequencer \<Rightarrow> bool" for T where
  step_submit: "submit now sub s = (Inr reply, s') \<Longrightarrow> now < T \<Longrightarrow> scope_step T s s'"
| step_seed: "seed cells relations attr s = Inr s' \<Longrightarrow> \<forall>c \<in> set cells. input_ok c \<Longrightarrow> scope_step T s s'"
| step_activate: "operatorActivationWrite e s = s' \<Longrightarrow> scope_step T s s'"
| step_repair: "orderedOperatorRepair label cells removals s = (r, s') \<Longrightarrow> \<forall>c \<in> set cells. input_ok c \<Longrightarrow> scope_step T s s'"
| step_credential: "operatorEnsureCredential actor i rcd s = (r, s') \<Longrightarrow> scope_step T s s'"
| step_adopt: "adopt input s = (r, s') \<Longrightarrow> \<forall>c \<in> set (ai_cells input). wf_cell c \<Longrightarrow> scope_step T s s'"
| step_reap: "reapExpiredSessions now owns s = (r, s') \<Longrightarrow> scope_step T s s'"
| step_relate: "applyForeignRelationDeltas deltas from' ev s = (r, s') \<Longrightarrow> scope_step T s s'"
| step_rebuild: "rebuildRelations s = s' \<Longrightarrow> scope_step T s s'"
| step_schedule: "schedule turn now s = Inr s' \<Longrightarrow> scope_step T s s'"
| step_cancel: "cancel i s = (b, s') \<Longrightarrow> scope_step T s s'"
| step_due: "dueTurns le now limit only s = (turns, s') \<Longrightarrow> scope_step T s s'"
| step_counter: "objectCounter s = (n, s') \<Longrightarrow> scope_step T s s'"

inductive scope_run :: "int \<Rightarrow> sequencer \<Rightarrow> sequencer \<Rightarrow> bool" for T s where
  run_start: "scope_run T s s"
| run_step: "scope_run T s s' \<Longrightarrow> scope_step T s' s'' \<Longrightarrow> scope_run T s s''"

section \<open>What every operation keeps\<close>

text \<open>
  The frame of an operation other than a submit: replies and configuration stay, and the sequenced
  head either stays with its tail or moves by one link that the tail records.
\<close>

definition stayed :: "sequencer \<Rightarrow> sequencer \<Rightarrow> bool" where
  "stayed s s' \<longleftrightarrow> sh_seq (sq_headState s') = sh_seq (sq_headState s) \<and> sh_hash (sq_headState s') = sh_hash (sq_headState s)
     \<and> sq_tail s' = sq_tail s"

definition advanced :: "sequencer \<Rightarrow> sequencer \<Rightarrow> bool" where
  "advanced s s' \<longleftrightarrow> (\<exists>marker touched. sq_headState s' = next_head (sq_headState s) marker
     \<and> sq_tail s' = trim_tail (so_tailLimit (sq_options s)) (sq_tail s @ [tail_entry_of (sq_headState s) (sq_headState s') marker touched]))"

definition configured :: "sequencer \<Rightarrow> sequencer \<Rightarrow> bool" where
  "configured s s' \<longleftrightarrow> sq_options s' = sq_options s \<and> sq_scope s' = sq_scope s \<and> sq_catalogEpoch s' = sq_catalogEpoch s"

definition framed :: "sequencer \<Rightarrow> sequencer \<Rightarrow> bool" where
  "framed s s' \<longleftrightarrow> configured s s' \<and> sq_replies s' = sq_replies s \<and> (stayed s s' \<or> advanced s s')
     \<and> (auth_ok (sq_store s) \<longrightarrow> auth_ok (sq_store s'))"

lemmas frame_defs = framed_def configured_def stayed_def

lemma on_durable_sel [simp]:
  "sq_store (on_durable f s) = sq_store s" "sq_headState (on_durable f s) = sq_headState s" "sq_tail (on_durable f s) = sq_tail s"
  "sq_options (on_durable f s) = sq_options s" "sq_scope (on_durable f s) = sq_scope s" "sq_catalogEpoch (on_durable f s) = sq_catalogEpoch s"
  "sq_attribution (on_durable f s) = sq_attribution s" "sq_replies (on_durable f s) = sq_replies s"
  "sq_relationRows (on_durable f s) = sq_relationRows s" "sq_apiKeyVerifiers (on_durable f s) = sq_apiKeyVerifiers s"
  "sq_durable (on_durable f s) = map_option f (sq_durable s)"
  by (simp_all add: on_durable_def)

lemma sync_index_sel [simp]:
  "sq_store (syncOrderedRelationIndex ks s) = sq_store s" "sq_headState (syncOrderedRelationIndex ks s) = sq_headState s"
  "sq_tail (syncOrderedRelationIndex ks s) = sq_tail s" "sq_options (syncOrderedRelationIndex ks s) = sq_options s"
  "sq_scope (syncOrderedRelationIndex ks s) = sq_scope s" "sq_catalogEpoch (syncOrderedRelationIndex ks s) = sq_catalogEpoch s"
  "sq_attribution (syncOrderedRelationIndex ks s) = sq_attribution s" "sq_replies (syncOrderedRelationIndex ks s) = sq_replies s"
  "sq_relationRows (syncOrderedRelationIndex ks s) = sq_relationRows s" "sq_apiKeyVerifiers (syncOrderedRelationIndex ks s) = sq_apiKeyVerifiers s"
  "sq_durable (syncOrderedRelationIndex ks s) = sq_durable s"
  by (simp_all add: syncOrderedRelationIndex_def split: prod.split)

lemma owner_event_sel [simp]:
  "sq_headState (snd (owner_event m ks s)) = next_head (sq_headState s) m"
  "fst (owner_event m ks s) = tail_entry_of (sq_headState s) (next_head (sq_headState s) m) m ks"
  "sq_tail (snd (owner_event m ks s)) = trim_tail (so_tailLimit (sq_options s))
     (sq_tail s @ [tail_entry_of (sq_headState s) (next_head (sq_headState s) m) m ks])"
  "sq_store (snd (owner_event m ks s)) = sq_store s" "sq_options (snd (owner_event m ks s)) = sq_options s"
  "sq_scope (snd (owner_event m ks s)) = sq_scope s" "sq_catalogEpoch (snd (owner_event m ks s)) = sq_catalogEpoch s"
  "sq_attribution (snd (owner_event m ks s)) = sq_attribution s" "sq_replies (snd (owner_event m ks s)) = sq_replies s"
  "sq_durable (snd (owner_event m ks s)) = sq_durable s" "sq_relationRows (snd (owner_event m ks s)) = sq_relationRows s"
  "sq_apiKeyVerifiers (snd (owner_event m ks s)) = sq_apiKeyVerifiers s"
  by (simp_all add: owner_event_def Let_def push_tail_def)

lemma reindex_own_eq:
  "snd (reindex_own actors s) = s\<lparr>sq_apiKeyVerifiers := sq_apiKeyVerifiers (snd (reindex_own actors s))\<rparr>"
proof -
  have step: "(snd (reindex_actor st a acc))\<lparr>sq_apiKeyVerifiers := []\<rparr> = (snd acc)\<lparr>sq_apiKeyVerifiers := []\<rparr>" for st a acc
    by (cases acc) (simp add: reindex_actor_def replaceApiKeyVerifiersForActor_def Let_def split_beta)
  have "(snd (fold (reindex_actor st) as acc))\<lparr>sq_apiKeyVerifiers := []\<rparr> = (snd acc)\<lparr>sq_apiKeyVerifiers := []\<rparr>" for st as acc
    using fold_invariant [where g = "\<lambda>acc. (snd acc)\<lparr>sq_apiKeyVerifiers := []\<rparr>" and f = "reindex_actor st"] step by blast
  then have "(snd (reindex_own actors s))\<lparr>sq_apiKeyVerifiers := []\<rparr> = s\<lparr>sq_apiKeyVerifiers := []\<rparr>"
    unfolding reindex_own_def by simp
  from arg_cong [OF this, of "sq_apiKeyVerifiers_update (\<lambda>_. sq_apiKeyVerifiers (snd (reindex_own actors s)))"]
  show ?thesis by simp
qed

lemma reindex_own_sel [simp]:
  "sq_store (snd (reindex_own as s)) = sq_store s" "sq_headState (snd (reindex_own as s)) = sq_headState s"
  "sq_tail (snd (reindex_own as s)) = sq_tail s" "sq_options (snd (reindex_own as s)) = sq_options s"
  "sq_scope (snd (reindex_own as s)) = sq_scope s" "sq_catalogEpoch (snd (reindex_own as s)) = sq_catalogEpoch s"
  "sq_attribution (snd (reindex_own as s)) = sq_attribution s" "sq_replies (snd (reindex_own as s)) = sq_replies s"
  "sq_durable (snd (reindex_own as s)) = sq_durable s" "sq_relationRows (snd (reindex_own as s)) = sq_relationRows s"
  by (subst reindex_own_eq, simp)+

text \<open>Stores: committing inputs and deleting keys keep the authority sound.\<close>

lemma auth_ok_put_inputs:
  "auth_ok st \<Longrightarrow> \<forall>c \<in> set cells. input_ok c \<Longrightarrow> auth_ok (fold (put_input stamp) cells st)"
  by (induction cells arbitrary: st) (auto simp: auth_ok_put)

lemma auth_ok_deletes: "auth_ok st \<Longrightarrow> auth_ok (fold store_delete ks st)"
  by (induction ks arbitrary: st) (auto simp: auth_ok_delete)

lemma auth_ok_retire: "auth_ok (snd acc) \<Longrightarrow> auth_ok (snd (retire_live stamp r acc))"
  by (auto simp: retire_live_def auth_ok_put split: prod.split bool.split option.split)

lemma auth_ok_retires: "auth_ok (snd acc) \<Longrightarrow> auth_ok (snd (fold (retire_live stamp) rs acc))"
  by (induction rs arbitrary: acc) (auto simp: auth_ok_retire)

lemma advancedI:
  assumes "sq_headState s' = next_head (sq_headState s) m"
    "sq_tail s' = trim_tail (so_tailLimit (sq_options s)) (sq_tail s @ [tail_entry_of (sq_headState s) (next_head (sq_headState s) m) m ks])"
  shows "advanced s s'"
  unfolding advanced_def using assms by metis

lemma bump_generation_sel [simp]: "sh_seq (bump_generation h) = sh_seq h" "sh_hash (bump_generation h) = sh_hash h"
  by (simp_all add: bump_generation_def)

lemma framed_seed:
  assumes "seed cells relations attr s = Inr s'" "\<forall>c \<in> set cells. input_ok c"
  shows "framed s s'"
  using assms unfolding frame_defs seed_def Let_def seed_relations_def
  by (auto simp: auth_ok_put_inputs split: if_splits option.splits)

lemma framed_activate: "framed s (operatorActivationWrite e s)"
  unfolding frame_defs operatorActivationWrite_def Let_def by (simp add: auth_ok_put)

lemma framed_repair:
  assumes "orderedOperatorRepair label cells removals s = (r, s')" "\<forall>c \<in> set cells. input_ok c"
  shows "framed s s'"
proof (cases "filter (input_changed (sq_store s)) cells = [] \<and> filter (store_has (sq_store s)) (map (\<lambda>(k, obj, nm). cellKey k obj nm) removals) = []")
  case True
  then show ?thesis using assms unfolding frame_defs orderedOperatorRepair_def Let_def by simp
next
  case False
  let ?changed = "filter (input_changed (sq_store s)) cells"
  let ?removed = "filter (store_has (sq_store s)) (map (\<lambda>(k, obj, nm). cellKey k obj nm) removals)"
  from False assms(1) have eq: "snd (orderedOperatorRepair label cells removals s) = s'" by simp
  have "advanced s s'"
    by (rule advancedI) (simp_all add: eq [symmetric] orderedOperatorRepair_def Let_def split_beta False)
  moreover have "auth_ok (sq_store s) \<longrightarrow> auth_ok (sq_store s')"
    using assms(2) by (simp add: eq [symmetric] orderedOperatorRepair_def Let_def split_beta False auth_ok_deletes auth_ok_put_inputs)
  moreover have "configured s s'" "sq_replies s' = sq_replies s"
    by (simp_all add: configured_def eq [symmetric] orderedOperatorRepair_def Let_def split_beta False)
  ultimately show ?thesis unfolding framed_def by blast
qed

lemma framed_refl [simp]: "framed s s"
  by (simp add: frame_defs)

lemma framed_ensure: "framed s (snd (ensure_credential actor i rcd payload m v s))"
proof -
  have "advanced s (snd (ensure_credential actor i rcd payload m v s))"
    by (rule advancedI) (simp_all add: ensure_credential_def Let_def split_beta)
  then show ?thesis unfolding framed_def configured_def
    by (simp add: ensure_credential_def Let_def split_beta auth_ok_put)
qed

lemma framed_credential:
  assumes "operatorEnsureCredential actor i rcd s = (r, s')"
  shows "framed s s'"
proof -
  have "s' = s \<or> (\<exists>payload m v. s' = snd (ensure_credential actor i rcd payload m v s))"
    using assms unfolding operatorEnsureCredential_def Let_def
    by (auto split: if_splits option.splits) (metis snd_conv)+
  then show ?thesis using framed_ensure by auto
qed

lemma input_ok_cell: "wf_cell c \<Longrightarrow> input_ok (cell_as_input c)"
  by (simp add: wf_cell_def cell_as_input_def)

lemma framed_adopt:
  assumes "adopt input s = (r, s')" "\<forall>c \<in> set (ai_cells input). wf_cell c"
  shows "framed s s'"
proof (cases "adopt_mutations s input \<noteq> [] \<or> adopt_cells s input = [] \<and> adopt_removals s input = []")
  case True
  then show ?thesis using assms(1) by (auto simp: adopt_def Let_def split: if_splits)
next
  case False
  then have c: "adopt_mutations s input = []" "(adopt_cells s input = [] \<and> adopt_removals s input = []) = False" by blast+
  have eq: "snd (adopt input s) = s'" using assms(1) by simp
  have inputs: "\<forall>c \<in> set (map cell_as_input (adopt_cells s input)). input_ok c"
    using assms(2) by (auto simp: adopt_cells_def input_ok_cell)
  have "advanced s s'"
    by (rule advancedI) (simp_all add: eq [symmetric] adopt_def Let_def split_beta c)
  moreover have "auth_ok (sq_store s) \<longrightarrow> auth_ok (sq_store s')"
    using auth_ok_deletes [OF auth_ok_put_inputs [OF _ inputs]] by (simp add: eq [symmetric] adopt_def Let_def split_beta c)
  moreover have "configured s s'" "sq_replies s' = sq_replies s"
    by (simp_all add: configured_def eq [symmetric] adopt_def Let_def split_beta c)
  ultimately show ?thesis unfolding framed_def by blast
qed

lemma framed_reap:
  assumes "reapExpiredSessions now owns s = (r, s')"
  shows "framed s s'"
proof (cases "expired_cells now owns s = []")
  case True
  then show ?thesis using assms by (auto simp: reapExpiredSessions_def Let_def)
next
  case False
  have eq: "snd (reapExpiredSessions now owns s) = s'" using assms by simp
  have "advanced s s'"
    by (rule advancedI) (use False in \<open>simp_all add: eq [symmetric] reapExpiredSessions_def Let_def split_beta\<close>)
  moreover have "auth_ok (sq_store s) \<longrightarrow> auth_ok (sq_store s')"
    using False by (auto simp: eq [symmetric] reapExpiredSessions_def Let_def split_beta intro!: auth_ok_retires auth_ok_deletes)
  moreover have "configured s s'" "sq_replies s' = sq_replies s"
    using False by (auto simp: configured_def eq [symmetric] reapExpiredSessions_def Let_def split_beta)
  ultimately show ?thesis unfolding framed_def by blast
qed

lemma framed_relate:
  assumes "applyForeignRelationDeltas deltas from' ev s = (r, s')"
  shows "framed s s'"
proof (cases "fst (apply_relations deltas s) = [] \<and> \<not> ev")
  case True
  then show ?thesis using assms by (auto simp: applyForeignRelationDeltas_def frame_defs Let_def split_beta)
next
  case False
  then obtain m ks f where "s' = on_durable f (snd (owner_event m ks (snd (apply_relations deltas s))))"
    using assms by (auto simp: applyForeignRelationDeltas_def Let_def split_beta split: if_splits)
  then show ?thesis unfolding framed_def configured_def by (simp add: advancedI)
qed

lemma framed_rebuild: "framed s (rebuildRelations s)"
  unfolding frame_defs rebuildRelations_def Let_def by simp

lemma framed_queue:
  assumes "queue_free s' = queue_free s"
  shows "framed s s'"
  unfolding frame_defs using assms by (metis queue_free_sel)

lemma queue_free_due: "queue_free (snd (dueTurns le now limit only s)) = queue_free s"
proof -
  have "queue_free (pop_turn i s) = queue_free s" for i s
    by (simp add: pop_turn_def queue_free_def deleteScheduled_def on_durable_def option.map_comp comp_def)
  then have "queue_free (fold (\<lambda>t. pop_turn (su_id t)) ts s) = queue_free s" for ts
    by (rule fold_invariant)
  then show ?thesis by (simp add: dueTurns_def Let_def)
qed

lemma framed_counter: "framed s (snd (objectCounter s))"
  by (simp add: frame_defs objectCounter_def Let_def split: option.split)

text \<open>A step is a submit or a framed operation.\<close>

lemma scope_step_cases:
  assumes "scope_step T s s'"
  obtains (submit) now sub reply where "submit now sub s = (Inr reply, s')" "now < T"
  | (framed) "framed s s'"
  using assms
proof (cases rule: scope_step.cases)
  case (step_schedule turn now)
  then have "s' = store_scheduled turn s" by (auto simp: schedule_def split: if_splits)
  then show ?thesis using framed framed_queue by simp
next
  case (step_cancel i b)
  then show ?thesis using framed framed_queue queue_free_cancel [of i s] by simp
next
  case (step_due le now limit only turns)
  then show ?thesis using framed framed_queue queue_free_due [of le now limit only s] by simp
next
  case (step_counter n)
  then show ?thesis using framed framed_counter [of s] by simp
next
  case (step_submit now sub reply)
  then show ?thesis by (rule submit)
next
  case (step_seed cells relations attr)
  then show ?thesis by (intro framed framed_seed)
next
  case (step_activate e)
  then show ?thesis using framed framed_activate by blast
next
  case (step_repair label cells removals r)
  then show ?thesis by (intro framed framed_repair)
next
  case (step_credential actor i rcd r)
  then show ?thesis by (intro framed framed_credential)
next
  case (step_adopt input r)
  then show ?thesis by (intro framed framed_adopt)
next
  case (step_reap now owns r)
  then show ?thesis by (intro framed framed_reap)
next
  case (step_relate deltas from' ev r)
  then show ?thesis by (intro framed framed_relate)
next
  case step_rebuild
  then show ?thesis using framed framed_rebuild by blast
qed

text \<open>The head of a scope moves by at most one link, and the tail records it.\<close>

lemma authority_stayed: "authority s' = authority s \<Longrightarrow> stayed s s' \<and> configured s s'"
  by (simp add: stayed_def configured_def authority_eqD [of s' s])

lemma scope_step_head:
  assumes "scope_step T s s'" "auth_ok (sq_store s)"
  shows "(stayed s s' \<or> advanced s s') \<and> configured s s' \<and> auth_ok (sq_store s')"
  using assms(1)
proof (cases rule: scope_step_cases)
  case (submit now sub reply)
  from assms(2) submit(1) show ?thesis
  proof (cases rule: submit_effect)
    case kept
    then show ?thesis using authority_stayed authority_eqD(1) [OF kept(1)] assms(2) by simp
  next
    case (committed a s1)
    note eq = authority_eqD [OF committed(3)]
    show ?thesis using committed(6) unfolding committed_def configured_def advanced_def eq by metis
  qed
next
  case framed
  then show ?thesis using assms(2) by (simp add: framed_def)
qed

end
