(* ===== verification/Scope_History.thy ===== *)
theory Scope_History
  imports Scope_Machine
begin

text \<open>
  The bounded recovery tail against its specification: the list of all sequenced heads a scope has
  had since it was created. The tail holds the links between the most recent ones, and a submit may
  be based on exactly the heads it proves.
\<close>

section \<open>The history of a scope\<close>

definition head_point :: "sequencer \<Rightarrow> int \<times> string" where
  "head_point s = (sh_seq (sq_headState s), sh_hash (sq_headState s))"

text \<open>The heads so far, newest first, along a run from a new scope.\<close>

inductive scope_history :: "(int \<times> string) list \<Rightarrow> sequencer \<Rightarrow> bool" where
  history_new: "d \<in> {None, Some empty_scope_store} \<Longrightarrow> s = fresh_sequencer scope epoch opts d \<Longrightarrow> scope_history [head_point s] s"
| history_step: "scope_history hs s \<Longrightarrow> scope_step T s s' \<Longrightarrow>
    hs' = (if head_point s' = hd hs then hs else head_point s' # hs) \<Longrightarrow> scope_history hs' s'"

fun links :: "(int \<times> string) list \<Rightarrow> (int \<times> string option \<times> string option) list" where
  "links (p # q # ps) = (fst p, Some (snd q), Some (snd p)) # links (q # ps)"
| "links _ = []"

definition entry_link :: "tail_entry \<Rightarrow> int \<times> string option \<times> string option" where
  "entry_link e = (ta_seq e, ta_base_hash e, ta_head_hash e)"

text \<open>Sequence numbers count down to zero.\<close>

fun counted :: "(int \<times> string) list \<Rightarrow> bool" where
  "counted [] = False"
| "counted [p] = (fst p = 0)"
| "counted (p # q # ps) = (fst p = fst q + 1 \<and> counted (q # ps))"

definition history_ok :: "(int \<times> string) list \<Rightarrow> sequencer \<Rightarrow> bool" where
  "history_ok hs s \<longleftrightarrow> counted hs \<and> hd hs = head_point s \<and> auth_ok (sq_store s)
     \<and> map entry_link (rev (sq_tail s)) = take (so_tailLimit (sq_options s)) (links hs)"

lemma rev_trim_tail: "rev (trim_tail n xs) = take n (rev xs)"
  by (simp add: trim_tail_def take_rev)

lemma counted_not_Nil: "counted hs \<Longrightarrow> hs \<noteq> []"
  by auto

lemma history_invariant: "scope_history hs s \<Longrightarrow> history_ok hs s"
proof (induction rule: scope_history.induct)
  case (history_new d s scope epoch opts)
  then show ?case by (simp add: history_ok_def fresh_sequencer_def head_point_def auth_ok_new)
next
  case (history_step hs s T s' hs')
  have inv: "counted hs" "hd hs = head_point s" "auth_ok (sq_store s)"
    "map entry_link (rev (sq_tail s)) = take (so_tailLimit (sq_options s)) (links hs)"
    using history_step.IH by (simp_all add: history_ok_def)
  note st = scope_step_head [OF history_step.hyps(2) inv(3)]
  then have opts: "sq_options s' = sq_options s" by (simp add: configured_def)
  obtain p ps where hs: "hs = p # ps" using inv(1) by (cases hs) auto
  show ?case
  proof (cases "stayed s s'")
    case True
    then have "head_point s' = hd hs" using inv(2) by (simp add: stayed_def head_point_def)
    then show ?thesis using True inv st opts history_step.hyps(3) by (simp add: history_ok_def stayed_def)
  next
    case False
    then obtain m ks where adv: "sq_headState s' = next_head (sq_headState s) m"
      "sq_tail s' = trim_tail (so_tailLimit (sq_options s)) (sq_tail s @ [tail_entry_of (sq_headState s) (sq_headState s') m ks])"
      using st unfolding advanced_def by blast
    have p: "p = head_point s" using inv(2) hs by simp
    have hp: "fst (head_point s') = fst p + 1" by (simp add: head_point_def adv(1) next_head_def p)
    then have hs': "hs' = head_point s' # hs" using history_step.hyps(3) hs by auto
    let ?n = "so_tailLimit (sq_options s)"
    have "map entry_link (take (?n - 1) (rev (sq_tail s))) = take (?n - 1) (take ?n (links hs))"
      unfolding inv(4) [symmetric] by (simp add: take_map)
    then have "map entry_link (take (?n - 1) (rev (sq_tail s))) = take (?n - 1) (links hs)" by simp
    then have "map entry_link (rev (sq_tail s')) = take ?n (links hs')"
      unfolding adv(2) rev_trim_tail hs' hs
      by (simp add: entry_link_def tail_entry_of_def head_point_def p take_Cons' hs)
    then show ?thesis using inv(1) hp hs hs' st opts by (simp add: history_ok_def)
  qed
qed

section \<open>Which bases are retained\<close>

lemma counted_nth: "counted hs \<Longrightarrow> i < length hs \<Longrightarrow> fst (hs ! i) = int (length hs - 1 - i)"
proof (induction hs arbitrary: i rule: counted.induct)
  case (3 p q ps)
  then have q: "fst ((q # ps) ! j) = int (length (q # ps) - 1 - j)" if "j < length (q # ps)" for j using that by simp
  show ?case
  proof (cases i)
    case 0
    then show ?thesis using 3(2) q [of 0] by simp
  next
    case (Suc j)
    then show ?thesis using 3(3) q [of j] by simp
  qed
qed auto

lemma links_nth: "Suc i < length hs \<Longrightarrow> links hs ! i = (fst (hs ! i), Some (snd (hs ! Suc i)), Some (snd (hs ! i)))"
  by (induction hs arbitrary: i rule: links.induct) (auto simp: nth_Cons split: nat.split)

lemma length_links [simp]: "length (links hs) = length hs - 1"
  by (induction hs rule: links.induct) auto

text \<open>On entries in descending order the early exits of the search lose nothing.\<close>

definition proves :: "scope_head \<Rightarrow> int \<times> string option \<times> string option \<Rightarrow> bool" where
  "proves base l \<longleftrightarrow> (case l of (sq, b, h) \<Rightarrow> (sq = sh_seq base \<and> h = Some (sh_hash base)) \<or> (sq = sh_seq base + 1 \<and> b = Some (sh_hash base)))"

lemma base_in_tail_iff:
  assumes "sorted_wrt (\<lambda>a b. ta_seq a > ta_seq b) es"
  shows "base_in_tail base es \<longleftrightarrow> (\<exists>e \<in> set es. proves base (entry_link e))"
  using assms
proof (induction es)
  case (Cons e es)
  have "\<not> proves base (entry_link x)" if "ta_seq e < sh_seq base" "x \<in> set es" for x
    using that Cons.prems by (fastforce simp: proves_def entry_link_def)
  then show ?case using Cons by (auto simp: proves_def entry_link_def)
qed simp

lemma sorted_by_nth:
  assumes "\<And>i j. i < j \<Longrightarrow> j < length xs \<Longrightarrow> P (xs ! i) (xs ! j)"
  shows "sorted_wrt P xs"
  using assms by (simp add: sorted_wrt_iff_nth_less)

lemma nth_in_take: "i < n \<Longrightarrow> i < length xs \<Longrightarrow> xs ! i \<in> set (take n xs)"
  by (metis in_set_conv_nth length_take min_less_iff_conj nth_take)

text \<open>The retained links prove exactly the points of the retained window.\<close>

lemma proves_window:
  assumes c: "counted hs" and n: "n \<le> length hs - 1" "0 < n"
  shows "(\<exists>l \<in> set (take n (links hs)). proves base l) \<longleftrightarrow> (sh_seq base, sh_hash base) \<in> set (take (Suc n) hs)"
proof
  assume "\<exists>l \<in> set (take n (links hs)). proves base l"
  then obtain i where i: "i < n" "proves base (links hs ! i)" using n by (auto simp: in_set_conv_nth)
  then have l: "links hs ! i = (fst (hs ! i), Some (snd (hs ! Suc i)), Some (snd (hs ! i)))" using n by (intro links_nth) simp
  have "fst (hs ! Suc i) + 1 = fst (hs ! i)" using counted_nth [OF c, of i] counted_nth [OF c, of "Suc i"] i n by simp
  then have "(sh_seq base, sh_hash base) = hs ! i \<or> (sh_seq base, sh_hash base) = hs ! Suc i"
    using i(2) unfolding l proves_def by (auto simp: prod_eq_iff)
  then show "(sh_seq base, sh_hash base) \<in> set (take (Suc n) hs)"
    using nth_in_take [of i "Suc n" hs] nth_in_take [of "Suc i" "Suc n" hs] i(1) n by auto
next
  assume "(sh_seq base, sh_hash base) \<in> set (take (Suc n) hs)"
  then obtain i where i: "i \<le> n" "i < length hs" "hs ! i = (sh_seq base, sh_hash base)" by (auto simp: in_set_conv_nth less_Suc_eq_le)
  let ?j = "if i < n then i else i - 1"
  have j: "?j < n" "Suc ?j < length hs" using i n by auto
  have "proves base (links hs ! ?j)"
  proof (cases "i < n")
    case True
    then show ?thesis using i(3) links_nth [OF j(2)] by (simp add: proves_def)
  next
    case False
    then have "i = Suc ?j" using i n by simp
    moreover have "fst (hs ! ?j) = fst (hs ! Suc ?j) + 1" using counted_nth [OF c, of ?j] counted_nth [OF c, of "Suc ?j"] j by simp
    ultimately show ?thesis using i(3) links_nth [OF j(2)] by (simp add: proves_def)
  qed
  then show "\<exists>l \<in> set (take n (links hs)). proves base l"
    using nth_in_take [of ?j n "links hs"] j by auto
qed

lemma tail_descending:
  assumes "history_ok hs s"
  shows "sorted_wrt (\<lambda>a b. ta_seq a > ta_seq b) (rev (sq_tail s))"
proof (rule sorted_by_nth)
  fix i j
  assume ij: "i < j" "j < length (rev (sq_tail s))"
  let ?n = "so_tailLimit (sq_options s)"
  have c: "counted hs" and links: "map entry_link (rev (sq_tail s)) = take ?n (links hs)"
    using assms by (simp_all add: history_ok_def)
  have len: "length (rev (sq_tail s)) = min (length hs - 1) ?n" using arg_cong [OF links, of length] by simp
  have "ta_seq (rev (sq_tail s) ! k) = fst (hs ! k)" if "k < length (rev (sq_tail s))" for k
  proof -
    have "entry_link (rev (sq_tail s) ! k) = links hs ! k"
      using arg_cong [OF links, of "\<lambda>xs. xs ! k"] that len by simp
    then show ?thesis using links_nth [of k hs] that len by (simp add: entry_link_def)
  qed
  moreover have "i < length hs" "j < length hs" using ij len by auto
  ultimately show "ta_seq (rev (sq_tail s) ! i) > ta_seq (rev (sq_tail s) ! j)"
    using counted_nth [OF c, of i] counted_nth [OF c, of j] ij by simp
qed

lemma retained_iff:
  assumes "history_ok hs s" "sh_seq base \<noteq> sh_seq (sq_headState s)"
  shows "baseIsCurrentOrRetained s base \<longleftrightarrow> (sh_seq base, sh_hash base) \<in> set (take (Suc (so_tailLimit (sq_options s))) hs)"
proof -
  let ?n = "so_tailLimit (sq_options s)"
  have c: "counted hs" and hd: "hd hs = head_point s" and links: "map entry_link (rev (sq_tail s)) = take ?n (links hs)"
    using assms(1) by (simp_all add: history_ok_def)
  obtain p ps where hs: "hs = p # ps" using counted_not_Nil [OF c] by (cases hs) auto
  define n where "n = min ?n (length hs - 1)"
  have links_n: "take ?n (links hs) = take n (links hs)" and hs_n: "take (Suc ?n) hs = take (Suc n) hs"
    by (simp_all add: n_def min_def hs)
  have "base_in_tail base (rev (sq_tail s)) \<longleftrightarrow> (\<exists>l \<in> set (map entry_link (rev (sq_tail s))). proves base l)"
    using base_in_tail_iff [OF tail_descending [OF assms(1)]] by simp
  also have "\<dots> \<longleftrightarrow> (sh_seq base, sh_hash base) \<in> set (take (Suc n) hs)"
  proof (cases "n = 0")
    case True
    then show ?thesis using assms(2) hd unfolding links links_n by (auto simp: hs head_point_def)
  next
    case False
    then show ?thesis unfolding links links_n by (intro proves_window [OF c]) (simp_all add: n_def)
  qed
  finally have in_tail: "base_in_tail base (rev (sq_tail s)) \<longleftrightarrow> (sh_seq base, sh_hash base) \<in> set (take (Suc n) hs)" .
  have "0 \<le> sh_seq base \<and> sh_seq base \<le> sh_seq (sq_headState s)" if mem: "(sh_seq base, sh_hash base) \<in> set hs"
  proof -
    obtain i where i: "i < length hs" "hs ! i = (sh_seq base, sh_hash base)" using mem unfolding in_set_conv_nth by blast
    then show ?thesis using counted_nth [OF c i(1)] counted_nth [OF c, of 0] hd hs by (simp add: head_point_def)
  qed
  then have "(sh_seq base, sh_hash base) \<in> set (take (Suc n) hs) \<Longrightarrow> 0 \<le> sh_seq base \<and> sh_seq base \<le> sh_seq (sq_headState s)"
    using in_set_takeD by fast
  then show ?thesis using in_tail assms(2) by (auto simp: baseIsCurrentOrRetained_def hs_n)
qed

text \<open>
  C4: the recovery tail implements a window over the scope's history. Along any run from a new scope,
  a submit's base that is not the current sequence number is accepted by \<open>baseIsCurrentOrRetained\<close>
  exactly when it is one of the last \<open>tailLimit + 1\<close> heads the scope had, with its hash: the backwards
  search with its early exits misses no ancestor and admits nothing else.
\<close>

theorem retained_base_history:
  assumes "scope_history hs s" "sh_seq base \<noteq> sh_seq (sq_headState s)"
  shows "baseIsCurrentOrRetained s base \<longleftrightarrow> (sh_seq base, sh_hash base) \<in> set (take (Suc (so_tailLimit (sq_options s))) hs)"
  by (rule retained_iff [OF history_invariant [OF assms(1)] assms(2)])

theorem retained_base_history_witness:
  "\<exists>a s'. submit 0 demo_commit demo_scope = (Inr (Accepted a), s') \<and> baseIsCurrentOrRetained s' (sq_headState demo_scope)"
proof -
  obtain a s' where r: "submit 0 demo_commit demo_scope = (Inr (Accepted a), s')"
    "sq_headState s' = next_head (sq_headState demo_scope) ''t1''" by (rule demo_accepted)
  have step: "scope_step 1 demo_scope s'" using r(1) by (rule step_submit) simp
  have "scope_history [head_point demo_scope] demo_scope" by (rule history_new [of None]) (simp_all add: demo_scope_def)
  then have h: "scope_history [head_point s', head_point demo_scope] s'"
    by (rule history_step [OF _ step]) (simp add: head_point_def r(2) next_head_def)
  have "sh_seq (sq_headState demo_scope) \<noteq> sh_seq (sq_headState s')" by (simp add: r(2) next_head_def)
  moreover have "so_tailLimit (sq_options s') = 256"
    using scope_step_head [OF step demo_scope_ok]
    by (simp add: configured_def demo_scope_def fresh_sequencer_def default_options_def DEFAULT_TAIL_LIMIT_def)
  ultimately have "baseIsCurrentOrRetained s' (sq_headState demo_scope)"
    using retained_base_history [OF h, of "sq_headState demo_scope"] by (simp add: head_point_def)
  then show ?thesis using r(1) by blast
qed

end
