(* ===== verification/Durable_Tables.thy ===== *)
theory Durable_Tables
  imports Scope_Machine
begin

text \<open>
  The keyed row families of the durable store (\<open>src/net/scope-store.ts\<close>) as one interface: a table in
  which a row is put or deleted by key, and which is to mirror a map the sequencer keeps in memory. Two
  write patterns keep the mirror: writing the changed keys through, and replacing the whole family.
\<close>

section \<open>A mirrored table\<close>

text \<open>The table agrees with the map, and every row of the map is under its own key.\<close>

definition mirror :: "('v \<Rightarrow> string) \<Rightarrow> (string, 'v) jsmap \<Rightarrow> (string, 'v) jsmap \<Rightarrow> bool" where
  "mirror key_of m rows \<longleftrightarrow> jm_ok m \<and> jm_ok rows \<and> (\<forall>k v. jm_get m k = Some v \<longrightarrow> key_of v = k) \<and> jm_get rows = jm_get m"

lemma mirror_keyed: "mirror key_of m rows \<Longrightarrow> (k, v) \<in> set rows \<Longrightarrow> key_of v = k"
  unfolding mirror_def by (metis jm_get_iff)

lemma get_puts: "jm_ok m \<Longrightarrow> jm_get (fold (\<lambda>(key, v) t. jm_set key v t) m t) k = (case jm_get m k of Some v \<Rightarrow> Some v | None \<Rightarrow> jm_get t k)"
proof (induction m arbitrary: t)
  case (Cons p m)
  obtain key v where p: "p = (key, v)" by (cases p)
  have "jm_get m key = None" using Cons.prems p by (simp add: map_of_eq_None_iff)
  then show ?case using Cons.IH [of "jm_set key v t"] Cons.prems p by (cases "k = key") (simp_all split: option.split)
qed simp

lemma ok_puts: "jm_ok t \<Longrightarrow> jm_ok (fold (\<lambda>(key, v) t. jm_set key v t) m t)"
  by (induction m arbitrary: t) auto

locale durable_table =
  fixes rows :: "scope_store \<Rightarrow> (string, 'v) jsmap"
    and set_rows :: "(string, 'v) jsmap \<Rightarrow> scope_store \<Rightarrow> scope_store"
    and put :: "string \<Rightarrow> 'v \<Rightarrow> scope_store \<Rightarrow> scope_store"
    and del :: "string \<Rightarrow> scope_store \<Rightarrow> scope_store"
    and key_of :: "'v \<Rightarrow> string"
  assumes put_rows: "put k v d = set_rows (jm_set k v (rows d)) d"
    and del_rows: "del k d = set_rows (jm_del k (rows d)) d"
    and rows_set [simp]: "rows (set_rows m d) = m"
    and set_set [simp]: "set_rows m (set_rows m' d) = set_rows m d"
    and set_same [simp]: "set_rows (rows d) d = d"
begin

lemma fold_rows:
  assumes "\<And>x d. f x d = set_rows (g x (rows d)) d"
  shows "fold f xs d = set_rows (fold g xs (rows d)) d"
  by (induction xs arbitrary: d) (simp_all add: assms)

definition synced :: "string list \<Rightarrow> (string \<Rightarrow> 'v option) \<Rightarrow> (string, 'v) jsmap \<Rightarrow> (string, 'v) jsmap" where
  "synced keys src = fold (\<lambda>key m. case src key of Some v \<Rightarrow> jm_set key v m | None \<Rightarrow> jm_del key m) keys"

lemma through_rows:
  "fold (\<lambda>key d. case src key of Some v \<Rightarrow> put key v d | None \<Rightarrow> del key d) keys d = set_rows (synced keys src (rows d)) d"
  unfolding synced_def by (rule fold_rows) (simp add: put_rows del_rows split: option.split)

lemma get_synced: "jm_get (synced keys src m) k = (if k \<in> set keys then src k else jm_get m k)"
  unfolding synced_def by (induction keys arbitrary: m) (auto split: option.split)

lemma ok_synced: "jm_ok m \<Longrightarrow> jm_ok (synced keys src m)"
  unfolding synced_def by (induction keys arbitrary: m) (auto split: option.split)

lemma mirror_through:
  assumes "mirror key_of m table" "jm_ok m'" "\<forall>k v. jm_get m' k = Some v \<longrightarrow> key_of v = k" "\<forall>k. k \<notin> set keys \<longrightarrow> jm_get m' k = jm_get m k"
  shows "mirror key_of m' (synced keys (jm_get m') table)"
  using assms unfolding mirror_def by (auto simp: ok_synced get_synced fun_eq_iff)

text \<open>Replacing a family: the selected rows are deleted under their own keys, then the new rows are put.\<close>

definition replaced :: "('v \<Rightarrow> bool) \<Rightarrow> (string, 'v) jsmap \<Rightarrow> (string, 'v) jsmap \<Rightarrow> (string, 'v) jsmap" where
  "replaced P m table = fold (\<lambda>(key, v) t. jm_set key v t) m (fold (\<lambda>v t. if P v then jm_del (key_of v) t else t) (jm_values table) table)"

lemma replaced_rows:
  "fold (\<lambda>(key, v). put key v) m (fold (\<lambda>v. if P v then del (key_of v) else id) (jm_values (rows d)) d) = set_rows (replaced P m (rows d)) d"
proof -
  have "fold (\<lambda>v. if P v then del (key_of v) else id) vs e = set_rows (fold (\<lambda>v t. if P v then jm_del (key_of v) t else t) vs (rows e)) e" for vs e
    by (rule fold_rows) (simp add: del_rows)
  moreover have "fold (\<lambda>(key, v). put key v) m e = set_rows (fold (\<lambda>(key, v) t. jm_set key v t) m (rows e)) e" for e
    by (rule fold_rows) (simp add: put_rows split_beta)
  ultimately show ?thesis by (simp add: replaced_def)
qed

lemma get_dels: "jm_get (fold (\<lambda>v t. if P v then jm_del (key_of v) t else t) vs t) k = (if k \<in> key_of ` {v \<in> set vs. P v} then None else jm_get t k)"
  by (induction vs arbitrary: t) auto

lemma ok_dels: "jm_ok t \<Longrightarrow> jm_ok (fold (\<lambda>v t. if P v then jm_del (key_of v) t else t) vs t)"
  by (induction vs arbitrary: t) auto

lemma get_replaced:
  assumes "mirror key_of m0 table" "jm_ok m"
  shows "jm_get (replaced P m table) k = (case jm_get m k of Some v \<Rightarrow> Some v
    | None \<Rightarrow> (case jm_get m0 k of Some v \<Rightarrow> if P v then None else Some v | None \<Rightarrow> None))"
proof -
  have eq: "jm_get table = jm_get m0" and okt: "jm_ok table" and ok0: "jm_ok m0" using assms(1) by (simp_all add: mirror_def)
  have "k \<in> key_of ` {v \<in> set (jm_values table). P v} \<longleftrightarrow> (\<exists>v. jm_get m0 k = Some v \<and> P v)"
  proof
    assume "k \<in> key_of ` {v \<in> set (jm_values table). P v}"
    then obtain k' v where "(k', v) \<in> set table" "P v" "k = key_of v" by auto
    then show "\<exists>v. jm_get m0 k = Some v \<and> P v" using mirror_keyed [OF assms(1)] jm_get_iff [OF okt] eq by metis
  next
    assume "\<exists>v. jm_get m0 k = Some v \<and> P v"
    then obtain v where v: "jm_get table k = Some v" "P v" using eq by auto
    then have "(k, v) \<in> set table" by (simp only: jm_get_iff [OF okt])
    moreover from this have "key_of v = k" by (rule mirror_keyed [OF assms(1)])
    ultimately show "k \<in> key_of ` {v \<in> set (jm_values table). P v}" using v(2) by force
  qed
  then show ?thesis by (simp add: replaced_def get_puts [OF assms(2)] get_dels eq split: option.split)
qed

lemma ok_replaced: "jm_ok table \<Longrightarrow> jm_ok (replaced P m table)"
  unfolding replaced_def by (intro ok_puts ok_dels)

lemma mirror_replaced:
  assumes "mirror key_of m0 table" "jm_ok m" "\<forall>k v. jm_get m k = Some v \<longrightarrow> key_of v = k"
  shows "mirror key_of m (replaced (\<lambda>_. True) m table)"
proof -
  have "jm_get (replaced (\<lambda>_. True) m table) k = jm_get m k" for k
    by (simp add: get_replaced [OF assms(1,2)] del: map_of_eq_Some_iff split: option.split)
  moreover have "jm_ok (replaced (\<lambda>_. True) m table)" using assms(1) by (simp add: mirror_def ok_replaced)
  ultimately show ?thesis using assms(2,3) by (simp add: mirror_def fun_eq_iff del: map_of_eq_Some_iff)
qed

end

definition verifier_row_key :: "api_key_verifier_row \<Rightarrow> string" where
  "verifier_row_key row = apiKeyVerifierKey (vk_actor row) (vk_id row)"

interpretation relation_table: durable_table ds_relations "\<lambda>m d. d\<lparr>ds_relations := m\<rparr>" writeRelation deleteRelation row_relation_key
  by unfold_locales (simp_all add: writeRelation_def deleteRelation_def)

interpretation verifier_table: durable_table ds_apiKeyVerifiers "\<lambda>m d. d\<lparr>ds_apiKeyVerifiers := m\<rparr>"
    writeApiKeyVerifier deleteApiKeyVerifier verifier_row_key
  by unfold_locales (simp_all add: writeApiKeyVerifier_def deleteApiKeyVerifier_def)

end
