(* ===== verification/Exactly_Once.thy ===== *)
theory Exactly_Once
  imports Scope_Machine
begin

text \<open>
  The retry guarantee of a scope over whole runs: an outcome recorded under a client's key answers
  every retry of that key until its lease ends, whatever else the scope does in between.
\<close>

section \<open>A recorded outcome stays\<close>

text \<open>The cache holds an outcome under a key, its payload possibly shed.\<close>

definition holds_reply :: "string \<Rightarrow> commit_reply \<Rightarrow> sequencer \<Rightarrow> bool" where
  "holds_reply k r s \<longleftrightarrow> jm_ok (sq_replies s) \<and> (\<exists>r'. jm_get (sq_replies s) k = Some r' \<and> strip_output r' = strip_output r)"

lemma replyExpired_cong:
  "recorded_at r' = recorded_at r \<Longrightarrow> sq_options s' = sq_options s \<Longrightarrow> replyExpired s' r' now = replyExpired s r now"
  by (simp add: replyExpired_def reply_lease_def split: option.split)

lemma strip_eqD:
  assumes "strip_output r' = strip_output r"
  shows "recorded_at r' = recorded_at r" "replay_guaranteed r' = replay_guaranteed r" "replay_request r' = replay_request r"
    "reply_head r' = reply_head r"
  using assms strip_output_laws by metis+

lemma jm_ok_prune: "jm_ok (sq_replies s) \<Longrightarrow> jm_ok (sq_replies (snd (pruneReplies now s)))"
  using pruneReplies_shape [of s now] by (auto simp: comp_def strip_at_def del_keys_filter jm_ok_filter)

lemma holds_prune:
  assumes "holds_reply k r s" "replay_guaranteed r" "\<not> replyExpired s r now"
  shows "holds_reply k r (snd (pruneReplies now s))"
proof -
  obtain r' where r': "jm_get (sq_replies s) k = Some r'" "strip_output r' = strip_output r" and ok: "jm_ok (sq_replies s)"
    using assms(1) by (auto simp: holds_reply_def)
  note eq = strip_eqD [OF r'(2)]
  have "\<not> replyExpired s r' now" using assms(3) replyExpired_cong [OF eq(1)] by blast
  then obtain r'' where "jm_get (sq_replies (snd (pruneReplies now s))) k = Some r''" "strip_output r'' = strip_output r'"
    using prune_keeps_guaranteed [OF ok r'(1)] eq(2) assms(2) by auto
  then show ?thesis using jm_ok_prune [OF ok] r'(2) by (simp add: holds_reply_def)
qed

lemma holds_record:
  assumes "holds_reply k r s \<and> key \<noteq> k \<or> key = k \<and> jm_ok (sq_replies s) \<and> with_recorded_at now x = r"
    "replay_guaranteed r" "\<not> replyExpired s r now"
  shows "holds_reply k r (snd (record_in_memory key x now s))"
proof -
  let ?s = "s\<lparr>sq_replies := jm_set key (with_recorded_at now x) (sq_replies s)\<rparr>"
  have "holds_reply k r ?s" using assms(1) by (auto simp: holds_reply_def)
  moreover have "\<not> replyExpired ?s r now" using assms(3) replyExpired_cong [OF refl, of ?s s] by simp
  ultimately show ?thesis using holds_prune [OF _ assms(2)] by (simp add: record_in_memory_def Let_def split_beta)
qed

lemma holds_on_durable [simp]: "holds_reply k r (on_durable f s) = holds_reply k r s"
  by (simp add: holds_reply_def)

lemma holds_recordReply:
  assumes "holds_reply k r s \<and> key \<noteq> k \<or> key = k \<and> jm_ok (sq_replies s) \<and> with_recorded_at now x = r"
    "replay_guaranteed r" "\<not> replyExpired s r now"
  shows "holds_reply k r (recordReply key x now s)"
  using holds_record [OF assms] by (simp add: recordReply_def split_beta)

lemma holds_refuse:
  assumes "holds_reply k r s" "replay_guaranteed r" "\<not> replyExpired s r now"
  shows "holds_reply k r (snd (refuse sub rf now s))"
proof (cases "cs_idempotency_key sub = k")
  case True
  then have "jm_has (sq_replies s) (cs_idempotency_key sub)" using assms(1) by (auto simp: holds_reply_def jm_has_def)
  then show ?thesis using assms(1) by (simp add: refuse_def reject_def Let_def split_beta)
next
  case False
  then show ?thesis using assms holds_recordReply [of k r s "cs_idempotency_key sub" now]
    by (simp add: refuse_def reject_def Let_def split_beta)
qed

text \<open>The reply cache after the accept step.\<close>

lemma accept_memory_replies:
  assumes "accept_memory now sub applied s = (out, s')"
  obtains s5 where "sq_replies s5 = sq_replies s" "sq_options s5 = sq_options s"
    "sq_replies s' = sq_replies (snd (record_in_memory (cs_idempotency_key sub)
       (Accepted ((ao_reply out)\<lparr>ac_replay_output := Some (recordedOutput sub),
          ac_replay_request := cs_request_fingerprint sub, ac_replay_guaranteed := cs_retry_receipt sub\<rparr>)) now s5))"
proof -
  let ?t = "cs_transcript sub" and ?next = "next_head (sq_headState s) (t_hash (cs_transcript sub))"
  let ?s1 = "s\<lparr>sq_store := fold (adopt_key (ar_post applied)) (ar_touched applied) (sq_store s), sq_headState := ?next\<rparr>"
  let ?s3 = "memory_log (committedLogEntry now ?t) (push_tail (tail_entry_of (sq_headState s) ?next (t_hash ?t) (ar_touched applied))
    (bump_counter ?t (apply_schedule_effects sub ?s1)))"
  let ?s5 = "snd (apply_relations (dd_local (deriveRelationDeltas ?t (ar_projectionWrites applied) (ar_recycledObjects applied) (sq_scope s)
    (so_scopeOf (sq_options s)) (Some (ar_post applied)))) (snd (reindex_credentials ?t (ar_post applied) ?s3)))"
  show ?thesis by (rule that [of ?s5]) (use assms in \<open>auto simp: accept_memory_def Let_def split_beta\<close>)
qed

lemma holds_cong: "sq_replies s' = sq_replies s \<Longrightarrow> holds_reply k r s' = holds_reply k r s"
  by (simp add: holds_reply_def)

lemma holds_lookup:
  assumes "holds_reply k r s" "\<not> replyExpired s r now"
  obtains r' where "recordedReply k now s = (Some r', s)" "strip_output r' = strip_output r"
proof -
  obtain r' where r': "jm_get (sq_replies s) k = Some r'" "strip_output r' = strip_output r"
    using assms(1) by (auto simp: holds_reply_def)
  have "\<not> replyExpired s r' now" using assms(2) replyExpired_cong [OF strip_eqD(1) [OF r'(2)]] by blast
  then show ?thesis using that [of r'] r' by (simp add: recordedReply_def)
qed

lemma holds_recordedReply:
  assumes "holds_reply k r s" "\<not> replyExpired s r now"
  shows "holds_reply k r (snd (recordedReply key now s))"
proof (cases "key = k")
  case True
  then show ?thesis using holds_lookup [OF assms] assms(1) by (metis snd_conv)
next
  case False
  then have "jm_get (jm_del key (sq_replies s)) k = jm_get (sq_replies s) k" by simp
  then show ?thesis using assms(1) unfolding recordedReply_def holds_reply_def
    by (simp del: map_of_eq_Some_iff split: option.split)
qed

lemma holds_submit:
  assumes ok: "auth_ok (sq_store s)" and run: "submit now sub s = (Inr reply, s')"
    and h: "holds_reply k r s" "replay_guaranteed r" "\<not> replyExpired s r now"
  shows "holds_reply k r s'"
proof -
  obtain rec s1 where rr: "recordedReply (cs_idempotency_key sub) now s = (rec, s1)" by force
  have eq: "sq_options s1 = sq_options s" "sq_store s1 = sq_store s"
    using authority_eqD [OF authority_recordedReply [of "cs_idempotency_key sub" now s]] rr by simp_all
  have h1: "holds_reply k r s1" using holds_recordedReply [OF h(1,3), of "cs_idempotency_key sub"] rr by simp
  have x1: "\<not> replyExpired s1 r now" using h(3) replyExpired_cong [OF refl eq(1)] by blast
  have refusal: ?thesis if "submit now sub s = refuse sub rf now s1" for rf
    using holds_refuse [OF h1 h(2) x1, of sub rf] that run by (metis snd_conv)
  show ?thesis
  proof (cases rec)
    case (Some recorded)
    show ?thesis
    proof (cases "replay_reply sub recorded")
      case None
      then show ?thesis using Some rr by (intro refusal [of "(Idempotency_conflict, conflict_detail sub, [])"]) (simp add: submit_def)
    next
      case (Some r)
      then show ?thesis using \<open>rec = Some recorded\<close> rr run h1 by (simp add: submit_def)
    qed
  next
    case None
    then have fresh: "submit now sub s = submit_fresh now sub s1" using rr by (simp add: submit_def)
    have key: "cs_idempotency_key sub \<noteq> k" using holds_lookup [OF h(1,3)] None rr by (metis fst_conv option.distinct(1))
    have "auth_ok (sq_store s1)" using ok eq(2) by simp
    then show ?thesis
    proof (cases rule: submit_fresh_cases [where now = now and sub = sub])
      case (refused rf)
      then show ?thesis using fresh by (intro refusal [of rf]) simp
    next
      case (read applied)
      then have "s' = s1 \<or> s' = recordDirectReceipt sub (read_reply s1 applied) now s1"
        using run fresh by (auto split: if_splits)
      then show ?thesis using h1 holds_recordReply [of k r s1 "cs_idempotency_key sub" now] key h(2) x1
        by (auto simp: recordDirectReceipt_def)
    next
      case (commit applied)
      obtain out s2 where m: "accept_memory now sub applied s1 = (out, s2)" by force
      obtain s5 where s5: "sq_replies s5 = sq_replies s1" "sq_options s5 = sq_options s1"
        "sq_replies s2 = sq_replies (snd (record_in_memory (cs_idempotency_key sub)
           (Accepted ((ao_reply out)\<lparr>ac_replay_output := Some (recordedOutput sub),
              ac_replay_request := cs_request_fingerprint sub, ac_replay_guaranteed := cs_retry_receipt sub\<rparr>)) now s5))"
        by (rule accept_memory_replies [OF m])
      have "holds_reply k r s5" using h1 holds_cong [OF s5(1)] by simp
      moreover have "\<not> replyExpired s5 r now" using x1 replyExpired_cong [OF refl s5(2)] by blast
      ultimately have "holds_reply k r s2"
        using holds_record [of k r s5 "cs_idempotency_key sub" now] key h(2) holds_cong [OF s5(3)] by simp
      moreover obtain d where "s' = s2\<lparr>sq_durable := d\<rparr>"
        using accept_durable_state(1) [of sub applied out s2 "Inr reply" s'] run fresh commit(5) m by auto
      ultimately show ?thesis using holds_cong [of s' s2] by simp
    qed
  qed
qed

lemma framed_holds: "framed s s' \<Longrightarrow> holds_reply k r s' = holds_reply k r s"
  by (simp add: framed_def holds_reply_def)

text \<open>Over a run whose submits all come before the lease ends.\<close>

lemma holds_run:
  assumes "scope_run T s s'" "auth_ok (sq_store s)" "holds_reply k r s" "replay_guaranteed r"
    "recorded_at r = Some t0" "T \<le> t0 + reply_lease s"
  shows "auth_ok (sq_store s') \<and> sq_options s' = sq_options s \<and> holds_reply k r s'"
  using assms(1)
proof (induction rule: scope_run.induct)
  case run_start
  then show ?case using assms by simp
next
  case (run_step s1 s2)
  then have IH: "auth_ok (sq_store s1)" "sq_options s1 = sq_options s" "holds_reply k r s1" using assms by simp_all
  note hd = scope_step_head [OF run_step.hyps(2) IH(1)]
  have "holds_reply k r s2" using run_step.hyps(2)
  proof (cases rule: scope_step_cases)
    case (submit now sub reply)
    have "\<not> replyExpired s1 r now"
      using submit(2) assms(5,6) IH(2) by (simp add: replyExpired_def reply_lease_def)
    then show ?thesis using holds_submit [OF IH(1) submit(1) IH(3) assms(4)] by simp
  next
    case framed
    then show ?thesis using framed_holds IH(3) by blast
  qed
  then show ?case using hd IH(2) by (simp add: configured_def)
qed

section \<open>The first execution records\<close>

text \<open>The outcome a fresh, guaranteed acceptance leaves under its key.\<close>

lemma accepted_recorded:
  assumes ok: "auth_ok (sq_store s)" "jm_ok (sq_replies s)" and run: "submit now sub s = (Inr (Accepted a), s')"
    and new: "\<not> ac_replayed a" and key: "cs_retry_receipt sub" and lease: "0 < reply_lease s"
  obtains r b where "holds_reply (cs_idempotency_key sub) r s'" "r = Accepted b" "replay_guaranteed r" "recorded_at r = Some now"
    "replay_request r = cs_request_fingerprint sub" "ac_head b = ac_head a" "ac_touched b = ac_touched a"
    "ac_post_state_version b = ac_post_state_version a"
proof -
  let ?k = "cs_idempotency_key sub"
  obtain rec s1 where rr: "recordedReply ?k now s = (rec, s1)" by force
  have eq: "sq_options s1 = sq_options s" "sq_store s1 = sq_store s"
    using authority_eqD [OF authority_recordedReply [of ?k now s]] rr by simp_all
  have ok1: "jm_ok (sq_replies s1)" "auth_ok (sq_store s1)"
    using ok rr eq by (auto simp: recordedReply_def split: option.splits if_splits)
  have fresh: "submit now sub s = submit_fresh now sub s1"
  proof (cases rec)
    case (Some recorded)
    then show ?thesis using run rr new replay_reply_replayed [of sub recorded a] refuse_rejected [of sub "(Idempotency_conflict, conflict_detail sub, [])" now s1]
      by (auto simp: submit_def split: option.splits)
  qed (use rr in \<open>simp add: submit_def\<close>)
  have unexpired: "\<not> replyExpired z x now" if "recorded_at x = Some now" "sq_options z = sq_options s" for z x
    using that lease by (simp add: replyExpired_def reply_lease_def)
  have dated: "recorded_at (with_recorded_at now (Accepted x)) = Some now" for x by simp
  from ok1(2) show ?thesis
  proof (cases rule: submit_fresh_cases [where now = now and sub = sub])
    case (refused rf)
    then show ?thesis using run fresh refuse_rejected [of sub rf now s1] by auto
  next
    case (read applied)
    let ?x = "(read_reply s1 applied)\<lparr>ac_replay_output := Some (recordedOutput sub), ac_replay_request := cs_request_fingerprint sub,
        ac_replay_receipt := True, ac_replay_guaranteed := True\<rparr>"
    have "a = read_reply s1 applied" "s' = recordReply ?k (Accepted ?x) now s1"
      using read run fresh key by (auto simp: recordDirectReceipt_def)
    moreover from this have "holds_reply ?k (with_recorded_at now (Accepted ?x)) s'"
      using holds_recordReply [of ?k "with_recorded_at now (Accepted ?x)" s1 ?k now "Accepted ?x"] ok1(1) unexpired [OF dated eq(1)] by simp
    ultimately show ?thesis using that by simp
  next
    case (commit applied)
    obtain out s2 where m: "accept_memory now sub applied s1 = (out, s2)" by force
    let ?x = "(ao_reply out)\<lparr>ac_replay_output := Some (recordedOutput sub), ac_replay_request := cs_request_fingerprint sub,
        ac_replay_guaranteed := cs_retry_receipt sub\<rparr>"
    obtain s5 where s5: "sq_replies s5 = sq_replies s1" "sq_options s5 = sq_options s1"
      "sq_replies s2 = sq_replies (snd (record_in_memory ?k (Accepted ?x) now s5))"
      by (rule accept_memory_replies [OF m])
    have "a = ao_reply out" using accept_durable_state(2) [of sub applied out s2 "Inr (Accepted a)" s'] run fresh commit(5) m by auto
    moreover obtain d where "s' = s2\<lparr>sq_durable := d\<rparr>"
      using accept_durable_state(1) [of sub applied out s2 "Inr (Accepted a)" s'] run fresh commit(5) m by auto
    moreover have "holds_reply ?k (with_recorded_at now (Accepted ?x)) (snd (record_in_memory ?k (Accepted ?x) now s5))"
      using holds_record [of ?k "with_recorded_at now (Accepted ?x)" s5 ?k now "Accepted ?x"] ok1(1) s5(1,2) key
        unexpired [OF dated, of s5] eq(1) by simp
    ultimately show ?thesis using that [of "with_recorded_at now (Accepted ?x)"] key s5(3) holds_cong [of s' "snd (record_in_memory ?k (Accepted ?x) now s5)"]
      by simp
  qed
qed

section \<open>Exactly once\<close>

lemma replay_of_held:
  assumes "strip_output r' = strip_output (Accepted b)" "replay_request r' = cs_request_fingerprint sub"
  shows "\<exists>c. replay_reply sub r' = Some (Accepted c) \<and> ac_replayed c \<and> ac_head c = ac_head b \<and> ac_touched c = ac_touched b
    \<and> ac_post_state_version c = ac_post_state_version b"
proof (cases r')
  case (Accepted x)
  then have "x\<lparr>ac_replay_output := None\<rparr> = b\<lparr>ac_replay_output := None\<rparr>" using assms(1) by simp
  then have eq: "ac_head x = ac_head b" "ac_touched x = ac_touched b" "ac_post_state_version x = ac_post_state_version b"
    by (metis accepted_reply.select_convs accepted_reply.surjective accepted_reply.update_convs(8))+
  show ?thesis using Accepted assms(2) eq
    by (cases "ac_replay_output x") (auto simp: replay_reply_def Let_def)
next
  case (Rejected x)
  then show ?thesis using assms(1) by simp
qed

text \<open>
  C1: a client-keyed operation is executed exactly once. After a fresh acceptance at time \<open>t0\<close> under a
  client's key, along any run of the scope whose submits come before the lease of that outcome ends,
  a retry of the same request under that key changes nothing at all and is answered as a replay with
  the head, the touched keys and the post-state digest of the first execution. No quota, prune or
  other operation in between can evict that answer.
\<close>

theorem guaranteed_exactly_once:
  assumes "auth_ok (sq_store s)" "jm_ok (sq_replies s)"
    "submit t0 sub s = (Inr (Accepted a), s1)" "\<not> ac_replayed a" "cs_retry_receipt sub"
    "t0 < T" "T \<le> t0 + reply_lease s" "scope_run T s1 s2"
    "cs_idempotency_key retry = cs_idempotency_key sub" "cs_request_fingerprint retry = cs_request_fingerprint sub" "t < T"
  shows "\<exists>b. submit t retry s2 = (Inr (Accepted b), s2) \<and> ac_replayed b \<and> ac_head b = ac_head a
    \<and> ac_touched b = ac_touched a \<and> ac_post_state_version b = ac_post_state_version a"
proof -
  have lease: "0 < reply_lease s" using assms(6,7) by simp
  obtain r b where r: "holds_reply (cs_idempotency_key sub) r s1" "r = Accepted b" "replay_guaranteed r" "recorded_at r = Some t0"
      "replay_request r = cs_request_fingerprint sub"
    and b: "ac_head b = ac_head a" "ac_touched b = ac_touched a" "ac_post_state_version b = ac_post_state_version a"
    by (rule accepted_recorded [OF assms(1-5) lease])
  have "scope_step T s s1" using assms(3,6) by (rule step_submit)
  then have s1: "auth_ok (sq_store s1)" "sq_options s1 = sq_options s"
    using scope_step_head [OF _ assms(1)] by (simp_all add: configured_def)
  have s2: "sq_options s2 = sq_options s1" "holds_reply (cs_idempotency_key sub) r s2"
    using holds_run [OF assms(8) s1(1) r(1,3,4)] assms(7) s1(2) by (simp_all add: reply_lease_def)
  have "\<not> replyExpired s2 r t" using r(4) assms(7,11) s1(2) s2(1) by (simp add: replyExpired_def reply_lease_def)
  then obtain r' where r': "recordedReply (cs_idempotency_key sub) t s2 = (Some r', s2)" "strip_output r' = strip_output r"
    using holds_lookup [OF s2(2)] by blast
  then have "replay_request r' = cs_request_fingerprint retry" using strip_eqD(3) [OF r'(2)] r(5) assms(10) by simp
  then obtain c where "replay_reply retry r' = Some (Accepted c)" "ac_replayed c" "ac_head c = ac_head b" "ac_touched c = ac_touched b"
    "ac_post_state_version c = ac_post_state_version b"
    using replay_of_held [of r' b retry] r'(2) r(2) by auto
  then show ?thesis using r'(1) assms(9) b by (simp add: submit_def)
qed

theorem guaranteed_exactly_once_witness:
  "\<exists>a s1 b. submit 0 demo_commit demo_scope = (Inr (Accepted a), s1)
     \<and> submit 599999 demo_commit s1 = (Inr (Accepted b), s1) \<and> ac_replayed b \<and> ac_head b = ac_head a"
proof -
  obtain a s1 where r: "submit 0 demo_commit demo_scope = (Inr (Accepted a), s1)" "\<not> ac_replayed a" by (rule demo_accepted)
  have c: "jm_ok (sq_replies demo_scope)" "cs_retry_receipt demo_commit" "reply_lease demo_scope = 600000"
    by (simp_all add: demo_scope_def fresh_sequencer_def demo_commit_def reply_lease_def default_options_def IDEMPOTENCY_LEASE_MS_def)
  show ?thesis
    using guaranteed_exactly_once [OF demo_scope_ok c(1) r c(2), of 600000 s1 demo_commit 599999] r(1) c(3)
    by (auto intro: run_start)
qed

end
