(* ===== verification/Adoption.thy ===== *)
theory Adoption
  imports Scope_Machine
begin

text \<open>
  What rider adoption and session reaping do to the authority: the owner's version wins over a
  rider planned against an older one, and only owned, expired sessions are reaped.
\<close>

section \<open>Batches of commits and deletions\<close>

lemma get_deletes: "store_get (fold store_delete ks st) key = (if key \<in> set ks then None else store_get st key)"
  by (induction ks arbitrary: st) auto

lemma get_put_other:
  assumes "auth_ok st" "\<forall>c \<in> set cells. input_ok c" "key \<notin> input_key ` set cells"
  shows "store_get (fold (put_input stamp) cells st) key = store_get st key"
  using assms
proof (induction cells arbitrary: st)
  case (Cons c cells)
  obtain k obj nm v where c: "c = (k, obj, nm, v)" by (cases c)
  have "auth_ok (put_input stamp c st)" using Cons.prems by (simp add: c auth_ok_put)
  moreover have "store_get (put_input stamp c st) key = store_get st key" using Cons.prems by (simp add: c get_put)
  ultimately show ?case using Cons by simp
qed simp

lemma get_put_inputs:
  assumes "auth_ok st" "\<forall>c \<in> set cells. input_ok c" "distinct (map input_key cells)" "c \<in> set cells"
  shows "store_get (fold (put_input stamp) cells st) (input_key c) = Some (commit_input stamp c)"
  using assms
proof (induction cells arbitrary: st)
  case (Cons d cells)
  obtain k obj nm v where d: "d = (k, obj, nm, v)" by (cases d)
  have ok: "auth_ok (put_input stamp d st)" using Cons.prems by (simp add: d auth_ok_put)
  show ?case
  proof (cases "c = d")
    case True
    then have "store_get (fold (put_input stamp) cells (put_input stamp d st)) (input_key c) = store_get (put_input stamp d st) (input_key d)"
      using get_put_other [OF ok, of cells "input_key d" stamp] Cons.prems by simp
    then show ?thesis using True Cons.prems(1) by (simp add: d get_put)
  next
    case False
    then show ?thesis using Cons.IH [OF ok] Cons.prems by simp
  qed
qed simp

lemma input_key_cell: "wf_cell c \<Longrightarrow> input_key (cell_as_input c) = c_key c"
  by (simp add: cell_as_input_def wf_cell_def)

section \<open>Owner wins\<close>

lemma adopt_store:
  assumes "auth_ok (sq_store s)" "\<forall>c \<in> set (ai_cells input). wf_cell c" "adopt_mutations s input = []" "adopt input s = (r, s')"
  shows "\<exists>stamp. sq_store s' = fold store_delete (adopt_removals s input)
    (fold (put_input stamp) (map cell_as_input (adopt_cells s input)) (sq_store s))"
proof (cases "adopt_cells s input = [] \<and> adopt_removals s input = []")
  case True
  then show ?thesis using assms(3,4) by (auto simp: adopt_def Let_def)
next
  case False
  then have c: "(adopt_cells s input = [] \<and> adopt_removals s input = []) = False" by blast
  have eq: "snd (adopt input s) = s'" using assms(4) by simp
  show ?thesis unfolding eq [symmetric] by (simp add: adopt_def Let_def split_beta c assms(3)) blast
qed

lemma adopt_reply:
  assumes "adopt_mutations s input = []" "adopt input s = (r, s')"
  shows "ad_conflicts r = adopt_conflicts s input" "ad_head r = sq_headState s'"
    "sq_headState s' = (if adopt_cells s input = [] \<and> adopt_removals s input = [] then sq_headState s
       else next_head (sq_headState s) (''adopt:'' @ ai_from_scope input @ '':'' @ show_int (ai_seq input)))"
proof -
  have eq: "fst (adopt input s) = r" "snd (adopt input s) = s'" using assms(2) by simp_all
  show "ad_conflicts r = adopt_conflicts s input" "ad_head r = sq_headState s'"
    "sq_headState s' = (if adopt_cells s input = [] \<and> adopt_removals s input = [] then sq_headState s
       else next_head (sq_headState s) (''adopt:'' @ ai_from_scope input @ '':'' @ show_int (ai_seq input)))"
    unfolding eq [symmetric] by (auto simp: adopt_def Let_def split_beta assms(1))
qed

text \<open>
  C6: in adoption the owner wins and nothing is silent. For a rider batch of well-formed cells and
  removals with distinct keys: a key whose claimed prior version is not the owner's current version
  keeps the owner's cell and is reported as a conflict, in order, and nothing else is; every other
  rider cell is now held with the rider's value, its content address and authoritative provenance;
  every other removal is gone; no other key changes; and the head moves by one link named after the
  sender exactly when something was applied.
\<close>

theorem adopt_owner_wins:
  assumes "auth_ok (sq_store s)" "\<forall>c \<in> set (ai_cells input). wf_cell c"
    "distinct (map c_key (ai_cells input) @ ai_removed input)" "adopt_mutations s input = []" "adopt input s = (r, s')"
  shows "(\<forall>key. adopt_stale s input key \<longrightarrow> store_get (sq_store s') key = store_get (sq_store s) key)
    \<and> map co_key (ad_conflicts r) = filter (adopt_stale s input) (map c_key (ai_cells input) @ ai_removed input)
    \<and> (\<forall>c \<in> set (ai_cells input). \<not> adopt_stale s input (c_key c) \<longrightarrow>
         (\<exists>d. store_get (sq_store s') (c_key c) = Some d \<and> c_value d = c_value c \<and> c_version d = cellVersion (c_value c)
            \<and> c_provenance d = Authoritative))
    \<and> (\<forall>key \<in> set (ai_removed input). \<not> adopt_stale s input key \<longrightarrow> current_version (sq_store s') key = ''absent'')
    \<and> (\<forall>key. key \<notin> set (map c_key (ai_cells input) @ ai_removed input) \<longrightarrow> store_get (sq_store s') key = store_get (sq_store s) key)
    \<and> sq_headState s' = (if adopt_cells s input = [] \<and> adopt_removals s input = [] then sq_headState s
         else next_head (sq_headState s) (''adopt:'' @ ai_from_scope input @ '':'' @ show_int (ai_seq input)))"
proof -
  obtain stamp where st: "sq_store s' = fold store_delete (adopt_removals s input)
    (fold (put_input stamp) (map cell_as_input (adopt_cells s input)) (sq_store s))"
    using adopt_store [OF assms(1,2,4,5)] by blast
  let ?in = "map cell_as_input (adopt_cells s input)"
  have wf: "wf_cell c" if "c \<in> set (adopt_cells s input)" for c using that assms(2) by (simp add: adopt_cells_def)
  have ok: "\<forall>c \<in> set ?in. input_ok c" using wf by (simp add: input_ok_cell)
  have keys: "map input_key ?in = map c_key (adopt_cells s input)" using wf by (simp add: input_key_cell)
  have dist: "distinct (map input_key ?in)" using assms(3) unfolding keys by (simp add: adopt_cells_def distinct_map_filtered)
  have get: "store_get (sq_store s') key = (if key \<in> set (adopt_removals s input) then None
      else store_get (fold (put_input stamp) ?in (sq_store s)) key)" for key unfolding st by (rule get_deletes)
  have in_keys: "input_key ` set ?in = c_key ` set (adopt_cells s input)" using arg_cong [OF keys, of set] by (simp only: set_map)
  have same: "store_get (sq_store s') key = store_get (sq_store s) key"
    if "key \<notin> set (adopt_removals s input)" "key \<notin> c_key ` set (adopt_cells s input)" for key
    using that get [of key] get_put_other [OF assms(1) ok, of key stamp] in_keys by simp
  have put: "\<exists>d. store_get (sq_store s') (c_key c) = Some d \<and> c_value d = c_value c \<and> c_version d = cellVersion (c_value c)
      \<and> c_provenance d = Authoritative" if "c \<in> set (ai_cells input)" "\<not> adopt_stale s input (c_key c)" for c
  proof -
    have c: "c \<in> set (adopt_cells s input)" using that by (simp add: adopt_cells_def)
    then have "store_get (fold (put_input stamp) ?in (sq_store s)) (c_key c) = Some (commit_input stamp (cell_as_input c))"
      using get_put_inputs [OF assms(1) ok dist, of "cell_as_input c" stamp] input_key_cell [OF wf [OF c]] by simp
    moreover have "c_key c \<notin> set (adopt_removals s input)" using that assms(3) by (auto simp: adopt_removals_def)
    ultimately show ?thesis using get [of "c_key c"] by (simp add: cell_as_input_def makeCell_def)
  qed
  have removed: "current_version (sq_store s') key = ''absent''" if "key \<in> set (ai_removed input)" "\<not> adopt_stale s input key" for key
  proof (cases "current_version (sq_store s) key = ''absent''")
    case True
    have "key \<notin> c_key ` set (adopt_cells s input)" using that(1) assms(3) by (auto simp: adopt_cells_def)
    moreover have "key \<notin> set (adopt_removals s input)" using True by (simp add: adopt_removals_def)
    ultimately show ?thesis using True same [of key] by (simp add: current_version_def)
  next
    case False
    then show ?thesis using that get [of key] by (simp add: adopt_removals_def current_version_def)
  qed
  have "map co_key (ad_conflicts r) = filter (adopt_stale s input) (map c_key (ai_cells input) @ ai_removed input)"
    unfolding adopt_reply(1) [OF assms(4,5)] by (simp add: adopt_conflicts_def comp_def filter_map)
  moreover have "adopt_stale s input key \<longrightarrow> store_get (sq_store s') key = store_get (sq_store s) key" for key
    using same [of key] by (auto simp: adopt_removals_def adopt_cells_def)
  moreover have "key \<notin> set (map c_key (ai_cells input) @ ai_removed input) \<longrightarrow> store_get (sq_store s') key = store_get (sq_store s) key" for key
    using same [of key] by (auto simp: adopt_removals_def adopt_cells_def)
  ultimately show ?thesis using put removed adopt_reply(3) [OF assms(4,5)] by blast
qed

definition demo_rider :: cell where
  "demo_rider = makeCell Object_live ''lamp'' None (JObj [(''location'', JStr ''hall'')]) Derived demo_stamp"

definition demo_adoption :: adopt_input where
  "demo_adoption = \<lparr>ai_from_scope = ''room:attic'', ai_seq = 4, ai_cells = [demo_rider], ai_removed = [''session:s9''],
     ai_priors = [(''session:s9'', ''v1'')]\<rparr>"

theorem adopt_owner_wins_witness:
  "map co_key (ad_conflicts (fst (adopt demo_adoption demo_scope))) = [''session:s9'']
    \<and> (\<exists>d. store_get (sq_store (snd (adopt demo_adoption demo_scope))) (c_key demo_rider) = Some d
        \<and> c_value d = JObj [(''location'', JStr ''hall'')])"
proof -
  obtain r s' where run: "adopt demo_adoption demo_scope = (r, s')" by force
  have wf: "\<forall>c \<in> set (ai_cells demo_adoption). wf_cell c" by (simp add: demo_adoption_def demo_rider_def wf_makeCell)
  have k: "c_key demo_rider = ''object_live:lamp''" by (simp add: demo_rider_def makeCell_def cellKey_def)
  have d: "distinct (map c_key (ai_cells demo_adoption) @ ai_removed demo_adoption)" by (simp add: demo_adoption_def k)
  have m: "adopt_mutations demo_scope demo_adoption = []"
    by (simp add: adopt_mutations_def demo_scope_def fresh_sequencer_def default_options_def)
  have stale: "adopt_stale demo_scope demo_adoption ''session:s9''" "\<not> adopt_stale demo_scope demo_adoption ''object_live:lamp''"
    by (simp_all add: adopt_stale_def demo_adoption_def current_version_def demo_scope_def fresh_sequencer_def)
  have "c_value demo_rider = JObj [(''location'', JStr ''hall'')]" by (simp add: demo_rider_def makeCell_def)
  then show ?thesis using adopt_owner_wins [OF demo_scope_ok wf d m run] stale run k by (auto simp: demo_adoption_def)
qed

end
