(* ===== verification/Write_Through.thy ===== *)
theory Write_Through
  imports Durable_Tables Exactly_Once Adoption
begin

text \<open>
  Every operation of a \<open>ScopeSequencer\<close> (\<open>src/net/scope.ts\<close>) writes what it changed in memory through
  to its durable store (\<open>src/net/scope-store.ts\<close>). This theory states that the store mirrors the
  sequencer, shows that each operation keeps it so, and concludes that a sequencer constructed over
  the store after a crash is the one that was lost.
\<close>

section \<open>The durable transactions as record updates\<close>

lemma fold_field:
  assumes "\<And>x d. f x d = upd (g x (sel d)) d" "\<And>m d. sel (upd m d) = m" "\<And>m m' d. upd m (upd m' d) = upd m d" "\<And>d. upd (sel d) d = d"
  shows "fold f xs d = upd (fold g xs (sel d)) d"
  by (induction xs arbitrary: d) (simp_all add: assms)

definition put_cells :: "cell list \<Rightarrow> (string, cell) jsmap \<Rightarrow> (string, cell) jsmap" where
  "put_cells cs m = fold (\<lambda>c. jm_set (c_key c) c) cs m"

definition sync_cells :: "string list \<Rightarrow> cell_store \<Rightarrow> (string, cell) jsmap \<Rightarrow> (string, cell) jsmap" where
  "sync_cells ks st m = fold (\<lambda>key m. case store_get st key of Some c \<Rightarrow> jm_set (c_key c) c m | None \<Rightarrow> jm_del key m) ks m"

definition put_replies :: "(string \<times> commit_reply) list \<Rightarrow> (string, commit_reply) jsmap \<Rightarrow> (string, commit_reply) jsmap" where
  "put_replies rs m = fold (\<lambda>(k, r). jm_set k r) rs m"

lemma write_cells: "fold writeCell cs d = d\<lparr>ds_cells := put_cells cs (ds_cells d)\<rparr>"
  unfolding put_cells_def by (rule fold_field [where upd = "\<lambda>m d. d\<lparr>ds_cells := m\<rparr>"]) (simp_all add: writeCell_def)

lemma delete_cells: "fold deleteCell ks d = d\<lparr>ds_cells := del_keys ks (ds_cells d)\<rparr>"
  unfolding del_keys_def by (rule fold_field [where upd = "\<lambda>m d. d\<lparr>ds_cells := m\<rparr>"]) (simp_all add: deleteCell_def)

lemma durable_cells_eq: "durable_cells ks st d = d\<lparr>ds_cells := sync_cells ks st (ds_cells d)\<rparr>"
  unfolding durable_cells_def sync_cells_def
  by (rule fold_field [where upd = "\<lambda>m d. d\<lparr>ds_cells := m\<rparr>"]) (simp_all add: writeCell_def deleteCell_def split: option.split)

lemma write_live_cells:
  "fold (\<lambda>key d. case store_get st key of Some c \<Rightarrow> writeCell c d | None \<Rightarrow> d) ks d
   = d\<lparr>ds_cells := put_cells (List.map_filter (store_get st) ks) (ds_cells d)\<rparr>"
  by (induction ks arbitrary: d) (simp_all add: put_cells_def writeCell_def map_filter_simps split: option.split)

lemma delete_replies: "fold deleteReply ks d = d\<lparr>ds_replies := del_keys ks (ds_replies d)\<rparr>"
  unfolding del_keys_def by (rule fold_field [where upd = "\<lambda>m d. d\<lparr>ds_replies := m\<rparr>"]) (simp_all add: deleteReply_def)

lemma write_replies: "fold (\<lambda>(k, r). writeReply k r) rs d = d\<lparr>ds_replies := put_replies rs (ds_replies d)\<rparr>"
  unfolding put_replies_def
  by (rule fold_field [where upd = "\<lambda>m d. d\<lparr>ds_replies := m\<rparr>"]) (simp_all add: writeReply_def split: prod.split)

lemma durable_reply_eq:
  "durable_reply key r pr d = d\<lparr>ds_replies := put_replies (pr_rewritten pr) (del_keys (pr_pruned pr) (jm_set key r (ds_replies d)))\<rparr>"
  by (simp add: durable_reply_def write_replies delete_replies writeReply_def)

lemma durable_event_eq:
  "durable_event s e d = d\<lparr>ds_meta := Some (metaRow s), ds_tail := trim_tail (so_tailLimit (sq_options s)) (ds_tail d @ [e])\<rparr>"
  by (simp add: durable_event_def durable_tail_def trimTail_def appendTail_def writeMeta_def)

lemma durable_relations_eq: "durable_relations ks m d = d\<lparr>ds_relations := relation_table.synced ks (jm_get m) (ds_relations d)\<rparr>"
  unfolding durable_relations_def by (rule relation_table.through_rows)

lemma durable_verifiers_eq: "durable_verifiers ks m d = d\<lparr>ds_apiKeyVerifiers := verifier_table.synced ks (jm_get m) (ds_apiKeyVerifiers d)\<rparr>"
  unfolding durable_verifiers_def by (rule verifier_table.through_rows)

lemma replace_relations_eq:
  "replace_relations m d = d\<lparr>ds_relations := relation_table.replaced (\<lambda>_. True) m (ds_relations d)\<rparr>"
  using relation_table.replaced_rows [of m "\<lambda>_. True" d] by (simp add: replace_relations_def)

lemma replace_verifiers_eq:
  "replace_verifiers m d = d\<lparr>ds_apiKeyVerifiers := verifier_table.replaced (\<lambda>_. True) m (ds_apiKeyVerifiers d)\<rparr>"
  using verifier_table.replaced_rows [of m "\<lambda>_. True" d] by (simp add: replace_verifiers_def verifier_row_key_def)

lemmas transactions = write_cells delete_cells durable_cells_eq write_live_cells durable_event_eq durable_relations_eq durable_verifiers_eq
  replace_relations_eq replace_verifiers_eq durable_reply_eq

section \<open>The mirror\<close>

definition cells_mirror :: "cell_store \<Rightarrow> (string, cell) jsmap \<Rightarrow> bool" where
  "cells_mirror st m \<longleftrightarrow> jm_ok m \<and> jm_get m = store_get st"

definition dated :: "(string, commit_reply) jsmap \<Rightarrow> bool" where
  "dated m \<longleftrightarrow> jm_ok m \<and> (\<forall>k r. jm_get m k = Some r \<longrightarrow> recorded_at r \<noteq> None)"

definition genesis_head :: "string \<Rightarrow> scope_head" where
  "genesis_head scope = \<lparr>sh_seq = 0, sh_hash = cellVersion (JArr [JStr ''genesis'', JStr scope]), sh_generation = Some 0\<rparr>"

definition meta_mirror :: "sequencer \<Rightarrow> scope_meta option \<Rightarrow> bool" where
  "meta_mirror s meta \<longleftrightarrow> sh_generation (sq_headState s) \<noteq> None \<and>
     (case meta of Some row \<Rightarrow> row = metaRow s | None \<Rightarrow> sq_headState s = genesis_head (sq_scope s) \<and> sq_attribution s = None)"

definition mirrors :: "sequencer \<Rightarrow> scope_store \<Rightarrow> bool" where
  "mirrors s d \<longleftrightarrow> ds_replies d = sq_replies s \<and> dated (sq_replies s) \<and> meta_mirror s (ds_meta d)
     \<and> cells_mirror (sq_store s) (ds_cells d) \<and> ds_tail d = sq_tail s
     \<and> mirror row_relation_key (sq_relationRows s) (ds_relations d) \<and> mirror verifier_row_key (sq_apiKeyVerifiers s) (ds_apiKeyVerifiers d)"

lemma mirrorsD:
  assumes "mirrors s d"
  shows "ds_replies d = sq_replies s" "dated (sq_replies s)" "meta_mirror s (ds_meta d)"
    "cells_mirror (sq_store s) (ds_cells d)" "ds_tail d = sq_tail s"
    "mirror row_relation_key (sq_relationRows s) (ds_relations d)" "mirror verifier_row_key (sq_apiKeyVerifiers s) (ds_apiKeyVerifiers d)"
  using assms by (simp_all add: mirrors_def)

text \<open>A sequencer over a durable store that mirrors it.\<close>

definition written_through :: "sequencer \<Rightarrow> bool" where
  "written_through s = (case sq_durable s of Some d \<Rightarrow> mirrors s d | None \<Rightarrow> False)"

lemma writtenE:
  assumes "written_through s"
  obtains d where "sq_durable s = Some d" "mirrors s d"
  using assms by (auto simp: written_through_def split: option.splits)

section \<open>Cells\<close>

lemma cells_mirrorD: "cells_mirror st m \<Longrightarrow> jm_get m k = store_get st k"
  by (simp add: cells_mirror_def)

lemma commit_input_key [simp]: "c_key (commit_input stamp c) = input_key c"
  by (cases c) (simp add: makeCell_def)

lemma cells_mirror_puts:
  assumes "auth_ok st" "\<forall>c \<in> set cs. input_ok c" "cells_mirror st m"
  shows "cells_mirror (fold (put_input stamp) cs st) (put_cells (map (commit_input stamp) cs) m)"
  using assms
proof (induction cs arbitrary: st m)
  case (Cons c cs)
  obtain k obj nm v where c: "c = (k, obj, nm, v)" by (cases c)
  have "auth_ok (put_input stamp c st)" using Cons.prems by (simp add: c auth_ok_put)
  moreover have "cells_mirror (put_input stamp c st) (jm_set (input_key c) (commit_input stamp c) m)"
    using Cons.prems(1,3) by (simp add: cells_mirror_def c get_put fun_eq_iff)
  ultimately have "cells_mirror (fold (put_input stamp) cs (put_input stamp c st))
      (put_cells (map (commit_input stamp) cs) (jm_set (input_key c) (commit_input stamp c) m))"
    using Cons.IH Cons.prems(2) by simp
  then show ?case by (simp add: put_cells_def)
qed (simp add: put_cells_def)

lemma cells_mirror_put:
  "auth_ok st \<Longrightarrow> input_ok c \<Longrightarrow> cells_mirror st m \<Longrightarrow> cells_mirror (put_input stamp c st) (jm_set (input_key c) (commit_input stamp c) m)"
  using cells_mirror_puts [of st "[c]" m stamp] by (simp add: put_cells_def)

lemma cells_mirror_deletes: "cells_mirror st m \<Longrightarrow> cells_mirror (fold store_delete ks st) (del_keys ks m)"
proof (induction ks arbitrary: st m)
  case (Cons k ks)
  have "cells_mirror (store_delete k st) (jm_del k m)" using Cons.prems by (simp add: cells_mirror_def fun_eq_iff)
  from Cons.IH [OF this] show ?case by (simp add: del_keys_def)
qed (simp add: del_keys_def)

lemma get_sync_cells:
  assumes "store_ok st"
  shows "jm_get (sync_cells ks st m) k = (if k \<in> set ks then store_get st k else jm_get m k)"
proof (induction ks arbitrary: m)
  case (Cons key ks)
  have "c_key c = key" if "store_get st key = Some c" for c using store_ok_get [OF assms that] by simp
  then show ?case using Cons.IH unfolding sync_cells_def by (auto split: option.split)
qed (simp add: sync_cells_def)

lemma ok_sync_cells: "jm_ok m \<Longrightarrow> jm_ok (sync_cells ks st m)"
  unfolding sync_cells_def by (induction ks arbitrary: m) (auto split: option.split)

lemma cells_mirror_sync:
  assumes "cells_mirror st m" "store_ok st'" "\<And>k. k \<notin> set ks \<Longrightarrow> store_get st' k = store_get st k"
  shows "cells_mirror st' (sync_cells ks st' m)"
  using assms(1) unfolding cells_mirror_def by (simp add: fun_eq_iff ok_sync_cells get_sync_cells [OF assms(2)] assms(3))

text \<open>The reaper's writes: the live cells it retired, over the sessions it deleted.\<close>

lemma get_put_cells: "(\<And>c. c \<in> set cs \<Longrightarrow> store_get st (c_key c) = Some c) \<Longrightarrow>
  jm_get (put_cells cs m) k = (if k \<in> c_key ` set cs then store_get st k else jm_get m k)"
  unfolding put_cells_def by (induction cs arbitrary: m) auto

lemma ok_put_cells: "jm_ok m \<Longrightarrow> jm_ok (put_cells cs m)"
  unfolding put_cells_def by (induction cs arbitrary: m) auto

lemma retire_live_keys:
  assumes "auth_ok st" "\<forall>k \<in> set ks. store_get st k \<noteq> None" "retire_live stamp r (ks, st) = (ks', st')"
  shows "set ks \<subseteq> set ks'" "\<forall>k. k \<notin> set ks' \<longrightarrow> store_get st' k = store_get st k" "\<forall>k \<in> set ks'. store_get st' k \<noteq> None"
  using assms by (auto simp: retire_live_def get_put split: option.splits bool.splits)

lemma retire_lives_keys:
  assumes "auth_ok st" "\<forall>k \<in> set ks. store_get st k \<noteq> None" "fold (retire_live stamp) rs (ks, st) = (ks', st')"
  shows "set ks \<subseteq> set ks' \<and> (\<forall>k. k \<notin> set ks' \<longrightarrow> store_get st' k = store_get st k) \<and> (\<forall>k \<in> set ks'. store_get st' k \<noteq> None)"
  using assms
proof (induction rs arbitrary: ks st)
  case (Cons r rs)
  obtain ks1 st1 where r: "retire_live stamp r (ks, st) = (ks1, st1)" by force
  have "auth_ok st1" using auth_ok_retire [of "(ks, st)" stamp r] Cons.prems(1) r by simp
  note IH = Cons.IH [OF this] and step = retire_live_keys [OF Cons.prems(1,2) r]
  have "fold (retire_live stamp) rs (ks1, st1) = (ks', st')" using Cons.prems(3) r by simp
  from IH [OF step(3) this] show ?case using step(1,2) by (metis subset_iff)
qed simp

lemma cells_mirror_retired:
  assumes "auth_ok st" "cells_mirror st m" "fold (retire_live stamp) rs ([], st) = (ks, st')"
  shows "cells_mirror st' (put_cells (List.map_filter (store_get st') ks) m)"
proof -
  have "auth_ok (snd (fold (retire_live stamp) rs ([], st)))" by (rule auth_ok_retires) (use assms(1) in simp)
  then have ok: "store_ok st'" unfolding assms(3) snd_conv by (rule auth_ok_store)
  from retire_lives_keys [OF assms(1) _ assms(3)]
  have ks: "\<And>k. k \<notin> set ks \<Longrightarrow> store_get st' k = store_get st k" "\<And>k. k \<in> set ks \<Longrightarrow> store_get st' k \<noteq> None" by simp_all
  let ?cs = "List.map_filter (store_get st') ks"
  have cs: "c \<in> set ?cs \<longleftrightarrow> (\<exists>k \<in> set ks. store_get st' k = Some c)" for c by (force simp: List.map_filter_def)
  have "store_get st' (c_key c) = Some c" if "c \<in> set ?cs" for c using that cs store_ok_get [OF ok] by metis
  then have get: "jm_get (put_cells ?cs m) k = (if k \<in> c_key ` set ?cs then store_get st' k else jm_get m k)" for k
    by (rule get_put_cells)
  have "k \<in> c_key ` set ?cs \<longleftrightarrow> k \<in> set ks" for k
  proof
    assume "k \<in> c_key ` set ?cs"
    then obtain c k' where "k = c_key c" "k' \<in> set ks" "store_get st' k' = Some c" using cs by blast
    then show "k \<in> set ks" using store_ok_get [OF ok] by metis
  next
    assume k: "k \<in> set ks"
    then obtain c where c: "store_get st' k = Some c" using ks(2) by blast
    then have "c_key c = k" using store_ok_get [OF ok] by blast
    moreover have "c \<in> set ?cs" unfolding cs using k c by blast
    ultimately show "k \<in> c_key ` set ?cs" by blast
  qed
  then show ?thesis using assms(2) get ks(1) by (simp add: cells_mirror_def ok_put_cells fun_eq_iff)
qed

section \<open>Relations and credentials\<close>

text \<open>A pass over a keyed map that reports the keys it changed.\<close>

definition tracks :: "('v \<Rightarrow> string) \<Rightarrow> (string, 'v) jsmap \<Rightarrow> string list \<Rightarrow> (string, 'v) jsmap \<Rightarrow> bool" where
  "tracks key_of m0 changed m \<longleftrightarrow> jm_ok m \<and> (\<forall>k v. jm_get m k = Some v \<longrightarrow> key_of v = k)
     \<and> (\<forall>k. k \<notin> set changed \<longrightarrow> jm_get m k = jm_get m0 k)"

lemma tracks_set: "tracks key_of m0 ch m \<Longrightarrow> key_of v = k \<Longrightarrow> set ch' = insert k (set ch) \<Longrightarrow> tracks key_of m0 ch' (jm_set k v m)"
  unfolding tracks_def by (auto split: if_splits)

lemma tracks_del: "tracks key_of m0 ch m \<Longrightarrow> set ch' = insert k (set ch) \<Longrightarrow> tracks key_of m0 ch' (jm_del k m)"
  unfolding tracks_def by (auto split: if_splits)

lemma tracks_start: "mirror key_of m table \<Longrightarrow> tracks key_of m [] m"
  by (simp add: tracks_def mirror_def)

lemma tracks_fold:
  assumes "\<And>x ch m. x \<in> set xs \<Longrightarrow> tracks key_of m0 ch m \<Longrightarrow> tracks key_of m0 (fst (f x (ch, m))) (snd (f x (ch, m)))"
  shows "tracks key_of m0 ch m \<Longrightarrow> tracks key_of m0 (fst (fold f xs (ch, m))) (snd (fold f xs (ch, m)))"
  using assms
proof (induction xs arbitrary: ch m)
  case (Cons x xs)
  have "tracks key_of m0 (fst (f x (ch, m))) (snd (f x (ch, m)))" by (rule Cons.prems(2)) (use Cons.prems(1) in simp_all)
  from Cons.IH [OF this] show ?case using Cons.prems(2) by simp
qed simp

lemma tracks_deltas:
  "tracks row_relation_key m0 [] m \<Longrightarrow> tracks row_relation_key m0 (fst (applyRelationDeltas m ds)) (snd (applyRelationDeltas m ds))"
  unfolding applyRelationDeltas_def
  by (erule tracks_fold [rotated])
    (auto simp: apply_delta_def Let_def intro: tracks_set tracks_del split: option.split delta_op.split)

lemma rows_for_actor_keyed:
  "(k, row) \<in> set (apiKeyVerifierRowsForActor actor v) \<Longrightarrow> verifier_row_key row = k"
proof -
  assume mem: "(k, row) \<in> set (apiKeyVerifierRowsForActor actor v)"
  have ok: "jm_ok (apiKeyVerifierRowsForActor actor v)" unfolding apiKeyVerifierRowsForActor_def
    by (rule List.fold_invariant [where Q = "\<lambda>_. True" and P = jm_ok]) (auto split: option.split)
  from mem have "jm_get (apiKeyVerifierRowsForActor actor v) k = Some row" by (simp only: jm_get_iff [OF ok])
  from verifier_rows_fold [OF this [unfolded apiKeyVerifierRowsForActor_def]] show ?thesis by (auto simp: verifier_row_key_def)
qed

lemma tracks_replace:
  assumes "tracks verifier_row_key m0 ch (sq_apiKeyVerifiers s)" "replaceApiKeyVerifiersForActor actor v s = (ks, s')"
  shows "tracks verifier_row_key m0 (fold js_add ks ch) (sq_apiKeyVerifiers s')"
proof -
  let ?desired = "apiKeyVerifierRowsForActor actor v"
  let ?drop = "\<lambda>(key, row) (changed, m). if vk_actor row \<noteq> actor \<or> jm_has ?desired key then (changed, m) else (js_add key changed, jm_del key m)"
  let ?put = "\<lambda>(key, row) (changed, m). (case jm_get m key of
      Some existing \<Rightarrow> if cellVersion (verifier_json existing) = cellVersion (verifier_json row) then (changed, m)
        else (js_add key changed, jm_set key row m)
    | None \<Rightarrow> (js_add key changed, jm_set key row m))"
  let ?m = "sq_apiKeyVerifiers s"
  have start: "tracks verifier_row_key ?m [] ?m" using assms(1) by (simp add: tracks_def)
  obtain ch1 m1 where one: "fold ?drop ?m ([], ?m) = (ch1, m1)" by force
  obtain ch2 m2 where two: "fold ?put ?desired (ch1, m1) = (ch2, m2)" by force
  have t1: "tracks verifier_row_key ?m (fst (fold ?drop ?m ([], ?m))) (snd (fold ?drop ?m ([], ?m)))"
    by (rule tracks_fold [OF _ start]) (auto intro: tracks_del [OF _ set_js_add])
  have "tracks verifier_row_key ?m (fst (fold ?put ?desired (ch1, m1))) (snd (fold ?put ?desired (ch1, m1)))"
    using t1 unfolding one by (intro tracks_fold) (auto intro: tracks_set [where key_of = verifier_row_key, OF _ rows_for_actor_keyed set_js_add] split: option.split)
  then have "tracks verifier_row_key ?m ch2 m2" unfolding two by simp
  moreover have "sq_apiKeyVerifiers s' = m2" "ks = sort ch2"
    using assms(2) one two by (auto simp: replaceApiKeyVerifiersForActor_def Let_def)
  moreover have "set (fold js_add xs ys) = set xs \<union> set ys" for xs ys :: "string list" by (induction xs arbitrary: ys) auto
  ultimately show ?thesis using assms(1) unfolding tracks_def by auto
qed

lemma tracks_reindex:
  "tracks verifier_row_key m0 ch (sq_apiKeyVerifiers s) \<Longrightarrow>
   tracks verifier_row_key m0 (fst (fold (reindex_actor st) actors (ch, s))) (sq_apiKeyVerifiers (snd (fold (reindex_actor st) actors (ch, s))))"
proof (induction actors arbitrary: ch s)
  case (Cons a actors)
  obtain ks s' where r: "replaceApiKeyVerifiersForActor a (map_option c_value (store_get st (cellKey Property_cell a (Some ACTOR_API_KEYS_PROPERTY)))) s = (ks, s')"
    by force
  from Cons.IH [OF tracks_replace [OF Cons.prems r]] r show ?case by (simp add: reindex_actor_def)
qed simp

lemma mirror_tracked_relations:
  "mirror row_relation_key m table \<Longrightarrow> tracks row_relation_key m ch m' \<Longrightarrow> mirror row_relation_key m' (relation_table.synced ch (jm_get m') table)"
  by (rule relation_table.mirror_through) (auto simp: tracks_def)

lemma mirror_tracked_verifiers:
  "mirror verifier_row_key m table \<Longrightarrow> tracks verifier_row_key m ch m' \<Longrightarrow> mirror verifier_row_key m' (verifier_table.synced ch (jm_get m') table)"
  by (rule verifier_table.mirror_through) (auto simp: tracks_def)

text \<open>A family built from scratch is under its own keys.\<close>

definition keyed :: "('v \<Rightarrow> string) \<Rightarrow> (string, 'v) jsmap \<Rightarrow> bool" where
  "keyed key_of m \<longleftrightarrow> jm_ok m \<and> (\<forall>k v. jm_get m k = Some v \<longrightarrow> key_of v = k)"

lemma keyed_set: "keyed key_of m \<Longrightarrow> key_of v = k \<Longrightarrow> keyed key_of (jm_set k v m)"
  unfolding keyed_def by (auto split: if_splits)

lemma keyed_fold:
  assumes "\<And>x m. x \<in> set xs \<Longrightarrow> keyed key_of m \<Longrightarrow> keyed key_of (f x m)"
  shows "keyed key_of m \<Longrightarrow> keyed key_of (fold f xs m)"
  using assms by (induction xs arbitrary: m) auto

lemma keyed_Nil [simp]: "keyed key_of []"
  by (simp add: keyed_def)

lemma keyed_entry: "keyed key_of m \<Longrightarrow> (k, v) \<in> set m \<Longrightarrow> key_of v = k"
  unfolding keyed_def by (metis jm_get_iff)

lemma keyed_copy: "keyed key_of m \<Longrightarrow> keyed key_of m0 \<Longrightarrow> keyed key_of (fold (\<lambda>(k, v) m. jm_set k v m) m m0)"
  by (rule keyed_fold) (auto intro: keyed_set keyed_entry)

lemma keyed_filter: "keyed key_of m \<Longrightarrow> keyed key_of (filter P m)"
proof -
  assume k: "keyed key_of m"
  then have ok: "jm_ok (filter P m)" unfolding keyed_def by (intro distinct_map_filtered) blast
  have "key_of v = k" if "jm_get (filter P m) k = Some v" for k v
    using that keyed_entry [OF k, of k v] unfolding jm_get_iff [OF ok] by simp
  with ok show ?thesis by (simp add: keyed_def del: map_of_eq_Some_iff)
qed

lemma keyed_seeded: "keyed row_relation_key (fold (\<lambda>row m. jm_set (row_relation_key row) row m) rows [])"
  by (rule keyed_fold) (auto intro: keyed_set)

lemma keyed_verifiers: "keyed verifier_row_key (rebuildApiKeyVerifierIndex cells)"
  unfolding rebuildApiKeyVerifierIndex_def
  by (rule keyed_fold) (auto intro!: keyed_fold [OF _ ] intro: keyed_set rows_for_actor_keyed split: if_splits)

lemma keyed_contents: "keyed row_relation_key (rebuildContentsRelation cells sc)"
  unfolding rebuildContentsRelation_def
  by (rule keyed_fold) (auto intro!: keyed_set simp: row_relation_key_def contents_row_def split: option.split)

lemma mirror_keyed_of: "mirror key_of m table \<Longrightarrow> keyed key_of m"
  by (simp add: mirror_def keyed_def)

lemma mirror_replaced_relations: "mirror row_relation_key m0 table \<Longrightarrow> keyed row_relation_key m \<Longrightarrow>
  mirror row_relation_key m (relation_table.replaced (\<lambda>_. True) m table)"
  by (rule relation_table.mirror_replaced) (auto simp: keyed_def)

lemma mirror_replaced_verifiers: "mirror verifier_row_key m0 table \<Longrightarrow> keyed verifier_row_key m \<Longrightarrow>
  mirror verifier_row_key m (verifier_table.replaced (\<lambda>_. True) m table)"
  by (rule verifier_table.mirror_replaced) (auto simp: keyed_def)

lemma get_filter: "jm_ok m \<Longrightarrow> jm_get (filter P m) k = (case jm_get m k of Some v \<Rightarrow> if P (k, v) then Some v else None | None \<Rightarrow> None)"
  by (induction m) (auto split: option.split simp: map_of_eq_None_iff)

text \<open>The rebuilt rows: the \<open>contents\<close> family is replaced, every other row stays.\<close>

definition rebuilt_rows :: "sequencer \<Rightarrow> (string, relation_row) jsmap" where
  "rebuilt_rows s = fold (\<lambda>(key, row) m. jm_set key row m) (rebuilt_contents s)
     (filter (\<lambda>(key, row). \<not> (rel_relation row = ''contents'' \<and> \<not> jm_has (rebuilt_contents s) key)) (sq_relationRows s))"

lemma keyed_rebuilt: "keyed row_relation_key (rebuilt_contents s)"
  unfolding rebuilt_contents_def by (intro keyed_filter keyed_contents)

lemma mirror_rebuilt:
  assumes "mirror row_relation_key (sq_relationRows s) table"
  shows "mirror row_relation_key (rebuilt_rows s) (relation_table.replaced (\<lambda>row. rel_relation row = ''contents'') (rebuilt_contents s) table)"
proof -
  let ?P = "\<lambda>row. rel_relation row = ''contents''"
  have ok: "jm_ok (rebuilt_contents s)" "jm_ok (sq_relationRows s)" "jm_ok table"
    using keyed_rebuilt [of s] assms by (auto simp: keyed_def mirror_def)
  have key: "keyed row_relation_key (rebuilt_rows s)"
    unfolding rebuilt_rows_def by (intro keyed_copy keyed_rebuilt keyed_filter mirror_keyed_of [OF assms])
  have "jm_get (relation_table.replaced ?P (rebuilt_contents s) table) k = jm_get (rebuilt_rows s) k" for k
    unfolding relation_table.get_replaced [OF assms ok(1)] rebuilt_rows_def get_puts [OF ok(1)] get_filter [OF ok(2)]
    by (simp add: jm_has_def del: map_of_eq_Some_iff split: option.split)
  then show ?thesis using key relation_table.ok_replaced [OF ok(3), of ?P "rebuilt_contents s"]
    unfolding mirror_def keyed_def by (simp add: fun_eq_iff del: map_of_eq_Some_iff)
qed

section \<open>Replies\<close>

lemma del_keys_append: "del_keys (xs @ ys) m = del_keys ys (del_keys xs m)"
  by (simp add: del_keys_def)

lemma shed_writes: "put_replies (fst (shed ks m)) m = snd (shed ks m)"
proof -
  let ?f = "\<lambda>key (rewritten, m). case jm_get m key of
      Some (Accepted a) \<Rightarrow> (rewritten @ [(key, strip_output (Accepted a))], jm_set key (strip_output (Accepted a)) m)
    | _ \<Rightarrow> (rewritten, m)"
  have step: "put_replies (fst (?f k acc)) m = snd (?f k acc)" if "put_replies (fst acc) m = snd acc" for k acc
    using that by (cases acc) (simp add: put_replies_def del: map_of_eq_Some_iff split: option.split commit_reply.split)
  have "put_replies (fst (fold ?f ks acc)) m = snd (fold ?f ks acc)" if "put_replies (fst acc) m = snd acc" for acc
    using that by (rule List.fold_invariant [where Q = "\<lambda>_. True" and P = "\<lambda>acc. put_replies (fst acc) m = snd acc", rotated]) (use step in blast)+
  from this [of "([], m)"] show ?thesis by (simp add: shed_def put_replies_def)
qed

lemma prune_writes:
  assumes "pruneReplies now s = (pr, s')"
  shows "sq_replies s' = put_replies (pr_rewritten pr) (del_keys (pr_pruned pr) (sq_replies s))"
  using assms unfolding pruneReplies_def Let_def by (auto simp: split_beta del_keys_append shed_writes)

lemma dated_set: "dated m \<Longrightarrow> recorded_at r \<noteq> None \<Longrightarrow> dated (jm_set k r m)"
  unfolding dated_def by (auto split: if_splits)

lemma dated_del: "dated m \<Longrightarrow> dated (jm_del k m)"
  unfolding dated_def by (auto split: if_splits)

lemma dated_dels: "dated m \<Longrightarrow> dated (del_keys ks m)"
  unfolding del_keys_def by (rule List.fold_invariant [where Q = "\<lambda>_. True"]) (auto intro: dated_del)

lemma dated_get: "dated m \<Longrightarrow> jm_get m k = Some r \<Longrightarrow> recorded_at r \<noteq> None"
  unfolding dated_def by blast

lemma dated_shed:
  assumes "dated m" shows "dated (snd (shed ks m))"
proof -
  let ?f = "\<lambda>key (rewritten, m). case jm_get m key of
      Some (Accepted a) \<Rightarrow> (rewritten @ [(key, strip_output (Accepted a))], jm_set key (strip_output (Accepted a)) m)
    | _ \<Rightarrow> (rewritten, m)"
  have "dated (snd (?f k acc))" if d: "dated (snd acc)" for k acc
  proof (cases "jm_get (snd acc) k")
    case (Some r)
    then show ?thesis using d dated_get [OF d Some] by (cases acc; cases r) (simp_all add: dated_set)
  qed (use d in \<open>cases acc, simp\<close>)
  then have "dated (snd (fold ?f ks acc))" if "dated (snd acc)" for acc
    using that by (rule_tac List.fold_invariant [where Q = "\<lambda>_. True" and P = "\<lambda>acc. dated (snd acc)"]) blast+
  from this [of "([], m)"] show ?thesis using assms by (simp add: shed_def)
qed

lemma dated_prune: "dated (sq_replies s) \<Longrightarrow> dated (sq_replies (snd (pruneReplies now s)))"
  unfolding pruneReplies_def Let_def by (simp add: split_beta dated_shed dated_dels)

lemma recorded_at_with [simp]: "recorded_at (with_recorded_at now r) = Some now"
  by (cases r) simp_all

lemma record_writes:
  assumes "record_in_memory key r now s = ((pr, stored), s')" "dated (sq_replies s)"
  shows "sq_replies s' = put_replies (pr_rewritten pr) (del_keys (pr_pruned pr) (jm_set key stored (sq_replies s)))" "dated (sq_replies s')"
proof -
  let ?s = "s\<lparr>sq_replies := jm_set key stored (sq_replies s)\<rparr>"
  have p: "pruneReplies now ?s = (pr, s')" "stored = with_recorded_at now r"
    using assms(1) by (auto simp: record_in_memory_def Let_def split_beta)
  from prune_writes [OF p(1)] show "sq_replies s' = put_replies (pr_rewritten pr) (del_keys (pr_pruned pr) (jm_set key stored (sq_replies s)))" by simp
  have "dated (sq_replies ?s)" using assms(2) p(2) by (simp add: dated_set)
  from dated_prune [OF this, of now] show "dated (sq_replies s')" using p(1) by simp
qed

section \<open>The operations write through\<close>

lemma meta_mirror_next [simp]: "sq_headState s = next_head h m \<Longrightarrow> meta_mirror s (Some (metaRow s))"
  by (simp add: meta_mirror_def next_head_def)

lemma meta_mirror_bump [simp]: "sq_headState s = bump_generation h \<Longrightarrow> meta_mirror s (Some (metaRow s))"
  by (simp add: meta_mirror_def bump_generation_def)

lemma metaRow_cong:
  "sq_scope s = sq_scope s' \<Longrightarrow> sq_catalogEpoch s = sq_catalogEpoch s' \<Longrightarrow> sq_headState s = sq_headState s' \<Longrightarrow>
   sq_attribution s = sq_attribution s' \<Longrightarrow> metaRow s = metaRow s'"
  by (simp add: metaRow_def)

lemma meta_mirror_cong:
  "sq_scope s = sq_scope s' \<Longrightarrow> sq_catalogEpoch s = sq_catalogEpoch s' \<Longrightarrow> sq_headState s = sq_headState s' \<Longrightarrow>
   sq_attribution s = sq_attribution s' \<Longrightarrow> meta_mirror s m = meta_mirror s' m"
  unfolding meta_mirror_def using metaRow_cong [of s s'] by (simp split: option.split)

lemma metaRow_durable [simp]: "metaRow (on_durable f s) = metaRow s"
  by (rule metaRow_cong) simp_all

lemma meta_mirror_durable [simp]: "meta_mirror (on_durable f s) m = meta_mirror s m"
  by (rule meta_mirror_cong) simp_all

lemma written_on_durable:
  assumes "sq_durable s = Some d" "ds_replies (f d) = sq_replies s" "dated (sq_replies s)" "meta_mirror s (ds_meta (f d))"
    "cells_mirror (sq_store s) (ds_cells (f d))" "ds_tail (f d) = sq_tail s"
    "mirror row_relation_key (sq_relationRows s) (ds_relations (f d))" "mirror verifier_row_key (sq_apiKeyVerifiers s) (ds_apiKeyVerifiers (f d))"
  shows "written_through (on_durable f s)"
  using assms by (simp add: written_through_def mirrors_def)

lemma through_seed:
  assumes "seed cells relations attr s = Inr s'" "\<forall>c \<in> set cells. input_ok c" "auth_ok (sq_store s)" "written_through s"
  shows "written_through s'"
proof -
  obtain d where d: "sq_durable s = Some d" "mirrors s d" by (rule writtenE [OF assms(4)])
  note m = mirrorsD [OF d(2)]
  define s1 where "s1 = s\<lparr>sq_nextObjectCounter := None, sq_headState := bump_generation (sq_headState s),
      sq_attribution := (if attr \<noteq> None then attr else sq_attribution s)\<rparr>"
  define seeded where "seeded = map (commit_input (sq_stamp s1)) cells"
  define vs where "vs = fold (\<lambda>(key, row) m. jm_set key row m) (rebuildApiKeyVerifierIndex seeded) []"
  define s3 where "s3 = seed_relations relations (s1\<lparr>sq_store := fold (put_input (sq_stamp s1)) cells (sq_store s1), sq_apiKeyVerifiers := vs\<rparr>)"
  have s3: "sq_headState s3 = bump_generation (sq_headState s)" "sq_store s3 = fold (put_input (sq_stamp s1)) cells (sq_store s)"
    "sq_tail s3 = sq_tail s" "sq_apiKeyVerifiers s3 = vs" "sq_durable s3 = Some d" "sq_replies s3 = sq_replies s"
    "sq_relationRows s3 = (case relations of None \<Rightarrow> sq_relationRows s | Some rows \<Rightarrow> fold (\<lambda>row m. jm_set (row_relation_key row) row m) rows [])"
    using d(1) by (simp_all add: s3_def s1_def seed_relations_def Let_def split: option.split)
  have vs: "keyed verifier_row_key vs" unfolding vs_def by (rule keyed_copy [OF keyed_verifiers keyed_Nil])
  have "s' = on_durable (\<lambda>d. writeMeta (metaRow s3) (replace_verifiers (sq_apiKeyVerifiers s3)
      ((if relations \<noteq> None then replace_relations (sq_relationRows s3) else id) (fold writeCell seeded d)))) s3"
    using assms(1) by (simp add: seed_def Let_def s3_def s1_def seeded_def vs_def split: if_splits)
  moreover have "cells_mirror (sq_store s3) (put_cells seeded (ds_cells d))"
    unfolding s3(2) seeded_def by (rule cells_mirror_puts [OF assms(3,2) m(4)])
  ultimately show ?thesis
    using mirror_replaced_verifiers [OF m(7) vs] mirror_replaced_relations [OF m(6) keyed_seeded] m s3 s3(1) [THEN meta_mirror_bump]
    by (simp only:, intro written_on_durable [of _ d]) (simp_all add: transactions writeMeta_def split: option.split)
qed

lemma through_activate:
  assumes "auth_ok (sq_store s)" "written_through s"
  shows "written_through (operatorActivationWrite e s)"
proof -
  obtain d where d: "sq_durable s = Some d" "mirrors s d" by (rule writtenE [OF assms(2)])
  note m = mirrorsD [OF d(2)]
  let ?in = "(Property_cell, ''$system'', Some ''net_active_epoch'', JObj [(''value'', json_of_ref e)])"
  have "cells_mirror (put_input st ?in (sq_store s)) (jm_set (input_key ?in) (commit_input st ?in) (ds_cells d))" for st
    by (rule cells_mirror_put [OF assms(1) _ m(4)]) simp
  then show ?thesis unfolding operatorActivationWrite_def Let_def
    by (intro written_on_durable [of _ d])
      (use d(1) m in \<open>simp_all add: writeCell_def writeMeta_def del: put_input.simps commit_input.simps input_key.simps\<close>)
qed

text \<open>Repair and adoption end alike: re-index the credentials, sequence the event, write the rows through.\<close>

definition finish_event :: "string \<Rightarrow> string list \<Rightarrow> string list \<Rightarrow> (scope_store \<Rightarrow> scope_store) \<Rightarrow> sequencer \<Rightarrow> sequencer" where
  "finish_event marker touched actors cells s =
     (let (verifierKeys, s2) = reindex_own actors s; (entry, s3) = owner_event marker touched s2
      in on_durable (\<lambda>d. durable_verifiers verifierKeys (sq_apiKeyVerifiers s3) (durable_event s3 entry (cells d))) s3)"

lemma through_finish:
  assumes "sq_durable s = Some d" "ds_replies d = sq_replies s" "dated (sq_replies s)" "ds_tail d = sq_tail s"
    "\<And>d. \<exists>m. cells d = d\<lparr>ds_cells := m\<rparr>" "cells_mirror (sq_store s) (ds_cells (cells d))"
    "mirror row_relation_key (sq_relationRows s) (ds_relations d)" "mirror verifier_row_key (sq_apiKeyVerifiers s) (ds_apiKeyVerifiers d)"
  shows "written_through (finish_event marker touched actors cells s)"
proof -
  obtain m where m: "cells d = d\<lparr>ds_cells := m\<rparr>" using assms(5) by blast
  obtain ks s2 where r: "reindex_own actors s = (ks, s2)" by force
  have s2: "snd (reindex_own actors s) = s2" by (simp add: r)
  have "tracks verifier_row_key (sq_apiKeyVerifiers s) ks (sq_apiKeyVerifiers s2)"
    using tracks_reindex [OF tracks_start [OF assms(8)], of "sq_store s" actors] r by (simp add: reindex_own_def)
  from mirror_tracked_verifiers [OF assms(8) this]
  show ?thesis unfolding finish_event_def Let_def r prod.case split_beta
    by (intro written_on_durable [of _ d])
      (use assms reindex_own_sel [of actors s, unfolded s2] in \<open>simp_all add: m transactions\<close>)
qed

lemma through_repair:
  assumes "orderedOperatorRepair label cells removals s = (r, s')" "\<forall>c \<in> set cells. input_ok c" "auth_ok (sq_store s)" "written_through s"
  shows "written_through s'"
proof -
  let ?changed = "filter (input_changed (sq_store s)) cells"
  let ?removed = "filter (store_has (sq_store s)) (map (\<lambda>(k, obj, nm). cellKey k obj nm) removals)"
  show ?thesis
  proof (cases "?changed = [] \<and> ?removed = []")
    case True
    then show ?thesis using assms(1,4) by (simp add: orderedOperatorRepair_def Let_def)
  next
    case False
    obtain d where d: "sq_durable s = Some d" "mirrors s d" by (rule writtenE [OF assms(4)])
    note m = mirrorsD [OF d(2)]
    define marker where "marker = label @ '':'' @ cellVersion (JObj [(''replacements'', JArr (map input_json ?changed)), (''removals'', JArr (map JStr ?removed))])"
    define stamp where "stamp = stamp_of (next_head (sq_headState s) marker) (sq_catalogEpoch s)"
    let ?cs = "map (commit_input stamp) ?changed"
    let ?s1 = "s\<lparr>sq_store := fold store_delete ?removed (fold (put_input stamp) ?changed (sq_store s))\<rparr>"
    have "s' = snd (orderedOperatorRepair label cells removals s)" using assms(1) by simp
    also have "\<dots> = finish_event marker (sort (map c_key ?cs @ ?removed)) (input_credential_actors ?changed)
        (\<lambda>d. fold deleteCell ?removed (fold writeCell ?cs d)) ?s1"
      by (simp add: False orderedOperatorRepair_def finish_event_def Let_def split_beta marker_def stamp_def)
    finally have s': "s' = \<dots>" .
    have "cells_mirror (fold store_delete ?removed (fold (put_input stamp) ?changed (sq_store s))) (del_keys ?removed (put_cells ?cs (ds_cells d)))"
      by (intro cells_mirror_deletes cells_mirror_puts [OF assms(3) _ m(4)]) (use assms(2) in auto)
    then show ?thesis unfolding s' using m d(1) by (intro through_finish [of _ d]) (auto simp: transactions)
  qed
qed

lemma through_adopt:
  assumes "adopt input s = (r, s')" "\<forall>c \<in> set (ai_cells input). wf_cell c" "auth_ok (sq_store s)" "written_through s"
  shows "written_through s'"
proof (cases "adopt_mutations s input \<noteq> [] \<or> adopt_cells s input = [] \<and> adopt_removals s input = []")
  case True
  then show ?thesis using assms(1,4) by (auto simp: adopt_def Let_def split: if_splits)
next
  case False
  then have c: "adopt_mutations s input = []" "(adopt_cells s input = [] \<and> adopt_removals s input = []) = False" by blast+
  obtain d where d: "sq_durable s = Some d" "mirrors s d" by (rule writtenE [OF assms(4)])
  note m = mirrorsD [OF d(2)]
  define marker where "marker = ''adopt:'' @ ai_from_scope input @ '':'' @ show_int (ai_seq input)"
  define stamp where "stamp = stamp_of (next_head (sq_headState s) marker) (sq_catalogEpoch s)"
  let ?inputs = "map cell_as_input (adopt_cells s input)"
  let ?st = "fold store_delete (adopt_removals s input) (fold (put_input stamp) ?inputs (sq_store s))"
  let ?applied = "sort (map input_key ?inputs @ adopt_removals s input)"
  have "s' = snd (adopt input s)" using assms(1) by simp
  also have "\<dots> = finish_event marker ?applied
      (fold js_add (List.map_filter removed_credential_actor (adopt_removals s input)) (input_credential_actors ?inputs))
      (durable_cells ?applied ?st) (s\<lparr>sq_store := ?st\<rparr>)"
    by (simp add: adopt_def finish_event_def Let_def split_beta c marker_def stamp_def)
  finally have s': "s' = \<dots>" .
  have inputs: "\<forall>c \<in> set ?inputs. input_ok c" using assms(2) by (auto simp: adopt_cells_def input_ok_cell)
  have "store_ok ?st" by (intro auth_ok_store auth_ok_deletes auth_ok_put_inputs assms(3) inputs)
  moreover have "store_get ?st k = store_get (sq_store s) k" if "k \<notin> set ?applied" for k
    using that get_put_other [OF assms(3) inputs, of k stamp] by (simp add: get_deletes image_image)
  ultimately have "cells_mirror ?st (sync_cells ?applied ?st (ds_cells d))" by (intro cells_mirror_sync [OF m(4)]) auto
  then show ?thesis unfolding s' using m d(1) by (intro through_finish [of _ d]) (auto simp: transactions)
qed

lemma tracks_one_verifier:
  assumes "mirror verifier_row_key m table" "verifier_row_key row = key"
  shows "mirror verifier_row_key (jm_set key row m) (jm_set key row table)"
  using assms unfolding mirror_def by (auto simp: fun_eq_iff split: if_splits)

lemma through_ensure:
  assumes "auth_ok (sq_store s)" "written_through s" "vk_actor v = actor" "vk_id v = i"
  shows "written_through (snd (ensure_credential actor i rcd payload m v s))"
proof -
  obtain d where d: "sq_durable s = Some d" "mirrors s d" by (rule writtenE [OF assms(2)])
  note m = mirrorsD [OF d(2)]
  let ?in = "(Property_cell, actor, Some ACTOR_API_KEYS_PROPERTY,
      JObj (present ''def'' (map_of payload ''def'') @ [(''value'', JObj (AList.update i (JObj rcd) m))]))"
  have "cells_mirror (put_input st ?in (sq_store s)) (jm_set (input_key ?in) (commit_input st ?in) (ds_cells d))" for st
    by (rule cells_mirror_put [OF assms(1) _ m(4)]) simp
  moreover have "mirror verifier_row_key (jm_set (apiKeyVerifierKey actor i) v (sq_apiKeyVerifiers s)) (jm_set (apiKeyVerifierKey actor i) v (ds_apiKeyVerifiers d))"
    by (rule tracks_one_verifier [OF m(7)]) (simp add: verifier_row_key_def assms)
  ultimately show ?thesis unfolding ensure_credential_def Let_def split_beta snd_conv
    by (intro written_on_durable [of _ d])
      (use d(1) m in \<open>simp_all add: writeCell_def writeApiKeyVerifier_def durable_event_eq del: put_input.simps commit_input.simps input_key.simps\<close>)
qed

lemma through_credential:
  assumes "operatorEnsureCredential actor i rcd s = (r, s')" "auth_ok (sq_store s)" "written_through s"
  shows "written_through s'"
proof -
  have "s' = s \<or> (\<exists>payload m. s' = snd (ensure_credential actor i rcd payload m \<lparr>vk_actor = actor, vk_id = i, vk_record = JObj rcd\<rparr> s))"
    using assms(1) unfolding operatorEnsureCredential_def Let_def
    by (auto split: if_splits option.splits) (metis snd_conv)+
  then show ?thesis using through_ensure [OF assms(2,3)] assms(3) by auto
qed

lemma tracks_apply_relations:
  assumes "mirror row_relation_key (sq_relationRows s) table"
  shows "tracks row_relation_key (sq_relationRows s) (fst (apply_relations ds s)) (sq_relationRows (snd (apply_relations ds s)))"
  using tracks_deltas [OF tracks_start [OF assms]] by (simp add: apply_relations_def split_beta)

lemma through_reap:
  assumes "reapExpiredSessions now owns s = (r, s')" "auth_ok (sq_store s)" "written_through s"
  shows "written_through s'"
proof (cases "expired_cells now owns s = []")
  case True
  then show ?thesis using assms by (auto simp: reapExpiredSessions_def Let_def)
next
  case False
  obtain d where d: "sq_durable s = Some d" "mirrors s d" by (rule writtenE [OF assms(3)])
  note m = mirrorsD [OF d(2)]
  let ?reaped = "map (reaped_of (live_actors now s)) (expired_cells now owns s)" and ?dead = "map c_key (expired_cells now owns s)"
  define marker where "marker = ''session_reap:'' @ cellVersion (JArr (map (JStr \<circ> ra_session) ?reaped))"
  define stamp where "stamp = stamp_of (next_head (sq_headState s) marker) (sq_catalogEpoch s)"
  obtain live st where st: "fold (retire_live stamp) ?reaped ([], fold store_delete ?dead (sq_store s)) = (live, st)" by force
  define s1 where "s1 = snd (owner_event marker (sort (?dead @ live)) (s\<lparr>sq_store := st\<rparr>))"
  define entry where "entry = fst (owner_event marker (sort (?dead @ live)) (s\<lparr>sq_store := st\<rparr>))"
  obtain ks s2 where s2: "apply_relations (reap_removals ?reaped s1) s1 = (ks, s2)" by force
  have "snd (reapExpiredSessions now owns s) = on_durable (\<lambda>d. durable_relations ks (sq_relationRows s2)
      (durable_event s2 entry (fold (\<lambda>key d. case store_get (sq_store s2) key of Some c \<Rightarrow> writeCell c d | None \<Rightarrow> d) live (fold deleteCell ?dead d)))) s2"
    unfolding reapExpiredSessions_def Let_def split_beta map_is_Nil_conv if_not_P [OF False] snd_conv
    by (simp only: marker_def [symmetric] stamp_def [symmetric] st fst_conv snd_conv s1_def [symmetric] entry_def [symmetric] s2)
  then have eq: "s' = \<dots>" using assms(1) by simp
  have s2': "s2 = snd (apply_relations (reap_removals ?reaped s1) s1)" by (simp add: s2)
  have rel: "tracks row_relation_key (sq_relationRows s) ks (sq_relationRows s2)"
  proof -
    have "sq_relationRows s1 = sq_relationRows s" by (simp add: s1_def)
    then show ?thesis using tracks_apply_relations [of s1 "ds_relations d" "reap_removals ?reaped s1"] m(6) by (simp add: s2)
  qed
  have cells: "cells_mirror st (put_cells (List.map_filter (store_get st) live) (del_keys ?dead (ds_cells d)))"
    by (rule cells_mirror_retired [OF auth_ok_deletes [OF assms(2)] cells_mirror_deletes [OF m(4)] st])
  show ?thesis unfolding eq
    by (rule written_on_durable [of _ d])
      (use d(1) m cells mirror_tracked_relations [OF m(6) rel] in \<open>simp_all add: transactions s2' s1_def entry_def\<close>)
qed

lemma through_relate:
  assumes "applyForeignRelationDeltas deltas from' ev s = (r, s')" "written_through s"
  shows "written_through s'"
proof -
  obtain d where d: "sq_durable s = Some d" "mirrors s d" by (rule writtenE [OF assms(2)])
  note m = mirrorsD [OF d(2)]
  obtain ks s1 where s1: "apply_relations deltas s = (ks, s1)" by force
  have s1': "s1 = snd (apply_relations deltas s)" by (simp add: s1)
  have rel: "tracks row_relation_key (sq_relationRows s) ks (sq_relationRows s1)" using tracks_apply_relations [OF m(6), of deltas] by (simp add: s1)
  show ?thesis
  proof (cases "ks = [] \<and> \<not> ev")
    case True
    then have "s' = s1" using assms(1) s1 by (simp add: applyForeignRelationDeltas_def)
    moreover have "mirror row_relation_key (sq_relationRows s1) (ds_relations d)"
      using mirror_tracked_relations [OF m(6) rel] True by (simp add: relation_table.synced_def)
    moreover have "meta_mirror s1 (ds_meta d)" using m(3) meta_mirror_cong [of s1 s] by (simp add: s1')
    ultimately show ?thesis using d(1) m by (simp add: written_through_def mirrors_def s1')
  next
    case False
    then obtain marker where "s' = on_durable (\<lambda>d. durable_event (snd (owner_event marker (sort ks) s1)) (fst (owner_event marker (sort ks) s1))
        (durable_relations ks (sq_relationRows (snd (owner_event marker (sort ks) s1))) d)) (snd (owner_event marker (sort ks) s1))"
      using assms(1) s1 by (auto simp: applyForeignRelationDeltas_def Let_def split_beta simp del: owner_event_sel split: if_splits)
    then show ?thesis using d(1) m mirror_tracked_relations [OF m(6) rel]
      by (simp only:, intro written_on_durable [of _ d]) (simp_all add: transactions s1')
  qed
qed

lemma through_rebuild:
  assumes "written_through s"
  shows "written_through (rebuildRelations s)"
proof -
  obtain d where d: "sq_durable s = Some d" "mirrors s d" by (rule writtenE [OF assms])
  note m = mirrorsD [OF d(2)]
  let ?vs = "fold (\<lambda>(key, row) m. jm_set key row m) (rebuildApiKeyVerifierIndex (allCells (sq_store s))) []"
  have vs: "keyed verifier_row_key ?vs" by (rule keyed_copy [OF keyed_verifiers keyed_Nil])
  have rows: "fold (\<lambda>(key, row). writeRelation key row) (rebuilt_contents s)
      (fold (\<lambda>row. if rel_relation row = ''contents'' then deleteRelation (row_relation_key row) else id) (jm_values (ds_relations d)) d)
    = d\<lparr>ds_relations := relation_table.replaced (\<lambda>row. rel_relation row = ''contents'') (rebuilt_contents s) (ds_relations d)\<rparr>"
    by (rule relation_table.replaced_rows)
  have eq: "rebuildRelations s = on_durable (\<lambda>d. replace_verifiers ?vs (fold (\<lambda>(key, row). writeRelation key row) (rebuilt_contents s)
      (fold (\<lambda>row. if rel_relation row = ''contents'' then deleteRelation (row_relation_key row) else id) (jm_values (ds_relations d)) d)))
      (s\<lparr>sq_relationRows := rebuilt_rows s, sq_apiKeyVerifiers := ?vs\<rparr>)"
    by (simp add: rebuildRelations_def Let_def rebuilt_rows_def)
  have meta: "meta_mirror (s\<lparr>sq_relationRows := rebuilt_rows s, sq_apiKeyVerifiers := ?vs\<rparr>) (ds_meta d)"
    using m(3) meta_mirror_cong [of "s\<lparr>sq_relationRows := rebuilt_rows s, sq_apiKeyVerifiers := ?vs\<rparr>" s] by simp
  show ?thesis unfolding eq
    by (rule written_on_durable [of _ d])
      (use d(1) m meta mirror_rebuilt [OF m(6)] mirror_replaced_verifiers [OF m(7) vs] in \<open>simp_all only: rows, simp_all add: transactions\<close>)
qed

text \<open>The schedule queue and the object counter are outside the mirror.\<close>

lemma written_cong:
  assumes "map_option (\<lambda>d. d\<lparr>ds_scheduled := []\<rparr>) (sq_durable s') = map_option (\<lambda>d. d\<lparr>ds_scheduled := []\<rparr>) (sq_durable s)"
    "sq_store s' = sq_store s" "sq_headState s' = sq_headState s" "sq_tail s' = sq_tail s" "sq_scope s' = sq_scope s"
    "sq_catalogEpoch s' = sq_catalogEpoch s" "sq_attribution s' = sq_attribution s" "sq_replies s' = sq_replies s"
    "sq_relationRows s' = sq_relationRows s" "sq_apiKeyVerifiers s' = sq_apiKeyVerifiers s" "written_through s"
  shows "written_through s'"
proof -
  obtain d where d: "sq_durable s = Some d" "mirrors s d" by (rule writtenE [OF assms(11)])
  obtain d' where d': "sq_durable s' = Some d'" "d'\<lparr>ds_scheduled := []\<rparr> = d\<lparr>ds_scheduled := []\<rparr>" using assms(1) d(1) by auto
  have same: "ds_meta d' = ds_meta d" "ds_cells d' = ds_cells d" "ds_replies d' = ds_replies d" "ds_tail d' = ds_tail d"
    "ds_relations d' = ds_relations d" "ds_apiKeyVerifiers d' = ds_apiKeyVerifiers d"
    using arg_cong [OF d'(2), of ds_meta] arg_cong [OF d'(2), of ds_cells] arg_cong [OF d'(2), of ds_replies]
      arg_cong [OF d'(2), of ds_tail] arg_cong [OF d'(2), of ds_relations] arg_cong [OF d'(2), of ds_apiKeyVerifiers] by simp_all
  show ?thesis using d(2) d'(1) meta_mirror_cong [of s' s] by (simp add: written_through_def mirrors_def same assms(2-10))
qed

lemma through_queue: "queue_free s' = queue_free s \<Longrightarrow> written_through s \<Longrightarrow> written_through s'"
proof -
  assume q: "queue_free s' = queue_free s" and w: "written_through s"
  have "map_option (\<lambda>d. d\<lparr>ds_scheduled := []\<rparr>) (sq_durable s') = map_option (\<lambda>d. d\<lparr>ds_scheduled := []\<rparr>) (sq_durable s)"
    using arg_cong [OF q, of sq_durable] by (simp add: queue_free_def)
  then show ?thesis by (rule written_cong) (use q w in \<open>metis queue_free_sel\<close>)+
qed

section \<open>Submits write through\<close>

lemma through_recorded:
  assumes "written_through s" shows "written_through (snd (recordedReply key now s))"
proof -
  obtain d where d: "sq_durable s = Some d" "mirrors s d" by (rule writtenE [OF assms])
  note m = mirrorsD [OF d(2)]
  have "meta_mirror (s\<lparr>sq_replies := r\<rparr>) (ds_meta d)" for r using m(3) meta_mirror_cong [of "s\<lparr>sq_replies := r\<rparr>" s] by simp
  then have "written_through (on_durable (deleteReply key) (s\<lparr>sq_replies := jm_del key (sq_replies s)\<rparr>))"
    by (intro written_on_durable [of _ d]) (use d(1) m in \<open>simp_all add: deleteReply_def dated_del\<close>)
  with assms show ?thesis by (simp add: recordedReply_def split: option.split)
qed

lemma through_record:
  assumes "written_through s" shows "written_through (recordReply key r now s)"
proof -
  obtain d where d: "sq_durable s = Some d" "mirrors s d" by (rule writtenE [OF assms])
  note m = mirrorsD [OF d(2)]
  obtain pr stored s' where rec: "record_in_memory key r now s = ((pr, stored), s')" by (metis surj_pair)
  have s': "s' = snd (record_in_memory key r now s)" by (simp add: rec)
  have "meta_mirror s' (ds_meta d)" using m(3) meta_mirror_cong [of s' s] by (simp add: s')
  then show ?thesis unfolding recordReply_def rec Let_def prod.case
    by (intro written_on_durable [of _ d]) (use d(1) m record_writes [OF rec m(2)] in \<open>simp_all add: durable_reply_eq\<close>, simp_all add: s')
qed

lemma through_refuse: "written_through s \<Longrightarrow> written_through (snd (refuse sub rf now s))"
  by (simp add: refuse_def reject_def Let_def through_record split: prod.split)

lemma through_receipt: "written_through s \<Longrightarrow> written_through (recordDirectReceipt sub r now s)"
  by (simp add: recordDirectReceipt_def through_record)

lemma accept_memory_rows:
  assumes "accept_memory now sub applied s = (out, s')"
    "mirror row_relation_key (sq_relationRows s) rtable" "mirror verifier_row_key (sq_apiKeyVerifiers s) vtable"
  shows "tracks verifier_row_key (sq_apiKeyVerifiers s) (ao_verifierKeys out) (sq_apiKeyVerifiers s')"
    and "tracks row_relation_key (sq_relationRows s) (ao_relationKeys out) (sq_relationRows s')"
    and "\<exists>s5 rec. sq_replies s5 = sq_replies s \<and> record_in_memory (cs_idempotency_key sub) rec now s5 = ((ao_prune out, ao_stored out), s')"
proof -
  define t where "t = cs_transcript sub"
  define nextHead where "nextHead = next_head (sq_headState s) (t_hash t)"
  define s1 where "s1 = s\<lparr>sq_store := fold (adopt_key (ar_post applied)) (ar_touched applied) (sq_store s), sq_headState := nextHead\<rparr>"
  define s3 where "s3 = memory_log (committedLogEntry now t) (push_tail (tail_entry_of (sq_headState s) nextHead (t_hash t) (ar_touched applied))
    (bump_counter t (apply_schedule_effects sub s1)))"
  obtain vk s4 where s4: "reindex_credentials t (ar_post applied) s3 = (vk, s4)" by force
  define dl where "dl = dd_local (deriveRelationDeltas t (ar_projectionWrites applied) (ar_recycledObjects applied) (sq_scope s)
    (so_scopeOf (sq_options s)) (Some (ar_post applied)))"
  obtain rk s5 where s5: "apply_relations dl s4 = (rk, s5)" by force
  have s3: "sq_apiKeyVerifiers s3 = sq_apiKeyVerifiers s" "sq_relationRows s3 = sq_relationRows s" "sq_replies s3 = sq_replies s"
    by (simp_all add: s3_def s1_def)
  have v: "tracks verifier_row_key (sq_apiKeyVerifiers s) vk (sq_apiKeyVerifiers s4)"
    using tracks_reindex [of "sq_apiKeyVerifiers s" "[]" s3] tracks_start [OF assms(3)] s3(1) s4 by (metis reindex_credentials_def fst_conv snd_conv)
  have s4': "s4 = snd (reindex_credentials t (ar_post applied) s3)" and s5': "s5 = snd (apply_relations dl s4)" by (simp_all add: s4 s5)
  have "sq_relationRows s4 = sq_relationRows s" by (simp add: s4' s3(2))
  then have r: "tracks row_relation_key (sq_relationRows s) rk (sq_relationRows s5)"
    using tracks_apply_relations [of s4 rtable dl] assms(2) by (simp add: s5)
  obtain rec where rec: "record_in_memory (cs_idempotency_key sub) rec now s5 = ((ao_prune out, ao_stored out), s')" "ao_verifierKeys out = vk" "ao_relationKeys out = rk"
    using assms(1) unfolding accept_memory_def Let_def t_def [symmetric] nextHead_def [symmetric] s1_def [symmetric] s3_def [symmetric] s4 prod.case
      dl_def [symmetric] s5 by (auto simp: split_beta)
  then have s': "s' = snd (record_in_memory (cs_idempotency_key sub) rec now s5)" by simp
  have "sq_apiKeyVerifiers s' = sq_apiKeyVerifiers s4" "sq_relationRows s' = sq_relationRows s5" by (simp_all add: s' s5')
  then show "tracks verifier_row_key (sq_apiKeyVerifiers s) (ao_verifierKeys out) (sq_apiKeyVerifiers s')"
    "tracks row_relation_key (sq_relationRows s) (ao_relationKeys out) (sq_relationRows s')" using v r rec(2,3) by simp_all
  have "sq_replies s5 = sq_replies s" by (simp add: s5' s4' s3(3))
  with rec(1) show "\<exists>s5 rec. sq_replies s5 = sq_replies s \<and> record_in_memory (cs_idempotency_key sub) rec now s5 = ((ao_prune out, ao_stored out), s')"
    by blast
qed

lemma log_frame:
  assumes "appendLogEntry e d = Some d'" shows "\<exists>rows. d' = d\<lparr>ds_logRows := rows\<rparr>"
proof -
  have "\<exists>rows. d = d\<lparr>ds_logRows := rows\<rparr>" by (rule exI [of _ "ds_logRows d"]) simp
  then show ?thesis using assms by (auto simp: appendLogEntry_def Let_def split: option.splits if_splits)
qed

lemma through_accept:
  assumes "auth_ok (sq_store s)" "written_through s"
    and ap: "applyTranscript (sq_store s) (cs_transcript sub)
        (stamp_of (next_head (sq_headState s) (t_hash (cs_transcript sub))) (sq_catalogEpoch s)) = Inr applied"
    and run: "accept_durable sub applied (accept_memory now sub applied s) = (Inr reply, s')"
  shows "written_through s'"
proof -
  obtain d where d: "sq_durable s = Some d" "mirrors s d" by (rule writtenE [OF assms(2)])
  note m = mirrorsD [OF d(2)]
  obtain out s1 where mem: "accept_memory now sub applied s = (out, s1)" by force
  note st = accept_memory_state [OF mem] and rows = accept_memory_rows [OF mem m(6,7)]
  obtain s5 rec where rec: "sq_replies s5 = sq_replies s" "record_in_memory (cs_idempotency_key sub) rec now s5 = ((ao_prune out, ao_stored out), s1)"
    using rows(3) by blast
  have dated5: "dated (sq_replies s5)" using m(2) rec(1) by simp
  note replies = record_writes [OF rec(2) dated5, unfolded rec(1)]
  have ex: "\<exists>e. sq_durable s1 = Some e \<and> (\<exists>q. e = d\<lparr>ds_scheduled := q\<rparr>)"
  proof -
    obtain e where e: "sq_durable s1 = Some e" "e\<lparr>ds_scheduled := []\<rparr> = d\<lparr>ds_scheduled := []\<rparr>" using st(12) d(1) by auto
    have "e = d\<lparr>ds_scheduled := ds_scheduled e\<rparr>" using arg_cong [OF e(2), of "ds_scheduled_update (\<lambda>_. ds_scheduled e)"] by simp
    with e(1) show ?thesis by blast
  qed
  then obtain q where q: "sq_durable s1 = Some (d\<lparr>ds_scheduled := q\<rparr>)" by blast
  let ?d1 = "durable_before_log sub applied out s1 (d\<lparr>ds_scheduled := q\<rparr>)"
  obtain d2 where d2: "(case ao_logEntry out of None \<Rightarrow> Some ?d1 | Some e \<Rightarrow> appendLogEntry e ?d1) = Some d2"
    "s' = s1\<lparr>sq_durable := Some (durable_after_log out s1 d2)\<rparr>"
    using run unfolding mem accept_durable_def prod.case q option.case Let_def by (auto split: option.splits)
  have "\<exists>rows. d2 = ?d1\<lparr>ds_logRows := rows\<rparr>"
  proof (cases "ao_logEntry out")
    case None
    then show ?thesis using d2(1) by (auto intro: exI [of _ "ds_logRows ?d1"])
  next
    case (Some e)
    then show ?thesis using d2(1) log_frame [of e ?d1 d2] by simp
  qed
  then obtain lg where lg: "d2 = ?d1\<lparr>ds_logRows := lg\<rparr>" by blast
  obtain r where r: "applyTranscript (sq_store s) (cs_transcript sub)
        (stamp_of (next_head (sq_headState s) (t_hash (cs_transcript sub))) (sq_catalogEpoch s)) = Inr r" "auth_ok (ar_post r)"
    using apply_spec [OF assms(1)] by metis
  have post: "auth_ok (ar_post applied)" using r ap by simp
  have "cells_mirror (sq_store s1) (sync_cells (ar_touched applied) (sq_store s1) (ds_cells d))"
    using adopt_keys_spec [OF assms(1) post, of "ar_touched applied"]
    by (intro cells_mirror_sync [OF m(4)]) (simp_all add: st(1) auth_ok_store)
  moreover have "s' = on_durable (\<lambda>_. durable_after_log out s1 d2) s1" by (simp add: d2(2) on_durable_def q)
  ultimately show ?thesis
    by (simp only:, intro written_on_durable [OF q])
      (use m st replies mirror_tracked_relations [OF m(6) rows(2)] mirror_tracked_verifiers [OF m(7) rows(1)] in
        \<open>simp_all add: lg durable_after_log_def durable_before_log_def transactions write_replies delete_replies durable_tail_def trimTail_def
          appendTail_def writeReply_def writeMeta_def\<close>)
qed

lemma through_submit:
  assumes "auth_ok (sq_store s)" "written_through s" "submit now sub s = (Inr reply, s')"
  shows "written_through s'"
proof -
  obtain rec s1 where rr: "recordedReply (cs_idempotency_key sub) now s = (rec, s1)" by force
  have w: "written_through s1" using through_recorded [OF assms(2), of "cs_idempotency_key sub" now] rr by simp
  have ok: "auth_ok (sq_store s1)" using authority_eqD(1) [OF authority_recordedReply [of "cs_idempotency_key sub" now s]] rr assms(1) by simp
  have refusal: "written_through s'" if "refuse sub rf now s1 = (Inr reply, s')" for rf
    using through_refuse [OF w, of sub rf now] that by simp
  show ?thesis
  proof (cases rec)
    case (Some recorded)
    then show ?thesis using rr assms(3) w refusal by (auto simp: submit_def split: option.splits)
  next
    case None
    then have fresh: "submit_fresh now sub s1 = (Inr reply, s')" using rr assms(3) by (simp add: submit_def)
    from ok show ?thesis
    proof (cases rule: submit_fresh_cases [where now = now and sub = sub])
      case (refused rf)
      then show ?thesis using fresh refusal by simp
    next
      case (read applied)
      then show ?thesis using fresh w through_receipt [OF w] by (auto split: if_splits)
    next
      case (commit applied)
      then show ?thesis using through_accept [OF ok w commit(2)] fresh by metis
    qed
  qed
qed

section \<open>Runs write through\<close>

lemma step_writes_through:
  assumes "scope_step T s s'" "auth_ok (sq_store s)" "written_through s"
  shows "written_through s'"
  using assms(1)
proof (cases rule: scope_step.cases)
  case (step_submit now sub reply)
  then show ?thesis using through_submit [OF assms(2,3)] by blast
next
  case (step_seed cells relations attr)
  then show ?thesis using through_seed [OF _ _ assms(2,3)] by blast
next
  case (step_activate e)
  then show ?thesis using through_activate [OF assms(2,3)] by blast
next
  case (step_repair label cells removals r)
  then show ?thesis using through_repair [OF _ _ assms(2,3)] by blast
next
  case (step_credential actor i rcd r)
  then show ?thesis using through_credential [OF _ assms(2,3)] by blast
next
  case (step_adopt input r)
  then show ?thesis using through_adopt [OF _ _ assms(2,3)] by blast
next
  case (step_reap now owns r)
  then show ?thesis using through_reap [OF _ assms(2,3)] by blast
next
  case (step_relate deltas from' ev r)
  then show ?thesis using through_relate [OF _ assms(3)] by blast
next
  case step_rebuild
  then show ?thesis using through_rebuild [OF assms(3)] by blast
next
  case (step_schedule turn now)
  then have "s' = store_scheduled turn s" by (auto simp: schedule_def split: if_splits)
  then show ?thesis using through_queue [OF _ assms(3)] by simp
next
  case (step_cancel i b)
  then show ?thesis using through_queue [OF _ assms(3)] queue_free_cancel [of i s] by simp
next
  case (step_due le now limit only turns)
  then show ?thesis using through_queue [OF _ assms(3)] queue_free_due [of le now limit only s] by simp
next
  case (step_counter n)
  then have "s' = snd (objectCounter s)" by simp
  then show ?thesis by (intro written_cong [OF _ _ _ _ _ _ _ _ _ _ assms(3)]) (simp_all add: objectCounter_def Let_def split: option.split)
qed

text \<open>A new scope over an empty store is written through.\<close>

lemma through_new: "written_through (fresh_sequencer scope epoch opts (Some empty_scope_store))"
  by (simp add: fresh_sequencer_def written_through_def mirrors_def empty_scope_store_def meta_mirror_def genesis_head_def cells_mirror_def
    dated_def mirror_def fun_eq_iff)

lemma run_writes_through:
  assumes "scope_run T (fresh_sequencer scope epoch opts (Some empty_scope_store)) s"
  shows "written_through s \<and> auth_ok (sq_store s) \<and> sq_scope s = scope \<and> sq_catalogEpoch s = epoch \<and> sq_options s = opts"
  using assms
proof (induction rule: scope_run.induct)
  case run_start
  then show ?case using through_new by (simp add: fresh_sequencer_def auth_ok_new)
next
  case (run_step s' s'')
  then show ?case using step_writes_through [OF run_step.hyps(2)] scope_step_head [OF run_step.hyps(2)] by (simp add: configured_def)
qed

section \<open>Recovery\<close>

text \<open>Installing the durable cells rebuilds the authority's cells.\<close>

lemma install_rebuilds:
  assumes "\<forall>c \<in> set cs. wf_cell c \<and> c_provenance c = Authoritative" "auth_ok st"
  shows "\<exists>st'. install_all cs st = Inr st' \<and> auth_ok st' \<and> (\<forall>k. store_get st' k = jm_get (put_cells cs (st_cells st)) k)"
  using assms
proof (induction cs arbitrary: st)
  case (Cons c cs)
  have "auth_ok (setCell c st)" using Cons.prems by (intro auth_ok_setCell) simp_all
  moreover have "store_install c st = Inr (setCell c st)" using Cons.prems by (simp add: store_install_def)
  moreover have "st_cells (setCell c st) = jm_set (c_key c) c (st_cells st)" by (simp add: setCell_cells)
  ultimately show ?case using Cons.IH [of "setCell c st"] Cons.prems(1) by (simp add: put_cells_def)
qed (simp add: store_get_def put_cells_def)

lemma get_put_values:
  assumes "jm_ok m" "\<forall>(k, c) \<in> set m. c_key c = k"
  shows "jm_get (put_cells (jm_values m) m0) k = (case jm_get m k of Some c \<Rightarrow> Some c | None \<Rightarrow> jm_get m0 k)"
  using assms
proof (induction m arbitrary: m0)
  case (Cons p m)
  obtain key c where p: "p = (key, c)" by (cases p)
  have "jm_get m key = None" using Cons.prems p by (simp add: map_of_eq_None_iff)
  then show ?case using Cons.IH [of "jm_set key c m0"] Cons.prems p by (cases "k = key") (simp_all add: put_cells_def split: option.split)
qed (simp add: put_cells_def)

text \<open>A keyed family survives being read back row by row, and dated replies survive as they are.\<close>

lemma reread_keyed:
  assumes "\<forall>(k, v) \<in> set rows. key_of v = k"
  shows "fold (\<lambda>row m. jm_set (key_of row) row m) (jm_values rows) m = fold (\<lambda>(k, v) m. jm_set k v m) rows m"
  using assms by (induction rows arbitrary: m) auto

lemma get_reread:
  assumes "mirror key_of m rows"
  shows "jm_get (fold (\<lambda>row m. jm_set (key_of row) row m) (jm_values rows) []) k = jm_get m k"
proof -
  have keys: "\<forall>(k, v) \<in> set rows. key_of v = k" using mirror_keyed [OF assms] by blast
  have "jm_ok rows" "jm_get rows = jm_get m" using assms by (simp_all add: mirror_def)
  then show ?thesis unfolding reread_keyed [where key_of = key_of, OF keys] by (simp add: get_puts del: map_of_eq_Some_iff split: option.split)
qed

lemma reread_dated:
  assumes "\<forall>(k, r) \<in> set rs. recorded_at r \<noteq> None" "jm_ok (m @ rs)"
  shows "fold (date_reply now) rs (m, d) = (m @ rs, d)"
  using assms
proof (induction rs arbitrary: m)
  case (Cons p rs)
  obtain k r where p: "p = (k, r)" by (cases p)
  have "recorded_at r \<noteq> None" using Cons.prems(1) p by simp
  moreover have "jm_set k r m = m @ [(k, r)]"
  proof -
    have "k \<notin> fst ` set m" using Cons.prems(2) p by auto
    then show ?thesis by (induction m) auto
  qed
  ultimately have "date_reply now p (m, d) = (m @ [p], d)" by (simp add: p date_reply_def del: not_None_eq)
  then show ?case using Cons.IH [of "m @ [p]"] Cons.prems by simp
qed simp

lemma recover:
  assumes "written_through s" "auth_ok (sq_store s)"
  shows "\<exists>r. newSequencer now (sq_scope s) (sq_catalogEpoch s) (sq_options s) (sq_durable s) = Inr r \<and> auth_ok (sq_store r)
    \<and> sq_headState r = sq_headState s \<and> sq_attribution r = sq_attribution s \<and> sq_tail r = sq_tail s \<and> sq_replies r = sq_replies s
    \<and> sq_durable r = sq_durable s \<and> store_get (sq_store r) = store_get (sq_store s)
    \<and> jm_get (sq_relationRows r) = jm_get (sq_relationRows s) \<and> jm_get (sq_apiKeyVerifiers r) = jm_get (sq_apiKeyVerifiers s)"
proof -
  obtain d where d: "sq_durable s = Some d" "mirrors s d" by (rule writtenE [OF assms(1)])
  note m = mirrorsD [OF d(2)]
  define s0 where "s0 = fresh_sequencer (sq_scope s) (sq_catalogEpoch s) (sq_options s) (Some d)"
  define s1 where "s1 = (case ds_meta d of None \<Rightarrow> s0 | Some meta \<Rightarrow> s0\<lparr>sq_headState := (me_head meta)\<lparr>sh_generation := Some (head_generation (me_head meta))\<rparr>,
      sq_attribution := me_attribution meta\<rparr>)"
  have cells: "jm_ok (ds_cells d)" "jm_get (ds_cells d) = store_get (sq_store s)" using m(4) by (simp_all add: cells_mirror_def)
  have member: "c_key c = k \<and> wf_cell c \<and> c_provenance c = Authoritative" if "(k, c) \<in> set (ds_cells d)" for k c
  proof -
    have "store_get (sq_store s) k = Some c" using that cells jm_get_iff [OF cells(1), of k c] by simp
    then show ?thesis using auth_ok_cell [OF assms(2)] store_ok_get [OF auth_ok_store [OF assms(2)]] by blast
  qed
  have empty: "sq_store s1 = newStore Authority" by (simp add: s1_def s0_def fresh_sequencer_def split: option.split)
  have "\<exists>st. install_all (jm_values (ds_cells d)) (sq_store s1) = Inr st \<and> auth_ok st
      \<and> (\<forall>k. store_get st k = jm_get (put_cells (jm_values (ds_cells d)) (st_cells (sq_store s1))) k)"
    by (rule install_rebuilds) (use member in \<open>auto simp: empty auth_ok_new\<close>)
  then obtain st where st: "install_all (jm_values (ds_cells d)) (sq_store s1) = Inr st" "auth_ok st"
    "\<And>k. store_get st k = jm_get (put_cells (jm_values (ds_cells d)) (st_cells (sq_store s1))) k" by blast
  have nil: "st_cells (sq_store s1) = []" by (simp add: empty newStore_def)
  have "\<forall>(k, c) \<in> set (ds_cells d). c_key c = k" using member by blast
  from get_put_values [OF cells(1) this, of "[]"] have get: "store_get st = store_get (sq_store s)"
    by (simp add: fun_eq_iff st(3) cells(2) nil split: option.split)
  have head: "sq_headState s1 = sq_headState s" "sq_attribution s1 = sq_attribution s"
    using m(3) by (auto simp: s1_def s0_def fresh_sequencer_def meta_mirror_def metaRow_def head_generation_def genesis_head_def split: option.splits)
  have "\<forall>(k, r) \<in> set (ds_replies d). recorded_at r \<noteq> None" "jm_ok ([] @ ds_replies d)"
    using m(1,2) unfolding dated_def by (auto simp: jm_get_iff)
  from reread_dated [OF this] have replies: "fold (date_reply now) (ds_replies d) ([], d) = (ds_replies d, d)" by simp
  have meta: "me_scope meta = sq_scope s \<and> me_catalog_epoch meta = sq_catalogEpoch s" if "ds_meta d = Some meta" for meta
    using m(3) that by (simp add: meta_mirror_def metaRow_def)
  have "newSequencer now (sq_scope s) (sq_catalogEpoch s) (sq_options s) (sq_durable s) = Inr (hydrate_rows now d st s1)"
    using st(1) meta unfolding newSequencer_def Let_def d(1) option.case s0_def [symmetric] s1_def [symmetric]
    by (simp split: option.split)
  moreover have "jm_get (fold (\<lambda>row m. jm_set (apiKeyVerifierKey (vk_actor row) (vk_id row)) row m) (jm_values (ds_apiKeyVerifiers d)) []) = jm_get (sq_apiKeyVerifiers s)"
    using get_reread [OF m(7)] by (simp add: verifier_row_key_def fun_eq_iff)
  moreover have "jm_get (fold (\<lambda>row m. jm_set (row_relation_key row) row m) (jm_values (ds_relations d)) []) = jm_get (sq_relationRows s)"
    using get_reread [OF m(6)] by (simp add: fun_eq_iff)
  ultimately show ?thesis using st(2) get head m(5) d(1) by (simp add: hydrate_rows_def replies [unfolded m(1)] m(1) Let_def)
qed

text \<open>
  C5: a crash loses nothing that was acknowledged. After any run of a new scope over a durable store -
  submits accepted, refused or replayed, seeds, operator writes, adoptions, reaps, relation
  deliveries, repairs and schedule traffic - constructing a sequencer over the durable store succeeds
  and yields the same head, tail, attribution, recorded replies and durable rows, and the same cell,
  relation and credential under every key: every operation writes through exactly what it changed.
\<close>

theorem crash_recovery:
  assumes "scope_run T (fresh_sequencer scope epoch opts (Some empty_scope_store)) s"
  shows "\<exists>r. newSequencer now scope epoch opts (sq_durable s) = Inr r
    \<and> sq_headState r = sq_headState s \<and> sq_attribution r = sq_attribution s \<and> sq_tail r = sq_tail s \<and> sq_replies r = sq_replies s
    \<and> sq_durable r = sq_durable s \<and> store_get (sq_store r) = store_get (sq_store s)
    \<and> jm_get (sq_relationRows r) = jm_get (sq_relationRows s) \<and> jm_get (sq_apiKeyVerifiers r) = jm_get (sq_apiKeyVerifiers s)"
  using run_writes_through [OF assms] recover [of s now] by metis

theorem crash_recovery_witness:
  "\<exists>s r. scope_run 5 (fresh_sequencer ''room'' ''e'' default_options (Some empty_scope_store)) s
    \<and> newSequencer 9 ''room'' ''e'' default_options (sq_durable s) = Inr r \<and> sh_generation (sq_headState r) = Some 1"
proof -
  let ?start = "fresh_sequencer ''room'' ''e'' default_options (Some empty_scope_store)"
  let ?s = "operatorActivationWrite (Some ''e'') ?start"
  have run: "scope_run 5 ?start ?s" by (rule run_step [OF run_start [of 5 ?start] step_activate [OF refl]])
  from crash_recovery [OF run, of 9] obtain r where
    "newSequencer 9 ''room'' ''e'' default_options (sq_durable ?s) = Inr r" "sq_headState r = sq_headState ?s" by blast
  moreover have "sh_generation (sq_headState ?s) = Some 1"
    by (simp add: operatorActivationWrite_def Let_def fresh_sequencer_def bump_generation_def head_generation_def)
  ultimately show ?thesis using run by metis
qed

end
