(* ===== verification/Topology.thy ===== *)
theory Topology
  imports Sequencer
begin

text \<open>
  Which scope owns an object (\<open>src/net/topology.ts\<close>): the anchor walk over lineage payloads, the
  memoizing classifier a gateway plans with, and the partition of a world image by scope. The lineage
  lookup is an arbitrary function, so both walks are partial functions; they are shown to return
  on every lookup with a finite domain, which every lookup built from cells has.
\<close>

section \<open>The walks\<close>

definition CATALOG_SCOPE :: string where
  "CATALOG_SCOPE = ''catalog''"

record anchor_lineage =
  al_parent :: "string option"
  al_anchor :: "string option"
  al_epoch_immutable_definition :: bool

definition isEpochImmutableDefinition :: "json option \<Rightarrow> bool" where
  "isEpochImmutableDefinition v \<longleftrightarrow> is_jobj v \<and> jprop v ''epoch_immutable_definition'' = Some (JBool True)"

type_synonym lineage_lookup = "string \<Rightarrow> anchor_lineage option"

partial_function (option) anchor_walk ::
    "lineage_lookup \<Rightarrow> string \<Rightarrow> anchor_lineage \<Rightarrow> string list \<Rightarrow> (net_error + string \<times> anchor_lineage) option" where
  "anchor_walk lineage root payload walked = (case al_anchor payload of
      None \<Rightarrow> Some (Inr (root, payload))
    | Some a \<Rightarrow>
        if a \<in> set (js_add root walked) then Some (Inl (netError E_LINEAGE ''anchor walk cycles''))
        else (case lineage a of
            None \<Rightarrow> Some (Inl (netError E_LINEAGE ''anchor walk leaves the lineage set''))
          | Some p \<Rightarrow> anchor_walk lineage a p (js_add root walked)))"

partial_function (option) class_walk ::
    "lineage_lookup \<Rightarrow> string \<Rightarrow> string option \<Rightarrow> string list \<Rightarrow> (net_error + string) option" where
  "class_walk lineage root cursor chain = (case cursor of
      None \<Rightarrow> Some (Inr CATALOG_SCOPE)
    | Some c \<Rightarrow>
        if c = ''$actor'' then Some (Inr (''cluster:'' @ root))
        else if c = ''$space'' then Some (Inr (''room:'' @ root))
        else if c \<in> set chain then Some (Inl (netError E_LINEAGE ''parent chain cycles''))
        else (case lineage c of
            None \<Rightarrow> Some (Inl (netError E_LINEAGE ''parent chain leaves the lineage set''))
          | Some p \<Rightarrow> class_walk lineage root (al_parent p) (js_add c chain)))"

definition scopeNameOf :: "string \<Rightarrow> lineage_lookup \<Rightarrow> (net_error + string) option" where
  "scopeNameOf obj lineage = (case lineage obj of
      None \<Rightarrow> Some (Inl (netError E_LINEAGE ''cannot classify: object has no lineage payload''))
    | Some p \<Rightarrow> (case anchor_walk lineage obj p [] of
        None \<Rightarrow> None
      | Some (Inl e) \<Rightarrow> Some (Inl e)
      | Some (Inr (root, payload)) \<Rightarrow>
          if starts_with ''$'' root then Some (Inr CATALOG_SCOPE)
          else class_walk lineage root (al_parent payload) [root]))"

section \<open>The classifier\<close>

text \<open>The memo is threaded; an error is not memoized.\<close>

definition classifier_scopeOf ::
    "lineage_lookup \<Rightarrow> string option \<Rightarrow> string \<Rightarrow> (string, string) jsmap \<Rightarrow> (net_error + string) option \<times> (string, string) jsmap" where
  "classifier_scopeOf lineage fallback obj memo = (case jm_get memo obj of
      Some cached \<Rightarrow> (Some (Inr cached), memo)
    | None \<Rightarrow>
        let r = (case (lineage obj, fallback) of (None, Some f) \<Rightarrow> Some (Inr f) | _ \<Rightarrow> scopeNameOf obj lineage)
        in (r, case r of Some (Inr scope) \<Rightarrow> jm_set obj scope memo | _ \<Rightarrow> memo))"

definition classifier_isShared :: "string \<Rightarrow> bool" where
  "classifier_isShared scope = starts_with ''room:'' scope"

text \<open>A null payload counts as no payload; an absent or null anchor or parent ends its walk.\<close>

definition lineage_payload :: "json \<Rightarrow> anchor_lineage option" where
  "lineage_payload v = (if v = JNull then None
     else Some \<lparr>al_parent = jstr (jprop (Some v) ''parent''), al_anchor = jstr (jprop (Some v) ''anchor''),
       al_epoch_immutable_definition = isEpochImmutableDefinition (Some v)\<rparr>)"

definition lineageFromCells :: "cell list \<Rightarrow> lineage_lookup" where
  "lineageFromCells cells =
     (let byObject = fold (\<lambda>c m. if c_kind c = Object_lineage then jm_set (c_object c) (c_value c) m else m) cells []
      in (\<lambda>obj. Option.bind (jm_get byObject obj) lineage_payload))"

definition classifierFromCells ::
    "cell list \<Rightarrow> string option \<Rightarrow> string \<Rightarrow> (string, string) jsmap \<Rightarrow> (net_error + string) option \<times> (string, string) jsmap" where
  "classifierFromCells cells fallback = classifier_scopeOf (lineageFromCells cells) fallback"

section \<open>The partition\<close>

datatype partition_failure = Log_cell string | Unplaced net_error

text \<open>The scope a cell partitions to: a session goes with the actor its row names.\<close>

definition partition_scope :: "lineage_lookup \<Rightarrow> cell \<Rightarrow> (partition_failure + string) option" where
  "partition_scope lineage c =
     (if c_kind c = Log then Some (Inl (Log_cell (''log cells are scope-local and never partition: '' @ c_object c)))
      else if c_kind c = Session
      then (case jstr (jprop (Some (c_value c)) ''actor'') of
          None \<Rightarrow> Some (Inl (Unplaced (netError E_LINEAGE ''session cell names no actor to partition by'')))
        | Some actor \<Rightarrow> map_option (map_sum Unplaced id) (scopeNameOf actor lineage))
      else map_option (map_sum Unplaced id) (scopeNameOf (c_object c) lineage))"

definition partition_put :: "string \<Rightarrow> cell \<Rightarrow> (string, cell list) jsmap \<Rightarrow> (string, cell list) jsmap" where
  "partition_put scope c m = (case jm_get m scope of Some cs \<Rightarrow> jm_set scope (cs @ [c]) m | None \<Rightarrow> jm_set scope [c] m)"

fun partition_loop ::
    "lineage_lookup \<Rightarrow> cell list \<Rightarrow> (string, cell list) jsmap \<Rightarrow> (partition_failure + (string, cell list) jsmap) option" where
  "partition_loop lineage [] m = Some (Inr m)"
| "partition_loop lineage (c # cs) m = (case partition_scope lineage c of
      None \<Rightarrow> None
    | Some (Inl e) \<Rightarrow> Some (Inl e)
    | Some (Inr scope) \<Rightarrow> partition_loop lineage cs (partition_put scope c m))"

definition partitionCells :: "cell list \<Rightarrow> (partition_failure + (string, cell list) jsmap) option" where
  "partitionCells cells = partition_loop (lineageFromCells cells) cells []"

section \<open>What the walks compute\<close>

text \<open>
  The declarative reading. An object of height \<open>n\<close> has \<open>n\<close> anchors above it, the last being its root;
  heights are unique, so a chain that ends cannot repeat an object.
\<close>

inductive anchored :: "lineage_lookup \<Rightarrow> string \<Rightarrow> nat \<Rightarrow> string \<Rightarrow> anchor_lineage \<Rightarrow> bool" for lineage where
  at_root: "lineage obj = Some p \<Longrightarrow> al_anchor p = None \<Longrightarrow> anchored lineage obj 0 obj p"
| above: "lineage obj = Some p \<Longrightarrow> al_anchor p = Some a \<Longrightarrow> anchored lineage a n root q \<Longrightarrow> anchored lineage obj (Suc n) root q"

text \<open>The class of a root, read off its parent chain: the first marker decides, no marker is the catalog.\<close>

inductive root_class :: "lineage_lookup \<Rightarrow> string \<Rightarrow> string option \<Rightarrow> nat \<Rightarrow> string \<Rightarrow> bool" for lineage root where
  unmarked: "root_class lineage root None 0 CATALOG_SCOPE"
| actor: "root_class lineage root (Some ''$actor'') 0 (''cluster:'' @ root)"
| space: "root_class lineage root (Some ''$space'') 0 (''room:'' @ root)"
| parent: "c \<noteq> ''$actor'' \<Longrightarrow> c \<noteq> ''$space'' \<Longrightarrow> lineage c = Some p \<Longrightarrow> root_class lineage root (al_parent p) n sc
    \<Longrightarrow> root_class lineage root (Some c) (Suc n) sc"

definition owning_scope :: "lineage_lookup \<Rightarrow> string \<Rightarrow> string \<Rightarrow> bool" where
  "owning_scope lineage obj scope \<longleftrightarrow> (\<exists>n root p. anchored lineage obj n root p
     \<and> (if starts_with ''$'' root then scope = CATALOG_SCOPE else \<exists>m. root_class lineage root (al_parent p) m scope))"

inductive_simps anchored_iff: "anchored lineage obj n root p"
inductive_simps root_class_simps: "root_class lineage root None n sc" "root_class lineage root (Some c) n sc"

lemma anchored_unique: "anchored lineage obj n r p \<Longrightarrow> anchored lineage obj n' r' p' \<Longrightarrow> n = n' \<and> r = r' \<and> p = p'"
proof (induction arbitrary: n' rule: anchored.induct)
  case (at_root obj p)
  then show ?case by (auto simp: anchored_iff [of _ obj])
next
  case (above obj p a n root q)
  from above.prems above.hyps(1,2) obtain m where "n' = Suc m" "anchored lineage a m r' p'"
    by (auto simp: anchored_iff [of _ obj])
  then show ?case using above.IH by blast
qed

lemma root_class_unique: "root_class lineage root c n sc \<Longrightarrow> root_class lineage root c n' sc' \<Longrightarrow> n = n' \<and> sc = sc'"
proof (induction arbitrary: n' rule: root_class.induct)
  case (parent c p n sc)
  from parent.prems parent.hyps(1-3) obtain m where "n' = Suc m" "root_class lineage root (al_parent p) m sc'"
    by (auto simp: root_class_simps)
  then show ?case using parent.IH by blast
qed (auto simp: root_class_simps)

lemma anchor_walk_complete:
  assumes "anchored lineage obj n root q" "lineage obj = Some p"
    "\<forall>w \<in> set walked. \<exists>m r r'. n < m \<and> anchored lineage w m r r'"
  shows "anchor_walk lineage obj p walked = Some (Inr (root, q))"
  using assms
proof (induction arbitrary: p walked rule: anchored.induct)
  case (at_root obj p')
  then show ?case by (subst anchor_walk.simps) simp
next
  case (above obj p' a n root q)
  have me: "anchored lineage obj (Suc n) root q" using above.hyps by (rule anchored.above)
  obtain pa where pa: "lineage a = Some pa" using above.hyps(3) by (auto simp: anchored_iff [of _ a])
  have fresh: "a \<notin> set (js_add obj walked)"
  proof
    assume "a \<in> set (js_add obj walked)"
    then have "\<exists>m r r'. n < m \<and> anchored lineage a m r r'" using above.prems(2) me by (fastforce dest: Suc_lessD)
    then obtain m r r' where "n < m" "anchored lineage a m r r'" by blast
    then show False using anchored_unique [OF above.hyps(3)] by blast
  qed
  have "anchor_walk lineage a pa (js_add obj walked) = Some (Inr (root, q))"
    by (rule above.IH [OF pa]) (use above.prems(2) me in \<open>fastforce dest: Suc_lessD\<close>)
  then show ?case using above.hyps(1,2) above.prems(1) fresh pa by (subst anchor_walk.simps) simp
qed

lemma class_walk_complete:
  assumes "root_class lineage root c n sc" "\<forall>w \<in> set chain. \<exists>m sc'. n < m \<and> root_class lineage root (Some w) m sc'"
  shows "class_walk lineage root c chain = Some (Inr sc)"
  using assms
proof (induction arbitrary: chain rule: root_class.induct)
  case (parent c p n sc)
  have me: "root_class lineage root (Some c) (Suc n) sc" using parent.hyps by (rule root_class.parent)
  have "c \<notin> set chain"
  proof
    assume "c \<in> set chain"
    then obtain m sc' where "Suc n < m" "root_class lineage root (Some c) m sc'" using parent.prems by blast
    then show False using root_class_unique [OF me] by blast
  qed
  moreover have "class_walk lineage root (al_parent p) (js_add c chain) = Some (Inr sc)"
    by (rule parent.IH) (use parent.prems me in \<open>fastforce dest: Suc_lessD\<close>)
  ultimately show ?case using parent.hyps(1-3) by (subst class_walk.simps) simp
qed (subst class_walk.simps, simp)+

text \<open>Both walks return on a finite lookup, and what they return is right.\<close>

lemma anchor_walk_returns:
  assumes "finite (dom lineage)" "lineage obj = Some p" "obj \<notin> set walked"
  shows "\<exists>r. anchor_walk lineage obj p walked = Some r \<and> (\<forall>root q. r = Inr (root, q) \<longrightarrow> (\<exists>n. anchored lineage obj n root q))"
  using assms
proof (induction "card (dom lineage - set walked)" arbitrary: obj p walked rule: less_induct)
  case less
  show ?case
  proof (cases "al_anchor p")
    case None
    then show ?thesis using less.prems(2) by (subst anchor_walk.simps) (auto intro: anchored.at_root)
  next
    case (Some a)
    show ?thesis
    proof (cases "a \<in> set (js_add obj walked) \<or> lineage a = None")
      case True
      then show ?thesis using Some by (subst anchor_walk.simps) auto
    next
      case False
      then obtain pa where pa: "lineage a = Some pa" and fresh: "a \<notin> set (js_add obj walked)" by blast
      have "card (dom lineage - set (js_add obj walked)) < card (dom lineage - set walked)"
        by (rule psubset_card_mono) (use less.prems in auto)
      from less.hyps [OF this less.prems(1) pa fresh] obtain r
        where r: "anchor_walk lineage a pa (js_add obj walked) = Some r"
          "\<forall>root q. r = Inr (root, q) \<longrightarrow> (\<exists>n. anchored lineage a n root q)" by blast
      have "anchor_walk lineage obj p walked = Some r" using Some fresh pa r(1) by (subst anchor_walk.simps) simp
      then show ?thesis using r(2) anchored.above [of lineage, OF less.prems(2) Some] by blast
    qed
  qed
qed

lemma class_walk_returns:
  assumes "finite (dom lineage)"
  shows "\<exists>r. class_walk lineage root c chain = Some r \<and> (\<forall>sc. r = Inr sc \<longrightarrow> (\<exists>n. root_class lineage root c n sc))"
proof (induction "card (dom lineage - set chain)" arbitrary: c chain rule: less_induct)
  case less
  show ?case
  proof (cases c)
    case None
    then have "class_walk lineage root c chain = Some (Inr CATALOG_SCOPE)" by (subst class_walk.simps) simp
    then show ?thesis using None root_class.unmarked by auto
  next
    case (Some d)
    consider "d = ''$actor''" | "d = ''$space''" | "d \<noteq> ''$actor''" "d \<noteq> ''$space''" "d \<in> set chain \<or> lineage d = None"
      | p where "d \<noteq> ''$actor''" "d \<noteq> ''$space''" "d \<notin> set chain" "lineage d = Some p" by blast
    then show ?thesis
    proof cases
      case 1
      then have "class_walk lineage root c chain = Some (Inr (''cluster:'' @ root))" using Some by (subst class_walk.simps) simp
      then show ?thesis using 1 Some root_class.actor [of lineage root] by auto
    next
      case 2
      then have "class_walk lineage root c chain = Some (Inr (''room:'' @ root))" using Some by (subst class_walk.simps) simp
      then show ?thesis using 2 Some root_class.space [of lineage root] by auto
    next
      case 3
      then have "\<exists>e. class_walk lineage root c chain = Some (Inl e)" using Some by (subst class_walk.simps) auto
      then show ?thesis by auto
    next
      case d: (4 p)
      have "card (dom lineage - set (js_add d chain)) < card (dom lineage - set chain)"
        by (rule psubset_card_mono) (use assms d in auto)
      from less [OF this, of "al_parent p"] obtain r
        where r: "class_walk lineage root (al_parent p) (js_add d chain) = Some r"
          "\<forall>sc. r = Inr sc \<longrightarrow> (\<exists>n. root_class lineage root (al_parent p) n sc)" by blast
      have "class_walk lineage root c chain = Some r" using Some d r(1) by (subst class_walk.simps) simp
      then show ?thesis using r(2) Some root_class.parent [of d lineage p, OF d(1,2,4)] by blast
    qed
  qed
qed


lemma scopeNameOf_iff:
  assumes "finite (dom lineage)"
  shows "scopeNameOf obj lineage = Some (Inr scope) \<longleftrightarrow> owning_scope lineage obj scope"
proof
  assume l: "scopeNameOf obj lineage = Some (Inr scope)"
  then obtain p where p: "lineage obj = Some p" by (auto simp: scopeNameOf_def split: option.splits)
  obtain r where r: "anchor_walk lineage obj p [] = Some r" "\<forall>root q. r = Inr (root, q) \<longrightarrow> (\<exists>n. anchored lineage obj n root q)"
    using anchor_walk_returns [OF assms p, of "[]"] by auto
  then obtain root q n where rq: "r = Inr (root, q)" "anchored lineage obj n root q"
    using l p by (auto simp: scopeNameOf_def split: sum.splits)
  show "owning_scope lineage obj scope"
  proof (cases "starts_with ''$'' root")
    case True
    then show ?thesis using l p r(1) rq unfolding owning_scope_def by (auto simp: scopeNameOf_def)
  next
    case False
    then have "class_walk lineage root (al_parent q) [root] = Some (Inr scope)" using l p r(1) rq by (simp add: scopeNameOf_def)
    then have "\<exists>m. root_class lineage root (al_parent q) m scope"
      using class_walk_returns [OF assms, of root "al_parent q" "[root]"] by auto
    then show ?thesis using False rq(2) unfolding owning_scope_def by auto
  qed
next
  assume "owning_scope lineage obj scope"
  then obtain n root p where a: "anchored lineage obj n root p"
    and c: "if starts_with ''$'' root then scope = CATALOG_SCOPE else \<exists>m. root_class lineage root (al_parent p) m scope"
    unfolding owning_scope_def by blast
  obtain po where po: "lineage obj = Some po" using a by (auto simp: anchored_iff [of _ obj])
  have w: "anchor_walk lineage obj po [] = Some (Inr (root, p))" by (rule anchor_walk_complete [OF a po]) simp
  have rp: "lineage root = Some p" using a by (induction rule: anchored.induct) simp_all
  show "scopeNameOf obj lineage = Some (Inr scope)"
  proof (cases "starts_with ''$'' root")
    case False
    then obtain m where m: "root_class lineage root (al_parent p) m scope" using c by auto
    have "root \<noteq> ''$actor''" "root \<noteq> ''$space''" using False by (auto simp: starts_with_def)
    then have "root_class lineage root (Some root) (Suc m) scope" using rp m by (rule root_class.parent)
    then have "class_walk lineage root (al_parent p) [root] = Some (Inr scope)"
      using class_walk_complete [OF m, of "[root]"] by auto
    then show ?thesis using False po w by (simp add: scopeNameOf_def)
  qed (use c po w in \<open>simp add: scopeNameOf_def\<close>)
qed

lemma scopeNameOf_returns:
  assumes "finite (dom lineage)"
  shows "\<exists>r. scopeNameOf obj lineage = Some r"
proof (cases "lineage obj")
  case (Some p)
  obtain r where r: "anchor_walk lineage obj p [] = Some r" using anchor_walk_returns [OF assms Some, of "[]"] by auto
  have "\<exists>r. class_walk lineage root c chain = Some r" for root c chain using class_walk_returns [OF assms] by blast
  then show ?thesis using Some r by (cases r) (auto simp: scopeNameOf_def split: prod.split)
qed (simp add: scopeNameOf_def)

text \<open>Every refusal is the assertion class: the lineage set is not closed, or it cycles.\<close>

lemma anchor_walk_error:
  assumes "anchor_walk lineage obj p walked = Some r"
  shows "\<forall>e. r = Inl e \<longrightarrow> err_code e = E_LINEAGE"
  by (rule anchor_walk.raw_induct [where P = "\<lambda>l ob p w r. \<forall>e. r = Inl e \<longrightarrow> err_code e = E_LINEAGE", OF _ assms])
    (auto simp: netError_def split: option.splits if_splits)

lemma class_walk_error:
  assumes "class_walk lineage root c chain = Some r"
  shows "\<forall>e. r = Inl e \<longrightarrow> err_code e = E_LINEAGE"
  by (rule class_walk.raw_induct [where P = "\<lambda>l ro c ch r. \<forall>e. r = Inl e \<longrightarrow> err_code e = E_LINEAGE", OF _ assms])
    (auto simp: netError_def split: option.splits if_splits)

lemma scopeNameOf_error: "scopeNameOf obj lineage = Some (Inl e) \<Longrightarrow> err_code e = E_LINEAGE"
  using anchor_walk_error class_walk_error
  by (fastforce simp: scopeNameOf_def netError_def split: option.splits sum.splits prod.splits if_splits)

text \<open>
  C21: classification is total and exact. On every finite lineage the two walks return; an object is
  classified exactly when its anchors end in a root and, unless the root is catalog seed, the root's
  parents end or reach a class marker, and then to the scope of that root and marker; every other
  object is refused as an unclosed or cyclic lineage. The cycle checks never refuse a chain that ends.
\<close>

theorem scopeNameOf_exact:
  assumes "finite (dom lineage)"
  shows "(\<forall>scope. scopeNameOf obj lineage = Some (Inr scope) \<longleftrightarrow> owning_scope lineage obj scope)
    \<and> (\<nexists>scope. owning_scope lineage obj scope) = (\<exists>e. scopeNameOf obj lineage = Some (Inl e) \<and> err_code e = E_LINEAGE)"
proof -
  obtain r where r: "scopeNameOf obj lineage = Some r" using scopeNameOf_returns [OF assms] by blast
  show ?thesis using r scopeNameOf_error [of obj lineage] scopeNameOf_iff [OF assms, of obj, symmetric] by (cases r) auto
qed

definition demo_lineage :: "(string, anchor_lineage) jsmap" where
  "demo_lineage = [(''lamp'', \<lparr>al_parent = Some ''$thing'', al_anchor = Some ''hall'', al_epoch_immutable_definition = False\<rparr>),
     (''hall'', \<lparr>al_parent = Some ''$room'', al_anchor = None, al_epoch_immutable_definition = False\<rparr>),
     (''$room'', \<lparr>al_parent = Some ''$space'', al_anchor = None, al_epoch_immutable_definition = True\<rparr>)]"

theorem scopeNameOf_exact_witness: "scopeNameOf ''lamp'' (jm_get demo_lineage) = Some (Inr ''room:hall'')"
proof -
  have hall: "anchored (jm_get demo_lineage) ''hall'' 0 ''hall'' \<lparr>al_parent = Some ''$room'', al_anchor = None, al_epoch_immutable_definition = False\<rparr>"
    by (rule anchored.at_root) (simp_all add: demo_lineage_def)
  have "anchored (jm_get demo_lineage) ''lamp'' 1 ''hall'' \<lparr>al_parent = Some ''$room'', al_anchor = None, al_epoch_immutable_definition = False\<rparr>"
    using anchored.above [OF _ _ hall, of "''lamp''"] by (simp add: demo_lineage_def)
  moreover have "root_class (jm_get demo_lineage) ''hall'' (Some ''$room'') 1 ''room:hall''"
    using root_class.parent [of "''$room''" "jm_get demo_lineage" _ "''hall''"] root_class.space [of "jm_get demo_lineage" "''hall''"]
    by (fastforce simp: demo_lineage_def)
  ultimately have "owning_scope (jm_get demo_lineage) ''lamp'' ''room:hall''"
    unfolding owning_scope_def by (fastforce simp: starts_with_def)
  then show ?thesis using scopeNameOf_exact [OF finite_dom_map_of [of demo_lineage], of "''lamp''"] by blast
qed

section \<open>The memo and the partition\<close>

lemma finite_lineageFromCells: "finite (dom (lineageFromCells cells))"
proof -
  define m where "m = fold (\<lambda>c m. if c_kind c = Object_lineage then jm_set (c_object c) (c_value c) m else m) cells []"
  have "dom (lineageFromCells cells) \<subseteq> dom (jm_get m)"
    by (auto simp: lineageFromCells_def Let_def m_def split: Option.bind_splits)
  then show ?thesis using finite_dom_map_of by (rule finite_subset)
qed

text \<open>What the classifier answers without its memo.\<close>

definition classified :: "lineage_lookup \<Rightarrow> string option \<Rightarrow> string \<Rightarrow> (net_error + string) option" where
  "classified lineage fallback obj = (case (lineage obj, fallback) of (None, Some f) \<Rightarrow> Some (Inr f) | _ \<Rightarrow> scopeNameOf obj lineage)"

lemma classifier_memo:
  assumes "\<forall>x sc. jm_get memo x = Some sc \<longrightarrow> classified lineage fallback x = Some (Inr sc)"
    "classifier_scopeOf lineage fallback obj memo = (r, memo')"
  shows "r = classified lineage fallback obj \<and> (\<forall>x sc. jm_get memo' x = Some sc \<longrightarrow> classified lineage fallback x = Some (Inr sc))"
proof (cases "jm_get memo obj")
  case None
  then have r: "r = classified lineage fallback obj" and m: "memo' = (case r of Some (Inr scope) \<Rightarrow> jm_set obj scope memo | _ \<Rightarrow> memo)"
    using assms(2) by (auto simp: classifier_scopeOf_def classified_def Let_def)
  show ?thesis using assms(1) unfolding m r by (auto split: option.split sum.split)
qed (use assms in \<open>auto simp: classifier_scopeOf_def\<close>)

definition bucket_of :: "(string, 'a list) jsmap \<Rightarrow> string \<Rightarrow> 'a list" where
  "bucket_of m scope = (case jm_get m scope of Some cs \<Rightarrow> cs | None \<Rightarrow> [])"

lemma partition_put_spec:
  "bucket_of (partition_put scope c m) sc = bucket_of m sc @ (if sc = scope then [c] else [])"
  "jm_ok m \<Longrightarrow> jm_ok (partition_put scope c m)"
  by (auto simp: bucket_of_def partition_put_def split: option.split)

lemma partition_loop_spec:
  assumes "partition_loop lineage cs m = Some (Inr m')"
  shows "(\<forall>sc. bucket_of m' sc = bucket_of m sc @ filter (\<lambda>c. partition_scope lineage c = Some (Inr sc)) cs)
    \<and> (\<forall>c \<in> set cs. \<exists>sc. partition_scope lineage c = Some (Inr sc)) \<and> (jm_ok m \<longrightarrow> jm_ok m')"
  using assms
  by (induction cs arbitrary: m) (fastforce simp: partition_put_spec split: option.splits sum.splits)+

lemma partition_scope_returns: "\<exists>r. partition_scope (lineageFromCells cells) c = Some r"
proof -
  have "scopeNameOf obj (lineageFromCells cells) \<noteq> None" for obj using scopeNameOf_returns [OF finite_lineageFromCells] by auto
  then show ?thesis by (simp add: partition_scope_def split: option.split)
qed

lemma partition_loop_returns:
  assumes "\<And>c. \<exists>r. partition_scope lineage c = Some r"
  shows "\<exists>r. partition_loop lineage cs m = Some r"
proof (induction cs arbitrary: m)
  case (Cons c cs)
  obtain r where "partition_scope lineage c = Some r" using assms by blast
  then show ?case using Cons by (cases r) auto
qed simp

lemma classifier_agrees:
  assumes "c_kind c \<noteq> Session" "partition_scope (lineageFromCells cells) c = Some (Inr scope)"
  shows "fst (classifierFromCells cells fallback (c_object c) []) = Some (Inr scope)"
proof -
  have s: "scopeNameOf (c_object c) (lineageFromCells cells) = Some (Inr scope)"
    using assms by (auto simp: partition_scope_def map_sum_def split: if_splits sum.splits) (metis sum.exhaust)
  then have "lineageFromCells cells (c_object c) \<noteq> None" by (auto simp: scopeNameOf_def split: option.splits)
  then show ?thesis using s by (auto simp: classifierFromCells_def classifier_scopeOf_def Let_def)
qed

text \<open>
  C22: installing a world image loses and duplicates no cell. The partition always returns; when it is
  not refused, the image of a scope is exactly the cells that classify to it, in their order, every
  cell classifies somewhere, and the scope that holds an object's cells is the one the classifier
  built from the same image routes that object to.
\<close>

theorem partitionCells_exact:
  shows "(\<exists>r. partitionCells cells = Some r)
    \<and> (\<forall>m. partitionCells cells = Some (Inr m) \<longrightarrow>
         jm_ok m \<and> (\<forall>scope. bucket_of m scope = filter (\<lambda>c. partition_scope (lineageFromCells cells) c = Some (Inr scope)) cells)
       \<and> (\<forall>c \<in> set cells. \<exists>scope. c \<in> set (bucket_of m scope)
            \<and> (c_kind c \<noteq> Session \<longrightarrow> fst (classifierFromCells cells fallback (c_object c) []) = Some (Inr scope))))"
proof (intro conjI allI impI)
  show "\<exists>r. partitionCells cells = Some r"
    unfolding partitionCells_def by (rule partition_loop_returns [OF partition_scope_returns])
next
  fix m assume "partitionCells cells = Some (Inr m)"
  note p = partition_loop_spec [OF this [unfolded partitionCells_def]]
  then show "jm_ok m" by simp
  from p show b: "bucket_of m scope = filter (\<lambda>c. partition_scope (lineageFromCells cells) c = Some (Inr scope)) cells" for scope
    by (simp add: bucket_of_def)
  show "\<forall>c \<in> set cells. \<exists>scope. c \<in> set (bucket_of m scope)
     \<and> (c_kind c \<noteq> Session \<longrightarrow> fst (classifierFromCells cells fallback (c_object c) []) = Some (Inr scope))"
    using p b classifier_agrees by fastforce
qed

definition demo_world :: "cell list" where
  "demo_world = map (\<lambda>(k, obj, v). makeCell k obj None v Seed \<lparr>scope_head = ''h'', catalog_epoch = ''e1''\<rparr>)
     [(Object_lineage, ''hall'', JObj [(''parent'', JStr ''$space''), (''anchor'', JNull)]),
      (Object_live, ''hall'', JObj [(''location'', JNull)]),
      (Object_lineage, ''wiz'', JObj [(''parent'', JStr ''$actor''), (''anchor'', JNull)]),
      (Session, ''s1'', JObj [(''actor'', JStr ''wiz'')])]"

theorem partitionCells_exact_witness: "\<exists>m. partitionCells demo_world = Some (Inr m) \<and> bucket_of m ''room:hall'' = take 2 demo_world"
proof -
  have l: "lineageFromCells demo_world = (\<lambda>obj. if obj = ''hall'' then Some \<lparr>al_parent = Some ''$space'', al_anchor = None, al_epoch_immutable_definition = False\<rparr>
      else if obj = ''wiz'' then Some \<lparr>al_parent = Some ''$actor'', al_anchor = None, al_epoch_immutable_definition = False\<rparr> else None)"
    by (rule ext) (simp add: demo_world_def lineageFromCells_def makeCell_def lineage_payload_def isEpochImmutableDefinition_def)
  have sc: "partition_scope (lineageFromCells demo_world) c
      = Some (Inr (if c_object c = ''hall'' then ''room:hall'' else ''cluster:wiz''))" if "c \<in> set demo_world" for c
    using that unfolding l
    by (auto simp: demo_world_def makeCell_def partition_scope_def scopeNameOf_def anchor_walk.simps class_walk.simps starts_with_def)
  then obtain m where m: "partitionCells demo_world = Some (Inr m)"
    unfolding partitionCells_def by (simp add: demo_world_def)
  moreover have "filter (\<lambda>c. partition_scope (lineageFromCells demo_world) c = Some (Inr ''room:hall'')) demo_world = take 2 demo_world"
    using sc by (simp add: demo_world_def makeCell_def)
  ultimately show ?thesis using partitionCells_exact [of demo_world None] by simp
qed

end
