(* ===== verification/Route.thy ===== *)
theory Route
  imports Topology Relations
begin

text \<open>
  Which scope serializes a turn (\<open>src/net/route.ts\<close>): the selection of the commit scope from the
  scopes a transcript writes. The classifier is a pair of functions; classification may refuse
  (an unclosed lineage), and the first refusal is the result.
\<close>

section \<open>Selection\<close>

record scope_classifier =
  cl_scopeOf :: "string \<Rightarrow> net_error + string"
  cl_isShared :: "string \<Rightarrow> bool"

record scope_selection =
  sl_scope :: string
  sl_riders :: "string list"

text \<open>
  What each effect of the transcript adds to the written set, \<open>None\<close> for an effect that selection
  ignores: a contents write, the reserved sequence allocation. A session's authority is its actor's.
\<close>

definition write_scope :: "transcript \<Rightarrow> scope_classifier \<Rightarrow> transcript_write \<Rightarrow> (net_error + string) option" where
  "write_scope t cls w =
     (if netCellKeyFor (tw_cell w) = None \<or> isSequencedAllocationCell t (tw_cell w) then None
      else if is_session_cell (tw_cell w) then Some (cl_scopeOf cls (tk_actor (t_call t)))
      else Some (cl_scopeOf cls (cell_object (tw_cell w))))"

definition create_scope :: "string \<Rightarrow> scope_classifier \<Rightarrow> transcript_create \<Rightarrow> net_error + string" where
  "create_scope planningScope cls create = (case cr_anchor create of
      Some a \<Rightarrow> if a = [] then Inr planningScope else cl_scopeOf cls a
    | None \<Rightarrow> Inr planningScope)"

definition effect_scopes :: "transcript \<Rightarrow> string \<Rightarrow> scope_classifier \<Rightarrow> (net_error + string) list" where
  "effect_scopes t planningScope cls = List.map_filter (write_scope t cls) (t_writes t)
     @ map (create_scope planningScope cls) (t_creates t) @ map (\<lambda>m. cl_scopeOf cls (mv_object m)) (t_moves t)"

fun collect_scopes :: "(net_error + string) list \<Rightarrow> string list \<Rightarrow> net_error + string list" where
  "collect_scopes [] written = Inr written"
| "collect_scopes (r # rs) written = (case r of Inl e \<Rightarrow> Inl e | Inr scope \<Rightarrow> collect_scopes rs (js_add scope written))"

definition selectCommitScope :: "transcript \<Rightarrow> string \<Rightarrow> scope_classifier \<Rightarrow> net_error + scope_selection" where
  "selectCommitScope t planningScope cls = (case collect_scopes (effect_scopes t planningScope cls) [] of
      Inl e \<Rightarrow> Inl e
    | Inr written \<Rightarrow>
        if written = [] then Inr \<lparr>sl_scope = planningScope, sl_riders = []\<rparr>
        else if length written = 1 then Inr \<lparr>sl_scope = hd written, sl_riders = []\<rparr>
        else let shared = sort (filter (cl_isShared cls) written) in
          if length shared > 1 then Inl (netError E_SCOPE_SPLIT ''write set spans two distinct shared scopes'')
          else let anchor = (if length shared = 1 then hd shared else planningScope)
            in Inr \<lparr>sl_scope = anchor, sl_riders = sort (filter (\<lambda>scope. scope \<noteq> anchor) written)\<rparr>)"

section \<open>What selection guarantees\<close>

text \<open>The set of scopes a transcript writes, and the effects that cannot be placed.\<close>

definition written_scopes :: "transcript \<Rightarrow> string \<Rightarrow> scope_classifier \<Rightarrow> string set" where
  "written_scopes t planningScope cls = {scope. Inr scope \<in> set (effect_scopes t planningScope cls)}"

definition placeable :: "transcript \<Rightarrow> string \<Rightarrow> scope_classifier \<Rightarrow> bool" where
  "placeable t planningScope cls \<longleftrightarrow> (\<forall>e. Inl e \<notin> set (effect_scopes t planningScope cls))"

lemma collect_scopes_spec:
  "case collect_scopes rs written of
     Inl e \<Rightarrow> Inl e \<in> set rs
   | Inr w \<Rightarrow> (\<forall>e. Inl e \<notin> set rs) \<and> set w = set written \<union> {scope. Inr scope \<in> set rs} \<and> (distinct written \<longrightarrow> distinct w)"
proof (induction rs arbitrary: written)
  case (Cons r rs)
  show ?case
  proof (cases r)
    case (Inr scope)
    then show ?thesis using Cons [of "js_add scope written"] by (auto split: sum.splits)
  qed simp
qed simp

lemma list_cases_length: "xs = [] \<or> (\<exists>x. xs = [x]) \<or> length xs > 1"
  by (cases xs rule: remdups_adj.cases) auto

text \<open>
  C23: one authority serializes every turn. Selection succeeds exactly when every effect can be placed
  and at most one shared scope is written. Then the selected scope is a written one, or the planning
  scope of a turn that writes no shared scope; every written scope is the selected one or rides along;
  the riders are written, distinct, in order, and no rider is a shared scope. A refusal of a placeable
  turn is the scope split.
\<close>

theorem selectCommitScope_atomic:
  shows "case selectCommitScope t planningScope cls of
      Inl e \<Rightarrow> \<not> placeable t planningScope cls
        \<or> (err_code e = E_SCOPE_SPLIT
           \<and> (\<exists>a b. a \<noteq> b \<and> {a, b} \<subseteq> written_scopes t planningScope cls \<and> cl_isShared cls a \<and> cl_isShared cls b))
    | Inr sel \<Rightarrow> placeable t planningScope cls
        \<and> written_scopes t planningScope cls \<subseteq> insert (sl_scope sel) (set (sl_riders sel))
        \<and> set (sl_riders sel) = written_scopes t planningScope cls - {sl_scope sel}
        \<and> sorted (sl_riders sel) \<and> distinct (sl_riders sel)
        \<and> (\<forall>r \<in> set (sl_riders sel). \<not> cl_isShared cls r)
        \<and> (sl_scope sel \<in> written_scopes t planningScope cls
           \<or> sl_scope sel = planningScope \<and> (\<forall>scope \<in> written_scopes t planningScope cls. \<not> cl_isShared cls scope))"
proof (cases "collect_scopes (effect_scopes t planningScope cls) []")
  case (Inl e)
  then show ?thesis using collect_scopes_spec [of "effect_scopes t planningScope cls" "[]"]
    by (auto simp: selectCommitScope_def placeable_def)
next
  case (Inr w)
  then have p: "placeable t planningScope cls" and w: "set w = written_scopes t planningScope cls" "distinct w"
    using collect_scopes_spec [of "effect_scopes t planningScope cls" "[]"] by (auto simp: placeable_def written_scopes_def)
  define shared where "shared = sort (filter (cl_isShared cls) w)"
  have sh: "set shared = {sc \<in> set w. cl_isShared cls sc}" "distinct shared" using w(2) by (auto simp: shared_def)
  consider "w = []" | x where "w = [x]" | "length w > 1" "length shared > 1" | x where "length w > 1" "shared = [x]" | "length w > 1" "shared = []"
    using list_cases_length [of w] list_cases_length [of shared] by blast
  then show ?thesis
  proof cases
    case 3
    then have sel: "selectCommitScope t planningScope cls = Inl (netError E_SCOPE_SPLIT ''write set spans two distinct shared scopes'')"
      using Inr by (auto simp: selectCommitScope_def shared_def Let_def)
    obtain a b where "a \<noteq> b" "a \<in> set shared" "b \<in> set shared"
      using 3(2) sh(2) by (cases shared rule: remdups_adj.cases) auto
    then show ?thesis using sh(1) w(1) by (auto simp: sel netError_def)
  next
    case (4 x)
    then have sel: "selectCommitScope t planningScope cls = Inr \<lparr>sl_scope = x, sl_riders = sort (filter (\<lambda>scope. scope \<noteq> x) w)\<rparr>"
      using Inr by (auto simp: selectCommitScope_def shared_def [symmetric] Let_def)
    show ?thesis using p sh(1) w 4(2) by (auto simp: sel)
  next
    case 5
    then have sel: "selectCommitScope t planningScope cls
        = Inr \<lparr>sl_scope = planningScope, sl_riders = sort (filter (\<lambda>scope. scope \<noteq> planningScope) w)\<rparr>"
      using Inr by (auto simp: selectCommitScope_def shared_def [symmetric] Let_def)
    show ?thesis using p sh(1) w 5(2) by (auto simp: sel)
  qed (use p w Inr in \<open>auto simp: selectCommitScope_def\<close>)
qed

definition demo_classifier :: scope_classifier where
  "demo_classifier = \<lparr>cl_scopeOf = (\<lambda>obj. Inr (if obj = ''lamp'' then ''room:hall'' else ''cluster:wiz'')), cl_isShared = classifier_isShared\<rparr>"

definition demo_carry :: transcript where
  "demo_carry = demo_transcript\<lparr>t_moves := [\<lparr>mv_object = ''lamp'', mv_from = None, mv_to = ''wiz'', mv_writer = None\<rparr>,
     \<lparr>mv_object = ''wiz'', mv_from = None, mv_to = ''hall'', mv_writer = None\<rparr>]\<rparr>"

theorem selectCommitScope_atomic_witness:
  "\<exists>sel. selectCommitScope demo_carry ''cluster:wiz'' demo_classifier = Inr sel \<and> sl_scope sel = ''room:hall''
     \<and> sl_riders sel = [''cluster:wiz''] \<and> (\<forall>r \<in> set (sl_riders sel). \<not> cl_isShared demo_classifier r)"
proof -
  have e: "selectCommitScope demo_carry ''cluster:wiz'' demo_classifier = Inr \<lparr>sl_scope = ''room:hall'', sl_riders = [''cluster:wiz'']\<rparr>"
    by (simp add: demo_carry_def demo_classifier_def demo_transcript_def selectCommitScope_def effect_scopes_def js_add_def
        map_filter_simps classifier_isShared_def starts_with_def)
  from selectCommitScope_atomic [of demo_carry "''cluster:wiz''" demo_classifier] have "\<not> cl_isShared demo_classifier ''cluster:wiz''"
    unfolding e by simp
  then show ?thesis using e by simp
qed

end
