(* ===== verification/Outbox.thy ===== *)
theory Outbox
  imports Relations "HOL-Library.Word"
begin

text \<open>
  The durable fanout outbox (\<open>src/net/outbox.ts\<close>): enqueue, the lane drain in its two modes and the
  receiver's application. The outcome of a delivery and the answer of \<open>shouldYield\<close> are the
  environment's: within one drain each is consulted at most once per row (once per lane in batch
  mode), so they are functions of the row (of the lane). Lanes hold disjoint rows, so running them
  one after the other has the effect of every interleaving of their awaits. \<open>localeCompare\<close> is a
  parameter.
\<close>

unbundle bit_operations_syntax

section \<open>Rows\<close>

record fanout_body =
  fb_scope :: string
  fb_seq :: int
  fb_head_hash :: "string option"
  fb_head_generation :: "int option"
  fb_delivery_seq :: "int option"
  fb_cells :: "cell list"
  fb_removed_cells :: "string list"
  fb_observations :: "json list"
  fb_submitter_turn_id :: "string option"
  fb_echo_id :: "string option"
  fb_relations :: "relation_delta list"

datatype row_status = Pending | Delivered | Abandoned

record fanout_row =
  fr_id :: string
  fr_destination :: string
  fr_body :: fanout_body
  fr_status :: row_status
  fr_attempts :: nat
  fr_last_attempt_at_ms :: "int option"

text \<open>FNV-1a of the row identifier, on 32-bit words (\<open>Math.imul\<close>, \<open>>>> 0\<close>).\<close>

definition fnv_step :: "char \<Rightarrow> 32 word \<Rightarrow> 32 word" where
  "fnv_step c h = (h XOR of_nat (of_char c)) * 0x01000193"

definition fnv1a :: "string \<Rightarrow> 32 word" where
  "fnv1a i = fold fnv_step i 0x811c9dc5"

definition backoff_base :: "nat \<Rightarrow> int" where
  "backoff_base attempt = (if attempt = 0 then 125 else min 30000 (250 * 2 ^ (attempt - 1)))"

definition defaultBackoffMs :: "nat \<Rightarrow> string \<Rightarrow> int" where
  "defaultBackoffMs attempt i =
     (let base = backoff_base attempt; spread = base div 4
      in base - spread + uint (fnv1a i) mod (2 * spread + 1))"

record drain_result =
  dr_delivered :: "string list"
  dr_failed :: "string list"
  dr_abandoned :: "string list"
  dr_skipped_backoff :: "string list"

definition empty_drain :: drain_result where
  "empty_drain = \<lparr>dr_delivered = [], dr_failed = [], dr_abandoned = [], dr_skipped_backoff = []\<rparr>"

record outbox =
  ob_rows :: "(string, fanout_row) jsmap"
  ob_backoffMs :: "nat \<Rightarrow> string \<Rightarrow> int"
  ob_maxAttempts :: nat

definition newOutbox :: "(nat \<Rightarrow> string \<Rightarrow> int) option \<Rightarrow> nat option \<Rightarrow> outbox" where
  "newOutbox backoffMs maxAttempts = \<lparr>ob_rows = [],
     ob_backoffMs = (case backoffMs of Some f \<Rightarrow> f | None \<Rightarrow> defaultBackoffMs),
     ob_maxAttempts = (case maxAttempts of Some n \<Rightarrow> n | None \<Rightarrow> 8)\<rparr>"

definition fresh_row :: "string \<Rightarrow> fanout_body \<Rightarrow> string option \<Rightarrow> fanout_row" where
  "fresh_row destination body i = \<lparr>fr_id = (case i of Some x \<Rightarrow> x
       | None \<Rightarrow> destination @ ''/'' @ fb_scope body @ ''/'' @ show_int (fb_seq body)),
     fr_destination = destination, fr_body = body, fr_status = Pending, fr_attempts = 0, fr_last_attempt_at_ms = None\<rparr>"

definition enqueue :: "string \<Rightarrow> fanout_body \<Rightarrow> string option \<Rightarrow> outbox \<Rightarrow> fanout_row \<times> outbox" where
  "enqueue destination body i ob =
     (let row = fresh_row destination body i in
      case jm_get (ob_rows ob) (fr_id row) of
        Some existing \<Rightarrow> (existing, ob)
      | None \<Rightarrow> (row, ob\<lparr>ob_rows := jm_set (fr_id row) row (ob_rows ob)\<rparr>))"

definition pending :: "outbox \<Rightarrow> fanout_row list" where
  "pending ob = filter (\<lambda>row. fr_status row = Pending) (jm_values (ob_rows ob))"

section \<open>Draining\<close>

record delivery_env =
  dv_deliver :: "fanout_row \<Rightarrow> bool"
  dv_yield :: "string \<Rightarrow> bool"
  dv_lane :: "(string \<Rightarrow> fanout_row list \<Rightarrow> bool) option"

definition row_le :: "(string \<Rightarrow> string \<Rightarrow> bool) \<Rightarrow> fanout_row \<Rightarrow> fanout_row \<Rightarrow> bool" where
  "row_le locale_le a b =
     (let sa = fb_scope (fr_body a); sb = fb_scope (fr_body b) in
      if locale_le sa sb \<and> locale_le sb sa then fb_seq (fr_body a) \<le> fb_seq (fr_body b) else locale_le sa sb)"

definition in_backoff :: "outbox \<Rightarrow> int \<Rightarrow> fanout_row \<Rightarrow> bool" where
  "in_backoff ob now row = (case fr_last_attempt_at_ms row of
      None \<Rightarrow> False | Some at \<Rightarrow> now < at + ob_backoffMs ob (fr_attempts row) (fr_id row))"

definition attempted :: "int \<Rightarrow> fanout_row \<Rightarrow> fanout_row" where
  "attempted now row = row\<lparr>fr_attempts := fr_attempts row + 1, fr_last_attempt_at_ms := Some now\<rparr>"

definition after_failure :: "outbox \<Rightarrow> fanout_row \<Rightarrow> fanout_row" where
  "after_failure ob row = (if fr_attempts row \<ge> ob_maxAttempts ob then row\<lparr>fr_status := Abandoned\<rparr> else row)"

definition note_failure :: "outbox \<Rightarrow> fanout_row \<Rightarrow> drain_result \<Rightarrow> drain_result" where
  "note_failure ob row r = (if fr_attempts row \<ge> ob_maxAttempts ob then r\<lparr>dr_abandoned := dr_abandoned r @ [fr_id row]\<rparr>
     else r\<lparr>dr_failed := dr_failed r @ [fr_id row]\<rparr>)"

text \<open>The row by row lane: the rows as they are left, the result, whether the lane yielded.\<close>

fun drain_rows :: "delivery_env \<Rightarrow> int \<Rightarrow> outbox \<Rightarrow> fanout_row list \<Rightarrow> drain_result \<Rightarrow> fanout_row list \<times> drain_result \<times> bool" where
  "drain_rows env now ob [] r = ([], r, False)"
| "drain_rows env now ob (row # rest) r =
     (if dv_yield env (fr_id row) then (row # rest, r, True)
      else if in_backoff ob now row then (row # rest, r\<lparr>dr_skipped_backoff := dr_skipped_backoff r @ [fr_id row]\<rparr>, False)
      else let row1 = attempted now row in
        if dv_deliver env row1
        then (let (rest', r', y) = drain_rows env now ob rest (r\<lparr>dr_delivered := dr_delivered r @ [fr_id row]\<rparr>)
              in (row1\<lparr>fr_status := Delivered\<rparr> # rest', r', y))
        else (after_failure ob row1 # rest, note_failure ob row1 r, False))"

text \<open>The batched lane: one call for the deliverable prefix, which settles as one.\<close>

definition drain_batch ::
    "(string \<Rightarrow> fanout_row list \<Rightarrow> bool) \<Rightarrow> delivery_env \<Rightarrow> int \<Rightarrow> outbox \<Rightarrow> string \<Rightarrow> fanout_row list \<Rightarrow> fanout_row list \<times> drain_result \<times> bool" where
  "drain_batch deliverLane env now ob destination lane =
     (if dv_yield env destination then (lane, empty_drain, True)
      else
        let prefix = takeWhile (\<lambda>row. \<not> in_backoff ob now row) lane;
            rest = dropWhile (\<lambda>row. \<not> in_backoff ob now row) lane;
            r = empty_drain\<lparr>dr_skipped_backoff := (case rest of [] \<Rightarrow> [] | row # _ \<Rightarrow> [fr_id row])\<rparr>;
            tried = map (attempted now) prefix
        in if prefix = [] then (lane, r, False)
           else if deliverLane (fr_destination (hd tried)) tried
           then (map (\<lambda>row. row\<lparr>fr_status := Delivered\<rparr>) tried @ rest, r\<lparr>dr_delivered := map fr_id tried\<rparr>, False)
           else (map (after_failure ob) tried @ rest, fold (note_failure ob) tried r, False))"

definition drain_lane ::
    "(string \<Rightarrow> string \<Rightarrow> bool) \<Rightarrow> delivery_env \<Rightarrow> int \<Rightarrow> outbox \<Rightarrow> string \<times> fanout_row list \<Rightarrow> fanout_row list \<times> drain_result \<times> bool" where
  "drain_lane locale_le env now ob dl =
     (let (destination, rows) = dl; lane = sort_by (row_le locale_le) rows in
      case dv_lane env of
        Some deliverLane \<Rightarrow> drain_batch deliverLane env now ob destination lane
      | None \<Rightarrow> drain_rows env now ob lane empty_drain)"

definition lane_put :: "fanout_row \<Rightarrow> (string, fanout_row list) jsmap \<Rightarrow> (string, fanout_row list) jsmap" where
  "lane_put row lanes = jm_set (fr_destination row)
     ((case jm_get lanes (fr_destination row) of Some lane \<Rightarrow> lane | None \<Rightarrow> []) @ [row]) lanes"

definition lanes_of :: "outbox \<Rightarrow> (string, fanout_row list) jsmap" where
  "lanes_of ob = fold lane_put (pending ob) []"

definition merge_results :: "drain_result list \<Rightarrow> drain_result" where
  "merge_results rs = \<lparr>dr_delivered = concat (map dr_delivered rs), dr_failed = concat (map dr_failed rs),
     dr_abandoned = concat (map dr_abandoned rs), dr_skipped_backoff = concat (map dr_skipped_backoff rs)\<rparr>"

text \<open>The rows are shared objects: a row a lane changed is changed in the table.\<close>

definition write_back :: "fanout_row list \<Rightarrow> (string, fanout_row) jsmap \<Rightarrow> (string, fanout_row) jsmap" where
  "write_back changed rows = map (\<lambda>(key, row). (key, case jm_get (map (\<lambda>r. (fr_id r, r)) changed) key of Some r \<Rightarrow> r | None \<Rightarrow> row)) rows"

definition drain ::
    "(string \<Rightarrow> string \<Rightarrow> bool) \<Rightarrow> delivery_env \<Rightarrow> int \<Rightarrow> outbox \<Rightarrow> (drain_result \<times> bool) \<times> outbox" where
  "drain locale_le env now ob =
     (let lanes = map (drain_lane locale_le env now ob) (lanes_of ob)
      in ((merge_results (map (fst \<circ> snd) lanes), list_ex (snd \<circ> snd) lanes),
          ob\<lparr>ob_rows := write_back (concat (map fst lanes)) (ob_rows ob)\<rparr>))"

section \<open>The receiver\<close>

text \<open>Installing a body's cells; a refused cell ends it, with the earlier ones installed.\<close>

fun install_cells :: "cell list \<Rightarrow> cell_store \<Rightarrow> net_error option \<times> cell_store" where
  "install_cells [] store = (None, store)"
| "install_cells (c # cs) store = (case store_install c store of Inl e \<Rightarrow> (Some e, store) | Inr store' \<Rightarrow> install_cells cs store')"

definition seen_of :: "(string, int) jsmap \<Rightarrow> string \<Rightarrow> int" where
  "seen_of seen scope = (case jm_get seen scope of Some n \<Rightarrow> n | None \<Rightarrow> 0)"

definition applyFanout ::
    "cell_store \<Rightarrow> (string, int) jsmap \<Rightarrow> fanout_body \<Rightarrow> (net_error + bool) \<times> cell_store \<times> (string, int) jsmap" where
  "applyFanout store seen body =
     (if fb_seq body \<le> seen_of seen (fb_scope body) then (Inr False, store, seen)
      else case install_cells (fb_cells body) store of
        (Some e, store') \<Rightarrow> (Inl e, store', seen)
      | (None, store') \<Rightarrow> (Inr True, fold store_delete (fb_removed_cells body) store', jm_set (fb_scope body) (fb_seq body) seen))"

end
