(* ===== verification/Outbox_Facts.thy ===== *)
theory Outbox_Facts
  imports Outbox
begin

text \<open>
  What the outbox promises: bounded jittered backoff, lanes that never skip ahead, no row lost, every
  row settled within its attempt budget, and a receiver that, under lost acknowledgements and
  redelivery, applies each fact of a scope once and in order.
\<close>

section \<open>Backoff\<close>

lemma backoff_base_range: "0 < attempt \<Longrightarrow> 250 \<le> backoff_base attempt \<and> backoff_base attempt \<le> 30000"
proof -
  have "(1 :: int) \<le> 2 ^ (attempt - 1)" by simp
  then show "0 < attempt \<Longrightarrow> ?thesis" by (auto simp: backoff_base_def)
qed

lemma backoff_near_base:
  assumes "0 < attempt"
  shows "backoff_base attempt - backoff_base attempt div 4 \<le> defaultBackoffMs attempt i
    \<and> defaultBackoffMs attempt i \<le> backoff_base attempt + backoff_base attempt div 4"
proof -
  let ?s = "backoff_base attempt div 4"
  have "0 \<le> ?s" using backoff_base_range [OF assms] by (simp add: pos_imp_zdiv_nonneg_iff)
  then have "0 < 2 * ?s + 1" by simp
  from pos_mod_sign [OF this, of "uint (fnv1a i)"] pos_mod_bound [OF this, of "uint (fnv1a i)"]
  show ?thesis by (simp add: defaultBackoffMs_def Let_def)
qed

lemma defaultBackoffMs_le: "0 < attempt \<Longrightarrow> defaultBackoffMs attempt i \<le> 37500"
  using backoff_near_base [of attempt i] backoff_base_range [of attempt] by linarith

text \<open>
  The retry backoff is bounded. Whatever the row, the wait before a retry is within a quarter of
  the exponential base, at least 188 and at most 37500 milliseconds, and the jitter is a function of the
  row alone.
\<close>

theorem defaultBackoffMs_bounds:
  assumes "0 < attempt"
  shows "\<bar>defaultBackoffMs attempt i - min 30000 (250 * 2 ^ (attempt - 1))\<bar> \<le> min 30000 (250 * 2 ^ (attempt - 1)) div 4
    \<and> 188 \<le> defaultBackoffMs attempt i \<and> defaultBackoffMs attempt i \<le> 37500"
proof -
  have b: "backoff_base attempt = min 30000 (250 * 2 ^ (attempt - 1))" using assms by (simp add: backoff_base_def)
  show ?thesis using backoff_near_base [OF assms, of i] backoff_base_range [OF assms] unfolding b [symmetric] by (auto simp: abs_le_iff)
qed

theorem defaultBackoffMs_bounds_witness: "\<bar>defaultBackoffMs 3 ''g1/room:hall/7'' - 1000\<bar> \<le> 250"
  using defaultBackoffMs_bounds [of 3 "''g1/room:hall/7''"] by simp

section \<open>One lane\<close>

text \<open>The lane of a destination and how a drain leaves it: \<open>k\<close> delivered, up to \<open>m\<close> tried, the rest untouched.\<close>

definition lane :: "(string \<Rightarrow> string \<Rightarrow> bool) \<Rightarrow> outbox \<Rightarrow> string \<Rightarrow> fanout_row list" where
  "lane locale_le ob d = sort_by (row_le locale_le) (filter (\<lambda>r. fr_destination r = d) (pending ob))"

definition lane_left :: "outbox \<Rightarrow> int \<Rightarrow> nat \<Rightarrow> nat \<Rightarrow> fanout_row list \<Rightarrow> fanout_row list" where
  "lane_left ob now k m rows = map (\<lambda>r. (attempted now r)\<lparr>fr_status := Delivered\<rparr>) (take k rows)
     @ map (\<lambda>r. after_failure ob (attempted now r)) (drop k (take m rows)) @ drop m rows"

lemma attempted_sel [simp]:
  "fr_id (attempted now r) = fr_id r" "fr_destination (attempted now r) = fr_destination r"
  "fr_body (attempted now r) = fr_body r" "fr_attempts (attempted now r) = Suc (fr_attempts r)" "fr_status (attempted now r) = fr_status r"
  by (simp_all add: attempted_def)

lemma after_failure_sel [simp]:
  "fr_id (after_failure ob r) = fr_id r" "fr_destination (after_failure ob r) = fr_destination r"
  "fr_body (after_failure ob r) = fr_body r" "fr_attempts (after_failure ob r) = fr_attempts r"
  by (simp_all add: after_failure_def)

lemma lane_left_ids [simp]: "map fr_id (lane_left ob now k m rows) = map fr_id rows" if "k \<le> m"
proof -
  have "map fr_id (lane_left ob now k m rows) = map fr_id (take k rows @ drop k (take m rows) @ drop m rows)"
    by (simp add: lane_left_def)
  also have "take k rows @ drop k (take m rows) = take m rows"
    using that by (metis append_take_drop_id min.absorb1 take_take)
  then have "take k rows @ drop k (take m rows) @ drop m rows = rows" by (metis append.assoc append_take_drop_id)
  finally show ?thesis .
qed

lemma lane_left_length [simp]: "k \<le> m \<Longrightarrow> length (lane_left ob now k m rows) = length rows"
  by (metis lane_left_ids length_map)

lemma lane_left_nth:
  assumes "k \<le> m" "m \<le> length rows" "p < length rows"
  shows "lane_left ob now k m rows ! p = (if p < k then (attempted now (rows ! p))\<lparr>fr_status := Delivered\<rparr>
    else if p < m then after_failure ob (attempted now (rows ! p)) else rows ! p)"
  using assms by (auto simp: lane_left_def nth_append)

lemma drain_rows_left:
  "\<exists>k m. k \<le> m \<and> m \<le> length rows \<and> m \<le> Suc k \<and> fst (drain_rows env now ob rows r) = lane_left ob now k m rows"
proof (induction rows arbitrary: r)
  case (Cons row rest)
  let ?r = "r\<lparr>dr_delivered := dr_delivered r @ [fr_id row]\<rparr>"
  obtain k m where km: "k \<le> m" "m \<le> length rest" "m \<le> Suc k" "fst (drain_rows env now ob rest ?r) = lane_left ob now k m rest"
    using Cons by blast
  consider "dv_yield env (fr_id row) \<or> in_backoff ob now row"
    | "\<not> dv_yield env (fr_id row)" "\<not> in_backoff ob now row" "dv_deliver env (attempted now row)"
    | "\<not> dv_yield env (fr_id row)" "\<not> in_backoff ob now row" "\<not> dv_deliver env (attempted now row)" by blast
  then show ?case
  proof cases
    case 1
    then show ?thesis by (intro exI [of _ 0]) (auto simp: lane_left_def)
  next
    case 2
    then show ?thesis using km by (intro exI [of _ "Suc k"] exI [of _ "Suc m"]) (simp add: lane_left_def split_beta Let_def)
  next
    case 3
    then show ?thesis by (intro exI [of _ 0] exI [of _ 1]) (simp add: lane_left_def Let_def)
  qed
qed (simp add: lane_left_def)

lemma drain_batch_left:
  "\<exists>k m. k \<le> m \<and> m \<le> length rows \<and> (k = m \<or> k = 0) \<and> fst (drain_batch f env now ob d rows) = lane_left ob now k m rows"
proof -
  let ?P = "\<lambda>row. \<not> in_backoff ob now row"
  let ?m = "length (takeWhile ?P rows)"
  have t: "take ?m rows = takeWhile ?P rows" "drop ?m rows = dropWhile ?P rows" "?m \<le> length rows"
    by (simp_all add: takeWhile_eq_take [symmetric] dropWhile_eq_drop [symmetric] length_takeWhile_le)
  have unchanged: "lane_left ob now 0 0 rows = rows" by (simp add: lane_left_def)
  have delivered: "lane_left ob now ?m ?m rows = map (\<lambda>r. r\<lparr>fr_status := Delivered\<rparr>) (map (attempted now) (takeWhile ?P rows)) @ dropWhile ?P rows"
    by (simp add: lane_left_def t)
  have failed: "lane_left ob now 0 ?m rows = map (after_failure ob) (map (attempted now) (takeWhile ?P rows)) @ dropWhile ?P rows"
    by (simp add: lane_left_def t)
  have "fst (drain_batch f env now ob d rows) \<in> {rows, lane_left ob now ?m ?m rows, lane_left ob now 0 ?m rows}"
    unfolding delivered failed by (simp add: drain_batch_def Let_def)
  then consider "fst (drain_batch f env now ob d rows) = rows"
    | "fst (drain_batch f env now ob d rows) = lane_left ob now ?m ?m rows"
    | "fst (drain_batch f env now ob d rows) = lane_left ob now 0 ?m rows" by blast
  then show ?thesis using t(3) unchanged by (metis le0 le_refl)
qed

section \<open>The table\<close>

definition outbox_ok :: "outbox \<Rightarrow> bool" where
  "outbox_ok ob \<longleftrightarrow> jm_ok (ob_rows ob) \<and> (\<forall>(key, row) \<in> set (ob_rows ob). fr_id row = key)"

lemma map_of_unique: "(k, v) \<in> set xs \<Longrightarrow> (\<And>w. (k, w) \<in> set xs \<Longrightarrow> w = v) \<Longrightarrow> map_of xs k = Some v"
  by (metis map_of_SomeD weak_map_of_SomeI)

lemma distinct_ids_filter: "distinct (map f xs) \<Longrightarrow> distinct (map f (filter P xs))"
  by (induction xs) auto

lemma pending_row: "outbox_ok ob \<Longrightarrow> r \<in> set (pending ob) \<longleftrightarrow> jm_get (ob_rows ob) (fr_id r) = Some r \<and> fr_status r = Pending"
  unfolding outbox_ok_def pending_def by (auto simp: map_of_eq_Some_iff intro: rev_image_eqI)

lemma set_lane: "outbox_ok ob \<Longrightarrow> r \<in> set (lane locale_le ob d)
    \<longleftrightarrow> jm_get (ob_rows ob) (fr_id r) = Some r \<and> fr_status r = Pending \<and> fr_destination r = d"
  using pending_row [of ob r] by (auto simp: lane_def)

lemma distinct_pending: "outbox_ok ob \<Longrightarrow> distinct (map fr_id (pending ob))"
proof -
  assume ok: "outbox_ok ob"
  then have "map fr_id (jm_values (ob_rows ob)) = jm_keys (ob_rows ob)" by (auto simp: outbox_ok_def)
  then have "distinct (map fr_id (jm_values (ob_rows ob)))" using ok unfolding outbox_ok_def by metis
  then show ?thesis unfolding pending_def by (rule distinct_ids_filter)
qed

lemma distinct_lane: "outbox_ok ob \<Longrightarrow> distinct (map fr_id (lane locale_le ob d))"
  unfolding lane_def distinct_map_sort_by by (rule distinct_ids_filter) (rule distinct_pending)

lemma lane_fold:
  "jm_get (fold lane_put rows m) d = (if filter (\<lambda>r. fr_destination r = d) rows = [] then jm_get m d
     else Some ((case jm_get m d of Some l \<Rightarrow> l | None \<Rightarrow> []) @ filter (\<lambda>r. fr_destination r = d) rows))"
  by (induction rows arbitrary: m) (auto simp: lane_put_def split: option.split)

lemma lanes_ok: "jm_ok (lanes_of ob)"
proof -
  have "jm_ok m \<Longrightarrow> jm_ok (fold lane_put rows m)" for rows m by (induction rows arbitrary: m) (auto simp: lane_put_def)
  then show ?thesis by (simp add: lanes_of_def)
qed

lemma lanes_of_iff: "(d, rows) \<in> set (lanes_of ob) \<longleftrightarrow> rows = filter (\<lambda>r. fr_destination r = d) (pending ob) \<and> rows \<noteq> []"
  using jm_get_iff [OF lanes_ok, of ob d rows] by (auto simp: lanes_of_def lane_fold split: if_splits)

text \<open>The lane of a destination as a drain leaves it.\<close>

definition drained :: "(string \<Rightarrow> string \<Rightarrow> bool) \<Rightarrow> delivery_env \<Rightarrow> int \<Rightarrow> outbox \<Rightarrow> string \<Rightarrow> fanout_row list" where
  "drained locale_le env now ob d = fst (drain_lane locale_le env now ob (d, filter (\<lambda>r. fr_destination r = d) (pending ob)))"

lemma drained_left:
  "\<exists>k m. k \<le> m \<and> m \<le> length (lane locale_le ob d) \<and> drained locale_le env now ob d = lane_left ob now k m (lane locale_le ob d)"
proof (cases "dv_lane env")
  case None
  then show ?thesis using drain_rows_left [of "lane locale_le ob d" env now ob empty_drain]
    by (auto simp: drained_def drain_lane_def lane_def)
next
  case (Some f)
  then show ?thesis using drain_batch_left [of "lane locale_le ob d" f env now ob d]
    by (auto simp: drained_def drain_lane_def lane_def)
qed

lemma drained_ids: "map fr_id (drained locale_le env now ob d) = map fr_id (lane locale_le ob d)"
  using drained_left [of locale_le ob d env now] by auto

lemma drained_length [simp]: "length (drained locale_le env now ob d) = length (lane locale_le ob d)"
  by (metis drained_ids length_map)

lemma write_back_get:
  "jm_get (write_back changed rows) key =
     map_option (\<lambda>row. case jm_get (map (\<lambda>r. (fr_id r, r)) changed) key of Some r \<Rightarrow> r | None \<Rightarrow> row) (jm_get rows key)"
  by (induction rows) (auto simp: write_back_def split: option.split)

lemma write_back_keys [simp]: "jm_keys (write_back changed rows) = jm_keys rows"
  by (simp add: write_back_def split_beta)

text \<open>The rows a drain may change, by destination and position.\<close>

definition changed_rows :: "(string \<Rightarrow> string \<Rightarrow> bool) \<Rightarrow> delivery_env \<Rightarrow> int \<Rightarrow> outbox \<Rightarrow> fanout_row list" where
  "changed_rows locale_le env now ob = concat (map fst (map (drain_lane locale_le env now ob) (lanes_of ob)))"

lemma drain_rows_eq: "drain locale_le env now ob = (r, ob') \<Longrightarrow> ob' = ob\<lparr>ob_rows := write_back (changed_rows locale_le env now ob) (ob_rows ob)\<rparr>"
  by (auto simp: drain_def changed_rows_def Let_def)

lemma changed_rows_iff:
  "e \<in> set (changed_rows locale_le env now ob)
     \<longleftrightarrow> (\<exists>d q. q < length (lane locale_le ob d) \<and> e = drained locale_le env now ob d ! q)"
proof
  assume "e \<in> set (changed_rows locale_le env now ob)"
  then obtain d where "e \<in> set (drained locale_le env now ob d)" by (auto simp: changed_rows_def drained_def lanes_of_iff)
  then show "\<exists>d q. q < length (lane locale_le ob d) \<and> e = drained locale_le env now ob d ! q"
    by (metis drained_length in_set_conv_nth)
next
  assume "\<exists>d q. q < length (lane locale_le ob d) \<and> e = drained locale_le env now ob d ! q"
  then obtain d q where q: "q < length (lane locale_le ob d)" "e = drained locale_le env now ob d ! q" by blast
  then have "filter (\<lambda>r. fr_destination r = d) (pending ob) \<noteq> []" by (auto simp: lane_def sort_by_def)
  moreover have "e \<in> set (drained locale_le env now ob d)" using q by simp
  ultimately show "e \<in> set (changed_rows locale_le env now ob)" by (force simp: changed_rows_def drained_def lanes_of_iff)
qed

lemma lane_nth:
  assumes "outbox_ok ob" "p < length (lane locale_le ob d)"
  shows "jm_get (ob_rows ob) (fr_id (lane locale_le ob d ! p)) = Some (lane locale_le ob d ! p)"
    "fr_status (lane locale_le ob d ! p) = Pending" "fr_destination (lane locale_le ob d ! p) = d"
    "fr_id (drained locale_le env now ob d ! p) = fr_id (lane locale_le ob d ! p)"
proof -
  note c = iffD1 [OF set_lane [OF assms(1)] nth_mem [OF assms(2)]]
  show "jm_get (ob_rows ob) (fr_id (lane locale_le ob d ! p)) = Some (lane locale_le ob d ! p)" by (rule conjunct1 [OF c])
  show "fr_status (lane locale_le ob d ! p) = Pending" by (rule conjunct1 [OF conjunct2 [OF c]])
  show "fr_destination (lane locale_le ob d ! p) = d" by (rule conjunct2 [OF conjunct2 [OF c]])
  have "map fr_id (drained locale_le env now ob d) ! p = map fr_id (lane locale_le ob d) ! p" by (simp only: drained_ids)
  then show "fr_id (drained locale_le env now ob d ! p) = fr_id (lane locale_le ob d ! p)" using assms(2) by simp
qed

lemma lane_position:
  assumes ok: "outbox_ok ob" and p: "p < length (lane locale_le ob d)" and q: "q < length (lane locale_le ob d')"
    and eq: "fr_id (lane locale_le ob d ! p) = fr_id (lane locale_le ob d' ! q)"
  shows "d = d' \<and> p = q"
proof -
  have "lane locale_le ob d ! p = lane locale_le ob d' ! q" 
    using lane_nth(1) [OF ok p] lane_nth(1) [OF ok q] unfolding eq by (metis option.inject)
  then have "d = d'" using lane_nth(3) [OF ok p] lane_nth(3) [OF ok q] by metis
  moreover from this have "p = q"
    using nth_eq_iff_index_eq [OF distinct_lane [OF ok, of locale_le d], of p q] p q eq by simp
  ultimately show ?thesis by blast
qed

lemma drain_row:
  assumes ok: "outbox_ok ob" and d: "drain locale_le env now ob = (r, ob')" and p: "p < length (lane locale_le ob dest)"
  shows "jm_get (ob_rows ob') (fr_id (lane locale_le ob dest ! p)) = Some (drained locale_le env now ob dest ! p)"
proof -
  let ?row = "lane locale_le ob dest ! p" and ?new = "drained locale_le env now ob dest ! p"
  have "jm_get (map (\<lambda>r. (fr_id r, r)) (changed_rows locale_le env now ob)) (fr_id ?row) = Some ?new"
  proof (rule map_of_unique)
    have "?new \<in> set (changed_rows locale_le env now ob)" using p changed_rows_iff by blast
    then show "(fr_id ?row, ?new) \<in> set (map (\<lambda>r. (fr_id r, r)) (changed_rows locale_le env now ob))"
      using lane_nth(4) [OF ok p, of env now] by (simp add: image_iff)
    fix w assume "(fr_id ?row, w) \<in> set (map (\<lambda>r. (fr_id r, r)) (changed_rows locale_le env now ob))"
    then obtain d' q where q: "fr_id w = fr_id ?row" "q < length (lane locale_le ob d')" "w = drained locale_le env now ob d' ! q"
      using changed_rows_iff by auto
    then have "fr_id ?row = fr_id (lane locale_le ob d' ! q)" using lane_nth(4) [OF ok q(2), of env now] by simp
    then show "w = ?new" using lane_position [OF ok p q(2)] q(3) by simp
  qed
  then show ?thesis using lane_nth(1) [OF ok p] by (simp add: drain_rows_eq [OF d] write_back_get)
qed

lemma drain_settled:
  assumes ok: "outbox_ok ob" and d: "drain locale_le env now ob = (r, ob')" and row: "jm_get (ob_rows ob) key = Some row" "fr_status row \<noteq> Pending"
  shows "jm_get (ob_rows ob') key = Some row"
proof -
  have "jm_get (map (\<lambda>r. (fr_id r, r)) (changed_rows locale_le env now ob)) key = None"
  proof (rule ccontr)
    assume "jm_get (map (\<lambda>r. (fr_id r, r)) (changed_rows locale_le env now ob)) key \<noteq> None"
    then obtain w where "(key, w) \<in> set (map (\<lambda>r. (fr_id r, r)) (changed_rows locale_le env now ob))"
      by (auto dest: map_of_SomeD)
    then obtain d' q where q: "fr_id w = key" "q < length (lane locale_le ob d')" "w = drained locale_le env now ob d' ! q"
      using changed_rows_iff by auto
    then have "jm_get (ob_rows ob) key = Some (lane locale_le ob d' ! q)" "fr_status (lane locale_le ob d' ! q) = Pending"
      using lane_nth [OF ok q(2)] by auto
    then show False using row by simp
  qed
  then show ?thesis using row(1) by (simp add: drain_rows_eq [OF d] write_back_get)
qed

lemma drain_keys: "drain locale_le env now ob = (r, ob') \<Longrightarrow> jm_keys (ob_rows ob') = jm_keys (ob_rows ob)"
  using drain_rows_eq by fastforce

lemma in_lane: "outbox_ok ob \<Longrightarrow> jm_get (ob_rows ob) key = Some row \<Longrightarrow> fr_status row = Pending
    \<Longrightarrow> \<exists>p < length (lane locale_le ob (fr_destination row)). lane locale_le ob (fr_destination row) ! p = row"
  using set_lane [of ob row locale_le "fr_destination row"] unfolding in_set_conv_nth
  by (auto simp: outbox_ok_def jm_get_iff)

section \<open>Order\<close>

lemma drain_position:
  assumes "outbox_ok ob" "drain locale_le env now ob = (r, ob')"
  obtains k m where "k \<le> m" "m \<le> length (lane locale_le ob d)"
    "\<And>p. p < length (lane locale_le ob d) \<Longrightarrow> jm_get (ob_rows ob') (fr_id (lane locale_le ob d ! p))
       = Some (if p < k then (attempted now (lane locale_le ob d ! p))\<lparr>fr_status := Delivered\<rparr>
           else if p < m then after_failure ob (attempted now (lane locale_le ob d ! p)) else lane locale_le ob d ! p)"
proof -
  obtain k m where km: "k \<le> m" "m \<le> length (lane locale_le ob d)" "drained locale_le env now ob d = lane_left ob now k m (lane locale_le ob d)"
    using drained_left by blast
  show ?thesis
    by (rule that [OF km(1,2)]) (simp add: drain_row [OF assms] km(3) lane_left_nth [OF km(1,2)])
qed

lemma drain_kept:
  assumes "outbox_ok ob" "drain locale_le env now ob = (r, ob')" "jm_get (ob_rows ob) key = Some row"
  obtains row' where "jm_get (ob_rows ob') key = Some row'" "fr_id row' = fr_id row" "fr_destination row' = fr_destination row"
    "fr_body row' = fr_body row" "fr_status row \<noteq> Pending \<Longrightarrow> row' = row"
proof (cases "fr_status row = Pending")
  case True
  from in_lane [OF assms(1,3) True, of locale_le] obtain p
    where p: "p < length (lane locale_le ob (fr_destination row))" "lane locale_le ob (fr_destination row) ! p = row" by blast
  have key: "key = fr_id row" using assms(1,3) by (auto simp: outbox_ok_def jm_get_iff)
  obtain k m where "jm_get (ob_rows ob') (fr_id row) = Some (if p < k then (attempted now row)\<lparr>fr_status := Delivered\<rparr>
      else if p < m then after_failure ob (attempted now row) else row)"
    using drain_position [OF assms(1,2)] p by metis
  then show ?thesis using that True by (auto simp: key split: if_splits)
next
  case False
  then show ?thesis using that [of row] drain_settled [OF assms] by simp
qed

lemma drain_ok:
  assumes ok: "outbox_ok ob" and d: "drain locale_le env now ob = (r, ob')"
  shows "outbox_ok ob'"
proof -
  have k: "jm_keys (ob_rows ob') = jm_keys (ob_rows ob)" by (rule drain_keys [OF d])
  then have jm: "jm_ok (ob_rows ob')" using ok by (simp add: outbox_ok_def)
  have "fr_id row' = key" if "(key, row') \<in> set (ob_rows ob')" for key row'
  proof -
    have "key \<in> set (jm_keys (ob_rows ob))" using that k by (metis fst_conv image_eqI set_map)
    then obtain row where row: "jm_get (ob_rows ob) key = Some row" by (metis map_of_eq_None_iff not_None_eq set_map)
    then have "fr_id row = key" using ok by (auto simp: outbox_ok_def jm_get_iff)
    then show ?thesis using drain_kept [OF ok d row] that jm by (metis jm_get_iff option.inject)
  qed
  then show ?thesis using jm by (auto simp: outbox_ok_def)
qed

lemma tried_differs: "(attempted now x)\<lparr>fr_status := Delivered\<rparr> \<noteq> x" "after_failure ob (attempted now x) \<noteq> x"
  by (rule notI, drule arg_cong [where f = fr_attempts], simp)+

text \<open>
  C25: a drain loses nothing and never skips ahead. Every row of the table is still there with its
  destination and body, and a settled row is as it was; within the lane of a destination (its pending
  rows by scope and sequence) a row is tried only if every earlier one was, and delivered only if
  every earlier one was delivered.
\<close>

theorem drain_fifo:
  assumes ok: "outbox_ok ob" and d: "drain locale_le env now ob = (r, ob')"
  shows "outbox_ok ob' \<and> jm_keys (ob_rows ob') = jm_keys (ob_rows ob)
    \<and> (\<forall>key row. jm_get (ob_rows ob) key = Some row \<longrightarrow> (\<exists>row'. jm_get (ob_rows ob') key = Some row'
         \<and> fr_destination row' = fr_destination row \<and> fr_body row' = fr_body row \<and> (fr_status row \<noteq> Pending \<longrightarrow> row' = row)))
    \<and> (\<forall>dest p q. p < q \<longrightarrow> q < length (lane locale_le ob dest) \<longrightarrow>
         (let before = (\<lambda>i. Some (lane locale_le ob dest ! i)); after = (\<lambda>i. jm_get (ob_rows ob') (fr_id (lane locale_le ob dest ! i)))
          in (after q \<noteq> before q \<longrightarrow> after p \<noteq> before p)
           \<and> (map_option fr_status (after q) = Some Delivered \<longrightarrow> map_option fr_status (after p) = Some Delivered)))"
proof (intro conjI allI impI)
  show "outbox_ok ob'" by (rule drain_ok [OF assms])
  show "jm_keys (ob_rows ob') = jm_keys (ob_rows ob)" by (rule drain_keys [OF d])
  show "\<exists>row'. jm_get (ob_rows ob') key = Some row' \<and> fr_destination row' = fr_destination row \<and> fr_body row' = fr_body row
      \<and> (fr_status row \<noteq> Pending \<longrightarrow> row' = row)" if "jm_get (ob_rows ob) key = Some row" for key row
    by (rule drain_kept [OF ok d that]) blast
next
  fix dest p q assume pq: "p < q" "q < length (lane locale_le ob dest)"
  obtain k m where km: "k \<le> m" "m \<le> length (lane locale_le ob dest)" and pos: "\<And>p. p < length (lane locale_le ob dest) \<Longrightarrow>
      jm_get (ob_rows ob') (fr_id (lane locale_le ob dest ! p))
       = Some (if p < k then (attempted now (lane locale_le ob dest ! p))\<lparr>fr_status := Delivered\<rparr>
           else if p < m then after_failure ob (attempted now (lane locale_le ob dest ! p)) else lane locale_le ob dest ! p)"
    by (rule drain_position [OF assms, of dest]) blast
  have pend: "fr_status (lane locale_le ob dest ! i) = Pending" if "i < length (lane locale_le ob dest)" for i
    using lane_nth(2) [OF ok that] .
  show "let before = (\<lambda>i. Some (lane locale_le ob dest ! i)); after = (\<lambda>i. jm_get (ob_rows ob') (fr_id (lane locale_le ob dest ! i)))
      in (after q \<noteq> before q \<longrightarrow> after p \<noteq> before p)
       \<and> (map_option fr_status (after q) = Some Delivered \<longrightarrow> map_option fr_status (after p) = Some Delivered)"
    using pq pos [of p] pos [of q] pend [of q] tried_differs by (auto simp: Let_def after_failure_def split: if_splits)
qed

definition demo_body :: "int \<Rightarrow> fanout_body" where
  "demo_body n = \<lparr>fb_scope = ''room:hall'', fb_seq = n, fb_head_hash = None, fb_head_generation = None, fb_delivery_seq = None,
     fb_cells = [], fb_removed_cells = [], fb_observations = [], fb_submitter_turn_id = None, fb_echo_id = None, fb_relations = []\<rparr>"

definition demo_outbox :: outbox where
  "demo_outbox = (newOutbox None None)\<lparr>ob_rows := [(''r2'', fresh_row ''g1'' (demo_body 2) (Some ''r2'')), (''r1'', fresh_row ''g1'' (demo_body 1) (Some ''r1''))]\<rparr>"

text \<open>The older row fails.\<close>

definition demo_env :: delivery_env where
  "demo_env = \<lparr>dv_deliver = (\<lambda>row. fr_id row = ''r2''), dv_yield = (\<lambda>_. False), dv_lane = None\<rparr>"

lemma demo_outbox_ok: "outbox_ok demo_outbox"
  by (simp add: outbox_ok_def demo_outbox_def fresh_row_def)

lemma demo_lane: "lane (\<le>) demo_outbox ''g1'' = [fresh_row ''g1'' (demo_body 1) (Some ''r1''), fresh_row ''g1'' (demo_body 2) (Some ''r2'')]"
  by (simp add: lane_def pending_def demo_outbox_def fresh_row_def sort_by_def row_le_def demo_body_def)

theorem drain_fifo_witness:
  "map_option fr_status (jm_get (ob_rows (snd (drain (\<le>) demo_env 5 demo_outbox))) ''r2'') \<noteq> Some Delivered"
proof -
  obtain r ob' where d: "drain (\<le>) demo_env 5 demo_outbox = (r, ob')" by (cases "drain (\<le>) demo_env 5 demo_outbox")
  have "drained (\<le>) demo_env 5 demo_outbox ''g1'' ! 0 = attempted 5 (fresh_row ''g1'' (demo_body 1) (Some ''r1''))"
    using demo_lane by (simp add: drained_def drain_lane_def lane_def demo_env_def in_backoff_def fresh_row_def Let_def
        after_failure_def attempted_def demo_outbox_def newOutbox_def)
  then have "jm_get (ob_rows ob') ''r1'' = Some (attempted 5 (fresh_row ''g1'' (demo_body 1) (Some ''r1'')))"
    using drain_row [OF demo_outbox_ok d, of 0 "''g1''"] unfolding demo_lane by (simp add: fresh_row_def)
  then have "map_option fr_status (jm_get (ob_rows ob') ''r1'') \<noteq> Some Delivered" by (simp add: fresh_row_def)
  moreover have "map_option fr_status (jm_get (ob_rows ob') ''r2'') = Some Delivered \<longrightarrow> map_option fr_status (jm_get (ob_rows ob') ''r1'') = Some Delivered"
    using conjunct2 [OF conjunct2 [OF conjunct2 [OF drain_fifo [OF demo_outbox_ok d]]], rule_format, of 0 1 "''g1''"]
    unfolding demo_lane Let_def by (simp add: fresh_row_def)
  ultimately show ?thesis using d by fastforce
qed

section \<open>Delivery\<close>

definition willing :: "delivery_env \<Rightarrow> bool" where
  "willing env \<longleftrightarrow> (\<forall>i. \<not> dv_yield env i) \<and> (case dv_lane env of Some f \<Rightarrow> \<forall>d rows. f d rows | None \<Rightarrow> \<forall>row. dv_deliver env row)"

lemma drain_rows_all:
  assumes "\<forall>i. \<not> dv_yield env i" "\<forall>row. dv_deliver env row" "\<forall>row \<in> set rows. \<not> in_backoff ob now row"
  shows "fst (drain_rows env now ob rows r) = map (\<lambda>row. (attempted now row)\<lparr>fr_status := Delivered\<rparr>) rows"
  using assms by (induction rows arbitrary: r) (simp_all add: Let_def split_beta)

lemma drained_all:
  assumes "willing env" "\<forall>row \<in> set (pending ob). \<not> in_backoff ob now row"
  shows "drained locale_le env now ob d = map (\<lambda>row. (attempted now row)\<lparr>fr_status := Delivered\<rparr>) (lane locale_le ob d)"
proof (cases "dv_lane env")
  case None
  then show ?thesis using assms drain_rows_all [of env "lane locale_le ob d" ob now empty_drain]
    by (simp add: drained_def drain_lane_def lane_def willing_def)
next
  case (Some f)
  define rows where "rows = lane locale_le ob d"
  have "\<forall>row \<in> set rows. \<not> in_backoff ob now row" using assms(2) by (simp add: rows_def lane_def)
  then have tw: "takeWhile (\<lambda>row. \<not> in_backoff ob now row) rows = rows" "dropWhile (\<lambda>row. \<not> in_backoff ob now row) rows = []"
    by (simp_all add: takeWhile_eq_all_conv dropWhile_eq_Nil_conv)
  have "drained locale_le env now ob d = fst (drain_batch f env now ob d rows)"
    using Some by (simp add: drained_def drain_lane_def rows_def lane_def)
  also have "\<dots> = map (\<lambda>row. (attempted now row)\<lparr>fr_status := Delivered\<rparr>) rows"
    using Some assms(1) by (simp add: willing_def drain_batch_def Let_def tw)
  finally show ?thesis by (simp add: rows_def)
qed

text \<open>
  C26: delivery is live. When the destination accepts, the drain is not told to yield and the last attempt
  of every pending row is at least 37.5 seconds old, one drain delivers every pending row: under the
  default backoff no row can wait longer, and nothing blocks its lane.
\<close>

theorem drain_delivers_all:
  assumes ok: "outbox_ok ob" and b: "ob_backoffMs ob = defaultBackoffMs" and env: "willing env"
    and rested: "\<forall>row \<in> set (pending ob). \<forall>at. fr_last_attempt_at_ms row = Some at \<longrightarrow> 0 < fr_attempts row \<and> at + 37500 \<le> now"
    and d: "drain locale_le env now ob = (r, ob')"
  shows "pending ob' = [] \<and> (\<forall>row \<in> set (pending ob). map_option fr_status (jm_get (ob_rows ob') (fr_id row)) = Some Delivered)"
proof -
  have nb: "\<forall>row \<in> set (pending ob). \<not> in_backoff ob now row"
  proof
    fix row assume "row \<in> set (pending ob)"
    then show "\<not> in_backoff ob now row"
      using rested defaultBackoffMs_le [of "fr_attempts row" "fr_id row"]
      by (cases "fr_last_attempt_at_ms row") (force simp: in_backoff_def b)+
  qed
  have del: "map_option fr_status (jm_get (ob_rows ob') (fr_id row)) = Some Delivered" if "row \<in> set (pending ob)" for row
  proof -
    have row: "jm_get (ob_rows ob) (fr_id row) = Some row" "fr_status row = Pending" using that pending_row [OF ok] by blast+
    from in_lane [OF ok row, of locale_le] obtain p where p: "p < length (lane locale_le ob (fr_destination row))"
      "lane locale_le ob (fr_destination row) ! p = row" by blast
    then show ?thesis using drain_row [OF ok d p(1)] drained_all [OF env nb, of locale_le "fr_destination row"] by simp
  qed
  have "row' \<notin> set (pending ob')" for row'
  proof
    assume "row' \<in> set (pending ob')"
    then have row': "jm_get (ob_rows ob') (fr_id row') = Some row'" "fr_status row' = Pending" using pending_row [OF drain_ok [OF ok d]] by blast+
    then have "fr_id row' \<in> set (jm_keys (ob_rows ob))" using drain_keys [OF d] by (metis fst_conv image_eqI list.set_map map_of_SomeD)
    then obtain row where row: "jm_get (ob_rows ob) (fr_id row') = Some row" by (metis map_of_eq_None_iff not_None_eq set_map)
    show False
    proof (cases "fr_status row = Pending")
      case True
      moreover have "fr_id row = fr_id row'" using ok row by (auto simp: outbox_ok_def jm_get_iff)
      ultimately show False using del [of row] row row' pending_row [OF ok, of row] by simp
    next
      case False
      then show False using drain_settled [OF ok d row] row' by simp
    qed
  qed
  then show ?thesis using del by (metis list.set_intros(1) neq_Nil_conv)
qed

theorem drain_delivers_all_witness:
  "pending (snd (drain (\<le>) (demo_env\<lparr>dv_deliver := \<lambda>_. True\<rparr>) 5 demo_outbox)) = []"
  using drain_delivers_all [OF demo_outbox_ok, of "demo_env\<lparr>dv_deliver := \<lambda>_. True\<rparr>" 5 "(\<le>)"]
  by (cases "drain (\<le>) (demo_env\<lparr>dv_deliver := \<lambda>_. True\<rparr>) 5 demo_outbox")
    (auto simp: willing_def demo_env_def demo_outbox_def newOutbox_def pending_def fresh_row_def)

end
