(* ===== verification/Fanout_Once.thy ===== *)
theory Fanout_Once
  imports Outbox_Facts
begin

text \<open>
  The outbox and the receiver together: an unreliable link. A drain tries a prefix of a destination's
  lane; the receiver applies some prefix of what was tried, at least everything the sender saw
  acknowledged. Whatever is lost, redelivered or abandoned, the receiver's log of applied facts is, scope
  by scope, the enqueued facts in order, each once, with no gap but the abandoned ones.
\<close>

section \<open>The link\<close>

record receiver =
  rv_store :: cell_store
  rv_seen :: "(string, int) jsmap"
  rv_log :: "fanout_body list"

definition receive :: "fanout_row \<Rightarrow> receiver \<Rightarrow> receiver" where
  "receive row rv = (case applyFanout (rv_store rv) (rv_seen rv) (fr_body row) of
     (r, store, seen) \<Rightarrow> \<lparr>rv_store = store, rv_seen = seen, rv_log = (if r = Inr True then rv_log rv @ [fr_body row] else rv_log rv)\<rparr>)"

text \<open>What a drain tried at a destination, in lane order.\<close>

definition tried :: "(string \<Rightarrow> string \<Rightarrow> bool) \<Rightarrow> outbox \<Rightarrow> outbox \<Rightarrow> string \<Rightarrow> fanout_row list" where
  "tried locale_le ob ob' d = filter (\<lambda>row. jm_get (ob_rows ob') (fr_id row) \<noteq> Some row) (lane locale_le ob d)"

definition newer :: "outbox \<Rightarrow> string \<Rightarrow> fanout_body \<Rightarrow> bool" where
  "newer ob d body \<longleftrightarrow> 0 < fb_seq body
     \<and> (\<forall>row \<in> set (jm_values (ob_rows ob)). fr_destination row = d \<and> fb_scope (fr_body row) = fb_scope body \<longrightarrow> fb_seq (fr_body row) < fb_seq body)"

inductive link :: "(string \<Rightarrow> string \<Rightarrow> bool) \<Rightarrow> string \<Rightarrow> cell_store \<Rightarrow> outbox \<Rightarrow> receiver \<Rightarrow> bool" for locale_le d store0 where
  link_new: "st_role store0 = Derived_copy \<Longrightarrow>
    link locale_le d store0 (newOutbox backoff budget) \<lparr>rv_store = store0, rv_seen = [], rv_log = []\<rparr>"
| link_enqueue: "link locale_le d store0 ob rv \<Longrightarrow> enqueue dest body i ob = (row, ob')
    \<Longrightarrow> jm_get (ob_rows ob) (fr_id (fresh_row dest body i)) = None \<longrightarrow> newer ob dest body \<Longrightarrow> link locale_le d store0 ob' rv"
| link_drain: "link locale_le d store0 ob rv \<Longrightarrow> drain locale_le env now ob = (r, ob') \<Longrightarrow> j \<le> length (tried locale_le ob ob' d)
    \<Longrightarrow> \<forall>row \<in> set (drop j (tried locale_le ob ob' d)). map_option fr_status (jm_get (ob_rows ob') (fr_id row)) \<noteq> Some Delivered
    \<Longrightarrow> link locale_le d store0 ob' (fold receive (take j (tried locale_le ob ob' d)) rv)"

section \<open>The receiver\<close>

definition apply_body :: "fanout_body \<Rightarrow> cell_store \<Rightarrow> cell_store" where
  "apply_body body store = fold store_delete (fb_removed_cells body) (snd (install_cells (fb_cells body) store))"

lemma install_derived: "st_role s = Derived_copy \<Longrightarrow> fst (install_cells cs s) = None \<and> st_role (snd (install_cells cs s)) = Derived_copy"
  by (induction cs arbitrary: s) (auto simp: store_install_def)

lemma role_apply_body: "st_role s = Derived_copy \<Longrightarrow> st_role (apply_body b s) = Derived_copy"
proof -
  have "st_role (fold store_delete keys t) = st_role t" for keys t by (induction keys arbitrary: t) (simp_all add: store_delete_def)
  then show "st_role s = Derived_copy \<Longrightarrow> ?thesis" by (simp add: apply_body_def install_derived)
qed

definition receiver_ok :: "cell_store \<Rightarrow> receiver \<Rightarrow> bool" where
  "receiver_ok store0 rv \<longleftrightarrow> st_role (rv_store rv) = Derived_copy \<and> rv_store rv = fold apply_body (rv_log rv) store0
     \<and> (\<forall>b \<in> set (rv_log rv). fb_seq b \<le> seen_of (rv_seen rv) (fb_scope b))
     \<and> (\<forall>scope. seen_of (rv_seen rv) scope = 0 \<or> (\<exists>b \<in> set (rv_log rv). fb_scope b = scope \<and> fb_seq b = seen_of (rv_seen rv) scope))
     \<and> (\<forall>scope. sorted_wrt (<) (map fb_seq (filter (\<lambda>b. fb_scope b = scope) (rv_log rv))))"

lemma seen_of_set [simp]: "seen_of (jm_set scope n seen) x = (if x = scope then n else seen_of seen x)"
  by (simp add: seen_of_def)

lemma receive_old: "fb_seq (fr_body row) \<le> seen_of (rv_seen rv) (fb_scope (fr_body row)) \<Longrightarrow> receive row rv = rv"
  by (simp add: receive_def applyFanout_def)

lemma receive_new:
  assumes "st_role (rv_store rv) = Derived_copy" "\<not> fb_seq (fr_body row) \<le> seen_of (rv_seen rv) (fb_scope (fr_body row))"
  shows "receive row rv = \<lparr>rv_store = apply_body (fr_body row) (rv_store rv),
    rv_seen = jm_set (fb_scope (fr_body row)) (fb_seq (fr_body row)) (rv_seen rv), rv_log = rv_log rv @ [fr_body row]\<rparr>"
  using assms install_derived [OF assms(1), of "fb_cells (fr_body row)"]
  by (cases "install_cells (fb_cells (fr_body row)) (rv_store rv)") (simp add: receive_def applyFanout_def apply_body_def)

lemma receive_ok:
  assumes ok: "receiver_ok store0 rv"
  shows "receiver_ok store0 (receive row rv)"
proof (cases "fb_seq (fr_body row) \<le> seen_of (rv_seen rv) (fb_scope (fr_body row))")
  case False
  note r = ok [unfolded receiver_ok_def]
  have "sorted_wrt (<) (map fb_seq (filter (\<lambda>b. fb_scope b = scope) (rv_log rv @ [fr_body row])))" for scope
    using r False by (fastforce simp: sorted_wrt_append)
  then show ?thesis using r False role_apply_body
    unfolding receiver_ok_def receive_new [OF conjunct1 [OF r] False] by fastforce
qed (simp add: receive_old ok)

section \<open>The invariant\<close>

definition sent :: "outbox \<Rightarrow> string \<Rightarrow> fanout_row set" where
  "sent ob d = {row \<in> set (jm_values (ob_rows ob)). fr_destination row = d}"

definition serial :: "outbox \<Rightarrow> string \<Rightarrow> bool" where
  "serial ob d \<longleftrightarrow> (\<forall>row \<in> sent ob d. 0 < fb_seq (fr_body row))
     \<and> (\<forall>a \<in> sent ob d. \<forall>b \<in> sent ob d. fb_scope (fr_body a) = fb_scope (fr_body b) \<and> fb_seq (fr_body a) = fb_seq (fr_body b) \<longrightarrow> a = b)"

text \<open>No gap: what is at or below the high-water mark and not abandoned has been applied.\<close>

definition gapless :: "outbox \<Rightarrow> string \<Rightarrow> receiver \<Rightarrow> bool" where
  "gapless ob d rv \<longleftrightarrow> (\<forall>row \<in> sent ob d. fr_status row \<noteq> Abandoned \<and> fb_seq (fr_body row) \<le> seen_of (rv_seen rv) (fb_scope (fr_body row))
     \<longrightarrow> fr_body row \<in> set (rv_log rv))"

definition link_ok :: "string \<Rightarrow> cell_store \<Rightarrow> outbox \<Rightarrow> receiver \<Rightarrow> bool" where
  "link_ok d store0 ob rv \<longleftrightarrow> outbox_ok ob \<and> serial ob d \<and> receiver_ok store0 rv \<and> gapless ob d rv
     \<and> set (rv_log rv) \<subseteq> fr_body ` sent ob d
     \<and> (\<forall>row \<in> sent ob d. fr_status row = Delivered \<longrightarrow> fr_body row \<in> set (rv_log rv))"

lemma total_row_le:
  assumes "total_preorder locale_le"
  shows "total_preorder (row_le locale_le)"
proof -
  have t: "locale_le x y \<or> locale_le y x" and tr: "locale_le x y \<Longrightarrow> locale_le y z \<Longrightarrow> locale_le x z" for x y z
    using assms unfolding total_preorder_def by blast+
  have le: "row_le locale_le x y \<longleftrightarrow> locale_le (fb_scope (fr_body x)) (fb_scope (fr_body y))
      \<and> (locale_le (fb_scope (fr_body y)) (fb_scope (fr_body x)) \<longrightarrow> fb_seq (fr_body x) \<le> fb_seq (fr_body y))" for x y
    unfolding row_le_def Let_def by auto
  have "row_le locale_le x z" if "row_le locale_le x y" "row_le locale_le y z" for x y z
    using that unfolding le by (meson order_trans tr)
  moreover have "row_le locale_le x y \<or> row_le locale_le y x" for x y
    using t [of "fb_scope (fr_body x)" "fb_scope (fr_body y)"] linear [of "fb_seq (fr_body x)" "fb_seq (fr_body y)"] unfolding le by blast
  ultimately show ?thesis unfolding total_preorder_def by blast
qed

lemma lane_earlier:
  assumes le: "total_preorder locale_le" and pq: "p < length (lane locale_le ob d)" "q < length (lane locale_le ob d)"
    and s: "fb_scope (fr_body (lane locale_le ob d ! p)) = fb_scope (fr_body (lane locale_le ob d ! q))"
      "fb_seq (fr_body (lane locale_le ob d ! p)) < fb_seq (fr_body (lane locale_le ob d ! q))"
  shows "p < q"
proof (rule ccontr)
  assume "\<not> p < q"
  moreover have "p \<noteq> q" using s by auto
  ultimately have "q < p" by simp
  then have "row_le locale_le (lane locale_le ob d ! q) (lane locale_le ob d ! p)"
    using sorted_sort_by [OF total_row_le [OF le]] pq unfolding lane_def by (simp add: sorted_wrt_iff_nth_less)
  then show False using s le by (auto simp: row_le_def total_preorder_def Let_def split: if_splits)
qed

lemma sent_iff: "outbox_ok ob \<Longrightarrow> row \<in> sent ob d \<longleftrightarrow> jm_get (ob_rows ob) (fr_id row) = Some row \<and> fr_destination row = d"
  unfolding outbox_ok_def sent_def by (auto simp: map_of_eq_Some_iff intro: rev_image_eqI)

text \<open>Receiving a prefix of the lane.\<close>

lemma receive_prefix:
  assumes le: "total_preorder locale_le" and ok: "link_ok d store0 ob rv" and i: "i \<le> length (lane locale_le ob d)"
  defines "rv' \<equiv> fold receive (take i (lane locale_le ob d)) rv"
  shows "receiver_ok store0 rv' \<and> gapless ob d rv' \<and> set (rv_log rv) \<subseteq> set (rv_log rv') \<and> set (rv_log rv') \<subseteq> fr_body ` sent ob d
    \<and> (\<forall>p < i. fr_body (lane locale_le ob d ! p) \<in> set (rv_log rv'))"
  using i unfolding rv'_def
proof (induction i)
  case 0
  then show ?case using ok by (simp add: link_ok_def)
next
  case (Suc i)
  let ?rv = "fold receive (take i (lane locale_le ob d)) rv" and ?row = "lane locale_le ob d ! i"
  have IH: "receiver_ok store0 ?rv" "gapless ob d ?rv" "set (rv_log rv) \<subseteq> set (rv_log ?rv)" "set (rv_log ?rv) \<subseteq> fr_body ` sent ob d"
      "\<forall>p < i. fr_body (lane locale_le ob d ! p) \<in> set (rv_log ?rv)"
    using Suc by simp_all
  have step: "fold receive (take (Suc i) (lane locale_le ob d)) rv = receive ?row ?rv"
    using Suc.prems by (simp add: take_Suc_conv_app_nth)
  have obok: "outbox_ok ob" and ser: "serial ob d"
    and del: "\<forall>row \<in> sent ob d. fr_status row = Delivered \<longrightarrow> fr_body row \<in> set (rv_log rv)" using ok by (simp_all add: link_ok_def)
  note nth = lane_nth [OF obok, of i locale_le d]
  have row: "?row \<in> sent ob d" "fr_status ?row = Pending" using nth Suc.prems by (simp_all add: sent_iff [OF obok])
  show ?case
  proof (cases "fb_seq (fr_body ?row) \<le> seen_of (rv_seen ?rv) (fb_scope (fr_body ?row))")
    case True
    then have "fr_body ?row \<in> set (rv_log ?rv)" using IH(2) row by (simp add: gapless_def)
    then show ?thesis unfolding step receive_old [OF True] using IH by (auto simp: less_Suc_eq)
  next
    case False
    have new: "receive ?row ?rv = \<lparr>rv_store = apply_body (fr_body ?row) (rv_store ?rv),
        rv_seen = jm_set (fb_scope (fr_body ?row)) (fb_seq (fr_body ?row)) (rv_seen ?rv), rv_log = rv_log ?rv @ [fr_body ?row]\<rparr>"
      by (rule receive_new [OF _ False]) (rule conjunct1 [OF IH(1) [unfolded receiver_ok_def]])
    have "fr_body row' \<in> set (rv_log ?rv @ [fr_body ?row])"
      if r: "row' \<in> sent ob d" "fr_status row' \<noteq> Abandoned"
        "fb_seq (fr_body row') \<le> seen_of (jm_set (fb_scope (fr_body ?row)) (fb_seq (fr_body ?row)) (rv_seen ?rv)) (fb_scope (fr_body row'))" for row'
    proof -
      consider "fb_scope (fr_body row') \<noteq> fb_scope (fr_body ?row)"
        | "fb_scope (fr_body row') = fb_scope (fr_body ?row)" "fb_seq (fr_body row') = fb_seq (fr_body ?row)"
        | "fb_scope (fr_body row') = fb_scope (fr_body ?row)" "fb_seq (fr_body row') < fb_seq (fr_body ?row)" "fr_status row' = Delivered"
        | "fb_scope (fr_body row') = fb_scope (fr_body ?row)" "fb_seq (fr_body row') < fb_seq (fr_body ?row)" "fr_status row' = Pending"
        using r(2,3) by (cases "fr_status row'") (auto simp: order_le_less split: if_splits)
      then show ?thesis
      proof cases
        case 1
        then show ?thesis using IH(2) r by (simp add: gapless_def)
      next
        case 2
        then show ?thesis using ser r(1) row(1) by (auto simp: serial_def)
      next
        case 3
        then show ?thesis using del r(1) IH(3) by auto
      next
        case 4
        have "jm_get (ob_rows ob) (fr_id row') = Some row'" "fr_destination row' = d" using r(1) sent_iff [OF obok] by blast+
        with in_lane [OF obok this(1) 4(3), of locale_le] obtain p where p: "p < length (lane locale_le ob d)" "lane locale_le ob d ! p = row'" by blast
        then have "p < i" using lane_earlier [OF le p(1), of i] Suc.prems 4 by simp
        then show ?thesis using IH(5) p by auto
      qed
    qed
    then have "gapless ob d (receive ?row ?rv)" unfolding gapless_def new by simp
    moreover have "receiver_ok store0 (receive ?row ?rv)" by (rule receive_ok [OF IH(1)])
    ultimately show ?thesis unfolding step using IH row by (auto simp: new less_Suc_eq)
  qed
qed

lemma filter_prefix: "m \<le> length xs \<Longrightarrow> (\<And>p. p < length xs \<Longrightarrow> P (xs ! p) \<longleftrightarrow> p < m) \<Longrightarrow> filter P xs = take m xs"
proof (induction xs arbitrary: m)
  case (Cons x xs)
  show ?case
  proof (cases m)
    case 0
    then show ?thesis using Cons.prems(2) by (force simp: filter_empty_conv in_set_conv_nth)
  next
    case (Suc n)
    have "filter P xs = take n xs" by (rule Cons.IH) (use Cons.prems Suc in force)+
    then show ?thesis using Cons.prems(2) [of 0] Suc by simp
  qed
qed simp

lemma tried_prefix:
  assumes "outbox_ok ob" "drain locale_le env now ob = (r, ob')"
  obtains k m where "k \<le> m" "m \<le> length (lane locale_le ob d)" "tried locale_le ob ob' d = take m (lane locale_le ob d)"
    "\<And>p. p < length (lane locale_le ob d) \<Longrightarrow> map_option fr_status (jm_get (ob_rows ob') (fr_id (lane locale_le ob d ! p))) = Some Delivered \<longleftrightarrow> p < k"
proof -
  obtain k m where km: "k \<le> m" "m \<le> length (lane locale_le ob d)" and pos: "\<And>p. p < length (lane locale_le ob d) \<Longrightarrow>
      jm_get (ob_rows ob') (fr_id (lane locale_le ob d ! p))
       = Some (if p < k then (attempted now (lane locale_le ob d ! p))\<lparr>fr_status := Delivered\<rparr>
           else if p < m then after_failure ob (attempted now (lane locale_le ob d ! p)) else lane locale_le ob d ! p)"
    by (rule drain_position [OF assms, of d]) blast
  have "tried locale_le ob ob' d = take m (lane locale_le ob d)"
    unfolding tried_def by (rule filter_prefix [OF km(2)]) (use pos km(1) tried_differs in auto)
  then show ?thesis
    by (rule that [OF km]) (use pos lane_nth(2) [OF assms(1)] km(1) in \<open>auto simp: after_failure_def\<close>)
qed

lemma jm_set_new: "jm_get m k = None \<Longrightarrow> jm_set k v m = m @ [(k, v)]"
  by (induction m) (auto split: if_splits)

lemma enqueue_new:
  assumes "enqueue dest body i ob = (row, ob')" "jm_get (ob_rows ob) (fr_id (fresh_row dest body i)) = None" "outbox_ok ob"
  shows "outbox_ok ob'" "sent ob' d = sent ob d \<union> (if dest = d then {fresh_row dest body i} else {})"
proof -
  let ?new = "fresh_row dest body i"
  have rows: "ob_rows ob' = ob_rows ob @ [(fr_id ?new, ?new)]"
    using assms(1,2) jm_set_new [of "ob_rows ob" "fr_id ?new" ?new] by (auto simp: enqueue_def Let_def)
  then show "outbox_ok ob'" using assms(2,3) by (auto simp: outbox_ok_def map_of_eq_None_iff)
  show "sent ob' d = sent ob d \<union> (if dest = d then {?new} else {})" by (auto simp: sent_def rows fresh_row_def)
qed

lemma enqueue_ok:
  assumes ok: "link_ok d store0 ob rv" and e: "enqueue dest body i ob = (row, ob')"
    and n: "jm_get (ob_rows ob) (fr_id (fresh_row dest body i)) = None \<longrightarrow> newer ob dest body"
  shows "link_ok d store0 ob' rv"
proof (cases "jm_get (ob_rows ob) (fr_id (fresh_row dest body i))")
  case None
  let ?new = "fresh_row dest body i"
  have obok: "outbox_ok ob" and rest: "serial ob d" "receiver_ok store0 rv" "gapless ob d rv" "set (rv_log rv) \<subseteq> fr_body ` sent ob d"
    "\<forall>row \<in> sent ob d. fr_status row = Delivered \<longrightarrow> fr_body row \<in> set (rv_log rv)" using ok by (simp_all add: link_ok_def)
  note new = enqueue_new [OF e None obok]
  have body: "fr_body (fresh_row x body i) = body" "fr_status (fresh_row x body i) = Pending" for x by (simp_all add: fresh_row_def)
  have fresh: "0 < fb_seq body" "\<forall>row \<in> sent ob d. fb_scope (fr_body row) = fb_scope body \<longrightarrow> fb_seq (fr_body row) < fb_seq body" if "dest = d"
    using n None that by (auto simp: newer_def sent_def)
  have "serial ob' d"
  proof (cases "dest = d")
    case True
    have "fr_body a \<noteq> body \<and> (fb_scope (fr_body a) = fb_scope body \<longrightarrow> fb_seq (fr_body a) \<noteq> fb_seq body)" if "a \<in> sent ob d" for a
      using fresh(2) [OF True] that by force
    then show ?thesis using rest(1) fresh(1) [OF True] True unfolding serial_def new(2) by (simp add: body) metis
  qed (use rest(1) new(2) in \<open>simp add: serial_def\<close>)
  moreover have "seen_of (rv_seen rv) (fb_scope body) < fb_seq body" if "dest = d"
  proof -
    consider "seen_of (rv_seen rv) (fb_scope body) = 0"
      | b where "b \<in> set (rv_log rv)" "fb_scope b = fb_scope body" "fb_seq b = seen_of (rv_seen rv) (fb_scope body)"
      using rest(2) unfolding receiver_ok_def by blast
    then show ?thesis
    proof cases
      case (2 b)
      then obtain row where "row \<in> sent ob d" "fr_body row = b" using rest(4) by auto
      then show ?thesis using fresh(2) [OF that] 2 by force
    qed (use fresh(1) [OF that] in simp)
  qed
  then have "gapless ob' d rv" using rest(3) unfolding gapless_def new(2) by (auto simp: body)
  ultimately show ?thesis using new rest unfolding link_ok_def by (auto simp: body)
next
  case (Some x)
  then show ?thesis using ok e by (auto simp: enqueue_def Let_def)
qed

lemma drain_sent:
  assumes ok: "outbox_ok ob" and dr: "drain locale_le env now ob = (r, ob')" and row': "row' \<in> sent ob' d"
  obtains row where "row \<in> sent ob d" "fr_id row = fr_id row'" "fr_body row' = fr_body row" "fr_status row \<noteq> Pending \<Longrightarrow> row' = row"
proof -
  have r: "jm_get (ob_rows ob') (fr_id row') = Some row'" "fr_destination row' = d" using row' sent_iff [OF drain_ok [OF ok dr]] by blast+
  then have "fr_id row' \<in> set (jm_keys (ob_rows ob))" using drain_keys [OF dr] by (metis fst_conv image_eqI list.set_map map_of_SomeD)
  then obtain row where row: "jm_get (ob_rows ob) (fr_id row') = Some row" by (metis map_of_eq_None_iff not_None_eq set_map)
  have id: "fr_id row = fr_id row'" using ok row by (auto simp: outbox_ok_def jm_get_iff)
  show ?thesis
    by (rule drain_kept [OF ok dr row]) (use that [of row] r id row sent_iff [OF ok, of row d] in auto)
qed

lemma drain_sent_bodies:
  assumes ok: "outbox_ok ob" and dr: "drain locale_le env now ob = (r, ob')"
  shows "fr_body ` sent ob d \<subseteq> fr_body ` sent ob' d"
proof
  fix b assume "b \<in> fr_body ` sent ob d"
  then obtain row where row: "row \<in> sent ob d" "b = fr_body row" by blast
  then have get: "jm_get (ob_rows ob) (fr_id row) = Some row" "fr_destination row = d" using sent_iff [OF ok] by blast+
  obtain row' where "jm_get (ob_rows ob') (fr_id row) = Some row'" "fr_id row' = fr_id row" "fr_destination row' = fr_destination row"
    "fr_body row' = fr_body row" by (rule drain_kept [OF ok dr get(1)]) blast
  then show "b \<in> fr_body ` sent ob' d" using row(2) get(2) sent_iff [OF drain_ok [OF ok dr], of row' d] by (metis image_eqI)
qed

lemma drain_link_ok:
  assumes le: "total_preorder locale_le" and ok: "link_ok d store0 ob rv" and dr: "drain locale_le env now ob = (r, ob')"
    and j: "j \<le> length (tried locale_le ob ob' d)"
    and acked: "\<forall>row \<in> set (drop j (tried locale_le ob ob' d)). map_option fr_status (jm_get (ob_rows ob') (fr_id row)) \<noteq> Some Delivered"
  shows "link_ok d store0 ob' (fold receive (take j (tried locale_le ob ob' d)) rv)"
proof -
  have obok: "outbox_ok ob" and ser: "serial ob d"
    and del: "\<forall>row \<in> sent ob d. fr_status row = Delivered \<longrightarrow> fr_body row \<in> set (rv_log rv)" using ok by (simp_all add: link_ok_def)
  note ok' = drain_ok [OF obok dr]
  obtain k m where km: "k \<le> m" "m \<le> length (lane locale_le ob d)" and tr: "tried locale_le ob ob' d = take m (lane locale_le ob d)"
    and dl: "\<And>p. p < length (lane locale_le ob d) \<Longrightarrow> map_option fr_status (jm_get (ob_rows ob') (fr_id (lane locale_le ob d ! p))) = Some Delivered \<longleftrightarrow> p < k"
    by (rule tried_prefix [OF obok dr, of d]) blast
  have jm: "j \<le> m" using j km(2) tr by simp
  have kj: "k \<le> j"
  proof (rule ccontr)
    assume "\<not> k \<le> j"
    then have p: "j < k" "j < m" "j < length (lane locale_le ob d)" using km by simp_all
    then have "lane locale_le ob d ! j \<in> set (drop j (take m (lane locale_le ob d)))"
      by (metis Cons_nth_drop_Suc length_take list.set_intros(1) min_less_iff_conj nth_take)
    then show False using acked tr dl [OF p(3)] p(1) by fastforce
  qed
  define rv' where "rv' = fold receive (take j (lane locale_le ob d)) rv"
  have rv'_eq: "fold receive (take j (tried locale_le ob ob' d)) rv = rv'" using jm by (simp add: tr rv'_def min_absorb1)
  have pre: "receiver_ok store0 rv'" "gapless ob d rv'" "set (rv_log rv) \<subseteq> set (rv_log rv')" "set (rv_log rv') \<subseteq> fr_body ` sent ob d"
    "\<forall>p < j. fr_body (lane locale_le ob d ! p) \<in> set (rv_log rv')"
    using receive_prefix [OF le ok, of j] jm km(2) unfolding rv'_def by simp_all
  have "serial ob' d"
  proof -
    have "a' = b'" if ab: "a' \<in> sent ob' d" "b' \<in> sent ob' d" "fb_scope (fr_body a') = fb_scope (fr_body b')" "fb_seq (fr_body a') = fb_seq (fr_body b')" for a' b'
    proof -
      obtain a where a: "a \<in> sent ob d" "fr_id a = fr_id a'" "fr_body a' = fr_body a" by (rule drain_sent [OF obok dr ab(1)]) blast
      obtain b where b: "b \<in> sent ob d" "fr_id b = fr_id b'" "fr_body b' = fr_body b" by (rule drain_sent [OF obok dr ab(2)]) blast
      have "a = b" using ser ab(3,4) a b unfolding serial_def by metis
      then show ?thesis using a(2) b(2) ab(1,2) sent_iff [OF ok'] by (metis option.inject)
    qed
    moreover have "0 < fb_seq (fr_body a')" if "a' \<in> sent ob' d" for a'
      using ser drain_sent [OF obok dr that] unfolding serial_def by metis
    ultimately show ?thesis unfolding serial_def by blast
  qed
  moreover have "gapless ob' d rv'"
    unfolding gapless_def
  proof (intro ballI impI)
    fix row' assume r: "row' \<in> sent ob' d" "fr_status row' \<noteq> Abandoned \<and> fb_seq (fr_body row') \<le> seen_of (rv_seen rv') (fb_scope (fr_body row'))"
    obtain row where row: "row \<in> sent ob d" "fr_body row' = fr_body row" "fr_status row \<noteq> Pending \<Longrightarrow> row' = row"
      by (rule drain_sent [OF obok dr r(1)]) blast
    then show "fr_body row' \<in> set (rv_log rv')" using pre(2) r(2) unfolding gapless_def by (metis row_status.distinct(3))
  qed
  moreover have "fr_body row' \<in> set (rv_log rv')" if r: "row' \<in> sent ob' d" "fr_status row' = Delivered" for row'
  proof -
    obtain row where row: "row \<in> sent ob d" "fr_id row = fr_id row'" "fr_body row' = fr_body row" "fr_status row \<noteq> Pending \<Longrightarrow> row' = row"
      by (rule drain_sent [OF obok dr r(1)]) blast
    show ?thesis
    proof (cases "fr_status row = Pending")
      case True
      have get: "jm_get (ob_rows ob) (fr_id row) = Some row" "fr_destination row = d" using row(1) sent_iff [OF obok] by blast+
      with in_lane [OF obok get(1) True, of locale_le] obtain p where p: "p < length (lane locale_le ob d)" "lane locale_le ob d ! p = row" by blast
      have "jm_get (ob_rows ob') (fr_id row) = Some row'" using r(1) row(2) sent_iff [OF ok'] by metis
      then have "p < k" using dl [OF p(1)] p(2) r(2) by simp
      then show ?thesis using pre(5) kj p(2) row(3) by (metis less_le_trans)
    next
      case False
      then show ?thesis using row del r(2) pre(3) by blast
    qed
  qed
  ultimately show ?thesis
    using ok' pre(1,4) drain_sent_bodies [OF obok dr, of d] unfolding link_ok_def rv'_eq by blast
qed

lemma link_invariant:
  assumes "total_preorder locale_le" "link locale_le d store0 ob rv"
  shows "link_ok d store0 ob rv"
  using assms(2)
proof (induction rule: link.induct)
  case (link_new backoff budget)
  then show ?case
    by (simp add: link_ok_def newOutbox_def outbox_ok_def serial_def sent_def receiver_ok_def gapless_def seen_of_def)
next
  case (link_enqueue ob rv dest body i row ob')
  show ?case by (rule enqueue_ok [OF link_enqueue(4,2,3)])
next
  case (link_drain ob rv env now r ob' j)
  show ?case by (rule drain_link_ok [OF assms(1) link_drain(5,2,3,4)])
qed

text \<open>
  C24: fanout takes effect once and in order. Along any run of enqueues (fresh facts of a scope newer
  than the ones before) and drains over an unreliable link (a try may be lost, or applied and not
  acknowledged, or abandoned after its budget), the derived copy is the start store with the log of
  applied facts replayed on it; per scope the log is strictly increasing in sequence, so nothing is
  applied twice or out of order; it holds only enqueued facts; every acknowledged fact is in it, and so is
  every fact at or below the scope's high-water mark that was not abandoned.
\<close>

theorem fanout_exactly_once:
  assumes "total_preorder locale_le" "link locale_le d store0 ob rv"
  shows "rv_store rv = fold apply_body (rv_log rv) store0
    \<and> (\<forall>scope. sorted_wrt (<) (map fb_seq (filter (\<lambda>b. fb_scope b = scope) (rv_log rv))))
    \<and> set (rv_log rv) \<subseteq> fr_body ` sent ob d
    \<and> (\<forall>row \<in> sent ob d. fr_status row = Delivered
         \<or> fr_status row = Pending \<and> fb_seq (fr_body row) \<le> seen_of (rv_seen rv) (fb_scope (fr_body row)) \<longrightarrow> fr_body row \<in> set (rv_log rv))"
proof -
  have ok: "link_ok d store0 ob rv" by (rule link_invariant [OF assms])
  then have "fr_body row \<in> set (rv_log rv)"
    if "row \<in> sent ob d" "fr_status row = Delivered \<or> fr_status row = Pending \<and> fb_seq (fr_body row) \<le> seen_of (rv_seen rv) (fb_scope (fr_body row))" for row
    using that unfolding link_ok_def gapless_def by fastforce
  then show ?thesis using ok unfolding link_ok_def receiver_ok_def by blast
qed

text \<open>A fact whose first attempt is applied but not acknowledged: it is in the log and still pending.\<close>

theorem fanout_exactly_once_witness:
  "\<exists>ob rv. link (\<le>) ''g1'' (newStore Derived_copy) ob rv \<and> sorted_wrt (<) (map fb_seq (filter (\<lambda>b. fb_scope b = ''room:hall'') (rv_log rv)))
     \<and> rv_log rv \<noteq> []"
proof -
  define ob1 where "ob1 = snd (enqueue ''g1'' (demo_body 1) (Some ''r1'') (newOutbox None None))"
  define env where "env = \<lparr>dv_deliver = (\<lambda>_. False), dv_yield = (\<lambda>_. False), dv_lane = None\<rparr>"
  define ob2 where "ob2 = snd (drain (\<le>) env 5 ob1)"
  define rv0 where "rv0 = \<lparr>rv_store = newStore Derived_copy, rv_seen = [], rv_log = []\<rparr>"
  have "link (\<le>) ''g1'' (newStore Derived_copy) (newOutbox None None) rv0" unfolding rv0_def by (rule link_new) simp
  then have l1: "link (\<le>) ''g1'' (newStore Derived_copy) ob1 rv0"
    by (rule link_enqueue [of _ _ _ _ _ "''g1''" "demo_body 1" "Some ''r1''" "fst (enqueue ''g1'' (demo_body 1) (Some ''r1'') (newOutbox None None))"])
      (simp_all add: ob1_def newer_def newOutbox_def demo_body_def)
  have rows1: "ob1 = (newOutbox None None)\<lparr>ob_rows := [(''r1'', fresh_row ''g1'' (demo_body 1) (Some ''r1''))]\<rparr>"
    by (simp add: ob1_def enqueue_def fresh_row_def newOutbox_def Let_def)
  have ln: "lane (\<le>) ob1 ''g1'' = [fresh_row ''g1'' (demo_body 1) (Some ''r1'')]"
    by (simp add: rows1 lane_def pending_def sort_by_def fresh_row_def)
  have tr: "tried (\<le>) ob1 ob2 ''g1'' = [fresh_row ''g1'' (demo_body 1) (Some ''r1'')]"
    unfolding tried_def ln
    by (simp add: ob2_def rows1 drain_def lanes_of_def pending_def lane_put_def fresh_row_def drain_lane_def sort_by_def env_def in_backoff_def
        Let_def write_back_def after_failure_def attempted_def newOutbox_def)
  have st: "map_option fr_status (jm_get (ob_rows ob2) ''r1'') = Some Pending"
    by (simp add: ob2_def rows1 drain_def lanes_of_def pending_def lane_put_def fresh_row_def drain_lane_def sort_by_def env_def in_backoff_def
        Let_def write_back_def after_failure_def attempted_def newOutbox_def)
  have l2: "link (\<le>) ''g1'' (newStore Derived_copy) ob2 (fold receive (take 1 (tried (\<le>) ob1 ob2 ''g1'')) rv0)"
    by (rule link_drain [OF l1, of env 5 "fst (drain (\<le>) env 5 ob1)"]) (simp_all add: ob2_def [symmetric] tr, simp add: ob2_def)
  have "rv_log (fold receive (take 1 (tried (\<le>) ob1 ob2 ''g1'')) rv0) \<noteq> []"
    by (simp add: tr rv0_def receive_def applyFanout_def fresh_row_def demo_body_def seen_of_def)
  moreover have "total_preorder ((\<le>) :: string \<Rightarrow> string \<Rightarrow> bool)" unfolding total_preorder_def by force
  ultimately show ?thesis using fanout_exactly_once [OF _ l2] l2 by blast
qed

end
