(* ===== verification/Session_Ids.thy ===== *)
theory Session_Ids
  imports Source_Hash
begin

text \<open>
  Routable identifiers (\<open>src/net/session-id.ts\<close>), the client session lifetime policy
  (\<open>src/net/client-session-policy.ts\<close>) and the public echo token (\<open>src/net/turn-echo.ts\<close>). The random part of
  an identifier is the caller's.
\<close>

section \<open>Identifiers with a shard hint\<close>

text \<open>\<open>shard.replace(/[^A-Za-z0-9-]/g, "-")\<close>.\<close>

definition hint_char :: "char \<Rightarrow> bool" where
  "hint_char c \<longleftrightarrow> (let n = of_char c :: nat in (65 \<le> n \<and> n \<le> 90) \<or> (97 \<le> n \<and> n \<le> 122) \<or> (48 \<le> n \<and> n \<le> 57) \<or> n = 45)"

definition sanitize_shard :: "string \<Rightarrow> string" where
  "sanitize_shard shard = map (\<lambda>c. if hint_char c then c else CHR ''-'') shard"

definition sessionIdWithShardHint :: "string option \<Rightarrow> string \<Rightarrow> string" where
  "sessionIdWithShardHint shard random = (case shard of
      None \<Rightarrow> ''s_'' @ random
    | Some sh \<Rightarrow> if sh = [] then ''s_'' @ random else ''s_'' @ sanitize_shard sh @ ''_'' @ random)"

definition sessionShardHint :: "string \<Rightarrow> string option" where
  "sessionShardHint session = (case split_on (CHR ''_'') session of
      [p, hint, _] \<Rightarrow> if p \<noteq> ''s'' \<or> hint = [] then None else Some hint
    | _ \<Rightarrow> None)"

definition ticketIdWithShardHint :: "string option \<Rightarrow> string \<Rightarrow> string" where
  "ticketIdWithShardHint shard random = (case shard of
      None \<Rightarrow> ''wst_'' @ random
    | Some sh \<Rightarrow> if sh = [] then ''wst_'' @ random else ''wst_'' @ sanitize_shard sh @ ''_'' @ random)"

definition ticketShardHint :: "string \<Rightarrow> string option" where
  "ticketShardHint ticket = (case split_on (CHR ''_'') ticket of
      [p, hint, _] \<Rightarrow> if p \<noteq> ''wst'' \<or> hint = [] then None else Some hint
    | _ \<Rightarrow> None)"

section \<open>Lifetimes and echo tokens\<close>

definition CLIENT_SESSION_TTL_DEFAULT_MS :: int where
  "CLIENT_SESSION_TTL_DEFAULT_MS = 30 * 60000"

definition CLIENT_SESSION_TTL_MIN_MS :: int where
  "CLIENT_SESSION_TTL_MIN_MS = 60000"

definition CLIENT_SESSION_TTL_MAX_MS :: int where
  "CLIENT_SESSION_TTL_MAX_MS = 24 * 60 * 60000"

definition clampClientSessionTtl :: "json option \<Rightarrow> int" where
  "clampClientSessionTtl raw =
     (let ttl = (case jnum raw of Some n \<Rightarrow> n | None \<Rightarrow> CLIENT_SESSION_TTL_DEFAULT_MS)
      in min CLIENT_SESSION_TTL_MAX_MS (max CLIENT_SESSION_TTL_MIN_MS ttl))"

definition turnEchoId :: "string \<Rightarrow> string" where
  "turnEchoId idempotencyKey = ''echo:'' @ hashSource (''woo.net.turn-echo.v1'' @ [CHR 0x00] @ idempotencyKey)"

section \<open>Routability\<close>

text \<open>
  The contract of an identifier family: a minted identifier is the family's prefix, the hint when
  there is one and the random part, joined by underscores, and the reader accepts exactly the
  three-token form with that prefix.
\<close>

locale routable_id =
  fixes prefix :: string and mint :: "string option \<Rightarrow> string \<Rightarrow> string" and hint :: "string \<Rightarrow> string option"
  assumes prefix_free: "CHR ''_'' \<notin> set prefix"
    and mint_bare: "shard = None \<or> shard = Some [] \<Longrightarrow> mint shard random = prefix @ CHR ''_'' # random"
    and mint_hinted: "sh \<noteq> [] \<Longrightarrow> mint (Some sh) random = prefix @ CHR ''_'' # sanitize_shard sh @ CHR ''_'' # random"
    and hint_iff: "hint i = Some h \<longleftrightarrow> h \<noteq> [] \<and> (\<exists>r. split_on (CHR ''_'') i = [prefix, h, r])"
begin

lemma sanitized: "CHR ''_'' \<notin> set (sanitize_shard sh)" "CHR '':'' \<notin> set (sanitize_shard sh)" "sanitize_shard sh = [] \<longleftrightarrow> sh = []"
  by (auto simp: sanitize_shard_def hint_char_def Let_def)

lemma hint_of_mint:
  assumes "CHR ''_'' \<notin> set random"
  shows "hint (mint shard random) = (case shard of None \<Rightarrow> None | Some sh \<Rightarrow> if sh = [] then None else Some (sanitize_shard sh))"
proof (cases "shard = None \<or> shard = Some []")
  case True
  then have "split_on (CHR ''_'') (mint shard random) = [prefix, random]"
    using assms prefix_free by (simp add: mint_bare split_on_append split_on_no_sep)
  then have "hint (mint shard random) \<noteq> Some h" for h by (simp add: hint_iff)
  then show ?thesis using True by fastforce
next
  case False
  then obtain sh where sh: "shard = Some sh" "sh \<noteq> []" by auto
  have "split_on (CHR ''_'') (mint shard random) = [prefix, sanitize_shard sh, random]"
    using assms prefix_free sh sanitized by (simp add: mint_hinted split_on_append split_on_no_sep)
  then have "hint (mint shard random) = Some (sanitize_shard sh)" using sh sanitized by (simp add: hint_iff)
  then show ?thesis using sh by simp
qed

lemma mint_no_colon:
  assumes "CHR '':'' \<notin> set prefix" "CHR '':'' \<notin> set random"
  shows "CHR '':'' \<notin> set (mint shard random)"
  using assms sanitized(2) mint_bare [of shard random] mint_hinted [of _ random]
  by (cases "shard = None \<or> shard = Some []") auto

end

lemma three_tokens:
  "(case split_on sep i of [p, h, _] \<Rightarrow> if p \<noteq> q \<or> h = [] then None else Some h | _ \<Rightarrow> None) = Some g
     \<longleftrightarrow> g \<noteq> [] \<and> (\<exists>r. split_on sep i = [q, g, r])"
  by (auto split: list.split)

interpretation session_id: routable_id "''s''" sessionIdWithShardHint sessionShardHint
  by unfold_locales (auto simp: sessionIdWithShardHint_def sessionShardHint_def three_tokens)

interpretation ticket_id: routable_id "''wst''" ticketIdWithShardHint ticketShardHint
  by unfold_locales (auto simp: ticketIdWithShardHint_def ticketShardHint_def three_tokens)

text \<open>
  C27: a minted identifier stays routable. With an underscore-free random part, reading the hint of a
  session identifier gives back its sanitized shard, exactly the shard's own name when that uses the
  hint alphabet, and nothing for an identifier minted without one; the same for a ticket; neither
  family's identifiers are read as the other's; and no colon of the shard's name can reach a cell key.
\<close>

theorem shard_hint_roundtrip:
  assumes "CHR ''_'' \<notin> set random" "CHR '':'' \<notin> set random"
  shows "sessionShardHint (sessionIdWithShardHint shard random)
      = (case shard of None \<Rightarrow> None | Some sh \<Rightarrow> if sh = [] then None else Some (sanitize_shard sh))
    \<and> ticketShardHint (ticketIdWithShardHint shard random) = sessionShardHint (sessionIdWithShardHint shard random)
    \<and> (\<forall>sh. list_all hint_char sh \<longrightarrow> sanitize_shard sh = sh)
    \<and> ticketShardHint (sessionIdWithShardHint shard random) = None \<and> sessionShardHint (ticketIdWithShardHint shard random) = None
    \<and> CHR '':'' \<notin> set (sessionIdWithShardHint shard random)"
proof (intro conjI)
  show "sessionShardHint (sessionIdWithShardHint shard random)
      = (case shard of None \<Rightarrow> None | Some sh \<Rightarrow> if sh = [] then None else Some (sanitize_shard sh))"
    by (rule session_id.hint_of_mint [OF assms(1)])
  then show "ticketShardHint (ticketIdWithShardHint shard random) = sessionShardHint (sessionIdWithShardHint shard random)"
    by (simp add: ticket_id.hint_of_mint [OF assms(1)])
  show "\<forall>sh. list_all hint_char sh \<longrightarrow> sanitize_shard sh = sh"
    by (auto simp: sanitize_shard_def list_all_iff intro: map_idI)
  have "hd (split_on (CHR ''_'') (sessionIdWithShardHint shard random)) = ''s''"
    "hd (split_on (CHR ''_'') (ticketIdWithShardHint shard random)) = ''wst''"
    by (auto simp: sessionIdWithShardHint_def ticketIdWithShardHint_def split: option.split list.split)
  then show "ticketShardHint (sessionIdWithShardHint shard random) = None" "sessionShardHint (ticketIdWithShardHint shard random) = None"
    by (auto simp: ticketShardHint_def sessionShardHint_def split: list.split)
  show "CHR '':'' \<notin> set (sessionIdWithShardHint shard random)"
    by (rule session_id.mint_no_colon) (simp_all add: assms(2))
qed

theorem shard_hint_roundtrip_witness: "sessionShardHint (sessionIdWithShardHint (Some ''eu:1'') ''9f'') = Some ''eu-1''"
  using shard_hint_roundtrip [of "''9f''" "Some ''eu:1''"]
  by (simp add: sanitize_shard_def hint_char_def)

end
