(* ===== verification/Stamp_Free.thy ===== *)
theory Stamp_Free
  imports Transcript
begin

text \<open>
  A planner applies a transcript under its own stamp (\<open>"planner"\<close>), the authority under the stamp of
  the head it commits (\<open>src/net/transcript.ts\<close>). Forgetting the stamps of a store is a simulation of
  every store operation and of every step of the application, so the two applications agree on
  everything but stamps, the post-state digest included.
\<close>

section \<open>Forgetting stamps\<close>

definition no_stamp :: epoch_stamp where
  "no_stamp = \<lparr>scope_head = [], catalog_epoch = []\<rparr>"

definition unstamp_cell :: "cell \<Rightarrow> cell" where
  "unstamp_cell c = c\<lparr>c_stamp := no_stamp\<rparr>"

definition unstamp_rows :: "(string, cell) jsmap \<Rightarrow> (string, cell) jsmap" where
  "unstamp_rows m = map (\<lambda>(k, c). (k, unstamp_cell c)) m"

definition unstamp :: "cell_store \<Rightarrow> cell_store" where
  "unstamp s = s\<lparr>st_cells := unstamp_rows (st_cells s)\<rparr>"

lemma unstamp_cell_sel [simp]:
  "c_key (unstamp_cell c) = c_key c" "c_kind (unstamp_cell c) = c_kind c" "c_object (unstamp_cell c) = c_object c"
  "c_name (unstamp_cell c) = c_name c" "c_value (unstamp_cell c) = c_value c" "c_version (unstamp_cell c) = c_version c"
  "c_provenance (unstamp_cell c) = c_provenance c" "unstamp_cell (unstamp_cell c) = unstamp_cell c"
  by (simp_all add: unstamp_cell_def)

lemma unstamp_make [simp]: "unstamp_cell (makeCell k obj nm v prov stamp) = makeCell k obj nm v prov no_stamp"
  by (simp add: unstamp_cell_def makeCell_def)

lemma unstamp_extract [simp]:
  "sessionActorOf (unstamp_cell c) = sessionActorOf c" "liveLocationOf (unstamp_cell c) = liveLocationOf c"
  "lineageParentOf (unstamp_cell c) = lineageParentOf c" "orderedEdgeOf (unstamp_cell c) = orderedEdgeOf c"
  by (simp_all add: sessionActorOf_def liveLocationOf_def lineageParentOf_def orderedEdgeOf_def)

lemma unstamp_rows_get [simp]: "jm_get (unstamp_rows m) k = map_option unstamp_cell (jm_get m k)"
  unfolding unstamp_rows_def by (induction m) auto

lemma unstamp_rows_set: "unstamp_rows (jm_set k c m) = jm_set k (unstamp_cell c) (unstamp_rows m)"
  unfolding unstamp_rows_def by (induction m) auto

lemma unstamp_rows_del: "unstamp_rows (jm_del k m) = jm_del k (unstamp_rows m)"
  unfolding unstamp_rows_def by (induction m) (auto simp: AList.delete_eq)

lemma unstamp_sel [simp]:
  "st_role (unstamp s) = st_role s" "st_cells (unstamp s) = unstamp_rows (st_cells s)" "keysByObject (unstamp s) = keysByObject s"
  "sessionKeysByActor (unstamp s) = sessionKeysByActor s" "membersByLocation (unstamp s) = membersByLocation s"
  "lineageChildrenByParent (unstamp s) = lineageChildrenByParent s" "edgeChildrenByParent (unstamp s) = edgeChildrenByParent s"
  by (simp_all add: unstamp_def)

lemma edge_unstamp [simp]: "edge_add (unstamp_cell c) m = edge_add c m" "edge_remove (unstamp_cell c) m = edge_remove c m"
  by (simp_all add: edge_add_def edge_remove_def Let_def split: option.split)

lemma unstamp_index: "unstamp (indexCell c s) = indexCell (unstamp_cell c) (unstamp s)"
  "unstamp (unindexCell c s) = unindexCell (unstamp_cell c) (unstamp s)"
  by (simp_all add: indexCell_def unindexCell_def unstamp_def)

lemma unstamp_set: "unstamp (setCell c s) = setCell (unstamp_cell c) (unstamp s)"
proof -
  have upd: "unstamp (s\<lparr>st_cells := m\<rparr>) = (unstamp s)\<lparr>st_cells := unstamp_rows m\<rparr>" for s m by (simp add: unstamp_def)
  show ?thesis
    by (cases "jm_get (st_cells s) (c_key c)")
      (simp_all add: setCell_def Let_def unstamp_index upd unstamp_rows_set del: map_of_eq_Some_iff)
qed

lemma unstamp_remove: "unstamp (removeCell k s) = removeCell k (unstamp s)"
proof -
  have upd: "unstamp (s\<lparr>st_cells := m\<rparr>) = (unstamp s)\<lparr>st_cells := unstamp_rows m\<rparr>" for s m by (simp add: unstamp_def)
  show ?thesis
    by (cases "jm_get (st_cells s) k")
      (simp_all add: removeCell_def unstamp_index upd unstamp_rows_del del: map_of_eq_Some_iff)
qed

lemma unstamp_get [simp]: "store_get (unstamp s) k = map_option unstamp_cell (store_get s k)"
  by (simp add: store_get_def)

lemma unstamp_put: "unstamp (put_cell k obj nm v stamp s) = put_cell k obj nm v no_stamp (unstamp s)"
  by (simp add: put_cell_def store_commit_def Let_def unstamp_set)

lemma unstamp_delete: "unstamp (store_delete k s) = store_delete k (unstamp s)"
  by (simp add: store_delete_def unstamp_remove)

lemma unstamp_value [simp]: "map_option c_value (store_get (unstamp s) k) = map_option c_value (store_get s k)"
  by (cases "store_get s k") simp_all

lemmas unstamp_ops = unstamp_put unstamp_delete

section \<open>The application under another stamp\<close>

definition unstamp_state :: "apply_state \<Rightarrow> apply_state" where
  "unstamp_state st = st\<lparr>ap_post := unstamp (ap_post st)\<rparr>"

lemma unstamp_state_sel [simp]:
  "ap_post (unstamp_state st) = unstamp (ap_post st)" "ap_touched (unstamp_state st) = ap_touched st"
  "ap_projection (unstamp_state st) = ap_projection st" "ap_recycled (unstamp_state st) = ap_recycled st"
  by (simp_all add: unstamp_state_def)

lemma unstamp_touch: "unstamp_state (touch k st) = touch k (unstamp_state st)"
  by (simp add: unstamp_state_def touch_def)

lemma unstamp_effect: "unstamp (write_effect t stamp w s) = write_effect t no_stamp w (unstamp s)"
  by (simp add: write_effect_def Let_def unstamp_ops option.map_comp comp_def split: transcript_cell.split)

lemma unstamp_post:
  "unstamp_state (on_post (put_cell k obj nm v stamp) st) = on_post (put_cell k obj nm v no_stamp) (unstamp_state st)"
  "unstamp_state (on_post (store_delete key) st) = on_post (store_delete key) (unstamp_state st)"
  "unstamp_state (on_post (write_effect t stamp w) st) = on_post (write_effect t no_stamp w) (unstamp_state st)"
  by (simp_all add: unstamp_state_def on_post_def unstamp_ops unstamp_effect)

lemma unstamp_create: "unstamp_state (apply_create stamp cr st) = apply_create no_stamp cr (unstamp_state st)"
  by (simp add: apply_create_def Let_def unstamp_touch unstamp_post)

lemma unstamp_write: "unstamp_state (apply_write t stamp w st) = apply_write t no_stamp w (unstamp_state st)"
proof (cases "netCellKeyFor (tw_cell w)")
  case None
  then show ?thesis by (simp add: apply_write_def unstamp_state_def)
qed (simp add: apply_write_def unstamp_touch unstamp_post)

lemma unstamp_move: "unstamp_state (apply_move stamp mv st) = apply_move no_stamp mv (unstamp_state st)"
  by (simp add: apply_move_def Let_def unstamp_touch unstamp_post option.map_comp comp_def)

lemma unstamp_graft: "unstamp_state (graft_child stamp p child st) = graft_child no_stamp p child (unstamp_state st)"
  by (cases "store_get (ap_post st) (cellKey Object_lineage child None)")
    (simp_all add: graft_child_def Let_def unstamp_touch unstamp_post)

lemma unstamp_displace: "unstamp_state (displace_member stamp m st) = displace_member no_stamp m (unstamp_state st)"
  by (cases "store_get (ap_post st) (cellKey Object_live m None)")
    (simp_all add: displace_member_def Let_def unstamp_touch unstamp_post)

lemma unstamp_page: "unstamp_state (delete_page_cell c st) = delete_page_cell (unstamp_cell c) (unstamp_state st)"
  by (simp add: delete_page_cell_def unstamp_touch unstamp_post)

lemma fold_simulation: "(\<And>x st. g (f x st) = f' (h x) (g st)) \<Longrightarrow> g (fold f xs st) = fold f' (map h xs) (g st)"
  by (induction xs arbitrary: st) simp_all

lemma unstamp_members [simp]: "membersAt (unstamp s) l = membersAt s l" "lineageChildrenOf (unstamp s) p = lineageChildrenOf s p"
  by (simp_all add: membersAt_def lineageChildrenOf_def)

lemma unstamp_page_cells: "cellsForObject (unstamp s) obj = map unstamp_cell (cellsForObject s obj)"
proof -
  have "List.map_filter (store_get (unstamp s)) ks = map unstamp_cell (List.map_filter (store_get s) ks)" for ks
    by (induction ks) (simp_all add: map_filter_simps split: option.split)
  then show ?thesis by (simp add: cellsForObject_def)
qed

lemma unstamp_recycle: "unstamp_state (apply_recycle stamp rc st) = apply_recycle no_stamp rc (unstamp_state st)"
proof -
  let ?obj = "rc_object rc"
  have g: "unstamp_state (fold (graft_child stamp p) xs z) = fold (graft_child no_stamp p) xs (unstamp_state z)" for p xs z
    using fold_simulation [of unstamp_state "graft_child stamp p" "graft_child no_stamp p" id xs z] unstamp_graft by simp
  have d: "unstamp_state (fold (displace_member stamp) xs z) = fold (displace_member no_stamp) xs (unstamp_state z)" for xs z
    using fold_simulation [of unstamp_state "displace_member stamp" "displace_member no_stamp" id xs z] unstamp_displace by simp
  have p: "unstamp_state (fold delete_page_cell xs z) = fold delete_page_cell (map unstamp_cell xs) (unstamp_state z)" for xs z
    by (rule fold_simulation) (rule unstamp_page)
  have push: "unstamp_state (z\<lparr>ap_recycled := rs\<rparr>) = (unstamp_state z)\<lparr>ap_recycled := rs\<rparr>" for z rs
    by (simp add: unstamp_state_def)
  have rec: "ap_recycled (fold delete_page_cell (map unstamp_cell xs) (unstamp_state z)) = ap_recycled (fold delete_page_cell xs z)" for xs z
    by (simp add: p [symmetric])
  have [simp]: "ap_recycled (touch k z) = ap_recycled z" "ap_recycled (on_post f z) = ap_recycled z" for k f z by (simp_all add: touch_def on_post_def)
  show ?thesis
  proof (cases "store_get (ap_post st) (cellKey Object_tombstone ?obj None)")
    case None
    define st1 where "st1 = fold (graft_child stamp (json_of_ref (jstr (jprop (map_option c_value (store_get (ap_post st) (cellKey Object_lineage ?obj None))) ''parent''))))
      (lineageChildrenOf (ap_post st) ?obj) st"
    define st2 where "st2 = fold (displace_member stamp) (membersAt (ap_post st1) ?obj) st1"
    have st1: "unstamp_state st1 = fold (graft_child no_stamp (json_of_ref (jstr (jprop (map_option c_value (store_get (ap_post st) (cellKey Object_lineage ?obj None))) ''parent''))))
      (lineageChildrenOf (ap_post st) ?obj) (unstamp_state st)" unfolding st1_def by (rule g)
    have st2: "unstamp_state st2 = fold (displace_member no_stamp) (membersAt (ap_post st1) ?obj) (unstamp_state st1)" unfolding st2_def by (rule d)
    show ?thesis using None unfolding apply_recycle_def Let_def st1_def [symmetric] st2_def [symmetric]
      by (simp add: push unstamp_touch unstamp_post p rec unstamp_page_cells st1 [symmetric] st2 [symmetric] option.map_comp comp_def)
  qed (simp add: apply_recycle_def unstamp_touch)
qed

lemma unstamp_steps: "unstamp_state (apply_steps t stamp st) = apply_steps t no_stamp (unstamp_state st)"
  unfolding apply_steps_def
  using fold_simulation [of unstamp_state "apply_create stamp" "apply_create no_stamp" id]
    fold_simulation [of unstamp_state "apply_write t stamp" "apply_write t no_stamp" id]
    fold_simulation [of unstamp_state "apply_move stamp" "apply_move no_stamp" id]
    fold_simulation [of unstamp_state "apply_recycle stamp" "apply_recycle no_stamp" id]
    unstamp_create unstamp_write unstamp_move unstamp_recycle by simp

lemma unstamp_clone: "unstamp (store_clone s) = store_clone (unstamp s)"
proof -
  have "allCells (unstamp s) = map unstamp_cell (allCells s)" by (simp add: allCells_def unstamp_rows_def split_beta)
  moreover have "unstamp (newStore r) = newStore r" for r by (simp add: unstamp_def newStore_def unstamp_rows_def)
  ultimately show ?thesis unfolding store_clone_def using fold_simulation [of unstamp setCell setCell unstamp_cell] unstamp_set by simp
qed

lemma digest_unstamp: "postStateVersion (unstamp s) ks = postStateVersion s ks"
proof -
  have "(case store_get (unstamp s) k of Some c \<Rightarrow> c_version c | None \<Rightarrow> ''absent'') = (case store_get s k of Some c \<Rightarrow> c_version c | None \<Rightarrow> ''absent'')" for k
    by (simp split: option.split)
  then show ?thesis unfolding postStateVersion_def by presburger
qed

text \<open>The result with the stamps of its post store forgotten.\<close>

definition unstamp_result :: "apply_result \<Rightarrow> apply_result" where
  "unstamp_result r = r\<lparr>ar_post := unstamp (ar_post r)\<rparr>"

lemma apply_unstamp: "map_sum id unstamp_result (applyTranscript pre t stamp) = applyTranscript (unstamp pre) t no_stamp"
proof -
  let ?init = "\<lambda>s. \<lparr>ap_post = store_clone s, ap_touched = [], ap_projection = [], ap_recycled = []\<rparr>"
  have init: "unstamp_state (?init pre) = ?init (unstamp pre)" by (simp add: unstamp_state_def unstamp_clone)
  define st where "st = apply_steps t stamp (?init pre)"
  have st: "apply_steps t no_stamp (?init (unstamp pre)) = unstamp_state st" unfolding st_def init [symmetric] by (rule unstamp_steps [symmetric])
  show ?thesis unfolding applyTranscript_def Let_def st st_def [symmetric]
    by (simp add: unstamp_result_def digest_unstamp)
qed

text \<open>
  C12: planner and authority agree. Applied to stores that hold the same cells up to their stamps, under
  any two stamps, a transcript is refused by both or gives the same touched keys, projection writes and
  recycled objects, the same post-state digest, and post stores that again differ in stamps only. So the
  digest a planner predicts is the one the authority derives from the same state.
\<close>

theorem applyTranscript_stamp_free:
  assumes "unstamp pre = unstamp pre'"
  shows "case (applyTranscript pre t stamp, applyTranscript pre' t stamp') of
      (Inr r, Inr r') \<Rightarrow> ar_touched r = ar_touched r' \<and> ar_projectionWrites r = ar_projectionWrites r'
        \<and> ar_recycledObjects r = ar_recycledObjects r' \<and> ar_postStateVersion r = ar_postStateVersion r'
        \<and> unstamp (ar_post r) = unstamp (ar_post r')
    | (Inl e, Inl e') \<Rightarrow> e = e'
    | _ \<Rightarrow> False"
proof -
  have eq: "map_sum id unstamp_result (applyTranscript pre t stamp) = map_sum id unstamp_result (applyTranscript pre' t stamp')"
    unfolding apply_unstamp assms ..
  have sel: "ar_touched r = ar_touched r' \<and> ar_projectionWrites r = ar_projectionWrites r'
        \<and> ar_recycledObjects r = ar_recycledObjects r' \<and> ar_postStateVersion r = ar_postStateVersion r'
        \<and> unstamp (ar_post r) = unstamp (ar_post r')" if "unstamp_result r = unstamp_result r'" for r r'
    using that by (cases r; cases r') (simp add: unstamp_result_def)
  show ?thesis
  proof (cases "applyTranscript pre t stamp")
    case (Inl e)
    then show ?thesis using eq by (cases "applyTranscript pre' t stamp'") simp_all
  next
    case (Inr r)
    then obtain r' where r': "applyTranscript pre' t stamp' = Inr r'" "unstamp_result r = unstamp_result r'"
      using eq by (cases "applyTranscript pre' t stamp'") simp_all
    from sel [OF r'(2)] show ?thesis by (simp add: Inr r'(1))
  qed
qed

text \<open>A lamp is moved at a planner and at the authority.\<close>

theorem applyTranscript_stamp_free_witness:
  "\<exists>r r'. applyTranscript (newStore Authority) demo_transcript \<lparr>scope_head = ''planner'', catalog_epoch = ''e1''\<rparr> = Inr r
    \<and> applyTranscript (newStore Authority) demo_transcript \<lparr>scope_head = ''1:abc'', catalog_epoch = ''e1''\<rparr> = Inr r'
    \<and> ar_postStateVersion r = ar_postStateVersion r'"
proof -
  have "\<exists>r. applyTranscript (newStore Authority) demo_transcript stamp = Inr r" for stamp
    by (simp add: applyTranscript_def newStore_def Let_def)
  then obtain r r' where
    "applyTranscript (newStore Authority) demo_transcript \<lparr>scope_head = ''planner'', catalog_epoch = ''e1''\<rparr> = Inr r"
    "applyTranscript (newStore Authority) demo_transcript \<lparr>scope_head = ''1:abc'', catalog_epoch = ''e1''\<rparr> = Inr r'" by metis
  then show ?thesis using applyTranscript_stamp_free [OF refl, of "newStore Authority" demo_transcript
      "\<lparr>scope_head = ''planner'', catalog_epoch = ''e1''\<rparr>" "\<lparr>scope_head = ''1:abc'', catalog_epoch = ''e1''\<rparr>"] by auto
qed

end
