(* ===== verification/Genesis.thy ===== *)
theory Genesis
  imports Stamp_Free Session_Facts
begin

text \<open>
  Genesis submits: the first commit of an actor cluster that no sequencer has seen. Elastic guests
  (\<open>src/net/guest.ts\<close>) and operator identity anchors (\<open>src/net/identity-anchor.ts\<close>) both build one
  transcript against the genesis head of the new scope and predict its digest over an empty store.
  A lifetime is an integer here, as in \<open>Sessions\<close>.
\<close>

section \<open>The shared construction\<close>

definition create_json :: "transcript_create \<Rightarrow> json" where
  "create_json c = JObj ([(''object'', JStr (cr_object c)), (''name'', JStr (cr_name c)), (''parent'', json_of_ref (cr_parent c)),
     (''owner'', JStr (cr_owner c)), (''anchor'', json_of_ref (cr_anchor c)), (''location'', json_of_ref (cr_location c)),
     (''flags'', cr_flags c)] @ present ''writer'' (map_option writer_json (cr_writer c)))"

definition move_json :: "transcript_move \<Rightarrow> json" where
  "move_json m = JObj ([(''object'', JStr (mv_object m)), (''from'', json_of_ref (mv_from m)), (''to'', JStr (mv_to m))]
     @ present ''writer'' (map_option writer_json (mv_writer m)))"

text \<open>A complete direct transcript of an actor's verb on itself, with the hash of its body.\<close>

record genesis_parts =
  gp_id :: string
  gp_scope :: string
  gp_actor :: string
  gp_verb :: string
  gp_session :: "string option"
  gp_exclusive :: bool
  gp_transition :: "scope_transition option"
  gp_creates :: "transcript_create list"
  gp_writes :: "transcript_write list"
  gp_moves :: "transcript_move list"

definition genesis_body_json :: "genesis_parts \<Rightarrow> json" where
  "genesis_body_json g = JObj ([(''kind'', JStr ''woo.effect_transcript.shadow.v1''), (''id'', JStr (gp_id g)), (''route'', JStr ''direct''),
       (''scope'', JStr (gp_scope g)), (''seq'', JNum 0)]
     @ present ''session'' (map_option JStr (gp_session g))
     @ [(''call'', JObj [(''actor'', JStr (gp_actor g)), (''target'', JStr (gp_actor g)), (''verb'', JStr (gp_verb g)), (''args'', JArr [])])]
     @ (if gp_exclusive g then [(''exclusiveMint'', JBool True)] else [])
     @ present ''sessionScopeTransition'' (map_option transition_json (gp_transition g))
     @ [(''reads'', JArr []), (''creates'', JArr (map create_json (gp_creates g))), (''writes'', JArr (map mint_write_json (gp_writes g))),
        (''moves'', JArr (map move_json (gp_moves g))), (''observations'', JArr []), (''logicalInputs'', JArr []),
        (''untrackedEffects'', JArr []), (''complete'', JBool True), (''incompleteReasons'', JArr [])])"

definition genesis_transcript :: "genesis_parts \<Rightarrow> transcript" where
  "genesis_transcript g = \<lparr>t_failureEffectsGeneration = None, t_id = Some (gp_id g), t_route = Direct,
     t_scope = gp_scope g, t_space = None, t_seq = 0, t_session = gp_session g,
     t_call = \<lparr>tk_actor = gp_actor g, tk_target = gp_actor g, tk_verb = gp_verb g, tk_verb_definer = None, tk_verb_slot = None,
       tk_args = [], tk_body = None\<rparr>,
     t_reads = [], t_stateProbes = [], t_writes = gp_writes g, t_creates = gp_creates g, t_moves = gp_moves g, t_recycles = [],
     t_schedules = [], t_cancellations = [], t_sessionScopeTransition = gp_transition g, t_projectionWrites = [], t_observations = [],
     t_logicalInputs = [], t_untrackedEffects = [], t_result = None, t_error = None, t_complete = True, t_incompleteReasons = [],
     t_hash = cellVersion (genesis_body_json g), t_exclusiveMint = gp_exclusive g, t_sessionClose = False,
     t_orderingReads = [], t_replayReads = [], t_principal = None, t_trace = None, t_extra = []\<rparr>"

text \<open>\<open>{ seq: 0, hash: cellVersion(["genesis", scope]) }\<close>.\<close>

definition genesis_base :: "string \<Rightarrow> scope_head" where
  "genesis_base scope = \<lparr>sh_seq = 0, sh_hash = cellVersion (JArr [JStr ''genesis'', JStr scope]), sh_generation = None\<rparr>"

definition genesis_submit :: "genesis_parts \<Rightarrow> string \<Rightarrow> string \<Rightarrow> net_error + commit_submit" where
  "genesis_submit g key epoch =
     (let stamp = \<lparr>scope_head = ''planner'', catalog_epoch = epoch\<rparr> in
      case applyTranscript (newStore Authority) (genesis_transcript g) stamp of
        Inl e \<Rightarrow> Inl e
      | Inr applied \<Rightarrow> Inr \<lparr>cs_scope = gp_scope g, cs_base = genesis_base (gp_scope g), cs_idempotency_key = key,
          cs_transcript = genesis_transcript g, cs_post_state_version = ar_postStateVersion applied, cs_stamp = stamp,
          cs_owned_reads_compacted = False, cs_replay_result = None, cs_replay_result_omitted = False,
          cs_request_fingerprint = None, cs_retry_receipt = False, cs_attestations = []\<rparr>)"

definition genesis_prop :: "write_authority \<Rightarrow> string \<Rightarrow> string \<Rightarrow> json \<Rightarrow> transcript_write" where
  "genesis_prop writer obj nm v = session_write (TProp obj nm) v writer"

section \<open>Guests\<close>

record guest_template =
  gt_parent :: string
  gt_owner :: string
  gt_description :: string
  gt_home :: string
  gt_initial_room :: string
  gt_reset_definer :: string
  gt_reset_verb :: string
  gt_maintenance_principal :: string

record guest_input =
  gi_actor :: string
  gi_session :: string
  gi_ttl_ms :: int
  gi_now :: int
  gi_epoch :: string
  gi_template :: guest_template

text \<open>\<open>`Guest ${actor.slice(-8)}`\<close>.\<close>

definition guest_name :: "string \<Rightarrow> string" where
  "guest_name actor = ''Guest '' @ drop (length actor - 8) actor"

definition guest_scope :: "guest_input \<Rightarrow> string" where
  "guest_scope i = ''cluster:'' @ gi_actor i"

definition guest_value :: "guest_input \<Rightarrow> json" where
  "guest_value i = JObj [(''id'', JStr (gi_session i)), (''actor'', JStr (gi_actor i)), (''started'', JNum (gi_now i)),
     (''expiresAt'', JNum (gi_now i + gi_ttl_ms i)), (''activeScope'', JStr (gt_initial_room (gi_template i))),
     (''ephemeralActor'', JBool True)]"

definition guest_customer :: "guest_input \<Rightarrow> json" where
  "guest_customer i = JObj [(''customer'', JStr GUEST_CUSTOMER_ID), (''derived_via'', JStr ''guest''), (''bound_at'', JNum (gi_now i))]"

definition guest_parts :: "guest_input \<Rightarrow> genesis_parts" where
  "guest_parts i =
     (let actor = gi_actor i; tpl = gi_template i; writer = sessionWriter actor ''guest_provision'' in
      \<lparr>gp_id = ''guest-provision:'' @ gi_session i, gp_scope = guest_scope i, gp_actor = actor, gp_verb = ''guest_provision'',
       gp_session = Some (gi_session i), gp_exclusive = True,
       gp_transition = Some \<lparr>tx_session = gi_session i, tx_actor = actor, tx_actorName = Some (guest_name actor),
         tx_roster_hidden = False, tx_from = None, tx_to = Some (gt_initial_room tpl)\<rparr>,
       gp_creates = [\<lparr>cr_object = actor, cr_name = guest_name actor, cr_parent = Some (gt_parent tpl), cr_owner = gt_owner tpl,
         cr_anchor = None, cr_location = Some (gt_initial_room tpl), cr_flags = JObj [], cr_builder_surface = False, cr_writer = Some writer\<rparr>],
       gp_writes = [genesis_prop writer actor ''description'' (JStr (gt_description tpl)),
         genesis_prop writer actor ''home'' (JStr (gt_home tpl)),
         genesis_prop writer actor PROP_CUSTOMER_OF (guest_customer i),
         session_write (TSession (gi_session i)) (guest_value i) writer],
       gp_moves = [\<lparr>mv_object = actor, mv_from = None, mv_to = gt_initial_room tpl, mv_writer = Some writer\<rparr>]\<rparr>)"

text \<open>\<open>None\<close> is the thrown plain error: a lifetime that is not positive.\<close>

definition provisionGuestSubmit :: "guest_input \<Rightarrow> (net_error + commit_submit \<times> json \<times> string) option" where
  "provisionGuestSubmit i =
     (if gi_ttl_ms i \<le> 0 then None
      else Some (case genesis_submit (guest_parts i)
          (''guest-provision:'' @ gi_session i @ '':'' @ show_int (gi_now i + gi_ttl_ms i)) (gi_epoch i) of
        Inl e \<Rightarrow> Inl e
      | Inr sub \<Rightarrow> Inr (sub, guest_value i, guest_scope i)))"

section \<open>Operator anchors\<close>

definition ANCHOR_OMITTED_CREDENTIAL_FIELDS :: "string list" where
  "ANCHOR_OMITTED_CREDENTIAL_FIELDS = [''password_hash'', ''password_salt'', ''oauth_identities'']"

record anchor_input =
  an_human :: string
  an_account :: string
  an_label :: string
  an_humanClass :: string
  an_accountClass :: string
  an_now :: int
  an_epoch :: string
  an_agentQuota :: int

definition identityAnchorIds :: "string \<Rightarrow> string \<times> string" where
  "identityAnchorIds anchorHex = (''human_op_'' @ anchorHex, ''account_op_'' @ anchorHex)"

definition anchor_scope :: "anchor_input \<Rightarrow> string" where
  "anchor_scope i = ''cluster:'' @ an_human i"

definition anchor_customer :: "anchor_input \<Rightarrow> json" where
  "anchor_customer i = JObj [(''customer'', JStr (an_account i)), (''derived_via'', JStr ''account''), (''bound_at'', JNum (an_now i))]"

definition anchor_parts :: "anchor_input \<Rightarrow> genesis_parts" where
  "anchor_parts i =
     (let human = an_human i; account = an_account i; writer = sessionWriter human ''operator_anchor_provision''; prop = genesis_prop writer in
      \<lparr>gp_id = ''operator-anchor:'' @ human, gp_scope = anchor_scope i, gp_actor = human, gp_verb = ''operator_anchor_provision'',
       gp_session = None, gp_exclusive = False, gp_transition = None,
       gp_creates =
         [\<lparr>cr_object = human, cr_name = an_label i, cr_parent = Some (an_humanClass i), cr_owner = ''$wiz'', cr_anchor = None,
           cr_location = Some ''$nowhere'', cr_flags = JObj [], cr_builder_surface = False, cr_writer = Some writer\<rparr>,
          \<lparr>cr_object = account, cr_name = an_label i, cr_parent = Some (an_accountClass i), cr_owner = ''$wiz'', cr_anchor = Some human,
           cr_location = None, cr_flags = JObj [], cr_builder_surface = False, cr_writer = Some writer\<rparr>],
       gp_writes =
         [prop human ''name'' (JStr (an_label i)), prop human ''account'' (JStr account), prop account ''name'' (JStr (an_label i)),
          prop account ''primary_actor'' (JStr human), prop account ''actors'' (JArr [JStr human]),
          prop account ''agent_quota'' (JNum (an_agentQuota i)), prop account ''programmer_grant_quota'' (JNum 0),
          prop account ''agent_count'' (JNum 0), prop account ''programmer_agent_count'' (JNum 0),
          prop account ''created_at'' (JNum (an_now i)), prop account ''signup_method'' (JStr ''operator_anchor''),
          prop human PROP_CUSTOMER_OF (anchor_customer i)],
       gp_moves = []\<rparr>)"

definition provisionAnchorSubmit :: "anchor_input \<Rightarrow> net_error + commit_submit \<times> string" where
  "provisionAnchorSubmit i = (case genesis_submit (anchor_parts i) (''operator-anchor:'' @ an_human i) (an_epoch i) of
      Inl e \<Rightarrow> Inl e
    | Inr sub \<Rightarrow> Inr (sub, anchor_scope i))"

section \<open>Acceptance of a genesis submit\<close>

definition cell_value :: "cell_store \<Rightarrow> string \<Rightarrow> json option" where
  "cell_value st key = map_option c_value (store_get st key)"

text \<open>The host's callbacks let the submit through: it is authorized, its writers are, and it touches no catalog object.\<close>

definition host_permits :: "scope_options \<Rightarrow> genesis_parts \<Rightarrow> commit_submit \<Rightarrow> bool" where
  "host_permits opts g sub \<longleftrightarrow>
     (case so_authorize opts of None \<Rightarrow> True | Some f \<Rightarrow> (case f sub of Inl _ \<Rightarrow> False | Inr _ \<Rightarrow> True))
   \<and> (case so_writeAuthorized opts of None \<Rightarrow> True | Some f \<Rightarrow> f sub)
   \<and> (case so_catalogMutationForbidden opts of None \<Rightarrow> True
      | Some f \<Rightarrow> list_all (\<lambda>w. \<not> catalog_write_cell (tw_cell w) \<or> \<not> f (cell_object (tw_cell w))) (gp_writes g))"

definition plain_writes :: "genesis_parts \<Rightarrow> bool" where
  "plain_writes g \<longleftrightarrow> list_all (\<lambda>w. tw_writer w \<noteq> None \<and> (case tw_cell w of TVerb _ _ \<Rightarrow> False | _ \<Rightarrow> True)) (gp_writes g)"

lemma genesis_submit_eq:
  assumes "genesis_submit g key epoch = Inr sub"
  shows "cs_scope sub = gp_scope g" "cs_base sub = genesis_base (gp_scope g)" "cs_idempotency_key sub = key"
    "cs_transcript sub = genesis_transcript g" "catalog_epoch (cs_stamp sub) = epoch" "\<not> cs_retry_receipt sub" "\<not> cs_owned_reads_compacted sub"
    "\<exists>applied. applyTranscript (newStore Authority) (genesis_transcript g) \<lparr>scope_head = ''planner'', catalog_epoch = epoch\<rparr> = Inr applied
      \<and> cs_post_state_version sub = ar_postStateVersion applied"
  using assms by (auto simp: genesis_submit_def Let_def split: sum.splits)

lemma catalog_fold_Nil:
  "list_all (\<lambda>w. \<not> catalog_write_cell (tw_cell w) \<or> \<not> f (cell_object (tw_cell w))) ws \<Longrightarrow>
   fold (\<lambda>w m. if catalog_write_cell (tw_cell w) \<and> f (cell_object (tw_cell w))
     then (case netCellKeyFor (tw_cell w) of None \<Rightarrow> m | Some key \<Rightarrow> add_mutation (cell_object (tw_cell w)) key m) else m) ws m = m"
  by (induction ws arbitrary: m) auto

lemma genesis_admitted:
  assumes "genesis_submit g key epoch = Inr sub" "plain_writes g" "host_permits opts g sub"
  shows "admission now (fresh_sequencer (gp_scope g) epoch opts d) sub = None"
proof -
  let ?s = "fresh_sequencer (gp_scope g) epoch opts d"
  note sub = genesis_submit_eq [OF assms(1)]
  obtain proved where auth: "run_authorize ?s sub = Inr proved"
    using assms(3) by (auto simp: run_authorize_def host_permits_def fresh_sequencer_def split: option.splits sum.splits)
  have t: "t_error (genesis_transcript g) = None" "t_recycles (genesis_transcript g) = []" "t_reads (genesis_transcript g) = []"
    "t_writes (genesis_transcript g) = gp_writes g"
    by (simp_all add: genesis_transcript_def)
  have catalog: "check_catalog ?s sub = None"
    using assms(3) catalog_fold_Nil [of _ "gp_writes g"]
    by (simp add: check_catalog_def catalog_mutations_def fresh_sequencer_def sub(4) t host_permits_def Let_def split: option.splits)
  have slots: "check_slots ?s sub = None"
    using assms(2) unfolding check_slots_def first_error_None sub(4) t plain_writes_def list_all_iff slot_refusal_def
    by (auto split: transcript_cell.splits)
  have empty: "store_get (sq_store ?s) k = None" for k by (simp add: fresh_sequencer_def)
  have head: "check_head ?s sub = None"
    by (simp add: check_head_def baseIsCurrentOrRetained_def sub(2,7) genesis_base_def fresh_sequencer_def)
  have writes: "check_writes ?s sub = None"
    using assms(2,3) by (auto simp: check_writes_def host_permits_def plain_writes_def list_all_iff fresh_sequencer_def sub(4) t Let_def split: option.splits)
  have never: "find (\<lambda>_. False) xs = None" for xs :: "'x list" by (induction xs) simp_all
  have "check_principal ?s sub = None" "check_scope ?s sub = None" "check_failure ?s sub = None" "check_allocation ?s sub = None"
    "check_reads ?s proved sub = None" "check_allocation_value ?s sub = None" "check_orderings ?s sub = None"
    "check_tombstones ?s sub = None" "check_recycles ?s sub = None" "check_replays ?s sub = None" "check_creates ?s sub = None"
    "check_schedules ?s sub = None"
    by (simp_all add: admission_defs sub genesis_transcript_def fresh_sequencer_def classifyFailedTranscriptEffects_def Let_def store_has_def
      never)
  then show ?thesis unfolding admission_None
    using auth catalog slots head writes sub(6) by (auto simp: check_capacity_def admission_checks_def)
qed

text \<open>A direct turn has no log entry, so its durable transaction cannot throw.\<close>

lemma direct_accepts:
  assumes ok: "auth_ok (sq_store s)" and key: "jm_get (sq_replies s) (cs_idempotency_key sub) = None"
    and adm: "admission now s sub = None" and direct: "t_route (cs_transcript sub) = Direct"
    and ap: "applyTranscript (sq_store s) (cs_transcript sub)
      (stamp_of (next_head (sq_headState s) (t_hash (cs_transcript sub))) (sq_catalogEpoch s)) = Inr applied"
    and dig: "ar_postStateVersion applied = cs_post_state_version sub" and touched: "ar_touched applied \<noteq> []"
  obtains a s' where "submit now sub s = (Inr (Accepted a), s')" "\<not> ac_replayed a" "ac_head a = sq_headState s'"
    "sq_headState s' = next_head (sq_headState s) (t_hash (cs_transcript sub))"
    "sq_store s' = fold (adopt_key (ar_post applied)) (ar_touched applied) (sq_store s)"
    "credential_actors (cs_transcript sub) = [] \<longrightarrow> sq_apiKeyVerifiers s' = sq_apiKeyVerifiers s"
proof -
  have "recordedReply (cs_idempotency_key sub) now s = (None, s)" by (simp add: recordedReply_def key)
  moreover have "\<not> pure_direct_read (cs_transcript sub) applied" using touched by (simp add: pure_direct_read_def)
  ultimately have run: "submit now sub s = accept_durable sub applied (accept_memory now sub applied s)"
    using adm ap dig by (simp add: submit_def submit_fresh_def)
  obtain out s1 where m: "accept_memory now sub applied s = (out, s1)" by force
  note st = accept_memory_state [OF m]
  have nolog: "ao_logEntry out = None" using m direct by (auto simp: accept_memory_def Let_def split_beta committedLogEntry_def)
  have creds: "credential_actors (cs_transcript sub) = [] \<longrightarrow> sq_apiKeyVerifiers s1 = sq_apiKeyVerifiers s"
    using m by (auto simp: accept_memory_def Let_def split_beta reindex_credentials_def)
  obtain d where "submit now sub s = (Inr (Accepted (ao_reply out)), s1\<lparr>sq_durable := d\<rparr>)"
    using run m nolog by (cases "sq_durable s1") (auto simp: accept_durable_def Let_def, metis sequencer.surjective sequencer.update_convs(16))
  then show ?thesis using that [of "ao_reply out" "s1\<lparr>sq_durable := d\<rparr>"] st(1,2,9,11) creds by simp
qed

text \<open>The cells a genesis transcript leaves on an empty store.\<close>

definition genesis_post :: "genesis_parts \<Rightarrow> apply_state" where
  "genesis_post g = apply_steps (genesis_transcript g) no_stamp \<lparr>ap_post = newStore Authority, ap_touched = [], ap_projection = [], ap_recycled = []\<rparr>"

lemma genesis_apply:
  assumes "applyTranscript (newStore Authority) (genesis_transcript g) stamp = Inr applied"
  shows "ar_touched applied = sort (ap_touched (genesis_post g))" "cell_value (ar_post applied) k = cell_value (ap_post (genesis_post g)) k"
    "ar_postStateVersion applied = postStateVersion (ap_post (genesis_post g)) (sort (ap_touched (genesis_post g)))" "auth_ok (ar_post applied)"
    "k \<notin> set (ar_touched applied) \<Longrightarrow> store_get (ar_post applied) k = None"
proof -
  have new: "unstamp (newStore Authority) = newStore Authority" "store_clone (newStore Authority) = newStore Authority"
    by (simp_all add: unstamp_def newStore_def unstamp_rows_def store_clone_def allCells_def)
  have "Inr (unstamp_result applied) = applyTranscript (newStore Authority) (genesis_transcript g) no_stamp"
    using apply_unstamp [of "newStore Authority" "genesis_transcript g" stamp] assms new(1) by simp
  then have eq: "unstamp_result applied = \<lparr>ar_post = ap_post (genesis_post g), ar_touched = sort (ap_touched (genesis_post g)),
      ar_projectionWrites = ap_projection (genesis_post g), ar_recycledObjects = ap_recycled (genesis_post g),
      ar_postStateVersion = postStateVersion (ap_post (genesis_post g)) (sort (ap_touched (genesis_post g)))\<rparr>"
    by (simp add: applyTranscript_def new(2) Let_def genesis_post_def)
  show "ar_touched applied = sort (ap_touched (genesis_post g))"
    "ar_postStateVersion applied = postStateVersion (ap_post (genesis_post g)) (sort (ap_touched (genesis_post g)))"
    using arg_cong [OF eq, of ar_touched] arg_cong [OF eq, of ar_postStateVersion] by (simp_all add: unstamp_result_def)
  have post: "unstamp (ar_post applied) = ap_post (genesis_post g)" using arg_cong [OF eq, of ar_post] by (simp add: unstamp_result_def)
  show "cell_value (ar_post applied) k = cell_value (ap_post (genesis_post g)) k"
    using unstamp_value [of "ar_post applied" k] unfolding cell_value_def post by simp
  obtain r where r: "applyTranscript (newStore Authority) (genesis_transcript g) stamp = Inr r" "auth_ok (ar_post r)"
    "\<And>key. key \<notin> set (ar_touched r) \<Longrightarrow> store_get (ar_post r) key = store_get (newStore Authority) key"
    using apply_spec [OF auth_ok_new] by metis
  then show "auth_ok (ar_post applied)" "k \<notin> set (ar_touched applied) \<Longrightarrow> store_get (ar_post applied) k = None" using assms by simp_all
qed

text \<open>A genesis submit founds its scope: it is accepted at the next head, with exactly the cells of its transcript.\<close>

lemma genesis_founds:
  assumes "genesis_submit g key epoch = Inr sub" "plain_writes g" "host_permits opts g sub" "ap_touched (genesis_post g) \<noteq> []"
  obtains a s' where "submit now sub (fresh_sequencer (gp_scope g) epoch opts d) = (Inr (Accepted a), s')" "\<not> ac_replayed a"
    "ac_head a = sq_headState s'" "sh_seq (sq_headState s') = 1" "\<forall>k. cell_value (sq_store s') k = cell_value (ap_post (genesis_post g)) k"
    "credential_actors (genesis_transcript g) = [] \<longrightarrow> sq_apiKeyVerifiers s' = []"
proof -
  let ?s = "fresh_sequencer (gp_scope g) epoch opts d"
  note sub = genesis_submit_eq [OF assms(1)]
  have fresh: "sq_store ?s = newStore Authority" "sq_replies ?s = []" "sq_headState ?s = \<lparr>sh_seq = 0, sh_hash = cellVersion (JArr [JStr ''genesis'', JStr (gp_scope g)]), sh_generation = Some 0\<rparr>"
    by (simp_all add: fresh_sequencer_def)
  obtain p where p: "applyTranscript (newStore Authority) (genesis_transcript g) \<lparr>scope_head = ''planner'', catalog_epoch = epoch\<rparr> = Inr p"
    "cs_post_state_version sub = ar_postStateVersion p" using sub(8) by blast
  obtain r where r: "applyTranscript (newStore Authority) (genesis_transcript g)
      (stamp_of (next_head (sq_headState ?s) (t_hash (genesis_transcript g))) (sq_catalogEpoch ?s)) = Inr r" using apply_spec [OF auth_ok_new] by metis
  have dig: "ar_postStateVersion r = cs_post_state_version sub" using p(2) genesis_apply(3) [OF p(1)] genesis_apply(3) [OF r] by simp
  have touched: "ar_touched r \<noteq> []" using assms(4) genesis_apply(1) [OF r] by (metis set_empty set_sort)
  obtain a s' where acc: "submit now sub ?s = (Inr (Accepted a), s')" "\<not> ac_replayed a" "ac_head a = sq_headState s'"
    "sq_headState s' = next_head (sq_headState ?s) (t_hash (cs_transcript sub))"
    "sq_store s' = fold (adopt_key (ar_post r)) (ar_touched r) (sq_store ?s)"
    "credential_actors (cs_transcript sub) = [] \<longrightarrow> sq_apiKeyVerifiers s' = sq_apiKeyVerifiers ?s"
    by (rule direct_accepts [of ?s sub now r])
      (use genesis_admitted [OF assms(1-3)] dig touched r in \<open>simp_all add: fresh auth_ok_new sub(4) genesis_transcript_def\<close>)
  have "store_get (sq_store s') k = store_get (ar_post r) k" for k
    using adopt_keys_spec [OF auth_ok_new genesis_apply(4) [OF r], of "ar_touched r" k] genesis_apply(5) [OF r, of k] by (simp add: acc(5) fresh(1))
  then have "cell_value (sq_store s') k = cell_value (ap_post (genesis_post g)) k" for k
    using genesis_apply(2) [OF r, of k] by (simp add: cell_value_def)
  moreover have "sh_seq (sq_headState s') = 1" by (simp add: acc(4) next_head_def fresh(3))
  moreover have "credential_actors (genesis_transcript g) = [] \<longrightarrow> sq_apiKeyVerifiers s' = []"
    using acc(6) by (simp add: sub(4) fresh_sequencer_def)
  ultimately show ?thesis using that acc by blast
qed

section \<open>Guests are born whole\<close>

lemmas genesis_eval = genesis_post_def genesis_transcript_def apply_steps_def apply_create_def apply_write_def apply_move_def write_effect_def
  finalNetWritesByCell_def finalWritesByCell_def genesis_prop_def session_write_def touch_def on_post_def js_add_def Let_def
  put_cell_eq propertyCellDef_def makeCell_def cell_value_def

lemma guest_plain: "plain_writes (guest_parts i)"
  by (simp add: plain_writes_def guest_parts_def Let_def genesis_prop_def session_write_def)

lemma guest_authorized:
  assumes "genesis_submit (guest_parts i) key epoch = Inr sub" "dp_now deps < gi_now i + gi_ttl_ms i"
    "dp_sessionsForActor deps = Some f" "\<forall>(sid, v) \<in> set (f (gi_actor i)). sid = gi_session i \<or> validateSessionCell (Some v) (dp_now deps) None \<noteq> S_ok"
  shows "authorizeSessionSubmit sub deps = Inr []"
proof -
  have t: "cs_transcript sub = genesis_transcript (guest_parts i)" by (rule genesis_submit_eq(4) [OF assms(1)])
  have ids: "session_ids (genesis_transcript (guest_parts i)) = (if gi_session i = [] then [] else [gi_session i])"
    by (simp add: session_ids_def genesis_transcript_def guest_parts_def Let_def js_add_def map_filter_simps)
  have mint: "mint_map (genesis_transcript (guest_parts i)) = [(gi_session i, session_write (TSession (gi_session i)) (guest_value i) (sessionWriter (gi_actor i) ''guest_provision''))]"
    by (simp add: mint_map_def genesis_transcript_def guest_parts_def Let_def genesis_prop_def session_write_def)
  have valid: "validateSessionCell (Some (guest_value i)) (dp_now deps) (Some (gi_actor i)) = S_ok"
    using assms(2) by (simp add: validateSessionCell_def guest_value_def)
  have excl: "exclusive_refusal deps (genesis_transcript (guest_parts i)) (gi_session i) = None"
    using assms(3,4) by (auto simp: exclusive_refusal_def genesis_transcript_def guest_parts_def Let_def list_ex_iff)
  have "read_of_session (genesis_transcript (guest_parts i)) (gi_session i) = None" by (simp add: read_of_session_def genesis_transcript_def)
  moreover have "t_sessionClose (genesis_transcript (guest_parts i)) = False" "tk_actor (t_call (genesis_transcript (guest_parts i))) = gi_actor i"
    "t_route (genesis_transcript (guest_parts i)) = Direct"
    by (simp_all add: genesis_transcript_def guest_parts_def Let_def)
  ultimately show ?thesis unfolding authorizeSessionSubmit_def Let_def t ids
    by (simp add: authorize_one_def mint t authorize_mint_def valid require_ok_def excl session_write_def)
qed

lemma guest_cells:
  "ap_touched (genesis_post (guest_parts i)) \<noteq> []"
  "cell_value (ap_post (genesis_post (guest_parts i))) (sessionCellKey (gi_session i)) = Some (guest_value i)"
  "cell_value (ap_post (genesis_post (guest_parts i))) (cellKey Object_lineage (gi_actor i) None) =
     Some (JObj [(''parent'', JStr (gt_parent (gi_template i))), (''owner'', JStr (gt_owner (gi_template i))),
       (''name'', JStr (guest_name (gi_actor i))), (''anchor'', JNull), (''flags'', JObj [])])"
  "cell_value (ap_post (genesis_post (guest_parts i))) (cellKey Object_live (gi_actor i) None) =
     Some (JObj [(''location'', JStr (gt_initial_room (gi_template i)))])"
  "cell_value (ap_post (genesis_post (guest_parts i))) (cellKey Property_cell (gi_actor i) (Some PROP_CUSTOMER_OF)) =
     Some (JObj [(''value'', guest_customer i)])"
  by (simp_all add: genesis_eval guest_parts_def PROP_CUSTOMER_OF_def sessionCellKey_def cellKey_def json_of_ref_def propertyCellPayload_def
    spread_set_def)

lemma provision_guest_parts:
  assumes "provisionGuestSubmit i = Some (Inr (sub, v, scope))"
  obtains key where "genesis_submit (guest_parts i) key (gi_epoch i) = Inr sub" "v = guest_value i" "scope = gp_scope (guest_parts i)"
proof -
  define key where "key = ''guest-provision:'' @ gi_session i @ '':'' @ show_int (gi_now i + gi_ttl_ms i)"
  have sc: "gp_scope (guest_parts i) = guest_scope i" by (simp add: guest_parts_def Let_def)
  have p: "\<not> gi_ttl_ms i \<le> 0" "(case genesis_submit (guest_parts i) key (gi_epoch i) of Inl e \<Rightarrow> Inl e
      | Inr sub \<Rightarrow> Inr (sub, guest_value i, guest_scope i)) = Inr (sub, v, scope)"
    using assms unfolding provisionGuestSubmit_def key_def [symmetric] by (simp_all only: option.inject option.distinct not_False_eq_True split: if_splits)
  show ?thesis
  proof (cases "genesis_submit (guest_parts i) key (gi_epoch i)")
    case (Inl e)
    show ?thesis using p(2) unfolding Inl sum.case by (rule sum.distinct(1) [THEN notE])
  next
    case (Inr sub')
    have "sub' = sub \<and> guest_value i = v \<and> guest_scope i = scope" using p(2) unfolding Inr sum.case by (simp only: sum.inject prod.inject)
    then show ?thesis by (intro that [of key]) (simp_all only: Inr sc)
  qed
qed

text \<open>
  C13: a guest is born whole, in one commit. A provision with a positive lifetime yields a submit that the
  fresh sequencer of the guest's cluster accepts as its first commit, under session authorization with an
  occupancy witness that shows no other live session of the actor. Afterwards the actor exists with the
  template's class and owner, stands in the initial room, is attributed to the guest customer from birth,
  and its session is valid for it until exactly the end of its lifetime.
\<close>

theorem guest_provision_lands:
  assumes "provisionGuestSubmit i = Some (Inr (sub, v, scope))"
    "so_authorize opts = Some (\<lambda>sb. authorizeSessionSubmit sb deps)" "dp_now deps < gi_now i + gi_ttl_ms i"
    "dp_sessionsForActor deps = Some f"
    "\<forall>(sid, w) \<in> set (f (gi_actor i)). sid = gi_session i \<or> validateSessionCell (Some w) (dp_now deps) None \<noteq> S_ok"
    "case so_writeAuthorized opts of None \<Rightarrow> True | Some ok \<Rightarrow> ok sub"
    "case so_catalogMutationForbidden opts of None \<Rightarrow> True | Some no \<Rightarrow> \<not> no (gi_actor i)"
  shows "\<exists>a s'. submit now sub (fresh_sequencer scope (gi_epoch i) opts d) = (Inr (Accepted a), s') \<and> \<not> ac_replayed a
    \<and> sh_seq (ac_head a) = 1 \<and> ac_head a = sq_headState s'
    \<and> cell_value (sq_store s') (cellKey Object_lineage (gi_actor i) None) =
        Some (JObj [(''parent'', JStr (gt_parent (gi_template i))), (''owner'', JStr (gt_owner (gi_template i))),
          (''name'', JStr (guest_name (gi_actor i))), (''anchor'', JNull), (''flags'', JObj [])])
    \<and> cell_value (sq_store s') (cellKey Object_live (gi_actor i) None) = Some (JObj [(''location'', JStr (gt_initial_room (gi_template i)))])
    \<and> cell_value (sq_store s') (cellKey Property_cell (gi_actor i) (Some PROP_CUSTOMER_OF)) = Some (JObj [(''value'', guest_customer i)])
    \<and> cell_value (sq_store s') (sessionCellKey (gi_session i)) = Some v
    \<and> (\<forall>t. validateSessionCell (Some v) t (Some (gi_actor i)) = S_ok \<longleftrightarrow> t < gi_now i + gi_ttl_ms i)"
proof -
  obtain key where g: "genesis_submit (guest_parts i) key (gi_epoch i) = Inr sub" and v: "v = guest_value i" "scope = gp_scope (guest_parts i)"
    by (rule provision_guest_parts [OF assms(1)])
  have "list_all (\<lambda>w. \<not> catalog_write_cell (tw_cell w) \<or> \<not> no (cell_object (tw_cell w))) (gp_writes (guest_parts i))"
    if "\<not> no (gi_actor i)" for no
    using that by (simp add: guest_parts_def Let_def genesis_prop_def session_write_def)
  then have permits: "host_permits opts (guest_parts i) sub"
    using guest_authorized [OF g assms(3-5)] assms(2,6,7) by (auto simp: host_permits_def split: option.splits)
  have valid: "validateSessionCell (Some v) t (Some (gi_actor i)) = S_ok \<longleftrightarrow> t < gi_now i + gi_ttl_ms i" for t
    by (auto simp: validateSessionCell_def guest_value_def v(1))
  obtain a s' where s': "submit now sub (fresh_sequencer (gp_scope (guest_parts i)) (gi_epoch i) opts d) = (Inr (Accepted a), s')" "\<not> ac_replayed a"
    "ac_head a = sq_headState s'" "sh_seq (sq_headState s') = 1" "\<forall>k. cell_value (sq_store s') k = cell_value (ap_post (genesis_post (guest_parts i))) k"
    by (rule genesis_founds [OF g guest_plain permits guest_cells(1), where now = now and d = d])
  show ?thesis
    by (intro exI [of _ a] exI [of _ s']) (use s' valid in \<open>simp add: v guest_cells(2-5)\<close>)
qed

definition demo_guest :: guest_input where
  "demo_guest = \<lparr>gi_actor = ''guest_1'', gi_session = ''s1'', gi_ttl_ms = 60000, gi_now = 5, gi_epoch = ''e1'',
     gi_template = \<lparr>gt_parent = ''$guest'', gt_owner = ''$wiz'', gt_description = ''A guest.'', gt_home = ''lounge'', gt_initial_room = ''lounge'',
       gt_reset_definer = ''$guest'', gt_reset_verb = ''reset'', gt_maintenance_principal = ''$wiz''\<rparr>\<rparr>"

theorem guest_provision_lands_witness:
  "\<exists>sub v scope opts a s'. provisionGuestSubmit demo_guest = Some (Inr (sub, v, scope))
    \<and> submit 6 sub (fresh_sequencer scope ''e1'' opts None) = (Inr (Accepted a), s') \<and> sh_seq (ac_head a) = 1
    \<and> cell_value (sq_store s') (sessionCellKey ''s1'') = Some v"
proof -
  let ?deps = "demo_deps\<lparr>dp_sessionsForActor := Some (\<lambda>_. [])\<rparr>"
  let ?opts = "default_options\<lparr>so_authorize := Some (\<lambda>sb. authorizeSessionSubmit sb ?deps)\<rparr>"
  obtain r where "applyTranscript (newStore Authority) (genesis_transcript (guest_parts demo_guest)) \<lparr>scope_head = ''planner'', catalog_epoch = ''e1''\<rparr> = Inr r"
    using apply_spec [OF auth_ok_new] by metis
  then obtain sub where p: "provisionGuestSubmit demo_guest = Some (Inr (sub, guest_value demo_guest, guest_scope demo_guest))"
    by (simp add: provisionGuestSubmit_def genesis_submit_def Let_def demo_guest_def)
  have "\<exists>a s'. submit 6 sub (fresh_sequencer (guest_scope demo_guest) (gi_epoch demo_guest) ?opts None) = (Inr (Accepted a), s') \<and> sh_seq (ac_head a) = 1
      \<and> cell_value (sq_store s') (sessionCellKey (gi_session demo_guest)) = Some (guest_value demo_guest)"
    using guest_provision_lands [OF p, of ?opts ?deps "\<lambda>_. []" 6 None] by (simp add: demo_guest_def demo_deps_def default_options_def) blast
  then show ?thesis using p by (auto simp: demo_guest_def)
qed

section \<open>Anchors carry no credential\<close>

lemma anchor_plain: "plain_writes (anchor_parts i)"
  by (simp add: plain_writes_def anchor_parts_def Let_def genesis_prop_def session_write_def)

lemma anchor_uncredentialed: "credential_actors (genesis_transcript (anchor_parts i)) = []"
  by (simp add: credential_actors_def genesis_transcript_def anchor_parts_def Let_def genesis_prop_def session_write_def map_filter_simps
    ACTOR_API_KEYS_PROPERTY_def PROP_CUSTOMER_OF_def)

text \<open>Property writes to fresh keys, one after the other.\<close>

definition prop_key :: "transcript_write \<Rightarrow> string" where
  "prop_key w = (case tw_cell w of TProp obj nm \<Rightarrow> cellKey Property_cell obj (Some nm) | _ \<Rightarrow> [])"

definition prop_rows :: "transcript_write list \<Rightarrow> (string \<times> json) list" where
  "prop_rows ws = map (\<lambda>w. (prop_key w, JObj [(''value'', tw_value w)])) ws"

definition prop_set :: "transcript_write \<Rightarrow> bool" where
  "prop_set w \<longleftrightarrow> tw_op w = Op_set \<and> (case tw_cell w of TProp _ _ \<Rightarrow> True | _ \<Rightarrow> False)"

lemma prop_writes_values:
  assumes "list_all prop_set ws" "distinct (map prop_key ws)" "\<forall>k \<in> prop_key ` set ws. cell_value (ap_post st) k = None" "st_role (ap_post st) = Authority"
  shows "cell_value (ap_post (fold (apply_write t stamp) ws st)) k = (case map_of (prop_rows ws) k of Some v \<Rightarrow> Some v | None \<Rightarrow> cell_value (ap_post st) k)"
  using assms
proof (induction ws arbitrary: st)
  case (Cons w ws)
  obtain obj nm where w: "tw_cell w = TProp obj nm" "tw_op w = Op_set" "prop_key w = cellKey Property_cell obj (Some nm)"
    using Cons.prems(1) by (auto simp: prop_set_def prop_key_def split: transcript_cell.splits)
  have none: "store_get (ap_post st) (cellKey Property_cell obj (Some nm)) = None" using Cons.prems(3) w(3) by (simp add: cell_value_def)
  have st: "ap_post (apply_write t stamp w st) = setCell (makeCell Property_cell obj (Some nm) (JObj [(''value'', tw_value w)]) Authoritative stamp) (ap_post st)"
    using none Cons.prems(4) by (simp add: apply_write_def w(1,2) write_effect_def Let_def touch_def on_post_def put_cell_eq propertyCellDef_def propertyCellPayload_def)
  have get: "cell_value (ap_post (apply_write t stamp w st)) k = (if k = prop_key w then Some (JObj [(''value'', tw_value w)]) else cell_value (ap_post st) k)" for k
    by (simp add: cell_value_def st makeCell_def w(3))
  have "cell_value (ap_post (fold (apply_write t stamp) ws (apply_write t stamp w st))) k
      = (case map_of (prop_rows ws) k of Some v \<Rightarrow> Some v | None \<Rightarrow> cell_value (ap_post (apply_write t stamp w st)) k)"
  proof (rule Cons.IH)
    show "\<forall>k \<in> prop_key ` set ws. cell_value (ap_post (apply_write t stamp w st)) k = None" using Cons.prems(2,3) unfolding get by (metis distinct.simps(2) image_eqI imageE list.set_intros(2) list.simps(9) set_map)
    show "st_role (ap_post (apply_write t stamp w st)) = Authority" using Cons.prems(4) by (simp add: st)
  qed (use Cons.prems in simp_all)
  moreover have "map_of (prop_rows ws) (prop_key w) = None" using Cons.prems(2) by (auto simp: prop_rows_def map_of_eq_None_iff)
  ultimately show ?case by (auto simp: get prop_rows_def split: option.split)
qed (simp add: prop_rows_def)

lemma jm_of_distinct: "distinct (map f xs) \<Longrightarrow> set (map f xs) \<inter> fst ` set m = {} \<Longrightarrow> fold (\<lambda>x m. jm_set (f x) x m) xs m = m @ map (\<lambda>x. (f x, x)) xs"
proof (induction xs arbitrary: m)
  case (Cons x xs)
  have "jm_set (f x) x m = m @ [(f x, x)]" using Cons.prems(2) by (induction m) auto
  then show ?case using Cons.IH [of "m @ [(f x, x)]"] Cons.prems by simp
qed simp

lemma final_prop_writes:
  assumes "list_all prop_set (gp_writes g)" "distinct (map tw_cell (gp_writes g))"
  shows "finalNetWritesByCell (genesis_transcript g) = gp_writes g"
proof -
  have "\<not> is_session_cell (tw_cell w)" if "w \<in> set (gp_writes g)" for w
    using assms(1) that unfolding list_all_iff prop_set_def by (cases "tw_cell w") (fastforce split: transcript_cell.splits)+
  then have "filter (\<lambda>w. is_session_cell (tw_cell w)) (gp_writes g) = []" "filter (\<lambda>w. \<not> is_session_cell (tw_cell w)) (gp_writes g) = gp_writes g"
    by (simp_all add: filter_empty_conv filter_id_conv)
  then show ?thesis using jm_of_distinct [OF assms(2), of "[]"]
    by (simp add: finalNetWritesByCell_def genesis_transcript_def Let_def finalWritesByCell_def comp_def)
qed

lemma anchor_values:
  fixes hex :: string and i :: anchor_input
  assumes ids: "an_human i = ''human_op_'' @ hex" "an_account i = ''account_op_'' @ hex"
  shows "list_all prop_set (gp_writes (anchor_parts i))" "distinct (map prop_key (gp_writes (anchor_parts i)))"
    "distinct (map tw_cell (gp_writes (anchor_parts i)))"
  by (simp_all add: anchor_parts_def Let_def genesis_prop_def session_write_def prop_set_def prop_key_def cellKey_def PROP_CUSTOMER_OF_def ids)

definition anchor_created :: "anchor_input \<Rightarrow> apply_state" where
  "anchor_created i = fold (apply_create no_stamp) (gp_creates (anchor_parts i))
     \<lparr>ap_post = newStore Authority, ap_touched = [], ap_projection = [], ap_recycled = []\<rparr>"

lemma anchor_lineages:
  fixes hex :: string and i :: anchor_input
  assumes ids: "an_human i = ''human_op_'' @ hex" "an_account i = ''account_op_'' @ hex"
  shows "cell_value (ap_post (anchor_created i)) k =
    (if k = cellKey Object_lineage (an_human i) None then Some (JObj [(''parent'', JStr (an_humanClass i)), (''owner'', JStr ''$wiz''),
        (''name'', JStr (an_label i)), (''anchor'', JNull), (''flags'', JObj [])])
     else if k = cellKey Object_live (an_human i) None then Some (JObj [(''location'', JStr ''$nowhere'')])
     else if k = cellKey Object_lineage (an_account i) None then Some (JObj [(''parent'', JStr (an_accountClass i)), (''owner'', JStr ''$wiz''),
        (''name'', JStr (an_label i)), (''anchor'', JStr (an_human i)), (''flags'', JObj [])])
     else if k = cellKey Object_live (an_account i) None then Some (JObj [(''location'', JNull)]) else None)"
  "st_role (ap_post (anchor_created i)) = Authority" "cellKey Object_lineage (an_human i) None \<in> set (ap_touched (anchor_created i))"
  by (simp_all add: anchor_created_def anchor_parts_def Let_def apply_create_def touch_def on_post_def put_cell_eq makeCell_def cell_value_def json_of_ref_def
    cellKey_def ids js_add_def)

lemma anchor_cells:
  fixes hex :: string and i :: anchor_input
  assumes "identityAnchorIds hex = (an_human i, an_account i)"
  shows "ap_touched (genesis_post (anchor_parts i)) \<noteq> []"
    and "cell_value (ap_post (genesis_post (anchor_parts i))) k = (case map_of (prop_rows (gp_writes (anchor_parts i))) k of
      Some v \<Rightarrow> Some v | None \<Rightarrow> cell_value (ap_post (anchor_created i)) k)"
proof -
  have ids: "an_human i = ''human_op_'' @ hex" "an_account i = ''account_op_'' @ hex" using assms by (simp_all add: identityAnchorIds_def)
  note vals = anchor_values [OF ids] and made = anchor_lineages [OF ids]
  have post: "genesis_post (anchor_parts i) = fold (apply_write (genesis_transcript (anchor_parts i)) no_stamp) (gp_writes (anchor_parts i)) (anchor_created i)"
  proof -
    have "t_creates (genesis_transcript (anchor_parts i)) = gp_creates (anchor_parts i)" "t_moves (genesis_transcript (anchor_parts i)) = []"
      "t_recycles (genesis_transcript (anchor_parts i)) = []"
      by (simp_all add: genesis_transcript_def anchor_parts_def Let_def)
    then show ?thesis by (simp add: genesis_post_def apply_steps_def final_prop_writes [OF vals(1,3)] anchor_created_def)
  qed
  have step: "set (ap_touched st) \<subseteq> set (ap_touched (apply_write t stamp w st))" for t stamp w st
    by (auto simp: apply_write_def touch_def on_post_def split: option.splits)
  have "set (ap_touched st) \<subseteq> set (ap_touched (fold (apply_write t stamp) ws st))" for t stamp ws st
    using step by (induction ws arbitrary: st) (simp, metis fold_simps(2) subset_trans)
  then show "ap_touched (genesis_post (anchor_parts i)) \<noteq> []" using made(3) unfolding post by (metis empty_iff empty_set subsetD)
  have "\<forall>k \<in> prop_key ` set (gp_writes (anchor_parts i)). cell_value (ap_post (anchor_created i)) k = None"
    unfolding made(1) by (simp add: anchor_parts_def Let_def genesis_prop_def session_write_def prop_key_def cellKey_def)
  from prop_writes_values [OF vals(1,2) this made(2)]
  show "cell_value (ap_post (genesis_post (anchor_parts i))) k = (case map_of (prop_rows (gp_writes (anchor_parts i))) k of
      Some v \<Rightarrow> Some v | None \<Rightarrow> cell_value (ap_post (anchor_created i)) k)" unfolding post .
qed

text \<open>The facts of the anchored pair, read off the rows.\<close>

lemma anchor_facts:
  fixes hex :: string and i :: anchor_input
  defines "st \<equiv> ap_post (genesis_post (anchor_parts i))"
  assumes anchor: "identityAnchorIds hex = (an_human i, an_account i)"
  shows "jprop (cell_value st (cellKey Object_lineage (an_human i) None)) ''anchor'' = Some JNull"
    and "jprop (cell_value st (cellKey Object_lineage (an_account i) None)) ''anchor'' = Some (JStr (an_human i))"
    and "cell_value st (cellKey Property_cell (an_human i) (Some ''account'')) = Some (JObj [(''value'', JStr (an_account i))])"
    and "cell_value st (cellKey Property_cell (an_account i) (Some ''primary_actor'')) = Some (JObj [(''value'', JStr (an_human i))])"
    and "cell_value st (cellKey Property_cell (an_human i) (Some PROP_CUSTOMER_OF)) = Some (JObj [(''value'', anchor_customer i)])"
    and "field \<in> set (ACTOR_API_KEYS_PROPERTY # ANCHOR_OMITTED_CREDENTIAL_FIELDS) \<Longrightarrow>
      cell_value st (cellKey Property_cell (an_account i) (Some field)) = None \<and> cell_value st (cellKey Property_cell (an_human i) (Some field)) = None"
    and "cell_value st (sessionCellKey session) = None"
proof -
  have ids: "an_human i = ''human_op_'' @ hex" "an_account i = ''account_op_'' @ hex" using anchor by (simp_all add: identityAnchorIds_def)
  note get = st_def anchor_cells(2) [OF anchor] anchor_lineages(1) [OF ids]
  note eval = prop_rows_def prop_key_def anchor_parts_def Let_def genesis_prop_def session_write_def
    cellKey_def PROP_CUSTOMER_OF_def sessionCellKey_def ids ACTOR_API_KEYS_PROPERTY_def ANCHOR_OMITTED_CREDENTIAL_FIELDS_def
  show "jprop (cell_value st (cellKey Object_lineage (an_human i) None)) ''anchor'' = Some JNull"
    "jprop (cell_value st (cellKey Object_lineage (an_account i) None)) ''anchor'' = Some (JStr (an_human i))"
    "cell_value st (cellKey Property_cell (an_human i) (Some ''account'')) = Some (JObj [(''value'', JStr (an_account i))])"
    "cell_value st (cellKey Property_cell (an_account i) (Some ''primary_actor'')) = Some (JObj [(''value'', JStr (an_human i))])"
    "cell_value st (cellKey Property_cell (an_human i) (Some PROP_CUSTOMER_OF)) = Some (JObj [(''value'', anchor_customer i)])"
    "cell_value st (sessionCellKey session) = None"
    unfolding get by (simp_all add: eval)
  show "cell_value st (cellKey Property_cell (an_account i) (Some field)) = None \<and> cell_value st (cellKey Property_cell (an_human i) (Some field)) = None"
    if "field \<in> set (ACTOR_API_KEYS_PROPERTY # ANCHOR_OMITTED_CREDENTIAL_FIELDS)"
  proof -
    have "field \<notin> {''name'', ''account'', ''customer_of'', ''primary_actor'', ''actors'', ''agent_quota'', ''programmer_grant_quota'', ''agent_count'',
        ''programmer_agent_count'', ''created_at'', ''signup_method''}"
      using that unfolding ACTOR_API_KEYS_PROPERTY_def ANCHOR_OMITTED_CREDENTIAL_FIELDS_def by auto
    then show ?thesis unfolding get by (simp add: eval)
  qed
qed

text \<open>
  C14: an operator anchor exists and nothing can authenticate as it. The provision for derived
  identifiers is accepted as the first commit of the human's cluster, whatever sessions exist, and leaves
  the human as the anchorless root with its account anchored to it and bound both ways, attributed to the
  account from birth. No password, salt, external identity or API key cell exists on either object, no
  session cell exists, and the verifier index of the scope is empty.
\<close>

theorem anchor_provision_inert:
  assumes "provisionAnchorSubmit i = Inr (sub, scope)" "identityAnchorIds hex = (an_human i, an_account i)"
    "so_authorize opts = Some (\<lambda>sb. authorizeSessionSubmit sb deps)"
    "case so_writeAuthorized opts of None \<Rightarrow> True | Some ok \<Rightarrow> ok sub"
    "case so_catalogMutationForbidden opts of None \<Rightarrow> True | Some no \<Rightarrow> \<not> no (an_human i) \<and> \<not> no (an_account i)"
  shows "\<exists>a s'. submit now sub (fresh_sequencer scope (an_epoch i) opts d) = (Inr (Accepted a), s') \<and> \<not> ac_replayed a
    \<and> sh_seq (ac_head a) = 1 \<and> ac_head a = sq_headState s'
    \<and> jprop (cell_value (sq_store s') (cellKey Object_lineage (an_human i) None)) ''anchor'' = Some JNull
    \<and> jprop (cell_value (sq_store s') (cellKey Object_lineage (an_account i) None)) ''anchor'' = Some (JStr (an_human i))
    \<and> cell_value (sq_store s') (cellKey Property_cell (an_human i) (Some ''account'')) = Some (JObj [(''value'', JStr (an_account i))])
    \<and> cell_value (sq_store s') (cellKey Property_cell (an_account i) (Some ''primary_actor'')) = Some (JObj [(''value'', JStr (an_human i))])
    \<and> cell_value (sq_store s') (cellKey Property_cell (an_human i) (Some PROP_CUSTOMER_OF)) = Some (JObj [(''value'', anchor_customer i)])
    \<and> (\<forall>field \<in> set (ACTOR_API_KEYS_PROPERTY # ANCHOR_OMITTED_CREDENTIAL_FIELDS).
        cell_value (sq_store s') (cellKey Property_cell (an_account i) (Some field)) = None
        \<and> cell_value (sq_store s') (cellKey Property_cell (an_human i) (Some field)) = None)
    \<and> (\<forall>session. cell_value (sq_store s') (sessionCellKey session) = None) \<and> sq_apiKeyVerifiers s' = []"
proof -
  have g: "genesis_submit (anchor_parts i) (''operator-anchor:'' @ an_human i) (an_epoch i) = Inr sub" and sc: "scope = anchor_scope i"
    using assms(1) by (auto simp: provisionAnchorSubmit_def split: sum.splits)
  have t: "cs_transcript sub = genesis_transcript (anchor_parts i)" by (rule genesis_submit_eq(4) [OF g])
  have scope: "gp_scope (anchor_parts i) = scope" by (simp add: sc anchor_parts_def Let_def)
  have auth: "authorizeSessionSubmit sub deps = Inr []"
    by (simp add: authorizeSessionSubmit_def Let_def t session_ids_def genesis_transcript_def anchor_parts_def map_filter_simps)
  have "list_all (\<lambda>w. \<not> catalog_write_cell (tw_cell w) \<or> \<not> no (cell_object (tw_cell w))) (gp_writes (anchor_parts i))"
    if "\<not> no (an_human i) \<and> \<not> no (an_account i)" for no
    using that by (simp add: anchor_parts_def Let_def genesis_prop_def session_write_def)
  then have permits: "host_permits opts (anchor_parts i) sub" using auth assms(3-5) by (auto simp: host_permits_def split: option.splits)
  note cells = anchor_facts [OF assms(2)]
  obtain a s' where s': "submit now sub (fresh_sequencer scope (an_epoch i) opts d) = (Inr (Accepted a), s')" "\<not> ac_replayed a"
    "ac_head a = sq_headState s'" "sh_seq (sq_headState s') = 1" "\<forall>k. cell_value (sq_store s') k = cell_value (ap_post (genesis_post (anchor_parts i))) k"
    "credential_actors (genesis_transcript (anchor_parts i)) = [] \<longrightarrow> sq_apiKeyVerifiers s' = []"
    by (rule genesis_founds [OF g anchor_plain permits anchor_cells(1) [OF assms(2)], where now = now and d = d, unfolded scope])
  show ?thesis
    by (intro exI [of _ a] exI [of _ s'] conjI ballI) (use s' anchor_uncredentialed cells in \<open>simp_all\<close>)
qed

definition demo_anchor :: anchor_input where
  "demo_anchor = \<lparr>an_human = ''human_op_ab'', an_account = ''account_op_ab'', an_label = ''Ops'', an_humanClass = ''$human'', an_accountClass = ''$account'',
     an_now = 5, an_epoch = ''e1'', an_agentQuota = 4\<rparr>"

theorem anchor_provision_inert_witness:
  "\<exists>sub scope opts a s'. provisionAnchorSubmit demo_anchor = Inr (sub, scope)
    \<and> submit 6 sub (fresh_sequencer scope ''e1'' opts None) = (Inr (Accepted a), s')
    \<and> cell_value (sq_store s') (cellKey Property_cell ''account_op_ab'' (Some ''password_hash'')) = None \<and> sq_apiKeyVerifiers s' = []"
proof -
  let ?opts = "default_options\<lparr>so_authorize := Some (\<lambda>sb. authorizeSessionSubmit sb demo_deps)\<rparr>"
  obtain r where "applyTranscript (newStore Authority) (genesis_transcript (anchor_parts demo_anchor)) \<lparr>scope_head = ''planner'', catalog_epoch = ''e1''\<rparr> = Inr r"
    using apply_spec [OF auth_ok_new] by metis
  then obtain sub where p: "provisionAnchorSubmit demo_anchor = Inr (sub, anchor_scope demo_anchor)"
    by (simp add: provisionAnchorSubmit_def genesis_submit_def Let_def demo_anchor_def)
  have field: "''password_hash'' \<in> set (ACTOR_API_KEYS_PROPERTY # ANCHOR_OMITTED_CREDENTIAL_FIELDS)" by (simp add: ANCHOR_OMITTED_CREDENTIAL_FIELDS_def)
  have h: "identityAnchorIds ''ab'' = (an_human demo_anchor, an_account demo_anchor)" by (simp add: identityAnchorIds_def demo_anchor_def)
  have o: "so_authorize ?opts = Some (\<lambda>sb. authorizeSessionSubmit sb demo_deps)" by simp
  have w: "case so_writeAuthorized ?opts of None \<Rightarrow> True | Some ok \<Rightarrow> ok sub" by (simp add: default_options_def)
  have c: "case so_catalogMutationForbidden ?opts of None \<Rightarrow> True | Some no \<Rightarrow> \<not> no (an_human demo_anchor) \<and> \<not> no (an_account demo_anchor)"
    by (simp add: default_options_def)
  from anchor_provision_inert [OF p h o w c, of 6 None] obtain a s' where
    s': "submit 6 sub (fresh_sequencer (anchor_scope demo_anchor) (an_epoch demo_anchor) ?opts None) = (Inr (Accepted a), s')"
    "\<forall>field \<in> set (ACTOR_API_KEYS_PROPERTY # ANCHOR_OMITTED_CREDENTIAL_FIELDS).
        cell_value (sq_store s') (cellKey Property_cell (an_account demo_anchor) (Some field)) = None
        \<and> cell_value (sq_store s') (cellKey Property_cell (an_human demo_anchor) (Some field)) = None" "sq_apiKeyVerifiers s' = []"
    by (elim exE conjE) metis
  have "an_account demo_anchor = ''account_op_ab''" "an_epoch demo_anchor = ''e1''" by (simp_all add: demo_anchor_def)
  with p s'(1,3) bspec [OF s'(2) field] show ?thesis by metis
qed

end
