(* ===== verification/Identity_Export.thy ===== *)
theory Identity_Export
  imports Api_Keys
begin

text \<open>
  The identity carry of a cutover, export side (\<open>src/net/identity.ts\<close>): the walk over a serialized
  world that selects the accounts and acting principals to carry, closes the selection under the owners
  of agents, and writes their identity properties; and the shape check of the file it produces. The
  import side works on the live object world and is not modelled. The clock and the host's collation
  are parameters.
\<close>

section \<open>The serialized world\<close>

text \<open>The fields of \<open>SerializedObject\<close> the walk reads.\<close>

record serialized_object =
  so_id :: string
  so_name :: string
  so_parent :: "string option"
  so_owner :: string
  so_anchor :: "string option"
  so_flags :: json
  so_properties :: "(string \<times> json) list"

type_synonym object_map = "(string, serialized_object) jsmap"

definition IDENTITY_PROPS :: "string list" where
  "IDENTITY_PROPS = [''name'', ''account'', ''created_via'', ''profile_id'', ''password_salt'', ''password_hash'', ''email'',
     ''deactivated_at'', ''primary_actor'', ''actors'', ''last_seen_at'', ''features'', ''features_version'', ''api_keys'']"

record identity_actor_export =
  ie_id :: string
  ie_parent :: string
  ie_name :: string
  ie_owner :: string
  ie_anchor :: "string option"
  ie_flags :: json
  ie_props :: "(string \<times> json) list"

record identity_export =
  ix_exported_at :: int
  ix_api_keys :: "(string \<times> json) list"
  ix_actors :: "identity_actor_export list"

definition object_map_of :: "serialized_object list \<Rightarrow> object_map" where
  "object_map_of objs = fold (\<lambda>obj m. jm_set (so_id obj) obj m) objs []"

text \<open>\<open>new Map(obj.properties)\<close>: the last entry of a name wins.\<close>

definition propsOf :: "serialized_object \<Rightarrow> (string, json) jsmap" where
  "propsOf obj = fold (\<lambda>(k, v) m. jm_set k v m) (so_properties obj) []"

section \<open>The parent walk\<close>

text \<open>\<open>objects.get(current)?.parent\<close>.\<close>

definition parent_of :: "object_map \<Rightarrow> string \<Rightarrow> string option" where
  "parent_of objects c = (case jm_get objects c of Some obj \<Rightarrow> so_parent obj | None \<Rightarrow> None)"

text \<open>The loop of \<open>chainReaches\<close>: an absent or empty reference ends it, and so does a visited one.\<close>

function reach_loop :: "object_map \<Rightarrow> string \<Rightarrow> string list \<Rightarrow> string option \<Rightarrow> bool" where
  "reach_loop objects cls guard None = False"
| "reach_loop objects cls guard (Some c) =
     (if c = [] \<or> c \<in> set guard then False
      else if c = cls then True
      else reach_loop objects cls (c # guard) (parent_of objects c))"
  by pat_completeness auto

termination
proof (relation "measure (\<lambda>(objects, cls, guard, cur). 2 * card (set (jm_keys objects) - set guard) + (if cur = None then 0 else 1))", simp, goal_cases)
  case (1 objects cls guard c)
  show ?case
  proof (cases "c \<in> set (jm_keys objects)")
    case True
    then have "card (set (jm_keys objects) - set (c # guard)) < card (set (jm_keys objects) - set guard)"
      using 1 by (intro psubset_card_mono) auto
    then show ?thesis by simp
  next
    case False
    then have "parent_of objects c = None" by (simp add: parent_of_def map_of_eq_None_iff [THEN iffD2] split: option.split)
    moreover have "card (set (jm_keys objects) - set (c # guard)) \<le> card (set (jm_keys objects) - set guard)" by (intro card_mono) auto
    ultimately show ?thesis by simp
  qed
qed

definition chainReaches :: "object_map \<Rightarrow> string \<Rightarrow> string \<Rightarrow> bool" where
  "chainReaches objects i cls = reach_loop objects cls [] (Some i)"

definition isSerializedActor :: "object_map \<Rightarrow> string \<Rightarrow> bool" where
  "isSerializedActor objects i = chainReaches objects i ''$actor''"

section \<open>The selection\<close>

definition is_json_map :: "json option \<Rightarrow> bool" where
  "is_json_map v = (case v of Some (JObj _) \<Rightarrow> True | _ \<Rightarrow> False)"

text \<open>\<open>$system.api_keys\<close>, or the empty map when it is not one.\<close>

definition system_api_keys :: "object_map \<Rightarrow> (string \<times> json) list" where
  "system_api_keys objects = (case jm_get objects ''$system'' of
      Some sys \<Rightarrow> object_of (jm_get (propsOf sys) ''api_keys'') | None \<Rightarrow> [])"

definition add_accounts :: "object_map \<Rightarrow> serialized_object list \<Rightarrow> string list \<Rightarrow> string list" where
  "add_accounts objects objs wanted = fold (\<lambda>obj w. if so_id obj \<noteq> ''$account'' \<and> chainReaches objects (so_id obj) ''$account''
     then js_add (so_id obj) w else w) objs wanted"

definition add_keyed :: "object_map \<Rightarrow> string list \<Rightarrow> string list" where
  "add_keyed objects wanted = fold (\<lambda>rec w. case jstr (jprop (Some rec) ''actor'') of
      Some actor \<Rightarrow> if isSerializedActor objects actor then js_add actor w else w | None \<Rightarrow> w) (map snd (system_api_keys objects)) wanted"

definition add_key_owners :: "object_map \<Rightarrow> serialized_object list \<Rightarrow> string list \<Rightarrow> string list" where
  "add_key_owners objects objs wanted = fold (\<lambda>obj w.
     if \<not> isSerializedActor objects (so_id obj) \<or> so_id obj = ''$actor'' then w
     else if object_of (jm_get (propsOf obj) ''api_keys'') \<noteq> [] then js_add (so_id obj) w else w) objs wanted"

definition add_bound :: "object_map \<Rightarrow> serialized_object list \<Rightarrow> string list \<Rightarrow> string list" where
  "add_bound objects objs wanted = fold (\<lambda>obj w.
     if \<not> isSerializedActor objects (so_id obj) \<or> so_id obj = ''$actor'' then w
     else if jstr_nonempty (jm_get (propsOf obj) ''account'') \<noteq> None then js_add (so_id obj) w else w) objs wanted"

definition identity_roots :: "object_map \<Rightarrow> serialized_object list \<Rightarrow> string list" where
  "identity_roots objects objs = add_bound objects objs (add_key_owners objects objs (add_keyed objects (add_accounts objects objs [])))"

text \<open>The owner a wanted agent pulls in: an acting principal of the world that is not wanted yet.\<close>

definition owner_of :: "object_map \<Rightarrow> string \<Rightarrow> string option" where
  "owner_of objects i = (case jm_get objects i of
      None \<Rightarrow> None
    | Some obj \<Rightarrow>
        if \<not> chainReaches objects i ''$agent'' then None
        else case jm_get objects (so_owner obj) of
          None \<Rightarrow> None
        | Some owner \<Rightarrow> if chainReaches objects (so_id owner) ''$actor'' then Some (so_id owner) else None)"

definition owners :: "object_map \<Rightarrow> string set" where
  "owners objects = {owner. \<exists>i. owner_of objects i = Some owner}"

lemma finite_owners: "finite (owners objects)"
proof -
  have "owners objects \<subseteq> so_id ` snd ` set objects"
    by (force simp: owners_def owner_of_def split: option.splits if_splits dest: map_of_SomeD)
  then show ?thesis by (rule finite_subset) simp
qed

text \<open>The worklist: \<open>pop\<close> takes the last entry, a new owner is wanted and pushed.\<close>

function owner_loop :: "object_map \<Rightarrow> string list \<Rightarrow> string list \<Rightarrow> string list" where
  "owner_loop objects wanted [] = wanted"
| "owner_loop objects wanted (i # pending) = (case owner_of objects i of
      None \<Rightarrow> owner_loop objects wanted pending
    | Some owner \<Rightarrow> if owner \<in> set wanted then owner_loop objects wanted pending
        else owner_loop objects (wanted @ [owner]) (owner # pending))"
  by pat_completeness auto

termination
proof (relation "inv_image (less_than <*lex*> less_than) (\<lambda>(objects, wanted, pending). (card (owners objects - set wanted), length pending))", goal_cases)
  case (4 objects wanted i pending owner)
  then have "owner \<in> owners objects - set wanted" by (auto simp: owners_def)
  then have "card (owners objects - set (wanted @ [owner])) < card (owners objects - set wanted)"
    using finite_owners [of objects] by (intro psubset_card_mono) auto
  then show ?case by simp
qed auto

definition identity_wanted :: "object_map \<Rightarrow> serialized_object list \<Rightarrow> string list" where
  "identity_wanted objects objs = (let roots = identity_roots objects objs in owner_loop objects roots (rev roots))"

section \<open>The export\<close>

text \<open>The value of one identity property as it is carried; \<open>None\<close> when it is dropped.\<close>

definition carried_value :: "string list \<Rightarrow> string \<Rightarrow> json \<Rightarrow> json option" where
  "carried_value wanted name v =
     (if name = ''primary_actor'' \<and> (case v of JStr a \<Rightarrow> a \<notin> set wanted | _ \<Rightarrow> False) then None
      else if name = ''actors''
      then (case v of
          JArr refs \<Rightarrow> (let kept = filter (\<lambda>ref. case ref of JStr a \<Rightarrow> a \<in> set wanted | _ \<Rightarrow> False) refs
                        in if kept = [] then None else Some (JArr kept))
        | _ \<Rightarrow> Some v)
      else Some v)"

definition carried_props :: "string list \<Rightarrow> serialized_object \<Rightarrow> (string \<times> json) list" where
  "carried_props wanted obj = List.map_filter (\<lambda>name. case jm_get (propsOf obj) name of
      None \<Rightarrow> None
    | Some v \<Rightarrow> map_option (\<lambda>w. (name, w)) (carried_value wanted name v)) IDENTITY_PROPS"

definition export_actor :: "string list \<Rightarrow> string \<Rightarrow> serialized_object \<Rightarrow> string + identity_actor_export" where
  "export_actor wanted i obj = (case so_parent obj of
      Some p \<Rightarrow>
        if starts_with ''$'' p
        then Inr \<lparr>ie_id = i, ie_parent = p, ie_name = so_name obj, ie_owner = so_owner obj,
               ie_anchor = (case so_anchor obj of Some a \<Rightarrow> if a = [] then None else Some a | None \<Rightarrow> None),
               ie_flags = so_flags obj, ie_props = carried_props wanted obj\<rparr>
        else Inl i
    | None \<Rightarrow> Inl i)"

text \<open>The loop over the sorted selection; \<open>Inl\<close> is the thrown error with the offending identifier.\<close>

fun export_actors :: "object_map \<Rightarrow> string list \<Rightarrow> string list \<Rightarrow> string + identity_actor_export list" where
  "export_actors objects wanted [] = Inr []"
| "export_actors objects wanted (i # ids) = (case jm_get objects i of
      None \<Rightarrow> export_actors objects wanted ids
    | Some obj \<Rightarrow> (case export_actor wanted i obj of
        Inl e \<Rightarrow> Inl e
      | Inr a \<Rightarrow> (case export_actors objects wanted ids of Inl e \<Rightarrow> Inl e | Inr rest \<Rightarrow> Inr (a # rest))))"

text \<open>Accounts first, then by identifier under the host's collation.\<close>

definition account_rank :: "object_map \<Rightarrow> identity_actor_export \<Rightarrow> nat" where
  "account_rank objects a = (if chainReaches objects (ie_id a) ''$account'' then 0 else 1)"

definition actor_le :: "(string \<Rightarrow> string \<Rightarrow> bool) \<Rightarrow> object_map \<Rightarrow> identity_actor_export \<Rightarrow> identity_actor_export \<Rightarrow> bool" where
  "actor_le locale_le objects a b \<longleftrightarrow> account_rank objects a < account_rank objects b
     \<or> (account_rank objects a = account_rank objects b \<and> locale_le (ie_id a) (ie_id b))"

definition exportIdentity :: "(string \<Rightarrow> string \<Rightarrow> bool) \<Rightarrow> int \<Rightarrow> serialized_object list \<Rightarrow> string + identity_export" where
  "exportIdentity locale_le now objs =
     (let objects = object_map_of objs; wanted = identity_wanted objects objs in
      case export_actors objects wanted (sort wanted) of
        Inl e \<Rightarrow> Inl e
      | Inr actors \<Rightarrow> Inr \<lparr>ix_exported_at = now, ix_api_keys = system_api_keys objects,
          ix_actors = sort_by (actor_le locale_le objects) actors\<rparr>)"

section \<open>The shape check\<close>

definition actor_export_json :: "identity_actor_export \<Rightarrow> json" where
  "actor_export_json a = JObj ([(''id'', JStr (ie_id a)), (''parent'', JStr (ie_parent a)), (''name'', JStr (ie_name a)), (''owner'', JStr (ie_owner a))]
     @ (case ie_anchor a of Some anchor \<Rightarrow> [(''anchor'', JStr anchor)] | None \<Rightarrow> [])
     @ [(''flags'', ie_flags a), (''props'', JObj (ie_props a))])"

definition identity_export_json :: "identity_export \<Rightarrow> json" where
  "identity_export_json x = JObj [(''kind'', JStr ''woo.identity_export.v1''), (''exported_at'', JNum (ix_exported_at x)),
     (''api_keys'', JObj (ix_api_keys x)), (''actors'', JArr (map actor_export_json (ix_actors x)))]"

datatype parse_error = Wrong_kind | Api_keys_not_map | Actors_not_list | Malformed_actor

definition actor_entry_ok :: "json \<Rightarrow> bool" where
  "actor_entry_ok a \<longleftrightarrow> jstr (jprop (Some a) ''id'') \<noteq> None
     \<and> (case jstr (jprop (Some a) ''parent'') of Some p \<Rightarrow> starts_with ''$'' p | None \<Rightarrow> False)"

definition parseIdentityExport :: "json \<Rightarrow> parse_error + json" where
  "parseIdentityExport raw =
     (if jprop (Some raw) ''kind'' \<noteq> Some (JStr ''woo.identity_export.v1'') then Inl Wrong_kind
      else if \<not> is_json_map (jprop (Some raw) ''api_keys'') then Inl Api_keys_not_map
      else case jprop (Some raw) ''actors'' of
        Some (JArr actors) \<Rightarrow> if list_all actor_entry_ok actors then Inr raw else Inl Malformed_actor
      | _ \<Rightarrow> Inl Actors_not_list)"

section \<open>The parent walk finds every ancestor\<close>

fun nth_parent :: "object_map \<Rightarrow> nat \<Rightarrow> string \<Rightarrow> string option" where
  "nth_parent objects 0 c = Some c"
| "nth_parent objects (Suc n) c = (case parent_of objects c of Some p \<Rightarrow> nth_parent objects n p | None \<Rightarrow> None)"

definition ancestor :: "object_map \<Rightarrow> string \<Rightarrow> string \<Rightarrow> bool" where
  "ancestor objects c cls \<longleftrightarrow> (\<exists>n. nth_parent objects n c = Some cls \<and> (\<forall>m \<le> n. nth_parent objects m c \<noteq> Some []))"

lemma nth_parent_add: "nth_parent objects (m + n) c = (case nth_parent objects m c of Some p \<Rightarrow> nth_parent objects n p | None \<Rightarrow> None)"
  by (induction m arbitrary: c) (simp_all split: option.split)

text \<open>On a shortest walk to the class no reference repeats.\<close>

lemma shortest_distinct:
  assumes "nth_parent objects n c = Some cls" "\<forall>k < n. nth_parent objects k c \<noteq> Some cls" "0 < j" "j \<le> n" "nth_parent objects j c = Some c"
  shows False
proof -
  have "nth_parent objects (j + (n - j)) c = nth_parent objects (n - j) c" unfolding nth_parent_add assms(5) by simp
  then have "nth_parent objects (n - j) c = Some cls" using assms(1,4) by simp
  moreover have "n - j < n" using assms(3,4) by simp
  ultimately show False using assms(2) by blast
qed

lemma reach_loop_sound: "reach_loop objects cls guard (Some c) \<Longrightarrow> ancestor objects c cls"
proof (induction objects cls guard "Some c" arbitrary: c rule: reach_loop.induct)
  case (2 objects cls guard c)
  show ?case
  proof (cases "c = cls")
    case True
    then show ?thesis using 2 unfolding ancestor_def by (auto intro!: exI [of _ 0] split: if_splits)
  next
    case False
    then have c: "c \<noteq> []" "c \<notin> set guard" and r: "reach_loop objects cls (c # guard) (parent_of objects c)" using 2(2) by (auto split: if_splits)
    obtain p where p: "parent_of objects c = Some p" using r by (cases "parent_of objects c") auto
    obtain n where n: "nth_parent objects n p = Some cls" "\<forall>m \<le> n. nth_parent objects m p \<noteq> Some []"
      using 2(1) [OF _ False p] c r p unfolding ancestor_def by auto
    have "nth_parent objects m c \<noteq> Some []" if "m \<le> Suc n" for m using that n(2) p c(1) by (cases m) auto
    then show ?thesis using n(1) p unfolding ancestor_def by (intro exI [of _ "Suc n"]) auto
  qed
qed

lemma reach_loop_complete:
  "nth_parent objects n c = Some cls \<Longrightarrow> \<forall>k < n. nth_parent objects k c \<noteq> Some cls \<Longrightarrow> \<forall>m \<le> n. nth_parent objects m c \<noteq> Some [] \<Longrightarrow>
   \<forall>m \<le> n. \<forall>g \<in> set guard. nth_parent objects m c \<noteq> Some g \<Longrightarrow> reach_loop objects cls guard (Some c)"
proof (induction n arbitrary: c guard)
  case 0
  then show ?case by auto
next
  case (Suc n)
  have c: "c \<noteq> []" "c \<notin> set guard" "c \<noteq> cls" using Suc.prems(2-4) by force+
  obtain p where p: "parent_of objects c = Some p" "nth_parent objects n p = Some cls" using Suc.prems(1) by (auto split: option.splits)
  have "nth_parent objects m p \<noteq> Some c" if "m \<le> n" for m
    using shortest_distinct [OF Suc.prems(1,2), of "Suc m"] that p(1) by auto
  moreover have "nth_parent objects m p \<noteq> Some g" if "m \<le> n" "g \<in> set guard" for m g
    using Suc.prems(4) [rule_format, of "Suc m" g] that p(1) by simp
  moreover have "nth_parent objects k p \<noteq> Some cls" if "k < n" for k using Suc.prems(2) [rule_format, of "Suc k"] that p(1) by simp
  moreover have "nth_parent objects m p \<noteq> Some []" if "m \<le> n" for m using Suc.prems(3) [rule_format, of "Suc m"] that p(1) by simp
  ultimately have "reach_loop objects cls (c # guard) (Some p)" using p(2) by (intro Suc.IH) auto
  then show ?case using c p(1) by simp
qed

lemma chainReaches_exact: "chainReaches objects c cls \<longleftrightarrow> ancestor objects c cls"
proof
  assume "ancestor objects c cls"
  then obtain n where n: "nth_parent objects n c = Some cls" "\<forall>m \<le> n. nth_parent objects m c \<noteq> Some []" unfolding ancestor_def by blast
  let ?k = "LEAST k. nth_parent objects k c = Some cls"
  have k: "nth_parent objects ?k c = Some cls" "?k \<le> n" using n(1) by (auto intro: LeastI Least_le)
  have "\<forall>j < ?k. nth_parent objects j c \<noteq> Some cls" using not_less_Least by blast
  then show "chainReaches objects c cls" unfolding chainReaches_def using k n(2) by (intro reach_loop_complete [of objects ?k]) auto
qed (unfold chainReaches_def, rule reach_loop_sound)

section \<open>The selection is the least closed one\<close>

definition owner_closed :: "object_map \<Rightarrow> string set \<Rightarrow> bool" where
  "owner_closed objects W \<longleftrightarrow> (\<forall>i \<in> W. case owner_of objects i of Some owner \<Rightarrow> owner \<in> W | None \<Rightarrow> True)"

lemma owner_loop_least:
  assumes "owner_closed objects W" "set wanted \<subseteq> W" "set pending \<subseteq> W"
  shows "set (owner_loop objects wanted pending) \<subseteq> W"
  using assms
proof (induction objects wanted pending rule: owner_loop.induct)
  case (2 objects wanted i pending)
  have "i \<in> W" using 2 by simp
  then have "owner \<in> W" if "owner_of objects i = Some owner" for owner using 2(4) that unfolding owner_closed_def by fastforce
  then show ?case using 2 by (cases "owner_of objects i") auto
qed simp

lemma owner_loop_closed:
  assumes "set pending \<subseteq> set wanted" "\<forall>i \<in> set wanted - set pending. case owner_of objects i of Some owner \<Rightarrow> owner \<in> set wanted | None \<Rightarrow> True"
  shows "set wanted \<subseteq> set (owner_loop objects wanted pending) \<and> owner_closed objects (set (owner_loop objects wanted pending))"
  using assms
proof (induction objects wanted pending rule: owner_loop.induct)
  case (1 objects wanted)
  then show ?case by (simp add: owner_closed_def)
next
  case (2 objects wanted i pending)
  have rest: "\<forall>j \<in> set wanted - set pending. case owner_of objects j of Some owner \<Rightarrow> owner \<in> set wanted | None \<Rightarrow> True"
    if "case owner_of objects i of Some owner \<Rightarrow> owner \<in> set wanted | None \<Rightarrow> True"
  proof
    fix j assume "j \<in> set wanted - set pending"
    then show "case owner_of objects j of Some owner \<Rightarrow> owner \<in> set wanted | None \<Rightarrow> True" using 2(5) that by (cases "j = i") simp_all
  qed
  have sub: "set pending \<subseteq> set wanted" using 2(4) by simp
  show ?case
  proof (cases "owner_of objects i")
    case None
    then show ?thesis using 2(1) [OF None sub rest] by simp
  next
    case (Some owner)
    show ?thesis
    proof (cases "owner \<in> set wanted")
      case True
      then show ?thesis using 2(2) [OF Some True sub rest] Some by simp
    next
      case False
      have "\<forall>j \<in> set (wanted @ [owner]) - set (owner # pending). case owner_of objects j of Some ow \<Rightarrow> ow \<in> set (wanted @ [owner]) | None \<Rightarrow> True"
      proof
        fix j assume j: "j \<in> set (wanted @ [owner]) - set (owner # pending)"
        show "case owner_of objects j of Some ow \<Rightarrow> ow \<in> set (wanted @ [owner]) | None \<Rightarrow> True"
        proof (cases "j = i")
          case False
          then have "case owner_of objects j of Some ow \<Rightarrow> ow \<in> set wanted | None \<Rightarrow> True" using 2(5) j by simp
          then show ?thesis by (simp split: option.splits)
        qed (simp add: Some)
      qed
      moreover have "set (owner # pending) \<subseteq> set (wanted @ [owner])" using sub by auto
      ultimately show ?thesis using 2(3) [OF Some False] Some False by simp
    qed
  qed
qed

lemma wanted_least:
  "set (identity_roots objects objs) \<subseteq> set (identity_wanted objects objs)" "owner_closed objects (set (identity_wanted objects objs))"
  "owner_closed objects W \<Longrightarrow> set (identity_roots objects objs) \<subseteq> W \<Longrightarrow> set (identity_wanted objects objs) \<subseteq> W"
  using owner_loop_closed [of "rev (identity_roots objects objs)" "identity_roots objects objs" objects] owner_loop_least [of objects W]
  by (simp_all add: identity_wanted_def Let_def)

section \<open>What the export carries\<close>

lemma object_map_keyed: "jm_get (object_map_of objs) i = Some obj \<Longrightarrow> so_id obj = i \<and> obj \<in> set objs"
proof -
  have "jm_get (fold (\<lambda>obj m. jm_set (so_id obj) obj m) objs m) i = Some obj \<Longrightarrow> (so_id obj = i \<and> obj \<in> set objs) \<or> jm_get m i = Some obj" for m
    by (induction objs arbitrary: m) (fastforce split: if_splits)+
  from this [of "[]"] show "jm_get (object_map_of objs) i = Some obj \<Longrightarrow> so_id obj = i \<and> obj \<in> set objs" by (simp add: object_map_of_def)
qed

lemma distinct_adds: "distinct w \<Longrightarrow> (\<And>x w. distinct w \<Longrightarrow> distinct (f x w)) \<Longrightarrow> distinct (fold f xs w)"
  by (rule List.fold_invariant [where Q = "\<lambda>_. True"]) auto

lemma distinct_roots: "distinct (identity_roots objects objs)"
  unfolding identity_roots_def add_bound_def add_key_owners_def add_keyed_def add_accounts_def
  by (intro distinct_adds) (auto split: option.split)

lemma distinct_owner_loop: "distinct wanted \<Longrightarrow> distinct (owner_loop objects wanted pending)"
  by (induction objects wanted pending rule: owner_loop.induct) (auto split: option.split)

lemma distinct_wanted: "distinct (identity_wanted objects objs)"
  by (simp add: identity_wanted_def Let_def distinct_owner_loop distinct_roots)

definition class_parent :: "serialized_object \<Rightarrow> bool" where
  "class_parent obj \<longleftrightarrow> (\<exists>p. so_parent obj = Some p \<and> starts_with ''$'' p)"

lemma export_actor_Inr:
  assumes "export_actor wanted i obj = Inr a"
  shows "class_parent obj" "ie_id a = i" "so_parent obj = Some (ie_parent a)" "starts_with ''$'' (ie_parent a)" "ie_owner a = so_owner obj"
    "ie_flags a = so_flags obj" "ie_props a = carried_props wanted obj"
  using assms by (auto simp: export_actor_def class_parent_def split: option.splits if_splits)

lemma export_actors_Inr:
  "export_actors objects wanted ids = Inr actors \<Longrightarrow> map ie_id actors = filter (jm_has objects) ids
    \<and> (\<forall>a \<in> set actors. \<exists>obj. jm_get objects (ie_id a) = Some obj \<and> export_actor wanted (ie_id a) obj = Inr a)"
proof (induction ids arbitrary: actors)
  case (Cons i ids)
  show ?case
  proof (cases "jm_get objects i")
    case None
    then show ?thesis using Cons by (simp add: jm_has_def)
  next
    case (Some obj)
    then obtain a rest where a: "export_actor wanted i obj = Inr a" "export_actors objects wanted ids = Inr rest" "actors = a # rest"
      using Cons.prems by (auto split: sum.splits)
    note id = export_actor_Inr(2) [OF a(1)]
    show ?thesis using Cons.IH [OF a(2)] Some a(1) by (auto simp: a(3) id jm_has_def)
  qed
qed simp

lemma export_actors_Inl:
  "export_actors objects wanted ids = Inl e \<Longrightarrow> \<exists>obj. e \<in> set ids \<and> jm_get objects e = Some obj \<and> \<not> class_parent obj"
proof (induction ids)
  case (Cons i ids)
  show ?case
  proof (cases "jm_get objects i")
    case None
    then show ?thesis using Cons by auto
  next
    case (Some obj)
    show ?thesis
    proof (cases "export_actor wanted i obj")
      case (Inl e')
      then have "e' = i" "\<not> class_parent obj" by (auto simp: export_actor_def class_parent_def split: option.splits if_splits)
      moreover have "e = e'" using Cons.prems Some Inl by simp
      ultimately show ?thesis using Some by auto
    next
      case (Inr a)
      then have "export_actors objects wanted ids = Inl e" using Cons.prems Some by (auto split: sum.splits)
      then show ?thesis using Cons.IH by auto
    qed
  qed
qed simp

text \<open>The references a carried property may hold.\<close>

definition carried_refs_ok :: "string set \<Rightarrow> string \<Rightarrow> json \<Rightarrow> bool" where
  "carried_refs_ok W name v \<longleftrightarrow> name \<in> set IDENTITY_PROPS
     \<and> (name = ''primary_actor'' \<longrightarrow> (\<forall>r. v = JStr r \<longrightarrow> r \<in> W))
     \<and> (name = ''actors'' \<longrightarrow> (\<forall>refs. v = JArr refs \<longrightarrow> refs \<noteq> [] \<and> (\<forall>ref \<in> set refs. \<exists>r \<in> W. ref = JStr r)))"

lemma carried_value_ok:
  assumes "carried_value wanted name v = Some w" "name \<in> set IDENTITY_PROPS"
  shows "carried_refs_ok (set wanted) name w"
proof (cases "name = ''actors''")
  case True
  then show ?thesis using assms unfolding carried_refs_ok_def carried_value_def
    by (auto simp: Let_def split: json.splits if_splits)
next
  case False
  then have "w = v" "name = ''primary_actor'' \<longrightarrow> (\<forall>r. v = JStr r \<longrightarrow> r \<in> set wanted)"
    using assms(1) by (auto simp: carried_value_def split: if_splits)
  then show ?thesis using False assms(2) by (simp add: carried_refs_ok_def)
qed

lemma carried_props_ok: "(n, v) \<in> set (carried_props wanted obj) \<Longrightarrow> carried_refs_ok (set wanted) n v"
  using carried_value_ok [of wanted n _ v]
  by (auto simp: carried_props_def List.map_filter_def split: option.splits)

lemma total_actor_le:
  assumes "total_preorder le" shows "total_preorder (actor_le le objects)"
  using assms unfolding total_preorder_def actor_le_def by (metis less_trans linorder_less_linear)

lemma export_parses:
  assumes "\<forall>a \<in> set (ix_actors x). starts_with ''$'' (ie_parent a)"
  shows "parseIdentityExport (identity_export_json x) = Inr (identity_export_json x)"
proof -
  have "actor_entry_ok (actor_export_json a)" if "a \<in> set (ix_actors x)" for a
    using that assms by (simp add: actor_entry_ok_def actor_export_json_def)
  then show ?thesis by (simp add: parseIdentityExport_def identity_export_json_def is_json_map_def list_all_iff)
qed

lemma export_entry:
  assumes "export_actors objects wanted ids = Inr actors" "a \<in> set actors"
  shows "\<exists>obj. jm_get objects (ie_id a) = Some obj \<and> class_parent obj \<and> so_parent obj = Some (ie_parent a) \<and> starts_with ''$'' (ie_parent a)
    \<and> ie_owner a = so_owner obj \<and> ie_flags a = so_flags obj \<and> (\<forall>(n, v) \<in> set (ie_props a). carried_refs_ok (set wanted) n v)"
proof -
  obtain obj where obj: "jm_get objects (ie_id a) = Some obj" "export_actor wanted (ie_id a) obj = Inr a"
    using export_actors_Inr [OF assms(1)] assms(2) by blast
  then show ?thesis using export_actor_Inr [OF obj(2)] carried_props_ok [of _ _ wanted obj] by (intro exI [of _ obj]) auto
qed

text \<open>
  C15: the identity carry selects exactly what it must. The walk over any serialized world returns. When
  it exports, the exported identifiers are, once each, the objects of the least set that holds the
  identity roots (accounts, credentialed and bound principals) and is closed under the acting owners of
  agents, so no carried agent loses the owner whose deactivation binds it; accounts come before the
  actors that refer to them; an entry keeps its class, owner and flags and carries only allow-listed
  properties, of which \<open>primary_actor\<close> and \<open>actors\<close> name selected objects only; and the file passes the shape
  check of the import. It refuses exactly when a selected object is not under a class. Every other
  reference of an entry (its owner, class and remaining properties) is carried as it stands
  and may name an object outside the file, which the importing world has to hold.
\<close>

theorem exportIdentity_exact:
  fixes objs :: "serialized_object list" and locale_le :: "string \<Rightarrow> string \<Rightarrow> bool"
  assumes "total_preorder locale_le"
  defines "objects \<equiv> object_map_of objs"
  shows "\<exists>W. set (identity_roots objects objs) \<subseteq> W \<and> owner_closed objects W
    \<and> (\<forall>V. set (identity_roots objects objs) \<subseteq> V \<and> owner_closed objects V \<longrightarrow> W \<subseteq> V)
    \<and> (case exportIdentity locale_le now objs of
        Inl e \<Rightarrow> \<exists>obj. e \<in> W \<and> jm_get objects e = Some obj \<and> \<not> class_parent obj
      | Inr x \<Rightarrow> set (map ie_id (ix_actors x)) = {i \<in> W. jm_has objects i} \<and> distinct (map ie_id (ix_actors x))
          \<and> sorted_wrt (\<lambda>a b. account_rank objects a \<le> account_rank objects b) (ix_actors x)
          \<and> (\<forall>a \<in> set (ix_actors x). \<exists>obj. jm_get objects (ie_id a) = Some obj \<and> class_parent obj \<and> so_parent obj = Some (ie_parent a)
              \<and> ie_owner a = so_owner obj \<and> ie_flags a = so_flags obj \<and> (\<forall>(n, v) \<in> set (ie_props a). carried_refs_ok W n v))
          \<and> parseIdentityExport (identity_export_json x) = Inr (identity_export_json x))"
proof -
  let ?wanted = "identity_wanted objects objs"
  let ?W = "set ?wanted"
  have least: "set (identity_roots objects objs) \<subseteq> ?W" "owner_closed objects ?W"
    "\<forall>V. set (identity_roots objects objs) \<subseteq> V \<and> owner_closed objects V \<longrightarrow> ?W \<subseteq> V"
    using wanted_least(1,2) [of objects objs] wanted_least(3) [of objects _ objs] by blast+
  have "case exportIdentity locale_le now objs of
        Inl e \<Rightarrow> \<exists>obj. e \<in> ?W \<and> jm_get objects e = Some obj \<and> \<not> class_parent obj
      | Inr x \<Rightarrow> set (map ie_id (ix_actors x)) = {i \<in> ?W. jm_has objects i} \<and> distinct (map ie_id (ix_actors x))
          \<and> sorted_wrt (\<lambda>a b. account_rank objects a \<le> account_rank objects b) (ix_actors x)
          \<and> (\<forall>a \<in> set (ix_actors x). \<exists>obj. jm_get objects (ie_id a) = Some obj \<and> class_parent obj \<and> so_parent obj = Some (ie_parent a)
              \<and> ie_owner a = so_owner obj \<and> ie_flags a = so_flags obj \<and> (\<forall>(n, v) \<in> set (ie_props a). carried_refs_ok ?W n v))
          \<and> parseIdentityExport (identity_export_json x) = Inr (identity_export_json x)"
  proof (cases "export_actors objects ?wanted (sort ?wanted)")
    case (Inl e)
    then have "exportIdentity locale_le now objs = Inl e" by (simp add: exportIdentity_def objects_def Let_def)
    then show ?thesis using export_actors_Inl [OF Inl] by simp
  next
    case (Inr actors)
    let ?x = "\<lparr>ix_exported_at = now, ix_api_keys = system_api_keys objects, ix_actors = sort_by (actor_le locale_le objects) actors\<rparr>"
    have x: "exportIdentity locale_le now objs = Inr ?x" using Inr by (simp add: exportIdentity_def objects_def Let_def)
    note ids = export_actors_Inr [OF Inr, THEN conjunct1]
    have idset: "set (map ie_id (ix_actors ?x)) = {i \<in> ?W. jm_has objects i}"
      using arg_cong [OF ids, of set] by (simp add: image_set [symmetric])
    have dist: "distinct (map ie_id (ix_actors ?x))" using ids distinct_wanted [of objects objs] by simp
    have sorted: "sorted_wrt (\<lambda>a b. account_rank objects a \<le> account_rank objects b) (ix_actors ?x)"
      using sorted_sort_by [OF total_actor_le [OF assms(1)], of objects actors]
      by (simp, elim sorted_wrt_mono_rel [rotated]) (auto simp: actor_le_def)
    note entry = export_entry [OF Inr]
    have "\<forall>a \<in> set (ix_actors ?x). starts_with ''$'' (ie_parent a)" using entry by auto
    note parses = export_parses [OF this]
    have "\<forall>a \<in> set (ix_actors ?x). \<exists>obj. jm_get objects (ie_id a) = Some obj \<and> class_parent obj \<and> so_parent obj = Some (ie_parent a)
        \<and> ie_owner a = so_owner obj \<and> ie_flags a = so_flags obj \<and> (\<forall>(n, v) \<in> set (ie_props a). carried_refs_ok ?W n v)"
    proof
      fix a assume "a \<in> set (ix_actors ?x)"
      then have "a \<in> set actors" by simp
      from entry [OF this] show "\<exists>obj. jm_get objects (ie_id a) = Some obj \<and> class_parent obj \<and> so_parent obj = Some (ie_parent a)
        \<and> ie_owner a = so_owner obj \<and> ie_flags a = so_flags obj \<and> (\<forall>(n, v) \<in> set (ie_props a). carried_refs_ok ?W n v)" by blast
    qed
    with idset dist sorted parses show ?thesis unfolding x sum.case by (intro conjI)
  qed
  with least show ?thesis by blast
qed

text \<open>A human with an account, and an agent it owns that holds the key.\<close>

definition demo_world :: "serialized_object list" where
  "demo_world = (let obj = (\<lambda>i p ow props. \<lparr>so_id = i, so_name = i, so_parent = p, so_owner = ow, so_anchor = None, so_flags = JObj [], so_properties = props\<rparr>) in
     [obj ''$actor'' None ''$wiz'' [], obj ''$agent'' (Some ''$actor'') ''$wiz'' [], obj ''h1'' (Some ''$actor'') ''$wiz'' [],
      obj ''a1'' (Some ''$agent'') ''h1'' [(''api_keys'', JObj [(''k'', JNull)])]])"

theorem exportIdentity_exact_witness:
  "total_preorder ((\<le>) :: string \<Rightarrow> string \<Rightarrow> bool) \<and> (\<exists>x. exportIdentity (\<le>) 7 demo_world = Inr x \<and> ''h1'' \<in> set (map ie_id (ix_actors x))
     \<and> parseIdentityExport (identity_export_json x) = Inr (identity_export_json x))"
proof -
  have le: "total_preorder ((\<le>) :: string \<Rightarrow> string \<Rightarrow> bool)" unfolding total_preorder_def by force
  have "case exportIdentity (\<le>) 7 demo_world of Inr x \<Rightarrow> ''h1'' \<in> set (map ie_id (ix_actors x)) | Inl _ \<Rightarrow> False" by code_simp
  then obtain x where x: "exportIdentity (\<le>) 7 demo_world = Inr x" "''h1'' \<in> set (map ie_id (ix_actors x))" by (cases "exportIdentity (\<le>) 7 demo_world") simp_all
  with exportIdentity_exact [OF le, of demo_world 7] le show ?thesis by auto
qed

end
