(* ===== verification/Woo_Value.thy ===== *)
theory Woo_Value
  imports Cells
begin

text \<open>
  Woo values as the interpreter sees them (\<open>src/core/types.ts\<close>): the value type, structural equality,
  the assertions that read a value at a type, error values, and the conversions of the language the
  interpreter relies on. Unlike the values of the protocol, a value on an operand stack may be
  \<open>undefined\<close>, and a number may be infinite or not a number (\<open>Math.min()\<close> without arguments is).
\<close>

section \<open>Values\<close>

datatype number = Finite int | Infinite bool | Not_a_number

datatype woo_value =
    WUndef
  | WNull
  | WBool bool
  | WNum number
  | WStr string
  | WList "woo_value list"
  | WMap "(string \<times> woo_value) list"

abbreviation WInt :: "int \<Rightarrow> woo_value" where
  "WInt n \<equiv> WNum (Finite n)"

text \<open>\<open>x ?? y\<close>.\<close>

fun or_else :: "woo_value \<Rightarrow> woo_value \<Rightarrow> woo_value" where
  "or_else WUndef y = y"
| "or_else WNull y = y"
| "or_else x y = x"

text \<open>\<open>xs[i]\<close>: out of range is \<open>undefined\<close>.\<close>

definition nth_value :: "woo_value list \<Rightarrow> int \<Rightarrow> woo_value" where
  "nth_value xs i = (if 0 \<le> i \<and> i < int (length xs) then xs ! nat i else WUndef)"

text \<open>\<open>map[key]\<close> on own keys, and the computed write \<open>{ ...map, [key]: value }\<close> in the language's key order.\<close>

definition map_read :: "(string \<times> woo_value) list \<Rightarrow> string \<Rightarrow> woo_value" where
  "map_read m k = (case map_of m k of Some v \<Rightarrow> v | None \<Rightarrow> WUndef)"

definition map_put :: "string \<Rightarrow> woo_value \<Rightarrow> (string \<times> woo_value) list \<Rightarrow> (string \<times> woo_value) list" where
  "map_put k v m = own_key_order (jm_set k v m)"

definition fromEntries :: "(string \<times> woo_value) list \<Rightarrow> (string \<times> woo_value) list" where
  "fromEntries kvs = fold (\<lambda>(k, v). map_put k v) kvs []"

definition hasOwnMapKey :: "(string \<times> woo_value) list \<Rightarrow> string \<Rightarrow> bool" where
  "hasOwnMapKey m k = (map_of m k \<noteq> None)"

section \<open>Equality and size\<close>

fun number_eq :: "number \<Rightarrow> number \<Rightarrow> bool" where
  "number_eq Not_a_number _ = False"
| "number_eq x y = (x = y)"

function (sequential) valuesEqual :: "woo_value \<Rightarrow> woo_value \<Rightarrow> bool" where
  "valuesEqual (WNum x) (WNum y) = number_eq x y"
| "valuesEqual (WList xs) (WList ys) =
     (length xs = length ys \<and> list_all (\<lambda>(x, y). valuesEqual x y) (zip xs ys))"
| "valuesEqual (WMap xs) (WMap ys) =
     (sort (map fst xs) = sort (map fst ys) \<and> list_all (\<lambda>(k, x). valuesEqual x (map_read ys k)) xs)"
| "valuesEqual x y = (x = y)"
  by pat_completeness auto

termination
proof (relation "measure (\<lambda>(x, y). size x)", goal_cases)
  case (2 xs ys a x y)
  then have "x \<in> set xs" by (auto dest: set_zip_leftD)
  then have "size x < Suc (size_list size xs)" by (simp add: less_Suc_eq_le size_list_estimation')
  then show ?case by simp
next
  case (3 xs ys a k x)
  then have "size x \<le> size_list (size_prod (\<lambda>x. 0) size) xs" by (intro size_list_estimation' [of "(k, x)"]) auto
  then show ?case by simp
qed simp

fun estimateSize :: "woo_value \<Rightarrow> int" where
  "estimateSize (WStr s) = int (length s) * 2"
| "estimateSize (WList xs) = 16 + sum_list (map estimateSize xs)"
| "estimateSize (WMap kvs) = 16 + sum_list (map (\<lambda>(k, v). int (length k) * 2 + estimateSize v) kvs)"
| "estimateSize _ = 8"

fun truthy :: "woo_value \<Rightarrow> bool" where
  "truthy WNull = False"
| "truthy (WBool False) = False"
| "truthy (WNum (Finite n)) = (n \<noteq> 0)"
| "truthy (WStr s) = (s \<noteq> [])"
| "truthy _ = True"

fun typeName :: "woo_value \<Rightarrow> string" where
  "typeName WNull = ''null''"
| "typeName (WList _) = ''list''"
| "typeName (WMap _) = ''map''"
| "typeName WUndef = ''undefined''"
| "typeName (WBool _) = ''boolean''"
| "typeName (WNum _) = ''number''"
| "typeName (WStr _) = ''string''"

section \<open>Errors\<close>

text \<open>
  What a \<open>throw\<close> can carry: a Woo error value (the properties of a plain object), an \<open>Error\<close> of the
  host language, another value of it, or the opaque signal of a command plan transfer.
\<close>

type_synonym error_value = "(string \<times> woo_value) list"

datatype thrown = Woo_thrown error_value | Host_thrown string | Other_thrown string | Plan_transfer

definition wooError :: "string \<Rightarrow> woo_value \<Rightarrow> woo_value \<Rightarrow> error_value" where
  "wooError code message v = [(''code'', WStr code), (''message'', message), (''value'', v)]"

abbreviation woo_throw :: "string \<Rightarrow> string \<Rightarrow> woo_value \<Rightarrow> thrown" where
  "woo_throw code message v \<equiv> Woo_thrown (wooError code (WStr message) v)"

definition error_code :: "error_value \<Rightarrow> string" where
  "error_code e = (case map_of e ''code'' of Some (WStr c) \<Rightarrow> c | _ \<Rightarrow> [])"

text \<open>\<open>isErrorValue(value) && typeof value.code === "string"\<close>.\<close>

definition has_code :: "error_value \<Rightarrow> bool" where
  "has_code e = (case map_of e ''code'' of Some (WStr _) \<Rightarrow> True | _ \<Rightarrow> False)"

fun errorFromValue :: "woo_value \<Rightarrow> error_value" where
  "errorFromValue (WMap e) =
     (if has_code e then e else wooError ''E_ERROR'' (WStr ''raised non-error value'') (WMap e))"
| "errorFromValue (WStr s) = wooError s WUndef WUndef"
| "errorFromValue v = wooError ''E_ERROR'' (WStr ''raised non-error value'') v"

fun normalizeVmError :: "thrown \<Rightarrow> error_value" where
  "normalizeVmError (Woo_thrown e) =
     (if has_code e then e else wooError ''E_INTERNAL'' (WStr ''unknown VM error'') (WStr ''[object Object]''))"
| "normalizeVmError (Host_thrown message) = wooError ''E_INTERNAL'' (WStr message) WUndef"
| "normalizeVmError (Other_thrown text) = wooError ''E_INTERNAL'' (WStr ''unknown VM error'') (WStr text)"
| "normalizeVmError Plan_transfer = wooError ''E_INTERNAL'' (WStr ''unknown VM error'') (WStr ''[object Object]'')"

section \<open>Reading a value at a type\<close>

fun assertString :: "woo_value \<Rightarrow> thrown + string" where
  "assertString (WStr s) = Inr s"
| "assertString v = Inl (woo_throw ''E_TYPE'' ''expected string'' v)"

fun assertObj :: "woo_value \<Rightarrow> thrown + string" where
  "assertObj (WStr s) = Inr s"
| "assertObj v = Inl (woo_throw ''E_TYPE'' ''expected object reference'' v)"

fun assertMap :: "woo_value \<Rightarrow> thrown + (string \<times> woo_value) list" where
  "assertMap (WMap m) = Inr m"
| "assertMap v = Inl (woo_throw ''E_TYPE'' ''expected map'' v)"

fun assertList :: "woo_value \<Rightarrow> thrown + woo_value list" where
  "assertList (WList xs) = Inr xs"
| "assertList v = Inl (woo_throw ''E_TYPE'' ''expected list'' v)"

fun numeric :: "string \<Rightarrow> woo_value \<Rightarrow> thrown + int" where
  "numeric label (WNum (Finite n)) = Inr n"
| "numeric label v = Inl (woo_throw ''E_TYPE'' (label @ '' must be numeric'') v)"

definition oneBasedIndex :: "woo_value \<Rightarrow> thrown + int" where
  "oneBasedIndex v = (case numeric ''list index'' v of Inl e \<Rightarrow> Inl e | Inr n \<Rightarrow> Inr (n - 1))"

section \<open>Conversions of the language\<close>

text \<open>\<open>JSON.stringify\<close>: \<open>undefined\<close> disappears from objects and is \<open>null\<close> in arrays.\<close>

fun js_stringify :: "woo_value \<Rightarrow> string option" where
  "js_stringify WUndef = None"
| "js_stringify WNull = Some ''null''"
| "js_stringify (WBool b) = Some (if b then ''true'' else ''false'')"
| "js_stringify (WNum n) = Some (case n of Finite i \<Rightarrow> show_int i | _ \<Rightarrow> ''null'')"
| "js_stringify (WStr s) = Some (json_string s)"
| "js_stringify (WList xs) =
     Some (''['' @ join_with '','' (map (\<lambda>x. case js_stringify x of Some s \<Rightarrow> s | None \<Rightarrow> ''null'') xs) @ '']'')"
| "js_stringify (WMap kvs) =
     Some (''{'' @ join_with '','' (concat (map (\<lambda>(k, v). case js_stringify v of
        Some s \<Rightarrow> [json_string k @ '':'' @ s] | None \<Rightarrow> []) kvs)) @ ''}'')"

text \<open>\<open>String(value)\<close>.\<close>

fun js_String :: "woo_value \<Rightarrow> string" where
  "js_String WUndef = ''undefined''"
| "js_String WNull = ''null''"
| "js_String (WBool b) = (if b then ''true'' else ''false'')"
| "js_String (WNum n) = (case n of Finite i \<Rightarrow> show_int i | Infinite neg \<Rightarrow> (if neg then ''-Infinity'' else ''Infinity'') | Not_a_number \<Rightarrow> ''NaN'')"
| "js_String (WStr s) = s"
| "js_String (WList xs) = join_with '','' (map (\<lambda>x. if x = WNull \<or> x = WUndef then [] else js_String x) xs)"
| "js_String (WMap _) = ''[object Object]''"

text \<open>White space and letter case on the modelled code units (Latin-1).\<close>

definition is_space :: "char \<Rightarrow> bool" where
  "is_space c \<longleftrightarrow> (let n = of_char c :: nat in (9 \<le> n \<and> n \<le> 13) \<or> n = 32 \<or> n = 160)"

definition js_trim :: "string \<Rightarrow> string" where
  "js_trim s = rev (dropWhile is_space (rev (dropWhile is_space s)))"

definition lower_char :: "char \<Rightarrow> char" where
  "lower_char c = (let n = of_char c :: nat in
     if (65 \<le> n \<and> n \<le> 90) \<or> (192 \<le> n \<and> n \<le> 222 \<and> n \<noteq> 215) then char_of (n + 32) else c)"

text \<open>\<open>text.indexOf(needle)\<close> from a position, and \<open>text.split(sep)\<close> for a non-empty separator.\<close>

fun find_sub :: "string \<Rightarrow> string \<Rightarrow> nat \<Rightarrow> nat option" where
  "find_sub needle [] i = (if needle = [] then Some i else None)"
| "find_sub needle (c # cs) i = (if starts_with needle (c # cs) then Some i else find_sub needle cs (Suc i))"

lemma find_sub_bound: "find_sub needle s i = Some j \<Longrightarrow> i \<le> j \<and> j - i + length needle \<le> length s"
proof (induction s arbitrary: i)
  case (Cons c cs)
  show ?case
  proof (cases "starts_with needle (c # cs)")
    case True
    then have "length needle \<le> length (c # cs)" unfolding starts_with_def by (metis length_take min.cobounded1)
    then show ?thesis using Cons.prems True by simp
  next
    case False
    then show ?thesis using Cons.IH [of "Suc i"] Cons.prems by auto
  qed
qed (auto split: if_splits)

function js_split :: "string \<Rightarrow> string \<Rightarrow> string list" where
  "js_split sep text = (case (if sep = [] then None else find_sub sep text 0) of
      None \<Rightarrow> [text]
    | Some i \<Rightarrow> take i text # js_split sep (drop (i + length sep) text))"
  by pat_completeness auto

termination
  by (relation "measure (\<lambda>(sep, text). length text)") (auto split: if_splits dest!: find_sub_bound simp: gr0_conv_Suc neq_Nil_conv)

declare js_split.simps [simp del]

end
