(* ===== verification/VM_Frame.thy ===== *)
theory VM_Frame
  imports Woo_Value
begin

text \<open>
  The state of the bytecode interpreter (\<open>src/core/tiny-vm.ts\<close>): frames with their operand stack, locals,
  handlers and budgets, the object world they run against, and the primitive operations on the current
  frame. An operation reads and updates the current frame and the world and either gives a value or throws;
  what it did before it threw stays done, as in the source.

  The world (\<open>src/core/world.ts\<close>) is a parameter: a record of functions over an arbitrary state type, so
  every theorem holds for all behaviours of the object database, remote calls included. Stacks, handler
  stacks and the frame stack are lists with the top first.
\<close>

section \<open>Bytecode, contexts and frames\<close>

type_synonym tiny_op = "string \<times> woo_value list"

record tiny_bytecode =
  bc_ops :: "tiny_op list"
  bc_literals :: "woo_value list"
  bc_num_locals :: int
  bc_max_stack :: int
  bc_max_ticks :: "int option"
  bc_max_memory :: "int option"
  bc_max_wall_ms :: "int option"
  bc_version :: int

record vm_handler =
  vh_targetPc :: int
  vh_errors :: "string list"
  vh_stackDepth :: nat

record call_context =
  cx_space :: string
  cx_seq :: int
  cx_session :: "string option"
  cx_actor :: string
  cx_player :: "string option"
  cx_caller :: string
  cx_callerPerms :: string
  cx_progr :: string
  cx_thisObj :: string
  cx_verbName :: string
  cx_definer :: string
  cx_message :: woo_value

record vm_frame =
  vf_ctx :: call_context
  vf_bytecode :: tiny_bytecode
  vf_args :: "woo_value list"
  vf_stack :: "woo_value list"
  vf_locals :: "woo_value list"
  vf_handlers :: "vm_handler list"
  vf_pc :: int
  vf_ticksRemaining :: int
  vf_startedAt :: int
  vf_activeWallMs :: int
  vf_memoryUsed :: int

definition DEFAULT_TICKS :: int where "DEFAULT_TICKS = 100000"
definition DEFAULT_MEMORY :: int where "DEFAULT_MEMORY = 4 * 1024 * 1024"
definition DEFAULT_WALL_MS :: int where "DEFAULT_WALL_MS = 10000"
definition MAX_VM_FRAMES :: nat where "MAX_VM_FRAMES = 128"
definition MAX_RUNTIME_LOCALS :: int where "MAX_RUNTIME_LOCALS = 1024"
definition MAX_RUNTIME_STACK :: int where "MAX_RUNTIME_STACK = 4096"

section \<open>The world\<close>

text \<open>What the interpreter reads of a verb and of an object.\<close>

record verb_def =
  vd_native :: bool
  vd_owner :: string
  vd_bytecode :: tiny_bytecode
  vd_version :: int
  vd_line_map :: "(string \<times> woo_value) list"

record object_info =
  ob_parent :: "string option"
  ob_flags :: "string list"

text \<open>
  Methods that differ only in their arguments are reached through \<open>vw_method\<close>, by name and under the context
  of the calling frame. \<open>vw_now\<close> is \<open>Date.now()\<close>; \<open>js_Number\<close> and \<open>js_fromCodePoint\<close> are the numeric
  conversion and the code points of the language.
\<close>

record 'w vm_world =
  vw_now :: "'w \<Rightarrow> int \<times> 'w"
  vw_setTurnRecorderFrame :: "call_context \<Rightarrow> 'w \<Rightarrow> 'w"
  vw_object :: "string \<Rightarrow> 'w \<Rightarrow> (thrown + object_info) \<times> 'w"
  vw_isRemoteObject :: "string \<Rightarrow> 'w \<Rightarrow> (thrown + bool) \<times> 'w"
  vw_resolveVerb :: "string option \<Rightarrow> string \<Rightarrow> string \<Rightarrow> 'w \<Rightarrow> (thrown + string \<times> verb_def \<times> woo_value) \<times> 'w"
  vw_assertCanExecuteVerb :: "string \<Rightarrow> string \<Rightarrow> string \<Rightarrow> verb_def \<Rightarrow> 'w \<Rightarrow> (thrown + unit) \<times> 'w"
  vw_recordTurnDispatch ::
    "string \<Rightarrow> string \<Rightarrow> string option \<Rightarrow> string \<Rightarrow> verb_def \<Rightarrow> woo_value \<Rightarrow> 'w \<Rightarrow> (thrown + unit) \<times> 'w"
  vw_observe :: "call_context \<Rightarrow> woo_value \<Rightarrow> 'w \<Rightarrow> (thrown + unit) \<times> 'w"
  vw_method :: "string \<Rightarrow> call_context \<Rightarrow> woo_value list \<Rightarrow> 'w \<Rightarrow> (thrown + woo_value) \<times> 'w"
  vw_ownVerb :: "string \<Rightarrow> string \<Rightarrow> 'w \<Rightarrow> verb_def option"
  js_Number :: "string \<Rightarrow> number"
  js_fromCodePoint :: "int \<Rightarrow> string"

section \<open>Operations on the current frame\<close>

type_synonym ('w, 'a) frame_op = "vm_frame \<Rightarrow> 'w \<Rightarrow> (thrown + 'a) \<times> vm_frame \<times> 'w"

definition op_give :: "'a \<Rightarrow> ('w, 'a) frame_op" where
  "op_give a f w = (Inr a, f, w)"

definition op_fail :: "thrown \<Rightarrow> ('w, 'a) frame_op" where
  "op_fail e f w = (Inl e, f, w)"

definition op_check :: "thrown + 'a \<Rightarrow> ('w, 'a) frame_op" where
  "op_check r f w = (r, f, w)"

definition op_seq :: "('w, 'a) frame_op \<Rightarrow> ('a \<Rightarrow> ('w, 'b) frame_op) \<Rightarrow> ('w, 'b) frame_op" where
  "op_seq m k f w = (case m f w of (Inl e, f', w') \<Rightarrow> (Inl e, f', w') | (Inr a, f', w') \<Rightarrow> k a f' w')"

definition op_read :: "(vm_frame \<Rightarrow> 'a) \<Rightarrow> ('w, 'a) frame_op" where
  "op_read g f w = (Inr (g f), f, w)"

definition op_update :: "(vm_frame \<Rightarrow> vm_frame) \<Rightarrow> ('w, unit) frame_op" where
  "op_update g f w = (Inr (), g f, w)"

definition op_world :: "('w \<Rightarrow> (thrown + 'a) \<times> 'w) \<Rightarrow> ('w, 'a) frame_op" where
  "op_world h f w = (case h w of (r, w') \<Rightarrow> (r, f, w'))"

text \<open>A sequence of operations on the elements of a list, its results in order.\<close>

fun op_each :: "('a \<Rightarrow> ('w, 'b) frame_op) \<Rightarrow> 'a list \<Rightarrow> ('w, 'b list) frame_op" where
  "op_each m [] = op_give []"
| "op_each m (x # xs) = op_seq (m x) (\<lambda>y. op_seq (op_each m xs) (\<lambda>ys. op_give (y # ys)))"

definition woo_fail :: "string \<Rightarrow> string \<Rightarrow> woo_value \<Rightarrow> ('w, 'a) frame_op" where
  "woo_fail code message v = op_fail (woo_throw code message v)"

definition pop :: "('w, woo_value) frame_op" where
  "pop f w = (case vf_stack f of
      [] \<Rightarrow> (Inl (woo_throw ''E_RANGE'' ''stack underflow'' WUndef), f, w)
    | v # stack \<Rightarrow> (Inr v, f\<lparr>vf_stack := stack\<rparr>, w))"

definition peek :: "('w, woo_value) frame_op" where
  "peek f w = (case vf_stack f of
      [] \<Rightarrow> (Inl (woo_throw ''E_RANGE'' ''stack underflow'' WUndef), f, w)
    | v # stack \<Rightarrow> (Inr v, f, w))"

text \<open>\<open>push\<close> as a function of the frame; it is also how a result reaches the caller's frame.\<close>

definition push_value :: "woo_value \<Rightarrow> vm_frame \<Rightarrow> thrown + vm_frame" where
  "push_value v f = (if int (length (vf_stack f)) \<ge> bc_max_stack (vf_bytecode f)
     then Inl (woo_throw ''E_RANGE'' ''stack overflow'' WUndef)
     else Inr (f\<lparr>vf_stack := v # vf_stack f\<rparr>))"

definition push :: "woo_value \<Rightarrow> ('w, unit) frame_op" where
  "push v f w = (case push_value v f of Inl e \<Rightarrow> (Inl e, f, w) | Inr f' \<Rightarrow> (Inr (), f', w))"

definition jump :: "int \<Rightarrow> woo_value \<Rightarrow> ('w, unit) frame_op" where
  "jump currentPc offset = op_seq (op_check (numeric ''jump offset'' offset))
     (\<lambda>n. op_update (\<lambda>f. f\<lparr>vf_pc := currentPc + n + 1\<rparr>))"

definition memory_limit :: "tiny_bytecode \<Rightarrow> int" where
  "memory_limit b = (case bc_max_memory b of Some m \<Rightarrow> m | None \<Rightarrow> DEFAULT_MEMORY)"

definition allocate :: "woo_value \<Rightarrow> ('w, woo_value) frame_op" where
  "allocate v f w = (let f' = f\<lparr>vf_memoryUsed := vf_memoryUsed f + estimateSize v\<rparr> in
     if vf_memoryUsed f' > memory_limit (vf_bytecode f)
     then (Inl (woo_throw ''E_MEM'' ''VM memory budget exceeded'' WUndef), f', w)
     else (Inr v, f', w))"

definition chargeTicks :: "int \<Rightarrow> ('w, unit) frame_op" where
  "chargeTicks ticks f w = (let f' = f\<lparr>vf_ticksRemaining := vf_ticksRemaining f - ticks\<rparr> in
     if vf_ticksRemaining f' < 0
     then (Inl (woo_throw ''E_TICKS'' ''task exceeded tick budget'' WUndef), f', w)
     else (Inr (), f', w))"

text \<open>\<open>values.unshift(pop())\<close>, \<open>count\<close> times; a negative count pops nothing.\<close>

fun pop_many :: "nat \<Rightarrow> woo_value list \<Rightarrow> ('w, woo_value list) frame_op" where
  "pop_many 0 values = op_give values"
| "pop_many (Suc n) values = op_seq pop (\<lambda>v. pop_many n (v # values))"

definition popArgs :: "int \<Rightarrow> ('w, woo_value list) frame_op" where
  "popArgs argc = pop_many (nat argc) []"

fun pop_strings :: "nat \<Rightarrow> string list \<Rightarrow> ('w, string list) frame_op" where
  "pop_strings 0 parts = op_give parts"
| "pop_strings (Suc n) parts = op_seq pop (\<lambda>v. op_seq (op_check (assertString v)) (\<lambda>s. pop_strings n (s # parts)))"

fun pop_entries :: "nat \<Rightarrow> (string \<times> woo_value) list \<Rightarrow> ('w, (string \<times> woo_value) list) frame_op" where
  "pop_entries 0 entries = op_give entries"
| "pop_entries (Suc n) entries = op_seq pop (\<lambda>v. op_seq pop (\<lambda>k. op_seq (op_check (assertString k))
     (\<lambda>key. pop_entries n ((key, v) # entries))))"

definition operand :: "woo_value list \<Rightarrow> nat \<Rightarrow> woo_value" where
  "operand ops k = (if k < length ops then ops ! k else WUndef)"

definition literal :: "woo_value \<Rightarrow> ('w, woo_value) frame_op" where
  "literal i = op_seq (op_check (numeric ''literal index'' i)) (\<lambda>index.
     op_seq (op_read (\<lambda>f. bc_literals (vf_bytecode f))) (\<lambda>literals.
       if index < 0 \<or> index \<ge> int (length literals)
       then woo_fail ''E_RANGE'' ''literal index out of range'' (WInt index)
       else op_give (literals ! nat index)))"

definition localIndex :: "woo_value \<Rightarrow> ('w, nat) frame_op" where
  "localIndex i = op_seq (op_check (numeric ''local index'' i)) (\<lambda>index.
     op_seq (op_read (\<lambda>f. length (vf_locals f))) (\<lambda>len.
       if index < 0 \<or> index \<ge> int len
       then woo_fail ''E_RANGE'' ''local index out of range'' (WInt index)
       else op_give (nat index)))"

definition set_local :: "nat \<Rightarrow> woo_value \<Rightarrow> ('w, unit) frame_op" where
  "set_local i v = op_update (\<lambda>f. f\<lparr>vf_locals := (vf_locals f)[i := v]\<rparr>)"

text \<open>\<open>current.stack[current.stack.length - 2]\<close> and the assignment to the top of the stack.\<close>

definition below_top :: "('w, woo_value) frame_op" where
  "below_top = op_read (\<lambda>f. case vf_stack f of a # b # stack \<Rightarrow> b | _ \<Rightarrow> WUndef)"

definition set_top :: "woo_value \<Rightarrow> ('w, unit) frame_op" where
  "set_top v = op_update (\<lambda>f. f\<lparr>vf_stack := (case vf_stack f of [] \<Rightarrow> [] | _ # stack \<Rightarrow> v # stack)\<rparr>)"

definition world_method :: "'w vm_world \<Rightarrow> string \<Rightarrow> woo_value list \<Rightarrow> ('w, woo_value) frame_op" where
  "world_method W name args = op_seq (op_read vf_ctx) (\<lambda>ctx. op_world (vw_method W name ctx args))"

section \<open>Making a frame\<close>

definition validateRuntimeBytecode :: "tiny_bytecode \<Rightarrow> thrown + unit" where
  "validateRuntimeBytecode b =
     (if bc_num_locals b < 0 \<or> bc_num_locals b > MAX_RUNTIME_LOCALS
      then Inl (woo_throw ''E_COMPILE'' ''bytecode num_locals exceeds limit 1024'' WUndef)
      else if bc_max_stack b < 0 \<or> bc_max_stack b > MAX_RUNTIME_STACK
      then Inl (woo_throw ''E_COMPILE'' ''bytecode max_stack exceeds limit 4096'' WUndef)
      else Inr ())"

definition tick_limit :: "tiny_bytecode \<Rightarrow> int" where
  "tick_limit b = (case bc_max_ticks b of Some t \<Rightarrow> t | None \<Rightarrow> DEFAULT_TICKS)"

definition initial_locals :: "nat \<Rightarrow> woo_value list \<Rightarrow> woo_value list" where
  "initial_locals n args = take n args @ replicate (n - length args) WNull"

definition makeFrame ::
    "'w vm_world \<Rightarrow> call_context \<Rightarrow> tiny_bytecode \<Rightarrow> woo_value list \<Rightarrow> 'w \<Rightarrow> (thrown + vm_frame) \<times> 'w" where
  "makeFrame W ctx b args w = (case validateRuntimeBytecode b of
      Inl e \<Rightarrow> (Inl e, w)
    | Inr _ \<Rightarrow> (case vw_now W w of (now, w') \<Rightarrow>
        (Inr \<lparr>vf_ctx = ctx, vf_bytecode = b, vf_args = args, vf_stack = [], vf_locals = initial_locals (nat (bc_num_locals b)) args,
           vf_handlers = [], vf_pc = 0, vf_ticksRemaining = tick_limit b, vf_startedAt = now, vf_activeWallMs = 0,
           vf_memoryUsed = 0\<rparr>, w')))"

end
