(* ===== verification/VM_Builtins.thy ===== *)
theory VM_Builtins
  imports VM_Frame Fractional_Rank
begin

text \<open>
  The builtin functions of the interpreter (\<open>callBuiltin\<close> and \<open>tryFastBuiltin\<close> of \<open>src/core/tiny-vm.ts\<close>): the
  pure ones computed, the others as their argument checks, in order, followed by the call of the world. The
  rows of \<open>WORLD_BUILTINS\<close> are the cases of the switch that only check and forward. The whole-tree
  projection behind \<open>object_tree_rows\<close> is left to the world after its argument checks.
\<close>

section \<open>Names\<close>

definition BUILTIN_NAMES :: "string list" where
  "BUILTIN_NAMES = [
   ''length'', ''keys'', ''values'', ''has'', ''typeof'', ''to_string'', ''min'', ''max'', ''floor'', ''ceil'',
     ''round'', ''abs'', ''now'', ''create'', ''recycle'', ''move'', ''moveto'', ''chparent'', ''has_flag'',
     ''isa'', ''is_recycled'', ''directory_reconcile_corenames'', ''random'', ''contents'', ''location'',
     ''task_perms'', ''caller_perms'', ''set_task_perms'', ''set_presence'', ''observe_to_space'', ''tell'',
     ''current_location'', ''current_session'', ''session_location'', ''all_locations'', ''primary_session'',
     ''is_connected'', ''idle_seconds'', ''builder_create_object'', ''builder_chparent'',
     ''_dead_builder_set_property'', ''_dead_builder_inspect'', ''_dead_builder_search'',
     ''_dead_programmer_inspect'', ''_dead_programmer_resolve_verb'', ''_dead_programmer_list_verb'',
     ''_dead_programmer_search'', ''_dead_programmer_install_verb'', ''_dead_programmer_set_verb_info'',
     ''_dead_programmer_set_property_info'', ''_dead_programmer_trace'', ''editor_invoke'', ''editor_what'',
     ''editor_view'', ''editor_replace'', ''editor_insert'', ''editor_delete'', ''editor_dry_run'',
     ''editor_save'', ''editor_pause'', ''editor_abort'', ''str_trim'', ''str_lower'', ''str_starts'',
     ''str_index'', ''str_slice'', ''str_char'', ''dispatch'', ''execute_command_plan'', ''str_join'',
     ''collect_prop'', ''to_int'', ''to_float'', ''str_split'', ''programmer_eval'', ''parents'', ''children'',
     ''valid'', ''verbs'', ''verb_info'', ''verb_code'', ''add_verb'', ''delete_verb'', ''set_verb_info'',
     ''set_verb_code'', ''compile_verb'', ''properties'', ''property_info'', ''add_property'',
     ''delete_property'', ''set_property_info'', ''clear_property'', ''is_clear_property'',
     ''authoring_inspect'', ''authoring_search'', ''set_object_name'', ''is_remote_object'',
     ''presence_status'', ''_dead_room_look_projection'', ''_dead_room_who_projection'',
     ''_dead_player_listing_projection'', ''_dead_object_examine_projection'', ''_dead_help_topic_projection'',
     ''present_actors'', ''_dead_connected_players'', ''session_metadata'', ''visible_contents'',
     ''obvious_verbs'', ''remote_describe'', ''active_actors'', ''listinsert'', ''object_tree_rows'',
     ''_dead_object_siblings_ordered'', ''room_roster'', ''ordered_children'', ''rank_between'',
     ''ordered_neighbors'', ''event_schema'', ''has_surface'', ''schedule'', ''schedule_at'',
     ''cancel_schedule'']"

definition builtin_name :: "woo_value \<Rightarrow> thrown + string option" where
  "builtin_name v = (case v of
      WNum (Finite n) \<Rightarrow> Inr (if 0 \<le> n \<and> n < int (length BUILTIN_NAMES) then Some (BUILTIN_NAMES ! nat n) else None)
    | WNum _ \<Rightarrow> Inr None
    | _ \<Rightarrow> map_sum id Some (assertString (or_else v (WStr []))))"

section \<open>Arithmetic of numbers\<close>

fun number_add :: "number \<Rightarrow> number \<Rightarrow> number" where
  "number_add (Finite a) (Finite b) = Finite (a + b)"
| "number_add (Infinite s) (Finite b) = Infinite s"
| "number_add (Finite a) (Infinite s) = Infinite s"
| "number_add (Infinite s) (Infinite t) = (if s = t then Infinite s else Not_a_number)"
| "number_add _ _ = Not_a_number"

fun number_mult :: "number \<Rightarrow> number \<Rightarrow> number" where
  "number_mult (Finite a) (Finite b) = Finite (a * b)"
| "number_mult (Infinite s) (Finite b) = (if b = 0 then Not_a_number else Infinite (s \<noteq> (b < 0)))"
| "number_mult (Finite a) (Infinite s) = (if a = 0 then Not_a_number else Infinite (s \<noteq> (a < 0)))"
| "number_mult (Infinite s) (Infinite t) = Infinite (s \<noteq> t)"
| "number_mult _ _ = Not_a_number"

fun number_less :: "number \<Rightarrow> number \<Rightarrow> bool" where
  "number_less (Finite a) (Finite b) = (a < b)"
| "number_less (Finite a) (Infinite s) = (\<not> s)"
| "number_less (Infinite s) (Finite b) = s"
| "number_less (Infinite s) (Infinite t) = (s \<and> \<not> t)"
| "number_less _ _ = False"

definition number_le :: "number \<Rightarrow> number \<Rightarrow> bool" where
  "number_le a b \<longleftrightarrow> number_less a b \<or> number_eq a b"

text \<open>\<open>Math.trunc(a / b)\<close> and \<open>a % b\<close> on integers: both round towards zero.\<close>

definition trunc_div :: "int \<Rightarrow> int \<Rightarrow> int" where
  "trunc_div a b = sgn a * sgn b * (\<bar>a\<bar> div \<bar>b\<bar>)"

definition trunc_mod :: "int \<Rightarrow> int \<Rightarrow> int" where
  "trunc_mod a b = a - b * trunc_div a b"

section \<open>Pure builtins\<close>

abbreviation arity_error :: "string \<Rightarrow> thrown + 'a" where
  "arity_error message \<equiv> Inl (woo_throw ''E_INVARG'' message WUndef)"

definition sum_bind :: "'e + 'a \<Rightarrow> ('a \<Rightarrow> 'e + 'b) \<Rightarrow> 'e + 'b" where
  "sum_bind r k = (case r of Inl e \<Rightarrow> Inl e | Inr a \<Rightarrow> k a)"

fun sum_each :: "('a \<Rightarrow> 'e + 'b) \<Rightarrow> 'a list \<Rightarrow> 'e + 'b list" where
  "sum_each g [] = Inr []"
| "sum_each g (x # xs) = sum_bind (g x) (\<lambda>y. sum_bind (sum_each g xs) (\<lambda>ys. Inr (y # ys)))"

text \<open>\<open>assertString(args[k] ?? "")\<close>.\<close>

definition text_arg :: "woo_value list \<Rightarrow> nat \<Rightarrow> thrown + string" where
  "text_arg args k = assertString (or_else (operand args k) (WStr []))"

fun builtin_length :: "woo_value \<Rightarrow> thrown + woo_value" where
  "builtin_length (WStr s) = Inr (WInt (int (length s)))"
| "builtin_length (WList xs) = Inr (WInt (int (length xs)))"
| "builtin_length (WMap m) = Inr (WInt (int (length m)))"
| "builtin_length v = Inl (woo_throw ''E_TYPE'' ''length requires string, list, or map'' v)"

text \<open>The map case shared by \<open>has\<close> and the membership operator: own string keys.\<close>

definition map_has :: "(string \<times> woo_value) list \<Rightarrow> woo_value \<Rightarrow> bool" where
  "map_has m key = (case key of WStr k \<Rightarrow> hasOwnMapKey m k | _ \<Rightarrow> False)"

fun builtin_has :: "woo_value \<Rightarrow> woo_value \<Rightarrow> bool" where
  "builtin_has (WList xs) key = list_ex (\<lambda>x. valuesEqual x key) xs"
| "builtin_has (WMap m) key = map_has m key"
| "builtin_has _ _ = False"

definition builtin_to_number :: "'w vm_world \<Rightarrow> woo_value \<Rightarrow> woo_value" where
  "builtin_to_number W v = (case v of
      WNum n \<Rightarrow> WNum n
    | WBool b \<Rightarrow> WInt (if b then 1 else 0)
    | WStr s \<Rightarrow> (let trimmed = js_trim s in
        if trimmed = [] then WInt 0
        else case js_Number W trimmed of Finite n \<Rightarrow> WInt n | _ \<Rightarrow> WInt 0)
    | _ \<Rightarrow> WInt 0)"

definition builtin_str_slice :: "woo_value list \<Rightarrow> thrown + woo_value" where
  "builtin_str_slice args =
     (if length args < 2 \<or> length args > 3 then arity_error ''str_slice expects text, start, and optional end''
      else sum_bind (text_arg args 0) (\<lambda>t.
        sum_bind (numeric ''str_slice start'' (operand args 1)) (\<lambda>a.
        let start = max 1 a in
        sum_bind (if length args \<ge> 3 \<and> operand args 2 \<noteq> WNull
                  then sum_bind (numeric ''str_slice end'' (operand args 2)) (\<lambda>e. Inr (max 0 e))
                  else Inr (int (length t))) (\<lambda>end_at.
        if end_at < start then Inr (WStr [])
        else Inr (WStr (take (nat (end_at - (start - 1))) (drop (nat (start - 1)) t)))))))"

definition joined :: "woo_value \<Rightarrow> string" where
  "joined v = (case v of WStr s \<Rightarrow> s | _ \<Rightarrow> (case js_stringify v of Some s \<Rightarrow> s | None \<Rightarrow> []))"

definition builtin_listinsert :: "woo_value list \<Rightarrow> thrown + woo_value" where
  "builtin_listinsert args =
     (if length args \<noteq> 3 then arity_error ''listinsert expects list, one-based index, and value''
      else sum_bind (assertList (operand args 0)) (\<lambda>xs.
        sum_bind (numeric ''listinsert index'' (operand args 1)) (\<lambda>i.
        if i < 1 \<or> i > int (length xs) + 1 then Inl (woo_throw ''E_RANGE'' ''listinsert index out of range'' (WInt i))
        else Inr (WList (take (nat (i - 1)) xs @ [or_else (operand args 2) WNull] @ drop (nat (i - 1)) xs)))))"

fun rank_message :: "rank_error \<Rightarrow> string" where
  "rank_message (MidpointBounds a b) =
     ''fractional-rank: midpoint lower bound '' @ json_string a @ '' >= upper bound '' @ json_string b"
| "rank_message (InvalidLowerBound a) = ''fractional-rank: invalid lower bound '' @ json_string a"
| "rank_message (InvalidUpperBound b) = ''fractional-rank: invalid upper bound '' @ json_string b"
| "rank_message (BoundsOutOfOrder a b) =
     ''fractional-rank: lower bound '' @ json_string a @ '' >= upper bound '' @ json_string b"
| "rank_message (InvalidKey a) = ''fractional-rank: invalid key '' @ json_string a"

definition rank_bound :: "woo_value \<Rightarrow> thrown + string option" where
  "rank_bound v = (if v = WNull then Inr None else map_sum id Some (assertString v))"

definition bound_value :: "string option \<Rightarrow> woo_value" where
  "bound_value b = (case b of None \<Rightarrow> WNull | Some s \<Rightarrow> WStr s)"

definition builtin_rank_between :: "woo_value list \<Rightarrow> thrown + woo_value" where
  "builtin_rank_between args =
     (if length args \<noteq> 2 then arity_error ''rank_between expects (a, b)''
      else sum_bind (rank_bound (operand args 0)) (\<lambda>lo. sum_bind (rank_bound (operand args 1)) (\<lambda>hi.
        case rankBetween lo hi of
          Inr r \<Rightarrow> Inr (WStr r)
        | Inl e \<Rightarrow> Inl (woo_throw ''E_INVARG'' (''rank_between: '' @ rank_message e)
            (WMap [(''a'', bound_value lo), (''b'', bound_value hi)])))))"

text \<open>The builtins that need neither the frame nor the world; \<open>None\<close> for another name.\<close>

definition pure_builtin :: "'w vm_world \<Rightarrow> string \<Rightarrow> woo_value list \<Rightarrow> (thrown + woo_value) option" where
  "pure_builtin W name args = (let a = operand args in
     if name = ''length'' then Some (builtin_length (a 0))
     else if name = ''keys'' then Some (map_sum id (\<lambda>m. WList (map (\<lambda>(k, v). WStr k) m)) (assertMap (a 0)))
     else if name = ''values'' then Some (map_sum id (\<lambda>m. WList (map snd m)) (assertMap (a 0)))
     else if name = ''has'' then Some (Inr (WBool (builtin_has (a 0) (a 1))))
     else if name = ''typeof'' then Some (Inr (WStr (typeName (a 0))))
     else if name = ''to_string'' then Some (Inr (case a 0 of
         WStr s \<Rightarrow> WStr s
       | v \<Rightarrow> (case js_stringify v of Some s \<Rightarrow> WStr s | None \<Rightarrow> WUndef)))
     else if name = ''to_int'' \<or> name = ''to_float'' then Some (Inr (builtin_to_number W (a 0)))
     else if name = ''str_trim'' then Some (map_sum id (\<lambda>s. WStr (js_trim s)) (text_arg args 0))
     else if name = ''str_lower'' then Some (map_sum id (\<lambda>s. WStr (map lower_char s)) (text_arg args 0))
     else if name = ''str_starts'' then Some (if length args \<noteq> 2 then arity_error ''str_starts expects text and prefix''
       else sum_bind (text_arg args 0) (\<lambda>t. sum_bind (text_arg args 1) (\<lambda>p. Inr (WBool (starts_with p t)))))
     else if name = ''str_index'' then Some (if length args \<noteq> 2 then arity_error ''str_index expects text and needle''
       else sum_bind (text_arg args 0) (\<lambda>t. sum_bind (text_arg args 1) (\<lambda>n.
         Inr (WInt (case find_sub n t 0 of None \<Rightarrow> 0 | Some i \<Rightarrow> int i + 1)))))
     else if name = ''str_slice'' then Some (builtin_str_slice args)
     else if name = ''str_char'' then Some (if length args \<noteq> 1 then arity_error ''str_char expects a code point''
       else sum_bind (numeric ''str_char code point'' (a 0)) (\<lambda>n.
         if n < 0 \<or> n > 0x10FFFF then Inl (woo_throw ''E_RANGE'' ''invalid code point'' (WInt n))
         else Inr (WStr (js_fromCodePoint W n))))
     else if name = ''str_join'' then Some (if length args \<noteq> 2 then arity_error ''str_join expects list and separator''
       else sum_bind (assertList (a 0)) (\<lambda>xs. sum_bind (text_arg args 1) (\<lambda>sep. Inr (WStr (join_with sep (map joined xs))))))
     else if name = ''str_split'' then Some (if length args \<noteq> 2 then arity_error ''str_split expects text and separator''
       else sum_bind (text_arg args 0) (\<lambda>t. sum_bind (text_arg args 1) (\<lambda>sep.
         Inr (WList (map WStr (if sep = [] then map (\<lambda>c. [c]) t else js_split sep t))))))
     else if name = ''min'' then Some (sum_bind (sum_each (numeric ''min argument'') args) (\<lambda>ns.
       Inr (WNum (if ns = [] then Infinite False else Finite (Min (set ns))))))
     else if name = ''max'' then Some (sum_bind (sum_each (numeric ''max argument'') args) (\<lambda>ns.
       Inr (WNum (if ns = [] then Infinite True else Finite (Max (set ns))))))
     else if name = ''floor'' then Some (map_sum id WInt (numeric ''floor argument'' (a 0)))
     else if name = ''ceil'' then Some (map_sum id WInt (numeric ''ceil argument'' (a 0)))
     else if name = ''round'' then Some (map_sum id WInt (numeric ''round argument'' (a 0)))
     else if name = ''abs'' then Some (map_sum id (\<lambda>n. WInt \<bar>n\<bar>) (numeric ''abs argument'' (a 0)))
     else if name = ''listinsert'' then Some (builtin_listinsert args)
     else if name = ''rank_between'' then Some (builtin_rank_between args)
     else None)"

section \<open>Builtins that forward to the world\<close>

datatype arg_spec = A_obj nat | A_str nat | A_text nat | A_num nat string | A_opt_num nat string | A_map nat
  | A_raw nat | A_null nat | A_true nat | A_rest nat

record world_builtin =
  wb_min :: nat
  wb_max :: "nat option"
  wb_message :: string
  wb_args :: "arg_spec list"
  wb_method :: string
  wb_result :: "woo_value option"

fun convert_arg :: "woo_value list \<Rightarrow> arg_spec \<Rightarrow> thrown + woo_value" where
  "convert_arg args (A_obj k) = map_sum id WStr (assertObj (operand args k))"
| "convert_arg args (A_str k) = map_sum id WStr (assertString (operand args k))"
| "convert_arg args (A_text k) = map_sum id WStr (text_arg args k)"
| "convert_arg args (A_num k label) = map_sum id WInt (numeric label (operand args k))"
| "convert_arg args (A_opt_num k label) =
     (if length args > k \<and> operand args k \<noteq> WNull then map_sum id WInt (numeric label (operand args k)) else Inr WNull)"
| "convert_arg args (A_map k) = map_sum id WMap (assertMap (operand args k))"
| "convert_arg args (A_raw k) = Inr (operand args k)"
| "convert_arg args (A_null k) = Inr (or_else (operand args k) WNull)"
| "convert_arg args (A_true k) = Inr (WBool (operand args k = WBool True))"
| "convert_arg args (A_rest k) = Inr (WList (drop k args))"

definition WORLD_BUILTINS :: "(string \<times> world_builtin) list" where
  "WORLD_BUILTINS = [
   (''move'', \<lparr>wb_min = 2, wb_max = Some 2, wb_message = ''move expects object and destination'', wb_args = [A_obj 0, A_obj 1], wb_method = ''moveAuthoredObjectChecked'', wb_result = Some (WBool True)\<rparr>),
   (''moveto'', \<lparr>wb_min = 2, wb_max = Some 2, wb_message = ''moveto expects object and target'', wb_args = [A_obj 0, A_obj 1], wb_method = ''movetoChecked'', wb_result = None\<rparr>),
   (''chparent'', \<lparr>wb_min = 2, wb_max = Some 2, wb_message = ''chparent expects object and new parent'', wb_args = [A_obj 0, A_obj 1], wb_method = ''chparentAuthoredObject'', wb_result = Some (WBool True)\<rparr>),
   (''is_connected'', \<lparr>wb_min = 1, wb_max = Some 1, wb_message = ''is_connected expects one actor'', wb_args = [A_obj 0], wb_method = ''actorIsConnected'', wb_result = None\<rparr>),
   (''describe_object'', \<lparr>wb_min = 1, wb_max = Some 1, wb_message = ''describe_object expects one object'', wb_args = [A_obj 0], wb_method = ''describeForActor'', wb_result = None\<rparr>),
   (''present_actors'', \<lparr>wb_min = 1, wb_max = Some 1, wb_message = ''present_actors expects one space'', wb_args = [A_obj 0], wb_method = ''presentActorsIn'', wb_result = None\<rparr>),
   (''active_actors'', \<lparr>wb_min = 1, wb_max = Some 1, wb_message = ''active_actors expects one space'', wb_args = [A_obj 0], wb_method = ''activeActorsIn'', wb_result = None\<rparr>),
   (''room_roster'', \<lparr>wb_min = 1, wb_max = Some 1, wb_message = ''room_roster expects one space'', wb_args = [A_obj 0], wb_method = ''roomRosterProjection'', wb_result = None\<rparr>),
   (''visible_contents'', \<lparr>wb_min = 1, wb_max = Some 1, wb_message = ''visible_contents expects one object'', wb_args = [A_obj 0], wb_method = ''visibleContentsForActor'', wb_result = None\<rparr>),
   (''obvious_verbs'', \<lparr>wb_min = 1, wb_max = Some 1, wb_message = ''obvious_verbs expects one object'', wb_args = [A_obj 0], wb_method = ''obviousVerbSpecsForActor'', wb_result = None\<rparr>),
   (''remote_describe'', \<lparr>wb_min = 1, wb_max = Some 1, wb_message = ''remote_describe expects one object or list of objects'', wb_args = [A_null 0], wb_method = ''remoteDescribeForActor'', wb_result = None\<rparr>),
   (''isa'', \<lparr>wb_min = 2, wb_max = Some 2, wb_message = ''isa expects object and ancestor'', wb_args = [A_obj 0, A_obj 1], wb_method = ''isDescendantOfChecked'', wb_result = None\<rparr>),
   (''event_schema'', \<lparr>wb_min = 2, wb_max = Some 2, wb_message = ''event_schema expects object and type'', wb_args = [A_obj 0, A_text 1], wb_method = ''eventSchemaFor'', wb_result = None\<rparr>),
   (''has_surface'', \<lparr>wb_min = 2, wb_max = Some 2, wb_message = ''has_surface expects actor and surface class'', wb_args = [A_obj 0, A_obj 1], wb_method = ''actorHasSurface'', wb_result = None\<rparr>),
   (''is_recycled'', \<lparr>wb_min = 1, wb_max = Some 1, wb_message = ''is_recycled expects one object'', wb_args = [A_obj 0], wb_method = ''isRecycledChecked'', wb_result = None\<rparr>),
   (''contents'', \<lparr>wb_min = 0, wb_max = None, wb_message = '''', wb_args = [A_obj 0], wb_method = ''contentsForExecution'', wb_result = None\<rparr>),
   (''tell'', \<lparr>wb_min = 2, wb_max = None, wb_message = ''tell expects actor and text'', wb_args = [A_obj 0, A_rest 1], wb_method = ''tellPlayer'', wb_result = Some WNull\<rparr>),
   (''execute_command_plan'', \<lparr>wb_min = 1, wb_max = Some 1, wb_message = ''execute_command_plan expects one plan'', wb_args = [A_map 0], wb_method = ''executeCommandPlan'', wb_result = None\<rparr>),
   (''cancel_schedule'', \<lparr>wb_min = 0, wb_max = None, wb_message = '''', wb_args = [A_str 0], wb_method = ''recordScheduleCancellation'', wb_result = None\<rparr>),
   (''builder_create_object'', \<lparr>wb_min = 1, wb_max = Some 2, wb_message = ''builder_create_object expects parent and optional opts'', wb_args = [A_obj 0, A_null 1], wb_method = ''builderCreateObject'', wb_result = None\<rparr>),
   (''builder_chparent'', \<lparr>wb_min = 2, wb_max = Some 3, wb_message = ''builder_chparent expects object, parent, and optional opts'', wb_args = [A_obj 0, A_obj 1, A_null 2], wb_method = ''builderChparent'', wb_result = None\<rparr>),
   (''recycle'', \<lparr>wb_min = 1, wb_max = Some 2, wb_message = ''recycle expects object and optional opts'', wb_args = [A_obj 0, A_null 1], wb_method = ''recycleChecked'', wb_result = None\<rparr>),
   (''programmer_eval'', \<lparr>wb_min = 1, wb_max = Some 2, wb_message = ''programmer_eval expects source and optional opts'', wb_args = [A_str 0, A_null 1], wb_method = ''programmerEval'', wb_result = None\<rparr>),
   (''editor_invoke'', \<lparr>wb_min = 3, wb_max = Some 4, wb_message = ''editor_invoke expects editor, target, descriptor, and optional opts'', wb_args = [A_obj 0, A_obj 1, A_raw 2, A_null 3], wb_method = ''editorInvoke'', wb_result = None\<rparr>),
   (''editor_what'', \<lparr>wb_min = 0, wb_max = Some 0, wb_message = ''editor_what expects no arguments'', wb_args = [], wb_method = ''editorWhat'', wb_result = None\<rparr>),
   (''editor_view'', \<lparr>wb_min = 0, wb_max = Some 1, wb_message = ''editor_view expects optional opts'', wb_args = [A_null 0], wb_method = ''editorView'', wb_result = None\<rparr>),
   (''editor_replace'', \<lparr>wb_min = 1, wb_max = Some 1, wb_message = ''editor_replace expects text'', wb_args = [A_str 0], wb_method = ''editorReplace'', wb_result = None\<rparr>),
   (''editor_insert'', \<lparr>wb_min = 2, wb_max = Some 2, wb_message = ''editor_insert expects line and text'', wb_args = [A_num 0 ''line'', A_str 1], wb_method = ''editorInsert'', wb_result = None\<rparr>),
   (''editor_delete'', \<lparr>wb_min = 1, wb_max = Some 2, wb_message = ''editor_delete expects start and optional end'', wb_args = [A_num 0 ''start'', A_opt_num 1 ''end''], wb_method = ''editorDelete'', wb_result = None\<rparr>),
   (''editor_dry_run'', \<lparr>wb_min = 0, wb_max = Some 0, wb_message = ''editor_dry_run expects no arguments'', wb_args = [], wb_method = ''editorDryRun'', wb_result = None\<rparr>),
   (''editor_save'', \<lparr>wb_min = 0, wb_max = Some 0, wb_message = ''editor_save expects no arguments'', wb_args = [], wb_method = ''editorSave'', wb_result = None\<rparr>),
   (''editor_pause'', \<lparr>wb_min = 0, wb_max = Some 0, wb_message = ''editor_pause expects no arguments'', wb_args = [], wb_method = ''editorPause'', wb_result = None\<rparr>),
   (''editor_abort'', \<lparr>wb_min = 0, wb_max = Some 0, wb_message = ''editor_abort expects no arguments'', wb_args = [], wb_method = ''editorAbort'', wb_result = None\<rparr>),
   (''parents'', \<lparr>wb_min = 1, wb_max = Some 1, wb_message = ''parents expects one object'', wb_args = [A_obj 0], wb_method = ''parents'', wb_result = None\<rparr>),
   (''children'', \<lparr>wb_min = 1, wb_max = Some 1, wb_message = ''children expects one object'', wb_args = [A_obj 0], wb_method = ''childrenOf'', wb_result = None\<rparr>),
   (''valid'', \<lparr>wb_min = 1, wb_max = Some 1, wb_message = ''valid expects one object'', wb_args = [A_obj 0], wb_method = ''valid'', wb_result = None\<rparr>),
   (''verbs'', \<lparr>wb_min = 1, wb_max = Some 1, wb_message = ''verbs expects one object'', wb_args = [A_obj 0], wb_method = ''ownVerbNames'', wb_result = None\<rparr>),
   (''verb_info'', \<lparr>wb_min = 2, wb_max = Some 2, wb_message = ''verb_info expects object and verb descriptor'', wb_args = [A_obj 0, A_raw 1], wb_method = ''verbInfoForActor'', wb_result = None\<rparr>),
   (''verb_code'', \<lparr>wb_min = 2, wb_max = Some 2, wb_message = ''verb_code expects object and verb descriptor'', wb_args = [A_obj 0, A_raw 1], wb_method = ''verbCodeForActor'', wb_result = None\<rparr>),
   (''add_verb'', \<lparr>wb_min = 2, wb_max = Some 2, wb_message = ''add_verb expects object and info map'', wb_args = [A_obj 0, A_raw 1], wb_method = ''addVerbForActor'', wb_result = None\<rparr>),
   (''delete_verb'', \<lparr>wb_min = 2, wb_max = Some 2, wb_message = ''delete_verb expects object and verb descriptor'', wb_args = [A_obj 0, A_raw 1], wb_method = ''deleteVerbForActor'', wb_result = Some WNull\<rparr>),
   (''set_verb_info'', \<lparr>wb_min = 3, wb_max = Some 3, wb_message = ''set_verb_info expects object, descriptor, and info map'', wb_args = [A_obj 0, A_raw 1, A_raw 2], wb_method = ''setVerbInfoForActor'', wb_result = None\<rparr>),
   (''set_verb_code'', \<lparr>wb_min = 3, wb_max = Some 3, wb_message = ''set_verb_code expects object, descriptor, and source string'', wb_args = [A_obj 0, A_raw 1, A_str 2], wb_method = ''setVerbCodeForActor'', wb_result = None\<rparr>),
   (''compile_verb'', \<lparr>wb_min = 1, wb_max = Some 1, wb_message = ''compile_verb expects source string'', wb_args = [A_str 0], wb_method = ''compileVerbForCheck'', wb_result = None\<rparr>),
   (''properties'', \<lparr>wb_min = 1, wb_max = Some 1, wb_message = ''properties expects one object'', wb_args = [A_obj 0], wb_method = ''ownPropertyNames'', wb_result = None\<rparr>),
   (''property_info'', \<lparr>wb_min = 2, wb_max = Some 2, wb_message = ''property_info expects object and property name'', wb_args = [A_obj 0, A_str 1], wb_method = ''propertyInfo'', wb_result = None\<rparr>),
   (''add_property'', \<lparr>wb_min = 4, wb_max = Some 4, wb_message = ''add_property expects object, name, value, and info map'', wb_args = [A_obj 0, A_str 1, A_raw 2, A_raw 3], wb_method = ''addPropertyForActor'', wb_result = Some WNull\<rparr>),
   (''delete_property'', \<lparr>wb_min = 2, wb_max = Some 2, wb_message = ''delete_property expects object and property name'', wb_args = [A_obj 0, A_str 1], wb_method = ''deletePropertyForActor'', wb_result = Some WNull\<rparr>),
   (''set_property_info'', \<lparr>wb_min = 3, wb_max = Some 3, wb_message = ''set_property_info expects object, name, and info map'', wb_args = [A_obj 0, A_str 1, A_raw 2], wb_method = ''setPropertyInfoForActor'', wb_result = Some WNull\<rparr>),
   (''clear_property'', \<lparr>wb_min = 2, wb_max = Some 2, wb_message = ''clear_property expects object and property name'', wb_args = [A_obj 0, A_str 1], wb_method = ''clearPropertyForActor'', wb_result = Some WNull\<rparr>),
   (''is_clear_property'', \<lparr>wb_min = 2, wb_max = Some 2, wb_message = ''is_clear_property expects object and property name'', wb_args = [A_obj 0, A_str 1], wb_method = ''isClearProperty'', wb_result = None\<rparr>),
   (''authoring_inspect'', \<lparr>wb_min = 3, wb_max = Some 3, wb_message = ''authoring_inspect expects object, opts, and include_source flag'', wb_args = [A_obj 0, A_null 1, A_true 2], wb_method = ''authoringInspectFor'', wb_result = None\<rparr>),
   (''authoring_search'', \<lparr>wb_min = 3, wb_max = Some 3, wb_message = ''authoring_search expects query, opts, and include_source flag'', wb_args = [A_str 0, A_null 1, A_true 2], wb_method = ''authoringSearchFor'', wb_result = None\<rparr>),
   (''set_object_name'', \<lparr>wb_min = 2, wb_max = Some 2, wb_message = ''set_object_name expects object and name'', wb_args = [A_obj 0, A_str 1], wb_method = ''setObjectNameForActor'', wb_result = Some WNull\<rparr>)]"

definition forward_builtin :: "'w vm_world \<Rightarrow> world_builtin \<Rightarrow> woo_value list \<Rightarrow> ('w, woo_value) frame_op" where
  "forward_builtin W b args =
     (if length args < wb_min b \<or> (case wb_max b of Some n \<Rightarrow> length args > n | None \<Rightarrow> False)
      then woo_fail ''E_INVARG'' (wb_message b) WUndef
      else op_seq (op_check (sum_each (convert_arg args) (wb_args b))) (\<lambda>vs.
        op_seq (world_method W (wb_method b) vs) (\<lambda>v.
          op_give (case wb_result b of Some c \<Rightarrow> c | None \<Rightarrow> v))))"

section \<open>Builtins of the frame\<close>

definition arity_fail :: "string \<Rightarrow> ('w, 'a) frame_op" where
  "arity_fail message = woo_fail ''E_INVARG'' message WUndef"

definition session_value :: "call_context \<Rightarrow> woo_value" where
  "session_value ctx = (case cx_session ctx of None \<Rightarrow> WNull | Some s \<Rightarrow> WStr s)"

definition read_ctx :: "(call_context \<Rightarrow> 'a) \<Rightarrow> ('w, 'a) frame_op" where
  "read_ctx g = op_read (\<lambda>f. g (vf_ctx f))"

definition builtin_set_task_perms :: "'w vm_world \<Rightarrow> woo_value list \<Rightarrow> ('w, woo_value) frame_op" where
  "builtin_set_task_perms W args =
     (if length args \<noteq> 1 then arity_fail ''set_task_perms expects one actor''
      else op_seq (op_check (assertObj (operand args 0))) (\<lambda>next.
        op_seq (op_world (vw_object W next)) (\<lambda>_.
        op_seq (read_ctx cx_progr) (\<lambda>progr.
        op_seq (if next \<noteq> progr
                then op_seq (op_world (vw_object W progr)) (\<lambda>info.
                  if ''wizard'' \<in> set (ob_flags info) then op_give ()
                  else woo_fail ''E_PERM'' (progr @ '' cannot set task perms to '' @ next)
                    (WMap [(''progr'', WStr progr), (''next'', WStr next)]))
                else op_give ()) (\<lambda>_.
        op_seq (op_update (\<lambda>f. f\<lparr>vf_ctx := (vf_ctx f)\<lparr>cx_progr := next\<rparr>\<rparr>)) (\<lambda>_.
        op_give (WStr next)))))))"

definition opt_entry :: "string \<Rightarrow> woo_value \<Rightarrow> (string \<times> woo_value) list" where
  "opt_entry k v = (if v = WUndef then [] else [(k, v)])"

definition is_nullish :: "woo_value \<Rightarrow> bool" where
  "is_nullish v \<longleftrightarrow> v = WUndef \<or> v = WNull"

text \<open>\<open>x === undefined || x === null ? undefined : assertString(x)\<close>.\<close>

definition opt_string :: "woo_value \<Rightarrow> thrown + woo_value" where
  "opt_string v = (if is_nullish v then Inr WUndef else map_sum id WStr (assertString v))"

definition builtin_schedule :: "'w vm_world \<Rightarrow> bool \<Rightarrow> woo_value list \<Rightarrow> ('w, woo_value) frame_op" where
  "builtin_schedule W relative args =
     op_seq (op_check (numeric (if relative then ''delay_ms'' else ''at_ms'') (operand args 3))) (\<lambda>t.
     op_seq (op_check (if is_nullish (operand args 4) then Inr [] else assertMap (operand args 4))) (\<lambda>options.
     op_seq (op_check (opt_string (map_read options ''key''))) (\<lambda>key.
     op_seq (op_check (opt_string (map_read options ''idle_policy''))) (\<lambda>idlePolicy.
     op_seq (op_check (assertObj (operand args 0))) (\<lambda>target.
     op_seq (op_check (assertString (operand args 1))) (\<lambda>verbName.
     world_method W ''recordScheduleRequest'' [WStr target, WStr verbName,
       (case operand args 2 of WList xs \<Rightarrow> WList xs | _ \<Rightarrow> WList []),
       WMap [(if relative then ''delayMs'' else ''atMs'', WInt t)],
       WMap (opt_entry ''key'' key @ opt_entry ''idlePolicy'' idlePolicy)]))))))"

definition typed_or_undef :: "(woo_value \<Rightarrow> bool) \<Rightarrow> woo_value \<Rightarrow> woo_value" where
  "typed_or_undef p v = (if p v then v else WUndef)"

fun is_string :: "woo_value \<Rightarrow> bool" where "is_string (WStr _) = True" | "is_string _ = False"
fun is_boolean :: "woo_value \<Rightarrow> bool" where "is_boolean (WBool _) = True" | "is_boolean _ = False"

definition create_options :: "(string \<times> woo_value) list \<Rightarrow> thrown + (string \<times> woo_value) list" where
  "create_options m = sum_bind (if is_nullish (map_read m ''location'') then Inr WNull
       else map_sum id WStr (assertObj (map_read m ''location''))) (\<lambda>loc.
     Inr [(''name'', typed_or_undef is_string (map_read m ''name'')),
       (''description'', typed_or_undef is_string (map_read m ''description'')),
       (''aliases'', (case map_read m ''aliases'' of WList xs \<Rightarrow> WList (filter is_string xs) | _ \<Rightarrow> WUndef)),
       (''location'', loc),
       (''fertile'', typed_or_undef is_boolean (map_read m ''fertile''))])"

definition builtin_create :: "'w vm_world \<Rightarrow> woo_value list \<Rightarrow> ('w, woo_value) frame_op" where
  "builtin_create W args =
     op_seq (chargeTicks 45) (\<lambda>_.
     op_seq (op_check (assertObj (operand args 0))) (\<lambda>parent.
     op_seq (op_read vf_ctx) (\<lambda>ctx.
     op_seq (op_check (case operand args 1 of
         WUndef \<Rightarrow> Inr (cx_actor ctx, [])
       | WNull \<Rightarrow> Inr (cx_actor ctx, [])
       | WMap m \<Rightarrow> sum_bind (if is_nullish (map_read m ''owner'') then Inr (cx_actor ctx) else assertObj (map_read m ''owner''))
           (\<lambda>owner. sum_bind (create_options m) (\<lambda>options. Inr (owner, options)))
       | v \<Rightarrow> map_sum id (\<lambda>owner. (owner, [])) (assertObj v))) (\<lambda>(owner, options).
     world_method W ''createRuntimeObject'' [WStr parent, WStr owner,
       (if cx_space ctx = ''#-1'' then WNull else WStr (cx_space ctx)),
       WMap ((''progr'', WStr (cx_progr ctx)) # options)]))))"

definition builtin_has_flag :: "'w vm_world \<Rightarrow> woo_value list \<Rightarrow> ('w, woo_value) frame_op" where
  "builtin_has_flag W args =
     op_seq (op_check (assertObj (operand args 0))) (\<lambda>i.
     op_seq (op_world (vw_object W i)) (\<lambda>info.
     op_seq (op_check (assertString (operand args 1))) (\<lambda>flag.
     op_give (WBool (flag \<in> set (ob_flags info))))))"

definition builtin_idle_seconds :: "'w vm_world \<Rightarrow> woo_value list \<Rightarrow> ('w, woo_value) frame_op" where
  "builtin_idle_seconds W args =
     (if length args \<noteq> 1 then arity_fail ''idle_seconds expects one actor''
      else op_seq (op_check (assertObj (operand args 0))) (\<lambda>i.
        op_seq (world_method W ''actorLastInputAt'' [WStr i]) (\<lambda>at_time.
        case at_time of
          WNum (Finite t) \<Rightarrow> op_seq (world_method W ''logicalNow'' [WStr ''idle_seconds.now'']) (\<lambda>now.
            op_seq (op_check (numeric ''clock'' now)) (\<lambda>n. op_give (WInt (max 0 ((n - t) div 1000)))))
        | _ \<Rightarrow> op_give WNull)))"

text \<open>\<open>session_metadata\<close> and \<open>presence_status\<close>: the object is checked before the clock is read.\<close>

definition builtin_with_clock :: "'w vm_world \<Rightarrow> string \<Rightarrow> string \<Rightarrow> string \<Rightarrow> woo_value list \<Rightarrow> ('w, woo_value) frame_op" where
  "builtin_with_clock W message label method_name args =
     (if length args \<noteq> 1 then arity_fail message
      else op_seq (op_check (assertObj (operand args 0))) (\<lambda>i.
        op_seq (world_method W ''logicalNow'' [WStr label]) (\<lambda>now. world_method W method_name [WStr i, now])))"

definition builtin_directory_reconcile :: "'w vm_world \<Rightarrow> woo_value list \<Rightarrow> ('w, woo_value) frame_op" where
  "builtin_directory_reconcile W args =
     (if length args \<noteq> 0 then arity_fail ''directory_reconcile_corenames expects no arguments''
      else op_seq (read_ctx cx_progr) (\<lambda>progr.
        op_seq (world_method W ''isWizard'' [WStr progr]) (\<lambda>ok.
        if ok = WBool True then world_method W ''reconcileTombstoneRefsInSystem'' []
        else woo_fail ''E_PERM'' ''wizard authority required'' WUndef)))"

definition builtin_random :: "'w vm_world \<Rightarrow> woo_value list \<Rightarrow> ('w, woo_value) frame_op" where
  "builtin_random W args =
     op_seq (op_check (numeric ''random argument'' (operand args 0))) (\<lambda>n.
     if n \<le> 0 then woo_fail ''E_INVARG'' ''random(n) requires a positive integer'' (operand args 0)
     else world_method W ''logicalRandomInt'' [WInt n, WStr ''random''])"

definition builtin_location :: "'w vm_world \<Rightarrow> woo_value list \<Rightarrow> ('w, woo_value) frame_op" where
  "builtin_location W args =
     (if length args \<noteq> 1 then arity_fail ''location expects one object''
      else op_seq (op_check (assertObj (operand args 0))) (\<lambda>i.
        op_seq (op_read vf_ctx) (\<lambda>ctx.
        if i = cx_actor ctx \<and> cx_session ctx \<notin> {None, Some []}
        then world_method W ''activeScopeForSession'' [session_value ctx]
        else world_method W ''objectLocationChecked'' [WStr i])))"

definition builtin_all_locations :: "'w vm_world \<Rightarrow> woo_value list \<Rightarrow> ('w, woo_value) frame_op" where
  "builtin_all_locations W args =
     (if length args \<noteq> 1 then arity_fail ''all_locations expects one object''
      else op_seq (op_check (assertObj (operand args 0))) (\<lambda>i.
        op_seq (world_method W ''isDescendantOfChecked'' [WStr i, WStr ''$actor'']) (\<lambda>is_actor.
        if is_actor = WBool True
        then op_seq (op_world (vw_isRemoteObject W i)) (\<lambda>remote.
          if remote then op_seq (world_method W ''actorSessionLocations'' [WStr i]) (\<lambda>v. op_give (or_else v (WList [])))
          else world_method W ''allLocationsForActor'' [WStr i])
        else op_seq (world_method W ''objectLocationChecked'' [WStr i]) (\<lambda>loc.
          op_give (if is_nullish loc \<or> loc = WStr [] then WList [] else WList [loc])))))"

definition builtin_set_presence :: "'w vm_world \<Rightarrow> woo_value list \<Rightarrow> ('w, woo_value) frame_op" where
  "builtin_set_presence W args =
     (if length args \<noteq> 2 then arity_fail ''set_presence expects space and present''
      else if \<not> is_boolean (operand args 1)
      then woo_fail ''E_TYPE'' ''set_presence present argument must be boolean'' (operand args 1)
      else op_seq (op_check (assertObj (operand args 0))) (\<lambda>sp. world_method W ''setPresenceForActor'' [WStr sp, operand args 1]))"

text \<open>\<open>{ ...event, type: assertString(event.type) }\<close>.\<close>

definition typed_event :: "(string \<times> woo_value) list \<Rightarrow> thrown + (string \<times> woo_value) list" where
  "typed_event event = sum_bind (assertString (map_read event ''type'')) (\<lambda>t. Inr (map_put ''type'' (WStr t) event))"

definition builtin_observe_to_space :: "'w vm_world \<Rightarrow> woo_value list \<Rightarrow> ('w, woo_value) frame_op" where
  "builtin_observe_to_space W args =
     (if length args \<noteq> 2 then arity_fail ''observe_to_space expects space and event''
      else op_seq (op_check (assertMap (operand args 1))) (\<lambda>event.
        op_seq (op_check (assertObj (operand args 0))) (\<lambda>sp.
        op_seq (op_check (typed_event event)) (\<lambda>e.
        op_seq (world_method W ''observeToSpace'' [WStr sp, WMap e]) (\<lambda>_. op_give WNull)))))"

text \<open>A dispatch through the world runs under the caller's frame as its caller.\<close>

definition caller_context :: "call_context \<Rightarrow> call_context" where
  "caller_context ctx = ctx\<lparr>cx_caller := cx_thisObj ctx, cx_callerPerms := cx_progr ctx\<rparr>"

definition world_dispatch ::
    "'w vm_world \<Rightarrow> string \<Rightarrow> string \<Rightarrow> woo_value list \<Rightarrow> woo_value \<Rightarrow> woo_value \<Rightarrow> ('w, woo_value) frame_op" where
  "world_dispatch W obj name args startAt maxChars = op_seq (op_read vf_ctx) (\<lambda>ctx.
     op_world (vw_method W ''dispatch'' (caller_context ctx) [WStr obj, WStr name, WList args, startAt, maxChars]))"

definition builtin_dispatch :: "'w vm_world \<Rightarrow> woo_value list \<Rightarrow> ('w, woo_value) frame_op" where
  "builtin_dispatch W args =
     (if length args < 2 \<or> length args > 5
      then arity_fail ''dispatch expects target, verb, optional args, optional start_at, optional max_chars''
      else op_seq (op_check (if length args \<ge> 3 \<and> operand args 2 \<noteq> WNull then assertList (operand args 2) else Inr [])) (\<lambda>callArgs.
        op_seq (op_check (if length args \<ge> 4 \<and> operand args 3 \<noteq> WNull
          then map_sum id WStr (assertObj (operand args 3)) else Inr WUndef)) (\<lambda>startAt.
        op_seq (op_check (if length args \<ge> 5 \<and> operand args 4 \<noteq> WNull
          then sum_bind (numeric ''dispatch max_chars'' (operand args 4)) (\<lambda>n.
            if n < 0 then Inl (woo_throw ''E_INVARG'' ''dispatch max_chars must be a non-negative finite number'' (operand args 4))
            else Inr (WInt n))
          else Inr WUndef)) (\<lambda>maxChars.
        op_seq (op_check (assertObj (operand args 0))) (\<lambda>target.
        op_seq (op_check (assertString (operand args 1))) (\<lambda>verb.
        world_dispatch W target verb callArgs startAt maxChars))))))"

fun collect_refs :: "nat \<Rightarrow> woo_value list \<Rightarrow> thrown + woo_value list" where
  "collect_refs i [] = Inr []"
| "collect_refs i (v # vs) = (case v of
      WStr s \<Rightarrow> sum_bind (collect_refs (Suc i) vs) (\<lambda>rest. Inr (WStr s # rest))
    | _ \<Rightarrow> Inl (woo_throw ''E_TYPE'' (''collect_prop item '' @ show_nat (i + 1) @ '' must be an object reference'')
        (WMap [(''index'', WInt (int i + 1)), (''value'', v)])))"

definition builtin_collect_prop :: "'w vm_world \<Rightarrow> woo_value list \<Rightarrow> ('w, woo_value) frame_op" where
  "builtin_collect_prop W args =
     (if length args \<noteq> 2 then arity_fail ''collect_prop expects list and property name''
      else op_seq (op_check (sum_bind (assertList (operand args 0)) (collect_refs 0))) (\<lambda>refs.
        op_seq (chargeTicks (int (length refs))) (\<lambda>_.
        op_seq (op_check (assertString (operand args 1))) (\<lambda>prop.
        op_seq (read_ctx cx_seq) (\<lambda>seq.
        world_method W ''collectPropChecked'' [WList refs, WStr prop, WBool (seq < 0)])))))"

definition opt_object :: "woo_value \<Rightarrow> thrown + woo_value" where
  "opt_object v = (if v = WNull then Inr WNull else map_sum id WStr (assertObj v))"

definition container_arg :: "woo_value list \<Rightarrow> nat \<Rightarrow> ('w, string) frame_op" where
  "container_arg args k = (if length args = k + 1 then op_check (assertObj (operand args k)) else read_ctx cx_space)"

definition builtin_ordered_children :: "'w vm_world \<Rightarrow> woo_value list \<Rightarrow> ('w, woo_value) frame_op" where
  "builtin_ordered_children W args =
     (if length args < 1 \<or> length args > 2 then arity_fail ''ordered_children expects (parent, container?)''
      else op_seq (op_check (opt_object (operand args 0))) (\<lambda>parent.
        op_seq (container_arg args 1) (\<lambda>container.
        world_method W ''orderedChildrenProjection'' [parent, WStr container])))"

definition builtin_ordered_neighbors :: "'w vm_world \<Rightarrow> woo_value list \<Rightarrow> ('w, woo_value) frame_op" where
  "builtin_ordered_neighbors W args =
     (if length args < 2 \<or> length args > 3 then arity_fail ''ordered_neighbors expects (parent, query, container?)''
      else op_seq (op_check (opt_object (operand args 0))) (\<lambda>parent.
        case (case operand args 1 of WNull \<Rightarrow> Some [] | WMap m \<Rightarrow> Some m | _ \<Rightarrow> None) of
          None \<Rightarrow> woo_fail ''E_INVARG'' ''ordered_neighbors query must be a map (or null)'' (operand args 1)
        | Some spec \<Rightarrow>
          let rawIndex = or_else (map_read spec ''index'') WNull in
          if (case rawIndex of WNull \<Rightarrow> False | WNum _ \<Rightarrow> False | _ \<Rightarrow> True)
          then woo_fail ''E_INVARG'' ''ordered_neighbors query.index must be a number (or null)'' rawIndex
          else op_seq (op_check (opt_object (or_else (map_read spec ''exclude'') WNull))) (\<lambda>exclude.
            op_seq (op_check (opt_object (or_else (map_read spec ''child'') WNull))) (\<lambda>child.
            op_seq (container_arg args 2) (\<lambda>container.
            world_method W ''orderedNeighborsProjection''
              [parent, WMap [(''index'', rawIndex), (''exclude'', exclude), (''child'', child)], WStr container])))))"

definition builtin_object_tree_rows :: "'w vm_world \<Rightarrow> woo_value list \<Rightarrow> ('w, woo_value) frame_op" where
  "builtin_object_tree_rows W args =
     (if length args < 4 \<or> length args > 5
      then arity_fail ''object_tree_rows expects container, item_class, edge_prop, text_verb, and optional hidden_prop''
      else op_seq (op_check (assertString (operand args 2))) (\<lambda>edgeProp.
        op_seq (op_check (assertString (operand args 3))) (\<lambda>textVerb.
        op_seq (op_check (if length args \<ge> 5 \<and> operand args 4 \<noteq> WNull then assertString (operand args 4) else Inr ''hidden'')) (\<lambda>hiddenProp.
        op_seq (op_check (assertObj (operand args 0))) (\<lambda>container.
        op_seq (op_check (assertObj (operand args 1))) (\<lambda>item_class.
        world_method W ''object_tree_rows''
          [WStr container, WStr item_class, WStr edgeProp, WStr textVerb, WStr hiddenProp]))))))"

definition builtin_primary_session :: "'w vm_world \<Rightarrow> woo_value list \<Rightarrow> ('w, woo_value) frame_op" where
  "builtin_primary_session W args =
     (if length args \<noteq> 1 then arity_fail ''primary_session expects one actor''
      else op_seq (op_check (assertObj (operand args 0))) (\<lambda>i.
        op_seq (world_method W ''primarySessionForActor'' [WStr i]) (\<lambda>v.
        op_give (case v of WMap m \<Rightarrow> or_else (map_read m ''id'') WNull | _ \<Rightarrow> WNull))))"

text \<open>The cases of the switch with logic of their own; \<open>None\<close> for another name.\<close>

definition frame_builtin :: "'w vm_world \<Rightarrow> string \<Rightarrow> woo_value list \<Rightarrow> ('w, woo_value) frame_op option" where
  "frame_builtin W name args =
     (if name = ''schedule'' then Some (builtin_schedule W True args)
      else if name = ''schedule_at'' then Some (builtin_schedule W False args)
      else if name = ''now'' then Some (world_method W ''logicalNow'' [WStr ''now''])
      else if name = ''create'' then Some (builtin_create W args)
      else if name = ''has_flag'' then Some (builtin_has_flag W args)
      else if name = ''idle_seconds'' then Some (builtin_idle_seconds W args)
      else if name = ''ordered_children'' then Some (builtin_ordered_children W args)
      else if name = ''ordered_neighbors'' then Some (builtin_ordered_neighbors W args)
      else if name = ''session_metadata''
      then Some (builtin_with_clock W ''session_metadata expects one actor'' ''session_metadata.now'' ''sessionMetadataForActor'' args)
      else if name = ''presence_status''
      then Some (builtin_with_clock W ''presence_status expects one actor'' ''presence_status.now'' ''actorPresenceStatus'' args)
      else if name = ''directory_reconcile_corenames'' then Some (builtin_directory_reconcile W args)
      else if name = ''random'' then Some (builtin_random W args)
      else if name = ''location'' then Some (builtin_location W args)
      else if name = ''current_location'' then Some (if length args \<noteq> 0 then arity_fail ''current_location expects no arguments''
        else op_seq (read_ctx session_value) (\<lambda>s. world_method W ''activeScopeForSession'' [s]))
      else if name = ''current_session'' then Some (if length args \<noteq> 0 then arity_fail ''current_session expects no arguments''
        else read_ctx session_value)
      else if name = ''session_location'' then Some (if length args \<noteq> 1 then arity_fail ''session_location expects one session id''
        else world_method W ''activeScopeForSession'' [WStr (js_String (or_else (operand args 0) (WStr [])))])
      else if name = ''all_locations'' then Some (builtin_all_locations W args)
      else if name = ''primary_session'' then Some (builtin_primary_session W args)
      else if name = ''task_perms'' then Some (if length args \<noteq> 0 then arity_fail ''task_perms expects no arguments''
        else read_ctx (\<lambda>ctx. WStr (cx_progr ctx)))
      else if name = ''caller_perms'' then Some (if length args \<noteq> 0 then arity_fail ''caller_perms expects no arguments''
        else read_ctx (\<lambda>ctx. WStr (cx_callerPerms ctx)))
      else if name = ''set_task_perms'' then Some (builtin_set_task_perms W args)
      else if name = ''set_presence'' then Some (builtin_set_presence W args)
      else if name = ''observe_to_space'' then Some (builtin_observe_to_space W args)
      else if name = ''dispatch'' then Some (builtin_dispatch W args)
      else if name = ''collect_prop'' then Some (builtin_collect_prop W args)
      else if name = ''object_tree_rows'' then Some (builtin_object_tree_rows W args)
      else if name = ''is_remote_object'' then Some (if length args \<noteq> 1 then arity_fail ''is_remote_object expects one object''
        else op_seq (op_check (assertObj (operand args 0))) (\<lambda>i.
          op_seq (op_world (vw_isRemoteObject W i)) (\<lambda>b. op_give (WBool b))))
      else None)"

section \<open>The dispatcher\<close>

definition callBuiltin :: "'w vm_world \<Rightarrow> woo_value \<Rightarrow> woo_value list \<Rightarrow> ('w, woo_value) frame_op" where
  "callBuiltin W nameOrIndex args = op_seq (op_check (builtin_name nameOrIndex)) (\<lambda>n. case n of
      None \<Rightarrow> woo_fail ''E_INVARG'' ''unknown builtin: undefined'' WUndef
    | Some name \<Rightarrow> (case pure_builtin W name args of
        Some r \<Rightarrow> op_check r
      | None \<Rightarrow> (case frame_builtin W name args of
          Some m \<Rightarrow> m
        | None \<Rightarrow> (case map_of WORLD_BUILTINS name of
            Some b \<Rightarrow> forward_builtin W b args
          | None \<Rightarrow> woo_fail ''E_INVARG'' (''unknown builtin: '' @ name) WUndef))))"

text \<open>The fast path of \<open>isa\<close>: \<open>None\<close> when it is not handled.\<close>

definition tryFastBuiltin :: "'w vm_world \<Rightarrow> woo_value \<Rightarrow> woo_value list \<Rightarrow> ('w, woo_value option) frame_op" where
  "tryFastBuiltin W nameOrIndex args =
     (if (case nameOrIndex of WStr s \<Rightarrow> s = ''isa'' | WNum _ \<Rightarrow> builtin_name nameOrIndex = Inr (Some ''isa'') | _ \<Rightarrow> False)
      then if length args \<noteq> 2 then arity_fail ''isa expects object and ancestor''
        else op_seq (op_check (assertObj (operand args 0))) (\<lambda>i.
          op_seq (op_check (assertObj (operand args 1))) (\<lambda>ancestor.
          if i = ancestor then op_give (Some (WBool True))
          else op_seq (world_method W ''objects.has'' [WStr i]) (\<lambda>known.
            if known = WBool True
            then op_seq (world_method W ''isDescendantOf'' [WStr i, WStr ancestor]) (\<lambda>v. op_give (Some v))
            else op_give None)))
      else op_give None)"

end
