(* ===== verification/Tiny_VM.thy ===== *)
theory Tiny_VM
  imports VM_Builtins
begin

text \<open>
  The bytecode interpreter (\<open>runTinyVm\<close> of \<open>src/core/tiny-vm.ts\<close>): the opcodes, verb calls, error
  handling across frames and the loop. An opcode works on the current frame; what it does to the frame
  stack (a call or a return) is its result, carried out by the step.
\<close>

section \<open>Opcodes\<close>

datatype opcode =
    PUSH_LIT | PUSH_INT | PUSH_LOCAL | POP_LOCAL | PUSH_THIS | PUSH_ACTOR | PUSH_PLAYER | PUSH_CALLER | PUSH_PROGR
  | PUSH_VERB | PUSH_ARGS | PUSH_SPACE | PUSH_SEQ | PUSH_MESSAGE | PUSH_ARG | POP | DUP | SWAP
  | ADD | SUB | MUL | DIV | MOD | NEG | LNOT | EQ | NEQ | LT | LE | GT | GE | IN
  | JUMP | JUMP_IF_TRUE | JUMP_IF_FALSE | JUMP_IF_TRUE_KEEP | JUMP_IF_FALSE_KEEP
  | FOR_LIST_INIT | FOR_LIST_NEXT | FOR_RANGE_INIT | FOR_RANGE_NEXT | FOR_MAP_INIT | FOR_MAP_NEXT | FOR_END
  | GET_PROP | SET_PROP | HAS_PROP | DEFINE_PROP | UNDEFINE_PROP | PROP_INFO | SET_PROP_INFO
  | CALL_VERB | PASS | RETURN | RAISE | BUILTIN
  | LIST_GET | LIST_SET | LIST_APPEND | MAP_GET | MAP_SET | INDEX_GET | INDEX_SET | MAKE_MAP | MAKE_LIST
  | STR_CONCAT | SPLAT | OBSERVE | EMIT | YIELD | TRY_PUSH | TRY_POP | Removed_op string | Unknown_op string

definition OPCODES :: "(string \<times> opcode) list" where
  "OPCODES = [(''PUSH_LIT'', PUSH_LIT), (''PUSH_INT'', PUSH_INT), (''PUSH_LOCAL'', PUSH_LOCAL), (''POP_LOCAL'', POP_LOCAL),
    (''PUSH_THIS'', PUSH_THIS), (''PUSH_ACTOR'', PUSH_ACTOR), (''PUSH_PLAYER'', PUSH_PLAYER), (''PUSH_CALLER'', PUSH_CALLER),
    (''PUSH_PROGR'', PUSH_PROGR), (''PUSH_VERB'', PUSH_VERB), (''PUSH_ARGS'', PUSH_ARGS), (''PUSH_SPACE'', PUSH_SPACE),
    (''PUSH_SEQ'', PUSH_SEQ), (''PUSH_MESSAGE'', PUSH_MESSAGE), (''PUSH_ARG'', PUSH_ARG), (''POP'', POP), (''DUP'', DUP),
    (''SWAP'', SWAP), (''ADD'', ADD), (''SUB'', SUB), (''MUL'', MUL), (''DIV'', DIV), (''MOD'', MOD), (''NEG'', NEG),
    (''NOT'', LNOT), (''EQ'', EQ), (''NEQ'', NEQ), (''LT'', LT), (''LE'', LE), (''GT'', GT), (''GE'', GE), (''IN'', IN),
    (''JUMP'', JUMP), (''JUMP_IF_TRUE'', JUMP_IF_TRUE), (''JUMP_IF_FALSE'', JUMP_IF_FALSE),
    (''JUMP_IF_TRUE_KEEP'', JUMP_IF_TRUE_KEEP), (''JUMP_IF_FALSE_KEEP'', JUMP_IF_FALSE_KEEP),
    (''FOR_LIST_INIT'', FOR_LIST_INIT), (''FOR_LIST_NEXT'', FOR_LIST_NEXT), (''FOR_RANGE_INIT'', FOR_RANGE_INIT),
    (''FOR_RANGE_NEXT'', FOR_RANGE_NEXT), (''FOR_MAP_INIT'', FOR_MAP_INIT), (''FOR_MAP_NEXT'', FOR_MAP_NEXT),
    (''FOR_END'', FOR_END), (''GET_PROP'', GET_PROP), (''SET_PROP'', SET_PROP), (''HAS_PROP'', HAS_PROP),
    (''DEFINE_PROP'', DEFINE_PROP), (''UNDEFINE_PROP'', UNDEFINE_PROP), (''PROP_INFO'', PROP_INFO),
    (''SET_PROP_INFO'', SET_PROP_INFO), (''CALL_VERB'', CALL_VERB), (''PASS'', PASS), (''RETURN'', RETURN),
    (''RAISE'', RAISE), (''FAIL'', RAISE), (''BUILTIN'', BUILTIN), (''LIST_GET'', LIST_GET), (''LIST_SET'', LIST_SET),
    (''LIST_APPEND'', LIST_APPEND), (''MAP_GET'', MAP_GET), (''MAP_SET'', MAP_SET), (''INDEX_GET'', INDEX_GET),
    (''INDEX_SET'', INDEX_SET), (''MAKE_MAP'', MAKE_MAP), (''MAKE_LIST'', MAKE_LIST), (''STR_CONCAT'', STR_CONCAT),
    (''STR_INTERP'', STR_CONCAT), (''SPLAT'', SPLAT), (''OBSERVE'', OBSERVE), (''EMIT'', EMIT), (''YIELD'', YIELD),
    (''TRY_PUSH'', TRY_PUSH), (''TRY_POP'', TRY_POP), (''FORK'', Removed_op ''FORK''), (''SUSPEND'', Removed_op ''SUSPEND''),
    (''READ'', Removed_op ''READ'')]"

definition decode_op :: "string \<Rightarrow> opcode" where
  "decode_op name = (case map_of OPCODES name of Some op \<Rightarrow> op | None \<Rightarrow> Unknown_op name)"

definition tickWeight :: "opcode \<Rightarrow> int" where
  "tickWeight op =
     (if op = BUILTIN then 5
      else if op \<in> {GET_PROP, SET_PROP} then 5
      else if op \<in> {CALL_VERB, PASS, EMIT} then 10
      else if op \<in> {MAKE_LIST, MAKE_MAP, LIST_APPEND, MAP_SET, INDEX_SET, STR_CONCAT} then 5
      else 1)"

section \<open>Operators\<close>

definition operands_error :: "string \<Rightarrow> woo_value \<Rightarrow> woo_value \<Rightarrow> ('w, 'a) frame_op" where
  "operands_error message left right = woo_fail ''E_TYPE'' message (WMap [(''left'', left), (''right'', right)])"

definition binaryArithmetic :: "('w, unit) frame_op" where
  "binaryArithmetic = op_seq pop (\<lambda>right. op_seq pop (\<lambda>left. case (left, right) of
      (WNum a, WNum b) \<Rightarrow> push (WNum (number_add a b))
    | (WStr a, WStr b) \<Rightarrow> op_seq (allocate (WStr (a @ b))) push
    | (WList a, WList b) \<Rightarrow> op_seq (allocate (WList (a @ b))) push
    | _ \<Rightarrow> operands_error ''ADD operands are incompatible'' left right))"

definition numericBinary :: "(int \<Rightarrow> int \<Rightarrow> thrown + int) \<Rightarrow> ('w, unit) frame_op" where
  "numericBinary fn = op_seq pop (\<lambda>r. op_seq (op_check (numeric ''right operand'' r)) (\<lambda>right.
     op_seq pop (\<lambda>l. op_seq (op_check (numeric ''left operand'' l)) (\<lambda>left.
     op_seq (op_check (fn left right)) (\<lambda>n. push (WInt n))))))"

definition division_by_zero :: thrown where
  "division_by_zero = woo_throw ''E_DIV'' ''division by zero'' WUndef"

text \<open>\<open>s.repeat(Math.max(0, n))\<close>: a result beyond the engine's longest string is a \<open>RangeError\<close>.\<close>

definition MAX_STRING_LENGTH :: int where
  "MAX_STRING_LENGTH = 2 ^ 29 - 24"

definition js_repeat :: "int \<Rightarrow> string \<Rightarrow> thrown + string" where
  "js_repeat n s = (if max 0 n * int (length s) > MAX_STRING_LENGTH then Inl (Host_thrown ''Invalid string length'')
     else Inr (concat (replicate (nat (max 0 n)) s)))"

definition repeated :: "int \<Rightarrow> string \<Rightarrow> ('w, unit) frame_op" where
  "repeated n s = op_seq (op_check (js_repeat n s)) (\<lambda>text. op_seq (allocate (WStr text)) push)"

definition multiply :: "('w, unit) frame_op" where
  "multiply = op_seq pop (\<lambda>right. op_seq pop (\<lambda>left. case (left, right) of
      (WNum a, WNum b) \<Rightarrow> push (WNum (number_mult a b))
    | (WNum (Finite a), WStr b) \<Rightarrow> repeated a b
    | (WStr a, WNum (Finite b)) \<Rightarrow> repeated b a
    | _ \<Rightarrow> operands_error ''MUL operands are incompatible'' left right))"

definition compare :: "(number \<Rightarrow> number \<Rightarrow> bool) \<Rightarrow> (string \<Rightarrow> string \<Rightarrow> bool) \<Rightarrow> ('w, unit) frame_op" where
  "compare num str = op_seq pop (\<lambda>right. op_seq pop (\<lambda>left. case (left, right) of
      (WNum a, WNum b) \<Rightarrow> push (WBool (num a b))
    | (WStr a, WStr b) \<Rightarrow> push (WBool (str a b))
    | _ \<Rightarrow> operands_error ''comparison operands are incompatible'' left right))"

definition membership :: "('w, unit) frame_op" where
  "membership = op_seq pop (\<lambda>haystack. op_seq pop (\<lambda>needle. case haystack of
      WList xs \<Rightarrow> push (WBool (list_ex (\<lambda>x. valuesEqual x needle) xs))
    | WMap m \<Rightarrow> push (WBool (map_has m needle))
    | _ \<Rightarrow> woo_fail ''E_TYPE'' ''IN requires list or map haystack'' haystack))"

definition index_error :: "int \<Rightarrow> ('w, 'a) frame_op" where
  "index_error i = woo_fail ''E_RANGE'' ''list index out of range'' (WInt (i + 1))"

definition list_get :: "woo_value list \<Rightarrow> int \<Rightarrow> ('w, unit) frame_op" where
  "list_get xs i = (if i < 0 \<or> i \<ge> int (length xs) then index_error i else push (xs ! nat i))"

definition list_set :: "woo_value list \<Rightarrow> int \<Rightarrow> woo_value \<Rightarrow> ('w, unit) frame_op" where
  "list_set xs i v = (if i < 0 \<or> i \<ge> int (length xs) then index_error i
     else op_seq (allocate (WList (xs[nat i := v]))) push)"

definition map_get :: "(string \<times> woo_value) list \<Rightarrow> string \<Rightarrow> ('w, unit) frame_op" where
  "map_get m k = (if hasOwnMapKey m k then push (map_read m k)
     else woo_fail ''E_PROPNF'' (''map key not found: '' @ k) WUndef)"

section \<open>Calls\<close>

datatype frame_effect = Stay | Enter call_context tiny_bytecode "woo_value list" | Leave woo_value

definition stay :: "('w, 'a) frame_op \<Rightarrow> ('w, frame_effect) frame_op" where
  "stay m = op_seq m (\<lambda>_. op_give Stay)"

definition callee_context :: "call_context \<Rightarrow> string \<Rightarrow> string \<Rightarrow> string \<Rightarrow> verb_def \<Rightarrow> call_context" where
  "callee_context ctx obj name definer verb = ctx\<lparr>cx_thisObj := obj, cx_verbName := name, cx_definer := definer,
     cx_progr := vd_owner verb, cx_player := Some (case cx_player ctx of Some p \<Rightarrow> p | None \<Rightarrow> cx_actor ctx),
     cx_caller := cx_thisObj ctx, cx_callerPerms := cx_progr ctx\<rparr>"

definition start_value :: "string option \<Rightarrow> woo_value" where
  "start_value startAt = (case startAt of None \<Rightarrow> WUndef | Some s \<Rightarrow> WStr s)"

definition callVerb ::
    "'w vm_world \<Rightarrow> string \<Rightarrow> string \<Rightarrow> woo_value list \<Rightarrow> string option \<Rightarrow> ('w, frame_effect) frame_op" where
  "callVerb W obj name args startAt =
     op_seq (op_world (vw_isRemoteObject W obj)) (\<lambda>remote_obj.
     op_seq (if remote_obj then op_give True
             else case startAt of None \<Rightarrow> op_give False | Some s \<Rightarrow> op_world (vw_isRemoteObject W s)) (\<lambda>remote.
     if remote then stay (op_seq (world_dispatch W obj name args (start_value startAt) WUndef) push)
     else op_seq (op_world (vw_resolveVerb W startAt obj name)) (\<lambda>(definer, verb, dependencies).
       op_seq (op_read vf_ctx) (\<lambda>ctx.
       op_seq (op_world (vw_assertCanExecuteVerb W (cx_progr ctx) obj name verb)) (\<lambda>_.
       if vd_native verb then stay (op_seq (world_dispatch W obj name args (start_value startAt) WUndef) push)
       else op_seq (op_world (vw_recordTurnDispatch W obj name startAt definer verb dependencies)) (\<lambda>_.
         op_give (Enter (callee_context ctx obj name definer verb) (vd_bytecode verb) args)))))))"

section \<open>Executing an opcode\<close>

definition pop_string :: "('w, string) frame_op" where
  "pop_string = op_seq pop (\<lambda>v. op_check (assertString v))"

definition pop_obj :: "('w, string) frame_op" where
  "pop_obj = op_seq pop (\<lambda>v. op_check (assertObj v))"

definition pop_map :: "('w, (string \<times> woo_value) list) frame_op" where
  "pop_map = op_seq pop (\<lambda>v. op_check (assertMap v))"

definition pop_list :: "('w, woo_value list) frame_op" where
  "pop_list = op_seq pop (\<lambda>v. op_check (assertList v))"

definition pop_number :: "string \<Rightarrow> ('w, int) frame_op" where
  "pop_number label = op_seq pop (\<lambda>v. op_check (numeric label v))"

definition push_ctx :: "(call_context \<Rightarrow> woo_value) \<Rightarrow> ('w, frame_effect) frame_op" where
  "push_ctx g = stay (op_seq (read_ctx g) push)"

definition jump_if :: "bool \<Rightarrow> int \<Rightarrow> woo_value \<Rightarrow> ('w, frame_effect) frame_op" where
  "jump_if b pc offset = stay (if b then jump pc offset else op_give ())"

text \<open>Advance the iterator on top of the stack, binding the loop variable.\<close>

definition bind_next :: "woo_value \<Rightarrow> woo_value \<Rightarrow> int \<Rightarrow> ('w, frame_effect) frame_op" where
  "bind_next slot v following = stay (op_seq (localIndex slot) (\<lambda>i. op_seq (set_local i v) (\<lambda>_. set_top (WInt following))))"

definition prop_method :: "'w vm_world \<Rightarrow> string \<Rightarrow> ('w, woo_value) frame_op" where
  "prop_method W name = op_seq pop_string (\<lambda>n. op_seq pop_obj (\<lambda>i. world_method W name [WStr i, WStr n]))"

text \<open>The error codes of a handler: those of a literal list, all for any other literal or none.\<close>

definition handler_errors :: "woo_value \<Rightarrow> ('w, string list) frame_op" where
  "handler_errors i = (if i = WUndef then op_give []
     else op_seq (literal i) (\<lambda>v. case v of WList xs \<Rightarrow> op_check (sum_each assertString xs) | _ \<Rightarrow> op_give []))"

definition exec_for_list_init :: "woo_value list \<Rightarrow> ('w, frame_effect) frame_op" where
  "exec_for_list_init os = stay (op_seq pop_list (\<lambda>xs. op_seq (push (WList xs)) (\<lambda>_. op_seq (push (WInt 0)) (\<lambda>_.
     op_seq (localIndex (operand os 0)) (\<lambda>i. set_local i WNull)))))"

definition exec_for_range_init :: "woo_value list \<Rightarrow> ('w, frame_effect) frame_op" where
  "exec_for_range_init os = stay (op_seq (pop_number ''range low'') (\<lambda>lo. op_seq (pop_number ''range high'') (\<lambda>hi.
     op_seq (push (WInt hi)) (\<lambda>_. op_seq (push (WInt lo)) (\<lambda>_.
     op_seq (localIndex (operand os 0)) (\<lambda>i. set_local i (WInt lo)))))))"

definition exec_for_map_init :: "('w, frame_effect) frame_op" where
  "exec_for_map_init = stay (op_seq pop_map (\<lambda>m. op_seq (push (WMap m)) (\<lambda>_. push (WInt 0))))"

definition exec_get_prop :: "'w vm_world \<Rightarrow> ('w, frame_effect) frame_op" where
  "exec_get_prop W = stay (op_seq (prop_method W ''getPropChecked'') push)"

definition exec_set_prop :: "'w vm_world \<Rightarrow> ('w, frame_effect) frame_op" where
  "exec_set_prop W = stay (op_seq pop (\<lambda>v. op_seq pop_string (\<lambda>n. op_seq pop_obj (\<lambda>i.
     world_method W ''setPropChecked'' [WStr i, WStr n, v]))))"

definition exec_has_prop :: "'w vm_world \<Rightarrow> ('w, frame_effect) frame_op" where
  "exec_has_prop W = stay (op_seq pop_string (\<lambda>n. op_seq pop_obj (\<lambda>i.
     op_seq (world_method W ''properties'' [WStr i]) (\<lambda>v.
     push (WBool (case v of WList names \<Rightarrow> WStr n \<in> set names | _ \<Rightarrow> False))))))"

definition exec_define_prop :: "'w vm_world \<Rightarrow> ('w, frame_effect) frame_op" where
  "exec_define_prop W = stay (op_seq pop_string (\<lambda>perms. op_seq pop (\<lambda>v. op_seq pop_string (\<lambda>n. op_seq pop_obj (\<lambda>i.
     op_seq (read_ctx cx_progr) (\<lambda>progr. world_method W ''definePropertyChecked'' [WStr i,
       WMap [(''name'', WStr n), (''defaultValue'', v), (''perms'', WStr perms), (''owner'', WStr progr)]]))))))"

definition exec_undefine_prop :: "'w vm_world \<Rightarrow> ('w, frame_effect) frame_op" where
  "exec_undefine_prop W = stay (prop_method W ''undefinePropertyChecked'')"

definition exec_prop_info :: "'w vm_world \<Rightarrow> ('w, frame_effect) frame_op" where
  "exec_prop_info W = stay (op_seq (prop_method W ''propertyInfo'') push)"

definition exec_set_prop_info :: "'w vm_world \<Rightarrow> ('w, frame_effect) frame_op" where
  "exec_set_prop_info W = stay (op_seq pop_map (\<lambda>info. op_seq pop_string (\<lambda>n. op_seq pop_obj (\<lambda>i.
     world_method W ''setPropertyInfoChecked'' [WStr i, WStr n, WMap info]))))"

definition exec_call_verb :: "'w vm_world \<Rightarrow> woo_value list \<Rightarrow> ('w, frame_effect) frame_op" where
  "exec_call_verb W os = op_seq (op_check (numeric ''argc'' (operand os 0))) (\<lambda>argc. op_seq (popArgs argc) (\<lambda>args.
     op_seq pop_string (\<lambda>name. op_seq pop_obj (\<lambda>obj. callVerb W obj name args None))))"

definition exec_pass :: "'w vm_world \<Rightarrow> woo_value list \<Rightarrow> ('w, frame_effect) frame_op" where
  "exec_pass W os = op_seq (op_check (numeric ''argc'' (operand os 0))) (\<lambda>argc. op_seq (popArgs argc) (\<lambda>args.
     op_seq (op_read vf_ctx) (\<lambda>ctx. op_seq (op_world (vw_object W (cx_definer ctx))) (\<lambda>info.
     if ob_parent info \<in> {None, Some []} then woo_fail ''E_VERBNF'' (''no parent verb for '' @ cx_verbName ctx) WUndef
     else callVerb W (cx_thisObj ctx) (cx_verbName ctx) args (ob_parent info)))))"

definition exec_return :: "('w, frame_effect) frame_op" where
  "exec_return = op_seq pop (\<lambda>v. op_give (Leave v))"

definition exec_raise :: "('w, frame_effect) frame_op" where
  "exec_raise = op_seq pop (\<lambda>v. op_fail (Woo_thrown (errorFromValue v)))"

definition exec_builtin :: "'w vm_world \<Rightarrow> woo_value list \<Rightarrow> ('w, frame_effect) frame_op" where
  "exec_builtin W os = stay (op_seq (op_check (numeric ''builtin argc'' (operand os 1))) (\<lambda>argc. op_seq (popArgs argc) (\<lambda>args.
     op_seq (tryFastBuiltin W (operand os 0) args) (\<lambda>fast. case fast of
       Some v \<Rightarrow> push v
     | None \<Rightarrow> op_seq (callBuiltin W (operand os 0) args) push))))"

definition exec_list_get :: "('w, frame_effect) frame_op" where
  "exec_list_get = stay (op_seq pop (\<lambda>k. op_seq (op_check (oneBasedIndex k)) (\<lambda>i. op_seq pop_list (\<lambda>xs. list_get xs i))))"

definition exec_list_set :: "('w, frame_effect) frame_op" where
  "exec_list_set = stay (op_seq pop (\<lambda>v. op_seq pop (\<lambda>k. op_seq (op_check (oneBasedIndex k)) (\<lambda>i.
     op_seq pop_list (\<lambda>xs. list_set xs i v)))))"

definition exec_list_append :: "('w, frame_effect) frame_op" where
  "exec_list_append = stay (op_seq pop (\<lambda>v. op_seq pop_list (\<lambda>xs. op_seq (allocate (WList (xs @ [v]))) push)))"

definition exec_map_get :: "('w, frame_effect) frame_op" where
  "exec_map_get = stay (op_seq pop_string (\<lambda>k. op_seq pop_map (\<lambda>m. map_get m k)))"

definition exec_map_set :: "('w, frame_effect) frame_op" where
  "exec_map_set = stay (op_seq pop (\<lambda>v. op_seq pop_string (\<lambda>k. op_seq pop_map (\<lambda>m.
     op_seq (allocate (WMap (map_put k v m))) push))))"

definition exec_index_get :: "('w, frame_effect) frame_op" where
  "exec_index_get = stay (op_seq pop (\<lambda>k. op_seq pop (\<lambda>collection. case collection of
       WList xs \<Rightarrow> op_seq (op_check (oneBasedIndex k)) (\<lambda>i. list_get xs i)
     | _ \<Rightarrow> op_seq (op_check (assertMap collection)) (\<lambda>m. op_seq (op_check (assertString k)) (\<lambda>key. map_get m key)))))"

definition exec_index_set :: "('w, frame_effect) frame_op" where
  "exec_index_set = stay (op_seq pop (\<lambda>v. op_seq pop (\<lambda>k. op_seq pop (\<lambda>collection. case collection of
       WList xs \<Rightarrow> op_seq (op_check (oneBasedIndex k)) (\<lambda>i. list_set xs i v)
     | _ \<Rightarrow> op_seq (op_check (assertMap collection)) (\<lambda>m. op_seq (op_check (assertString k)) (\<lambda>key.
         op_seq (allocate (WMap (map_put key v m))) push))))))"

definition exec_make_map :: "woo_value list \<Rightarrow> ('w, frame_effect) frame_op" where
  "exec_make_map os = stay (op_seq (op_check (numeric ''map entry count'' (operand os 0))) (\<lambda>n.
     op_seq (pop_entries (nat n) []) (\<lambda>entries. op_seq (allocate (WMap (fromEntries entries))) push)))"

definition exec_make_list :: "woo_value list \<Rightarrow> ('w, frame_effect) frame_op" where
  "exec_make_list os = stay (op_seq (op_check (numeric ''list count'' (operand os 0))) (\<lambda>n.
     op_seq (pop_many (nat n) []) (\<lambda>values. op_seq (allocate (WList values)) push)))"

definition exec_str_concat :: "woo_value list \<Rightarrow> ('w, frame_effect) frame_op" where
  "exec_str_concat os = stay (op_seq (op_check (numeric ''string count'' (operand os 0))) (\<lambda>n.
     op_seq (pop_strings (nat n) []) (\<lambda>parts. op_seq (allocate (WStr (concat parts))) push)))"

definition exec_splat :: "('w, frame_effect) frame_op" where
  "exec_splat = stay (op_seq pop_list (op_each push))"

definition exec_observe :: "'w vm_world \<Rightarrow> ('w, frame_effect) frame_op" where
  "exec_observe W = stay (op_seq pop_map (\<lambda>event. op_seq (op_check (typed_event event)) (\<lambda>e.
     op_seq (op_read vf_ctx) (\<lambda>ctx. op_world (vw_observe W ctx (WMap e))))))"

definition exec_emit :: "'w vm_world \<Rightarrow> ('w, frame_effect) frame_op" where
  "exec_emit W = stay (op_seq pop_map (\<lambda>event. op_seq pop (\<lambda>target.
     op_seq (op_check (assertString (map_read event ''type''))) (\<lambda>type.
     op_seq (op_read vf_ctx) (\<lambda>ctx.
     op_world (vw_observe W ctx (WMap (map_put ''type'' (WStr type) (fromEntries ((''target'', target) # event))))))))))"

definition exec_try_push :: "int \<Rightarrow> woo_value list \<Rightarrow> ('w, frame_effect) frame_op" where
  "exec_try_push pc os = stay (op_seq (handler_errors (operand os 1)) (\<lambda>errors.
     op_seq (op_check (numeric ''catch offset'' (operand os 0))) (\<lambda>n.
     op_update (\<lambda>f. f\<lparr>vf_handlers := \<lparr>vh_targetPc = pc + n + 1, vh_errors = errors, vh_stackDepth = length (vf_stack f)\<rparr>
       # vf_handlers f\<rparr>))))"

definition exec_try_pop :: "('w, frame_effect) frame_op" where
  "exec_try_pop = stay (op_seq (op_read vf_handlers) (\<lambda>hs.
     if hs = [] then woo_fail ''E_RANGE'' ''handler stack underflow'' WUndef
     else op_update (\<lambda>f. f\<lparr>vf_handlers := tl (vf_handlers f)\<rparr>)))"

primrec exec_op :: "'w vm_world \<Rightarrow> int \<Rightarrow> woo_value list \<Rightarrow> opcode \<Rightarrow> ('w, frame_effect) frame_op" where
  "exec_op W pc os PUSH_LIT = stay (op_seq (literal (operand os 0)) push)"
| "exec_op W pc os PUSH_INT = stay (op_seq (op_check (numeric ''inline integer'' (operand os 0))) (\<lambda>n. push (WInt n)))"
| "exec_op W pc os PUSH_LOCAL = stay (op_seq (localIndex (operand os 0)) (\<lambda>i.
     op_seq (op_read (\<lambda>f. or_else (vf_locals f ! i) WNull)) push))"
| "exec_op W pc os POP_LOCAL = stay (op_seq (localIndex (operand os 0)) (\<lambda>i. op_seq pop (set_local i)))"
| "exec_op W pc os PUSH_THIS = push_ctx (\<lambda>ctx. WStr (cx_thisObj ctx))"
| "exec_op W pc os PUSH_ACTOR = push_ctx (\<lambda>ctx. WStr (cx_actor ctx))"
| "exec_op W pc os PUSH_PLAYER = push_ctx (\<lambda>ctx. WStr (case cx_player ctx of Some p \<Rightarrow> p | None \<Rightarrow> cx_actor ctx))"
| "exec_op W pc os PUSH_CALLER = push_ctx (\<lambda>ctx. WStr (cx_caller ctx))"
| "exec_op W pc os PUSH_PROGR = push_ctx (\<lambda>ctx. WStr (cx_progr ctx))"
| "exec_op W pc os PUSH_VERB = push_ctx (\<lambda>ctx. WStr (cx_verbName ctx))"
| "exec_op W pc os PUSH_ARGS = stay (op_seq (op_read (\<lambda>f. WList (vf_args f))) push)"
| "exec_op W pc os PUSH_SPACE = push_ctx (\<lambda>ctx. WStr (cx_space ctx))"
| "exec_op W pc os PUSH_SEQ = push_ctx (\<lambda>ctx. WInt (cx_seq ctx))"
| "exec_op W pc os PUSH_MESSAGE = push_ctx cx_message"
| "exec_op W pc os PUSH_ARG = stay (op_seq (op_check (numeric ''arg index'' (operand os 0))) (\<lambda>i.
     op_seq (op_read (\<lambda>f. or_else (nth_value (vf_args f) i) WNull)) push))"
| "exec_op W pc os POP = stay pop"
| "exec_op W pc os DUP = stay (op_seq peek push)"
| "exec_op W pc os SWAP = stay (op_seq pop (\<lambda>right. op_seq pop (\<lambda>left. op_seq (push right) (\<lambda>_. push left))))"
| "exec_op W pc os ADD = stay binaryArithmetic"
| "exec_op W pc os SUB = stay (numericBinary (\<lambda>l r. Inr (l - r)))"
| "exec_op W pc os MUL = stay multiply"
| "exec_op W pc os DIV = stay (numericBinary (\<lambda>l r. if r = 0 then Inl division_by_zero else Inr (trunc_div l r)))"
| "exec_op W pc os MOD = stay (numericBinary (\<lambda>l r. if r = 0 then Inl division_by_zero else Inr (trunc_mod l r)))"
| "exec_op W pc os NEG = stay (op_seq (pop_number ''operand'') (\<lambda>n. push (WInt (- n))))"
| "exec_op W pc os LNOT = stay (op_seq pop (\<lambda>v. push (WBool (\<not> truthy v))))"
| "exec_op W pc os EQ = stay (op_seq pop (\<lambda>right. op_seq pop (\<lambda>left. push (WBool (valuesEqual left right)))))"
| "exec_op W pc os NEQ = stay (op_seq pop (\<lambda>right. op_seq pop (\<lambda>left. push (WBool (\<not> valuesEqual left right)))))"
| "exec_op W pc os LT = stay (compare number_less (<))"
| "exec_op W pc os LE = stay (compare number_le (\<le>))"
| "exec_op W pc os GT = stay (compare (\<lambda>a b. number_less b a) (>))"
| "exec_op W pc os GE = stay (compare (\<lambda>a b. number_le b a) (\<ge>))"
| "exec_op W pc os IN = stay membership"
| "exec_op W pc os JUMP = stay (jump pc (operand os 0))"
| "exec_op W pc os JUMP_IF_TRUE = op_seq pop (\<lambda>v. jump_if (truthy v) pc (operand os 0))"
| "exec_op W pc os JUMP_IF_FALSE = op_seq pop (\<lambda>v. jump_if (\<not> truthy v) pc (operand os 0))"
| "exec_op W pc os JUMP_IF_TRUE_KEEP = op_seq peek (\<lambda>v. jump_if (truthy v) pc (operand os 0))"
| "exec_op W pc os JUMP_IF_FALSE_KEEP = op_seq peek (\<lambda>v. jump_if (\<not> truthy v) pc (operand os 0))"
| "exec_op W pc os FOR_LIST_INIT = exec_for_list_init os"
| "exec_op W pc os FOR_LIST_NEXT =
     op_seq (op_seq peek (\<lambda>v. op_check (numeric ''list iterator index'' v))) (\<lambda>index.
     op_seq (op_seq below_top (\<lambda>v. op_check (assertList v))) (\<lambda>xs.
     if index \<ge> int (length xs) then stay (jump pc (operand os 1))
     else bind_next (operand os 0) (nth_value xs index) (index + 1)))"
| "exec_op W pc os FOR_RANGE_INIT = exec_for_range_init os"
| "exec_op W pc os FOR_RANGE_NEXT =
     op_seq (op_seq peek (\<lambda>v. op_check (numeric ''range iterator value'' v))) (\<lambda>current.
     op_seq (op_seq below_top (\<lambda>v. op_check (numeric ''range high'' v))) (\<lambda>hi.
     if current > hi then stay (jump pc (operand os 1))
     else bind_next (operand os 0) (WInt current) (current + 1)))"
| "exec_op W pc os FOR_MAP_INIT = exec_for_map_init"
| "exec_op W pc os FOR_MAP_NEXT =
     op_seq (op_seq peek (\<lambda>v. op_check (numeric ''map iterator index'' v))) (\<lambda>index.
     op_seq (op_seq below_top (\<lambda>v. op_check (assertMap v))) (\<lambda>m.
     if index \<ge> int (length m) then stay (jump pc (operand os 2))
     else if index < 0 then op_fail (Host_thrown ''undefined is not iterable'')
     else op_seq (localIndex (operand os 0)) (\<lambda>i. op_seq (set_local i (WStr (fst (m ! nat index)))) (\<lambda>_.
       bind_next (operand os 1) (snd (m ! nat index)) (index + 1)))))"
| "exec_op W pc os FOR_END = stay (op_seq pop (\<lambda>_. pop))"
| "exec_op W pc os GET_PROP = exec_get_prop W"
| "exec_op W pc os SET_PROP = exec_set_prop W"
| "exec_op W pc os HAS_PROP = exec_has_prop W"
| "exec_op W pc os DEFINE_PROP = exec_define_prop W"
| "exec_op W pc os UNDEFINE_PROP = exec_undefine_prop W"
| "exec_op W pc os PROP_INFO = exec_prop_info W"
| "exec_op W pc os SET_PROP_INFO = exec_set_prop_info W"
| "exec_op W pc os CALL_VERB = exec_call_verb W os"
| "exec_op W pc os PASS = exec_pass W os"
| "exec_op W pc os RETURN = exec_return"
| "exec_op W pc os RAISE = exec_raise"
| "exec_op W pc os BUILTIN = exec_builtin W os"
| "exec_op W pc os LIST_GET = exec_list_get"
| "exec_op W pc os LIST_SET = exec_list_set"
| "exec_op W pc os LIST_APPEND = exec_list_append"
| "exec_op W pc os MAP_GET = exec_map_get"
| "exec_op W pc os MAP_SET = exec_map_set"
| "exec_op W pc os INDEX_GET = exec_index_get"
| "exec_op W pc os INDEX_SET = exec_index_set"
| "exec_op W pc os MAKE_MAP = exec_make_map os"
| "exec_op W pc os MAKE_LIST = exec_make_list os"
| "exec_op W pc os STR_CONCAT = exec_str_concat os"
| "exec_op W pc os SPLAT = exec_splat"
| "exec_op W pc os OBSERVE = exec_observe W"
| "exec_op W pc os EMIT = exec_emit W"
| "exec_op W pc os YIELD = op_give Stay"
| "exec_op W pc os TRY_PUSH = exec_try_push pc os"
| "exec_op W pc os TRY_POP = exec_try_pop"
| "exec_op W pc os (Removed_op name) = woo_fail ''E_VERSION'' (name @ '' was removed with the parked-task model; recompile this verb using schedule() (spec/semantics/scheduling.md)'') (WStr name)"
| "exec_op W pc os (Unknown_op name) = woo_fail ''E_INVARG'' (''unknown VM opcode: '' @ name) WUndef"

lemmas exec_defs = exec_for_list_init_def exec_for_range_init_def exec_for_map_init_def exec_get_prop_def
  exec_set_prop_def exec_has_prop_def exec_define_prop_def exec_undefine_prop_def exec_prop_info_def
  exec_set_prop_info_def exec_call_verb_def exec_pass_def exec_return_def exec_raise_def exec_builtin_def
  exec_list_get_def exec_list_set_def exec_list_append_def exec_map_get_def exec_map_set_def exec_index_get_def
  exec_index_set_def exec_make_map_def exec_make_list_def exec_str_concat_def exec_splat_def exec_observe_def
  exec_emit_def exec_try_push_def exec_try_pop_def

section \<open>Error handling\<close>

definition trace_present :: "'w vm_world \<Rightarrow> woo_value \<Rightarrow> bool" where
  "trace_present W trace = (case trace of
      WStr s \<Rightarrow> s \<noteq> []
    | WList xs \<Rightarrow> xs \<noteq> []
    | WMap m \<Rightarrow> (case map_read m ''length'' of
        WNum n \<Rightarrow> number_less (Finite 0) n
      | WBool b \<Rightarrow> b
      | WStr s \<Rightarrow> number_less (Finite 0) (js_Number W s)
      | WList xs \<Rightarrow> number_less (Finite 0) (js_Number W (js_String (WList xs)))
      | _ \<Rightarrow> False)
    | _ \<Rightarrow> False)"

definition position_entries :: "woo_value \<Rightarrow> (string \<times> woo_value) list" where
  "position_entries mapped = (case mapped of
      WMap m \<Rightarrow> concat (map (\<lambda>k. case map_read m k of WNum n \<Rightarrow> [(k, WNum n)] | _ \<Rightarrow> [])
        [''line'', ''column'', ''end_line'', ''end_column''])
    | _ \<Rightarrow> [])"

definition vmTraceFrame :: "'w vm_world \<Rightarrow> 'w \<Rightarrow> vm_frame \<Rightarrow> int \<Rightarrow> woo_value" where
  "vmTraceFrame W w f pc = (let ctx = vf_ctx f in
     WMap ([(''obj'', WStr (cx_thisObj ctx)), (''verb'', WStr (cx_verbName ctx)), (''definer'', WStr (cx_definer ctx)),
        (''progr'', WStr (cx_progr ctx)), (''pc'', WInt pc)]
       @ (case vw_ownVerb W (cx_definer ctx) (cx_verbName ctx) w of
           None \<Rightarrow> []
         | Some verb \<Rightarrow> (''version'', WInt (vd_version verb)) # position_entries (map_read (vd_line_map verb) (show_int pc)))))"

definition vm_trace :: "'w vm_world \<Rightarrow> 'w \<Rightarrow> vm_frame list \<Rightarrow> int \<Rightarrow> woo_value list" where
  "vm_trace W w frames currentPc = (case frames of
      [] \<Rightarrow> []
    | f # rest \<Rightarrow> vmTraceFrame W w f currentPc # map (\<lambda>g. vmTraceFrame W w g (max 0 (vf_pc g - 1))) rest)"

definition attachVmTrace :: "'w vm_world \<Rightarrow> 'w \<Rightarrow> error_value \<Rightarrow> vm_frame list \<Rightarrow> int \<Rightarrow> error_value" where
  "attachVmTrace W w error frames currentPc =
     (if trace_present W (map_read error ''trace'') then error
      else map_put ''trace'' (WList (vm_trace W w frames currentPc)) error)"

text \<open>The innermost handler of a frame that takes the code, with the handlers left below it.\<close>

fun find_handler :: "string \<Rightarrow> vm_handler list \<Rightarrow> (vm_handler \<times> vm_handler list) option" where
  "find_handler code [] = None"
| "find_handler code (h # hs) =
     (if vh_errors h \<noteq> [] \<and> code \<notin> set (vh_errors h) then find_handler code hs else Some (h, hs))"

text \<open>\<open>stack.length = depth\<close>: a longer stack is cut, a shorter one is filled with \<open>undefined\<close>.\<close>

definition set_length :: "nat \<Rightarrow> woo_value list \<Rightarrow> woo_value list" where
  "set_length depth stack = replicate (depth - length stack) WUndef @ drop (length stack - depth) stack"

fun raise :: "error_value \<Rightarrow> vm_frame list \<Rightarrow> vm_frame list option" where
  "raise error [] = None"
| "raise error (f # rest) = (case find_handler (error_code error) (vf_handlers f) of
      None \<Rightarrow> raise error rest
    | Some (h, hs) \<Rightarrow>
        (let stack = set_length (vh_stackDepth h) (vf_stack f) in
         if int (length stack) \<ge> bc_max_stack (vf_bytecode f) then None
         else Some (f\<lparr>vf_handlers := hs, vf_stack := WMap error # stack, vf_pc := vh_targetPc h\<rparr> # rest)))"

definition CONTROL_SIGNALS :: "string list" where
  "CONTROL_SIGNALS = [''E_NEED_STATE'', ''E_NEED_ORDERED_CHILDREN'', ''E_NEED_ORDERED_NEIGHBORS'', ''E_NEED_REPLAY_PAGE'']"

section \<open>The loop\<close>

datatype 'w vm_outcome = Running "vm_frame list" 'w | Returned woo_value 'w | Escaped thrown 'w

definition handle_thrown :: "'w vm_world \<Rightarrow> thrown \<Rightarrow> vm_frame list \<Rightarrow> int \<Rightarrow> 'w \<Rightarrow> 'w vm_outcome" where
  "handle_thrown W e frames currentPc w =
     (if e = Plan_transfer then Escaped e w
      else let error = attachVmTrace W w (normalizeVmError e) frames currentPc in
        if error_code error \<in> set CONTROL_SIGNALS then Escaped (Woo_thrown error) w
        else case raise error frames of None \<Rightarrow> Escaped (Woo_thrown error) w | Some frames' \<Rightarrow> Running frames' w)"

definition wall_limit :: "tiny_bytecode \<Rightarrow> int" where
  "wall_limit b = (case bc_max_wall_ms b of Some t \<Rightarrow> t | None \<Rightarrow> DEFAULT_WALL_MS)"

text \<open>The body of the \<open>try\<close>: the budgets, then the opcode.\<close>

definition dispatch_op :: "'w vm_world \<Rightarrow> vm_frame \<Rightarrow> 'w \<Rightarrow> (thrown + frame_effect) \<times> vm_frame \<times> 'w" where
  "dispatch_op W f w = (case bc_ops (vf_bytecode f) ! nat (vf_pc f) of (name, operands) \<Rightarrow>
     let op = decode_op name;
         f' = f\<lparr>vf_pc := vf_pc f + 1, vf_ticksRemaining := vf_ticksRemaining f - tickWeight op\<rparr> in
     if vf_ticksRemaining f' < 0 then (Inl (woo_throw ''E_TICKS'' ''VM tick budget exceeded'' WUndef), f', w)
     else case vw_now W w of (now, w') \<Rightarrow>
       if vf_activeWallMs f' + now - vf_startedAt f' > wall_limit (vf_bytecode f')
       then (Inl (woo_throw ''E_TIMEOUT'' ''VM wall-time budget exceeded'' WUndef), f', w')
       else exec_op W (vf_pc f) operands op f' w')"

definition pushFrame ::
    "'w vm_world \<Rightarrow> nat \<Rightarrow> call_context \<Rightarrow> tiny_bytecode \<Rightarrow> woo_value list \<Rightarrow> 'w \<Rightarrow> (thrown + vm_frame) \<times> 'w" where
  "pushFrame W depth ctx b args w =
     (if depth \<ge> MAX_VM_FRAMES then (Inl (woo_throw ''E_CALL_DEPTH'' ''maximum VM frame depth exceeded'' WUndef), w)
      else makeFrame W ctx b args w)"

fun vm_step :: "'w vm_world \<Rightarrow> vm_frame list \<Rightarrow> 'w \<Rightarrow> 'w vm_outcome" where
  "vm_step W [] w = Returned WNull w"
| "vm_step W (f # rest) w =
     (let w1 = vw_setTurnRecorderFrame W (vf_ctx f) w; pc = vf_pc f in
      if pc \<ge> int (length (bc_ops (vf_bytecode f))) then
        (case rest of
           [] \<Rightarrow> Returned WNull w1
         | g # lower \<Rightarrow> (case push_value WNull g of Inl e \<Rightarrow> Escaped e w1 | Inr g' \<Rightarrow> Running (g' # lower) w1))
      else if pc < 0 then Escaped (Host_thrown ''undefined is not iterable'') w1
      else case dispatch_op W f w1 of
        (Inl e, f', w2) \<Rightarrow> handle_thrown W e (f' # rest) pc w2
      | (Inr Stay, f', w2) \<Rightarrow> Running (f' # rest) w2
      | (Inr (Enter ctx b args), f', w2) \<Rightarrow>
          (case pushFrame W (length (f' # rest)) ctx b args w2 of
             (Inl e, w3) \<Rightarrow> handle_thrown W e (f' # rest) pc w3
           | (Inr callee, w3) \<Rightarrow> Running (callee # f' # rest) w3)
      | (Inr (Leave v), f', w2) \<Rightarrow>
          (case rest of
             [] \<Rightarrow> Returned v w2
           | g # lower \<Rightarrow> (case push_value v g of
                Inl e \<Rightarrow> handle_thrown W e rest pc w2
              | Inr g' \<Rightarrow> Running (g' # lower) w2)))"

end
