(* ===== verification/VM_Run.thy ===== *)
theory VM_Run
  imports Tiny_VM
begin

text \<open>
  The run of a verb to its end. What an operation on a frame may change, shown once for every primitive
  and carried to all opcodes and builtins; that every step of the loop decreases a measure on the frame
  stack, whatever the world does; and with it \<open>runTinyVm\<close> as a total function.
\<close>

named_theorems frame_ops "operations stay within the frame relation"

section \<open>What an operation may do to its frame\<close>

text \<open>Authority may be handed over only by an authority the world calls a wizard.\<close>

definition wizard_in :: "'w vm_world \<Rightarrow> string \<Rightarrow> bool" where
  "wizard_in W p \<longleftrightarrow> (\<exists>w info w'. vw_object W p w = (Inr info, w') \<and> ''wizard'' \<in> set (ob_flags info))"

definition granted :: "'w vm_world \<Rightarrow> string \<Rightarrow> string \<Rightarrow> bool" where
  "granted W = (\<lambda>p q. wizard_in W p)\<^sup>*\<^sup>*"

text \<open>The bounds of a frame.\<close>

definition frame_ok :: "vm_frame \<Rightarrow> bool" where
  "frame_ok f \<longleftrightarrow> validateRuntimeBytecode (vf_bytecode f) = Inr ()
     \<and> int (length (vf_stack f)) \<le> bc_max_stack (vf_bytecode f)
     \<and> int (length (vf_locals f)) = bc_num_locals (vf_bytecode f)
     \<and> (\<forall>h \<in> set (vf_handlers f). int (vh_stackDepth h) \<le> bc_max_stack (vf_bytecode f))
     \<and> 0 \<le> vf_memoryUsed f \<and> vf_ticksRemaining f \<le> tick_limit (vf_bytecode f)"

definition frame_le :: "'w vm_world \<Rightarrow> vm_frame \<Rightarrow> vm_frame \<Rightarrow> bool" where
  "frame_le W f f' \<longleftrightarrow> vf_bytecode f' = vf_bytecode f \<and> vf_args f' = vf_args f
     \<and> vf_startedAt f' = vf_startedAt f \<and> vf_activeWallMs f' = vf_activeWallMs f
     \<and> vf_ticksRemaining f' \<le> vf_ticksRemaining f \<and> vf_memoryUsed f \<le> vf_memoryUsed f'
     \<and> (vf_ctx f')\<lparr>cx_progr := []\<rparr> = (vf_ctx f)\<lparr>cx_progr := []\<rparr>
     \<and> granted W (cx_progr (vf_ctx f)) (cx_progr (vf_ctx f'))
     \<and> (frame_ok f \<longrightarrow> frame_ok f')"

lemma granted_refl [simp, intro!]: "granted W p p"
  by (simp add: granted_def)

lemma granted_trans: "granted W p q \<Longrightarrow> granted W q r \<Longrightarrow> granted W p r"
  unfolding granted_def by (rule rtranclp_trans)

lemma frame_le_refl [simp, intro!]: "frame_le W f f"
  by (simp add: frame_le_def)

lemma frame_le_trans: "frame_le W f g \<Longrightarrow> frame_le W g h \<Longrightarrow> frame_le W f h"
  by (auto simp: frame_le_def intro: granted_trans)

definition within :: "'w vm_world \<Rightarrow> ('w, 'a) frame_op \<Rightarrow> bool" where
  "within W m \<longleftrightarrow> (\<forall>f w. frame_le W f (fst (snd (m f w))))"

lemma within_basic [frame_ops]:
  "within W (op_give a)" "within W (op_fail e)" "within W (op_check r)" "within W (op_read g)" "within W (woo_fail c m v)"
  by (simp_all add: within_def op_give_def op_fail_def op_check_def op_read_def woo_fail_def)

lemma within_world [frame_ops]: "within W (op_world h)"
  by (simp add: within_def op_world_def split: prod.split)

lemma within_update [frame_ops]: "(\<And>f. frame_le W f (g f)) \<Longrightarrow> within W (op_update g)"
  by (simp add: within_def op_update_def)

lemma within_seq [frame_ops]:
  assumes "within W m" "\<And>a. within W (k a)"
  shows "within W (op_seq m k)"
  unfolding within_def
proof (intro allI)
  fix f w
  obtain r f' w' where m: "m f w = (r, f', w')" by (cases "m f w")
  have "frame_le W f f'" using assms(1) m by (metis within_def fst_conv snd_conv)
  then show "frame_le W f (fst (snd (op_seq m k f w)))"
    using assms(2) m by (cases r) (auto simp: op_seq_def within_def intro: frame_le_trans)
qed

lemma within_if [frame_ops]: "(b \<Longrightarrow> within W m) \<Longrightarrow> (\<not> b \<Longrightarrow> within W m') \<Longrightarrow> within W (if b then m else m')"
  by simp

lemma within_let [frame_ops]: "(\<And>x. within W (m x)) \<Longrightarrow> within W (Let a m)"
  by simp

lemma within_option [frame_ops]: "within W m \<Longrightarrow> (\<And>x. within W (k x)) \<Longrightarrow> within W (case r of None \<Rightarrow> m | Some x \<Rightarrow> k x)"
  by (cases r) simp_all

lemma within_pair [frame_ops]: "(\<And>a b. within W (k a b)) \<Longrightarrow> within W (case r of (a, b) \<Rightarrow> k a b)"
  by (cases r) simp

lemma within_value [frame_ops]:
  "within W a \<Longrightarrow> within W b \<Longrightarrow> (\<And>x. within W (c x)) \<Longrightarrow> (\<And>x. within W (d x)) \<Longrightarrow> (\<And>x. within W (e x)) \<Longrightarrow>
   (\<And>x. within W (g x)) \<Longrightarrow> (\<And>x. within W (h x)) \<Longrightarrow>
   within W (case v of WUndef \<Rightarrow> a | WNull \<Rightarrow> b | WBool x \<Rightarrow> c x | WNum x \<Rightarrow> d x | WStr x \<Rightarrow> e x | WList x \<Rightarrow> g x | WMap x \<Rightarrow> h x)"
  by (cases v) simp_all

lemma within_number [frame_ops]:
  "(\<And>x. within W (a x)) \<Longrightarrow> (\<And>x. within W (b x)) \<Longrightarrow> within W c \<Longrightarrow>
   within W (case n of Finite x \<Rightarrow> a x | Infinite x \<Rightarrow> b x | Not_a_number \<Rightarrow> c)"
  by (cases n) simp_all

lemma within_each [frame_ops]: "(\<And>x. within W (m x)) \<Longrightarrow> within W (op_each m xs)"
  by (induction xs) (auto intro!: frame_ops)

section \<open>Primitives\<close>

lemma estimateSize_nonneg: "0 \<le> estimateSize v"
proof (induction v)
  case (WList xs)
  then show ?case by (auto intro!: add_nonneg_nonneg sum_list_nonneg)
next
  case (WMap kvs)
  then show ?case by (fastforce intro!: add_nonneg_nonneg sum_list_nonneg simp: snds.simps)
qed simp_all

lemma within_pop [frame_ops]: "within W pop"
  by (auto simp: within_def pop_def frame_le_def frame_ok_def split: list.split)

lemma within_peek [frame_ops]: "within W peek"
  by (auto simp: within_def peek_def split: list.split)

lemma push_value_le: "push_value v f = Inr f' \<Longrightarrow> frame_le W f f'"
  by (auto simp: push_value_def frame_le_def frame_ok_def split: if_splits)

lemma within_push [frame_ops]: "within W (push v)"
  by (auto simp: within_def push_def push_value_le split: sum.split)

lemma within_allocate [frame_ops]: "within W (allocate v)"
  using estimateSize_nonneg [of v] by (auto simp: within_def allocate_def frame_le_def frame_ok_def Let_def)

lemma within_chargeTicks [frame_ops]: "0 \<le> n \<Longrightarrow> within W (chargeTicks n)"
  by (auto simp: within_def chargeTicks_def frame_le_def frame_ok_def Let_def)

lemma within_pops [frame_ops]:
  "within W (pop_many n vs)" "within W (pop_strings n parts)" "within W (pop_entries n es)"
  by (induction n arbitrary: vs parts es) (auto intro!: frame_ops)

lemma within_popArgs [frame_ops]: "within W (popArgs i)"
  unfolding popArgs_def by (intro frame_ops)

lemma within_locals [frame_ops]: "within W (set_local i v)" "within W (set_top v)" "within W below_top"
  unfolding set_local_def set_top_def below_top_def
  by (auto intro!: frame_ops simp: frame_le_def frame_ok_def split: list.split)

lemma within_derived [frame_ops]:
  "within W (jump pc v)" "within W (literal v)" "within W (localIndex v)" "within W (world_method W n args)"
  unfolding jump_def literal_def localIndex_def world_method_def
  by (auto intro!: frame_ops simp: frame_le_def frame_ok_def)

section \<open>Builtins and opcodes\<close>

lemma within_set_task_perms: "within W (builtin_set_task_perms W args)"
proof -
  have "frame_le W f (fst (snd (builtin_set_task_perms W args f w)))" for f w
  proof -
    consider "length args \<noteq> 1" | e where "length args = 1" "assertObj (operand args 0) = Inl e"
      | q where "length args = 1" "assertObj (operand args 0) = Inr q"
      by (cases "assertObj (operand args 0)") auto
    then show ?thesis
    proof cases
      case (3 q)
      let ?p = "cx_progr (vf_ctx f)"
      have ok: "frame_le W f (f\<lparr>vf_ctx := (vf_ctx f)\<lparr>cx_progr := q\<rparr>\<rparr>)" if "q = ?p \<or> wizard_in W ?p"
        using that by (auto simp: frame_le_def frame_ok_def granted_def)
      show ?thesis
        using 3 ok by (auto simp: builtin_set_task_perms_def op_seq_def op_check_def op_world_def op_read_def read_ctx_def
          op_give_def op_update_def op_fail_def woo_fail_def wizard_in_def split: prod.split sum.split)
    qed (auto simp: builtin_set_task_perms_def arity_fail_def woo_fail_def op_fail_def op_seq_def op_check_def)
  qed
  then show ?thesis by (simp add: within_def)
qed

lemmas builtin_defs = builtin_schedule_def builtin_create_def builtin_has_flag_def builtin_idle_seconds_def
  builtin_ordered_children_def builtin_ordered_neighbors_def builtin_with_clock_def builtin_directory_reconcile_def
  builtin_random_def builtin_location_def builtin_all_locations_def builtin_primary_session_def builtin_set_presence_def
  builtin_observe_to_space_def builtin_dispatch_def builtin_collect_prop_def builtin_object_tree_rows_def
  world_dispatch_def arity_fail_def read_ctx_def container_arg_def

lemma within_read_ctx [frame_ops]: "within W (read_ctx g)" "within W (arity_fail message)"
  by (simp_all add: read_ctx_def arity_fail_def frame_ops)

lemma within_builtins:
  "within W (builtin_schedule W rel args)" "within W (builtin_create W args)" "within W (builtin_has_flag W args)"
  "within W (builtin_idle_seconds W args)" "within W (builtin_ordered_children W args)" "within W (builtin_ordered_neighbors W args)"
  "within W (builtin_with_clock W m l n args)" "within W (builtin_directory_reconcile W args)" "within W (builtin_random W args)"
  "within W (builtin_location W args)" "within W (builtin_all_locations W args)" "within W (builtin_primary_session W args)"
  "within W (builtin_set_presence W args)" "within W (builtin_observe_to_space W args)" "within W (builtin_dispatch W args)"
  "within W (builtin_collect_prop W args)" "within W (builtin_object_tree_rows W args)" "within W (world_dispatch W obj nm args a b)"
  unfolding builtin_defs by (intro frame_ops; simp)+

lemma within_frame_builtin:
  assumes "frame_builtin W name args = Some m"
  shows "within W m"
  using assms unfolding frame_builtin_def
  by (auto split: if_split_asm intro!: frame_ops within_builtins within_set_task_perms)

lemma within_frame_case: "within W k \<Longrightarrow> within W (case frame_builtin W name args of Some m \<Rightarrow> m | None \<Rightarrow> k)"
  by (auto split: option.split dest: within_frame_builtin)

lemma within_callBuiltin [frame_ops]: "within W (callBuiltin W n args)" "within W (tryFastBuiltin W n args)"
  unfolding callBuiltin_def tryFastBuiltin_def forward_builtin_def
  by (intro within_frame_case frame_ops; simp)+

lemma within_operators [frame_ops]:
  "within W binaryArithmetic" "within W (numericBinary fn)" "within W multiply" "within W (compare num str)" "within W membership"
  "within W (list_get xs i)" "within W (list_set xs i v)" "within W (map_get m k)" "within W (operands_error msg l r)"
  unfolding binaryArithmetic_def numericBinary_def multiply_def compare_def membership_def list_get_def list_set_def map_get_def
    operands_error_def index_error_def repeated_def
  by (intro frame_ops)+

lemma within_pop_typed [frame_ops]:
  "within W pop_string" "within W pop_obj" "within W pop_map" "within W pop_list" "within W (pop_number l)" "within W (push_ctx g)"
  "within W (bind_next slot v n)" "within W (prop_method W nm)" "within W (handler_errors i)"
  unfolding pop_string_def pop_obj_def pop_map_def pop_list_def pop_number_def push_ctx_def stay_def bind_next_def prop_method_def
    handler_errors_def
  by (intro frame_ops)+

lemma within_stay [frame_ops]: "within W m \<Longrightarrow> within W (stay m)"
  by (simp add: stay_def frame_ops)

lemma within_jump_if [frame_ops]: "within W (jump_if b pc v)"
  unfolding jump_if_def by (intro frame_ops)

lemma within_callVerb [frame_ops]: "within W (callVerb W obj nm args st)"
  unfolding callVerb_def by (intro frame_ops within_builtins)

lemma set_tl_mem: "x \<in> set (tl xs) \<Longrightarrow> x \<in> set xs"
  by (cases xs) auto

lemma within_handlers [frame_ops]:
  "within W (op_update (\<lambda>f. f\<lparr>vf_handlers := \<lparr>vh_targetPc = t, vh_errors = es, vh_stackDepth = length (vf_stack f)\<rparr> # vf_handlers f\<rparr>))"
  "within W (op_update (\<lambda>f. f\<lparr>vf_handlers := tl (vf_handlers f)\<rparr>))"
  by (rule within_update, auto simp: frame_le_def frame_ok_def dest: set_tl_mem)+

lemma within_exec_op: "within W (exec_op W pc os op)"
  by (cases op; simp only: exec_op.simps exec_defs; (intro frame_ops)?)

lemma tickWeight_pos: "0 < tickWeight op"
  by (simp add: tickWeight_def)

text \<open>The ticks of a dispatched opcode, and what happens to a frame whose budget is spent.\<close>

lemma dispatch_op_le:
  assumes "dispatch_op W f w = (r, f', w')"
  shows "frame_le W f f' \<and> vf_ticksRemaining f' < vf_ticksRemaining f
    \<and> (vf_ticksRemaining f < 0 \<longrightarrow> (\<exists>e. r = Inl e) \<and> vf_handlers f' = vf_handlers f)"
proof -
  obtain nm os where op: "bc_ops (vf_bytecode f) ! nat (vf_pc f) = (nm, os)" by fastforce
  define g where "g = f\<lparr>vf_pc := vf_pc f + 1, vf_ticksRemaining := vf_ticksRemaining f - tickWeight (decode_op nm)\<rparr>"
  have g: "frame_le W f g" "vf_ticksRemaining g < vf_ticksRemaining f" "vf_handlers g = vf_handlers f"
    using tickWeight_pos [of "decode_op nm"] by (auto simp: g_def frame_le_def frame_ok_def)
  have e: "frame_le W g (fst (snd (exec_op W pc os op' g w'')))" for pc op' w''
    using within_exec_op by (metis within_def)
  obtain now w1 where now: "vw_now W w = (now, w1)" by fastforce
  have "dispatch_op W f w =
      (if vf_ticksRemaining g < 0 then (Inl (woo_throw ''E_TICKS'' ''VM tick budget exceeded'' WUndef), g, w)
       else if vf_activeWallMs g + now - vf_startedAt g > wall_limit (vf_bytecode g)
       then (Inl (woo_throw ''E_TIMEOUT'' ''VM wall-time budget exceeded'' WUndef), g, w1)
       else exec_op W (vf_pc f) os (decode_op nm) g w1)"
    by (simp add: dispatch_op_def op Let_def now g_def)
  then consider "f' = g" "\<exists>e. r = Inl e" | "0 \<le> vf_ticksRemaining g" "exec_op W (vf_pc f) os (decode_op nm) g w1 = (r, f', w')"
    using assms by (auto split: if_splits)
  then show ?thesis
  proof cases
    case 1
    then show ?thesis using g by simp
  next
    case 2
    then have "frame_le W g f'" using e [of "vf_pc f" "decode_op nm" w1] 2 by simp
    then show ?thesis using g 2 frame_le_trans [OF g(1)] by (auto simp: frame_le_def)
  qed
qed

section \<open>Every run ends\<close>

text \<open>
  A frame is ranked by its remaining ticks, then by its handlers: a spent frame may still catch, once per
  handler. A stack of frames is ranked from the bottom, an absent frame below any present one.
\<close>

definition frame_rank :: "vm_frame \<Rightarrow> nat \<times> nat \<times> nat" where
  "frame_rank f = (1, nat (vf_ticksRemaining f + 1), length (vf_handlers f))"

definition rank_less :: "((nat \<times> nat \<times> nat) \<times> nat \<times> nat \<times> nat) set" where
  "rank_less = less_than <*lex*> less_than <*lex*> less_than"

definition depth_bound :: "vm_frame list \<Rightarrow> nat" where
  "depth_bound fs = max MAX_VM_FRAMES (length fs)"

definition stack_rank :: "vm_frame list \<Rightarrow> (nat \<times> nat \<times> nat) list" where
  "stack_rank fs = rev (map frame_rank fs) @ replicate (depth_bound fs - length fs) (0, 0, 0)"

definition vm_order :: "(vm_frame list \<times> vm_frame list) set" where
  "vm_order = inv_image (less_than <*lex*> lex rank_less) (\<lambda>fs. (depth_bound fs, stack_rank fs))"

lemma wf_vm_order: "wf vm_order"
  unfolding vm_order_def rank_less_def by (intro wf_inv_image wf_lex_prod wf_less_than wf_lex)

lemma length_stack_rank: "length (stack_rank fs) = depth_bound fs"
  by (simp add: stack_rank_def depth_bound_def)

lemma lex_at: "(x, y) \<in> r \<Longrightarrow> length a = length b \<Longrightarrow> (p @ x # a, p @ y # b) \<in> lex r"
  unfolding lex_conv by simp blast

lemma vm_orderI:
  assumes "map frame_rank rest' = map frame_rank rest"
    and "fs' = rest' \<or> (\<exists>upper' f'. fs' = upper' @ f' # rest' \<and> (frame_rank f', frame_rank f) \<in> rank_less)"
    and "length fs' \<le> depth_bound (upper @ f # rest)"
  shows "(fs', upper @ f # rest) \<in> vm_order"
proof -
  let ?fs = "upper @ f # rest"
  have le: "depth_bound fs' \<le> depth_bound ?fs" using assms(3) by (simp add: depth_bound_def)
  have len: "length rest' = length rest" using assms(1) by (metis length_map)
  have "(stack_rank fs', stack_rank ?fs) \<in> lex rank_less" if eq: "depth_bound fs' = depth_bound ?fs"
  proof -
    have fs: "stack_rank ?fs = rev (map frame_rank rest) @ frame_rank f # rev (map frame_rank upper) @ replicate (depth_bound ?fs - length ?fs) (0, 0, 0)"
      by (simp add: stack_rank_def)
    have "\<exists>x tail. stack_rank fs' = rev (map frame_rank rest) @ x # tail \<and> (x, frame_rank f) \<in> rank_less"
      using assms(2)
    proof
      assume r: "fs' = rest'"
      have "length rest < depth_bound ?fs" by (simp add: depth_bound_def)
      then obtain k where "depth_bound ?fs - length rest' = Suc k" using len by (metis Suc_diff_Suc)
      then have "stack_rank fs' = rev (map frame_rank rest) @ (0, 0, 0) # replicate k (0, 0, 0)"
        using r eq assms(1) by (simp add: stack_rank_def)
      then show ?thesis by (auto simp: rank_less_def frame_rank_def)
    next
      assume "\<exists>upper' f'. fs' = upper' @ f' # rest' \<and> (frame_rank f', frame_rank f) \<in> rank_less"
      then obtain upper' f' where u: "fs' = upper' @ f' # rest'" "(frame_rank f', frame_rank f) \<in> rank_less" by blast
      have "stack_rank fs' = rev (map frame_rank rest) @ frame_rank f' # rev (map frame_rank upper')
          @ replicate (depth_bound fs' - length fs') (0, 0, 0)"
        using u(1) assms(1) by (simp add: stack_rank_def)
      then show ?thesis using u(2) by blast
    qed
    then obtain x tail where x: "stack_rank fs' = rev (map frame_rank rest) @ x # tail" "(x, frame_rank f) \<in> rank_less" by blast
    have "length (stack_rank fs') = length (stack_rank ?fs)" using eq by (simp only: length_stack_rank)
    then show ?thesis unfolding x(1) fs by (intro lex_at x(2)) simp
  qed
  then show ?thesis using le by (auto simp: vm_order_def)
qed

lemma find_handler_shorter: "find_handler code hs = Some (h, hs') \<Longrightarrow> length hs' < length hs \<and> insert h (set hs') \<subseteq> set hs"
  by (induction hs) (auto split: if_splits)

lemma length_set_length [simp]: "length (set_length n xs) = n"
  by (simp add: set_length_def)

lemma raise_resumes:
  assumes "raise error fs = Some fs'"
  obtains upper f rest f' where "fs = upper @ f # rest" "fs' = f' # rest" "vf_ticksRemaining f' = vf_ticksRemaining f"
    "length (vf_handlers f') < length (vf_handlers f)" "frame_le W f f'" "vf_ctx f' = vf_ctx f"
proof -
  have "\<exists>upper f rest f'. fs = upper @ f # rest \<and> fs' = f' # rest \<and> vf_ticksRemaining f' = vf_ticksRemaining f
      \<and> length (vf_handlers f') < length (vf_handlers f) \<and> frame_le W f f' \<and> vf_ctx f' = vf_ctx f"
    using assms
  proof (induction fs)
    case (Cons f fs)
    show ?case
    proof (cases "find_handler (error_code error) (vf_handlers f)")
      case None
      then obtain u g rest g' where ih: "fs = u @ g # rest" "fs' = g' # rest" "vf_ticksRemaining g' = vf_ticksRemaining g"
          "length (vf_handlers g') < length (vf_handlers g)" "frame_le W g g'" "vf_ctx g' = vf_ctx g"
        using Cons by auto
      then have "f # fs = (f # u) @ g # rest" by simp
      then show ?thesis using ih by blast
    next
      case (Some p)
      obtain h hs where p: "p = (h, hs)" by (cases p)
      define f' where "f' = f\<lparr>vf_handlers := hs, vf_stack := WMap error # set_length (vh_stackDepth h) (vf_stack f), vf_pc := vh_targetPc h\<rparr>"
      have r: "fs' = f' # fs" "int (vh_stackDepth h) < bc_max_stack (vf_bytecode f)"
        using Cons.prems Some p by (auto simp: f'_def Let_def split: if_splits)
      have hs: "length hs < length (vf_handlers f)" "insert h (set hs) \<subseteq> set (vf_handlers f)"
        using find_handler_shorter Some p by blast+
      have "frame_le W f f'" using r(2) hs(2) by (auto simp: f'_def frame_le_def frame_ok_def)
      moreover have "vf_ticksRemaining f' = vf_ticksRemaining f" "length (vf_handlers f') < length (vf_handlers f)" "vf_ctx f' = vf_ctx f"
        using hs by (auto simp: f'_def)
      ultimately show ?thesis using r(1) by (metis append_Nil)
    qed
  qed simp
  then show ?thesis using that by blast
qed

lemma rank_less_iff: "(frame_rank f', frame_rank f) \<in> rank_less \<longleftrightarrow>
    nat (vf_ticksRemaining f' + 1) < nat (vf_ticksRemaining f + 1)
    \<or> nat (vf_ticksRemaining f' + 1) = nat (vf_ticksRemaining f + 1) \<and> length (vf_handlers f') < length (vf_handlers f)"
  by (auto simp: frame_rank_def rank_less_def)

lemma push_value_rank: "push_value v g = Inr g' \<Longrightarrow> frame_rank g' = frame_rank g"
  by (auto simp: push_value_def frame_rank_def split: if_splits)

text \<open>An error caught somewhere in the stack, after the top frame paid for the opcode that raised it.\<close>

lemma handle_thrown_decreases:
  assumes run: "handle_thrown W e (f' # rest) pc w = Running fs' w'"
    and le: "vf_ticksRemaining f' < vf_ticksRemaining f" "vf_ticksRemaining f < 0 \<Longrightarrow> vf_handlers f' = vf_handlers f"
  shows "(fs', f # rest) \<in> vm_order"
proof -
  obtain error where "raise error (f' # rest) = Some fs'"
    using run by (auto simp: handle_thrown_def Let_def simp del: raise.simps split: if_splits option.splits)
  then obtain u g lower g' where r: "f' # rest = u @ g # lower" "fs' = g' # lower" "vf_ticksRemaining g' = vf_ticksRemaining g"
      "length (vf_handlers g') < length (vf_handlers g)"
    by (rule raise_resumes)
  show ?thesis
  proof (cases u)
    case Nil
    then have "(frame_rank g', frame_rank f) \<in> rank_less" using r le by (auto simp: rank_less_iff)
    then show ?thesis using r Nil vm_orderI [of lower lower fs' f "[]"] by (auto simp: depth_bound_def)
  next
    case (Cons a v)
    have "(frame_rank g', frame_rank g) \<in> rank_less" using r by (auto simp: rank_less_iff)
    then have "(fs', (f # v) @ g # lower) \<in> vm_order"
      using r by (intro vm_orderI [of lower lower]) (auto simp: depth_bound_def)
    then show ?thesis using r Cons by simp
  qed
qed

lemma handler_le: "frame_le W f f' \<Longrightarrow> vf_ticksRemaining f' < vf_ticksRemaining f \<Longrightarrow> 0 \<le> vf_ticksRemaining f \<Longrightarrow>
    (frame_rank f', frame_rank f) \<in> rank_less"
  by (auto simp: rank_less_iff)

lemma dispatch_step_decreases:
  assumes d: "dispatch_op W f w = (Inr eff, f', w2)"
  shows "(f' # rest, f # rest) \<in> vm_order" "length rest + 1 < MAX_VM_FRAMES \<Longrightarrow> (callee # f' # rest, f # rest) \<in> vm_order"
proof -
  have "(frame_rank f', frame_rank f) \<in> rank_less"
    using dispatch_op_le [OF d] handler_le by (metis Inl_Inr_False not_less)
  then show "(f' # rest, f # rest) \<in> vm_order" "length rest + 1 < MAX_VM_FRAMES \<Longrightarrow> (callee # f' # rest, f # rest) \<in> vm_order"
    using vm_orderI [of rest rest "f' # rest" f "[]"] vm_orderI [of rest rest "[callee] @ f' # rest" f "[]"]
    by (fastforce simp: depth_bound_def)+
qed

lemma return_decreases:
  assumes "push_value v g = Inr g'"
  shows "(g' # lower, f # g # lower) \<in> vm_order"
  using vm_orderI [of "g' # lower" "g # lower" "g' # lower" f "[]"] push_value_rank [OF assms] by (simp add: depth_bound_def)

lemma vm_step_decreases:
  assumes run: "vm_step W fs w = Running fs' w'"
  shows "(fs', fs) \<in> vm_order"
proof (cases fs)
  case (Cons f rest)
  define w1 where "w1 = vw_setTurnRecorderFrame W (vf_ctx f) w"
  obtain r f' w2 where d: "dispatch_op W f w1 = (r, f', w2)" by (cases "dispatch_op W f w1")
  note dle = dispatch_op_le [OF d]
  have thrown: "(fs', f # rest) \<in> vm_order" if "handle_thrown W e (f' # rest) pc w3 = Running fs' w'" for e pc w3
    using handle_thrown_decreases [OF that] dle by blast
  show ?thesis
  proof (cases "vf_pc f \<ge> int (length (bc_ops (vf_bytecode f)))")
    case True
    then obtain g g' lower where "rest = g # lower" "push_value WNull g = Inr g'" "fs' = g' # lower"
      using run Cons by (auto simp: Let_def w1_def [symmetric] split: list.splits sum.splits)
    then show ?thesis using Cons return_decreases by simp
  next
    case False
    show ?thesis
    proof (cases r)
      case (Inl e)
      then show ?thesis using run Cons False d thrown by (auto simp: Let_def w1_def [symmetric] split: if_splits)
    next
      case (Inr eff)
      note d = d [unfolded Inr]
      show ?thesis
      proof (cases eff)
        case Stay
        then show ?thesis using run Cons False d dispatch_step_decreases(1) [OF d] by (auto simp: Let_def w1_def [symmetric] split: if_splits)
      next
        case (Enter ctx b args)
        show ?thesis using run Cons False d thrown dispatch_step_decreases(2) [OF d] Enter
          by (auto simp: Let_def w1_def [symmetric] pushFrame_def split: if_splits prod.splits sum.splits)
      next
        case (Leave v)
        show ?thesis
        proof (cases rest)
          case (Cons g lower)
          show ?thesis
          proof (cases "push_value v g")
            case (Inr g')
            then show ?thesis using run \<open>fs = f # rest\<close> Cons False d Leave return_decreases [OF Inr, of lower f]
              by (auto simp: Let_def w1_def [symmetric] split: if_splits)
          next
            case (Inl e)
            then have "handle_thrown W e rest (vf_pc f) w2 = Running fs' w'"
              using run \<open>fs = f # rest\<close> Cons False d Leave by (auto simp: Let_def w1_def [symmetric] split: if_splits)
            then obtain error where "raise error rest = Some fs'"
              by (auto simp: handle_thrown_def Let_def simp del: raise.simps split: if_splits option.splits)
            then obtain u h under h' where r: "rest = u @ h # under" "fs' = h' # under" "vf_ticksRemaining h' = vf_ticksRemaining h"
                "length (vf_handlers h') < length (vf_handlers h)"
              by (rule raise_resumes)
            then have "(fs', (f # u) @ h # under) \<in> vm_order"
              by (intro vm_orderI [of under under]) (auto simp: depth_bound_def rank_less_iff)
            then show ?thesis using r \<open>fs = f # rest\<close> by simp
          qed
        qed (use run \<open>fs = f # rest\<close> False d Leave in \<open>auto simp: Let_def w1_def [symmetric] split: if_splits\<close>)
      qed
    qed
  qed
qed (use run in simp)

text \<open>The loop, and the entry point.\<close>

function vm_run :: "'w vm_world \<Rightarrow> vm_frame list \<Rightarrow> 'w \<Rightarrow> (thrown + woo_value) \<times> 'w" where
  "vm_run W fs w = (case vm_step W fs w of
      Running fs' w' \<Rightarrow> vm_run W fs' w'
    | Returned v w' \<Rightarrow> (Inr v, w')
    | Escaped e w' \<Rightarrow> (Inl e, w'))"
  by pat_completeness auto

termination
  by (relation "inv_image vm_order (\<lambda>(W, fs, w). fs)") (auto simp: wf_vm_order vm_step_decreases)

declare vm_run.simps [simp del]

definition runTinyVm ::
    "'w vm_world \<Rightarrow> call_context \<Rightarrow> tiny_bytecode \<Rightarrow> woo_value list \<Rightarrow> 'w \<Rightarrow> (thrown + woo_value) \<times> 'w" where
  "runTinyVm W ctx b args w = (case makeFrame W ctx b args w of
      (Inl e, w') \<Rightarrow> (Inl e, w')
    | (Inr f, w') \<Rightarrow> vm_run W [f] w')"

end
