(* ===== verification/VM_Facts.thy ===== *)
theory VM_Facts
  imports VM_Run
begin

text \<open>
  What holds along every run of the interpreter, for every world: frames stay in their bounds, frames are
  linked by the calls that made them and act under granted authority, errors reach exactly the innermost
  handler that takes them, and every run ends.
\<close>

section \<open>Reachable frame stacks\<close>

text \<open>The world may change between two steps in any way: a step is taken against any state of it.\<close>

inductive vm_reach :: "'w vm_world \<Rightarrow> vm_frame list \<Rightarrow> bool" for W where
  reach_start: "makeFrame W ctx b args w = (Inr f, w') \<Longrightarrow> vm_reach W [f]"
| reach_step: "vm_reach W fs \<Longrightarrow> vm_step W fs w = Running fs' w' \<Longrightarrow> vm_reach W fs'"

text \<open>What one step may do to the frame stack.\<close>

definition fresh_frame :: "vm_frame \<Rightarrow> bool" where
  "fresh_frame c \<longleftrightarrow> frame_ok c \<and> vf_stack c = [] \<and> vf_handlers c = [] \<and> vf_pc c = 0
     \<and> vf_ticksRemaining c = tick_limit (vf_bytecode c) \<and> vf_memoryUsed c = 0"

lemma makeFrame_fresh:
  assumes "makeFrame W ctx b args w = (Inr c, w')"
  shows "fresh_frame c \<and> vf_ctx c = ctx \<and> vf_bytecode c = b \<and> vf_args c = args"
  using assms by (auto simp: makeFrame_def fresh_frame_def frame_ok_def initial_locals_def validateRuntimeBytecode_def
      split: sum.splits prod.splits if_splits)

text \<open>The call that made a frame, seen from the frame below it.\<close>

definition called_by :: "'w vm_world \<Rightarrow> vm_frame \<Rightarrow> vm_frame \<Rightarrow> bool" where
  "called_by W c g \<longleftrightarrow> (let callee = vf_ctx c; caller = vf_ctx g in
     cx_caller callee = cx_thisObj caller \<and> cx_callerPerms callee = cx_progr caller
     \<and> cx_actor callee = cx_actor caller \<and> cx_session callee = cx_session caller \<and> cx_space callee = cx_space caller
     \<and> cx_seq callee = cx_seq caller \<and> cx_message callee = cx_message caller
     \<and> cx_player callee = Some (case cx_player caller of Some p \<Rightarrow> p | None \<Rightarrow> cx_actor caller)
     \<and> (\<exists>startAt verb dependencies w w' w1 w2.
          vw_resolveVerb W startAt (cx_thisObj callee) (cx_verbName callee) w = (Inr (cx_definer callee, verb, dependencies), w')
          \<and> vw_assertCanExecuteVerb W (cx_callerPerms callee) (cx_thisObj callee) (cx_verbName callee) verb w1 = (Inr (), w2)
          \<and> \<not> vd_native verb \<and> vf_bytecode c = vd_bytecode verb \<and> granted W (vd_owner verb) (cx_progr callee)))"

lemma callVerb_Enter:
  assumes e: "callVerb W obj name args startAt f w = (Inr (Enter ctx b args'), f', w')"
    and c: "vf_ctx c = ctx" "vf_bytecode c = b"
  shows "f' = f \<and> called_by W c f"
proof -
  obtain definer verb deps w1 w2 w3 where v: "f' = f" "ctx = callee_context (vf_ctx f) obj name definer verb" "b = vd_bytecode verb"
      "vw_resolveVerb W startAt obj name w1 = (Inr (definer, verb, deps), w2)"
      "vw_assertCanExecuteVerb W (cx_progr (vf_ctx f)) obj name verb w2 = (Inr (), w3)" "\<not> vd_native verb"
    using e by (auto simp: callVerb_def op_seq_def op_world_def op_read_def op_give_def stay_def
        split: prod.splits sum.splits if_splits option.splits)
  have "called_by W c f"
    unfolding called_by_def c v(2,3) callee_context_def using v(4-6) by (simp add: Let_def) blast
  then show ?thesis using v(1) by simp
qed

definition calls_ok :: "'w vm_world \<Rightarrow> ('w, frame_effect) frame_op \<Rightarrow> bool" where
  "calls_ok W m \<longleftrightarrow> (\<forall>f w ctx b args f' w' c. m f w = (Inr (Enter ctx b args), f', w') \<and> vf_ctx c = ctx \<and> vf_bytecode c = b
     \<longrightarrow> called_by W c f')"

named_theorems call_ops "operations whose calls are linked to the calling frame"

lemma calls_ok_rules [call_ops]:
  "calls_ok W (stay m)" "calls_ok W (op_give Stay)" "calls_ok W (op_give (Leave v))" "calls_ok W (op_fail e)"
  "calls_ok W (woo_fail code message v)"
  "(\<And>a. calls_ok W (k a)) \<Longrightarrow> calls_ok W (op_seq m' k)"
  "calls_ok W n \<Longrightarrow> calls_ok W n' \<Longrightarrow> calls_ok W (if p then n else n')"
  by (auto simp: calls_ok_def stay_def op_seq_def op_give_def op_fail_def woo_fail_def split: prod.splits sum.splits)

lemma calls_ok_derived [call_ops]:
  "calls_ok W (callVerb W obj name args startAt)" "calls_ok W (push_ctx g)" "calls_ok W (jump_if p pc v)" "calls_ok W (bind_next s v n)"
  by (auto simp: calls_ok_def push_ctx_def jump_if_def bind_next_def dest: callVerb_Enter)
    (auto simp: stay_def op_seq_def op_give_def split: prod.splits sum.splits)

lemma calls_ok_exec_op: "calls_ok W (exec_op W pc os op)"
  by (cases op; simp only: exec_op.simps exec_defs; intro call_ops)


lemma dispatch_op_calls:
  assumes "dispatch_op W f w = (Inr (Enter ctx b args), f', w')" "vf_ctx c = ctx" "vf_bytecode c = b"
  shows "called_by W c f'"
proof -
  have "exec_op W pc os op g w1 = (Inr (Enter ctx b args), f', w') \<Longrightarrow> called_by W c f'" for pc os op g w1
    using calls_ok_exec_op [of W pc os op] assms(2,3) unfolding calls_ok_def by blast
  then show ?thesis using assms(1) by (auto simp: dispatch_op_def Let_def split: prod.splits if_splits)
qed

text \<open>The four ways a step goes on.\<close>

lemma vm_step_cases:
  assumes run: "vm_step W (f # rest) w = Running fs' w'"
  obtains (stay) f' where "frame_le W f f'" "fs' = f' # rest"
  | (call) f' c where "frame_le W f f'" "fs' = c # f' # rest" "fresh_frame c" "called_by W c f'" "length rest + 1 < MAX_VM_FRAMES"
  | (return) g g' lower where "rest = g # lower" "frame_le W g g'" "vf_ctx g' = vf_ctx g" "fs' = g' # lower"
  | (caught) f' upper g lower g' where "frame_le W f f'" "f' # rest = upper @ g # lower" "fs' = g' # lower"
      "frame_le W g g'" "vf_ctx g' = vf_ctx g"
proof -
  define w1 where "w1 = vw_setTurnRecorderFrame W (vf_ctx f) w"
  obtain r f' w2 where d: "dispatch_op W f w1 = (r, f', w2)" by (cases "dispatch_op W f w1")
  have le: "frame_le W f f'" using dispatch_op_le [OF d] by blast
  have thrown: thesis if h: "handle_thrown W e fs pc w3 = Running fs' w'" and fs: "fs = f' # rest \<or> f' # rest = f' # fs" for e fs pc w3
  proof -
    obtain error where "raise error fs = Some fs'"
      using h by (auto simp: handle_thrown_def Let_def simp del: raise.simps split: if_splits option.splits)
    then obtain u g lower g' where r: "fs = u @ g # lower" "fs' = g' # lower" "frame_le W g g'" "vf_ctx g' = vf_ctx g"
      by (rule raise_resumes)
    have "\<exists>upper. f' # rest = upper @ g # lower" using fs r(1) by (metis append_Cons)
    then show thesis using caught le r by blast
  qed
  have pushed: thesis if "rest = g # lower" "push_value v g = Inr g'" "fs' = g' # lower" for v g g' lower
  proof -
    have "vf_ctx g' = vf_ctx g" using that(2) by (auto simp: push_value_def split: if_splits)
    then show thesis using return that push_value_le [OF that(2)] by blast
  qed
  show thesis
  proof (cases "vf_pc f \<ge> int (length (bc_ops (vf_bytecode f)))")
    case True
    then show thesis using run pushed by (auto simp: Let_def w1_def [symmetric] split: list.splits sum.splits)
  next
    case False
    show thesis
    proof (cases r)
      case (Inl e)
      then show thesis using run False d thrown by (auto simp: Let_def w1_def [symmetric] split: if_splits)
    next
      case (Inr eff)
      note d = d [unfolded Inr]
      show thesis
      proof (cases eff)
        case Stay
        then show thesis using run False d stay [OF le] by (auto simp: Let_def w1_def [symmetric] split: if_splits)
      next
        case (Enter ctx b args)
        obtain r3 w3 where p: "pushFrame W (length (f' # rest)) ctx b args w2 = (r3, w3)" by fastforce
        show thesis
        proof (cases r3)
          case (Inl e)
          then show thesis using run False d Enter p thrown by (auto simp: Let_def w1_def [symmetric] split: if_splits)
        next
          case (Inr c)
          then have m: "makeFrame W ctx b args w2 = (Inr c, w3)" "length rest + 1 < MAX_VM_FRAMES"
            using p by (auto simp: pushFrame_def split: if_splits)
          have "called_by W c f'" using dispatch_op_calls [OF d [unfolded Enter]] makeFrame_fresh [OF m(1)] by blast
          moreover have "fs' = c # f' # rest" using run False d Enter p Inr by (auto simp: Let_def w1_def [symmetric] split: if_splits)
          ultimately show thesis using call [OF le] makeFrame_fresh [OF m(1)] m(2) by blast
        qed
      next
        case (Leave v)
        show thesis
        proof (cases rest)
          case (Cons g lower)
          then show thesis using run False d Leave pushed thrown
            by (auto simp: Let_def w1_def [symmetric] split: if_splits sum.splits)
        qed (use run False d Leave in \<open>auto simp: Let_def w1_def [symmetric] split: if_splits\<close>)
      qed
    qed
  qed
qed


section \<open>Bounds\<close>

lemma frame_le_ok: "frame_le W f f' \<Longrightarrow> frame_ok f \<Longrightarrow> frame_ok f'"
  by (simp add: frame_le_def)

lemma vm_reach_nonempty: "vm_reach W fs \<Longrightarrow> fs \<noteq> []"
proof (induction rule: vm_reach.induct)
  case (reach_step fs w fs' w')
  then obtain f rest where fs: "fs = f # rest" by (cases fs) auto
  from reach_step.hyps(2) [unfolded fs] show ?case by (cases rule: vm_step_cases) auto
qed simp

lemma vm_reach_ok: "vm_reach W fs \<Longrightarrow> length fs \<le> MAX_VM_FRAMES \<and> list_all frame_ok fs"
proof (induction rule: vm_reach.induct)
  case (reach_start ctx b args w f w')
  then show ?case using makeFrame_fresh [OF reach_start] by (simp add: fresh_frame_def MAX_VM_FRAMES_def)
next
  case (reach_step fs w fs' w')
  obtain f rest where fs: "fs = f # rest" using vm_reach_nonempty [OF reach_step.hyps(1)] by (cases fs) auto
  from reach_step.hyps(2) [unfolded fs] show ?case
  proof (cases rule: vm_step_cases)
    case (call f' c)
    then show ?thesis using reach_step.IH fs by (auto simp: fresh_frame_def dest: frame_le_ok)
  next
    case (caught f' upper g lower g')
    have "length (f' # rest) \<le> MAX_VM_FRAMES \<and> list_all frame_ok (f' # rest)"
      using caught(1) reach_step.IH fs by (auto dest: frame_le_ok)
    then show ?thesis using caught(2,3) frame_le_ok [OF caught(4)] by auto
  qed (use reach_step.IH fs in \<open>auto dest: frame_le_ok\<close>)
qed

text \<open>An operation that completes has allocated nothing, or its last allocation was within the limit.\<close>

definition within_memory :: "('w, 'a) frame_op \<Rightarrow> bool" where
  "within_memory m \<longleftrightarrow> (\<forall>f w a f' w'. m f w = (Inr a, f', w') \<longrightarrow> vf_bytecode f' = vf_bytecode f
     \<and> (vf_memoryUsed f' = vf_memoryUsed f \<or> vf_memoryUsed f' \<le> memory_limit (vf_bytecode f)))"

named_theorems memory_ops "operations that allocate within the limit"

lemma memory_basic [memory_ops]:
  "within_memory (op_give a)" "within_memory (op_fail e)" "within_memory (op_check r)" "within_memory (op_read g)"
  "within_memory (woo_fail c m v)" "within_memory (op_world h)"
  by (auto simp: within_memory_def op_give_def op_fail_def op_check_def op_read_def woo_fail_def op_world_def split: prod.splits)

lemma memory_update [memory_ops]:
  "(\<And>f. vf_bytecode (g f) = vf_bytecode f \<and> vf_memoryUsed (g f) = vf_memoryUsed f) \<Longrightarrow> within_memory (op_update g)"
  by (auto simp: within_memory_def op_update_def)

lemma memory_seq [memory_ops]:
  assumes "within_memory m" "\<And>a. within_memory (k a)"
  shows "within_memory (op_seq m k)"
  unfolding within_memory_def
proof (intro allI impI)
  fix f w b f2 w2 assume run: "op_seq m k f w = (Inr b, f2, w2)"
  then obtain a f1 w1 where "m f w = (Inr a, f1, w1)" "k a f1 w1 = (Inr b, f2, w2)"
    by (auto simp: op_seq_def split: prod.splits sum.splits)
  then show "vf_bytecode f2 = vf_bytecode f \<and> (vf_memoryUsed f2 = vf_memoryUsed f \<or> vf_memoryUsed f2 \<le> memory_limit (vf_bytecode f))"
    using assms unfolding within_memory_def by metis
qed

lemma memory_cases [memory_ops]:
  "within_memory m \<Longrightarrow> within_memory m' \<Longrightarrow> within_memory (if b then m else m')"
  "(\<And>x. within_memory (k' x)) \<Longrightarrow> within_memory (Let a' k')"
  "within_memory m \<Longrightarrow> (\<And>x. within_memory (k x)) \<Longrightarrow> within_memory (case r of None \<Rightarrow> m | Some x \<Rightarrow> k x)"
  "(\<And>a b. within_memory (h a b)) \<Longrightarrow> within_memory (case p of (a, b) \<Rightarrow> h a b)"
  by (simp_all split: option.split prod.split)

lemma memory_value [memory_ops]:
  "within_memory a \<Longrightarrow> within_memory b \<Longrightarrow> (\<And>x. within_memory (c x)) \<Longrightarrow> (\<And>x. within_memory (d x)) \<Longrightarrow> (\<And>x. within_memory (e x)) \<Longrightarrow>
   (\<And>x. within_memory (g x)) \<Longrightarrow> (\<And>x. within_memory (h x)) \<Longrightarrow>
   within_memory (case v of WUndef \<Rightarrow> a | WNull \<Rightarrow> b | WBool x \<Rightarrow> c x | WNum x \<Rightarrow> d x | WStr x \<Rightarrow> e x | WList x \<Rightarrow> g x | WMap x \<Rightarrow> h x)"
  by (cases v) simp_all

lemma memory_number [memory_ops]:
  "(\<And>x. within_memory (a x)) \<Longrightarrow> (\<And>x. within_memory (b x)) \<Longrightarrow> within_memory c \<Longrightarrow>
   within_memory (case n of Finite x \<Rightarrow> a x | Infinite x \<Rightarrow> b x | Not_a_number \<Rightarrow> c)"
  by (cases n) simp_all

lemma memory_each [memory_ops]: "(\<And>x. within_memory (m x)) \<Longrightarrow> within_memory (op_each m xs)"
  by (induction xs) (auto intro!: memory_ops)

lemma memory_primitives [memory_ops]:
  "within_memory pop" "within_memory peek" "within_memory (push v)" "within_memory (allocate v)" "within_memory (chargeTicks n)"
  by (auto simp: within_memory_def pop_def peek_def push_def push_value_def allocate_def chargeTicks_def Let_def
      split: list.splits if_splits sum.splits)

lemma memory_pops [memory_ops]:
  "within_memory (pop_many n vs)" "within_memory (pop_strings n parts)" "within_memory (pop_entries n es)"
  by (induction n arbitrary: vs parts es) (auto intro!: memory_ops)

lemma memory_derived [memory_ops]:
  "within_memory (popArgs i)" "within_memory (set_local j v)" "within_memory (set_top v)" "within_memory below_top"
  "within_memory (jump pc v)" "within_memory (literal v)" "within_memory (localIndex v)" "within_memory (world_method W n args)"
  "within_memory (read_ctx r)" "within_memory (arity_fail message)"
  unfolding popArgs_def set_local_def set_top_def below_top_def jump_def literal_def localIndex_def world_method_def read_ctx_def
    arity_fail_def
  by (intro memory_ops; simp)+

lemma memory_builtins:
  "within_memory (builtin_schedule W rel args)" "within_memory (builtin_create W args)" "within_memory (builtin_has_flag W args)"
  "within_memory (builtin_idle_seconds W args)" "within_memory (builtin_ordered_children W args)" "within_memory (builtin_ordered_neighbors W args)"
  "within_memory (builtin_with_clock W m l n args)" "within_memory (builtin_directory_reconcile W args)" "within_memory (builtin_random W args)"
  "within_memory (builtin_location W args)" "within_memory (builtin_all_locations W args)" "within_memory (builtin_primary_session W args)"
  "within_memory (builtin_set_presence W args)" "within_memory (builtin_observe_to_space W args)" "within_memory (builtin_dispatch W args)"
  "within_memory (builtin_collect_prop W args)" "within_memory (builtin_object_tree_rows W args)" "within_memory (world_dispatch W obj nm args a b)"
  "within_memory (builtin_set_task_perms W args)"
  unfolding builtin_defs builtin_set_task_perms_def by (intro memory_ops; simp)+

lemma memory_frame_builtin: "frame_builtin W name args = Some m \<Longrightarrow> within_memory m"
  unfolding frame_builtin_def by (auto split: if_split_asm intro!: memory_ops memory_builtins)

lemma memory_frame_case: "within_memory k \<Longrightarrow> within_memory (case frame_builtin W name args of Some m \<Rightarrow> m | None \<Rightarrow> k)"
  by (auto split: option.split dest: memory_frame_builtin)

lemma memory_callBuiltin [memory_ops]: "within_memory (callBuiltin W n args)" "within_memory (tryFastBuiltin W n args)"
  unfolding callBuiltin_def tryFastBuiltin_def forward_builtin_def
  by (intro memory_frame_case memory_ops; simp)+

lemma memory_operators [memory_ops]:
  "within_memory binaryArithmetic" "within_memory (numericBinary fn)" "within_memory multiply" "within_memory (compare num str)"
  "within_memory membership" "within_memory (list_get xs i)" "within_memory (list_set xs i v)" "within_memory (map_get m k)"
  unfolding binaryArithmetic_def numericBinary_def multiply_def compare_def membership_def list_get_def list_set_def map_get_def
    operands_error_def index_error_def repeated_def
  by (intro memory_ops)+

lemma memory_typed [memory_ops]:
  "within_memory pop_string" "within_memory pop_obj" "within_memory pop_map" "within_memory pop_list" "within_memory (pop_number l)"
  "within_memory (push_ctx g)" "within_memory (bind_next slot v n)" "within_memory (prop_method W nm)" "within_memory (handler_errors i)"
  unfolding pop_string_def pop_obj_def pop_map_def pop_list_def pop_number_def push_ctx_def stay_def bind_next_def prop_method_def
    handler_errors_def
  by (intro memory_ops)+

lemma memory_calls [memory_ops]:
  "within_memory m \<Longrightarrow> within_memory (stay m)" "within_memory (jump_if b pc v)" "within_memory (callVerb W obj nm args st)"
  unfolding stay_def jump_if_def callVerb_def by (intro memory_ops memory_builtins; assumption?)+

lemma memory_handlers [memory_ops]:
  "within_memory (op_update (\<lambda>f. f\<lparr>vf_handlers := \<lparr>vh_targetPc = t, vh_errors = es, vh_stackDepth = length (vf_stack f)\<rparr> # vf_handlers f\<rparr>))"
  "within_memory (op_update (\<lambda>f. f\<lparr>vf_handlers := tl (vf_handlers f)\<rparr>))"
  by (rule memory_update, simp)+

lemma memory_exec_op: "within_memory (exec_op W pc os op)"
  by (cases op; simp only: exec_op.simps exec_defs; (intro memory_ops)?)

lemma dispatch_memory:
  assumes "dispatch_op W f w = (Inr eff, f', w')"
  shows "vf_memoryUsed f' = vf_memoryUsed f \<or> vf_memoryUsed f' \<le> memory_limit (vf_bytecode f)"
proof -
  have "exec_op W pc os op g w1 = (Inr eff, f', w') \<Longrightarrow>
      vf_memoryUsed f' = vf_memoryUsed g \<or> vf_memoryUsed f' \<le> memory_limit (vf_bytecode g)" for pc os op g w1
    using memory_exec_op [of W pc os op] unfolding within_memory_def by blast
  then show ?thesis using assms by (fastforce simp: dispatch_op_def Let_def split: prod.splits if_splits)
qed

text \<open>
  C20: the interpreter stays in its bounds. Whatever the bytecode, the arguments and the world, every frame
  stack a run reaches has at most 128 frames, and in every frame the operand stack and the stack depth of
  every handler are within the declared maximum, which is at most 4096; the locals are the declared ones, at
  most 1024; the ticks left never exceed the frame's budget; and the memory counter is never negative. An
  opcode that completes has left the memory counter as it was or at most the declared limit, so nothing is
  allocated beyond the limit without \<open>E_MEM\<close>; the counter itself stands above the limit after such an error.
\<close>

theorem vm_bounds:
  assumes "vm_reach W fs" "f \<in> set fs"
  shows "length fs \<le> 128 \<and> int (length (vf_stack f)) \<le> bc_max_stack (vf_bytecode f) \<and> bc_max_stack (vf_bytecode f) \<le> 4096
    \<and> list_all (\<lambda>h. int (vh_stackDepth h) \<le> bc_max_stack (vf_bytecode f)) (vf_handlers f)
    \<and> int (length (vf_locals f)) = bc_num_locals (vf_bytecode f) \<and> bc_num_locals (vf_bytecode f) \<le> 1024
    \<and> vf_ticksRemaining f \<le> tick_limit (vf_bytecode f) \<and> 0 \<le> vf_memoryUsed f
    \<and> (\<forall>w eff f' w'. dispatch_op W f w = (Inr eff, f', w') \<longrightarrow>
          vf_memoryUsed f' = vf_memoryUsed f \<or> vf_memoryUsed f' \<le> memory_limit (vf_bytecode f))"
proof -
  have "length fs \<le> MAX_VM_FRAMES" "frame_ok f" using vm_reach_ok [OF assms(1)] assms(2) by (auto simp: list_all_iff)
  then show ?thesis using dispatch_memory [of W f]
    by (auto simp: frame_ok_def MAX_VM_FRAMES_def validateRuntimeBytecode_def MAX_RUNTIME_STACK_def MAX_RUNTIME_LOCALS_def list_all_iff
        split: if_splits)
qed

section \<open>Authority\<close>

lemma frame_le_ctx:
  assumes "frame_le W f f'"
  shows "cx_thisObj (vf_ctx f') = cx_thisObj (vf_ctx f)" "cx_actor (vf_ctx f') = cx_actor (vf_ctx f)"
    "cx_verbName (vf_ctx f') = cx_verbName (vf_ctx f)" "cx_definer (vf_ctx f') = cx_definer (vf_ctx f)"
    "cx_caller (vf_ctx f') = cx_caller (vf_ctx f)" "cx_callerPerms (vf_ctx f') = cx_callerPerms (vf_ctx f)"
    "cx_session (vf_ctx f') = cx_session (vf_ctx f)" "cx_space (vf_ctx f') = cx_space (vf_ctx f)"
    "cx_seq (vf_ctx f') = cx_seq (vf_ctx f)" "cx_message (vf_ctx f') = cx_message (vf_ctx f)"
    "cx_player (vf_ctx f') = cx_player (vf_ctx f)" "vf_bytecode f' = vf_bytecode f"
    "granted W (cx_progr (vf_ctx f)) (cx_progr (vf_ctx f'))"
proof -
  have e: "(vf_ctx f')\<lparr>cx_progr := []\<rparr> = (vf_ctx f)\<lparr>cx_progr := []\<rparr>" using assms by (simp add: frame_le_def)
  show "cx_thisObj (vf_ctx f') = cx_thisObj (vf_ctx f)" "cx_actor (vf_ctx f') = cx_actor (vf_ctx f)"
    "cx_verbName (vf_ctx f') = cx_verbName (vf_ctx f)" "cx_definer (vf_ctx f') = cx_definer (vf_ctx f)"
    "cx_caller (vf_ctx f') = cx_caller (vf_ctx f)" "cx_callerPerms (vf_ctx f') = cx_callerPerms (vf_ctx f)"
    "cx_session (vf_ctx f') = cx_session (vf_ctx f)" "cx_space (vf_ctx f') = cx_space (vf_ctx f)"
    "cx_seq (vf_ctx f') = cx_seq (vf_ctx f)" "cx_message (vf_ctx f') = cx_message (vf_ctx f)"
    "cx_player (vf_ctx f') = cx_player (vf_ctx f)"
    using arg_cong [OF e, of cx_thisObj] arg_cong [OF e, of cx_actor] arg_cong [OF e, of cx_verbName] arg_cong [OF e, of cx_definer]
      arg_cong [OF e, of cx_caller] arg_cong [OF e, of cx_callerPerms] arg_cong [OF e, of cx_session] arg_cong [OF e, of cx_space]
      arg_cong [OF e, of cx_seq] arg_cong [OF e, of cx_message] arg_cong [OF e, of cx_player] by simp_all
  show "vf_bytecode f' = vf_bytecode f" "granted W (cx_progr (vf_ctx f)) (cx_progr (vf_ctx f'))"
    using assms by (simp_all add: frame_le_def)
qed

text \<open>A callee may change, its suspended caller keeps its context.\<close>

lemma called_by_mono:
  assumes "called_by W c g" "frame_le W c c'" "vf_ctx g' = vf_ctx g"
  shows "called_by W c' g'"
  using assms(1) granted_trans [OF _ frame_le_ctx(13) [OF assms(2)]]
  unfolding called_by_def assms(3) frame_le_ctx(1-12) [OF assms(2)] Let_def by blast

lemma vm_reach_linked: "vm_reach W fs \<Longrightarrow> successively (called_by W) fs"
proof (induction rule: vm_reach.induct)
  case (reach_step fs w fs' w')
  obtain f rest where fs: "fs = f # rest" using vm_reach_nonempty [OF reach_step.hyps(1)] by (cases fs) auto
  have top: "successively (called_by W) (f' # rest)" if "frame_le W f f'" for f'
    using reach_step.IH fs called_by_mono [OF _ that refl] by (cases rest) auto
  from reach_step.hyps(2) [unfolded fs] show ?case
  proof (cases rule: vm_step_cases)
    case (return g g' lower)
    then have "successively (called_by W) (g # lower)" using reach_step.IH fs by (cases lower) auto
    then show ?thesis using return called_by_mono [OF _ return(2) refl] by (cases lower) auto
  next
    case (caught f' upper g lower g')
    have "successively (called_by W) (g # lower)" using top [OF caught(1)] unfolding caught(2) by (simp add: successively_append_iff)
    then show ?thesis using caught called_by_mono [OF _ caught(4) refl] by (cases lower) auto
  qed (use top in auto)
qed simp


text \<open>
  C16: every frame acts under authority it was given. In every reachable frame stack, of two adjacent frames the
  upper one was entered by a verb call of the lower: the verb was resolved by the world on the receiver and
  checked executable for the authority the caller still holds, which is the callee's \<open>caller_perms\<close>; the
  frame runs that verb's code under its owner's authority, unless a wizard authority set another one; its
  \<open>caller\<close> is the receiver of the frame below; and actor, player, session, space and message are those of
  the task.
\<close>

theorem vm_frames_linked:
  assumes "vm_reach W (upper @ c # g # lower)"
  shows "cx_caller (vf_ctx c) = cx_thisObj (vf_ctx g) \<and> cx_callerPerms (vf_ctx c) = cx_progr (vf_ctx g)
    \<and> cx_actor (vf_ctx c) = cx_actor (vf_ctx g) \<and> cx_session (vf_ctx c) = cx_session (vf_ctx g)
    \<and> cx_space (vf_ctx c) = cx_space (vf_ctx g) \<and> cx_message (vf_ctx c) = cx_message (vf_ctx g)
    \<and> cx_player (vf_ctx c) = Some (case cx_player (vf_ctx g) of Some p \<Rightarrow> p | None \<Rightarrow> cx_actor (vf_ctx g))
    \<and> (\<exists>startAt verb dependencies w w' w1 w2.
         vw_resolveVerb W startAt (cx_thisObj (vf_ctx c)) (cx_verbName (vf_ctx c)) w = (Inr (cx_definer (vf_ctx c), verb, dependencies), w')
         \<and> vw_assertCanExecuteVerb W (cx_progr (vf_ctx g)) (cx_thisObj (vf_ctx c)) (cx_verbName (vf_ctx c)) verb w1 = (Inr (), w2)
         \<and> vf_bytecode c = vd_bytecode verb \<and> (cx_progr (vf_ctx c) = vd_owner verb \<or> wizard_in W (vd_owner verb)))"
proof -
  have c: "called_by W c g" using vm_reach_linked [OF assms] by (simp add: successively_append_iff)
  have g: "granted W p q \<Longrightarrow> q = p \<or> wizard_in W p" for p q unfolding granted_def by (metis converse_rtranclpE)
  show ?thesis using c g unfolding called_by_def Let_def by (metis (no_types, lifting))
qed

section \<open>Handlers\<close>

definition takes :: "error_value \<Rightarrow> vm_handler \<Rightarrow> bool" where
  "takes error h \<longleftrightarrow> vh_errors h = [] \<or> error_code error \<in> set (vh_errors h)"

lemma find_handler_None: "find_handler (error_code error) hs = None \<longleftrightarrow> \<not> list_ex (takes error) hs"
  by (induction hs) (auto simp: takes_def)

lemma find_handler_Some:
  "find_handler (error_code error) hs = Some (h, hs') \<longleftrightarrow>
     (\<exists>skipped. hs = skipped @ h # hs' \<and> \<not> list_ex (takes error) skipped \<and> takes error h)"
proof (induction hs)
  case (Cons a hs)
  show ?case
  proof (cases "takes error a")
    case True
    then show ?thesis by (auto simp: takes_def Cons_eq_append_conv)
  next
    case False
    then have "find_handler (error_code error) (a # hs) = find_handler (error_code error) hs" by (auto simp: takes_def)
    then show ?thesis using False Cons.IH by (auto simp: Cons_eq_append_conv)
  qed
qed simp

lemma raise_split:
  "\<not> list_ex (\<lambda>g. list_ex (takes error) (vf_handlers g)) upper \<Longrightarrow> raise error (upper @ fs) = raise error fs"
  by (induction upper) (auto simp: find_handler_None [symmetric])

lemma raise_unhandled: "\<not> list_ex (\<lambda>g. list_ex (takes error) (vf_handlers g)) fs \<Longrightarrow> raise error fs = None"
  using raise_split [of error fs "[]"] by simp

lemma map_of_own_key_order: "\<not> is_array_index k \<Longrightarrow> map_of (own_key_order kvs) k = map_of kvs k"
proof -
  assume k: "\<not> is_array_index k"
  have "map_of (filter (\<lambda>(k, v). \<not> is_array_index k) kvs) k = map_of kvs k"
    using k by (induction kvs) auto
  moreover have "map_of (sort_key (\<lambda>(k, v). digits_value k 0) (filter (\<lambda>(k, v). is_array_index k) kvs)) k = None"
    using k by (auto simp: map_of_eq_None_iff)
  ultimately show ?thesis by (simp add: own_key_order_def map_add_def)
qed

lemma not_index_code: "\<not> is_array_index ''code''"
  by (simp add: is_array_index_def)

lemma error_code_trace [simp]: "error_code (attachVmTrace W w error fs pc) = error_code error"
  using not_index_code by (simp add: attachVmTrace_def error_code_def map_put_def map_of_own_key_order)

text \<open>
  C17: an error goes where it must. When an opcode throws, a command plan transfer and the four signals that
  ask for missing state escape the interpreter, whatever handlers are installed; any other error resumes the
  innermost frame that has a handler for its code, at the innermost such handler, with the frames above
  dropped, the operand stack at the depth recorded when the handler was installed and the error value on
  top; and without such a handler it escapes.
\<close>

theorem vm_error_delivery:
  assumes pc: "0 \<le> vf_pc f" "vf_pc f < int (length (bc_ops (vf_bytecode f)))"
    and thrown: "dispatch_op W f (vw_setTurnRecorderFrame W (vf_ctx f) w) = (Inl e, f', w')"
  shows "(e = Plan_transfer \<longrightarrow> vm_step W (f # rest) w = Escaped Plan_transfer w')
    \<and> (e \<noteq> Plan_transfer \<longrightarrow> (\<exists>error. error_code error = error_code (normalizeVmError e)
       \<and> (error_code error \<in> {''E_NEED_STATE'', ''E_NEED_ORDERED_CHILDREN'', ''E_NEED_ORDERED_NEIGHBORS'', ''E_NEED_REPLAY_PAGE''} \<longrightarrow>
            vm_step W (f # rest) w = Escaped (Woo_thrown error) w')
       \<and> (error_code error \<notin> {''E_NEED_STATE'', ''E_NEED_ORDERED_CHILDREN'', ''E_NEED_ORDERED_NEIGHBORS'', ''E_NEED_REPLAY_PAGE''} \<longrightarrow>
           (\<forall>upper g lower skipped h hs. f' # rest = upper @ g # lower \<and> \<not> list_ex (\<lambda>f. list_ex (takes error) (vf_handlers f)) upper
              \<and> vf_handlers g = skipped @ h # hs \<and> \<not> list_ex (takes error) skipped \<and> takes error h
              \<and> int (vh_stackDepth h) < bc_max_stack (vf_bytecode g) \<longrightarrow>
              vm_step W (f # rest) w = Running (g\<lparr>vf_handlers := hs,
                vf_stack := WMap error # set_length (vh_stackDepth h) (vf_stack g), vf_pc := vh_targetPc h\<rparr> # lower) w')
         \<and> (\<not> list_ex (\<lambda>f. list_ex (takes error) (vf_handlers f)) (f' # rest) \<longrightarrow>
              vm_step W (f # rest) w = Escaped (Woo_thrown error) w'))))"
proof -
  define error where "error = attachVmTrace W w' (normalizeVmError e) (f' # rest) (vf_pc f)"
  have step: "vm_step W (f # rest) w = handle_thrown W e (f' # rest) (vf_pc f) w'" using pc thrown by (simp add: Let_def)
  have ctl: "set CONTROL_SIGNALS = {''E_NEED_STATE'', ''E_NEED_ORDERED_CHILDREN'', ''E_NEED_ORDERED_NEIGHBORS'', ''E_NEED_REPLAY_PAGE''}"
    by (simp add: CONTROL_SIGNALS_def)
  have h: "handle_thrown W e (f' # rest) (vf_pc f) w' = (if error_code error \<in> set CONTROL_SIGNALS then Escaped (Woo_thrown error) w'
      else case raise error (f' # rest) of None \<Rightarrow> Escaped (Woo_thrown error) w' | Some frames' \<Rightarrow> Running frames' w')"
    if "e \<noteq> Plan_transfer" unfolding handle_thrown_def error_def Let_def using that by (simp only: if_False)
  have caught: "raise error (f' # rest) = Some (g\<lparr>vf_handlers := hs, vf_stack := WMap error # set_length (vh_stackDepth h) (vf_stack g),
        vf_pc := vh_targetPc h\<rparr> # lower)"
    if "f' # rest = upper @ g # lower" "\<not> list_ex (\<lambda>f. list_ex (takes error) (vf_handlers f)) upper" "vf_handlers g = skipped @ h # hs"
      "\<not> list_ex (takes error) skipped" "takes error h" "int (vh_stackDepth h) < bc_max_stack (vf_bytecode g)"
    for upper g lower skipped h hs
  proof -
    have "find_handler (error_code error) (vf_handlers g) = Some (h, hs)" using that(3-5) find_handler_Some by blast
    then show ?thesis unfolding that(1) raise_split [OF that(2)] using that(6) by (simp add: Let_def)
  qed
  have "error_code error = error_code (normalizeVmError e)" by (simp add: error_def)
  then show ?thesis unfolding step ctl [symmetric] using h caught raise_unhandled [of error "f' # rest"]
    by (intro conjI impI exI [of _ error]) (auto simp: handle_thrown_def simp del: raise.simps)
qed

section \<open>Termination\<close>

fun vm_iter :: "'w vm_world \<Rightarrow> nat \<Rightarrow> vm_frame list \<Rightarrow> 'w \<Rightarrow> 'w vm_outcome" where
  "vm_iter W 0 fs w = Running fs w"
| "vm_iter W (Suc n) fs w = (case vm_step W fs w of Running fs' w' \<Rightarrow> vm_iter W n fs' w' | out \<Rightarrow> out)"

definition outcome_of :: "(thrown + woo_value) \<times> 'w \<Rightarrow> 'w vm_outcome" where
  "outcome_of r = (case r of (Inr v, w) \<Rightarrow> Returned v w | (Inl e, w) \<Rightarrow> Escaped e w)"

lemma vm_iter_run: "\<exists>n. vm_iter W n fs w = outcome_of (vm_run W fs w)"
proof (induction W fs w rule: vm_run.induct)
  case (1 W fs w)
  show ?case
  proof (cases "vm_step W fs w")
    case (Running fs' w')
    then obtain n where "vm_iter W n fs' w' = outcome_of (vm_run W fs' w')" using 1 by blast
    then have "vm_iter W (Suc n) fs w = outcome_of (vm_run W fs w)" using Running by (simp add: vm_run.simps [of W fs w])
    then show ?thesis by blast
  next
    case (Returned v w')
    then have "vm_iter W 1 fs w = outcome_of (vm_run W fs w)" by (simp add: vm_run.simps [of W fs w] outcome_of_def)
    then show ?thesis by blast
  next
    case (Escaped e w')
    then have "vm_iter W 1 fs w = outcome_of (vm_run W fs w)" by (simp add: vm_run.simps [of W fs w] outcome_of_def)
    then show ?thesis by blast
  qed
qed

text \<open>
  C19: every run ends. From any frame stack, against any world and whatever code the verbs it calls hold, the
  loop of the interpreter leaves after finitely many steps, with a value or an escaping error, and no
  sequence of steps is infinite: the ticks of a frame strictly decrease with every opcode, a spent frame can
  only be resumed by a handler it loses, and calls nest at most 128 deep.
\<close>

theorem vm_terminates:
  "(\<exists>n. vm_iter W n fs w = outcome_of (vm_run W fs w)) \<and> (\<nexists>st. \<forall>i. \<exists>w w'. vm_step W (st i) w = Running (st (Suc i)) w')"
proof
  show "\<nexists>st. \<forall>i. \<exists>w w'. vm_step W (st i) w = Running (st (Suc i)) w'"
  proof
    assume "\<exists>st. \<forall>i. \<exists>w w'. vm_step W (st i) w = Running (st (Suc i)) w'"
    then obtain st where "(st (Suc i), st i) \<in> vm_order" for i using vm_step_decreases by metis
    then show False using wf_vm_order by (meson wf_iff_no_infinite_down_chain)
  qed
qed (rule vm_iter_run)

section \<open>Budgets\<close>

text \<open>
  Budgets belong to a frame, not to the task. A callee that has spent its ticks raises \<open>E_TICKS\<close> into its
  caller, and a handler there resumes the caller with its own ticks and memory as they were before the
  call; the caller may then call again, and the new frame starts with a full budget.
\<close>

lemma spent_callee_resumes_caller:
  assumes op: "0 \<le> vf_pc f" "vf_pc f < int (length (bc_ops (vf_bytecode f)))" "bc_ops (vf_bytecode f) ! nat (vf_pc f) = (name, operands)"
    and spent: "vf_ticksRemaining f < tickWeight (decode_op name)" "find_handler ''E_TICKS'' (vf_handlers f) = None"
    and caller: "find_handler ''E_TICKS'' (vf_handlers g) = Some (h, hs)" "int (vh_stackDepth h) < bc_max_stack (vf_bytecode g)"
  shows "\<exists>error w'. error_code error = ''E_TICKS'' \<and> vm_step W (f # g # rest) w = Running (g\<lparr>vf_handlers := hs,
      vf_stack := WMap error # set_length (vh_stackDepth h) (vf_stack g), vf_pc := vh_targetPc h\<rparr> # rest) w'"
proof -
  let ?w = "vw_setTurnRecorderFrame W (vf_ctx f) w"
  let ?e = "wooError ''E_TICKS'' (WStr ''VM tick budget exceeded'') WUndef"
  define f' where "f' = f\<lparr>vf_pc := vf_pc f + 1, vf_ticksRemaining := vf_ticksRemaining f - tickWeight (decode_op name)\<rparr>"
  have d: "dispatch_op W f ?w = (Inl (Woo_thrown ?e), f', ?w)" using op spent by (simp add: dispatch_op_def f'_def Let_def)
  define error where "error = attachVmTrace W ?w ?e (f' # g # rest) (vf_pc f)"
  have n: "normalizeVmError (Woo_thrown ?e) = ?e" by (simp add: has_code_def wooError_def)
  have code: "error_code error = ''E_TICKS''" by (simp add: error_def) (simp add: error_code_def wooError_def)
  have "raise error (f' # g # rest) = Some (g\<lparr>vf_handlers := hs, vf_stack := WMap error # set_length (vh_stackDepth h) (vf_stack g),
      vf_pc := vh_targetPc h\<rparr> # rest)"
    using spent(2) caller code by (simp add: f'_def Let_def)
  then have "handle_thrown W (Woo_thrown ?e) (f' # g # rest) (vf_pc f) ?w = Running (g\<lparr>vf_handlers := hs,
      vf_stack := WMap error # set_length (vh_stackDepth h) (vf_stack g), vf_pc := vh_targetPc h\<rparr> # rest) ?w"
    unfolding handle_thrown_def n error_def [symmetric] Let_def using code by (simp add: CONTROL_SIGNALS_def del: raise.simps)
  then have "vm_step W (f # g # rest) w = Running (g\<lparr>vf_handlers := hs,
      vf_stack := WMap error # set_length (vh_stackDepth h) (vf_stack g), vf_pc := vh_targetPc h\<rparr> # rest) ?w"
    using op(1,2) d by (simp add: Let_def del: raise.simps)
  then show ?thesis using code by blast
qed

section \<open>A small world\<close>

text \<open>A world without objects but with verbs, on which the properties are evaluated.\<close>

definition still_world :: "(string \<times> verb_def) list \<Rightarrow> unit vm_world" where
  "still_world verbs = \<lparr>vw_now = \<lambda>w. (0, w), vw_setTurnRecorderFrame = \<lambda>ctx w. w,
     vw_object = \<lambda>i w. (Inr \<lparr>ob_parent = None, ob_flags = []\<rparr>, w), vw_isRemoteObject = \<lambda>i w. (Inr False, w),
     vw_resolveVerb = \<lambda>startAt i name w. (case map_of verbs name of
        Some verb \<Rightarrow> (Inr (i, verb, WNull), w)
      | None \<Rightarrow> (Inl (woo_throw ''E_VERBNF'' ''verb not found'' WUndef), w)),
     vw_assertCanExecuteVerb = \<lambda>progr i name verb w. (Inr (), w),
     vw_recordTurnDispatch = \<lambda>i name startAt definer verb deps w. (Inr (), w), vw_observe = \<lambda>ctx event w. (Inr (), w),
     vw_method = \<lambda>name ctx args w. (Inr WNull, w), vw_ownVerb = \<lambda>i name w. None,
     js_Number = \<lambda>s. Not_a_number, js_fromCodePoint = \<lambda>n. []\<rparr>"

definition demo_code :: "tiny_op list \<Rightarrow> woo_value list \<Rightarrow> int \<Rightarrow> tiny_bytecode" where
  "demo_code ops literals ticks = \<lparr>bc_ops = ops, bc_literals = literals, bc_num_locals = 1, bc_max_stack = 8,
     bc_max_ticks = Some ticks, bc_max_memory = None, bc_max_wall_ms = None, bc_version = 1\<rparr>"

definition demo_context :: call_context where
  "demo_context = \<lparr>cx_space = ''#hall'', cx_seq = 1, cx_session = None, cx_actor = ''#ann'', cx_player = None, cx_caller = ''#-1'',
     cx_callerPerms = ''#ann'', cx_progr = ''#owner'', cx_thisObj = ''#door'', cx_verbName = ''open'', cx_definer = ''#door'',
     cx_message = WNull\<rparr>"

definition spin_verb :: verb_def where
  "spin_verb = \<lparr>vd_native = False, vd_owner = ''#smith'', vd_bytecode = demo_code [(''JUMP'', [WInt (- 1)])] [] 3,
     vd_version = 1, vd_line_map = []\<rparr>"

text \<open>A caller that catches whatever its call raises and then returns the error code it saw.\<close>

definition guarded_call :: tiny_bytecode where
  "guarded_call = demo_code [(''TRY_PUSH'', [WInt 5]), (''PUSH_LIT'', [WInt 0]), (''PUSH_LIT'', [WInt 1]), (''CALL_VERB'', [WInt 0]),
     (''TRY_POP'', []), (''RETURN'', []), (''PUSH_LIT'', [WInt 2]), (''MAP_GET'', []), (''RETURN'', [])]
     [WStr ''#lock'', WStr ''spin'', WStr ''code''] 40"

definition demo_vm :: "unit vm_world" where
  "demo_vm = still_world [(''spin'', spin_verb)]"

definition demo_entry :: vm_frame where
  "demo_entry = (case fst (makeFrame demo_vm demo_context guarded_call [] ()) of Inr f \<Rightarrow> f)"

definition demo_stack :: "nat \<Rightarrow> vm_frame list" where
  "demo_stack n = (case vm_iter demo_vm n [demo_entry] () of Running fs _ \<Rightarrow> fs | _ \<Rightarrow> [])"

lemma vm_reach_iter: "vm_reach W fs \<Longrightarrow> vm_iter W n fs w = Running fs' w' \<Longrightarrow> vm_reach W fs'"
  by (induction n arbitrary: fs w) (auto split: vm_outcome.splits intro: reach_step)

lemma demo_reach: "demo_stack n \<noteq> [] \<Longrightarrow> vm_reach demo_vm (demo_stack n)"
proof -
  have "makeFrame demo_vm demo_context guarded_call [] () = (Inr demo_entry, ())"
    by (simp add: demo_entry_def makeFrame_def guarded_call_def demo_code_def validateRuntimeBytecode_def demo_vm_def still_world_def
        MAX_RUNTIME_LOCALS_def MAX_RUNTIME_STACK_def)
  then have "vm_reach demo_vm [demo_entry]" by (rule reach_start)
  then show "demo_stack n \<noteq> [] \<Longrightarrow> vm_reach demo_vm (demo_stack n)"
    by (auto simp: demo_stack_def split: vm_outcome.splits intro: vm_reach_iter)
qed

lemma demo_stack_4: "demo_stack 4 = [demo_stack 4 ! 0, demo_stack 4 ! 1]" "demo_stack 4 \<noteq> []"
  by code_simp+

lemma demo_stack_7: "demo_stack 7 = [demo_stack 7 ! 0, demo_stack 7 ! 1]"
  by code_simp

lemma demo_callee: "vf_pc (demo_stack 7 ! 0) = 0" "bc_ops (vf_bytecode (demo_stack 7 ! 0)) = [(''JUMP'', [WInt (- 1)])]"
    "vf_ticksRemaining (demo_stack 7 ! 0) = 0" "vf_handlers (demo_stack 7 ! 0) = []"
  by code_simp+

lemma demo_caller: "vf_handlers (demo_stack 7 ! 1) = [\<lparr>vh_targetPc = 6, vh_errors = [], vh_stackDepth = 0\<rparr>]"
    "bc_max_stack (vf_bytecode (demo_stack 7 ! 1)) = 8" "vf_ticksRemaining (demo_stack 7 ! 1) = 27"
  by code_simp+

lemma demo_weight: "tickWeight (decode_op ''JUMP'') = 1"
  by code_simp

theorem vm_bounds_witness: "vm_reach demo_vm (demo_stack 4) \<and> length (demo_stack 4) \<le> 128
    \<and> int (length (vf_stack (demo_stack 4 ! 0))) \<le> bc_max_stack (vf_bytecode (demo_stack 4 ! 0))"
proof -
  have "demo_stack 4 ! 0 \<in> set (demo_stack 4)" using demo_stack_4(2) by simp
  then show ?thesis using vm_bounds [OF demo_reach [OF demo_stack_4(2)]] demo_reach [OF demo_stack_4(2)] by blast
qed

theorem vm_frames_linked_witness:
  "cx_caller (vf_ctx (demo_stack 4 ! 0)) = ''#door'' \<and> cx_callerPerms (vf_ctx (demo_stack 4 ! 0)) = ''#owner''
   \<and> cx_progr (vf_ctx (demo_stack 4 ! 0)) = ''#smith''"
proof -
  have "vm_reach demo_vm ([] @ demo_stack 4 ! 0 # demo_stack 4 ! 1 # [])" using demo_reach [OF demo_stack_4(2)] demo_stack_4(1) by simp
  note linked = vm_frames_linked [OF this]
  have "cx_thisObj (vf_ctx (demo_stack 4 ! 1)) = ''#door''" "cx_progr (vf_ctx (demo_stack 4 ! 1)) = ''#owner''"
    "cx_progr (vf_ctx (demo_stack 4 ! 0)) = ''#smith''"
    by code_simp+
  then show ?thesis using linked by simp
qed

theorem vm_error_delivery_witness:
  "\<exists>error. error_code error = ''E_TICKS'' \<and> vm_step demo_vm (demo_stack 7) () = Running [(demo_stack 7 ! 1)\<lparr>vf_handlers := [],
     vf_stack := WMap error # set_length 0 (vf_stack (demo_stack 7 ! 1)), vf_pc := 6\<rparr>] ()"
proof -
  let ?f = "demo_stack 7 ! 0" and ?g = "demo_stack 7 ! 1"
  let ?e = "woo_throw ''E_TICKS'' ''VM tick budget exceeded'' WUndef"
  define f' where "f' = ?f\<lparr>vf_pc := 1, vf_ticksRemaining := - 1\<rparr>"
  have d: "dispatch_op demo_vm ?f (vw_setTurnRecorderFrame demo_vm (vf_ctx ?f) ()) = (Inl ?e, f', ())"
    using demo_callee demo_weight by (simp add: dispatch_op_def f'_def)
  have c: "error_code (normalizeVmError ?e) = ''E_TICKS''" by code_simp
  obtain error where e: "error_code error = ''E_TICKS''"
    and run: "\<forall>upper g lower skipped h hs. f' # [?g] = upper @ g # lower \<and> \<not> list_ex (\<lambda>f. list_ex (takes error) (vf_handlers f)) upper
        \<and> vf_handlers g = skipped @ h # hs \<and> \<not> list_ex (takes error) skipped \<and> takes error h
        \<and> int (vh_stackDepth h) < bc_max_stack (vf_bytecode g) \<longrightarrow>
        vm_step demo_vm (?f # [?g]) () = Running (g\<lparr>vf_handlers := hs,
          vf_stack := WMap error # set_length (vh_stackDepth h) (vf_stack g), vf_pc := vh_targetPc h\<rparr> # lower) ()"
    using vm_error_delivery [of ?f demo_vm "()" ?e f' "()" "[?g]"] d c demo_callee by auto
  have "vm_step demo_vm (?f # [?g]) () = Running (?g\<lparr>vf_handlers := [],
      vf_stack := WMap error # set_length 0 (vf_stack ?g), vf_pc := 6\<rparr> # []) ()"
    using run [rule_format, of "[f']" ?g "[]" "[]" "\<lparr>vh_targetPc = 6, vh_errors = [], vh_stackDepth = 0\<rparr>" "[]"] demo_caller demo_callee(4)
    by (simp add: takes_def f'_def)
  then show ?thesis using e demo_stack_7 by metis
qed

text \<open>The caller catches the error of its spent callee with 27 of its own ticks left, and returns.\<close>

lemma spent_callee_evaluated:
  "vf_ticksRemaining (demo_stack 7 ! 1) = 27" "runTinyVm demo_vm demo_context guarded_call [] () = (Inr (WStr ''E_TICKS''), ())"
  by (fact demo_caller(3), code_simp)

end
