(* ===== verification/Dsl_Codegen.thy ===== *)
theory Dsl_Codegen
  imports Tiny_VM
begin

text \<open>
  The code generator of verb sources (class \<open>Codegen\<close> of \<open>src/core/dsl-compiler.ts\<close>): the syntax tree the
  parser hands over, the generator's state, and one function per \<open>compile\<close> method. A method is a function
  of the state that fails with a compile error or gives a result and the next state. Jumps are emitted with a
  placeholder and patched once their target is known, as in the source.
\<close>

section \<open>Syntax\<close>

record source_span =
  sn_index :: int
  sn_end :: int
  sn_line :: int
  sn_column :: int
  sn_end_line :: int
  sn_end_column :: int

datatype expr =
    LiteralExpr woo_value source_span
  | IdentifierExpr string source_span
  | ListExpr "expr list" source_span
  | MapExpr "(string \<times> expr) list" source_span
  | RangeExpr expr expr source_span
  | UnaryExpr string expr source_span
  | BinaryExpr string expr expr source_span
  | LogicalExpr string expr expr source_span
  | PropertyExpr expr string source_span
  | DynamicPropertyExpr expr expr source_span
  | IndexExpr expr expr source_span
  | InterpExpr "(string + expr) list" source_span
  | CallExpr expr "expr list" source_span
  | VerbCallExpr expr string "expr list" source_span

datatype stmt =
    BlockStmt block
  | VarDeclStmt string "expr option" source_span
  | AssignStmt expr expr source_span
  | ExprStmt expr source_span
  | IfStmt if_stmt
  | WhileStmt expr block source_span
  | ForStmt string "string option" expr block source_span
  | BreakStmt source_span
  | ContinueStmt source_span
  | ReturnStmt "expr option" source_span
  | RaiseStmt expr source_span
  | TryStmt block string "string list" block source_span
and block = Block "stmt list" source_span
and if_stmt = If_then expr block alternate source_span
and alternate = No_else | Else block | Else_if if_stmt

record program =
  pg_name :: string
  pg_params :: "string list"
  pg_perms :: string
  pg_argSpec :: "(string \<times> woo_value) list"
  pg_body :: block
  pg_span :: source_span

primrec expr_span :: "expr \<Rightarrow> source_span" where
  "expr_span (LiteralExpr _ sp) = sp"
| "expr_span (IdentifierExpr _ sp) = sp"
| "expr_span (ListExpr _ sp) = sp"
| "expr_span (MapExpr _ sp) = sp"
| "expr_span (RangeExpr _ _ sp) = sp"
| "expr_span (UnaryExpr _ _ sp) = sp"
| "expr_span (BinaryExpr _ _ _ sp) = sp"
| "expr_span (LogicalExpr _ _ _ sp) = sp"
| "expr_span (PropertyExpr _ _ sp) = sp"
| "expr_span (DynamicPropertyExpr _ _ sp) = sp"
| "expr_span (IndexExpr _ _ sp) = sp"
| "expr_span (InterpExpr _ sp) = sp"
| "expr_span (CallExpr _ _ sp) = sp"
| "expr_span (VerbCallExpr _ _ _ sp) = sp"

primrec block_span :: "block \<Rightarrow> source_span" where
  "block_span (Block _ sp) = sp"

section \<open>Names\<close>

definition KEYWORDS :: "string list" where
  "KEYWORDS = [''verb'', ''let'', ''const'', ''if'', ''else'', ''while'', ''for'', ''in'', ''break'', ''continue'',
    ''return'', ''try'', ''except'', ''finally'', ''raise'', ''true'', ''false'', ''null'']"

definition FRAME_GLOBALS :: "(string \<times> string) list" where
  "FRAME_GLOBALS = [(''this'', ''PUSH_THIS''), (''actor'', ''PUSH_ACTOR''), (''player'', ''PUSH_PLAYER''),
    (''caller'', ''PUSH_CALLER''), (''progr'', ''PUSH_PROGR''), (''space'', ''PUSH_SPACE''), (''seq'', ''PUSH_SEQ''),
    (''message'', ''PUSH_MESSAGE''), (''args'', ''PUSH_ARGS''), (''verb'', ''PUSH_VERB'')]"

definition BUILTINS :: "string list" where
  "BUILTINS = [''length'', ''keys'', ''values'', ''has'', ''typeof'', ''to_string'', ''tostr'', ''to_int'', ''toint'',
    ''to_float'', ''tofloat'', ''min'', ''max'', ''floor'', ''ceil'', ''round'', ''abs'',
    ''str_trim'', ''str_lower'', ''str_starts'', ''str_index'', ''str_slice'', ''str_char'', ''str_join'', ''str_split'',
    ''listinsert'', ''object_tree_rows'', ''rank_between'',
    ''now'', ''create'', ''recycle'', ''move'', ''moveto'', ''chparent'', ''has_flag'', ''isa'', ''has_surface'',
    ''is_recycled'', ''directory_reconcile_corenames'', ''random'', ''contents'', ''location'', ''task_perms'',
    ''caller_perms'', ''event_schema'', ''set_task_perms'', ''set_presence'', ''observe_to_space'', ''tell'', ''dispatch'',
    ''execute_command_plan'', ''collect_prop'', ''current_location'', ''current_session'', ''session_location'',
    ''all_locations'', ''primary_session'', ''is_connected'', ''idle_seconds'', ''schedule'', ''schedule_at'',
    ''cancel_schedule'', ''describe_object'', ''present_actors'', ''active_actors'', ''session_metadata'', ''room_roster'',
    ''ordered_children'', ''ordered_neighbors'', ''visible_contents'', ''obvious_verbs'', ''remote_describe'',
    ''builder_create_object'', ''builder_chparent'', ''programmer_eval'', ''editor_invoke'', ''editor_what'',
    ''editor_view'', ''editor_replace'', ''editor_insert'', ''editor_delete'', ''editor_dry_run'', ''editor_save'',
    ''editor_pause'', ''editor_abort'', ''parents'', ''children'', ''valid'', ''verbs'', ''verb_info'', ''verb_code'',
    ''add_verb'', ''delete_verb'', ''set_verb_info'', ''set_verb_code'', ''compile_verb'', ''properties'',
    ''property_info'', ''add_property'', ''delete_property'', ''set_property_info'', ''clear_property'',
    ''is_clear_property'', ''authoring_inspect'', ''authoring_search'', ''set_object_name'', ''is_remote_object'',
    ''presence_status'']"

definition RESERVED_NAMES :: "string list" where
  "RESERVED_NAMES = map fst FRAME_GLOBALS @ KEYWORDS"

section \<open>State\<close>

record compile_error =
  ce_code :: string
  ce_message :: string
  ce_span :: "source_span option"
  ce_hint :: "string option"
  ce_symbol :: "string option"

record gen_loop =
  lp_breaks :: "nat list"
  lp_continues :: "nat list"
  lp_continueTarget :: nat

text \<open>The stack of enclosing loops has the innermost first; \<open>cg_calls\<close> pairs a called verb with \<open>this_call\<close>.\<close>

record codegen =
  cg_ops :: "tiny_op list"
  cg_literals :: "woo_value list"
  cg_lineMap :: "(string \<times> woo_value) list"
  cg_locals :: "(string \<times> nat) list"
  cg_loops :: "gen_loop list"
  cg_calls :: "(string \<times> bool) list"
  cg_activeSpan :: "source_span option"
  cg_localCount :: nat

definition new_codegen :: codegen where
  "new_codegen = \<lparr>cg_ops = [], cg_literals = [], cg_lineMap = [], cg_locals = [], cg_loops = [], cg_calls = [],
     cg_activeSpan = None, cg_localCount = 0\<rparr>"

type_synonym 'a gen = "codegen \<Rightarrow> compile_error + 'a \<times> codegen"

definition gen_give :: "'a \<Rightarrow> 'a gen" where
  "gen_give a s = Inr (a, s)"

definition gen_seq :: "'a gen \<Rightarrow> ('a \<Rightarrow> 'b gen) \<Rightarrow> 'b gen" where
  "gen_seq m k s = (case m s of Inl e \<Rightarrow> Inl e | Inr (a, s') \<Rightarrow> k a s')"

definition gen_then :: "'a gen \<Rightarrow> 'b gen \<Rightarrow> 'b gen" where
  "gen_then m n = gen_seq m (\<lambda>_. n)"

definition gen_read :: "(codegen \<Rightarrow> 'a) \<Rightarrow> 'a gen" where
  "gen_read g s = Inr (g s, s)"

definition gen_update :: "(codegen \<Rightarrow> codegen) \<Rightarrow> unit gen" where
  "gen_update g s = Inr ((), g s)"

definition gen_fail :: "string \<Rightarrow> source_span \<Rightarrow> 'a gen" where
  "gen_fail message sp s = Inl \<lparr>ce_code = ''E_COMPILE'', ce_message = message, ce_span = Some sp, ce_hint = None, ce_symbol = None\<rparr>"

primrec gen_all :: "unit gen list \<Rightarrow> unit gen" where
  "gen_all [] = gen_give ()"
| "gen_all (m # ms) = gen_then m (gen_all ms)"

definition withSpan :: "source_span \<Rightarrow> 'a gen \<Rightarrow> 'a gen" where
  "withSpan sp m s = (case m (s\<lparr>cg_activeSpan := Some sp\<rparr>) of
      Inl e \<Rightarrow> Inl e
    | Inr (a, s') \<Rightarrow> Inr (a, s'\<lparr>cg_activeSpan := cg_activeSpan s\<rparr>))"

section \<open>Emitting code\<close>

definition line_entry :: "source_span \<Rightarrow> woo_value" where
  "line_entry sp = WMap [(''line'', WInt (sn_line sp)), (''column'', WInt (sn_column sp)),
     (''end_line'', WInt (sn_end_line sp)), (''end_column'', WInt (sn_end_column sp))]"

definition emit :: "string \<Rightarrow> woo_value list \<Rightarrow> nat gen" where
  "emit op operands s = (let index = length (cg_ops s) in
     Inr (index, s\<lparr>cg_ops := cg_ops s @ [(op, operands)],
       cg_lineMap := (case cg_activeSpan s of
           None \<Rightarrow> cg_lineMap s
         | Some sp \<Rightarrow> jm_set (show_nat index) (line_entry sp) (cg_lineMap s))\<rparr>))"

definition emit_op :: "string \<Rightarrow> woo_value list \<Rightarrow> unit gen" where
  "emit_op op operands = gen_then (emit op operands) (gen_give ())"

definition emitJump :: "string \<Rightarrow> nat gen" where
  "emitJump op = emit op [WInt 0]"

text \<open>\<open>ops[index][k + 1] = target - index - 1\<close>.\<close>

definition patch_operand :: "nat \<Rightarrow> nat \<Rightarrow> nat \<Rightarrow> codegen \<Rightarrow> codegen" where
  "patch_operand k index target s = s\<lparr>cg_ops := (cg_ops s)[index := (case cg_ops s ! index of (op, operands) \<Rightarrow>
     (op, operands[k := WInt (int target - int index - 1)]))]\<rparr>"

definition patchJump :: "nat \<Rightarrow> nat \<Rightarrow> unit gen" where
  "patchJump index target = gen_update (patch_operand 0 index target)"

definition patch_jumps :: "nat list \<Rightarrow> nat \<Rightarrow> unit gen" where
  "patch_jumps items target = gen_all (map (\<lambda>item. patchJump item target) items)"

definition here :: "nat gen" where
  "here = gen_read (\<lambda>s. length (cg_ops s))"

definition patch_here :: "nat \<Rightarrow> unit gen" where
  "patch_here index = gen_seq here (\<lambda>target. patchJump index target)"

definition emitRelativeJump :: "nat \<Rightarrow> unit gen" where
  "emitRelativeJump target = gen_seq (emit ''JUMP'' [WInt 0]) (\<lambda>index. patchJump index target)"

text \<open>The index of a literal, shared with an equal one if there is one.\<close>

primrec index_where :: "('a \<Rightarrow> bool) \<Rightarrow> 'a list \<Rightarrow> nat option" where
  "index_where p [] = None"
| "index_where p (x # xs) = (if p x then Some 0 else map_option Suc (index_where p xs))"

definition literal_index :: "woo_value \<Rightarrow> nat gen" where
  "literal_index v s = (case index_where (\<lambda>item. valuesEqual item v) (cg_literals s) of
      Some existing \<Rightarrow> Inr (existing, s)
    | None \<Rightarrow> Inr (length (cg_literals s), s\<lparr>cg_literals := cg_literals s @ [v]\<rparr>))"

definition push_literal :: "woo_value \<Rightarrow> unit gen" where
  "push_literal v = gen_seq (literal_index v) (\<lambda>i. emit_op ''PUSH_LIT'' [WInt (int i)])"

definition declareLocal :: "string \<Rightarrow> source_span \<Rightarrow> nat gen" where
  "declareLocal name sp s =
     (if name \<in> set RESERVED_NAMES then gen_fail (''reserved local name: '' @ name) sp s
      else if jm_get (cg_locals s) name \<noteq> None then gen_fail (''duplicate local: '' @ name) sp s
      else Inr (cg_localCount s, s\<lparr>cg_localCount := cg_localCount s + 1, cg_locals := jm_set name (cg_localCount s) (cg_locals s)\<rparr>))"

definition ensureLoopLocal :: "string \<Rightarrow> source_span \<Rightarrow> nat gen" where
  "ensureLoopLocal name sp s = (case jm_get (cg_locals s) name of
      Some existing \<Rightarrow> Inr (existing, s) | None \<Rightarrow> declareLocal name sp s)"

definition requireLocal :: "string \<Rightarrow> source_span \<Rightarrow> nat gen" where
  "requireLocal name sp s = (case jm_get (cg_locals s) name of
      Some local \<Rightarrow> Inr (local, s) | None \<Rightarrow> gen_fail (''unknown local: '' @ name) sp s)"

section \<open>Expressions\<close>

definition unknown_identifier :: "string \<Rightarrow> source_span \<Rightarrow> 'a gen" where
  "unknown_identifier name sp s = Inl \<lparr>ce_code = ''E_COMPILE'', ce_message = ''unknown identifier: '' @ name, ce_span = Some sp,
     ce_hint = Some (''bare names resolve only to locals, verb arguments, and frame globals; write an object id as the objref literal #''
       @ name @ '' (or $'' @ name @ '' for a core reference)''), ce_symbol = Some name\<rparr>"

definition compileIdentifier :: "string \<Rightarrow> source_span \<Rightarrow> unit gen" where
  "compileIdentifier name sp = gen_seq (gen_read (\<lambda>s. jm_get (cg_locals s) name)) (\<lambda>local. case local of
      Some l \<Rightarrow> emit_op ''PUSH_LOCAL'' [WInt (int l)]
    | None \<Rightarrow> (case map_of FRAME_GLOBALS name of
        Some globalOp \<Rightarrow> emit_op globalOp []
      | None \<Rightarrow> unknown_identifier name sp))"

definition BINARY_OPS :: "(string \<times> string) list" where
  "BINARY_OPS = [(''+'', ''ADD''), (''-'', ''SUB''), (''*'', ''MUL''), (''/'', ''DIV''), (''%'', ''MOD''), (''=='', ''EQ''),
    (''!='', ''NEQ''), (''<'', ''LT''), (''<='', ''LE''), (''>'', ''GT''), (''>='', ''GE''), (''in'', ''IN'')]"

definition compileBinary :: "string \<Rightarrow> unit gen \<Rightarrow> unit gen \<Rightarrow> source_span \<Rightarrow> unit gen" where
  "compileBinary op left right sp = gen_then left (gen_then right (case map_of BINARY_OPS op of
      None \<Rightarrow> gen_fail (''unsupported operator: '' @ op) sp
    | Some name \<Rightarrow> emit_op name []))"

definition compileLogical :: "string \<Rightarrow> unit gen \<Rightarrow> unit gen \<Rightarrow> unit gen" where
  "compileLogical op left right = gen_then left
     (gen_seq (emitJump (if op = ''&&'' then ''JUMP_IF_FALSE_KEEP'' else ''JUMP_IF_TRUE_KEEP'')) (\<lambda>j.
      gen_then (emit_op ''POP'' []) (gen_then right (patch_here j))))"

definition compile_observe :: "unit gen list \<Rightarrow> source_span \<Rightarrow> unit gen" where
  "compile_observe args sp = (case args of
      [event] \<Rightarrow> gen_then event (emit_op ''OBSERVE'' [])
    | _ \<Rightarrow> gen_fail ''observe expects one argument'' sp)"

definition compile_emit :: "unit gen list \<Rightarrow> source_span \<Rightarrow> unit gen" where
  "compile_emit args sp = (case args of
      [target, event] \<Rightarrow> gen_then target (gen_then event (emit_op ''EMIT'' []))
    | _ \<Rightarrow> gen_fail ''emit expects target and event arguments'' sp)"

text \<open>\<open>fork\<close> is \<open>schedule\<close> with the delay last and in milliseconds.\<close>

definition compile_fork :: "unit gen list \<Rightarrow> source_span \<Rightarrow> unit gen" where
  "compile_fork args sp = (case args of
      delay # target # verb # rest \<Rightarrow> gen_then target (gen_then verb (gen_then (gen_all rest)
        (gen_then (emit_op ''MAKE_LIST'' [WInt (int (length rest))]) (gen_then delay
        (gen_then (emit_op ''PUSH_INT'' [WInt 1000]) (gen_then (emit_op ''MUL'' [])
          (emit_op ''BUILTIN'' [WStr ''schedule'', WInt 4])))))))
    | _ \<Rightarrow> gen_fail ''fork expects delay_seconds, target, verb, and optional args'' sp)"

definition canonical_builtin :: "string \<Rightarrow> string" where
  "canonical_builtin name = (if name = ''tostr'' then ''to_string'' else if name = ''toint'' then ''to_int''
     else if name = ''tofloat'' then ''to_float'' else name)"

text \<open>A call of a name, its arguments as the code that computes them.\<close>

definition compileCall :: "expr \<Rightarrow> unit gen list \<Rightarrow> source_span \<Rightarrow> unit gen" where
  "compileCall callee args sp = (case callee of
      IdentifierExpr name _ \<Rightarrow>
       (if name = ''pass'' then gen_then (gen_all args) (emit_op ''PASS'' [WInt (int (length args))])
        else if name = ''observe'' then gen_then (compile_observe args sp) (push_literal WNull)
        else if name = ''emit'' then gen_then (compile_emit args sp) (push_literal WNull)
        else if name = ''suspend'' \<or> name = ''read''
        then gen_fail (name @ ''() no longer exists: a verb runs to completion within its turn. To do work later, use schedule() (spec/semantics/scheduling.md)'') sp
        else if name = ''fork'' then compile_fork args sp
        else if name \<notin> set BUILTINS then gen_fail (''unknown builtin: '' @ name) sp
        else gen_then (gen_all args) (emit_op ''BUILTIN'' [WStr (canonical_builtin name), WInt (int (length args))]))
    | _ \<Rightarrow> gen_fail (''only builtin calls are supported without '' @ [CHR 0x27, CHR '':'', CHR 0x27]) sp)"

definition interp_part :: "string + unit gen \<Rightarrow> unit gen" where
  "interp_part part = (case part of
      Inl text \<Rightarrow> push_literal (WStr text)
    | Inr m \<Rightarrow> gen_then m (emit_op ''BUILTIN'' [WStr ''to_string'', WInt 1]))"

definition compileInterpolation :: "(string + unit gen) list \<Rightarrow> unit gen" where
  "compileInterpolation parts = gen_then (gen_all (map interp_part parts)) (emit_op ''STR_INTERP'' [WInt (int (length parts))])"

definition map_entry :: "string \<times> unit gen \<Rightarrow> unit gen" where
  "map_entry entry = gen_then (push_literal (WStr (fst entry))) (snd entry)"

definition record_call :: "string \<Rightarrow> expr \<Rightarrow> unit gen" where
  "record_call name obj = gen_update (\<lambda>s. s\<lparr>cg_calls := cg_calls s
     @ [(name, case obj of IdentifierExpr n _ \<Rightarrow> n = ''this'' | _ \<Rightarrow> False)]\<rparr>)"

primrec compileExpr :: "expr \<Rightarrow> unit gen" where
  "compileExpr (LiteralExpr v sp) = withSpan sp (push_literal v)"
| "compileExpr (IdentifierExpr name sp) = withSpan sp (compileIdentifier name sp)"
| "compileExpr (ListExpr items sp) = withSpan sp (gen_then (gen_all (map compileExpr items))
     (emit_op ''MAKE_LIST'' [WInt (int (length items))]))"
| "compileExpr (MapExpr entries sp) = withSpan sp (gen_then (gen_all (map map_entry (map (map_prod id compileExpr) entries)))
     (emit_op ''MAKE_MAP'' [WInt (int (length entries))]))"
| "compileExpr (RangeExpr lo hi sp) = withSpan sp (gen_fail ''range expressions are only supported in for loops'' sp)"
| "compileExpr (UnaryExpr op e sp) = withSpan sp (gen_then (compileExpr e) (emit_op (if op = ''!'' then ''NOT'' else ''NEG'') []))"
| "compileExpr (BinaryExpr op l r sp) = withSpan sp (compileBinary op (compileExpr l) (compileExpr r) sp)"
| "compileExpr (LogicalExpr op l r sp) = withSpan sp (compileLogical op (compileExpr l) (compileExpr r))"
| "compileExpr (PropertyExpr obj name sp) = withSpan sp (gen_then (compileExpr obj)
     (gen_then (push_literal (WStr name)) (emit_op ''GET_PROP'' [])))"
| "compileExpr (DynamicPropertyExpr obj name sp) = withSpan sp (gen_then (compileExpr obj)
     (gen_then (compileExpr name) (emit_op ''GET_PROP'' [])))"
| "compileExpr (IndexExpr obj index sp) = withSpan sp (gen_then (compileExpr obj)
     (gen_then (compileExpr index) (emit_op ''INDEX_GET'' [])))"
| "compileExpr (InterpExpr parts sp) = withSpan sp (compileInterpolation (map (map_sum id compileExpr) parts))"
| "compileExpr (CallExpr callee args sp) = withSpan sp (compileCall callee (map compileExpr args) sp)"
| "compileExpr (VerbCallExpr obj name args sp) = withSpan sp (gen_then (record_call name obj) (gen_then (compileExpr obj)
     (gen_then (push_literal (WStr name)) (gen_then (gen_all (map compileExpr args))
       (emit_op ''CALL_VERB'' [WInt (int (length args))])))))"

section \<open>Statements\<close>

definition value_or_null :: "expr option \<Rightarrow> unit gen" where
  "value_or_null v = (case v of Some e \<Rightarrow> compileExpr e | None \<Rightarrow> push_literal WNull)"

definition emit_local :: "string \<Rightarrow> nat \<Rightarrow> unit gen" where
  "emit_local op l = emit_op op [WInt (int l)]"

definition compileVarDecl :: "string \<Rightarrow> expr option \<Rightarrow> source_span \<Rightarrow> unit gen" where
  "compileVarDecl name v sp = gen_seq (declareLocal name sp) (\<lambda>l. gen_then (value_or_null v) (emit_local ''POP_LOCAL'' l))"

definition compileAssign :: "expr \<Rightarrow> expr \<Rightarrow> source_span \<Rightarrow> unit gen" where
  "compileAssign target v sp = (case target of
      IdentifierExpr name tsp \<Rightarrow> gen_seq (requireLocal name tsp) (\<lambda>l. gen_then (compileExpr v) (emit_local ''POP_LOCAL'' l))
    | PropertyExpr obj name _ \<Rightarrow> gen_then (compileExpr obj) (gen_then (push_literal (WStr name)) (gen_then (compileExpr v)
        (emit_op ''SET_PROP'' [])))
    | DynamicPropertyExpr obj name _ \<Rightarrow> gen_then (compileExpr obj) (gen_then (compileExpr name) (gen_then (compileExpr v)
        (emit_op ''SET_PROP'' [])))
    | IndexExpr (IdentifierExpr name osp) index _ \<Rightarrow> gen_seq (requireLocal name osp) (\<lambda>l.
        gen_then (emit_local ''PUSH_LOCAL'' l) (gen_then (compileExpr index) (gen_then (compileExpr v)
        (gen_then (emit_op ''INDEX_SET'' []) (emit_local ''POP_LOCAL'' l)))))
    | _ \<Rightarrow> gen_fail ''unsupported assignment target'' sp)"

text \<open>\<open>observe\<close> and \<open>emit\<close> as statements leave no value to drop.\<close>

definition compileSpecialCallStatement :: "expr \<Rightarrow> bool gen" where
  "compileSpecialCallStatement e = (case e of
      CallExpr (IdentifierExpr name _) args sp \<Rightarrow>
       (if name = ''observe'' then gen_then (compile_observe (map compileExpr args) sp) (gen_give True)
        else if name = ''emit'' then gen_then (compile_emit (map compileExpr args) sp) (gen_give True)
        else gen_give False)
    | _ \<Rightarrow> gen_give False)"

definition compile_expr_stmt :: "expr \<Rightarrow> unit gen" where
  "compile_expr_stmt e = gen_seq (compileSpecialCallStatement e) (\<lambda>special.
     if special then gen_give () else gen_then (compileExpr e) (emit_op ''POP'' []))"

definition push_loop :: "nat \<Rightarrow> unit gen" where
  "push_loop target = gen_update (\<lambda>s. s\<lparr>cg_loops := \<lparr>lp_breaks = [], lp_continues = [], lp_continueTarget = target\<rparr> # cg_loops s\<rparr>)"

definition pop_loop :: "gen_loop gen" where
  "pop_loop s = Inr (hd (cg_loops s), s\<lparr>cg_loops := tl (cg_loops s)\<rparr>)"

text \<open>Compile the body of a loop with the loop entered, giving the loop with the jumps out of it.\<close>

definition in_loop :: "nat \<Rightarrow> unit gen \<Rightarrow> gen_loop gen" where
  "in_loop target body = gen_then (push_loop target) (gen_then body pop_loop)"

definition compileLoopBody :: "unit gen \<Rightarrow> nat \<Rightarrow> nat \<Rightarrow> nat \<Rightarrow> unit gen" where
  "compileLoopBody body next_op exit k = gen_seq (in_loop next_op body) (\<lambda>loop.
     gen_then (emitRelativeJump next_op) (gen_seq here (\<lambda>forEnd.
     gen_then (gen_update (patch_operand k exit forEnd))
     (gen_then (patch_jumps (lp_breaks loop) forEnd) (gen_then (patch_jumps (lp_continues loop) next_op)
     (emit_op ''FOR_END'' []))))))"

text \<open>The loop with its variables declared: the header, the exit test and the body.\<close>

definition loop_from :: "unit gen \<Rightarrow> unit gen \<Rightarrow> string \<Rightarrow> nat list \<Rightarrow> unit gen" where
  "loop_from header body next_op locals = gen_then header (gen_seq here (\<lambda>next_pc.
     gen_seq (emit next_op (map (\<lambda>l. WInt (int l)) locals @ [WInt 0])) (\<lambda>exit.
     compileLoopBody body next_pc exit (length locals))))"

definition compileFor :: "string \<Rightarrow> string option \<Rightarrow> expr \<Rightarrow> unit gen \<Rightarrow> source_span \<Rightarrow> unit gen" where
  "compileFor keyName valueName iterable body sp = (case iterable of
      RangeExpr lo hi _ \<Rightarrow> gen_seq (ensureLoopLocal keyName sp) (\<lambda>l.
        loop_from (gen_then (compileExpr hi) (gen_then (compileExpr lo) (emit_local ''FOR_RANGE_INIT'' l))) body ''FOR_RANGE_NEXT'' [l])
    | _ \<Rightarrow> (case valueName of
        Some vname \<Rightarrow> gen_seq (ensureLoopLocal keyName sp) (\<lambda>k. gen_seq (ensureLoopLocal vname sp) (\<lambda>v.
          loop_from (gen_then (compileExpr iterable) (emit_op ''FOR_MAP_INIT'' [])) body ''FOR_MAP_NEXT'' [k, v]))
      | None \<Rightarrow> gen_seq (ensureLoopLocal keyName sp) (\<lambda>l.
          loop_from (gen_then (compileExpr iterable) (emit_local ''FOR_LIST_INIT'' l)) body ''FOR_LIST_NEXT'' [l])))"

definition compileWhile :: "expr \<Rightarrow> unit gen \<Rightarrow> unit gen" where
  "compileWhile test body = gen_seq here (\<lambda>start. gen_then (compileExpr test)
     (gen_seq (emitJump ''JUMP_IF_FALSE'') (\<lambda>exitJump. gen_seq (in_loop start body) (\<lambda>loop.
     gen_then (emitRelativeJump start) (gen_seq here (\<lambda>end_pc. gen_then (patchJump exitJump end_pc)
     (gen_then (patch_jumps (lp_breaks loop) end_pc) (patch_jumps (lp_continues loop) start))))))))"

definition on_loop :: "string \<Rightarrow> source_span \<Rightarrow> (nat \<Rightarrow> gen_loop \<Rightarrow> gen_loop) \<Rightarrow> unit gen" where
  "on_loop keyword sp add s = (case cg_loops s of
      [] \<Rightarrow> gen_fail (keyword @ '' outside loop'') sp s
    | loop # outer \<Rightarrow> gen_seq (emitJump ''JUMP'') (\<lambda>j. gen_update (\<lambda>s. s\<lparr>cg_loops := add j loop # outer\<rparr>)) s)"

definition compileBreak :: "source_span \<Rightarrow> unit gen" where
  "compileBreak sp = on_loop ''break'' sp (\<lambda>j loop. loop\<lparr>lp_breaks := lp_breaks loop @ [j]\<rparr>)"

definition compileContinue :: "source_span \<Rightarrow> unit gen" where
  "compileContinue sp = on_loop ''continue'' sp (\<lambda>j loop. loop\<lparr>lp_continues := lp_continues loop @ [j]\<rparr>)"

definition compileTry :: "unit gen \<Rightarrow> string \<Rightarrow> string list \<Rightarrow> unit gen \<Rightarrow> source_span \<Rightarrow> unit gen" where
  "compileTry body errorName errorCodes handler sp =
     gen_seq (literal_index (WList (map WStr errorCodes))) (\<lambda>errorsLiteral.
     gen_seq (emit ''TRY_PUSH'' [WInt 0, WInt (int errorsLiteral)]) (\<lambda>tryPush.
     gen_then body (gen_then (emit_op ''TRY_POP'' []) (gen_seq (emitJump ''JUMP'') (\<lambda>endJump.
     gen_then (patch_here tryPush) (gen_seq (ensureLoopLocal errorName sp) (\<lambda>errorLocal.
     gen_then (emit_local ''POP_LOCAL'' errorLocal) (gen_then handler (patch_here endJump)))))))))"

text \<open>A conditional, its alternate as code if there is one.\<close>

definition compile_if :: "unit gen \<Rightarrow> unit gen \<Rightarrow> unit gen option \<Rightarrow> unit gen" where
  "compile_if test consequent otherwise = gen_then test (gen_seq (emitJump ''JUMP_IF_FALSE'') (\<lambda>elseJump.
     gen_then consequent (case otherwise of
         None \<Rightarrow> patch_here elseJump
       | Some m \<Rightarrow> gen_seq (emitJump ''JUMP'') (\<lambda>endJump. gen_then (patch_here elseJump) (gen_then m (patch_here endJump))))))"

primrec if_span :: "if_stmt \<Rightarrow> source_span" where
  "if_span (If_then _ _ _ sp) = sp"

primrec compileStmt :: "stmt \<Rightarrow> unit gen"
  and compileBlock :: "block \<Rightarrow> unit gen"
  and compileIf :: "if_stmt \<Rightarrow> unit gen"
  and compile_alternate :: "alternate \<Rightarrow> unit gen option" where
  "compileStmt (BlockStmt b) = withSpan (block_span b) (compileBlock b)"
| "compileStmt (VarDeclStmt name v sp) = withSpan sp (compileVarDecl name v sp)"
| "compileStmt (AssignStmt target v sp) = withSpan sp (compileAssign target v sp)"
| "compileStmt (ExprStmt e sp) = withSpan sp (compile_expr_stmt e)"
| "compileStmt (IfStmt i) = withSpan (if_span i) (compileIf i)"
| "compileStmt (WhileStmt test body sp) = withSpan sp (compileWhile test (compileBlock body))"
| "compileStmt (ForStmt keyName valueName iterable body sp) = withSpan sp (compileFor keyName valueName iterable (compileBlock body) sp)"
| "compileStmt (BreakStmt sp) = withSpan sp (compileBreak sp)"
| "compileStmt (ContinueStmt sp) = withSpan sp (compileContinue sp)"
| "compileStmt (ReturnStmt v sp) = withSpan sp (gen_then (value_or_null v) (emit_op ''RETURN'' []))"
| "compileStmt (RaiseStmt e sp) = withSpan sp (gen_then (compileExpr e) (emit_op ''RAISE'' []))"
| "compileStmt (TryStmt body errorName errorCodes handler sp) =
     withSpan sp (compileTry (compileBlock body) errorName errorCodes (compileBlock handler) sp)"
| "compileBlock (Block statements sp) = gen_all (map compileStmt statements)"
| "compileIf (If_then test consequent otherwise sp) =
     compile_if (compileExpr test) (compileBlock consequent) (compile_alternate otherwise)"
| "compile_alternate No_else = None"
| "compile_alternate (Else b) = Some (compileBlock b)"
| "compile_alternate (Else_if i) = Some (compileIf i)"

section \<open>Programs\<close>

definition declare_params :: "program \<Rightarrow> unit gen" where
  "declare_params p = gen_all (map (\<lambda>param. gen_then (declareLocal param (pg_span p)) (gen_give ())) (pg_params p))"

definition gen_program :: "program \<Rightarrow> unit gen" where
  "gen_program p = gen_then (declare_params p) (gen_then (compileBlock (pg_body p))
     (withSpan (block_span (pg_body p)) (gen_then (push_literal WNull) (emit_op ''RETURN'' []))))"

record compiled =
  co_bytecode :: tiny_bytecode
  co_lineMap :: "(string \<times> woo_value) list"
  co_calls :: "(string \<times> bool) list"

definition bytecode_of :: "codegen \<Rightarrow> tiny_bytecode" where
  "bytecode_of s = \<lparr>bc_ops = cg_ops s, bc_literals = cg_literals s, bc_num_locals = int (cg_localCount s), bc_max_stack = 128,
     bc_max_ticks = None, bc_max_memory = None, bc_max_wall_ms = None, bc_version = 1\<rparr>"

definition compile_program :: "program \<Rightarrow> compile_error + compiled" where
  "compile_program p = (case gen_program p new_codegen of
      Inl e \<Rightarrow> Inl e
    | Inr (_, s) \<Rightarrow> Inr \<lparr>co_bytecode = bytecode_of s, co_lineMap = cg_lineMap s, co_calls = cg_calls s\<rparr>)"

end
