(* ===== verification/Code_Types.thy ===== *)
theory Code_Types
  imports Dsl_Codegen
begin

text \<open>
  A typing of bytecode by operand stack depths, and that the code generator only makes typed code. Every
  opcode has an arity, the values it takes and leaves; a typing gives every program counter a depth that each
  opcode respects along all its successors: the next opcode, a jump, or the entry of a handler it installs.
  Literal and local operands are in range.
\<close>

section \<open>Typed code\<close>

definition operand_count :: "woo_value list \<Rightarrow> nat \<Rightarrow> nat option" where
  "operand_count os k = (case operand os k of WNum (Finite n) \<Rightarrow> Some (nat n) | _ \<Rightarrow> None)"

text \<open>The values an opcode takes from the stack and leaves there; \<open>SPLAT\<close> has no fixed arity.\<close>

definition op_arity :: "opcode \<Rightarrow> woo_value list \<Rightarrow> (nat \<times> nat) option" where
  "op_arity op os =
     (if op \<in> {PUSH_LIT, PUSH_INT, PUSH_LOCAL, PUSH_THIS, PUSH_ACTOR, PUSH_PLAYER, PUSH_CALLER, PUSH_PROGR, PUSH_VERB,
        PUSH_ARGS, PUSH_SPACE, PUSH_SEQ, PUSH_MESSAGE, PUSH_ARG} then Some (0, 1)
      else if op \<in> {JUMP, YIELD, TRY_PUSH, TRY_POP} then Some (0, 0)
      else if op \<in> {POP, POP_LOCAL, JUMP_IF_TRUE, JUMP_IF_FALSE, RETURN, RAISE, OBSERVE} then Some (1, 0)
      else if op \<in> {NEG, LNOT, JUMP_IF_TRUE_KEEP, JUMP_IF_FALSE_KEEP} then Some (1, 1)
      else if op \<in> {FOR_LIST_INIT, FOR_MAP_INIT, DUP} then Some (1, 2)
      else if op \<in> {FOR_END, EMIT, UNDEFINE_PROP} then Some (2, 0)
      else if op \<in> {ADD, SUB, MUL, DIV, MOD, EQ, NEQ, LT, LE, GT, GE, IN, GET_PROP, HAS_PROP, PROP_INFO, INDEX_GET, LIST_GET,
        LIST_APPEND, MAP_GET} then Some (2, 1)
      else if op \<in> {FOR_RANGE_INIT, FOR_LIST_NEXT, FOR_RANGE_NEXT, FOR_MAP_NEXT, SWAP} then Some (2, 2)
      else if op \<in> {SET_PROP, SET_PROP_INFO} then Some (3, 0)
      else if op \<in> {INDEX_SET, LIST_SET, MAP_SET} then Some (3, 1)
      else if op = DEFINE_PROP then Some (4, 0)
      else if op = CALL_VERB then map_option (\<lambda>n. (n + 2, 1)) (operand_count os 0)
      else if op \<in> {PASS, MAKE_LIST, STR_CONCAT} then map_option (\<lambda>n. (n, 1)) (operand_count os 0)
      else if op = MAKE_MAP then map_option (\<lambda>n. (2 * n, 1)) (operand_count os 0)
      else if op = BUILTIN then map_option (\<lambda>n. (n, 1)) (operand_count os 1)
      else None)"

definition jump_slot :: "opcode \<Rightarrow> nat option" where
  "jump_slot op =
     (if op \<in> {JUMP, JUMP_IF_TRUE, JUMP_IF_FALSE, JUMP_IF_TRUE_KEEP, JUMP_IF_FALSE_KEEP} then Some 0
      else if op \<in> {FOR_LIST_NEXT, FOR_RANGE_NEXT} then Some 1
      else if op = FOR_MAP_NEXT then Some 2 else None)"

definition falls :: "opcode \<Rightarrow> bool" where
  "falls op \<longleftrightarrow> op \<notin> {JUMP, RETURN, RAISE}"

definition literal_slots :: "opcode \<Rightarrow> nat list" where
  "literal_slots op = (if op = PUSH_LIT then [0] else if op = TRY_PUSH then [1] else [])"

definition local_slots :: "opcode \<Rightarrow> nat list" where
  "local_slots op =
     (if op \<in> {PUSH_LOCAL, POP_LOCAL, FOR_LIST_INIT, FOR_RANGE_INIT, FOR_LIST_NEXT, FOR_RANGE_NEXT} then [0]
      else if op = FOR_MAP_NEXT then [0, 1] else [])"

definition index_below :: "woo_value \<Rightarrow> nat \<Rightarrow> bool" where
  "index_below v n = (case v of WNum (Finite i) \<Rightarrow> 0 \<le> i \<and> i < int n | _ \<Rightarrow> False)"

text \<open>The jump by \<open>v\<close> from \<open>i\<close> stays in the code (its end included) and enters depth \<open>d\<close>.\<close>

definition lands :: "nat \<Rightarrow> (nat \<Rightarrow> nat) \<Rightarrow> nat \<Rightarrow> woo_value \<Rightarrow> nat \<Rightarrow> bool" where
  "lands n D i v d = (case v of
      WNum (Finite offset) \<Rightarrow> 0 \<le> int i + offset + 1 \<and> int i + offset + 1 \<le> int n \<and> D (nat (int i + offset + 1)) = d
    | _ \<Rightarrow> False)"

definition op_ok :: "nat \<Rightarrow> nat \<Rightarrow> nat \<Rightarrow> (nat \<Rightarrow> nat) \<Rightarrow> nat \<Rightarrow> tiny_op \<Rightarrow> bool" where
  "op_ok n literals locals D i instr = (case instr of (name, os) \<Rightarrow> let op = decode_op name in
     (case op_arity op os of
        None \<Rightarrow> False
      | Some (p, q) \<Rightarrow> p \<le> D i \<and> (falls op \<longrightarrow> D (Suc i) = D i - p + q)
          \<and> (case jump_slot op of None \<Rightarrow> True | Some k \<Rightarrow> lands n D i (operand os k) (D i - p + q)))
     \<and> (op = TRY_PUSH \<longrightarrow> lands n D i (operand os 0) (Suc (D i)))
     \<and> list_all (\<lambda>k. index_below (operand os k) literals) (literal_slots op)
     \<and> list_all (\<lambda>k. index_below (operand os k) locals) (local_slots op))"

definition code_typed :: "(nat \<Rightarrow> nat) \<Rightarrow> tiny_bytecode \<Rightarrow> bool" where
  "code_typed D b \<longleftrightarrow> D 0 = 0 \<and> (\<forall>i < length (bc_ops b).
     op_ok (length (bc_ops b)) (length (bc_literals b)) (nat (bc_num_locals b)) D i (bc_ops b ! i))"

lemma decode_names [simp]:
  "decode_op ''PUSH_LIT'' = PUSH_LIT" "decode_op ''PUSH_INT'' = PUSH_INT" "decode_op ''PUSH_LOCAL'' = PUSH_LOCAL"
  "decode_op ''POP_LOCAL'' = POP_LOCAL" "decode_op ''POP'' = POP" "decode_op ''MUL'' = MUL" "decode_op ''NEG'' = NEG"
  "decode_op ''NOT'' = LNOT" "decode_op ''JUMP'' = JUMP" "decode_op ''JUMP_IF_FALSE'' = JUMP_IF_FALSE"
  "decode_op ''JUMP_IF_TRUE_KEEP'' = JUMP_IF_TRUE_KEEP" "decode_op ''JUMP_IF_FALSE_KEEP'' = JUMP_IF_FALSE_KEEP"
  "decode_op ''FOR_LIST_INIT'' = FOR_LIST_INIT" "decode_op ''FOR_LIST_NEXT'' = FOR_LIST_NEXT"
  "decode_op ''FOR_RANGE_INIT'' = FOR_RANGE_INIT" "decode_op ''FOR_RANGE_NEXT'' = FOR_RANGE_NEXT"
  "decode_op ''FOR_MAP_INIT'' = FOR_MAP_INIT" "decode_op ''FOR_MAP_NEXT'' = FOR_MAP_NEXT" "decode_op ''FOR_END'' = FOR_END"
  "decode_op ''GET_PROP'' = GET_PROP" "decode_op ''SET_PROP'' = SET_PROP" "decode_op ''CALL_VERB'' = CALL_VERB"
  "decode_op ''PASS'' = PASS" "decode_op ''RETURN'' = RETURN" "decode_op ''RAISE'' = RAISE" "decode_op ''BUILTIN'' = BUILTIN"
  "decode_op ''INDEX_GET'' = INDEX_GET" "decode_op ''INDEX_SET'' = INDEX_SET" "decode_op ''MAKE_MAP'' = MAKE_MAP"
  "decode_op ''MAKE_LIST'' = MAKE_LIST" "decode_op ''STR_INTERP'' = STR_CONCAT" "decode_op ''OBSERVE'' = OBSERVE"
  "decode_op ''EMIT'' = EMIT" "decode_op ''TRY_PUSH'' = TRY_PUSH" "decode_op ''TRY_POP'' = TRY_POP"
  by code_simp+

lemma lands_agree: "lands n D i v d \<Longrightarrow> n \<le> n' \<Longrightarrow> (\<And>k. k \<le> n \<Longrightarrow> D' k = D k) \<Longrightarrow> lands n' D' i v d"
  by (auto simp: lands_def split: woo_value.splits number.splits)

lemma index_below_mono: "index_below v n \<Longrightarrow> n \<le> n' \<Longrightarrow> index_below v n'"
  by (auto simp: index_below_def split: woo_value.splits number.splits)

lemma index_below_nat [simp]: "index_below (WInt (int i)) n \<longleftrightarrow> i < n"
  by (simp add: index_below_def)

lemma op_ok_agree:
  assumes "op_ok n L N D i instr" "i < n" "n \<le> n'" "L \<le> L'" "N \<le> N'" "\<And>k. k \<le> n \<Longrightarrow> D' k = D k"
  shows "op_ok n' L' N' D' i instr"
proof -
  obtain name os where [simp]: "instr = (name, os)" by (cases instr)
  have D: "D' i = D i" "D' (Suc i) = D (Suc i)" using assms(2,6) by auto
  have l: "lands n D i v d \<Longrightarrow> lands n' D' i v d" for v d using lands_agree assms(3,6) by blast
  show ?thesis
    using assms(1) index_below_mono [OF _ assms(4)] index_below_mono [OF _ assms(5)] l
    by (auto simp: op_ok_def Let_def D list_all_iff split: option.splits)
qed

section \<open>The invariant of the generator\<close>

definition gen_ok :: "(nat \<Rightarrow> nat) \<Rightarrow> nat set \<Rightarrow> codegen \<Rightarrow> bool" where
  "gen_ok D pending s \<longleftrightarrow> D 0 = 0 \<and> (\<forall>l \<in> snd ` set (cg_locals s). l < cg_localCount s)
     \<and> (\<forall>i < length (cg_ops s). i \<notin> pending \<longrightarrow>
          op_ok (length (cg_ops s)) (length (cg_literals s)) (cg_localCount s) D i (cg_ops s ! i))"

definition loop_items :: "gen_loop \<Rightarrow> nat set" where
  "loop_items loop = set (lp_breaks loop) \<union> set (lp_continues loop)"

definition pend :: "codegen \<Rightarrow> nat set" where
  "pend s = \<Union> (loop_items ` set (cg_loops s))"

text \<open>The code made so far stays, with its depths.\<close>

definition extends :: "(nat \<Rightarrow> nat) \<Rightarrow> codegen \<Rightarrow> (nat \<Rightarrow> nat) \<Rightarrow> codegen \<Rightarrow> bool" where
  "extends D s D' s' \<longleftrightarrow> length (cg_ops s) \<le> length (cg_ops s') \<and> (\<forall>i < length (cg_ops s). cg_ops s' ! i = cg_ops s ! i)
     \<and> (\<forall>i \<le> length (cg_ops s). D' i = D i) \<and> length (cg_literals s) \<le> length (cg_literals s')
     \<and> cg_localCount s \<le> cg_localCount s'
     \<and> tl (cg_loops s') = tl (cg_loops s) \<and> (cg_loops s' = [] \<longleftrightarrow> cg_loops s = []) \<and> pend s' \<subseteq> pend s \<union> {length (cg_ops s)..}
     \<and> (cg_loops s \<noteq> [] \<longrightarrow> loop_items (hd (cg_loops s')) \<subseteq> loop_items (hd (cg_loops s)) \<union> {length (cg_ops s)..})"

lemma extends_refl [simp]: "extends D s D s"
  by (simp add: extends_def)

lemma extends_trans: "extends D s D1 s1 \<Longrightarrow> extends D1 s1 D2 s2 \<Longrightarrow> extends D s D2 s2"
  unfolding extends_def by auto

text \<open>A generator that turns \<open>j\<close> values on the stack into \<open>k\<close>, whatever jumps are pending, once the locals \<open>L\<close> exist.\<close>

definition shifts :: "nat set \<Rightarrow> nat \<Rightarrow> nat \<Rightarrow> 'a gen \<Rightarrow> bool" where
  "shifts L j k m \<longleftrightarrow> (\<forall>D P s a s'. gen_ok D P s \<longrightarrow> (\<forall>l \<in> L. l < cg_localCount s) \<longrightarrow> j \<le> D (length (cg_ops s)) \<longrightarrow>
     m s = Inr (a, s') \<longrightarrow> (\<exists>D'. extends D s D' s' \<and> gen_ok D' P s' \<and> cg_loops s' = cg_loops s
        \<and> D' (length (cg_ops s')) = D (length (cg_ops s)) - j + k))"

named_theorems gen_rules "stack depth of generated code"

lemma shiftsE:
  assumes "shifts L j k m" "gen_ok D P s" "j \<le> D (length (cg_ops s))" "m s = Inr (a, s')" "\<forall>l \<in> L. l < cg_localCount s"
  obtains D' where "extends D s D' s'" "gen_ok D' P s'" "cg_loops s' = cg_loops s"
    "D' (length (cg_ops s')) = D (length (cg_ops s)) - j + k"
  using assms unfolding shifts_def by blast

lemma extends_locals: "extends D s D' s' \<Longrightarrow> \<forall>l \<in> L. l < cg_localCount s \<Longrightarrow> \<forall>l \<in> L. l < cg_localCount s'"
  by (auto simp: extends_def)

lemma shifts_seq:
  assumes m: "shifts L a b m" and k: "\<And>x. shifts L b c (k x)"
  shows "shifts L a c (gen_seq m k)"
  unfolding shifts_def
proof (intro allI impI)
  fix D P s y s'
  assume ok: "gen_ok D P s" and L: "\<forall>l \<in> L. l < cg_localCount s" and d: "a \<le> D (length (cg_ops s))"
    and run: "gen_seq m k s = Inr (y, s')"
  then obtain x s1 where s1: "m s = Inr (x, s1)" "k x s1 = Inr (y, s')"
    by (auto simp: gen_seq_def split: sum.splits)
  from shiftsE [OF m ok d s1(1) L] obtain D1 where D1: "extends D s D1 s1" "gen_ok D1 P s1" "cg_loops s1 = cg_loops s"
      "D1 (length (cg_ops s1)) = D (length (cg_ops s)) - a + b" .
  have "b \<le> D1 (length (cg_ops s1))" using D1 by simp
  from shiftsE [OF k D1(2) this s1(2) extends_locals [OF D1(1) L]] obtain D2 where "extends D1 s1 D2 s'" "gen_ok D2 P s'"
      "cg_loops s' = cg_loops s1" "D2 (length (cg_ops s')) = D1 (length (cg_ops s1)) - b + c" .
  then show "\<exists>D'. extends D s D' s' \<and> gen_ok D' P s' \<and> cg_loops s' = cg_loops s \<and> D' (length (cg_ops s')) = D (length (cg_ops s)) - a + c"
    using D1 extends_trans by (intro exI [of _ D2]) auto
qed

lemma shifts_then: "shifts L a b m \<Longrightarrow> shifts L b c n \<Longrightarrow> shifts L a c (gen_then m n)"
  by (simp add: gen_then_def shifts_seq)

text \<open>What lies below is untouched.\<close>

lemma shifts_frame:
  assumes "shifts L j k m" "j \<le> j'" "j' + k = j + k'"
  shows "shifts L j' k' m"
  unfolding shifts_def
proof (intro allI impI)
  fix D P s a s'
  assume *: "gen_ok D P s" "j' \<le> D (length (cg_ops s))" "m s = Inr (a, s')" "\<forall>l \<in> L. l < cg_localCount s"
  have "j \<le> D (length (cg_ops s))" using *(2) assms(2) by simp
  from shiftsE [OF assms(1) *(1) this *(3,4)] obtain D' where D': "extends D s D' s'" "gen_ok D' P s'" "cg_loops s' = cg_loops s"
      "D' (length (cg_ops s')) = D (length (cg_ops s)) - j + k" .
  moreover have "D (length (cg_ops s)) - j + k = D (length (cg_ops s)) - j' + k'" using *(2) assms(2,3) by linarith
  ultimately show "\<exists>D'. extends D s D' s' \<and> gen_ok D' P s' \<and> cg_loops s' = cg_loops s
      \<and> D' (length (cg_ops s')) = D (length (cg_ops s)) - j' + k'" by auto
qed

lemma shifts_id: "shifts L k k (gen_give a)" "shifts L k k (gen_read g)"
  unfolding shifts_def gen_give_def gen_read_def by (metis Inr_inject Pair_inject extends_refl le_add_diff_inverse2)+

lemma shifts_fail: "shifts L j k (gen_fail message sp)" "shifts L j k (unknown_identifier name sp)"
  by (auto simp: shifts_def gen_fail_def unknown_identifier_def)

lemma shifts_mono: "shifts L j k m \<Longrightarrow> L \<subseteq> L' \<Longrightarrow> shifts L' j k m"
  unfolding shifts_def by blast

section \<open>Emission\<close>

lemma emit_ok:
  assumes ok: "gen_ok D P s" and e: "emit name os s = Inr (n, s')"
    and op: "n \<notin> P \<Longrightarrow> op_ok (Suc n) (length (cg_literals s)) (cg_localCount s) (D(Suc n := d)) n (name, os)"
  shows "n = length (cg_ops s)" "extends D s (D(Suc n := d)) s'" "gen_ok (D(Suc n := d)) P s'" "cg_loops s' = cg_loops s"
    "cg_ops s' = cg_ops s @ [(name, os)]" "cg_localCount s' = cg_localCount s" "cg_literals s' = cg_literals s"
proof -
  show n: "n = length (cg_ops s)" and l: "cg_loops s' = cg_loops s" and ops: "cg_ops s' = cg_ops s @ [(name, os)]"
    and c: "cg_localCount s' = cg_localCount s" "cg_literals s' = cg_literals s"
    using e by (auto simp: emit_def Let_def)
  show "extends D s (D(Suc n := d)) s'" using n l ops c by (auto simp: extends_def nth_append pend_def)
  have "cg_locals s' = cg_locals s" using e by (auto simp: emit_def Let_def)
  moreover have "op_ok (length (cg_ops s')) (length (cg_literals s')) (cg_localCount s') (D(Suc n := d)) i (cg_ops s' ! i)"
    if "i < length (cg_ops s')" "i \<notin> P" for i
  proof (cases "i = n")
    case True
    then show ?thesis using op that n ops c by simp
  next
    case False
    then have i: "i < length (cg_ops s)" using that ops n by simp
    then have "op_ok (length (cg_ops s)) (length (cg_literals s)) (cg_localCount s) D i (cg_ops s ! i)"
      using ok that(2) by (simp add: gen_ok_def)
    then have "op_ok (length (cg_ops s')) (length (cg_literals s)) (cg_localCount s) (D(Suc n := d)) i (cg_ops s ! i)"
      using i ops n by (elim op_ok_agree) auto
    then show ?thesis using i ops c by (simp add: nth_append)
  qed
  ultimately show "gen_ok (D(Suc n := d)) P s'" using ok by (auto simp: gen_ok_def c)
qed

text \<open>An opcode without a jump, at known indices.\<close>

lemma emit_op_at:
  assumes ok: "gen_ok D P s" and e: "emit_op name os s = Inr (a, s')"
    and op: "op_arity (decode_op name) os = Some (j, k)" "j \<le> D (length (cg_ops s))" "jump_slot (decode_op name) = None"
      "decode_op name \<noteq> TRY_PUSH" "list_all (\<lambda>k. index_below (operand os k) (length (cg_literals s))) (literal_slots (decode_op name))"
      "list_all (\<lambda>k. index_below (operand os k) (cg_localCount s)) (local_slots (decode_op name))"
  shows "\<exists>D'. extends D s D' s' \<and> gen_ok D' P s' \<and> cg_loops s' = cg_loops s \<and> D' (length (cg_ops s')) = D (length (cg_ops s)) - j + k"
proof -
  obtain n where e': "emit name os s = Inr (n, s')"
    using e by (auto simp: emit_op_def gen_then_def gen_seq_def gen_give_def split: sum.splits)
  let ?d = "D (length (cg_ops s)) - j + k"
  have n: "n = length (cg_ops s)" using e' by (auto simp: emit_def Let_def)
  have "op_ok (Suc n) (length (cg_literals s)) (cg_localCount s) (D(Suc n := ?d)) n (name, os)"
    using op n by (simp add: op_ok_def Let_def)
  note step = emit_ok [OF ok e' this]
  show ?thesis using step by (intro exI [of _ "D(Suc n := ?d)"]) auto
qed

lemma shifts_emit:
  assumes "op_arity (decode_op name) os = Some (j, k)" "jump_slot (decode_op name) = None" "decode_op name \<noteq> TRY_PUSH"
    "literal_slots (decode_op name) = []" "local_slots (decode_op name) = []"
  shows "shifts L j k (emit_op name os)"
  unfolding shifts_def using emit_op_at [of _ _ _ name os _ _ j k] assms by auto

lemma shifts_emit_local:
  assumes "l \<in> L" "op_arity (decode_op name) [WInt (int l)] = Some (j, k)" "jump_slot (decode_op name) = None"
    "decode_op name \<noteq> TRY_PUSH" "literal_slots (decode_op name) = []" "local_slots (decode_op name) = [0]"
  shows "shifts L j k (emit_local name l)"
  unfolding shifts_def emit_local_def using emit_op_at [of _ _ _ name "[WInt (int l)]" _ _ j k] assms by (auto simp: operand_def)

lemma index_where_less: "index_where p xs = Some i \<Longrightarrow> i < length xs"
  by (induction xs arbitrary: i) (auto split: if_splits)

lemma gen_ok_literals:
  "gen_ok D P s \<Longrightarrow> gen_ok D P (s\<lparr>cg_literals := cg_literals s @ [v]\<rparr>)"
  unfolding gen_ok_def by (auto intro: op_ok_agree)

lemma literal_index_ok:
  assumes "gen_ok D P s" "literal_index v s = Inr (i, s')"
  shows "gen_ok D P s'" "extends D s D s'" "i < length (cg_literals s')" "cg_ops s' = cg_ops s" "cg_loops s' = cg_loops s"
    "cg_localCount s' = cg_localCount s"
  using assms index_where_less gen_ok_literals [OF assms(1)]
  by (auto simp: literal_index_def extends_def pend_def split: option.splits)

lemma shifts_push_literal: "shifts L 0 1 (push_literal v)"
  unfolding shifts_def
proof (intro allI impI)
  fix D P s a s'
  assume ok: "gen_ok D P s" and run: "push_literal v s = Inr (a, s')"
  then obtain i s1 where s1: "literal_index v s = Inr (i, s1)" "emit_op ''PUSH_LIT'' [WInt (int i)] s1 = Inr (a, s')"
    by (auto simp: push_literal_def gen_seq_def split: sum.splits)
  note l = literal_index_ok [OF ok s1(1)]
  have "\<exists>D'. extends D s1 D' s' \<and> gen_ok D' P s' \<and> cg_loops s' = cg_loops s1 \<and> D' (length (cg_ops s')) = D (length (cg_ops s1)) - 0 + 1"
    by (rule emit_op_at [OF l(1) s1(2)]) (use l(3) in \<open>simp_all add: op_arity_def jump_slot_def literal_slots_def local_slots_def operand_def\<close>)
  then show "\<exists>D'. extends D s D' s' \<and> gen_ok D' P s' \<and> cg_loops s' = cg_loops s \<and> D' (length (cg_ops s')) = D (length (cg_ops s)) - 0 + 1"
    using l extends_trans by metis
qed

text \<open>Locals.\<close>

lemma gen_ok_declare:
  assumes "gen_ok D P s"
  shows "gen_ok D P (s\<lparr>cg_localCount := cg_localCount s + 1, cg_locals := jm_set name (cg_localCount s) (cg_locals s)\<rparr>)"
proof -
  have "snd ` set (jm_set name n m) \<subseteq> insert n (snd ` set m)" for n :: nat and m
    by (induction m) auto
  then show ?thesis using assms unfolding gen_ok_def by (fastforce intro: op_ok_agree)
qed

lemma declareLocal_ok:
  assumes "gen_ok D P s" "declareLocal name sp s = Inr (l, s')"
  shows "gen_ok D P s'" "extends D s D s'" "l < cg_localCount s'" "cg_ops s' = cg_ops s" "cg_loops s' = cg_loops s"
  using assms gen_ok_declare [OF assms(1)]
  by (auto simp: declareLocal_def gen_fail_def extends_def pend_def split: if_splits)

lemma existing_local_less: "gen_ok D P s \<Longrightarrow> jm_get (cg_locals s) name = Some l \<Longrightarrow> l < cg_localCount s"
  unfolding gen_ok_def by (metis image_eqI map_of_SomeD snd_conv)

lemma ensureLoopLocal_ok:
  assumes "gen_ok D P s" "ensureLoopLocal name sp s = Inr (l, s')"
  shows "gen_ok D P s'" "extends D s D s'" "l < cg_localCount s'" "cg_ops s' = cg_ops s" "cg_loops s' = cg_loops s"
  using assms existing_local_less [OF assms(1)] declareLocal_ok [OF assms(1)]
  by (auto simp: ensureLoopLocal_def split: option.splits)

lemma requireLocal_ok:
  assumes "gen_ok D P s" "requireLocal name sp s = Inr (l, s')"
  shows "s' = s" "l < cg_localCount s"
  using assms existing_local_less [OF assms(1)] by (auto simp: requireLocal_def gen_fail_def split: option.splits)

lemma shifts_bind_local:
  assumes m: "\<And>D P s l s'. gen_ok D P s \<Longrightarrow> m s = Inr (l, s') \<Longrightarrow> gen_ok D P s' \<and> extends D s D s' \<and> l < cg_localCount s'
      \<and> cg_ops s' = cg_ops s \<and> cg_loops s' = cg_loops s"
    and k: "\<And>l. shifts (insert l L) a b (k l)"
  shows "shifts L a b (gen_seq m k)"
  unfolding shifts_def
proof (intro allI impI)
  fix D P s y s'
  assume ok: "gen_ok D P s" and L: "\<forall>l \<in> L. l < cg_localCount s" and d: "a \<le> D (length (cg_ops s))"
    and run: "gen_seq m k s = Inr (y, s')"
  then obtain l s1 where s1: "m s = Inr (l, s1)" "k l s1 = Inr (y, s')" by (auto simp: gen_seq_def split: sum.splits)
  note l = m [OF ok s1(1)]
  have "\<forall>l' \<in> insert l L. l' < cg_localCount s1" "a \<le> D (length (cg_ops s1))" using l L d extends_locals by auto
  from shiftsE [OF k conjunct1 [OF l] this(2) s1(2) this(1)] show "\<exists>D'. extends D s D' s' \<and> gen_ok D' P s' \<and> cg_loops s' = cg_loops s
      \<and> D' (length (cg_ops s')) = D (length (cg_ops s)) - a + b"
    using l extends_trans by metis
qed

lemma shifts_declareLocal: "(\<And>l. shifts (insert l L) a b (k l)) \<Longrightarrow> shifts L a b (gen_seq (declareLocal name sp) k)"
  by (rule shifts_bind_local) (metis declareLocal_ok)

lemma shifts_requireLocal: "(\<And>l. shifts (insert l L) a b (k l)) \<Longrightarrow> shifts L a b (gen_seq (requireLocal name sp) k)"
  by (rule shifts_bind_local) (metis requireLocal_ok extends_refl)

lemma shifts_withSpan: "shifts L j k m \<Longrightarrow> shifts L j k (withSpan sp m)"
  unfolding shifts_def
proof (intro allI impI)
  fix D P s a s'
  assume m: "\<forall>D P s a s'. gen_ok D P s \<longrightarrow> (\<forall>l \<in> L. l < cg_localCount s) \<longrightarrow> j \<le> D (length (cg_ops s)) \<longrightarrow>
       m s = Inr (a, s') \<longrightarrow> (\<exists>D'. extends D s D' s' \<and> gen_ok D' P s' \<and> cg_loops s' = cg_loops s
          \<and> D' (length (cg_ops s')) = D (length (cg_ops s)) - j + k)"
    and ok: "gen_ok D P s" "\<forall>l \<in> L. l < cg_localCount s" "j \<le> D (length (cg_ops s))" and run: "withSpan sp m s = Inr (a, s')"
  obtain s1 where s1: "m (s\<lparr>cg_activeSpan := Some sp\<rparr>) = Inr (a, s1)" "s' = s1\<lparr>cg_activeSpan := cg_activeSpan s\<rparr>"
    using run by (auto simp: withSpan_def split: sum.splits)
  have "gen_ok D P (s\<lparr>cg_activeSpan := Some sp\<rparr>)" using ok(1) by (simp add: gen_ok_def)
  then have "\<exists>D'. extends D (s\<lparr>cg_activeSpan := Some sp\<rparr>) D' s1 \<and> gen_ok D' P s1 \<and> cg_loops s1 = cg_loops s
      \<and> D' (length (cg_ops s1)) = D (length (cg_ops s)) - j + k"
    using m [rule_format, OF _ _ _ s1(1)] ok by simp
  then show "\<exists>D'. extends D s D' s' \<and> gen_ok D' P s' \<and> cg_loops s' = cg_loops s \<and> D' (length (cg_ops s')) = D (length (cg_ops s)) - j + k"
    using s1(2) by (simp add: extends_def gen_ok_def pend_def)
qed

end
