(* ===== verification/Codegen_Typed.thy ===== *)
theory Codegen_Typed
  imports Code_Types
begin

text \<open>
  Every program the code generator accepts is typed code: expressions leave one value on the stack they find,
  statements leave it as it was, and the jumps of loops and handlers arrive at the depth their targets have.
\<close>

section \<open>Expressions\<close>

definition plain :: "opcode \<Rightarrow> bool" where
  "plain op \<longleftrightarrow> jump_slot op = None \<and> op \<noteq> TRY_PUSH \<and> literal_slots op = [] \<and> local_slots op = []"

lemmas op_tables = op_arity_def plain_def jump_slot_def literal_slots_def local_slots_def falls_def operand_count_def operand_def

lemma shifts_plain:
  assumes "op_arity (decode_op name) os = Some (j, k)" "plain (decode_op name)"
  shows "shifts L (j + d) (k + d) (emit_op name os)"
  by (rule shifts_frame [OF shifts_emit]) (use assms in \<open>auto simp: plain_def\<close>)

lemma emit_arity [gen_rules]:
  "op_arity (decode_op name) os = Some (0, 1) \<Longrightarrow> plain (decode_op name) \<Longrightarrow> shifts L d (Suc d) (emit_op name os)"
  "op_arity (decode_op name) os = Some (0, 0) \<Longrightarrow> plain (decode_op name) \<Longrightarrow> shifts L d d (emit_op name os)"
  "op_arity (decode_op name) os = Some (1, 0) \<Longrightarrow> plain (decode_op name) \<Longrightarrow> shifts L (Suc d) d (emit_op name os)"
  "op_arity (decode_op name) os = Some (1, 1) \<Longrightarrow> plain (decode_op name) \<Longrightarrow> shifts L (Suc d) (Suc d) (emit_op name os)"
  "op_arity (decode_op name) os = Some (1, 2) \<Longrightarrow> plain (decode_op name) \<Longrightarrow> shifts L (Suc d) (Suc (Suc d)) (emit_op name os)"
  "op_arity (decode_op name) os = Some (2, 0) \<Longrightarrow> plain (decode_op name) \<Longrightarrow> shifts L (Suc (Suc d)) d (emit_op name os)"
  "op_arity (decode_op name) os = Some (2, 1) \<Longrightarrow> plain (decode_op name) \<Longrightarrow> shifts L (Suc (Suc d)) (Suc d) (emit_op name os)"
  "op_arity (decode_op name) os = Some (3, 0) \<Longrightarrow> plain (decode_op name) \<Longrightarrow> shifts L (Suc (Suc (Suc d))) d (emit_op name os)"
  "op_arity (decode_op name) os = Some (3, 1) \<Longrightarrow> plain (decode_op name) \<Longrightarrow> shifts L (Suc (Suc (Suc d))) (Suc d) (emit_op name os)"
  using shifts_plain [of name os 0 1 L d] shifts_plain [of name os 0 0 L d] shifts_plain [of name os 1 0 L d]
    shifts_plain [of name os 1 1 L d] shifts_plain [of name os 1 2 L d] shifts_plain [of name os 2 0 L d]
    shifts_plain [of name os 2 1 L d] shifts_plain [of name os 3 0 L d] shifts_plain [of name os 3 1 L d]
  by (simp_all add: numeral_2_eq_2 numeral_3_eq_3)

text \<open>Code that leaves one more value.\<close>

definition value_code :: "unit gen \<Rightarrow> bool" where
  "value_code m \<longleftrightarrow> shifts {} 0 (Suc 0) m"

lemma shifts_value: "value_code m \<Longrightarrow> shifts L d (Suc d) m"
  unfolding value_code_def by (rule shifts_mono [OF shifts_frame, of "{}" 0 "Suc 0"]) auto

lemma shifts_values: "list_all value_code ms \<Longrightarrow> shifts L d (length ms + d) (gen_all ms)"
proof (induction ms arbitrary: d)
  case (Cons m ms)
  have "shifts L (Suc d) (length ms + Suc d) (gen_all ms)" by (rule Cons.IH) (use Cons.prems in simp)
  then show ?case using Cons.prems shifts_then [OF shifts_value [of m L d]] by simp
qed (simp add: shifts_id)

lemma value_literal: "value_code (push_literal v)"
  using shifts_push_literal [of "{}" v] by (simp add: value_code_def)

lemma shifts_literal: "shifts L d (Suc d) (push_literal v)"
  by (rule shifts_value [OF value_literal])

text \<open>A list of values folded into one by an opcode that counts them.\<close>

lemma shifts_folded:
  assumes "list_all value_code ms" "op_arity (decode_op name) os = Some (length ms + e, 1)" "plain (decode_op name)"
  shows "shifts L (e + d) (Suc d) (gen_then (gen_all ms) (emit_op name os))"
proof (rule shifts_then)
  show "shifts L (e + d) (length ms + (e + d)) (gen_all ms)" by (rule shifts_values [OF assms(1)])
  show "shifts L (length ms + (e + d)) (Suc d) (emit_op name os)"
    using shifts_plain [OF assms(2,3), of L d] by (simp add: add.assoc)
qed

lemmas value_folded = shifts_folded [where e = 0 and d = 0, simplified]

lemma map_of_all: "list_all (\<lambda>p. Q (snd p)) m \<Longrightarrow> map_of m k = Some v \<Longrightarrow> Q v"
  by (induction m) (auto split: if_splits)

lemma frame_global_arity: "map_of FRAME_GLOBALS name = Some g \<Longrightarrow> op_arity (decode_op g) [] = Some (0, 1) \<and> plain (decode_op g)"
  by (erule map_of_all [where Q = "\<lambda>g. op_arity (decode_op g) [] = Some (0, 1) \<and> plain (decode_op g)", rotated]) code_simp

lemma binary_op_arity: "map_of BINARY_OPS op = Some g \<Longrightarrow> op_arity (decode_op g) [] = Some (2, 1) \<and> plain (decode_op g)"
  by (erule map_of_all [where Q = "\<lambda>g. op_arity (decode_op g) [] = Some (2, 1) \<and> plain (decode_op g)", rotated]) code_simp

lemma value_compileIdentifier: "value_code (compileIdentifier name sp)"
proof -
  have "shifts {} 0 1 (compileIdentifier name sp)"
    unfolding shifts_def
  proof (intro allI impI)
    fix D P s a s'
    assume ok: "gen_ok D P s" and run: "compileIdentifier name sp s = Inr (a, s')"
    show "\<exists>D'. extends D s D' s' \<and> gen_ok D' P s' \<and> cg_loops s' = cg_loops s \<and> D' (length (cg_ops s')) = D (length (cg_ops s)) - 0 + 1"
    proof (cases "jm_get (cg_locals s) name")
      case (Some l)
      then have "emit_op ''PUSH_LOCAL'' [WInt (int l)] s = Inr (a, s')"
        using run by (simp add: compileIdentifier_def gen_seq_def gen_read_def)
      then show ?thesis
        by (rule emit_op_at [OF ok]) (use existing_local_less [OF ok Some] in \<open>simp_all add: op_tables\<close>)
    next
      case None
      then obtain g where g: "map_of FRAME_GLOBALS name = Some g" "emit_op g [] s = Inr (a, s')"
        using run by (auto simp: compileIdentifier_def gen_seq_def gen_read_def unknown_identifier_def split: option.splits)
      then have "shifts {} 0 1 (emit_op g [])" using frame_global_arity by (intro shifts_emit) (auto simp: plain_def)
      from this ok show ?thesis by (rule shiftsE) (use g(2) in auto)
    qed
  qed
  then show ?thesis by (simp add: value_code_def)
qed

lemma value_compileBinary:
  assumes "value_code l" "value_code r"
  shows "value_code (compileBinary op l r sp)"
proof -
  have "shifts {} (Suc (Suc 0)) (Suc 0) (case map_of BINARY_OPS op of
      None \<Rightarrow> gen_fail (''unsupported operator: '' @ op) sp | Some name \<Rightarrow> emit_op name [])"
    using binary_op_arity emit_arity(7) by (auto simp: shifts_fail split: option.split)
  then show ?thesis unfolding compileBinary_def value_code_def
    by (rule shifts_then [OF shifts_value [OF assms(1)] shifts_then [OF shifts_value [OF assms(2)]]])
qed

text \<open>Compile a part of code, patch the jump over it.\<close>

lemma patch_ok:
  assumes ok: "gen_ok D (insert j P) s" and j: "j < length (cg_ops s)" "cg_ops s ! j = (name, os)"
    and op: "op_ok (length (cg_ops s)) (length (cg_literals s)) (cg_localCount s) D j (name, os[k := WInt (int t - int j - 1)])"
  shows "gen_ok D P (patch_operand k j t s)"
proof -
  have "op_ok (length (cg_ops s)) (length (cg_literals s)) (cg_localCount s) D i (cg_ops (patch_operand k j t s) ! i)"
    if "i < length (cg_ops s)" "i \<notin> P" for i
    using that ok op j by (cases "i = j") (auto simp: patch_operand_def gen_ok_def)
  then show ?thesis using ok by (auto simp: gen_ok_def patch_operand_def)
qed

lemma patch_extends:
  assumes "extends D s D' s'" "length (cg_ops s) \<le> j"
  shows "extends D s D' (patch_operand k j t s')"
  using assms by (auto simp: extends_def patch_operand_def pend_def)

lemma patch_same [simp]: "cg_loops (patch_operand k j t s) = cg_loops s" "length (cg_ops (patch_operand k j t s)) = length (cg_ops s)"
    "cg_literals (patch_operand k j t s) = cg_literals s" "cg_localCount (patch_operand k j t s) = cg_localCount s"
  by (simp_all add: patch_operand_def)

lemma jump_op_ok:
  assumes "decode_op name \<in> {JUMP, JUMP_IF_FALSE, JUMP_IF_TRUE_KEEP, JUMP_IF_FALSE_KEEP}" "op_arity (decode_op name) os = Some (p, q)"
    "p \<le> D i" "t \<le> n" "D t = D i - p + q" "decode_op name \<noteq> JUMP \<Longrightarrow> D (Suc i) = D i - p + q" "os \<noteq> []"
  shows "op_ok n L N D i (name, os[0 := WInt (int t - int i - 1)])"
proof -
  let ?op = "decode_op name" and ?os = "os[0 := WInt (int t - int i - 1)]"
  have arity: "op_arity ?op ?os = Some (p, q)" using assms(1,2) by (elim insertE emptyE) (simp_all add: op_arity_def)
  have slots: "jump_slot ?op = Some 0" "?op \<noteq> TRY_PUSH" "literal_slots ?op = []" "local_slots ?op = []" "?op \<noteq> JUMP \<longleftrightarrow> falls ?op"
    using assms(1) by (elim insertE emptyE, simp_all add: jump_slot_def literal_slots_def local_slots_def falls_def)+
  have "operand ?os 0 = WInt (int t - int i - 1)" using assms(7) by (simp add: operand_def)
  moreover have "lands n D i (WInt (int t - int i - 1)) (D i - p + q)" using assms(4,5) by (simp add: lands_def)
  ultimately show ?thesis using assms(3,6) slots by (simp add: op_ok_def Let_def arity)
qed

lemma value_compileLogical:
  assumes "value_code l" "value_code r"
  shows "value_code (compileLogical op l r)"
  unfolding value_code_def shifts_def
proof (intro allI impI)
  fix D P s a s'
  let ?name = "if op = ''&&'' then ''JUMP_IF_FALSE_KEEP'' else ''JUMP_IF_TRUE_KEEP''" and ?n = "\<lambda>s. length (cg_ops s)"
  assume ok: "gen_ok D P s" and run: "compileLogical op l r s = Inr (a, s')"
  obtain s1 j s2 s3 where r: "l s = Inr ((), s1)" "emit ?name [WInt 0] s1 = Inr (j, s2)"
      "gen_then (emit_op ''POP'' []) r s2 = Inr ((), s3)" "s' = patch_operand 0 j (?n s3) s3"
    using run by (auto simp: compileLogical_def gen_then_def gen_seq_def emitJump_def patch_here_def here_def gen_read_def
        patchJump_def gen_update_def split: sum.splits)
  from shiftsE [OF shifts_value [OF assms(1), of "{}" 0] ok _ r(1)] obtain D1 where D1: "extends D s D1 s1" "gen_ok D1 P s1"
      "cg_loops s1 = cg_loops s" "D1 (?n s1) = D (?n s) + 1" by auto
  have "gen_ok D1 (insert j P) s1" using D1(2) by (auto simp: gen_ok_def)
  note e = emit_ok [OF this r(2), of "D1 (?n s1)", simplified]
  let ?D2 = "D1(Suc j := D1 (?n s1))"
  have "shifts {} (Suc 0) (Suc 0) (gen_then (emit_op ''POP'' []) r)"
    by (rule shifts_then [OF emit_arity(3) shifts_value [OF assms(2)]]) (simp_all add: op_tables)
  from shiftsE [OF this e(3) _ r(3)] obtain D3 where D3: "extends ?D2 s2 D3 s3" "gen_ok D3 (insert j P) s3" "cg_loops s3 = cg_loops s2"
      "D3 (?n s3) = D1 (?n s1)" using e D1(4) by auto
  have j: "j < ?n s2" "cg_ops s3 ! j = (?name, [WInt 0])" "D3 j = D1 (?n s1)" "D3 (Suc j) = D1 (?n s1)" "?n s \<le> j"
    using e D3(1) D1(1) by (auto simp: extends_def nth_append)
  have "gen_ok D3 P s'" unfolding r(4)
    by (rule patch_ok [OF D3(2) _ j(2)], use j(1) D3(1) in \<open>simp add: extends_def\<close>, rule jump_op_ok [of _ _ 1 1])
      (use j D3(4) D1(4) in \<open>auto simp: op_arity_def\<close>)
  moreover have "extends D s D3 s'" unfolding r(4)
    by (rule patch_extends [OF extends_trans [OF D1(1) extends_trans [OF e(2) D3(1)]] j(5)])
  ultimately show "\<exists>D'. extends D s D' s' \<and> gen_ok D' P s' \<and> cg_loops s' = cg_loops s \<and> D' (?n s') = D (?n s) - 0 + Suc 0"
    using D1 D3 e r(4) by (intro exI [of _ D3]) auto
qed

lemma shifts_observe: "list_all value_code args \<Longrightarrow> shifts L d d (compile_observe args sp)"
proof -
  have e: "shifts L (Suc d) d (emit_op ''OBSERVE'' [])" by (rule emit_arity) (simp_all add: op_tables)
  show "list_all value_code args \<Longrightarrow> shifts L d d (compile_observe args sp)"
    by (auto simp: compile_observe_def shifts_fail intro: shifts_then [OF shifts_value e] split: list.split)
qed

lemma shifts_emit_call: "list_all value_code args \<Longrightarrow> shifts L d d (compile_emit args sp)"
proof -
  have e: "shifts L (Suc (Suc d)) d (emit_op ''EMIT'' [])" by (rule emit_arity) (simp_all add: op_tables)
  show "list_all value_code args \<Longrightarrow> shifts L d d (compile_emit args sp)"
    by (auto simp: compile_emit_def shifts_fail intro: shifts_then [OF shifts_value shifts_then [OF shifts_value e]] split: list.split)
qed

lemma value_fork:
  assumes "list_all value_code args"
  shows "value_code (compile_fork args sp)"
proof -
  have "value_code (gen_then target (gen_then verb (gen_then (gen_all rest)
      (gen_then (emit_op ''MAKE_LIST'' [WInt (int (length rest))]) (gen_then delay
      (gen_then (emit_op ''PUSH_INT'' [WInt 1000]) (gen_then (emit_op ''MUL'' [])
        (emit_op ''BUILTIN'' [WStr ''schedule'', WInt 4]))))))))"
    if v: "value_code target" "value_code verb" "value_code delay" "list_all value_code rest" for target verb delay rest
  proof -
    have l: "shifts {} (length rest + 2) 3 (emit_op ''MAKE_LIST'' [WInt (int (length rest))])"
      using shifts_plain [of "''MAKE_LIST''" "[WInt (int (length rest))]" "length rest" 1 "{}" 2]
      by (simp add: op_tables numeral_3_eq_3)
    have "shifts {} 5 4 (emit_op ''MUL'' [])" "shifts {} 4 5 (emit_op ''PUSH_INT'' [WInt 1000])"
      using shifts_plain [of "''MUL''" "[]" 2 1 "{}" 3] shifts_plain [of "''PUSH_INT''" "[WInt 1000]" 0 1 "{}" 4]
      by (simp_all add: op_tables)
    moreover have "shifts {} 4 1 (emit_op ''BUILTIN'' [WStr ''schedule'', WInt 4])"
      using shifts_plain [of "''BUILTIN''" "[WStr ''schedule'', WInt 4]" 4 1 "{}" 0] by (simp add: op_tables)
    moreover have "shifts {} 3 4 delay" using shifts_value [OF v(3), of "{}" 3] by simp
    ultimately have "shifts {} 3 1 (gen_then delay (gen_then (emit_op ''PUSH_INT'' [WInt 1000]) (gen_then (emit_op ''MUL'' [])
        (emit_op ''BUILTIN'' [WStr ''schedule'', WInt 4]))))" by (blast intro: shifts_then)
    then have "shifts {} 2 1 (gen_then (gen_all rest) (gen_then (emit_op ''MAKE_LIST'' [WInt (int (length rest))])
        (gen_then delay (gen_then (emit_op ''PUSH_INT'' [WInt 1000]) (gen_then (emit_op ''MUL'' [])
        (emit_op ''BUILTIN'' [WStr ''schedule'', WInt 4]))))))"
      by (rule shifts_then [OF shifts_values [OF v(4)] shifts_then [OF l]])
    moreover have "shifts {} 0 1 target" "shifts {} 1 2 verb"
      using shifts_value [OF v(1), of "{}" 0] shifts_value [OF v(2), of "{}" 1] by (simp_all add: numeral_2_eq_2)
    ultimately show ?thesis unfolding value_code_def One_nat_def [symmetric] by (blast intro: shifts_then)
  qed
  then show ?thesis using assms by (auto simp: compile_fork_def value_code_def shifts_fail split: list.split)
qed

lemma value_then: "shifts {} 0 0 m \<Longrightarrow> value_code n \<Longrightarrow> value_code (gen_then m n)"
  unfolding value_code_def by (rule shifts_then)

lemma value_fail: "value_code (gen_fail message sp)"
  by (simp add: value_code_def shifts_fail)

lemma value_compileCall:
  assumes "list_all value_code args"
  shows "value_code (compileCall callee args sp)"
proof -
  have folded: "value_code (gen_then (gen_all args) (emit_op op os))"
    if "op_arity (decode_op op) os = Some (length args, 1)" "plain (decode_op op)" for op os
    unfolding value_code_def by (rule value_folded) (use assms that in simp_all)
  have "value_code (gen_then (gen_all args) (emit_op ''PASS'' [WInt (int (length args))]))"
    "value_code (gen_then (gen_all args) (emit_op ''BUILTIN'' [WStr name, WInt (int (length args))]))" for name
    by (rule folded; simp add: op_tables)+
  then show ?thesis
    using value_fail value_fork [OF assms] value_then [OF shifts_observe [OF assms] value_literal]
      value_then [OF shifts_emit_call [OF assms] value_literal]
    by (auto simp: compileCall_def split: expr.split)
qed

lemma value_interpolation:
  assumes "list_all value_code (map interp_part parts)"
  shows "value_code (compileInterpolation parts)"
  unfolding compileInterpolation_def value_code_def by (rule value_folded) (use assms in \<open>simp_all add: op_tables\<close>)

lemma value_withSpan: "value_code m \<Longrightarrow> value_code (withSpan sp m)"
  unfolding value_code_def by (rule shifts_withSpan)

lemma shifts_record_call: "shifts L d d (record_call name obj)"
  by (auto simp: shifts_def record_call_def gen_update_def extends_def pend_def gen_ok_def)

lemma value_chain:
  assumes "value_code a" "value_code b" "op_arity (decode_op name) [] = Some (2, 1)" "plain (decode_op name)"
  shows "value_code (gen_then a (gen_then b (emit_op name [])))"
  unfolding value_code_def
  by (rule shifts_then [OF shifts_value [OF assms(1)] shifts_then [OF shifts_value [OF assms(2)] emit_arity(7) [OF assms(3,4)]]])

lemma value_interp_part: "(\<And>m. part = Inr m \<Longrightarrow> value_code m) \<Longrightarrow> value_code (interp_part part)"
proof -
  have "shifts {} (Suc 0) (Suc 0) (emit_op ''BUILTIN'' [WStr ''to_string'', WInt 1])"
    by (rule emit_arity(4)) (simp_all add: op_tables)
  then show "(\<And>m. part = Inr m \<Longrightarrow> value_code m) \<Longrightarrow> value_code (interp_part part)"
    unfolding interp_part_def value_code_def using shifts_push_literal [of "{}"] shifts_then by (auto split: sum.split)
qed

lemma value_map_entries:
  "list_all (\<lambda>entry. value_code (snd entry)) entries \<Longrightarrow> shifts {} d (2 * length entries + d) (gen_all (map map_entry entries))"
proof (induction entries arbitrary: d)
  case (Cons entry entries)
  have "shifts {} d (Suc (Suc d)) (map_entry entry)"
    unfolding map_entry_def by (rule shifts_then [OF shifts_literal shifts_value]) (use Cons.prems in simp)
  moreover have "shifts {} (Suc (Suc d)) (2 * length entries + Suc (Suc d)) (gen_all (map map_entry entries))"
    by (rule Cons.IH) (use Cons.prems in simp)
  ultimately have "shifts {} d (2 * length entries + Suc (Suc d)) (gen_then (map_entry entry) (gen_all (map map_entry entries)))"
    by (rule shifts_then)
  then show ?case by simp
qed (simp add: shifts_id)

lemma value_make_map:
  assumes "list_all (\<lambda>entry. value_code (snd entry)) entries"
  shows "value_code (gen_then (gen_all (map map_entry entries)) (emit_op ''MAKE_MAP'' [WInt (int (length entries))]))"
proof -
  have "shifts {} (2 * length entries) (Suc 0) (emit_op ''MAKE_MAP'' [WInt (int (length entries))])"
    using shifts_plain [of "''MAKE_MAP''" "[WInt (int (length entries))]" "2 * length entries" 1 "{}" 0] by (simp add: op_tables)
  then show ?thesis
    unfolding value_code_def using shifts_then [OF value_map_entries [OF assms, of 0]] by simp
qed

text \<open>Every expression leaves one value.\<close>

lemma compileExpr_value: "value_code (compileExpr e)"
proof (induction e)
  case (ListExpr items sp)
  have "list_all value_code (map compileExpr items)" using ListExpr by (auto simp: list_all_iff)
  then have "shifts {} 0 (Suc 0) (gen_then (gen_all (map compileExpr items)) (emit_op ''MAKE_LIST'' [WInt (int (length items))]))"
    by (rule value_folded) (simp_all add: op_tables)
  then show ?case by (auto intro: shifts_withSpan simp: value_code_def)
next
  case (MapExpr entries sp)
  have "list_all (\<lambda>entry. value_code (snd entry)) (map (map_prod id compileExpr) entries)"
    using MapExpr by (fastforce simp: list_all_iff)
  from value_make_map [OF this] show ?case by (auto intro: value_withSpan)
next
  case (UnaryExpr op e sp)
  have "shifts {} (Suc 0) (Suc 0) (emit_op (if op = ''!'' then ''NOT'' else ''NEG'') [])"
    by (rule emit_arity(4)) (simp_all add: op_tables)
  from shifts_then [OF UnaryExpr [unfolded value_code_def] this] show ?case
    by (simp only: compileExpr.simps value_code_def shifts_withSpan)
next
  case (InterpExpr parts sp)
  have "list_all value_code (map interp_part (map (map_sum id compileExpr) parts))"
    unfolding list_all_iff
  proof
    fix x
    assume "x \<in> set (map interp_part (map (map_sum id compileExpr) parts))"
    then obtain part where "part \<in> set parts" "x = interp_part (map_sum id compileExpr part)" by auto
    then show "value_code x" using InterpExpr by (cases part rule: sum.exhaust) (auto intro!: value_interp_part)
  qed
  then show ?case by (simp only: compileExpr.simps value_withSpan value_interpolation)
next
  case (CallExpr callee args sp)
  have "list_all value_code (map compileExpr args)" using CallExpr by (auto simp: list_all_iff)
  then show ?case by (auto intro: value_withSpan value_compileCall)
next
  case (VerbCallExpr obj name args sp)
  have args: "list_all value_code (map compileExpr args)" using VerbCallExpr by (auto simp: list_all_iff)
  have "shifts {} 2 1 (gen_then (gen_all (map compileExpr args)) (emit_op ''CALL_VERB'' [WInt (int (length args))]))"
    using shifts_folded [OF args, of "''CALL_VERB''" "[WInt (int (length args))]" 2 "{}" 0] by (simp add: op_tables)
  moreover have "shifts {} 0 1 (compileExpr obj)" "shifts {} 1 2 (push_literal (WStr name))"
    using VerbCallExpr shifts_literal [of "{}" 1] by (simp_all add: value_code_def numeral_2_eq_2)
  ultimately have "shifts {} 0 1 (gen_then (compileExpr obj) (gen_then (push_literal (WStr name))
      (gen_then (gen_all (map compileExpr args)) (emit_op ''CALL_VERB'' [WInt (int (length args))]))))"
    by (blast intro: shifts_then)
  then have "value_code (gen_then (record_call name obj) (gen_then (compileExpr obj) (gen_then (push_literal (WStr name))
      (gen_then (gen_all (map compileExpr args)) (emit_op ''CALL_VERB'' [WInt (int (length args))])))))"
    by (intro value_then [OF shifts_record_call]) (simp add: value_code_def)
  then show ?case by (simp only: compileExpr.simps value_withSpan)
qed (auto intro!: value_withSpan value_literal value_compileIdentifier value_fail value_compileBinary value_compileLogical
      value_chain simp: op_tables)

end
