(* ===== verification/Codegen_Sound.thy ===== *)
theory Codegen_Sound
  imports Codegen_Typed
begin

text \<open>
  Statements of compiled code: each leaves the stack as it found it, the jumps of \<open>break\<close> and \<open>continue\<close> wait
  in the enclosing loop until its ends are known, and with them patched every accepted program is typed.
\<close>

section \<open>Loops in progress\<close>

definition loop_ok :: "(nat \<Rightarrow> nat) \<Rightarrow> codegen \<Rightarrow> nat \<Rightarrow> gen_loop \<Rightarrow> bool" where
  "loop_ok D s d loop \<longleftrightarrow> (\<forall>i \<in> loop_items loop. i < length (cg_ops s) \<and> (\<exists>v. cg_ops s ! i = (''JUMP'', [v])) \<and> D i = d)"

definition gen_inv :: "(nat \<Rightarrow> nat) \<Rightarrow> nat set \<Rightarrow> codegen \<Rightarrow> nat list \<Rightarrow> bool" where
  "gen_inv D P s ds \<longleftrightarrow> gen_ok D (P \<union> pend s) s \<and> list_all2 (\<lambda>loop d. loop_ok D s d loop) (cg_loops s) ds"

text \<open>A statement: from the depth of the innermost loop back to it.\<close>

definition stmt_ok :: "nat set \<Rightarrow> unit gen \<Rightarrow> bool" where
  "stmt_ok L m \<longleftrightarrow> (\<forall>D P s ds s'. gen_inv D P s ds \<longrightarrow> (\<forall>l \<in> L. l < cg_localCount s) \<longrightarrow> (ds \<noteq> [] \<longrightarrow> D (length (cg_ops s)) = hd ds) \<longrightarrow>
     m s = Inr ((), s') \<longrightarrow> (\<exists>D'. extends D s D' s' \<and> gen_inv D' P s' ds \<and> D' (length (cg_ops s')) = D (length (cg_ops s))))"

lemma stmtE:
  assumes "stmt_ok L m" "gen_inv D P s ds" "m s = Inr ((), s')" "\<forall>l \<in> L. l < cg_localCount s" "ds \<noteq> [] \<Longrightarrow> D (length (cg_ops s)) = hd ds"
  obtains D' where "extends D s D' s'" "gen_inv D' P s' ds" "D' (length (cg_ops s')) = D (length (cg_ops s))"
  using assms unfolding stmt_ok_def by blast

lemma loop_ok_extends: "loop_ok D s d loop \<Longrightarrow> extends D s D' s' \<Longrightarrow> loop_ok D' s' d loop"
  by (fastforce simp: loop_ok_def extends_def)

lemma inv_extends:
  assumes "gen_inv D P s ds" "extends D s D' s'" "gen_ok D' (Q \<union> pend s) s'" "cg_loops s' = cg_loops s"
  shows "gen_inv D' Q s' ds"
  using assms loop_ok_extends [OF _ assms(2)]
  by (auto simp: gen_inv_def pend_def elim: list_all2_mono)

lemma shifts_inv:
  assumes m: "shifts L j k m" and inv: "gen_inv D P s ds" and d: "j \<le> D (length (cg_ops s))" and run: "m s = Inr (a, s')"
    and L: "\<forall>l \<in> L. l < cg_localCount s"
  obtains D' where "extends D s D' s'" "gen_inv D' P s' ds" "D' (length (cg_ops s')) = D (length (cg_ops s)) - j + k"
    "cg_loops s' = cg_loops s"
proof -
  have "gen_ok D (P \<union> pend s) s" using inv by (simp add: gen_inv_def)
  from shiftsE [OF m this d run L] obtain D' where "extends D s D' s'" "gen_ok D' (P \<union> pend s) s'" "cg_loops s' = cg_loops s"
      "D' (length (cg_ops s')) = D (length (cg_ops s)) - j + k" .
  then show ?thesis using that inv_extends [OF inv] by blast
qed

lemma stmt_shifts: "shifts L 0 0 m \<Longrightarrow> stmt_ok L m"
  unfolding stmt_ok_def
proof (intro allI impI)
  fix D P s ds s'
  assume m: "shifts L 0 0 m" and *: "gen_inv D P s ds" "\<forall>l \<in> L. l < cg_localCount s" "m s = Inr ((), s')"
  from shifts_inv [OF m *(1) _ *(3,2)] obtain D' where "extends D s D' s'" "gen_inv D' P s' ds"
      "D' (length (cg_ops s')) = D (length (cg_ops s)) - 0 + 0" by auto
  then show "\<exists>D'. extends D s D' s' \<and> gen_inv D' P s' ds \<and> D' (length (cg_ops s')) = D (length (cg_ops s))" by auto
qed

lemma stmt_then:
  assumes "stmt_ok L m" "stmt_ok L n"
  shows "stmt_ok L (gen_then m n)"
  unfolding stmt_ok_def
proof (intro allI impI)
  fix D P s ds s'
  assume inv: "gen_inv D P s ds" and L: "\<forall>l \<in> L. l < cg_localCount s" and d: "ds \<noteq> [] \<longrightarrow> D (length (cg_ops s)) = hd ds"
    and run: "gen_then m n s = Inr ((), s')"
  obtain s1 where s1: "m s = Inr ((), s1)" "n s1 = Inr ((), s')" using run by (auto simp: gen_then_def gen_seq_def split: sum.splits)
  from stmtE [OF assms(1) inv s1(1) L] d obtain D1 where D1: "extends D s D1 s1" "gen_inv D1 P s1 ds"
      "D1 (length (cg_ops s1)) = D (length (cg_ops s))" by auto
  from stmtE [OF assms(2) D1(2) s1(2) extends_locals [OF D1(1) L]] d D1(3) obtain D2 where "extends D1 s1 D2 s'" "gen_inv D2 P s' ds"
      "D2 (length (cg_ops s')) = D1 (length (cg_ops s1))" by auto
  then show "\<exists>D'. extends D s D' s' \<and> gen_inv D' P s' ds \<and> D' (length (cg_ops s')) = D (length (cg_ops s))"
    using D1 extends_trans by (intro exI [of _ D2]) auto
qed

lemma stmt_give: "stmt_ok L (gen_give ())"
  by (rule stmt_shifts [OF shifts_id(1)])

lemma stmt_all: "list_all (stmt_ok L) ms \<Longrightarrow> stmt_ok L (gen_all ms)"
  by (induction ms) (auto simp: stmt_give stmt_then)

lemma stmt_fail: "stmt_ok L (gen_fail message sp)"
  by (rule stmt_shifts [OF shifts_fail(1)])

lemma stmt_mono: "stmt_ok L m \<Longrightarrow> L \<subseteq> L' \<Longrightarrow> stmt_ok L' m"
  unfolding stmt_ok_def by blast

lemma inv_span [simp]: "gen_inv D P (s\<lparr>cg_activeSpan := sp\<rparr>) ds = gen_inv D P s ds"
  by (simp add: gen_inv_def gen_ok_def pend_def loop_ok_def)

lemma extends_span [simp]: "extends D (s\<lparr>cg_activeSpan := sp\<rparr>) D' s' = extends D s D' s'" "extends D s D' (s'\<lparr>cg_activeSpan := sp\<rparr>) = extends D s D' s'"
  by (simp_all add: extends_def pend_def)

lemma stmt_withSpan:
  assumes "stmt_ok L m"
  shows "stmt_ok L (withSpan sp m)"
  unfolding stmt_ok_def
proof (intro allI impI)
  fix D P s ds s'
  assume inv: "gen_inv D P s ds" and L: "\<forall>l \<in> L. l < cg_localCount s" and d: "ds \<noteq> [] \<longrightarrow> D (length (cg_ops s)) = hd ds"
    and run: "withSpan sp m s = Inr ((), s')"
  obtain s1 where s1: "m (s\<lparr>cg_activeSpan := Some sp\<rparr>) = Inr ((), s1)" "s' = s1\<lparr>cg_activeSpan := cg_activeSpan s\<rparr>"
    using run by (auto simp: withSpan_def split: sum.splits)
  from stmtE [OF assms _ s1(1)] inv L d
  show "\<exists>D'. extends D s D' s' \<and> gen_inv D' P s' ds \<and> D' (length (cg_ops s')) = D (length (cg_ops s))"
    unfolding s1(2) by simp metis
qed

lemma stmt_bind_local:
  assumes k: "\<And>l. stmt_ok (insert l L) (k l)"
  shows "stmt_ok L (gen_seq (ensureLoopLocal name sp) k)"
  unfolding stmt_ok_def
proof (intro allI impI)
  fix D P s ds s'
  assume inv: "gen_inv D P s ds" and L: "\<forall>l \<in> L. l < cg_localCount s" and d: "ds \<noteq> [] \<longrightarrow> D (length (cg_ops s)) = hd ds"
    and run: "gen_seq (ensureLoopLocal name sp) k s = Inr ((), s')"
  obtain l s1 where s1: "ensureLoopLocal name sp s = Inr (l, s1)" "k l s1 = Inr ((), s')"
    using run by (auto simp: gen_seq_def split: sum.splits)
  have "gen_ok D (P \<union> pend s) s" using inv by (simp add: gen_inv_def)
  note l = ensureLoopLocal_ok [OF this s1(1)]
  have "\<forall>l' \<in> insert l L. l' < cg_localCount s1" using l(3) extends_locals [OF l(2) L] by simp
  from stmtE [OF k inv_extends [OF inv l(2,1,5)] s1(2) this] d l(4) obtain D' where D': "extends D s1 D' s'" "gen_inv D' P s' ds"
      "D' (length (cg_ops s')) = D (length (cg_ops s1))" by auto
  show "\<exists>D'. extends D s D' s' \<and> gen_inv D' P s' ds \<and> D' (length (cg_ops s')) = D (length (cg_ops s))"
    using D' extends_trans [OF l(2) D'(1)] l(4) by auto
qed

section \<open>Jumps\<close>

text \<open>Emit an opcode whose operand is not known yet.\<close>

lemma pend_less: "gen_inv D P s ds \<Longrightarrow> i \<in> pend s \<Longrightarrow> i < length (cg_ops s)"
  by (auto simp: gen_inv_def pend_def loop_ok_def list_all2_conv_all_nth in_set_conv_nth)

lemma emit_pending:
  assumes inv: "gen_inv D P s ds" and e: "emit name os s = Inr (j, s')"
  shows "j = length (cg_ops s)" "cg_loops s' = cg_loops s" "cg_ops s' = cg_ops s @ [(name, os)]" "length (cg_ops s') = Suc j"
    "j \<notin> pend s'" "cg_localCount s' = cg_localCount s"
proof -
  show "j = length (cg_ops s)" "cg_loops s' = cg_loops s" "cg_ops s' = cg_ops s @ [(name, os)]" "length (cg_ops s') = Suc j"
    "cg_localCount s' = cg_localCount s"
    using e by (auto simp: emit_def Let_def)
  then show "j \<notin> pend s'" using pend_less [OF inv, of j] by (auto simp: pend_def)
qed

lemma emit_pending_inv:
  assumes inv: "gen_inv D P s ds" and e: "emit name os s = Inr (j, s')"
  shows "extends D s (D(Suc j := d)) s'" "gen_inv (D(Suc j := d)) (insert j P) s' ds"
proof -
  have "gen_ok D (insert j P \<union> pend s) s" using inv by (auto simp: gen_inv_def gen_ok_def)
  note e = emit_ok [OF this e, of d, simplified]
  show "extends D s (D(Suc j := d)) s'" using e by simp
  show "gen_inv (D(Suc j := d)) (insert j P) s' ds" using inv_extends [OF inv e(2)] e by simp
qed

lemma patch_inv:
  assumes inv: "gen_inv D (insert j P) s ds" and j: "j \<notin> pend s" "j < length (cg_ops s)" "cg_ops s ! j = (name, os)"
    and op: "op_ok (length (cg_ops s)) (length (cg_literals s)) (cg_localCount s) D j (name, os[k := WInt (int t - int j - 1)])"
  shows "gen_inv D P (patch_operand k j t s) ds"
proof -
  have "gen_ok D (P \<union> pend s) (patch_operand k j t s)"
    by (rule patch_ok [OF _ j(2,3) op]) (use inv in \<open>simp add: gen_inv_def\<close>)
  moreover have "loop_ok D (patch_operand k j t s) d loop" if "loop_ok D s d loop" "loop \<in> set (cg_loops s)" for d loop
    unfolding loop_ok_def
  proof
    fix i
    assume "i \<in> loop_items loop"
    moreover from this have "i \<noteq> j" using that(2) j(1) by (auto simp: pend_def)
    ultimately show "i < length (cg_ops (patch_operand k j t s)) \<and> (\<exists>v. cg_ops (patch_operand k j t s) ! i = (''JUMP'', [v])) \<and> D i = d"
      using that(1) by (simp add: loop_ok_def patch_operand_def)
  qed
  then have "list_all2 (\<lambda>loop d. loop_ok D (patch_operand k j t s) d loop) (cg_loops s) ds"
    using inv unfolding gen_inv_def list_all2_conv_all_nth by auto
  ultimately show ?thesis by (simp add: gen_inv_def pend_def)
qed

text \<open>A pending jump, emitted at \<open>j\<close> and carried along, lands at the end of the code.\<close>

lemma patch_landed:
  assumes inv: "gen_inv D (insert j P) s ds" and j: "j \<notin> pend s" "j < length (cg_ops s)" "cg_ops s ! j = (name, os)"
    and op: "decode_op name \<in> {JUMP, JUMP_IF_FALSE, JUMP_IF_TRUE_KEEP, JUMP_IF_FALSE_KEEP}" "op_arity (decode_op name) os = Some (p, q)"
      "p \<le> D j" "t \<le> length (cg_ops s)" "D t = D j - p + q" "decode_op name \<noteq> JUMP \<Longrightarrow> D (Suc j) = D j - p + q" "os \<noteq> []"
  shows "gen_inv D P (patch_operand 0 j t s) ds"
  by (rule patch_inv [OF inv j jump_op_ok [OF op]])

text \<open>What extending code keeps of a pending opcode.\<close>

lemma extends_pending:
  assumes "extends D s D' s'" "j < length (cg_ops s)" "j \<notin> pend s"
  shows "j < length (cg_ops s')" "cg_ops s' ! j = cg_ops s ! j" "D' j = D j" "D' (Suc j) = D (Suc j)" "j \<notin> pend s'"
  using assms by (auto simp: extends_def)

section \<open>Conditionals\<close>

lemma stmt_if:
  assumes test: "value_code test" and c: "stmt_ok L consequent" and e: "\<And>m. otherwise = Some m \<Longrightarrow> stmt_ok L m"
  shows "stmt_ok L (compile_if test consequent otherwise)"
  unfolding stmt_ok_def
proof (intro allI impI)
  fix D P s ds s'
  let ?n = "\<lambda>s. length (cg_ops s)"
  assume inv: "gen_inv D P s ds" and L: "\<forall>l \<in> L. l < cg_localCount s" and d: "ds \<noteq> [] \<longrightarrow> D (?n s) = hd ds"
    and run: "compile_if test consequent otherwise s = Inr ((), s')"
  let ?d = "D (?n s)"
  obtain s1 j s2 s3 where r: "test s = Inr ((), s1)" "emit ''JUMP_IF_FALSE'' [WInt 0] s1 = Inr (j, s2)" "consequent s2 = Inr ((), s3)"
      "(case otherwise of None \<Rightarrow> patch_here j
         | Some m \<Rightarrow> gen_seq (emitJump ''JUMP'') (\<lambda>endJump. gen_then (patch_here j) (gen_then m (patch_here endJump)))) s3 = Inr ((), s')"
    using run by (auto simp: compile_if_def gen_then_def gen_seq_def emitJump_def split: sum.splits)
  from shifts_inv [OF shifts_value [OF test, of L 0] inv _ r(1) L] obtain D1 where D1: "extends D s D1 s1" "gen_inv D1 P s1 ds"
      "D1 (?n s1) = ?d + 1" by auto
  note j = emit_pending [OF D1(2) r(2)] and j' = emit_pending_inv [OF D1(2) r(2), of ?d]
  have L2: "\<forall>l \<in> L. l < cg_localCount s2" using extends_locals [OF D1(1) L] j(6) by simp
  from stmtE [OF c j'(2) r(3) L2] d obtain D3 where D3: "extends (D1(Suc j := ?d)) s2 D3 s3" "gen_inv D3 (insert j P) s3 ds" "D3 (?n s3) = ?d"
    using j(4) by auto
  have to3: "extends D s D3 s3" using extends_trans [OF D1(1) extends_trans [OF j'(1) D3(1)]] .
  have "j < ?n s2" "cg_ops s2 ! j = (''JUMP_IF_FALSE'', [WInt 0])" using j by auto
  note j3 = extends_pending [OF D3(1) this(1) j(5)] and name = this(2)
  have depth: "D3 j = Suc ?d" "D3 (Suc j) = ?d" "?n s \<le> j" using j3 j(1) D1 by (auto simp: extends_def)
  show "\<exists>D'. extends D s D' s' \<and> gen_inv D' P s' ds \<and> D' (?n s') = ?d"
  proof (cases otherwise)
    case None
    then have s': "s' = patch_operand 0 j (?n s3) s3"
      using r(4) by (auto simp: patch_here_def here_def gen_seq_def gen_read_def patchJump_def gen_update_def)
    have "gen_inv D3 P s' ds" unfolding s'
      by (rule patch_landed [OF D3(2) j3(5,1), where name = "''JUMP_IF_FALSE''" and os = "[WInt 0]" and p = 1 and q = 0]) (use j3 name depth D3(3) in \<open>auto simp: op_arity_def\<close>)
    then show ?thesis using patch_extends [OF to3 depth(3)] D3(3) s' by (intro exI [of _ D3]) simp
  next
    case (Some m)
    obtain k s4 s6 where r': "emit ''JUMP'' [WInt 0] s3 = Inr (k, s4)" "m (patch_operand 0 j (?n s4) s4) = Inr ((), s6)"
        "s' = patch_operand 0 k (?n s6) s6"
      using r(4) Some by (auto simp: patch_here_def here_def gen_seq_def gen_then_def gen_read_def patchJump_def gen_update_def
          emitJump_def split: sum.splits)
    note k = emit_pending [OF D3(2) r'(1)] and k' = emit_pending_inv [OF D3(2) r'(1), of ?d]
    let ?D4 = "D3(Suc k := ?d)" and ?s5 = "patch_operand 0 j (?n s4) s4"
    note j4 = extends_pending [OF k'(1) j3(1,5)]
    have "gen_inv ?D4 (insert j (insert k P)) s4 ds" using k'(2) by (simp add: insert_commute)
    then have s5: "gen_inv ?D4 (insert k P) ?s5 ds"
      by (rule patch_landed [OF _ j4(5,1), where name = "''JUMP_IF_FALSE''" and os = "[WInt 0]" and p = 1 and q = 0]) (use j3 j4 k name depth in \<open>auto simp: op_arity_def\<close>)
    have to5: "extends D s ?D4 ?s5" by (rule patch_extends [OF extends_trans [OF to3 k'(1)] depth(3)])
    from stmtE [OF e [OF Some] s5 r'(2) extends_locals [OF to5 L]] d k(4) obtain D6 where D6: "extends ?D4 ?s5 D6 s6"
        "gen_inv D6 (insert k P) s6 ds" "D6 (?n s6) = ?d" by auto
    have "k < ?n ?s5" "cg_ops ?s5 ! k = (''JUMP'', [WInt 0])" "k \<notin> pend ?s5" using k j3(1) by (auto simp: patch_operand_def pend_def)
    note k6 = extends_pending [OF D6(1) this(1,3)] and name' = this(2)
    have "gen_inv D6 P s' ds" unfolding r'(3)
      by (rule patch_landed [OF D6(2) k6(5,1), where name = "''JUMP''" and os = "[WInt 0]" and p = 0 and q = 0]) (use k6 name' k D3(3) D6(3) in \<open>auto simp: op_arity_def\<close>)
    moreover have "extends D s D6 s'" unfolding r'(3)
      by (rule patch_extends [OF extends_trans [OF to5 D6(1)]]) (use depth(3) k(1) j3(1) in simp)
    ultimately show ?thesis using D6(3) r'(3) by (intro exI [of _ D6]) simp
  qed
qed

section \<open>Loops\<close>

lemma gen_ok_mono: "gen_ok D P s \<Longrightarrow> P \<subseteq> Q \<Longrightarrow> gen_ok D Q s"
  by (auto simp: gen_ok_def)

lemma inv_mono: "gen_inv D P s ds \<Longrightarrow> P \<subseteq> Q \<Longrightarrow> gen_inv D Q s ds"
  by (auto simp: gen_inv_def intro: gen_ok_mono)

text \<open>Jumps of a loop, patched to a target of their own depth.\<close>

definition jumps_at :: "(nat \<Rightarrow> nat) \<Rightarrow> codegen \<Rightarrow> nat \<Rightarrow> nat set \<Rightarrow> bool" where
  "jumps_at D s d items \<longleftrightarrow> (\<forall>i \<in> items. i < length (cg_ops s) \<and> (\<exists>v. cg_ops s ! i = (''JUMP'', [v])) \<and> D i = d)"

lemma jumps_at_extends: "jumps_at D s d items \<Longrightarrow> extends D s D' s' \<Longrightarrow> jumps_at D' s' d items"
  by (fastforce simp: jumps_at_def extends_def)

lemma jumps_at_patch:
  assumes "jumps_at D s d items" "cg_ops s ! i = (''JUMP'', [v])"
  shows "jumps_at D (patch_operand 0 i t s) d items"
  unfolding jumps_at_def
proof
  fix k
  assume "k \<in> items"
  then show "k < length (cg_ops (patch_operand 0 i t s)) \<and> (\<exists>v. cg_ops (patch_operand 0 i t s) ! k = (''JUMP'', [v])) \<and> D k = d"
    using assms by (cases "k = i") (auto simp: jumps_at_def patch_operand_def)
qed

lemma jumps_at_patch_other:
  assumes "jumps_at D s d items" "i \<notin> items"
  shows "jumps_at D (patch_operand k i t s) d items"
  unfolding jumps_at_def
proof
  fix l
  assume l: "l \<in> items"
  then have "cg_ops (patch_operand k i t s) ! l = cg_ops s ! l" using assms(2) by (cases "l = i") (auto simp: patch_operand_def)
  then show "l < length (cg_ops (patch_operand k i t s)) \<and> (\<exists>v. cg_ops (patch_operand k i t s) ! l = (''JUMP'', [v])) \<and> D l = d"
    using assms(1) l by (simp add: jumps_at_def)
qed

lemma patch_jumps_inv:
  assumes "gen_inv D (set items \<union> P) s ds" "set items \<inter> pend s = {}" "jumps_at D s d (set items \<union> others)"
    "t \<le> length (cg_ops s)" "D t = d" "patch_jumps items t s = Inr ((), s')" "\<forall>i \<in> set items. n \<le> i" "n \<le> length (cg_ops s)"
  shows "gen_inv D P s' ds \<and> cg_loops s' = cg_loops s \<and> length (cg_ops s') = length (cg_ops s) \<and> jumps_at D s' d others
    \<and> cg_localCount s' = cg_localCount s \<and> (\<forall>D0 s0. extends D0 s0 D s \<and> length (cg_ops s0) \<le> n \<longrightarrow> extends D0 s0 D s')"
  using assms
proof (induction items arbitrary: s)
  case Nil
  then show ?case by (simp add: patch_jumps_def gen_give_def)
next
  case (Cons i items)
  let ?s1 = "patch_operand 0 i t s"
  obtain v where v: "i < length (cg_ops s)" "cg_ops s ! i = (''JUMP'', [v])" "D i = d"
    using Cons.prems(3) by (auto simp: jumps_at_def)
  have run: "patch_jumps items t ?s1 = Inr ((), s')"
    using Cons.prems(6) by (simp add: patch_jumps_def patchJump_def gen_then_def gen_seq_def gen_update_def)
  have "gen_inv D (insert i (set items \<union> P)) s ds" using Cons.prems(1) by simp
  then have s1: "gen_inv D (set items \<union> P) ?s1 ds"
    by (rule patch_landed [where name = "''JUMP''" and os = "[v]" and p = 0 and q = 0])
      (use Cons.prems(2,4,5) v in \<open>auto simp: op_arity_def\<close>)
  have j: "jumps_at D ?s1 d (set items \<union> others)"
    by (rule jumps_at_patch [OF _ v(2)]) (use Cons.prems(3) in \<open>auto simp: jumps_at_def\<close>)
  have "gen_inv D P s' ds \<and> cg_loops s' = cg_loops ?s1 \<and> length (cg_ops s') = length (cg_ops ?s1) \<and> jumps_at D s' d others
      \<and> cg_localCount s' = cg_localCount ?s1 \<and> (\<forall>D0 s0. extends D0 s0 D ?s1 \<and> length (cg_ops s0) \<le> n \<longrightarrow> extends D0 s0 D s')"
    by (rule Cons.IH [OF s1 _ j]) (use Cons.prems run in \<open>auto simp: pend_def\<close>)
  moreover have "extends D0 s0 D ?s1" if "extends D0 s0 D s" "length (cg_ops s0) \<le> n" for D0 s0
    using patch_extends [OF that(1)] that(2) Cons.prems(7) by simp
  ultimately show ?case by simp
qed

text \<open>Both kinds of jumps of a loop, when its ends are known.\<close>

lemma patch_loop:
  assumes inv: "gen_inv D (loop_items loop \<union> P) s ds" and at: "jumps_at D s d (loop_items loop)"
    and items: "\<forall>i \<in> loop_items loop. n \<le> i" "\<forall>i \<in> pend s. i < n" "n \<le> length (cg_ops s)"
    and ends: "t \<le> length (cg_ops s)" "D t = d" "u \<le> length (cg_ops s)" "D u = d"
    and run: "gen_then (patch_jumps (lp_breaks loop) t) (patch_jumps (lp_continues loop) u) s = Inr ((), s')"
    and to: "extends D0 s0 D s" "length (cg_ops s0) \<le> n"
  shows "gen_inv D P s' ds" "extends D0 s0 D s'" "length (cg_ops s') = length (cg_ops s)" "cg_loops s' = cg_loops s"
proof -
  obtain s1 where r: "patch_jumps (lp_breaks loop) t s = Inr ((), s1)" "patch_jumps (lp_continues loop) u s1 = Inr ((), s')"
    using run by (auto simp: gen_then_def gen_seq_def split: sum.splits)
  have fresh: "set (lp_breaks loop) \<inter> pend s = {}" "set (lp_continues loop) \<inter> pend s = {}"
    "\<forall>i \<in> set (lp_breaks loop). n \<le> i" "\<forall>i \<in> set (lp_continues loop). n \<le> i"
  proof -
    have "i \<notin> pend s" if "i \<in> loop_items loop" for i using items(1,2) that by (meson leD)
    then show "set (lp_breaks loop) \<inter> pend s = {}" "set (lp_continues loop) \<inter> pend s = {}" by (auto simp: loop_items_def)
    show "\<forall>i \<in> set (lp_breaks loop). n \<le> i" "\<forall>i \<in> set (lp_continues loop). n \<le> i" using items(1) by (auto simp: loop_items_def)
  qed
  have "gen_inv D (set (lp_continues loop) \<union> P) s1 ds \<and> cg_loops s1 = cg_loops s \<and> length (cg_ops s1) = length (cg_ops s)
      \<and> jumps_at D s1 d (set (lp_continues loop)) \<and> cg_localCount s1 = cg_localCount s
      \<and> (\<forall>D0 s0. extends D0 s0 D s \<and> length (cg_ops s0) \<le> n \<longrightarrow> extends D0 s0 D s1)"
    by (rule patch_jumps_inv [OF _ fresh(1) at [unfolded loop_items_def] ends(1,2) r(1) fresh(3) items(3)])
      (use inv in \<open>simp add: loop_items_def Un_assoc\<close>)
  note s1 = conjunct1 [OF this] conjunct2 [OF this]
  have "gen_inv D P s' ds \<and> cg_loops s' = cg_loops s1 \<and> length (cg_ops s') = length (cg_ops s1)
      \<and> jumps_at D s' d {} \<and> cg_localCount s' = cg_localCount s1
      \<and> (\<forall>D0 s0. extends D0 s0 D s1 \<and> length (cg_ops s0) \<le> n \<longrightarrow> extends D0 s0 D s')"
    by (rule patch_jumps_inv [OF s1(1) _ _ _ ends(4) r(2) fresh(4)])
      (use s1(2) fresh(2) ends(3) items(3) in \<open>auto simp: pend_def\<close>)
  then show "gen_inv D P s' ds" "extends D0 s0 D s'" "length (cg_ops s') = length (cg_ops s)" "cg_loops s' = cg_loops s"
    using s1(2) to by auto
qed

text \<open>A loop body: what it leaves pending are jumps at the depth of the loop.\<close>

lemma in_loop_inv:
  assumes body: "stmt_ok L body" and inv: "gen_inv D P s ds" and L: "\<forall>l \<in> L. l < cg_localCount s"
    and run: "in_loop t body s = Inr (loop, s')"
  obtains D' where "extends D s D' s'" "gen_inv D' (loop_items loop \<union> P) s' ds" "D' (length (cg_ops s')) = D (length (cg_ops s))"
    "cg_loops s' = cg_loops s" "jumps_at D' s' (D (length (cg_ops s))) (loop_items loop)" "\<forall>i \<in> loop_items loop. length (cg_ops s) \<le> i"
proof -
  let ?new = "\<lparr>lp_breaks = [], lp_continues = [], lp_continueTarget = t\<rparr>" and ?d = "D (length (cg_ops s))"
  let ?s0 = "s\<lparr>cg_loops := ?new # cg_loops s\<rparr>"
  obtain s1 where r: "body ?s0 = Inr ((), s1)" "loop = hd (cg_loops s1)" "s' = s1\<lparr>cg_loops := tl (cg_loops s1)\<rparr>"
    using run by (auto simp: in_loop_def gen_then_def gen_seq_def push_loop_def gen_update_def pop_loop_def split: sum.splits)
  have empty: "loop_items ?new = {}" by (simp add: loop_items_def)
  have pend0: "pend ?s0 = pend s" using empty by (simp add: pend_def)
  have gen: "gen_ok D Q ?s0 = gen_ok D Q s" for Q by (simp add: gen_ok_def)
  have loops: "loop_ok D ?s0 d l = loop_ok D s d l" for d l by (simp add: loop_ok_def)
  have inv0: "gen_inv D P ?s0 (?d # ds)"
    using inv empty unfolding gen_inv_def pend0 gen by (simp add: loops) (simp add: loop_ok_def)
  from stmtE [OF body inv0 r(1)] L obtain D1 where D1: "extends D ?s0 D1 s1" "gen_inv D1 P s1 (?d # ds)" "D1 (length (cg_ops s1)) = ?d"
    by auto
  have tl: "tl (cg_loops s1) = cg_loops s" using D1(1) by (simp add: extends_def)
  obtain outer where l1: "cg_loops s1 = loop # outer" "loop_ok D1 s1 ?d loop"
      "list_all2 (\<lambda>loop d. loop_ok D1 s1 d loop) outer ds" "outer = cg_loops s"
    using D1(2) tl r(2) by (cases "cg_loops s1") (auto simp: gen_inv_def)
  have pend1: "pend s1 = loop_items loop \<union> pend s'" using l1(1) r(3) by (simp add: pend_def)
  have items: "length (cg_ops s) \<le> i" if "i \<in> loop_items loop" for i
    using that D1(1) l1(1) empty by (auto simp: extends_def)
  have "extends D s D1 s'"
    using D1(1) r(3) tl by (simp add: extends_def pend_def)
  moreover have "gen_ok D1 (loop_items loop \<union> P \<union> pend s') s'"
    using D1(2) pend1 r(3) by (auto simp: gen_inv_def gen_ok_def)
  then have "gen_inv D1 (loop_items loop \<union> P) s' ds"
    using l1 r(3) by (auto simp: gen_inv_def loop_ok_def)
  moreover have "jumps_at D1 s' ?d (loop_items loop)"
    using l1(2) r(3) by (simp add: jumps_at_def loop_ok_def)
  ultimately show thesis using that items D1(3) r(3) tl by simp
qed

lemma emitRelativeJump_inv:
  assumes inv: "gen_inv D P s ds" and t: "t \<le> length (cg_ops s)" "D t = D (length (cg_ops s))" and run: "emitRelativeJump t s = Inr ((), s')"
  shows "extends D s (D(Suc (length (cg_ops s)) := d)) s'" "gen_inv (D(Suc (length (cg_ops s)) := d)) P s' ds"
    "length (cg_ops s') = Suc (length (cg_ops s))" "cg_loops s' = cg_loops s" "cg_localCount s' = cg_localCount s"
proof -
  let ?n = "length (cg_ops s)"
  obtain s1 where r: "emit ''JUMP'' [WInt 0] s = Inr (?n, s1)" "s' = patch_operand 0 ?n t s1"
    using run by (auto simp: emitRelativeJump_def gen_seq_def patchJump_def gen_update_def emit_def Let_def split: sum.splits)
  note e = emit_pending [OF inv r(1)] and e' = emit_pending_inv [OF inv r(1), of d]
  show "extends D s (D(Suc ?n := d)) s'" unfolding r(2) by (rule patch_extends [OF e'(1)]) simp
  show "gen_inv (D(Suc ?n := d)) P s' ds" unfolding r(2)
    by (rule patch_landed [OF e'(2) e(5), where name = "''JUMP''" and os = "[WInt 0]" and p = 0 and q = 0])
      (use e t in \<open>auto simp: op_arity_def\<close>)
  show "length (cg_ops s') = Suc ?n" "cg_loops s' = cg_loops s" "cg_localCount s' = cg_localCount s" using e r(2) by simp_all
qed

lemma stmt_while:
  assumes test: "value_code test'" "test' = compileExpr test" and body: "stmt_ok L body"
  shows "stmt_ok L (compileWhile test body)"
  unfolding stmt_ok_def
proof (intro allI impI)
  fix D P s ds s'
  let ?n = "\<lambda>s. length (cg_ops s)"
  assume inv: "gen_inv D P s ds" and L: "\<forall>l \<in> L. l < cg_localCount s" and d: "ds \<noteq> [] \<longrightarrow> D (?n s) = hd ds"
    and run: "compileWhile test body s = Inr ((), s')"
  let ?d = "D (?n s)"
  obtain s1 j s2 loop s3 s4 where r: "test' s = Inr ((), s1)" "emit ''JUMP_IF_FALSE'' [WInt 0] s1 = Inr (j, s2)"
      "in_loop (?n s) body s2 = Inr (loop, s3)" "emitRelativeJump (?n s) s3 = Inr ((), s4)"
      "gen_then (patch_jumps (lp_breaks loop) (?n s4)) (patch_jumps (lp_continues loop) (?n s)) (patch_operand 0 j (?n s4) s4) = Inr ((), s')"
    using run test(2) by (auto simp: compileWhile_def gen_then_def gen_seq_def emitJump_def here_def gen_read_def patchJump_def gen_update_def
        split: sum.splits)
  from shifts_inv [OF shifts_value [OF test(1), of L 0] inv _ r(1) L] obtain D1 where D1: "extends D s D1 s1" "gen_inv D1 P s1 ds"
      "D1 (?n s1) = ?d + 1" by auto
  note j = emit_pending [OF D1(2) r(2)] and j' = emit_pending_inv [OF D1(2) r(2), of ?d]
  have to2: "extends D s (D1(Suc j := ?d)) s2" by (rule extends_trans [OF D1(1) j'(1)])
  from in_loop_inv [OF body j'(2) extends_locals [OF to2 L] r(3)] j(4) obtain D3 where D3: "extends (D1(Suc j := ?d)) s2 D3 s3"
      "gen_inv D3 (loop_items loop \<union> insert j P) s3 ds" "D3 (?n s3) = ?d" "cg_loops s3 = cg_loops s2"
      "jumps_at D3 s3 ?d (loop_items loop)" "\<forall>i \<in> loop_items loop. ?n s2 \<le> i" by auto
  have to3: "extends D s D3 s3" by (rule extends_trans [OF to2 D3(1)])
  then have start: "?n s \<le> ?n s3" "D3 (?n s) = ?d" by (auto simp: extends_def)
  have same: "D3 (?n s) = D3 (?n s3)" using start(2) D3(3) by simp
  note g = emitRelativeJump_inv(1,2) [OF D3(2) start(1) same r(4), of ?d] emitRelativeJump_inv(3,4) [OF D3(2) start(1) same r(4)]
  let ?D4 = "D3(Suc (?n s3) := ?d)" and ?s5 = "patch_operand 0 j (?n s4) s4"
  have g': "extends D3 s3 ?D4 s4" "gen_inv ?D4 (loop_items loop \<union> insert j P) s4 ds" "?n s4 = Suc (?n s3)" "cg_loops s4 = cg_loops s3"
    using g start D3(3) by auto
  have to4: "extends (D1(Suc j := ?d)) s2 ?D4 s4" by (rule extends_trans [OF D3(1) g'(1)])
  have "j < ?n s2" using j by simp
  note j4 = extends_pending [OF to4 this j(5)]
  have depth: "?D4 j = Suc ?d" "?D4 (Suc j) = ?d" "?n s \<le> j" using j4 j(1) D1 by (auto simp: extends_def)
  have "gen_inv ?D4 (insert j (loop_items loop \<union> P)) s4 ds" using g'(2) by simp
  then have s5: "gen_inv ?D4 (loop_items loop \<union> P) ?s5 ds"
    by (rule patch_landed [OF _ j4(5,1), where name = "''JUMP_IF_FALSE''" and os = "[WInt 0]" and p = 1 and q = 0])
      (use j4 j g' depth in \<open>auto simp: op_arity_def\<close>)
  have to5: "extends D s ?D4 ?s5" by (rule patch_extends [OF extends_trans [OF to2 to4] depth(3)])
  have "jumps_at ?D4 s4 ?d (loop_items loop)" by (rule jumps_at_extends [OF D3(5) g'(1)])
  moreover have "j \<notin> loop_items loop" using D3(6) j by auto
  ultimately have at5: "jumps_at ?D4 ?s5 ?d (loop_items loop)" by (rule jumps_at_patch_other)
  have "pend ?s5 = pend s1" using g'(4) D3(4) j(2) by (simp add: pend_def)
  then have pend: "\<forall>i \<in> pend ?s5. i < ?n s2" using pend_less [OF D1(2)] j by fastforce
  have n2: "?n s2 \<le> ?n ?s5" "?n s \<le> ?n s2" using to4 to2 by (auto simp: extends_def)
  note patched = patch_loop [OF s5 at5 D3(6) pend n2(1) _ _ _ _ r(5) to5 n2(2)]
  have "?n s4 \<le> ?n ?s5" "?D4 (?n s4) = ?d" "?n s \<le> ?n ?s5" "?D4 (?n s) = ?d" using g' n2 start by auto
  from patched [OF this] g'(3) show "\<exists>D'. extends D s D' s' \<and> gen_inv D' P s' ds \<and> D' (?n s') = ?d"
    by (intro exI [of _ ?D4]) auto
qed

text \<open>The exit test of a \<open>for\<close> loop, its last operand the jump.\<close>

definition for_next :: "string \<Rightarrow> nat list \<Rightarrow> bool" where
  "for_next name locals \<longleftrightarrow> (decode_op name \<in> {FOR_LIST_NEXT, FOR_RANGE_NEXT} \<and> length locals = 1)
     \<or> (decode_op name = FOR_MAP_NEXT \<and> length locals = 2)"

lemma for_next_ok:
  assumes "for_next name locals" "\<forall>l \<in> set locals. l < N" "2 \<le> D i" "D (Suc i) = D i" "t \<le> n" "D t = D i"
  shows "op_ok n L N D i (name, (map (\<lambda>l. WInt (int l)) locals @ [WInt 0])[length locals := WInt (int t - int i - 1)])"
proof -
  have os: "(map (\<lambda>l. WInt (int l)) locals @ [WInt 0])[length locals := WInt (int t - int i - 1)]
      = map (\<lambda>l. WInt (int l)) locals @ [WInt (int t - int i - 1)]"
    by (simp add: list_update_append)
  have l: "lands n D i (WInt (int t - int i - 1)) (D i)" using assms(5,6) by (simp add: lands_def)
  consider (one) l where "locals = [l]" "l < N" "decode_op name \<in> {FOR_LIST_NEXT, FOR_RANGE_NEXT}"
    | (two) k v where "locals = [k, v]" "k < N" "v < N" "decode_op name = FOR_MAP_NEXT"
    using assms(1,2) by (auto simp: for_next_def length_Suc_conv numeral_2_eq_2)
  then show ?thesis
  proof cases
    case one
    then show ?thesis unfolding os using assms(3,4) l
      by (elim insertE emptyE) (auto simp: op_ok_def Let_def op_arity_def jump_slot_def literal_slots_def local_slots_def operand_def)
  next
    case two
    then show ?thesis unfolding os using assms(3,4) l
      by (auto simp: op_ok_def Let_def op_arity_def jump_slot_def literal_slots_def local_slots_def operand_def numeral_2_eq_2)
  qed
qed

lemma stmt_loop_from:
  assumes header: "shifts L 0 2 header" and body: "stmt_ok L body" and next_op: "for_next next_op locals" "set locals \<subseteq> L"
  shows "stmt_ok L (loop_from header body next_op locals)"
  unfolding stmt_ok_def
proof (intro allI impI)
  fix D P s ds s'
  let ?n = "\<lambda>s. length (cg_ops s)" and ?os = "map (\<lambda>l. WInt (int l)) locals @ [WInt 0]"
  assume inv: "gen_inv D P s ds" and L: "\<forall>l \<in> L. l < cg_localCount s" and d: "ds \<noteq> [] \<longrightarrow> D (?n s) = hd ds"
    and run: "loop_from header body next_op locals s = Inr ((), s')"
  let ?d = "D (?n s)"
  obtain s1 j s2 loop s3 s4 s6 where r: "header s = Inr ((), s1)" "emit next_op ?os s1 = Inr (j, s2)"
      "in_loop (?n s1) body s2 = Inr (loop, s3)" "emitRelativeJump (?n s1) s3 = Inr ((), s4)"
      "gen_then (patch_jumps (lp_breaks loop) (?n s4)) (patch_jumps (lp_continues loop) (?n s1))
         (patch_operand (length locals) j (?n s4) s4) = Inr ((), s6)"
      "emit_op ''FOR_END'' [] s6 = Inr ((), s')"
    using run by (auto simp: loop_from_def compileLoopBody_def gen_then_def gen_seq_def here_def gen_read_def patchJump_def
        gen_update_def split: sum.splits)
  from shifts_inv [OF header inv _ r(1) L] obtain D1 where D1: "extends D s D1 s1" "gen_inv D1 P s1 ds" "D1 (?n s1) = ?d + 2" by auto
  note j = emit_pending [OF D1(2) r(2)] and j' = emit_pending_inv [OF D1(2) r(2), of "?d + 2"]
  have to2: "extends D s (D1(Suc j := ?d + 2)) s2" by (rule extends_trans [OF D1(1) j'(1)])
  note L2 = extends_locals [OF to2 L]
  from in_loop_inv [OF body j'(2) L2 r(3)] j(4) obtain D3 where D3: "extends (D1(Suc j := ?d + 2)) s2 D3 s3"
      "gen_inv D3 (loop_items loop \<union> insert j P) s3 ds" "D3 (?n s3) = ?d + 2" "cg_loops s3 = cg_loops s2"
      "jumps_at D3 s3 (?d + 2) (loop_items loop)" "\<forall>i \<in> loop_items loop. ?n s2 \<le> i" by auto
  have next_pc: "?n s1 \<le> ?n s3" "D3 (?n s1) = D3 (?n s3)" using D3(1,3) D1(3) j by (auto simp: extends_def)
  note g = emitRelativeJump_inv(1,2) [OF D3(2) next_pc r(4), of "?d + 2"] emitRelativeJump_inv(3,4) [OF D3(2) next_pc r(4)]
  let ?D4 = "D3(Suc (?n s3) := ?d + 2)" and ?s5 = "patch_operand (length locals) j (?n s4) s4"
  have to4: "extends (D1(Suc j := ?d + 2)) s2 ?D4 s4" by (rule extends_trans [OF D3(1) g(1)])
  have "j < ?n s2" using j by simp
  note j4 = extends_pending [OF to4 this j(5)]
  have depth: "?D4 j = ?d + 2" "?D4 (Suc j) = ?d + 2" "?n s \<le> j" using j4 j(1) D1 by (auto simp: extends_def)
  have count: "\<forall>l \<in> set locals. l < cg_localCount s4" using extends_locals [OF to4 L2] next_op(2) by auto
  have op: "cg_ops s4 ! j = (next_op, ?os)" using j4(2) j by simp
  have "gen_inv ?D4 (insert j (loop_items loop \<union> P)) s4 ds" using g(2) by simp
  then have s5: "gen_inv ?D4 (loop_items loop \<union> P) ?s5 ds"
    by (rule patch_inv [OF _ j4(5,1) op]) (rule for_next_ok [OF next_op(1) count], use depth g(3) in simp_all)
  have to5: "extends D s ?D4 ?s5" by (rule patch_extends [OF extends_trans [OF to2 to4] depth(3)])
  have "j \<notin> loop_items loop" using D3(6) j by auto
  with jumps_at_extends [OF D3(5) g(1)] have at5: "jumps_at ?D4 ?s5 (?d + 2) (loop_items loop)" by (rule jumps_at_patch_other)
  have "pend ?s5 = pend s1" using g(4) D3(4) j(2) by (simp add: pend_def)
  then have pend: "\<forall>i \<in> pend ?s5. i < ?n s2" using pend_less [OF D1(2)] j by fastforce
  have n2: "?n s2 \<le> ?n ?s5" "?n s \<le> ?n s2" using to4 to2 by (auto simp: extends_def)
  note patched = patch_loop [OF s5 at5 D3(6) pend n2(1) _ _ _ _ r(5) to5 n2(2)]
  have "?n s4 \<le> ?n ?s5" "?D4 (?n s4) = ?d + 2" "?n s1 \<le> ?n ?s5" "?D4 (?n s1) = ?d + 2" using g(3) next_pc D3(3) by auto
  note s6 = patched [OF this]
  have "shifts {} 2 0 (emit_op ''FOR_END'' [])" by (rule shifts_emit) (simp_all add: op_tables)
  from shifts_inv [OF this s6(1) _ r(6)] s6(3) g(3) obtain D7 where "extends ?D4 s6 D7 s'" "gen_inv D7 P s' ds" "D7 (?n s') = ?d"
    by auto
  then show "\<exists>D'. extends D s D' s' \<and> gen_inv D' P s' ds \<and> D' (?n s') = ?d" using extends_trans [OF s6(2)] by blast
qed

lemma stmt_for:
  assumes body: "stmt_ok {} body"
  shows "stmt_ok {} (compileFor keyName valueName iterable body sp)"
proof -
  have init: "shifts {l} 1 2 (emit_local ''FOR_LIST_INIT'' l)" "shifts {l} 2 2 (emit_local ''FOR_RANGE_INIT'' l)" for l
    by (rule shifts_emit_local; simp add: op_tables)+
  have map_init: "shifts L 1 2 (emit_op ''FOR_MAP_INIT'' [])" for L by (rule shifts_emit) (simp_all add: op_tables)
  have v: "shifts L 0 1 (compileExpr e)" "shifts L 1 2 (compileExpr e)" for L e
    using shifts_value [OF compileExpr_value, of L 0] shifts_value [OF compileExpr_value, of L 1] by (simp_all add: numeral_2_eq_2)
  have nexts: "for_next ''FOR_LIST_NEXT'' [l]" "for_next ''FOR_RANGE_NEXT'' [l]" "for_next ''FOR_MAP_NEXT'' [k, l]" for k l
    by (simp_all add: for_next_def)
  have b: "stmt_ok L body" for L by (rule stmt_mono [OF body]) simp
  have range: "stmt_ok {} (gen_seq (ensureLoopLocal keyName sp) (\<lambda>l. loop_from (gen_then (compileExpr hi)
      (gen_then (compileExpr lo) (emit_local ''FOR_RANGE_INIT'' l))) body ''FOR_RANGE_NEXT'' [l]))" for lo hi
    by (rule stmt_bind_local, rule stmt_loop_from [OF shifts_then [OF v(1) shifts_then [OF v(2) init(2)]] b nexts(2)]) simp
  have over_map: "stmt_ok {} (gen_seq (ensureLoopLocal keyName sp) (\<lambda>k. gen_seq (ensureLoopLocal vname sp) (\<lambda>v.
      loop_from (gen_then (compileExpr e) (emit_op ''FOR_MAP_INIT'' [])) body ''FOR_MAP_NEXT'' [k, v])))" for e vname
    by (rule stmt_bind_local, rule stmt_bind_local, rule stmt_loop_from [OF shifts_then [OF v(1) map_init] b nexts(3)]) simp
  have over_list: "stmt_ok {} (gen_seq (ensureLoopLocal keyName sp) (\<lambda>l.
      loop_from (gen_then (compileExpr e) (emit_local ''FOR_LIST_INIT'' l)) body ''FOR_LIST_NEXT'' [l]))" for e
    by (rule stmt_bind_local, rule stmt_loop_from [OF shifts_then [OF v(1) init(1)] b nexts(1)]) simp
  show ?thesis unfolding compileFor_def using range over_map over_list by (auto split: expr.split option.split)
qed

text \<open>\<open>break\<close> and \<open>continue\<close> leave a jump at the depth of the innermost loop.\<close>

lemma stmt_on_loop:
  assumes add: "\<And>j loop. loop_items (add j loop) = insert j (loop_items loop)"
  shows "stmt_ok L (on_loop keyword sp add)"
  unfolding stmt_ok_def
proof (intro allI impI)
  fix D P ds and s s' :: codegen
  let ?n = "length (cg_ops s)"
  assume inv: "gen_inv D P s ds" and d: "ds \<noteq> [] \<longrightarrow> D ?n = hd ds" and run: "on_loop keyword sp add s = Inr ((), s')"
  obtain loop outer where l: "cg_loops s = loop # outer" using run by (auto simp: on_loop_def gen_fail_def split: list.splits)
  obtain j s1 where r: "emit ''JUMP'' [WInt 0] s = Inr (j, s1)" "s' = s1\<lparr>cg_loops := add j loop # outer\<rparr>"
    using run l by (auto simp: on_loop_def gen_seq_def emitJump_def gen_update_def split: sum.splits)
  note e = emit_pending [OF inv r(1)] and e' = emit_pending_inv [OF inv r(1), of "D ?n"]
  let ?D = "D(Suc j := D ?n)"
  have pend: "pend s' = insert j (pend s1)" "pend s1 = pend s" using e(2) l r(2) by (simp_all add: pend_def add)
  have "gen_ok ?D (P \<union> pend s') s'" using e'(2) r(2) pend by (simp add: gen_inv_def gen_ok_def)
  moreover have "list_all2 (\<lambda>loop d. loop_ok ?D s' d loop) (cg_loops s') ds"
    using e'(2) e(1-4) l r(2) d by (cases ds) (auto simp: gen_inv_def loop_ok_def add)
  ultimately have "gen_inv ?D P s' ds" by (simp add: gen_inv_def)
  moreover have "extends D s ?D s'" using e'(1) e(1,2) l r(2) pend add by (auto simp: extends_def)
  ultimately show "\<exists>D'. extends D s D' s' \<and> gen_inv D' P s' ds \<and> D' (length (cg_ops s')) = D ?n"
    using e(1,4) r(2) by (intro exI [of _ ?D]) simp
qed

section \<open>Handlers\<close>

lemma try_push_ok:
  assumes "lit < L" "D (Suc i) = D i" "t \<le> n" "D t = Suc (D i)"
  shows "op_ok n L N D i (''TRY_PUSH'', [WInt 0, WInt (int lit)][0 := WInt (int t - int i - 1)])"
proof -
  have "lands n D i (WInt (int t - int i - 1)) (Suc (D i))" using assms(3,4) by (simp add: lands_def)
  then show ?thesis using assms(1,2)
    by (simp add: op_ok_def Let_def op_arity_def jump_slot_def literal_slots_def local_slots_def operand_def)
qed

lemma shifts_ensureLoopLocal: "(\<And>l. shifts (insert l L) a b (k l)) \<Longrightarrow> shifts L a b (gen_seq (ensureLoopLocal name sp) k)"
  by (rule shifts_bind_local) (metis ensureLoopLocal_ok)

lemma stmt_try:
  assumes body: "stmt_ok {} body" and handler: "stmt_ok {} handler"
  shows "stmt_ok {} (compileTry body errorName errorCodes handler sp)"
  unfolding stmt_ok_def
proof (intro allI impI)
  fix D P ds and s s' :: codegen
  let ?n = "\<lambda>s :: codegen. length (cg_ops s)"
  assume inv: "gen_inv D P s ds" and d: "ds \<noteq> [] \<longrightarrow> D (?n s) = hd ds"
    and run: "compileTry body errorName errorCodes handler sp s = Inr ((), s')"
  let ?d = "D (?n s)" and ?bind = "gen_seq (ensureLoopLocal errorName sp) (emit_local ''POP_LOCAL'')"
  obtain lit s1 j s2 s3 s4 k s5 l s7 s8 s9 where r: "literal_index (WList (map WStr errorCodes)) s = Inr (lit, s1)"
      "emit ''TRY_PUSH'' [WInt 0, WInt (int lit)] s1 = Inr (j, s2)" "body s2 = Inr ((), s3)" "emit_op ''TRY_POP'' [] s3 = Inr ((), s4)"
      "emit ''JUMP'' [WInt 0] s4 = Inr (k, s5)" "ensureLoopLocal errorName sp (patch_operand 0 j (?n s5) s5) = Inr (l, s7)"
      "emit_local ''POP_LOCAL'' l s7 = Inr ((), s8)" "handler s8 = Inr ((), s9)" "s' = patch_operand 0 k (?n s9) s9"
    using run by (auto simp: compileTry_def gen_then_def gen_seq_def emitJump_def patch_here_def here_def gen_read_def patchJump_def
        gen_update_def split: sum.splits)
  have "gen_ok D (P \<union> pend s) s" using inv by (simp add: gen_inv_def)
  note lit = literal_index_ok [OF this r(1)]
  have s1: "gen_inv D P s1 ds" by (rule inv_extends [OF inv lit(2,1,5)])
  note j = emit_pending [OF s1 r(2)] and j' = emit_pending_inv [OF s1 r(2), of ?d]
  from stmtE [OF body j'(2) r(3)] d obtain D3 where D3: "extends (D(Suc j := ?d)) s2 D3 s3" "gen_inv D3 (insert j P) s3 ds"
      "D3 (?n s3) = ?d" using j(4) by auto
  have "shifts {} 0 0 (emit_op ''TRY_POP'' [])" by (rule shifts_emit) (simp_all add: op_tables)
  from shifts_inv [OF this D3(2) _ r(4)] D3(3) obtain D4 where D4: "extends D3 s3 D4 s4" "gen_inv D4 (insert j P) s4 ds" "D4 (?n s4) = ?d"
    by auto
  note k = emit_pending [OF D4(2) r(5)] and k' = emit_pending_inv [OF D4(2) r(5), of "Suc ?d"]
  let ?D5 = "D4(Suc k := Suc ?d)" and ?s6 = "patch_operand 0 j (?n s5) s5"
  have to5: "extends (D(Suc j := ?d)) s2 ?D5 s5" by (rule extends_trans [OF D3(1) extends_trans [OF D4(1) k'(1)]])
  have "j < ?n s2" using j by simp
  note j5 = extends_pending [OF to5 this j(5)]
  have depth: "?D5 j = ?d" "?D5 (Suc j) = ?d" "?n s \<le> j" using j5 j(1) lit(4) by auto
  have op: "cg_ops s5 ! j = (''TRY_PUSH'', [WInt 0, WInt (int lit)])" using j5(2) j by simp
  have "extends D s1 (D(Suc j := ?d)) s2" by (rule j'(1))
  then have "lit < length (cg_literals s5)" using lit(3) to5 by (auto simp: extends_def)
  moreover have "gen_inv ?D5 (insert j (insert k P)) s5 ds" using k'(2) by (simp add: insert_commute)
  ultimately have s6: "gen_inv ?D5 (insert k P) ?s6 ds"
    by (intro patch_inv [OF _ j5(5,1) op] try_push_ok) (use depth k in simp_all)
  have to6: "extends D s ?D5 ?s6"
    by (rule patch_extends [OF extends_trans [OF extends_trans [OF lit(2) j'(1)] to5] depth(3)])
  have "shifts {} 1 0 ?bind" by (rule shifts_ensureLoopLocal, rule shifts_emit_local) (simp_all add: op_tables)
  moreover have "?bind ?s6 = Inr ((), s8)" using r(6,7) by (simp add: gen_seq_def)
  ultimately obtain D8 where D8: "extends ?D5 ?s6 D8 s8" "gen_inv D8 (insert k P) s8 ds" "D8 (?n s8) = ?d"
    using shifts_inv [of "{}" 1 0 ?bind ?D5 "insert k P" ?s6 ds "()" s8] s6 k(1,4) by auto
  from stmtE [OF handler D8(2) r(8)] D8(3) d obtain D9 where D9: "extends D8 s8 D9 s9" "gen_inv D9 (insert k P) s9 ds" "D9 (?n s9) = ?d"
    by auto
  have k6: "k < ?n ?s6" "k \<notin> pend ?s6" "cg_ops ?s6 ! k = (''JUMP'', [WInt 0])"
    using k j'(1) D3(1) D4(1) j(1,4) by (auto simp: pend_def patch_operand_def extends_def)
  note k9 = extends_pending [OF extends_trans [OF D8(1) D9(1)] k6(1,2)]
  have "gen_inv D9 P s' ds" unfolding r(9)
    by (rule patch_landed [OF D9(2) k9(5,1), where name = "''JUMP''" and os = "[WInt 0]" and p = 0 and q = 0])
      (use k9 k6 k D4(3) D9(3) in \<open>auto simp: op_arity_def\<close>)
  moreover have "extends D s D9 s'" unfolding r(9)
    by (rule patch_extends [OF extends_trans [OF to6 extends_trans [OF D8(1) D9(1)]]])
      (use to6 k(1,4) j5(1) j(1,4) lit(4) to5 in \<open>auto simp: extends_def\<close>)
  ultimately show "\<exists>D'. extends D s D' s' \<and> gen_inv D' P s' ds \<and> D' (?n s') = ?d"
    using D9(3) r(9) by (intro exI [of _ D9]) simp
qed

section \<open>Programs\<close>

lemma value_or_null_value: "value_code (value_or_null v)"
  by (auto simp: value_or_null_def compileExpr_value value_literal split: option.split)

lemma shifts_pop_local: "l \<in> L \<Longrightarrow> shifts L (Suc d) d (emit_local ''POP_LOCAL'' l)"
  by (rule shifts_frame [OF shifts_emit_local, of l L _ 1 0]) (simp_all add: op_tables)

lemma shifts_push_local: "l \<in> L \<Longrightarrow> shifts L d (Suc d) (emit_local ''PUSH_LOCAL'' l)"
  by (rule shifts_frame [OF shifts_emit_local, of l L _ 0 1]) (simp_all add: op_tables)

lemma stmt_var_decl: "stmt_ok {} (compileVarDecl name v sp)"
  unfolding compileVarDecl_def
  by (rule stmt_shifts, rule shifts_declareLocal, rule shifts_then [OF shifts_value [OF value_or_null_value]], rule shifts_pop_local) simp

lemma stmt_assign: "stmt_ok {} (compileAssign target v sp)"
proof -
  have e: "shifts L d (Suc d) (compileExpr e)" for L d e by (rule shifts_value [OF compileExpr_value])
  have set_prop: "shifts {} (Suc (Suc (Suc 0))) 0 (emit_op ''SET_PROP'' [])" by (rule emit_arity) (simp_all add: op_tables)
  have set_index: "shifts L (Suc (Suc (Suc 0))) (Suc 0) (emit_op ''INDEX_SET'' [])" for L by (rule emit_arity) (simp_all add: op_tables)
  have local: "shifts {} 0 0 (gen_seq (requireLocal name tsp) (\<lambda>l. gen_then (compileExpr v) (emit_local ''POP_LOCAL'' l)))" for name tsp
    by (rule shifts_requireLocal, rule shifts_then [OF e], rule shifts_pop_local) simp
  have named: "shifts {} 0 0 (gen_then (compileExpr obj) (gen_then (push_literal (WStr name)) (gen_then (compileExpr v)
      (emit_op ''SET_PROP'' []))))" for obj name
    by (rule shifts_then [OF e shifts_then [OF shifts_literal shifts_then [OF e set_prop]]])
  have dynamic: "shifts {} 0 0 (gen_then (compileExpr obj) (gen_then (compileExpr name) (gen_then (compileExpr v)
      (emit_op ''SET_PROP'' []))))" for obj name
    by (rule shifts_then [OF e shifts_then [OF e shifts_then [OF e set_prop]]])
  have index: "shifts {} 0 0 (gen_seq (requireLocal name osp) (\<lambda>l. gen_then (emit_local ''PUSH_LOCAL'' l)
      (gen_then (compileExpr i) (gen_then (compileExpr v) (gen_then (emit_op ''INDEX_SET'' []) (emit_local ''POP_LOCAL'' l))))))"
    for name osp i
    by (rule shifts_requireLocal, rule shifts_then [OF shifts_push_local shifts_then [OF e shifts_then [OF e
        shifts_then [OF set_index shifts_pop_local]]]]) simp_all
  show ?thesis unfolding compileAssign_def using local named dynamic index
    by (intro stmt_shifts) (auto simp: shifts_fail split: expr.split)
qed

lemma shifts_special: "shifts L 0 0 (compileSpecialCallStatement e)"
proof -
  have give: "shifts L 0 0 (gen_give b)" for b :: bool by (rule shifts_id(1))
  have args: "list_all value_code (map compileExpr args)" for args by (simp add: list_all_iff compileExpr_value)
  show ?thesis unfolding compileSpecialCallStatement_def
    using shifts_then [OF shifts_observe [OF args] give] shifts_then [OF shifts_emit_call [OF args] give] give
    by (auto split: expr.split)
qed

lemma stmt_expr: "stmt_ok {} (compile_expr_stmt e)"
proof -
  have "shifts {} (Suc 0) 0 (emit_op ''POP'' [])" by (rule emit_arity) (simp_all add: op_tables)
  then have "shifts {} 0 0 (if special then gen_give () else gen_then (compileExpr e) (emit_op ''POP'' []))" for special
    by (cases special) (auto intro: shifts_id(1) shifts_then [OF shifts_value [OF compileExpr_value]])
  then show ?thesis unfolding compile_expr_stmt_def by (intro stmt_shifts shifts_seq [OF shifts_special])
qed

lemma stmt_leave:
  assumes "value_code m" "decode_op name \<in> {RETURN, RAISE}"
  shows "stmt_ok {} (gen_then m (emit_op name []))"
proof -
  have "shifts {} (Suc 0) 0 (emit_op name [])" by (rule emit_arity) (use assms(2) in \<open>auto simp: op_tables\<close>)
  then show ?thesis by (intro stmt_shifts shifts_then [OF shifts_value [OF assms(1)]])
qed

lemma compile_stmts_ok:
  "stmt_ok {} (compileStmt st)" "stmt_ok {} (compileBlock b)" "stmt_ok {} (compileIf i)" "pred_option (stmt_ok {}) (compile_alternate a)"
proof (induction st and b and i and a rule: stmt.induct block.induct if_stmt.induct alternate.induct)
  case (Block statements sp)
  then show ?case by (auto simp: list_all_iff intro!: stmt_all)
next
  case (If_then test consequent otherwise sp)
  then show ?case by (auto intro: stmt_if [OF compileExpr_value])
next
  case (BreakStmt sp)
  show ?case by (auto simp: compileBreak_def loop_items_def intro!: stmt_withSpan stmt_on_loop)
next
  case (ContinueStmt sp)
  show ?case by (auto simp: compileContinue_def loop_items_def intro!: stmt_withSpan stmt_on_loop)
next
  case (WhileStmt test body sp)
  then show ?case by (auto intro!: stmt_withSpan stmt_while [OF compileExpr_value])
qed (auto intro!: stmt_withSpan stmt_var_decl stmt_assign stmt_expr stmt_for stmt_try stmt_leave value_or_null_value compileExpr_value)

lemma shifts_declare_params: "shifts {} 0 0 (declare_params p)"
proof -
  have "shifts {} 0 0 (gen_all (map (\<lambda>param. gen_then (declareLocal param sp) (gen_give ())) params))" for params sp
    by (induction params) (auto simp: gen_then_def intro!: shifts_seq [where b = 0] shifts_declareLocal shifts_id)
  then show ?thesis by (simp add: declare_params_def)
qed

theorem compile_program_typed:
  assumes "compile_program p = Inr c"
  shows "\<exists>D. code_typed D (co_bytecode c)"
proof -
  obtain s where s: "gen_program p new_codegen = Inr ((), s)" "co_bytecode c = bytecode_of s"
    using assms by (auto simp: compile_program_def split: sum.splits)
  have "shifts {} (Suc 0) 0 (emit_op ''RETURN'' [])" by (rule emit_arity) (simp_all add: op_tables)
  then have "stmt_ok {} (gen_program p)"
    unfolding gen_program_def
    by (intro stmt_then stmt_shifts [OF shifts_declare_params] compile_stmts_ok(2) stmt_shifts [OF shifts_withSpan] shifts_then [OF shifts_literal])
  moreover have "gen_inv (\<lambda>_. 0) {} new_codegen []" by (simp add: gen_inv_def new_codegen_def gen_ok_def)
  ultimately obtain D where D: "extends (\<lambda>_. 0) new_codegen D s" "gen_inv D {} s []"
    using stmtE [of "{}" "gen_program p" "\<lambda>_. 0" "{}" new_codegen "[]" s] s(1) by auto
  have "pend s = {}" using D(2) by (simp add: gen_inv_def pend_def)
  then have "gen_ok D {} s" using D(2) by (simp add: gen_inv_def)
  then show ?thesis unfolding s(2) by (auto simp: code_typed_def bytecode_of_def gen_ok_def)
qed

end
