(* ===== verification/Stack_Safety.thy ===== *)
theory Stack_Safety
  imports Codegen_Sound VM_Facts
begin

text \<open>
  Typed code at run time. Every opcode of the interpreter changes the operand stack by its arity, goes on at
  the next opcode or at its jump, and touches no handler but its own; so a frame that runs typed code holds,
  at every program counter, exactly the values the typing says, whatever the world, the other frames and the
  errors on the way do.
\<close>

section \<open>What an operation does to stack, counter and handlers\<close>

definition flows :: "int set \<Rightarrow> int \<Rightarrow> ('w, 'a) frame_op \<Rightarrow> bool" where
  "flows S c m \<longleftrightarrow> (\<forall>f w. case m f w of (r, f', w') \<Rightarrow> vf_handlers f' = vf_handlers f \<and>
     (\<forall>a. r = Inr a \<longrightarrow> int (length (vf_stack f')) = int (length (vf_stack f)) + c \<and> (vf_pc f' = vf_pc f \<or> vf_pc f' \<in> S)))"

named_theorems flow_ops "stack effect of operations"

lemma flows_basic [flow_ops]:
  "c = 0 \<Longrightarrow> flows S c (op_give a)" "c = 0 \<Longrightarrow> flows S c (op_check r)" "c = 0 \<Longrightarrow> flows S c (op_read g)"
  "flows S c (op_fail e)" "flows S c (woo_fail code message v)" "c = 0 \<Longrightarrow> flows S c (op_world h)"
  by (auto simp: flows_def op_give_def op_check_def op_read_def op_fail_def woo_fail_def op_world_def split: prod.split)

lemma flows_update [flow_ops]:
  "c = 0 \<Longrightarrow> (\<And>f. length (vf_stack (g f)) = length (vf_stack f) \<and> vf_handlers (g f) = vf_handlers f \<and> vf_pc (g f) = vf_pc f)
    \<Longrightarrow> flows S c (op_update g)"
  by (simp add: flows_def op_update_def)

lemma flows_seq [flow_ops]:
  assumes "flows S c m" "\<And>a. flows S (d - c) (k a)"
  shows "flows S d (op_seq m k)"
  unfolding flows_def
proof (intro allI)
  fix f w
  obtain r f' w' where m: "m f w = (r, f', w')" by (cases "m f w")
  have 1: "vf_handlers f' = vf_handlers f" "\<And>a. r = Inr a \<Longrightarrow> int (length (vf_stack f')) = int (length (vf_stack f)) + c
      \<and> (vf_pc f' = vf_pc f \<or> vf_pc f' \<in> S)"
    using assms(1) m by (auto simp: flows_def dest!: spec [of _ f] spec [of _ w])
  show "case op_seq m k f w of (r, f', w') \<Rightarrow> vf_handlers f' = vf_handlers f \<and>
     (\<forall>a. r = Inr a \<longrightarrow> int (length (vf_stack f')) = int (length (vf_stack f)) + d \<and> (vf_pc f' = vf_pc f \<or> vf_pc f' \<in> S))"
  proof (cases r)
    case (Inr a)
    obtain r2 f2 w2 where k: "k a f' w' = (r2, f2, w2)" by (cases "k a f' w'")
    have "vf_handlers f2 = vf_handlers f' \<and> (\<forall>b. r2 = Inr b \<longrightarrow> int (length (vf_stack f2)) = int (length (vf_stack f')) + (d - c)
        \<and> (vf_pc f2 = vf_pc f' \<or> vf_pc f2 \<in> S))"
      using assms(2) [of a] k by (auto simp: flows_def dest!: spec [of _ f'] spec [of _ w'])
    then show ?thesis using 1 m k Inr by (auto simp: op_seq_def)
  qed (use 1 m in \<open>simp add: op_seq_def\<close>)
qed

lemma flows_if [flow_ops]: "(b \<Longrightarrow> flows S c m) \<Longrightarrow> (\<not> b \<Longrightarrow> flows S c m') \<Longrightarrow> flows S c (if b then m else m')"
  by simp

lemma flows_let [flow_ops]: "(\<And>x. flows S c (m x)) \<Longrightarrow> flows S c (Let a m)"
  by simp

lemma flows_option [flow_ops]: "flows S c m \<Longrightarrow> (\<And>x. flows S c (k x)) \<Longrightarrow> flows S c (case r of None \<Rightarrow> m | Some x \<Rightarrow> k x)"
  by (cases r) simp_all

lemma flows_pair [flow_ops]: "(\<And>a b. flows S c (k a b)) \<Longrightarrow> flows S c (case r of (a, b) \<Rightarrow> k a b)"
  by (cases r) simp

lemma flows_value [flow_ops]:
  "flows S c m0 \<Longrightarrow> flows S c m1 \<Longrightarrow> (\<And>x. flows S c (m2 x)) \<Longrightarrow> (\<And>x. flows S c (m3 x)) \<Longrightarrow> (\<And>x. flows S c (m4 x)) \<Longrightarrow>
   (\<And>x. flows S c (m5 x)) \<Longrightarrow> (\<And>x. flows S c (m6 x)) \<Longrightarrow>
   flows S c (case v of WUndef \<Rightarrow> m0 | WNull \<Rightarrow> m1 | WBool x \<Rightarrow> m2 x | WNum x \<Rightarrow> m3 x | WStr x \<Rightarrow> m4 x | WList x \<Rightarrow> m5 x | WMap x \<Rightarrow> m6 x)"
  by (cases v) simp_all

lemma flows_number [flow_ops]:
  "(\<And>x. flows S c (m0 x)) \<Longrightarrow> (\<And>x. flows S c (m1 x)) \<Longrightarrow> flows S c m2 \<Longrightarrow>
   flows S c (case n of Finite x \<Rightarrow> m0 x | Infinite x \<Rightarrow> m1 x | Not_a_number \<Rightarrow> m2)"
  by (cases n) simp_all

lemma flows_each: "(\<And>x. flows S 0 (m x)) \<Longrightarrow> flows S 0 (op_each m xs)"
  by (induction xs) (auto intro!: flow_ops)

lemma flows_each0 [flow_ops]: "c = 0 \<Longrightarrow> (\<And>x. flows S 0 (m x)) \<Longrightarrow> flows S c (op_each m xs)"
  by (simp add: flows_each)

section \<open>Primitives\<close>

lemma flows_stack [flow_ops]:
  "c = - 1 \<Longrightarrow> flows S c pop" "c = 1 \<Longrightarrow> flows S c (push v)" "c = 0 \<Longrightarrow> flows S c peek" "c = 0 \<Longrightarrow> flows S c (allocate v)"
  "c = 0 \<Longrightarrow> flows S c (chargeTicks n)" "c = 0 \<Longrightarrow> flows S c (set_local i v)" "c = 0 \<Longrightarrow> flows S c (set_top v)" "c = 0 \<Longrightarrow> flows S c below_top"
  by (auto simp: flows_def pop_def push_def push_value_def peek_def allocate_def chargeTicks_def set_local_def set_top_def below_top_def
      op_update_def op_read_def Let_def split: list.split sum.split)

lemma flows_derived [flow_ops]:
  "c = 0 \<Longrightarrow> flows S c (literal v)" "c = 0 \<Longrightarrow> flows S c (localIndex v)" "c = 0 \<Longrightarrow> flows S c (world_method W n args)"
  "c = 0 \<Longrightarrow> flows S c (read_ctx h)" "flows S c (arity_fail message)"
  unfolding literal_def localIndex_def world_method_def read_ctx_def arity_fail_def
  by (rule flow_ops | rule refl | simp)+

lemma flows_pop_many: "flows S (- int n) (pop_many n vs)"
  by (induction n arbitrary: vs) (auto intro!: flow_ops)

lemma flows_pop_strings: "flows S (- int n) (pop_strings n parts)"
  by (induction n arbitrary: parts) (auto intro!: flow_ops)

lemma flows_pop_entries: "flows S (- 2 * int n) (pop_entries n entries)"
  by (induction n arbitrary: entries) (auto intro!: flow_ops)

lemma flows_pops [flow_ops]:
  "c = - int n \<Longrightarrow> flows S c (pop_many n vs)" "c = - int n \<Longrightarrow> flows S c (pop_strings n parts)"
  "c = - 2 * int n \<Longrightarrow> flows S c (pop_entries n entries)" "c = - int (nat i) \<Longrightarrow> flows S c (popArgs i)"
  unfolding popArgs_def by (simp_all only: flows_pop_many flows_pop_strings flows_pop_entries)

section \<open>Builtins and operators\<close>

lemma flows_builtins [flow_ops]:
  "c = 0 \<Longrightarrow> flows S c (builtin_schedule W rel args)" "c = 0 \<Longrightarrow> flows S c (builtin_create W args)"
  "c = 0 \<Longrightarrow> flows S c (builtin_has_flag W args)" "c = 0 \<Longrightarrow> flows S c (builtin_idle_seconds W args)"
  "c = 0 \<Longrightarrow> flows S c (builtin_ordered_children W args)" "c = 0 \<Longrightarrow> flows S c (builtin_ordered_neighbors W args)"
  "c = 0 \<Longrightarrow> flows S c (builtin_with_clock W m l n args)" "c = 0 \<Longrightarrow> flows S c (builtin_directory_reconcile W args)"
  "c = 0 \<Longrightarrow> flows S c (builtin_random W args)" "c = 0 \<Longrightarrow> flows S c (builtin_location W args)"
  "c = 0 \<Longrightarrow> flows S c (builtin_all_locations W args)" "c = 0 \<Longrightarrow> flows S c (builtin_primary_session W args)"
  "c = 0 \<Longrightarrow> flows S c (builtin_set_presence W args)" "c = 0 \<Longrightarrow> flows S c (builtin_observe_to_space W args)"
  "c = 0 \<Longrightarrow> flows S c (builtin_dispatch W args)" "c = 0 \<Longrightarrow> flows S c (builtin_collect_prop W args)"
  "c = 0 \<Longrightarrow> flows S c (builtin_object_tree_rows W args)" "c = 0 \<Longrightarrow> flows S c (world_dispatch W obj nm args a b)"
  "c = 0 \<Longrightarrow> flows S c (builtin_set_task_perms W args)"
  unfolding builtin_defs builtin_set_task_perms_def by (rule flow_ops | rule refl | simp)+

lemma flows_frame_builtin:
  assumes "frame_builtin W name args = Some m"
  shows "flows S 0 m"
  using assms unfolding frame_builtin_def
  by (auto split: if_split_asm intro!: flow_ops)

lemma flows_frame_case: "c = 0 \<and> flows S 0 k \<Longrightarrow> flows S c (case frame_builtin W name args of Some m \<Rightarrow> m | None \<Rightarrow> k)"
  by (auto split: option.split dest: flows_frame_builtin)

lemma flows_callBuiltin: "flows S 0 (callBuiltin W n args)" "flows S 0 (tryFastBuiltin W n args)"
  unfolding callBuiltin_def tryFastBuiltin_def forward_builtin_def
  by (rule flows_frame_case conjI | rule flow_ops | rule refl | simp)+

lemma flows_calls [flow_ops]: "c = 0 \<Longrightarrow> flows S c (callBuiltin W n args)" "c = 0 \<Longrightarrow> flows S c (tryFastBuiltin W n args)"
  by (simp_all add: flows_callBuiltin)

lemma flows_errors [flow_ops]: "flows S c (operands_error msg l r)" "flows S c (index_error i)"
  unfolding operands_error_def index_error_def by (intro flow_ops)+

lemma flows_operators':
  "flows S (- 1) binaryArithmetic" "flows S (- 1) (numericBinary fn)" "flows S (- 1) multiply"
  "flows S (- 1) (compare num str)" "flows S (- 1) membership"
  "flows S 1 (list_get xs i)" "flows S 1 (list_set xs i v)" "flows S 1 (map_get m k)"
  unfolding binaryArithmetic_def numericBinary_def multiply_def compare_def membership_def list_get_def list_set_def map_get_def repeated_def
  by (rule flow_ops | rule refl | simp)+

lemma flows_operators [flow_ops]:
  "c = - 1 \<Longrightarrow> flows S c binaryArithmetic" "c = - 1 \<Longrightarrow> flows S c (numericBinary fn)" "c = - 1 \<Longrightarrow> flows S c multiply"
  "c = - 1 \<Longrightarrow> flows S c (compare num str)" "c = - 1 \<Longrightarrow> flows S c membership"
  "c = 1 \<Longrightarrow> flows S c (list_get xs i)" "c = 1 \<Longrightarrow> flows S c (list_set xs i v)" "c = 1 \<Longrightarrow> flows S c (map_get m k)"
  by (simp_all add: flows_operators')

lemma flows_pop_typed [flow_ops]:
  "c = - 1 \<Longrightarrow> flows S c pop_string" "c = - 1 \<Longrightarrow> flows S c pop_obj" "c = - 1 \<Longrightarrow> flows S c pop_map" "c = - 1 \<Longrightarrow> flows S c pop_list"
  "c = - 1 \<Longrightarrow> flows S c (pop_number l)" "c = 0 \<Longrightarrow> flows S c (handler_errors i)"
  "c = 0 \<Longrightarrow> flows S c (op_seq peek (\<lambda>v. op_check (g v)))" "c = 0 \<Longrightarrow> flows S c (op_seq below_top (\<lambda>v. op_check (g v)))"
  unfolding pop_string_def pop_obj_def pop_map_def pop_list_def pop_number_def handler_errors_def
  by (rule flow_ops | rule refl | simp)+

lemma flows_prop_method [flow_ops]: "c = - 2 \<Longrightarrow> flows S c (prop_method W nm)"
  unfolding prop_method_def by (rule flow_ops | rule refl | simp)+

text \<open>A jump goes to its target.\<close>

definition jump_targets :: "int \<Rightarrow> woo_value \<Rightarrow> int set" where
  "jump_targets pc v = (case v of WNum (Finite n) \<Rightarrow> {pc + n + 1} | _ \<Rightarrow> {})"

lemma numeric_Inr: "numeric label v = Inr n \<Longrightarrow> v = WInt n"
  by (cases "(label, v)" rule: numeric.cases) auto

lemma flows_jump [flow_ops]: "c = 0 \<Longrightarrow> flows (jump_targets pc v) c (jump pc v)"
  by (auto simp: flows_def jump_def op_seq_def op_check_def op_update_def jump_targets_def dest!: numeric_Inr split: sum.split)

section \<open>Opcodes\<close>

text \<open>The same for a whole opcode; the value of a call arrives when the callee returns.\<close>

definition op_flows :: "int set \<Rightarrow> int \<Rightarrow> ('w, frame_effect) frame_op \<Rightarrow> bool" where
  "op_flows S c m \<longleftrightarrow> (\<forall>f w. case m f w of (r, f', w') \<Rightarrow> vf_handlers f' = vf_handlers f \<and>
     (\<forall>eff. r = Inr eff \<longrightarrow> int (length (vf_stack f')) + (if \<exists>ctx b args. eff = Enter ctx b args then 1 else 0)
        = int (length (vf_stack f)) + c \<and> (vf_pc f' = vf_pc f \<or> vf_pc f' \<in> S)))"

lemma op_flows_stay: "flows S c m \<Longrightarrow> op_flows S c (stay m)"
  unfolding op_flows_def
proof (intro allI)
  fix f w
  assume m: "flows S c m"
  obtain r f' w' where r: "m f w = (r, f', w')" by (cases "m f w")
  then have "vf_handlers f' = vf_handlers f \<and> (\<forall>a. r = Inr a \<longrightarrow> int (length (vf_stack f')) = int (length (vf_stack f)) + c
      \<and> (vf_pc f' = vf_pc f \<or> vf_pc f' \<in> S))"
    using m by (auto simp: flows_def dest!: spec [of _ f] spec [of _ w])
  then show "case stay m f w of (r, f', w') \<Rightarrow> vf_handlers f' = vf_handlers f \<and>
     (\<forall>eff. r = Inr eff \<longrightarrow> int (length (vf_stack f')) + (if \<exists>ctx b args. eff = Enter ctx b args then 1 else 0)
        = int (length (vf_stack f)) + c \<and> (vf_pc f' = vf_pc f \<or> vf_pc f' \<in> S))"
    using r by (cases r) (auto simp: stay_def op_seq_def op_give_def)
qed

lemma op_flows_leaf: "c = 0 \<Longrightarrow> op_flows S c (op_give Stay)" "c = 0 \<Longrightarrow> op_flows S c (op_give (Leave v))"
  "c = 1 \<Longrightarrow> op_flows S c (op_give (Enter ctx b args))" "op_flows S c (woo_fail code message v)" "op_flows S c (op_fail e)"
  by (auto simp: op_flows_def op_give_def woo_fail_def op_fail_def)

lemma op_flows_seq:
  assumes "flows S c m" "\<And>a. op_flows S (d - c) (k a)"
  shows "op_flows S d (op_seq m k)"
  unfolding op_flows_def
proof (intro allI)
  fix f w
  let ?in = "\<lambda>eff. (if \<exists>ctx b args. eff = Enter ctx b args then 1 else 0) :: int"
  obtain r f' w' where m: "m f w = (r, f', w')" by (cases "m f w")
  have 1: "vf_handlers f' = vf_handlers f" "\<And>a. r = Inr a \<Longrightarrow> int (length (vf_stack f')) = int (length (vf_stack f)) + c
      \<and> (vf_pc f' = vf_pc f \<or> vf_pc f' \<in> S)"
    using assms(1) m by (auto simp: flows_def dest!: spec [of _ f] spec [of _ w])
  show "case op_seq m k f w of (r, f', w') \<Rightarrow> vf_handlers f' = vf_handlers f \<and> (\<forall>eff. r = Inr eff \<longrightarrow>
      int (length (vf_stack f')) + ?in eff = int (length (vf_stack f)) + d \<and> (vf_pc f' = vf_pc f \<or> vf_pc f' \<in> S))"
  proof (cases r)
    case (Inr a)
    obtain r2 f2 w2 where k: "k a f' w' = (r2, f2, w2)" by (cases "k a f' w'")
    have "vf_handlers f2 = vf_handlers f' \<and> (\<forall>eff. r2 = Inr eff \<longrightarrow> int (length (vf_stack f2)) + ?in eff
        = int (length (vf_stack f')) + (d - c) \<and> (vf_pc f2 = vf_pc f' \<or> vf_pc f2 \<in> S))"
      using assms(2) [of a, unfolded op_flows_def, rule_format, of f' w'] unfolding k by simp
    then show ?thesis using 1 m k Inr by (auto simp: op_seq_def)
  qed (use 1 m in \<open>simp add: op_seq_def\<close>)
qed

lemma op_flows_if: "(b \<Longrightarrow> op_flows S c m) \<Longrightarrow> (\<not> b \<Longrightarrow> op_flows S c m') \<Longrightarrow> op_flows S c (if b then m else m')"
  by simp

lemma op_flows_option: "op_flows S c m \<Longrightarrow> (\<And>x. op_flows S c (k x)) \<Longrightarrow> op_flows S c (case r of None \<Rightarrow> m | Some x \<Rightarrow> k x)"
  by (cases r) simp_all

lemma op_flows_pair: "(\<And>a b. op_flows S c (k a b)) \<Longrightarrow> op_flows S c (case r of (a, b) \<Rightarrow> k a b)"
  by (cases r) simp

lemmas op_flow_rules = op_flows_stay op_flows_leaf op_flows_seq op_flows_if op_flows_option op_flows_pair

lemma op_flows_callVerb: "c = 1 \<Longrightarrow> op_flows S c (callVerb W obj name args startAt)"
  unfolding callVerb_def by (rule op_flow_rules | rule flow_ops | rule refl | simp)+

lemma op_flows_ctx: "c = 1 \<Longrightarrow> op_flows S c (push_ctx g)"
  unfolding push_ctx_def by (rule op_flow_rules | rule flow_ops | rule refl | simp)+

lemma op_flows_jump_if: "c = 0 \<Longrightarrow> op_flows (jump_targets pc v) c (jump_if b pc v)"
  unfolding jump_if_def by (rule op_flow_rules | rule flow_ops | rule refl | simp)+

lemma op_flows_bind_next: "c = 0 \<Longrightarrow> op_flows S c (bind_next slot v following)"
  unfolding bind_next_def by (rule op_flow_rules | rule flow_ops | rule refl | simp)+

lemma operand_count_numeric: "numeric label (operand os k) = Inr n \<Longrightarrow> operand_count os k = Some m \<Longrightarrow> m = nat n"
  using numeric_Inr by (fastforce simp: operand_count_def)

lemma flows_checked: "(\<And>a. r = Inr a \<Longrightarrow> flows S c (k a)) \<Longrightarrow> flows S c (op_seq (op_check r) k)"
  by (cases r) (auto simp: flows_def op_seq_def op_check_def)

lemma op_flows_checked: "(\<And>a. r = Inr a \<Longrightarrow> op_flows S c (k a)) \<Longrightarrow> op_flows S c (op_seq (op_check r) k)"
  by (cases r) (auto simp: op_flows_def op_seq_def op_check_def)

text \<open>The opcodes that count their operands.\<close>

lemma exec_counted_flows:
  "operand_count os 0 = Some n \<Longrightarrow> op_flows {} (1 - int (n + 2)) (exec_call_verb W os)"
  "operand_count os 0 = Some n \<Longrightarrow> op_flows {} (1 - int n) (exec_pass W os)"
  "operand_count os 0 = Some n \<Longrightarrow> op_flows {} (1 - int n) (exec_make_list os)"
  "operand_count os 0 = Some n \<Longrightarrow> op_flows {} (1 - int n) (exec_str_concat os)"
  "operand_count os 0 = Some n \<Longrightarrow> op_flows {} (1 - int (2 * n)) (exec_make_map os)"
  "operand_count os 1 = Some n \<Longrightarrow> op_flows {} (1 - int n) (exec_builtin W os)"
proof -
  assume n: "operand_count os 0 = Some n"
  note count = operand_count_numeric [OF _ n]
  have args: "flows {} (- int n) (popArgs argc)" if "numeric label (operand os 0) = Inr argc" for label argc
    using count [OF that] by (intro flows_pops(4)) simp
  show "op_flows {} (1 - int (n + 2)) (exec_call_verb W os)" unfolding exec_call_verb_def
    by (rule op_flows_checked, rule op_flows_seq [OF args], assumption)
      (rule op_flow_rules op_flows_callVerb | rule flow_ops | rule refl | simp)+
  show "op_flows {} (1 - int n) (exec_pass W os)" unfolding exec_pass_def
    by (rule op_flows_checked, rule op_flows_seq [OF args], assumption)
      (rule op_flow_rules op_flows_callVerb | rule flow_ops | rule refl | simp)+
  have c: "- int n = - int (nat a)" "- (2 * int n) = - 2 * int (nat a)" if "numeric label (operand os 0) = Inr a" for label a
    using count [OF that] by simp_all
  show "op_flows {} (1 - int n) (exec_make_list os)" unfolding exec_make_list_def
    by (rule op_flows_stay, rule flows_checked, rule flows_seq, rule flows_pops(1), erule c(1)) (rule flow_ops | rule refl | simp)+
  show "op_flows {} (1 - int n) (exec_str_concat os)" unfolding exec_str_concat_def
    by (rule op_flows_stay, rule flows_checked, rule flows_seq, rule flows_pops(2), erule c(1)) (rule flow_ops | rule refl | simp)+
  show "op_flows {} (1 - int (2 * n)) (exec_make_map os)" unfolding exec_make_map_def
    by (rule op_flows_stay, rule flows_checked, rule flows_seq, rule flows_pops(3), erule c(2)) (rule flow_ops | rule refl | simp)+
next
  assume n: "operand_count os 1 = Some n"
  have args: "flows {} (- int n) (popArgs argc)" if "numeric label (operand os 1) = Inr argc" for label argc
    using operand_count_numeric [OF that n] by (intro flows_pops(4)) simp
  show "op_flows {} (1 - int n) (exec_builtin W os)" unfolding exec_builtin_def
    by (rule op_flows_stay, rule flows_checked, rule flows_seq [OF args], assumption) (rule flow_ops | rule refl | simp)+
qed

definition op_targets :: "int \<Rightarrow> woo_value list \<Rightarrow> opcode \<Rightarrow> int set" where
  "op_targets pc os op = (case jump_slot op of None \<Rightarrow> {} | Some k \<Rightarrow> jump_targets pc (operand os k))"

lemma exec_flows_01: "op \<in> {PUSH_LIT, PUSH_INT, PUSH_LOCAL, PUSH_THIS, PUSH_ACTOR, PUSH_PLAYER, PUSH_CALLER, PUSH_PROGR, PUSH_VERB,
      PUSH_ARGS, PUSH_SPACE, PUSH_SEQ, PUSH_MESSAGE, PUSH_ARG} \<Longrightarrow> op_flows S 1 (exec_op W pc os op)"
  by (elim insertE emptyE; hypsubst; simp only: exec_op.simps exec_defs;
      (rule op_flow_rules op_flows_ctx | rule flow_ops | rule refl | simp)+)

lemma exec_flows_00: "op_flows S 0 (exec_op W pc os YIELD)"
  by (simp add: op_flows_leaf)

lemma exec_flows_10: "op \<in> {POP, POP_LOCAL, RETURN, RAISE, OBSERVE} \<Longrightarrow> op_flows S (- 1) (exec_op W pc os op)"
  by (elim insertE emptyE; hypsubst; simp only: exec_op.simps exec_defs; (rule op_flow_rules | rule flow_ops | rule refl | simp)+)

lemma exec_flows_11: "op \<in> {NEG, LNOT} \<Longrightarrow> op_flows S 0 (exec_op W pc os op)"
  by (elim insertE emptyE; hypsubst; simp only: exec_op.simps exec_defs; (rule op_flow_rules | rule flow_ops | rule refl | simp)+)

lemma exec_flows_12: "op \<in> {FOR_LIST_INIT, FOR_MAP_INIT, DUP} \<Longrightarrow> op_flows S 1 (exec_op W pc os op)"
  by (elim insertE emptyE; hypsubst; simp only: exec_op.simps exec_defs; (rule op_flow_rules | rule flow_ops | rule refl | simp)+)

lemma exec_flows_20: "op \<in> {FOR_END, EMIT, UNDEFINE_PROP} \<Longrightarrow> op_flows S (- 2) (exec_op W pc os op)"
  by (elim insertE emptyE; hypsubst; simp only: exec_op.simps exec_defs; (rule op_flow_rules | rule flow_ops | rule refl | simp)+)

lemma exec_flows_21: "op \<in> {ADD, SUB, MUL, DIV, MOD, EQ, NEQ, LT, LE, GT, GE, IN, GET_PROP, HAS_PROP, PROP_INFO, INDEX_GET,
      LIST_GET, LIST_APPEND, MAP_GET} \<Longrightarrow> op_flows S (- 1) (exec_op W pc os op)"
  by (elim insertE emptyE; hypsubst; simp only: exec_op.simps exec_defs; (rule op_flow_rules | rule flow_ops | rule refl | simp)+)

lemma exec_flows_22: "op \<in> {FOR_RANGE_INIT, SWAP} \<Longrightarrow> op_flows S 0 (exec_op W pc os op)"
  by (elim insertE emptyE; hypsubst; simp only: exec_op.simps exec_defs; (rule op_flow_rules | rule flow_ops | rule refl | simp)+)

lemma exec_flows_30: "op \<in> {SET_PROP, SET_PROP_INFO} \<Longrightarrow> op_flows S (- 3) (exec_op W pc os op)"
  by (elim insertE emptyE; hypsubst; simp only: exec_op.simps exec_defs; (rule op_flow_rules | rule flow_ops | rule refl | simp)+)

lemma exec_flows_31: "op \<in> {INDEX_SET, LIST_SET, MAP_SET} \<Longrightarrow> op_flows S (- 2) (exec_op W pc os op)"
  by (elim insertE emptyE; hypsubst; simp only: exec_op.simps exec_defs; (rule op_flow_rules | rule flow_ops | rule refl | simp)+)

lemma exec_flows_40: "op_flows S (- 4) (exec_op W pc os DEFINE_PROP)"
  by (simp only: exec_op.simps exec_defs) (rule op_flow_rules | rule flow_ops | rule refl | simp)+

lemma exec_flows_jump:
  "op \<in> {JUMP_IF_TRUE, JUMP_IF_FALSE} \<Longrightarrow> op_flows (op_targets pc os op) (- 1) (exec_op W pc os op)"
  "op \<in> {JUMP_IF_TRUE_KEEP, JUMP_IF_FALSE_KEEP} \<Longrightarrow> op_flows (op_targets pc os op) 0 (exec_op W pc os op)"
proof -
  have targets: "op_targets pc os JUMP_IF_TRUE = jump_targets pc (operand os 0)" "op_targets pc os JUMP_IF_FALSE = jump_targets pc (operand os 0)"
    "op_targets pc os JUMP_IF_TRUE_KEEP = jump_targets pc (operand os 0)" "op_targets pc os JUMP_IF_FALSE_KEEP = jump_targets pc (operand os 0)"
    by (simp_all add: op_targets_def jump_slot_def)
  show "op \<in> {JUMP_IF_TRUE, JUMP_IF_FALSE} \<Longrightarrow> op_flows (op_targets pc os op) (- 1) (exec_op W pc os op)"
    by (elim insertE emptyE; hypsubst; simp only: exec_op.simps targets; (rule op_flows_jump_if op_flow_rules | rule flow_ops | rule refl | simp)+)
  show "op \<in> {JUMP_IF_TRUE_KEEP, JUMP_IF_FALSE_KEEP} \<Longrightarrow> op_flows (op_targets pc os op) 0 (exec_op W pc os op)"
    by (elim insertE emptyE; hypsubst; simp only: exec_op.simps targets; (rule op_flows_jump_if op_flow_rules | rule flow_ops | rule refl | simp)+)
qed

lemma exec_flows_next: "op \<in> {FOR_LIST_NEXT, FOR_RANGE_NEXT, FOR_MAP_NEXT} \<Longrightarrow> op_flows (op_targets pc os op) 0 (exec_op W pc os op)"
proof -
  have targets: "op_targets pc os FOR_LIST_NEXT = jump_targets pc (operand os 1)"
    "op_targets pc os FOR_RANGE_NEXT = jump_targets pc (operand os 1)" "op_targets pc os FOR_MAP_NEXT = jump_targets pc (operand os 2)"
    by (simp_all add: op_targets_def jump_slot_def)
  show "op \<in> {FOR_LIST_NEXT, FOR_RANGE_NEXT, FOR_MAP_NEXT} \<Longrightarrow> op_flows (op_targets pc os op) 0 (exec_op W pc os op)"
    by (elim insertE emptyE; hypsubst; simp only: exec_op.simps targets;
        (rule op_flows_bind_next op_flow_rules | rule flows_pop_typed(7,8) | rule flow_ops | rule refl | simp)+)
qed

lemma exec_op_flows:
  assumes arity: "op_arity op os = Some (p, q)" and op: "op \<notin> {TRY_PUSH, TRY_POP, JUMP}"
  shows "op_flows (op_targets pc os op) (int q - int p) (exec_op W pc os op)"
proof -
  consider (counted) "op \<in> {CALL_VERB, PASS, MAKE_LIST, STR_CONCAT, MAKE_MAP, BUILTIN}"
    | (c0) "op \<in> {PUSH_LIT, PUSH_INT, PUSH_LOCAL, PUSH_THIS, PUSH_ACTOR, PUSH_PLAYER, PUSH_CALLER, PUSH_PROGR, PUSH_VERB,
      PUSH_ARGS, PUSH_SPACE, PUSH_SEQ, PUSH_MESSAGE, PUSH_ARG}"
    | (c1) "op \<in> {POP, POP_LOCAL, RETURN, RAISE, OBSERVE}"
    | (c2) "op \<in> {JUMP_IF_TRUE, JUMP_IF_FALSE}"
    | (c3) "op \<in> {NEG, LNOT}"
    | (c4) "op \<in> {JUMP_IF_TRUE_KEEP, JUMP_IF_FALSE_KEEP}"
    | (c5) "op \<in> {FOR_LIST_INIT, FOR_MAP_INIT, DUP}"
    | (c6) "op \<in> {FOR_END, EMIT, UNDEFINE_PROP}"
    | (c7) "op \<in> {ADD, SUB, MUL, DIV, MOD, EQ, NEQ, LT, LE, GT, GE, IN, GET_PROP, HAS_PROP, PROP_INFO, INDEX_GET,
      LIST_GET, LIST_APPEND, MAP_GET}"
    | (c8) "op \<in> {FOR_RANGE_INIT, SWAP}"
    | (c9) "op \<in> {FOR_LIST_NEXT, FOR_RANGE_NEXT, FOR_MAP_NEXT}"
    | (c10) "op \<in> {SET_PROP, SET_PROP_INFO}"
    | (c11) "op \<in> {INDEX_SET, LIST_SET, MAP_SET}"
    | (yield) "op = YIELD" | (defined) "op = DEFINE_PROP" | (other) "op = SPLAT" | (removed) name where "op = Removed_op name" | (unknown) name where "op = Unknown_op name"
    using op by (cases op) simp_all
  then show ?thesis
  proof cases
    case counted
    then show ?thesis using arity exec_counted_flows(1,2,6) [where W = W and os = os] exec_counted_flows(3-5) [of os]
      by (elim insertE emptyE) (auto simp: op_arity_def op_targets_def jump_slot_def)
  next
    case c0
    have "int q - int p = 1" using arity c0 by (elim insertE emptyE) (auto simp: op_arity_def)
    then show ?thesis using exec_flows_01 [OF c0] by simp
  next
    case c1
    have "int q - int p = - 1" using arity c1 by (elim insertE emptyE) (auto simp: op_arity_def)
    then show ?thesis using exec_flows_10 [OF c1] by simp
  next
    case c2
    have "int q - int p = - 1" using arity c2 by (elim insertE emptyE) (auto simp: op_arity_def)
    then show ?thesis using exec_flows_jump(1) [OF c2] by simp
  next
    case c3
    have "int q - int p = 0" using arity c3 by (elim insertE emptyE) (auto simp: op_arity_def)
    then show ?thesis using exec_flows_11 [OF c3] by simp
  next
    case c4
    have "int q - int p = 0" using arity c4 by (elim insertE emptyE) (auto simp: op_arity_def)
    then show ?thesis using exec_flows_jump(2) [OF c4] by simp
  next
    case c5
    have "int q - int p = 1" using arity c5 by (elim insertE emptyE) (auto simp: op_arity_def)
    then show ?thesis using exec_flows_12 [OF c5] by simp
  next
    case c6
    have "int q - int p = - 2" using arity c6 by (elim insertE emptyE) (auto simp: op_arity_def)
    then show ?thesis using exec_flows_20 [OF c6] by simp
  next
    case c7
    have "int q - int p = - 1" using arity c7 by (elim insertE emptyE) (auto simp: op_arity_def)
    then show ?thesis using exec_flows_21 [OF c7] by simp
  next
    case c8
    have "int q - int p = 0" using arity c8 by (elim insertE emptyE) (auto simp: op_arity_def)
    then show ?thesis using exec_flows_22 [OF c8] by simp
  next
    case c9
    have "int q - int p = 0" using arity c9 by (elim insertE emptyE) (auto simp: op_arity_def)
    then show ?thesis using exec_flows_next [OF c9] by simp
  next
    case c10
    have "int q - int p = - 3" using arity c10 by (elim insertE emptyE) (auto simp: op_arity_def)
    then show ?thesis using exec_flows_30 [OF c10] by simp
  next
    case c11
    have "int q - int p = - 2" using arity c11 by (elim insertE emptyE) (auto simp: op_arity_def)
    then show ?thesis using exec_flows_31 [OF c11] by simp
  next
    case yield
    then show ?thesis using arity exec_flows_00 by (auto simp: op_arity_def)
  next
    case defined
    then show ?thesis using arity exec_flows_40 by (auto simp: op_arity_def)
  qed (use arity in \<open>simp_all add: op_arity_def\<close>)
qed

section \<open>Frames that run typed code\<close>

definition handlers_at :: "(nat \<Rightarrow> nat) \<Rightarrow> vm_frame \<Rightarrow> bool" where
  "handlers_at D f \<longleftrightarrow> (\<forall>h \<in> set (vf_handlers f). 0 \<le> vh_targetPc h \<and> vh_targetPc h \<le> int (length (bc_ops (vf_bytecode f)))
     \<and> D (nat (vh_targetPc h)) = Suc (vh_stackDepth h))"

text \<open>The frame is at a counter of its code with the values the typing says there, \<open>k\<close> of them still to come.\<close>

definition runs_at :: "(nat \<Rightarrow> nat) \<Rightarrow> nat \<Rightarrow> vm_frame \<Rightarrow> bool" where
  "runs_at D k f \<longleftrightarrow> 0 \<le> vf_pc f \<and> vf_pc f \<le> int (length (bc_ops (vf_bytecode f)))
     \<and> length (vf_stack f) + k = D (nat (vf_pc f)) \<and> handlers_at D f"

definition frame_typed :: "nat \<Rightarrow> vm_frame \<Rightarrow> bool" where
  "frame_typed k f \<longleftrightarrow> (\<forall>D. code_typed D (vf_bytecode f) \<longrightarrow> runs_at D k f)"

definition handlers_typed :: "vm_frame \<Rightarrow> bool" where
  "handlers_typed f \<longleftrightarrow> (\<forall>D. code_typed D (vf_bytecode f) \<longrightarrow> handlers_at D f)"

lemma frame_typed_handlers: "frame_typed k f \<Longrightarrow> handlers_typed f"
  by (simp add: frame_typed_def handlers_typed_def runs_at_def)

lemma lands_target:
  "lands n D i v d \<Longrightarrow> pc \<in> jump_targets (int i) v \<Longrightarrow> 0 \<le> pc \<and> pc \<le> int n \<and> D (nat pc) = d"
  by (auto simp: lands_def jump_targets_def add.commute split: woo_value.splits number.splits)

text \<open>An opcode that goes on, below the handlers.\<close>

lemma exec_op_runs:
  assumes ok: "op_ok n L N D i (name, os)" and i: "i < n"
    and e: "exec_op W (int i) os (decode_op name) g w = (Inr eff, f', w')"
    and g: "vf_pc g = int i + 1" "length (vf_stack g) = D i" and eff: "\<nexists>v. eff = Leave v"
  shows "0 \<le> vf_pc f' \<and> vf_pc f' \<le> int n
    \<and> length (vf_stack f') + (if \<exists>ctx b args. eff = Enter ctx b args then 1 else 0) = D (nat (vf_pc f'))"
proof -
  let ?op = "decode_op name" and ?in = "if \<exists>ctx b args. eff = Enter ctx b args then 1 else 0"
  obtain p q where arity: "op_arity ?op os = Some (p, q)" "p \<le> D i" "falls ?op \<longrightarrow> D (Suc i) = D i - p + q"
      "\<And>k. jump_slot ?op = Some k \<Longrightarrow> lands n D i (operand os k) (D i - p + q)"
    using ok by (auto simp: op_ok_def Let_def split: option.splits)
  have next_pc: "nat (int i + 1) = Suc i" by simp
  consider (jump) "?op = JUMP" | (push) "?op = TRY_PUSH" | (pop) "?op = TRY_POP" | (other) "?op \<notin> {TRY_PUSH, TRY_POP, JUMP}" by auto
  then show ?thesis
  proof cases
    case jump
    have "lands n D i (operand os 0) (D i)" using arity jump by (simp add: op_arity_def jump_slot_def)
    moreover have "vf_pc f' \<in> jump_targets (int i) (operand os 0)" "eff = Stay" "vf_stack f' = vf_stack g"
      using e jump by (auto simp: stay_def VM_Frame.jump_def op_seq_def op_check_def op_update_def op_give_def jump_targets_def
          dest!: numeric_Inr split: sum.splits)
    ultimately show ?thesis using lands_target [of n D i "operand os 0" "D i" "vf_pc f'"] g(2) by simp
  next
    case push
    have "vf_pc f' = vf_pc g" "eff = Stay" "vf_stack f' = vf_stack g"
      using e push by (auto simp: exec_try_push_def handler_errors_def stay_def op_seq_def op_check_def op_update_def op_give_def literal_def
          op_read_def woo_fail_def op_fail_def split: sum.splits if_splits woo_value.splits)
    moreover have "D (Suc i) = D i" using arity push by (simp add: op_arity_def falls_def)
    ultimately show ?thesis using g i by (simp add: nat_add_distrib)
  next
    case pop
    have "vf_pc f' = vf_pc g" "eff = Stay" "vf_stack f' = vf_stack g"
      using e pop by (auto simp: exec_try_pop_def stay_def op_seq_def op_read_def op_update_def op_give_def woo_fail_def op_fail_def
          split: sum.splits if_splits)
    moreover have "D (Suc i) = D i" using arity pop by (simp add: op_arity_def falls_def)
    ultimately show ?thesis using g i by (simp add: nat_add_distrib)
  next
    case other
    have flow: "int (length (vf_stack f')) + ?in = int (length (vf_stack g)) + (int q - int p)"
      "vf_pc f' = vf_pc g \<or> vf_pc f' \<in> op_targets (int i) os ?op"
      using exec_op_flows [OF arity(1) other, of "int i" W, unfolded op_flows_def, rule_format, of g w] e by auto
    have len: "length (vf_stack f') + ?in = D i - p + q" using flow(1) g(2) arity(2) by (simp split: if_splits)
    have "falls ?op"
    proof (rule ccontr)
      assume "\<not> falls ?op"
      then have "?op = RETURN \<or> ?op = RAISE" using other by (auto simp: falls_def)
      then show False using e eff
        by (auto simp: exec_return_def exec_raise_def op_seq_def pop_def op_give_def op_fail_def split: sum.splits prod.splits list.splits)
    qed
    then have "D (Suc i) = D i - p + q" using arity(3) by simp
    then have "vf_pc f' = vf_pc g \<Longrightarrow> ?thesis" using len g(1) i next_pc by simp
    moreover have ?thesis if t: "vf_pc f' \<in> op_targets (int i) os ?op"
    proof -
      obtain k where k: "jump_slot ?op = Some k" "vf_pc f' \<in> jump_targets (int i) (operand os k)"
        using t by (auto simp: op_targets_def split: option.splits)
      show ?thesis using lands_target [OF arity(4) [OF k(1)] k(2)] len by simp
    qed
    ultimately show ?thesis using flow(2) by blast
  qed
qed

text \<open>Handlers stay, but for the one \<open>TRY_PUSH\<close> adds and the one \<open>TRY_POP\<close> drops.\<close>

lemma exec_op_handlers:
  assumes ok: "op_ok n L N D i (name, os)" and e: "exec_op W (int i) os (decode_op name) g w = (r, f', w')"
    and g: "length (vf_stack g) = D i" "handlers_at D g" "length (bc_ops (vf_bytecode g)) = n" "vf_bytecode f' = vf_bytecode g"
  shows "handlers_at D f'"
proof -
  let ?op = "decode_op name"
  obtain p q where arity: "op_arity ?op os = Some (p, q)" using ok by (auto simp: op_ok_def Let_def split: option.splits)
  have same: "handlers_at D f'" if "set (vf_handlers f') \<subseteq> set (vf_handlers g)" using that g by (auto simp: handlers_at_def)
  consider (jump) "?op = JUMP" | (push) "?op = TRY_PUSH" | (pop) "?op = TRY_POP" | (other) "?op \<notin> {TRY_PUSH, TRY_POP, JUMP}" by auto
  then show ?thesis
  proof cases
    case jump
    have "vf_handlers f' = vf_handlers g"
      using e jump by (auto simp: stay_def VM_Frame.jump_def op_seq_def op_check_def op_update_def op_give_def split: sum.splits)
    then show ?thesis using same by simp
  next
    case push
    have "lands n D i (operand os 0) (Suc (D i))" using ok push by (simp add: op_ok_def Let_def split: option.splits)
    moreover have "set (vf_handlers f') \<subseteq> set (vf_handlers g) \<or> (\<exists>t es. t \<in> jump_targets (int i) (operand os 0) \<and>
        vf_handlers f' = \<lparr>vh_targetPc = t, vh_errors = es, vh_stackDepth = length (vf_stack g)\<rparr> # vf_handlers g)"
      using e push by (auto simp: exec_try_push_def handler_errors_def stay_def op_seq_def op_check_def op_update_def op_give_def
          literal_def op_read_def woo_fail_def op_fail_def jump_targets_def dest!: numeric_Inr split: sum.splits if_splits woo_value.splits)
    ultimately show ?thesis using same g lands_target by (fastforce simp: handlers_at_def)
  next
    case pop
    have "set (vf_handlers f') \<subseteq> set (vf_handlers g)"
      using e pop set_tl_mem by (auto simp: exec_try_pop_def stay_def op_seq_def op_read_def op_update_def op_give_def woo_fail_def
          op_fail_def split: sum.splits if_splits)
    then show ?thesis by (rule same)
  next
    case other
    have "vf_handlers f' = vf_handlers g"
      using exec_op_flows [OF arity other, of "int i" W, unfolded op_flows_def, rule_format, of g w] e by auto
    then show ?thesis using same by simp
  qed
qed

text \<open>One dispatched opcode of typed code.\<close>

lemma dispatch_op_typed:
  assumes typed: "code_typed D (vf_bytecode f)" and f: "runs_at D 0 f" and pc: "vf_pc f < int (length (bc_ops (vf_bytecode f)))"
    and d: "dispatch_op W f w = (r, f', w')"
  shows "handlers_at D f'" "r = Inr Stay \<Longrightarrow> runs_at D 0 f'" "r = Inr (Enter ctx b args) \<Longrightarrow> runs_at D 1 f'"
proof -
  let ?b = "vf_bytecode f" and ?n = "length (bc_ops (vf_bytecode f))"
  obtain i where i: "vf_pc f = int i" "i < ?n" using f pc nonneg_int_cases by (metis of_nat_less_iff runs_at_def)
  obtain name os where op: "bc_ops ?b ! i = (name, os)" by fastforce
  define g where "g = f\<lparr>vf_pc := vf_pc f + 1, vf_ticksRemaining := vf_ticksRemaining f - tickWeight (decode_op name)\<rparr>"
  have ok: "op_ok ?n (length (bc_literals ?b)) (nat (bc_num_locals ?b)) D i (name, os)"
    using typed op i(2) unfolding code_typed_def by metis
  have g: "vf_pc g = int i + 1" "length (vf_stack g) = D i" "handlers_at D g" "vf_bytecode g = ?b"
    using f i by (auto simp: g_def runs_at_def handlers_at_def)
  have same: "vf_bytecode f' = ?b" using dispatch_op_le [OF d] by (simp add: frame_le_def)
  obtain now w1 where now: "vw_now W w = (now, w1)" by fastforce
  have "f' = g \<and> (\<exists>e. r = Inl e) \<or> exec_op W (int i) os (decode_op name) g w1 = (r, f', w')"
    using d by (auto simp: dispatch_op_def op Let_def g_def i(1) now split: if_splits)
  then consider (early) e where "f' = g" "r = Inl e" | (exec) "exec_op W (int i) os (decode_op name) g w1 = (r, f', w')"
    by blast
  then have h: "handlers_at D f' \<and> (\<forall>eff. r = Inr eff \<longrightarrow> (\<nexists>v. eff = Leave v) \<longrightarrow>
      runs_at D (if \<exists>ctx b args. eff = Enter ctx b args then 1 else 0) f')"
  proof cases
    case exec
    have "handlers_at D f'" by (rule exec_op_handlers [OF ok exec g(2,3)]) (simp_all add: g(4) same)
    moreover have "runs_at D (if \<exists>ctx b args. eff = Enter ctx b args then 1 else 0) f'" if "r = Inr eff" "\<nexists>v. eff = Leave v" for eff
      using exec_op_runs [OF ok i(2) exec [unfolded that(1)] g(1,2) that(2)] \<open>handlers_at D f'\<close> by (simp add: runs_at_def same)
    ultimately show ?thesis by blast
  qed (use g in auto)
  show "handlers_at D f'" using h by simp
  show "r = Inr Stay \<Longrightarrow> runs_at D 0 f'" "r = Inr (Enter ctx b args) \<Longrightarrow> runs_at D 1 f'" using h by force+
qed

lemma raise_typed:
  assumes "raise error fs = Some fs'" "\<forall>g \<in> set fs. handlers_typed g"
  obtains upper g rest g' where "fs = upper @ g # rest" "fs' = g' # rest" "frame_typed 0 g'"
  using assms
proof (induction fs arbitrary: thesis)
  case (Cons f fs)
  show ?case
  proof (cases "find_handler (error_code error) (vf_handlers f)")
    case None
    then have "raise error fs = Some fs'" using Cons.prems(2) by simp
    then obtain upper g rest g' where "fs = upper @ g # rest" "fs' = g' # rest" "frame_typed 0 g'"
      by (rule Cons.IH [rotated]) (use Cons.prems(3) in auto)
    then show thesis using Cons.prems(1) [of "f # upper" g rest g'] by simp
  next
    case (Some r)
    obtain h hs where r: "r = (h, hs)" by (cases r)
    then have h: "h \<in> set (vf_handlers f)" "set hs \<subseteq> set (vf_handlers f)" using find_handler_shorter Some by blast+
    have fs': "fs' = f\<lparr>vf_handlers := hs, vf_stack := WMap error # set_length (vh_stackDepth h) (vf_stack f), vf_pc := vh_targetPc h\<rparr> # fs"
      using Cons.prems(2) Some r by (auto simp: Let_def split: if_splits)
    have "length (set_length (vh_stackDepth h) (vf_stack f)) = vh_stackDepth h" by (simp add: set_length_def)
    then have "frame_typed 0 (hd fs')"
      using Cons.prems(3) h fs' by (auto simp: frame_typed_def handlers_typed_def runs_at_def handlers_at_def)
    then show thesis using Cons.prems(1) [of "[]" f fs "hd fs'"] fs' by simp
  qed
qed simp

section \<open>Reachable frame stacks\<close>

definition stack_typed :: "vm_frame list \<Rightarrow> bool" where
  "stack_typed fs \<longleftrightarrow> (case fs of [] \<Rightarrow> True | f # rest \<Rightarrow> frame_typed 0 f \<and> list_all (frame_typed 1) rest)"

lemma push_value_typed: "push_value v g = Inr g' \<Longrightarrow> frame_typed 1 g \<Longrightarrow> frame_typed 0 g'"
  by (fastforce simp: push_value_def frame_typed_def runs_at_def handlers_at_def split: if_splits)

lemma handle_thrown_typed:
  assumes "handle_thrown W e fs pc w = Running fs' w'" "\<forall>g \<in> set fs. handlers_typed g" "list_all (frame_typed 1) (tl fs)"
  shows "stack_typed fs'"
proof -
  obtain error where "raise error fs = Some fs'"
    using assms(1) by (auto simp: handle_thrown_def Let_def simp del: raise.simps split: if_splits option.splits)
  from raise_typed [OF this assms(2)] obtain upper g rest g' where r: "fs = upper @ g # rest" "fs' = g' # rest" "frame_typed 0 g'" .
  then have "list_all (frame_typed 1) rest" using assms(3) by (cases upper) auto
  then show ?thesis using r by (simp add: stack_typed_def)
qed

lemma dispatch_frame_typed:
  assumes "frame_typed 0 f" "vf_pc f < int (length (bc_ops (vf_bytecode f)))" "dispatch_op W f w = (r, f', w')"
  shows "handlers_typed f'" "r = Inr Stay \<Longrightarrow> frame_typed 0 f'" "r = Inr (Enter ctx b args) \<Longrightarrow> frame_typed 1 f'"
proof -
  have "vf_bytecode f' = vf_bytecode f" using dispatch_op_le [OF assms(3)] by (simp add: frame_le_def)
  moreover have "runs_at D 0 f" if "code_typed D (vf_bytecode f)" for D using assms(1) that by (simp add: frame_typed_def)
  note typed = dispatch_op_typed [OF _ this assms(2,3)]
  ultimately show "handlers_typed f'" "r = Inr Stay \<Longrightarrow> frame_typed 0 f'" "r = Inr (Enter ctx b args) \<Longrightarrow> frame_typed 1 f'"
    using typed by (simp_all add: frame_typed_def handlers_typed_def)
qed

lemma fresh_frame_typed: "fresh_frame c \<Longrightarrow> frame_typed 0 c"
  by (simp add: fresh_frame_def frame_typed_def runs_at_def handlers_at_def code_typed_def)

lemma vm_step_typed:
  assumes fs: "stack_typed fs" and run: "vm_step W fs w = Running fs' w'"
  shows "stack_typed fs'"
proof (cases fs)
  case (Cons f rest)
  define w1 where "w1 = vw_setTurnRecorderFrame W (vf_ctx f) w"
  obtain r f' w2 where d: "dispatch_op W f w1 = (r, f', w2)" by (cases "dispatch_op W f w1")
  have f: "frame_typed 0 f" and rest: "list_all (frame_typed 1) rest" using fs Cons by (simp_all add: stack_typed_def)
  have lower: "\<forall>g \<in> set rest. handlers_typed g" using rest frame_typed_handlers by (auto simp: list_all_iff)
  show ?thesis
  proof (cases "vf_pc f \<ge> int (length (bc_ops (vf_bytecode f)))")
    case True
    then obtain g g' under where "rest = g # under" "push_value WNull g = Inr g'" "fs' = g' # under"
      using run Cons by (auto simp: Let_def w1_def [symmetric] split: list.splits sum.splits)
    then show ?thesis using rest push_value_typed by (auto simp: stack_typed_def)
  next
    case False
    note df = dispatch_frame_typed [OF f _ d]
    have thrown: "stack_typed fs'" if "handle_thrown W e (f' # rest) pc w3 = Running fs' w'" for e pc w3
      using handle_thrown_typed [OF that] df(1) False lower rest by simp
    show ?thesis
    proof (cases r)
      case (Inl e)
      then show ?thesis using run Cons False d thrown by (auto simp: Let_def w1_def [symmetric] split: if_splits)
    next
      case (Inr eff)
      show ?thesis
      proof (cases eff)
        case Stay
        then have "fs' = f' # rest" using run Cons False d Inr by (auto simp: Let_def w1_def [symmetric] split: if_splits)
        then show ?thesis using df(2) False rest Inr Stay by (simp add: stack_typed_def)
      next
        case (Enter ctx b args)
        obtain r3 w3 where p: "pushFrame W (length (f' # rest)) ctx b args w2 = (r3, w3)" by fastforce
        show ?thesis
        proof (cases r3)
          case (Inl e)
          then show ?thesis using run Cons False d Enter p thrown \<open>r = Inr eff\<close> by (auto simp: Let_def w1_def [symmetric] split: if_splits)
        next
          case (Inr c)
          then have "makeFrame W ctx b args w2 = (Inr c, w3)" using p by (auto simp: pushFrame_def split: if_splits)
          then have "fresh_frame c" by (rule conjunct1 [OF makeFrame_fresh])
          moreover have "fs' = c # f' # rest"
            using run Cons False d Enter p Inr \<open>r = Inr eff\<close> by (auto simp: Let_def w1_def [symmetric] split: if_splits)
          ultimately show ?thesis using df(3) False Enter \<open>r = Inr eff\<close> fresh_frame_typed rest by (simp add: stack_typed_def)
        qed
      next
        case (Leave v)
        show ?thesis
        proof (cases rest)
          case (Cons g under)
          show ?thesis
          proof (cases "push_value v g")
            case (Inr g')
            then have "fs' = g' # under"
              using run \<open>fs = f # rest\<close> Cons False d Leave \<open>r = Inr eff\<close> by (auto simp: Let_def w1_def [symmetric] split: if_splits)
            then show ?thesis using push_value_typed [OF Inr] rest Cons by (simp add: stack_typed_def)
          next
            case (Inl e)
            then have "handle_thrown W e rest (vf_pc f) w2 = Running fs' w'"
              using run \<open>fs = f # rest\<close> Cons False d Leave \<open>r = Inr eff\<close> by (auto simp: Let_def w1_def [symmetric] split: if_splits)
            then show ?thesis by (rule handle_thrown_typed) (use lower rest Cons in auto)
          qed
        qed (use run \<open>fs = f # rest\<close> False d Leave \<open>r = Inr eff\<close> in \<open>auto simp: Let_def w1_def [symmetric] split: if_splits\<close>)
      qed
    qed
  qed
qed (use run in simp)

lemma vm_reach_typed: "vm_reach W fs \<Longrightarrow> stack_typed fs"
proof (induction rule: vm_reach.induct)
  case (reach_start ctx b args w f w')
  then have "fresh_frame f" by (rule conjunct1 [OF makeFrame_fresh])
  then show ?case by (simp add: stack_typed_def fresh_frame_typed)
qed (rule vm_step_typed)

end
