(* ===== verification/Compiler_Facts.thy ===== *)
theory Compiler_Facts
  imports Stack_Safety
begin

text \<open>
  What holds of verb sources compiled and run: the operand stack of compiled code has a depth fixed by the
  program counter in every run, so no opcode ever finds too few values; and a \<open>break\<close> out of a \<open>try\<close> leaves
  its handler behind.
\<close>

section \<open>Stack discipline\<close>

text \<open>
  C18: compiled code keeps its operand stack. For every program the code generator accepts there is one depth
  per program counter such that, in every run against any world, whichever frames are above or below and
  however errors and handlers divert it, the frame on top that runs the code is at a counter of the code with
  exactly that many values on its stack; its opcode is a known one, finds the values it takes, and its literal
  and local operands are in range.
\<close>

theorem compiled_stack_discipline:
  assumes compiled: "compile_program p = Inr c"
  shows "\<exists>D. \<forall>W f rest. vm_reach W (f # rest) \<and> vf_bytecode f = co_bytecode c \<longrightarrow>
      0 \<le> vf_pc f \<and> vf_pc f \<le> int (length (bc_ops (co_bytecode c))) \<and> length (vf_stack f) = D (nat (vf_pc f))
      \<and> (\<forall>name os. vf_pc f < int (length (bc_ops (co_bytecode c))) \<and> bc_ops (co_bytecode c) ! nat (vf_pc f) = (name, os) \<longrightarrow>
          (\<exists>pops pushes. op_arity (decode_op name) os = Some (pops, pushes) \<and> pops \<le> length (vf_stack f))
          \<and> list_all (\<lambda>k. index_below (operand os k) (length (bc_literals (co_bytecode c)))) (literal_slots (decode_op name))
          \<and> list_all (\<lambda>k. index_below (operand os k) (length (vf_locals f))) (local_slots (decode_op name)))"
proof -
  let ?b = "co_bytecode c" and ?n = "int (length (bc_ops (co_bytecode c)))"
  obtain D where D: "code_typed D ?b" using compile_program_typed [OF compiled] by blast
  have "0 \<le> vf_pc f \<and> vf_pc f \<le> ?n \<and> length (vf_stack f) = D (nat (vf_pc f))
      \<and> (\<forall>name os. vf_pc f < ?n \<and> bc_ops ?b ! nat (vf_pc f) = (name, os) \<longrightarrow>
          (\<exists>pops pushes. op_arity (decode_op name) os = Some (pops, pushes) \<and> pops \<le> length (vf_stack f))
          \<and> list_all (\<lambda>k. index_below (operand os k) (length (bc_literals ?b))) (literal_slots (decode_op name))
          \<and> list_all (\<lambda>k. index_below (operand os k) (length (vf_locals f))) (local_slots (decode_op name)))"
    if reach: "vm_reach W (f # rest)" and b: "vf_bytecode f = ?b" for W :: "'a vm_world" and f rest
  proof -
    have at: "runs_at D 0 f" using vm_reach_typed [OF reach] D b by (simp add: stack_typed_def frame_typed_def)
    have locals: "nat (bc_num_locals ?b) = length (vf_locals f)"
      using vm_reach_ok [OF reach] b by (auto simp: frame_ok_def)
    have "(\<exists>pops pushes. op_arity (decode_op name) os = Some (pops, pushes) \<and> pops \<le> length (vf_stack f))
          \<and> list_all (\<lambda>k. index_below (operand os k) (length (bc_literals ?b))) (literal_slots (decode_op name))
          \<and> list_all (\<lambda>k. index_below (operand os k) (length (vf_locals f))) (local_slots (decode_op name))"
      if "vf_pc f < ?n" and op: "bc_ops ?b ! nat (vf_pc f) = (name, os)" for name os
    proof -
      have "nat (vf_pc f) < length (bc_ops ?b)" using that(1) at by (simp add: runs_at_def nat_less_iff)
      then have "op_ok (length (bc_ops ?b)) (length (bc_literals ?b)) (length (vf_locals f)) D (nat (vf_pc f)) (name, os)"
        using D op locals unfolding code_typed_def by metis
      then show ?thesis using at by (auto simp: op_ok_def Let_def runs_at_def split: option.splits)
    qed
    then show ?thesis using at b by (simp add: runs_at_def)
  qed
  then show ?thesis by blast
qed

section \<open>Programs\<close>

definition any_span :: source_span where
  "any_span = \<lparr>sn_index = 0, sn_end = 0, sn_line = 1, sn_column = 0, sn_end_line = 1, sn_end_column = 0\<rparr>"

abbreviation lit :: "woo_value \<Rightarrow> expr" where
  "lit v \<equiv> LiteralExpr v any_span"

abbreviation block :: "stmt list \<Rightarrow> block" where
  "block sts \<equiv> Block sts any_span"

definition verb_program :: "stmt list \<Rightarrow> program" where
  "verb_program sts = \<lparr>pg_name = ''f'', pg_params = [], pg_perms = ''rx'', pg_argSpec = [], pg_body = block sts, pg_span = any_span\<rparr>"

text \<open>\<open>for x in [1] { try { ... } except e { return "caught"; } } return 1 / 0;\<close>\<close>

definition guarded_loop :: "stmt list \<Rightarrow> program" where
  "guarded_loop sts = verb_program
     [ForStmt ''x'' None (ListExpr [lit (WInt 1)] any_span)
        (block [TryStmt (block sts) ''e'' [] (block [ReturnStmt (Some (lit (WStr ''caught''))) any_span]) any_span]) any_span,
      ReturnStmt (Some (BinaryExpr ''/'' (lit (WInt 1)) (lit (WInt 0)) any_span)) any_span]"

definition run_program :: "program \<Rightarrow> (thrown + woo_value) option" where
  "run_program p = (case compile_program p of
      Inl _ \<Rightarrow> None
    | Inr c \<Rightarrow> Some (fst (runTinyVm demo_vm demo_context (co_bytecode c) [] ())))"

text \<open>
  Leaving the loop through the end of the \<open>try\<close>, its handler is gone and the division escapes; leaving it by
  \<open>break\<close>, the jump skips the \<open>TRY_POP\<close>, and the handler of the loop answers an error raised after it.
\<close>

theorem break_leaves_handler:
  "run_program (guarded_loop [BreakStmt any_span]) = Some (Inr (WStr ''caught''))"
  by code_simp

theorem fall_through_drops_handler:
  "case run_program (guarded_loop []) of Some (Inl (Woo_thrown e)) \<Rightarrow> error_code e = ''E_DIV'' | _ \<Rightarrow> False"
  by code_simp

definition loop_code :: compiled where
  "loop_code = (case compile_program (guarded_loop [BreakStmt any_span]) of Inr c \<Rightarrow> c)"

definition loop_frame :: vm_frame where
  "loop_frame = (case fst (makeFrame demo_vm demo_context (co_bytecode loop_code) [] ()) of Inr f \<Rightarrow> f)"

lemma loop_code: "compile_program (guarded_loop [BreakStmt any_span]) = Inr loop_code"
proof -
  have "\<not> isl (compile_program (guarded_loop [BreakStmt any_span]))" by code_simp
  then show ?thesis unfolding loop_code_def by (cases "compile_program (guarded_loop [BreakStmt any_span])") auto
qed

lemma loop_frame: "vm_reach demo_vm [loop_frame]" "vf_bytecode loop_frame = co_bytecode loop_code"
proof -
  have "\<not> isl (fst (makeFrame demo_vm demo_context (co_bytecode loop_code) [] ()))" by code_simp
  then obtain f w' where f: "makeFrame demo_vm demo_context (co_bytecode loop_code) [] () = (Inr f, w')"
    by (metis fst_conv old.sum.exhaust isl_def surj_pair)
  then have "loop_frame = f" by (simp add: loop_frame_def)
  then show "vm_reach demo_vm [loop_frame]" "vf_bytecode loop_frame = co_bytecode loop_code"
    using f reach_start makeFrame_fresh by metis+
qed

theorem compiled_stack_discipline_witness:
  "vm_reach demo_vm [loop_frame] \<and> vf_bytecode loop_frame = co_bytecode loop_code \<and>
    (\<exists>D. \<forall>f rest. vm_reach demo_vm (f # rest) \<and> vf_bytecode f = co_bytecode loop_code \<longrightarrow> length (vf_stack f) = D (nat (vf_pc f)))"
proof -
  obtain D where "\<forall>(W :: unit vm_world) f rest. vm_reach W (f # rest) \<and> vf_bytecode f = co_bytecode loop_code \<longrightarrow>
      length (vf_stack f) = D (nat (vf_pc f))"
    using compiled_stack_discipline [OF loop_code, where 'a = unit] by blast
  then show ?thesis using loop_frame by blast
qed

end
