(* ===== verification/Spec2Isabelle.thy ===== *)
theory Spec2Isabelle
  imports Fractional_Rank Source_Hash Net_Errors Cells Ordered_Edges Transcript Relations Attribution
    Api_Keys Verb_Slots Replay_Pages Failed_Effects Scope_History Write_Through Session_Facts Route Fanout_Once Session_Ids Genesis
    Identity_Export VM_Facts Compiler_Facts
begin

text \<open>
  Verification of the woah coherence layer.

  \<^bold>\<open>The program.\<close> A woah world is a graph of persistent objects, run as verbs, and distributed over
  many authorities. Each authority is a \<^emph>\<open>scope\<close>: a sequencer (\<open>src/net/scope.ts\<close>) that owns the cells of
  the objects classified into it, orders the turns that write them and answers retries. A turn is
  planned elsewhere, against cached cells, and recorded as an \<^emph>\<open>effect transcript\<close>; the planner selects the
  scope that must serialize it (\<open>route.ts\<close> over \<open>topology.ts\<close>), predicts the digest of the post-state
  and submits. The sequencer validates reads, sessions, schedules and the digest, applies the transcript
  to its cell store (\<open>cells.ts\<close>, \<open>transcript.ts\<close>), derives relation rows (\<open>relations.ts\<close>), advances its
  hash-chained head, records the outcome for retries, writes everything through to its durable store
  (\<open>scope-store.ts\<close>) and enqueues the facts other scopes need (\<open>outbox.ts\<close>), which apply them once.

  \<^bold>\<open>The theories,\<close> in dependency order; each definition keeps the name of the function or type it models.

  \<^item> \<open>Woo_Prelude\<close>: JavaScript values, insertion-ordered maps (\<open>jsmap\<close>) and sets, string and sorting lemmas.
  \<^item> \<open>Fractional_Rank\<close> (\<open>core/fractional-rank.ts\<close>), \<open>Source_Hash\<close> (\<open>core/source-hash.ts\<close>, SHA-256 on 32-bit
    words), \<open>Net_Errors\<close> (\<open>net/errors.ts\<close>), \<open>Verb_Slots\<close> (\<open>net/verb-slots.ts\<close>, \<open>core/verb-name-match.ts\<close>),
    \<open>Session_Ids\<close> (\<open>net/session-id.ts\<close>, \<open>client-session-policy.ts\<close>, \<open>turn-echo.ts\<close>).
  \<^item> \<open>Cells\<close> (\<open>net/cells.ts\<close>): the record \<open>cell_store\<close> with its map and five derived indexes, its
    operations, and lineage-closed transfers. \<open>Ordered_Edges\<close> (\<open>ordered-edge.ts\<close>, \<open>ordered-edges.ts\<close>).
  \<^item> \<open>Transcript\<close> (\<open>net/transcript.ts\<close> and the types of \<open>core/effect-transcript.ts\<close>): \<open>applyTranscript\<close> with
    creates, writes, moves, recycles and projections. \<open>Stamp_Free\<close>: application commutes with forgetting
    stamps. \<open>Failed_Effects\<close> (\<open>core/failed-transcript-effects.ts\<close>).
  \<^item> \<open>Relations\<close>, \<open>Attribution\<close>, \<open>Api_Keys\<close>, \<open>Replay_Pages\<close>: the modules of the same names.
  \<^item> \<open>Scope_Types\<close> and \<open>Sequencer\<close>: the vocabulary and the state of \<open>ScopeSequencer\<close> (record \<open>sequencer\<close>)
    over the record \<open>scope_store\<close> of \<open>net/scope-store.ts\<close>; \<open>Reply_Cache\<close>, \<open>Schedules\<close>, \<open>Submit\<close>,
    \<open>Sessions\<close> (\<open>net/sessions.ts\<close>) and \<open>Scope_Ops\<close> hold its operations, \<open>Submit_Facts\<close>,
    \<open>Session_Facts\<close> and \<open>Adoption\<close> what one call does.
  \<^item> \<open>Scope_Machine\<close>: the sequencer as a step relation (\<open>scope_step\<close>, \<open>scope_run\<close>), one rule per public
    operation. Over it \<open>Exactly_Once\<close> (retries), \<open>Scope_History\<close> (the recovery tail against the list of all
    heads) and \<open>Durable_Tables\<close>/\<open>Write_Through\<close> (memory against the durable store).
  \<^item> \<open>Topology\<close> (\<open>net/topology.ts\<close>) and \<open>Route\<close> (\<open>net/route.ts\<close>); \<open>Outbox\<close>, \<open>Outbox_Facts\<close> and
    \<open>Fanout_Once\<close> (\<open>net/outbox.ts\<close>); \<open>Genesis\<close> (\<open>net/guest.ts\<close>, \<open>net/identity-anchor.ts\<close>);
    \<open>Identity_Export\<close> (\<open>net/identity.ts\<close>, export side).
  \<^item> \<open>Woo_Value\<close> (\<open>core/types.ts\<close>: values, equality, truth, conversions, error values), \<open>VM_Frame\<close> (frames, the
    record \<open>vm_world\<close> of the operations the interpreter asks of \<open>core/world.ts\<close>, and the primitives on a frame),
    \<open>VM_Builtins\<close> (every builtin) and \<open>Tiny_VM\<close> (opcodes, \<open>exec_op\<close>, verb calls, error handling, one step of
    the loop) model \<open>core/tiny-vm.ts\<close>; \<open>VM_Run\<close> is the loop \<open>runVmFrames\<close> with its termination order, and
    \<open>VM_Facts\<close> the reachable frame stacks and what holds of them.
  \<^item> \<open>Dsl_Codegen\<close>: the code generator of \<open>core/dsl-compiler.ts\<close> over the syntax tree, a function of the state
    \<open>codegen\<close> per method. \<open>Code_Types\<close> assigns every opcode its arity and types code by stack depths;
    \<open>Codegen_Typed\<close> (expressions) and \<open>Codegen_Sound\<close> (statements, loops, handlers) show that generated code is
    typed, \<open>Stack_Safety\<close> that the interpreter keeps typed frames typed, \<open>Compiler_Facts\<close> what follows.

  \<^bold>\<open>Interfaces.\<close> Locales state what a client relies on, and each is interpreted on the model's own
  definitions: \<open>cell_index\<close> (a derived index agrees with a scan; the object, session, roster and lineage
  indexes of the store), \<open>rank_scheme\<close> (dense order keys; \<open>rankBetween\<close>), \<open>turn_queue\<close> (delivery order of
  scheduled turns; the durable table, the queue of a scope and its pop), \<open>durable_table\<close> (a table mirrors a
  map; relation and verifier rows), \<open>routable_id\<close> (hints in identifiers; sessions and tickets).

  \<^bold>\<open>What is shown.\<close> For a scope: acceptance is all or nothing and commits exactly the predicted post-state;
  accepted reads were current; an outcome under a leased key answers every retry along any run; the tail
  search accepts exactly the retained heads; a sequencer rebuilt from the durable store after any run is
  the one that was running; adoption never overwrites a newer owner cell; each session a turn names has
  live evidence or is foreign and read without a version (a case the comments of \<open>sessions.ts\<close> exclude and
  \<open>unversioned_session_read_instance\<close> evaluates); the digest a session mint predicts is the one its commit
  computes; the reply cache stays in its bounds, and the schedule queue up to the cancellations the quota
  counts twice; a delivery takes the oldest due turns and pops exactly what it returns, and
  \<open>parked_batch_blocks\<close> evaluates how a full batch of parked turns holds back a deliverable one.
  For the data: store indexes agree with scans, transfers are lineage-closed, application keeps the store
  sound with an explicit frame and is independent of stamps, recycling leaves exactly the tombstone, and
  routed credential identifiers parse back to what they were minted for. Between scopes:
  placement walks terminate and match a declarative classification, one scope serializes every turn, and
  facts sent over a lossy link are applied once and in order. For identities: guests are born whole, operator
  anchors cannot be authenticated as, and the export is the least selection closed under owners of agents.
  For the interpreter, against any world and any bytecode: frames, stacks and ticks stay bounded, no opcode
  completes after allocating past the memory limit, every frame is linked to its caller by a checked call,
  errors reach exactly the innermost handler that takes them, and every run ends. Code the generator makes
  has one operand stack depth per program counter in every run; a \<open>break\<close> out of a \<open>try\<close> leaves its
  handler installed (\<open>break_leaves_handler\<close>).

  \<^bold>\<open>Bounds and fuel.\<close> No definition uses fuel. The lineage walks of \<open>Topology\<close> are partial functions into
  \<open>option\<close>, and \<open>None\<close> is proved impossible on finite lineages; the other loops have measures (distinct
  visited objects in \<open>Identity_Export\<close>, the interval of a binary search in \<open>Cells\<close>, the remaining
  digits in \<open>Fractional_Rank\<close>). The interpreter loop \<open>vm_run\<close> is total: the ticks left and handlers of each frame, over at
  most 128 frames, decrease lexicographically with every step. A repeated string is refused above the
  engine's longest string (2^29 - 24 code units). Woo numbers are integers, the infinities and \<open>NaN\<close>;
  fractions are not modelled. Words are used where the source wraps (SHA-256 and the FNV hash of the
  backoff jitter); times and sequence numbers are integers below the exactness limit of doubles, as the
  source assumes. Strings are lists of characters, the code units below 256, but for the references in a
  routed credential identifier, which are lists of 16-bit code units (\<open>Api_Keys\<close>) with the encoder and the
  fatal decoder of UTF-8 on all of them.

  \<^bold>\<open>Parameters.\<close> The shell's callbacks (authorization, ownership, scope resolution, delivery outcomes, the
  yield test of a drain) are fields of records or arguments; \<open>localeCompare\<close> is a total preorder where its
  properties matter; wall-clock reads are arguments.

  \<^bold>\<open>Not modelled.\<close> The object database (\<open>core/world.ts\<close>), which is a parameter of the interpreter (its operations on an
  abstract state, with no assumption on them), the lexer and parser of \<open>core/dsl-compiler.ts\<close> (the
  generator takes any tree) and the planner that drives them (\<open>net/plan.ts\<close>,
  \<open>net/bridge.ts\<close>): transcripts enter the model as data, and every theorem about them holds for any
  transcript. The import side of \<open>net/identity.ts\<close> acts on the live object database. The worker shells
  (\<open>src/worker\<close>), transports (\<open>src/mcp\<close>, \<open>src/server\<close>), the browser client, catalogs, telemetry and deployment
  scripts are platform input and output around this core; the earlier commit path (\<open>core/shadow-*\<close>) is its
  predecessor, of which only the shared pieces are modelled.
\<close>

end
